(* ===== verification/AIW_Prelude.thy ===== *)
theory AIW_Prelude
  imports Complex_Main "HOL-Library.Word"
begin

text \<open>
  Shared vocabulary of the development: the machine integers of TrinityCore (\<open>uint8\<close>,
  \<open>uint32\<close>, \<open>uint64\<close> as words, so that every addition and subtraction wraps as in C++),
  the binary32 values with comparisons and \<open>std::isfinite\<close> (arithmetic is in \<open>Float_Arith\<close>), object guids, the fact collections of the development, and the lemmas on words
  that the components share.
\<close>

named_theorems guards "definitions of the Boolean guards of the handlers"
named_theorems preserved "one preservation lemma per operation"

type_synonym u8 = "8 word"
type_synonym u32 = "32 word"
type_synonym u64 = "64 word"

abbreviation u32_max :: u32 where "u32_max \<equiv> - 1"
abbreviation u64_max :: u64 where "u64_max \<equiv> - 1"

text \<open>\<open>uint64(x)\<close> of a 32-bit value.\<close>

definition widen :: "u32 \<Rightarrow> u64" where
  "widen x = ucast x"

section \<open>Floating point values\<close>

text \<open>
  Most of the code stores floats and compares them; \<open>Float_Arith\<close> adds the arithmetic. Every finite binary32 value is a rational, a comparison of two of them is exact, and a
  comparison with a NaN is false.
\<close>

datatype flt = NaN | NegInf | PosInf | Fin rat

fun isfinite :: "flt \<Rightarrow> bool" where
  "isfinite (Fin _) = True"
| "isfinite _ = False"

fun flt_lt :: "flt \<Rightarrow> flt \<Rightarrow> bool" where
  "flt_lt (Fin a) (Fin b) = (a < b)"
| "flt_lt NegInf (Fin _) = True"
| "flt_lt NegInf PosInf = True"
| "flt_lt (Fin _) PosInf = True"
| "flt_lt _ _ = False"

fun flt_eq :: "flt \<Rightarrow> flt \<Rightarrow> bool" where
  "flt_eq (Fin a) (Fin b) = (a = b)"
| "flt_eq NegInf NegInf = True"
| "flt_eq PosInf PosInf = True"
| "flt_eq _ _ = False"

definition flt_le :: "flt \<Rightarrow> flt \<Rightarrow> bool" where
  "flt_le a b = (flt_lt a b \<or> flt_eq a b)"

lemma isfinite_iff: "isfinite x = (\<exists>q. x = Fin q)"
  by (cases x) auto

lemma flt_le_Fin [simp]: "flt_le (Fin a) (Fin b) = (a \<le> b)"
  by (auto simp: flt_le_def)

section \<open>Object guids\<close>

text \<open>
  \<open>ObjectGuid\<close> wraps a \<open>uint64\<close>; bits 48 to 63 are the \<open>HighGuid\<close>. The empty guid is 0, and a
  player has high part 0, which is why \<open>IsPlayer\<close> excludes the empty guid.
\<close>

type_synonym ObjectGuid = u64

definition GetHigh :: "ObjectGuid \<Rightarrow> u64" where
  "GetHigh g = take_bit 16 (drop_bit 48 g)"

definition IsEmpty :: "ObjectGuid \<Rightarrow> bool" where
  "IsEmpty g = (g = 0)"

definition IsPlayer :: "ObjectGuid \<Rightarrow> bool" where
  "IsPlayer g = (\<not> IsEmpty g \<and> GetHigh g = 0)"

definition IsCreature :: "ObjectGuid \<Rightarrow> bool" where
  "IsCreature g = (GetHigh g = 0xF130)"

lemma IsPlayer_nonzero: "IsPlayer g \<Longrightarrow> g \<noteq> 0"
  by (simp add: IsPlayer_def IsEmpty_def)

section \<open>Options\<close>

lemma map_option_ident [simp]: "map_option (\<lambda>x. x) y = y" "map_option id y = y"
  by (simp_all add: option.map_ident option.map_id)

section \<open>Words\<close>

lemma unat_lt2p_32: "unat (x :: u32) < 2 ^ 32"
proof -
  have "unat x < 2 ^ LENGTH(32)" by (rule unsigned_less)
  then show ?thesis by simp
qed

lemma unat_u64_max [simp]: "unat u64_max = 18446744073709551615"
  by (simp add: unsigned_minus_1_eq_mask mask_eq_exp_minus_1)

lemma unat_u32_max [simp]: "unat u32_max = 4294967295"
  by (simp add: unsigned_minus_1_eq_mask mask_eq_exp_minus_1)

lemma unat_u64_bound: "unat (x :: u64) \<le> 18446744073709551615"
proof -
  have "unat x < 2 ^ LENGTH(64)" by (rule unsigned_less)
  then show ?thesis by simp
qed

lemma unat_of_nat_u32: "n < 2 ^ 32 \<Longrightarrow> unat (of_nat n :: u32) = n"
  by (simp add: unsigned_of_nat take_bit_nat_eq_self)

lemma unat_widen [simp]: "unat (widen a) = unat a"
proof -
  have "unat a < 2 ^ LENGTH(64)"
    using unat_lt2p_32 [of a] by simp
  then show ?thesis
    by (simp add: widen_def unsigned_ucast_eq take_bit_nat_eq_self)
qed

lemma widen_inj [simp]: "widen a = widen b \<longleftrightarrow> a = b"
  using unat_widen [of a] unat_widen [of b] by (metis word_unat_eq_iff)

lemma widen_0 [simp]: "widen 0 = 0"
  by (simp add: widen_def)

lemma widen_less: "widen a < widen b \<longleftrightarrow> a < b"
  by (simp add: word_less_nat_alt)

lemma widen_diff: "a \<le> s \<Longrightarrow> widen (s - a) = widen s - widen a"
  by (rule word_unat_eq_iff [THEN iffD2]) (simp add: word_le_nat_alt unat_sub_if')

lemma widen_add:
  assumes "unat c + unat a < 2 ^ 32"
  shows "widen (c + a) = widen c + widen a"
proof (rule word_unat_eq_iff [THEN iffD2])
  have "unat c + unat a < 2 ^ LENGTH(64)" using assms by simp
  then show "unat (widen (c + a)) = unat (widen c + widen a)"
    using assms by (simp add: unat_word_ariths)
qed

lemma word_sub_room:
  fixes c cap a :: "'a::len word"
  assumes "c \<le> cap" and "a \<le> cap - c"
  shows "unat c + unat a \<le> unat cap" and "c + a \<le> cap"
proof -
  have u: "unat (cap - c) = unat cap - unat c"
    using assms(1) by (simp add: word_le_nat_alt unat_sub_if')
  with assms show room: "unat c + unat a \<le> unat cap"
    by (simp add: word_le_nat_alt)
  have "unat cap < 2 ^ LENGTH('a)"
    by (rule unsigned_less)
  with room have "unat c + unat a < 2 ^ LENGTH('a)"
    by (rule order.strict_trans1)
  with room show "c + a \<le> cap"
    by (simp add: word_le_nat_alt unat_word_ariths)
qed

section \<open>Proving a conjunction one part at a time\<close>

lemma conj3I: "A \<Longrightarrow> B \<Longrightarrow> C \<Longrightarrow> A \<and> B \<and> C"
  by simp

lemma conj4I: "A \<Longrightarrow> B \<Longrightarrow> C \<Longrightarrow> D \<Longrightarrow> A \<and> B \<and> C \<and> D"
  by simp

lemma conj5I: "A \<Longrightarrow> B \<Longrightarrow> C \<Longrightarrow> D \<Longrightarrow> E \<Longrightarrow> A \<and> B \<and> C \<and> D \<and> E"
  by simp

end
