(* ===== verification/Std_Map.thy ===== *)
theory Std_Map
  imports AIW_Prelude
begin

text \<open>
  \<open>std::map\<close> as the code uses it: an association list in strictly ascending key order, with
  \<open>find\<close>, insertion or assignment, \<open>erase\<close>, in-order iteration and \<open>upper_bound\<close>. The
  \<open>std::unordered_map\<close>s of the code are modelled by the same type; where they are iterated,
  the result modelled does not depend on the order.

  The interface is the locale \<open>std_map\<close> (what a lookup returns after an update) and its
  extension \<open>ordered_map\<close> (in-order iteration); the components use the facts of the
  interpretation \<open>om\<close> below. The last section has \<open>std::min_element\<close> and the erasure of one
  element of a \<open>std::vector\<close> or \<open>std::deque\<close>.
\<close>

type_synonym ('k, 'v) omap = "('k \<times> 'v) list"

definition om_wf :: "('k::linorder, 'v) omap \<Rightarrow> bool" where
  "om_wf m = sorted_wrt (<) (map fst m)"

fun om_find :: "('k, 'v) omap \<Rightarrow> 'k \<Rightarrow> 'v option" where
  "om_find [] k = None"
| "om_find ((k', v) # m) k = (if k = k' then Some v else om_find m k)"

fun om_put :: "'k::linorder \<Rightarrow> 'v \<Rightarrow> ('k, 'v) omap \<Rightarrow> ('k, 'v) omap" where
  "om_put k v [] = [(k, v)]"
| "om_put k v ((k', v') # m) =
     (if k < k' then (k, v) # (k', v') # m
      else if k = k' then (k, v) # m
      else (k', v') # om_put k v m)"

fun om_del :: "'k \<Rightarrow> ('k, 'v) omap \<Rightarrow> ('k, 'v) omap" where
  "om_del k [] = []"
| "om_del k ((k', v) # m) = (if k = k' then m else (k', v) # om_del k m)"

definition om_keys :: "('k, 'v) omap \<Rightarrow> 'k list" where
  "om_keys m = map fst m"

text \<open>The range \<open>[upper_bound(after), end())\<close>.\<close>

definition om_upper_bound :: "'k::linorder \<Rightarrow> ('k, 'v) omap \<Rightarrow> ('k, 'v) omap" where
  "om_upper_bound after m = dropWhile (\<lambda>e. fst e \<le> after) m"

definition om_sum :: "('v \<Rightarrow> 'a::comm_monoid_add) \<Rightarrow> ('k, 'v) omap \<Rightarrow> 'a" where
  "om_sum f m = sum_list (map (f \<circ> snd) m)"

section \<open>The interface\<close>

locale std_map =
  fixes empty :: "'m"
    and lookup :: "'m \<Rightarrow> 'k \<Rightarrow> 'v option"
    and put :: "'k \<Rightarrow> 'v \<Rightarrow> 'm \<Rightarrow> 'm"
    and del :: "'k \<Rightarrow> 'm \<Rightarrow> 'm"
    and wf :: "'m \<Rightarrow> bool"
  assumes wf_empty: "wf empty"
    and lookup_empty: "lookup empty k = None"
    and wf_put: "wf m \<Longrightarrow> wf (put k v m)"
    and wf_del: "wf m \<Longrightarrow> wf (del k m)"
    and lookup_put: "wf m \<Longrightarrow> lookup (put k v m) k' = (if k' = k then Some v else lookup m k')"
    and lookup_del: "wf m \<Longrightarrow> lookup (del k m) k' = (if k' = k then None else lookup m k')"
begin

lemma all_put:
  assumes "wf m" and "\<And>k v. lookup m k = Some v \<Longrightarrow> P k v" and "P k v"
    and "lookup (put k v m) k' = Some v'"
  shows "P k' v'"
  using assms by (auto simp: lookup_put split: if_splits)

lemma all_del:
  assumes "wf m" and "\<And>k v. lookup m k = Some v \<Longrightarrow> P k v"
    and "lookup (del k m) k' = Some v'"
  shows "P k' v'"
  using assms by (auto simp: lookup_del split: if_splits)

lemma lookup_put_del: "wf m \<Longrightarrow> lookup (del k (put k v m)) k' = lookup (del k m) k'"
  by (simp add: lookup_del lookup_put wf_put)

end

locale ordered_map = std_map empty lookup put del wf
  for empty :: "'m" and lookup :: "'m \<Rightarrow> 'k::linorder \<Rightarrow> 'v option" and put del wf +
  fixes entries :: "'m \<Rightarrow> ('k \<times> 'v) list"
  assumes entries_sorted: "wf m \<Longrightarrow> sorted_wrt (<) (map fst (entries m))"
    and entries_lookup: "wf m \<Longrightarrow> (k, v) \<in> set (entries m) \<longleftrightarrow> lookup m k = Some v"
begin

lemma keys_lookup: "wf m \<Longrightarrow> k \<in> fst ` set (entries m) \<longleftrightarrow> lookup m k \<noteq> None"
  using entries_lookup by force

lemma distinct_keys: "wf m \<Longrightarrow> distinct (map fst (entries m))"
  using entries_sorted strict_sorted_iff by blast

lemma entries_empty_iff: "wf m \<Longrightarrow> entries m = [] \<longleftrightarrow> (\<forall>k. lookup m k = None)"
  by (metis entries_lookup last_in_set list.set(1) empty_iff not_None_eq surj_pair)

lemma last_key_greatest:
  assumes "wf m" and "lookup m k = Some v"
  shows "k \<le> fst (last (entries m))"
proof -
  let ?ks = "map fst (entries m)"
  from assms have k: "k \<in> set ?ks" using entries_lookup by force
  have s: "sorted ?ks" using entries_sorted [OF assms(1)] strict_sorted_iff by blast
  from k have ne: "?ks \<noteq> []" by auto
  from k obtain i where i: "i < length ?ks" "?ks ! i = k" by (metis in_set_conv_nth)
  then have "?ks ! i \<le> ?ks ! (length ?ks - 1)" using s ne by (intro sorted_nth_mono) auto
  with i ne show ?thesis by (simp add: last_conv_nth)
qed

end

section \<open>The association list provides it\<close>

lemma om_keys_simps [simp]:
  "om_keys [] = []"
  "om_keys ((k, v) # m) = k # om_keys m"
  by (simp_all add: om_keys_def)

lemma om_wf_Nil [simp]: "om_wf []"
  by (simp add: om_wf_def)

lemma om_wf_Cons: "om_wf ((k, v) # m) \<longleftrightarrow> (\<forall>k' \<in> set (om_keys m). k < k') \<and> om_wf m"
  by (simp add: om_wf_def om_keys_def)

lemma om_find_None: "om_find m k = None \<longleftrightarrow> k \<notin> set (om_keys m)"
  by (induction m k rule: om_find.induct) auto

lemma om_find_in: "om_find m k = Some v \<Longrightarrow> (k, v) \<in> set m"
  by (induction m k rule: om_find.induct) (auto split: if_splits)

lemma in_om_keys: "(k, v) \<in> set m \<Longrightarrow> k \<in> set (om_keys m)"
  by (force simp: om_keys_def)

lemma om_find_iff: "om_wf m \<Longrightarrow> (k, v) \<in> set m \<longleftrightarrow> om_find m k = Some v"
  by (induction m k rule: om_find.induct) (auto simp: om_wf_Cons dest: in_om_keys)

lemma keys_om_put: "set (om_keys (om_put k v m)) = insert k (set (om_keys m))"
  by (induction k v m rule: om_put.induct) auto

lemma om_wf_put: "om_wf m \<Longrightarrow> om_wf (om_put k v m)"
proof (induction k v m rule: om_put.induct)
  case (2 k v k' v' m)
  then have m: "om_wf m" and gt: "\<forall>j \<in> set (om_keys m). k' < j"
    by (auto simp: om_wf_Cons)
  consider "k < k'" | "k = k'" | "k' < k" by fastforce
  then show ?case
  proof cases
    case 1
    then have "\<forall>j \<in> set (om_keys m). k < j" using gt less_trans by blast
    with 1 m gt show ?thesis by (simp add: om_wf_Cons)
  next
    case 2
    with m gt show ?thesis by (simp add: om_wf_Cons)
  next
    case 3
    then have "\<not> k < k'" and "k \<noteq> k'" by auto
    with "2.IH" m gt 3 show ?thesis by (simp add: om_wf_Cons keys_om_put)
  qed
qed (simp add: om_wf_def)

lemma om_find_put: "om_wf m \<Longrightarrow> om_find (om_put k v m) k' = (if k' = k then Some v else om_find m k')"
  by (induction k v m rule: om_put.induct) (auto simp: om_wf_Cons)

lemma keys_om_del: "set (om_keys (om_del k m)) \<subseteq> set (om_keys m)"
  by (induction k m rule: om_del.induct) auto

lemma om_wf_del: "om_wf m \<Longrightarrow> om_wf (om_del k m)"
proof (induction k m rule: om_del.induct)
  case (2 k k' v m)
  then have "om_wf m" and "\<forall>j \<in> set (om_keys (om_del k m)). k' < j"
    using keys_om_del [of k m] by (auto simp: om_wf_Cons)
  with 2 show ?case by (simp add: om_wf_Cons)
qed simp

lemma om_find_del: "om_wf m \<Longrightarrow> om_find (om_del k m) k' = (if k' = k then None else om_find m k')"
proof (induction k m rule: om_del.induct)
  case (2 k j v m)
  then have "om_wf m" and "om_find m j = None"
    by (auto simp: om_wf_Cons om_find_None)
  with 2 show ?case by auto
qed simp

interpretation om: ordered_map "[]" om_find om_put om_del om_wf "\<lambda>m. m"
  by unfold_locales
    (simp_all add: om_wf_put om_wf_del om_find_put om_find_del om_find_iff om_wf_def [symmetric])

lemmas om_simps [simp] = om.lookup_put om.lookup_del om.wf_put om.wf_del

section \<open>Sizes, sums and scans\<close>

lemma om_put_found:
  assumes "om_wf ((k', v') # m)" and "om_find m k = Some w"
  shows "om_put k v ((k', v') # m) = (k', v') # om_put k v m" and "k \<noteq> k'"
proof -
  have "k \<in> set (om_keys m)" using assms(2) by (rule in_om_keys [OF om_find_in])
  with assms(1) have "k' < k" by (simp add: om_wf_Cons)
  then show "om_put k v ((k', v') # m) = (k', v') # om_put k v m" and "k \<noteq> k'" by auto
qed

lemma om_put_head: "om_put k v ((k, w) # m) = (k, v) # m"
  by simp

lemma length_om_put_old: "om_wf m \<Longrightarrow> om_find m k = Some w \<Longrightarrow> length (om_put k v m) = length m"
proof (induction m)
  case (Cons e m)
  then show ?case
    by (cases e, cases "fst e = k") (auto simp: om_wf_Cons om_put_found om_put_head simp del: om_put.simps(2) split: if_splits)
qed simp

lemma length_om_put_new: "om_find m k = None \<Longrightarrow> length (om_put k v m) = Suc (length m)"
  by (induction k v m rule: om_put.induct) (auto split: if_splits)

lemma om_keys_put_same: "om_wf m \<Longrightarrow> om_find m k = Some w \<Longrightarrow> om_keys (om_put k v m) = om_keys m"
proof (induction m)
  case (Cons e m)
  then show ?case
    by (cases e, cases "fst e = k") (auto simp: om_wf_Cons om_put_found om_put_head simp del: om_put.simps(2) split: if_splits)
qed simp

lemma om_sum_simps [simp]:
  "om_sum f [] = 0"
  "om_sum f ((k, v) # m) = f v + om_sum f m"
  by (simp_all add: om_sum_def)

lemma om_sum_put_new:
  "om_wf m \<Longrightarrow> om_find m k = None \<Longrightarrow> om_sum f (om_put k v m) = om_sum f m + f v"
  by (induction k v m rule: om_put.induct) (auto simp: om_wf_Cons ac_simps split: if_splits)

lemma om_sum_put_old:
  "om_wf m \<Longrightarrow> om_find m k = Some w \<Longrightarrow> om_sum f (om_put k v m) + f w = om_sum f m + f v"
proof (induction m)
  case (Cons e m)
  obtain k' v' where e: "e = (k', v')" by fastforce
  show ?case
  proof (cases "k = k'")
    case True
    with Cons.prems e show ?thesis by (simp add: ac_simps)
  next
    case False
    with Cons.prems e have m: "om_wf m" and found: "om_find m k = Some w" by (auto simp: om_wf_Cons)
    with Cons.IH Cons.prems e have "om_put k v (e # m) = e # om_put k v m"
      by (simp only: om_put_found)
    with Cons.IH [OF m found] e show ?thesis by (simp add: add.assoc)
  qed
qed simp

lemma om_sum_put_same:
  fixes f :: "'v \<Rightarrow> 'a::cancel_comm_monoid_add"
  assumes "om_wf m" and "om_find m k = Some w" and "f v = f w"
  shows "om_sum f (om_put k v m) = om_sum f m"
  using om_sum_put_old [OF assms(1,2), of f v] assms(3) by simp

lemma om_upper_bound_filter: "om_wf m \<Longrightarrow> om_upper_bound a m = filter (\<lambda>e. a < fst e) m"
proof (induction m)
  case (Cons e m)
  obtain k v where e: "e = (k, v)" by fastforce
  with Cons have m: "om_wf m" and k: "\<forall>k' \<in> set (om_keys m). k < k'" by (auto simp: om_wf_Cons)
  show ?case
  proof (cases "k \<le> a")
    case True
    with Cons.IH [OF m] e show ?thesis by (simp add: om_upper_bound_def)
  next
    case False
    with k have "\<forall>e \<in> set m. a < fst e" by (force dest: in_om_keys)
    then have "filter (\<lambda>e. a < fst e) m = m" by simp
    with False e show ?thesis by (simp add: om_upper_bound_def)
  qed
qed (simp add: om_upper_bound_def)

lemma keys_filter: "set (om_keys (filter p m)) \<subseteq> set (om_keys m)"
  by (auto simp: om_keys_def)

lemma om_wf_filter: "om_wf m \<Longrightarrow> om_wf (filter p m)"
proof (induction m)
  case (Cons e m)
  then show ?case using keys_filter [of p m] by (cases e) (auto simp: om_wf_Cons)
qed simp

lemma om_find_filter: "om_wf m \<Longrightarrow> om_find (filter p m) k = Some v \<longleftrightarrow> om_find m k = Some v \<and> p (k, v)"
  using om_find_iff [of m k v] om_find_iff [OF om_wf_filter, of m k v p] by auto

lemma om_find_filter_case:
  "om_wf m \<Longrightarrow> om_find (filter p m) k =
     (case om_find m k of None \<Rightarrow> None | Some v \<Rightarrow> if p (k, v) then Some v else None)"
  using om_find_filter [of m p k "the (om_find m k)"] om_find_filter [of m p k "the (om_find (filter p m) k)"]
  by (cases "om_find m k"; cases "om_find (filter p m) k") auto

lemma distinct_om_keys [simp]: "om_wf m \<Longrightarrow> distinct (om_keys m)"
  using om.distinct_keys by (simp add: om_keys_def)

lemma set_om_keys: "k \<in> set (om_keys m) \<longleftrightarrow> om_find m k \<noteq> None"
  by (simp add: om_find_None)

section \<open>Replacing every value\<close>

lemma set_om_put: "set (om_put k v m) \<subseteq> insert (k, v) (set m)"
  by (induction m) (auto split: if_splits)

lemma om_find_map: "om_find (map (\<lambda>(k, v). (k, f v)) m) k = map_option f (om_find m k)"
  by (induction m) auto

lemma om_keys_map: "om_keys (map (\<lambda>(k, v). (k, f v)) m) = om_keys m"
  by (induction m) auto

lemma om_wf_map: "om_wf m \<Longrightarrow> om_wf (map (\<lambda>(k, v). (k, f v)) m)"
  by (induction m) (auto simp: om_wf_Cons om_keys_map)

section \<open>Elements of a sequence\<close>

text \<open>\<open>std::min_element\<close>: the index of the first element with the least key.\<close>

fun min_element :: "('a \<Rightarrow> 'k::linorder) \<Rightarrow> 'a list \<Rightarrow> nat" where
  "min_element f (x # y # ys) =
     (let i = min_element f (y # ys) in if f ((y # ys) ! i) < f x then Suc i else 0)"
| "min_element f _ = 0"

definition erase_at :: "nat \<Rightarrow> 'a list \<Rightarrow> 'a list" where
  "erase_at i xs = take i xs @ drop (Suc i) xs"

lemma min_element_less: "xs \<noteq> [] \<Longrightarrow> min_element f xs < length xs"
  by (induction f xs rule: min_element.induct) (auto simp: Let_def)

lemma min_element_least: "x \<in> set xs \<Longrightarrow> f (xs ! min_element f xs) \<le> f x"
  by (induction f xs rule: min_element.induct) (auto simp: Let_def not_less intro: order.trans less_imp_le)

lemma erase_at_split:
  assumes "i < length xs"
  shows "\<exists>ys zs. xs = ys @ xs ! i # zs \<and> erase_at i xs = ys @ zs"
  using assms id_take_nth_drop [OF assms] by (auto simp: erase_at_def)

lemma length_erase_at: "i < length xs \<Longrightarrow> length (erase_at i xs) = length xs - 1"
  by (simp add: erase_at_def)

lemma set_erase_at: "set (erase_at i xs) \<subseteq> set xs"
  by (auto simp: erase_at_def dest: in_set_takeD in_set_dropD)

lemma erase_at_keeps: "x \<in> set xs \<Longrightarrow> x \<noteq> xs ! i \<Longrightarrow> i < length xs \<Longrightarrow> x \<in> set (erase_at i xs)"
  using erase_at_split [of i xs] by (metis Un_iff set_ConsD set_append)

end
