(* ===== verification/World_Events.thy ===== *)
theory World_Events
  imports Std_Map
begin

text \<open>
  The value types of the event layer (\<open>Event/WorldEventType.h\<close>, \<open>Event/WorldEntityRef.h\<close>,
  \<open>Event/WorldEvent.h\<close>, \<open>Quest/DynamicQuestKillEvent.h\<close>) and the two bounded queues the
  world thread drains (\<open>Event/EventBus\<close>, \<open>Quest/DynamicQuestKillEventBus\<close>). Both take their
  mutex for the whole of every operation, so a concurrent execution is some sequence of
  whole operations; \<open>bus_run\<close> runs such a sequence.
\<close>

section \<open>Events\<close>

datatype WorldEventType =
    CreatureKilled | NPCInjured | PlayerSeen | ItemStolen | TradeCompleted | LivestockKilled
  | WolfPackMoved | FoodShortage | NPCDied
  | DynamicQuestCompleted | DynamicQuestFailed | DynamicQuestExpired

type_synonym AgentId = u64

record WorldEventLocation =
  loc_MapId :: u32
  loc_X :: flt
  loc_Y :: flt
  loc_Z :: flt

record WorldEntityRef =
  ref_Guid :: ObjectGuid
  ref_SpawnId :: u64
  ref_Entry :: u32
  ref_Agent :: AgentId

record WorldEvent =
  ev_EventId :: u64
  ev_CorrelationId :: u64
  ev_CauseEventId :: u64
  ev_OccurredAtMs :: u64
  ev_Type :: WorldEventType
  ev_Location :: WorldEventLocation
  ev_Actor :: WorldEntityRef
  ev_Target :: WorldEntityRef

definition default_location :: WorldEventLocation where
  "default_location = \<lparr>loc_MapId = 0, loc_X = Fin 0, loc_Y = Fin 0, loc_Z = Fin 0\<rparr>"

definition default_ref :: WorldEntityRef where
  "default_ref = \<lparr>ref_Guid = 0, ref_SpawnId = 0, ref_Entry = 0, ref_Agent = 0\<rparr>"

definition default_event :: WorldEvent where
  "default_event = \<lparr>ev_EventId = 0, ev_CorrelationId = 0, ev_CauseEventId = 0, ev_OccurredAtMs = 0,
     ev_Type = CreatureKilled, ev_Location = default_location,
     ev_Actor = default_ref, ev_Target = default_ref\<rparr>"

record DynamicQuestKillEvent =
  ke_EventId :: u64
  ke_KillerGuid :: ObjectGuid
  ke_VictimGuid :: ObjectGuid
  ke_VictimEntry :: u32
  ke_MapId :: u32

section \<open>The contract of a bounded event bus\<close>

datatype 'p bus_op = BPublish 'p | BDrain

text \<open>
  The state after a sequence of operations, with everything the drains have returned so far
  and the events accepted so far (as stored), oldest first.
\<close>

fun bus_run :: "('p \<Rightarrow> 'b \<Rightarrow> bool \<times> 'b) \<Rightarrow> ('b \<Rightarrow> 'e list \<times> 'b) \<Rightarrow> 'p bus_op list \<Rightarrow>
    'e list \<times> 'b \<Rightarrow> 'e list \<times> 'b" where
  "bus_run publish drain [] (out, b) = (out, b)"
| "bus_run publish drain (BPublish e # ops) (out, b) =
     bus_run publish drain ops (out, snd (publish e b))"
| "bus_run publish drain (BDrain # ops) (out, b) =
     (let (es, b') = drain b in bus_run publish drain ops (out @ es, b'))"

lemma bus_run_drain:
  "bus_run publish drain (BDrain # ops) (out, b) =
     bus_run publish drain ops (out @ fst (drain b), snd (drain b))"
  by (simp add: Let_def case_prod_unfold)

declare bus_run.simps(3) [simp del]

locale bounded_bus =
  fixes publish :: "'p \<Rightarrow> 'b \<Rightarrow> bool \<times> 'b"
    and drain :: "'b \<Rightarrow> 'e list \<times> 'b"
    and queue :: "'b \<Rightarrow> 'e list"
    and next_id :: "'b \<Rightarrow> u64"
    and dropped :: "'b \<Rightarrow> u64"
    and id_of :: "'e \<Rightarrow> u64"
    and stamp :: "'b \<Rightarrow> 'p \<Rightarrow> 'e"
    and cap :: nat
  assumes cap_small: "cap < 2 ^ 64"
    and publish_full: "cap \<le> length (queue b) \<Longrightarrow> \<not> fst (publish e b) \<and>
      queue (snd (publish e b)) = queue b \<and> next_id (snd (publish e b)) = next_id b \<and>
      dropped (snd (publish e b)) = dropped b + 1"
    and publish_room: "length (queue b) < cap \<Longrightarrow> fst (publish e b) \<and>
      queue (snd (publish e b)) = queue b @ [stamp b e] \<and>
      next_id (snd (publish e b)) = next_id b + 1 \<and> dropped (snd (publish e b)) = dropped b"
    and stamp_id: "id_of (stamp b e) = next_id b"
    and drain_out: "fst (drain b) = queue b"
    and drain_state: "queue (snd (drain b)) = [] \<and> next_id (snd (drain b)) = next_id b \<and>
      dropped (snd (drain b)) = dropped b"
begin

lemma publish_grows:
  "\<exists>es. queue (snd (publish e b)) = queue b @ es \<and> map id_of es = map (\<lambda>i. next_id b + of_nat i) [0..<length es]
    \<and> next_id (snd (publish e b)) = next_id b + of_nat (length es)
    \<and> dropped (snd (publish e b)) + of_nat (length es) = dropped b + 1
    \<and> (length (queue b) \<le> cap \<longrightarrow> length (queue b @ es) \<le> cap)"
proof (cases "cap \<le> length (queue b)")
  case True
  from publish_full [OF True, of e] show ?thesis by (intro exI [of _ "[]"]) simp
next
  case False
  then have "length (queue b) < cap" by simp
  from publish_room [OF this, of e] stamp_id [of b e] this show ?thesis
    by (intro exI [of _ "[stamp b e]"]) simp
qed

text \<open>The ids of everything handed out so far count up to the next id, one per event.\<close>

lemma run_ids:
  assumes "map id_of (out @ queue b) = map (\<lambda>i. base + of_nat i) [0..<length (out @ queue b)]"
    and "next_id b = base + of_nat (length (out @ queue b))"
    and "bus_run publish drain ops (out, b) = (out', b')"
  shows "map id_of (out' @ queue b') = map (\<lambda>i. base + of_nat i) [0..<length (out' @ queue b')] \<and>
    next_id b' = base + of_nat (length (out' @ queue b'))"
  using assms
proof (induction ops arbitrary: out b)
  case Nil
  then show ?case by simp
next
  case (Cons op ops)
  show ?case
  proof (cases op)
    case BDrain
    have run: "bus_run publish drain ops (out @ fst (drain b), snd (drain b)) = (out', b')"
      using Cons.prems(3) BDrain by (simp only: bus_run_drain)
    have same: "(out @ fst (drain b)) @ queue (snd (drain b)) = out @ queue b"
      and n: "next_id (snd (drain b)) = next_id b"
      using drain_out [of b] drain_state [of b] by simp_all
    show ?thesis
      by (rule Cons.IH [OF _ _ run]) (simp_all only: same n Cons.prems(1,2))
  next
    case (BPublish e)
    obtain es where es: "queue (snd (publish e b)) = queue b @ es"
        "map id_of es = map (\<lambda>i. next_id b + of_nat i) [0..<length es]"
        "next_id (snd (publish e b)) = next_id b + of_nat (length es)"
      using publish_grows by blast
    let ?n = "length (out @ queue b)"
    have "[?n..<?n + length es] = map (\<lambda>i. i + ?n) [0..<length es]"
      by (simp add: map_add_upt add.commute)
    then have "map (\<lambda>i. base + of_nat i) [?n..<?n + length es] = map id_of es"
      using es(2) Cons.prems(2) by (simp add: o_def add.commute add.left_commute)
    then have ids: "map id_of (out @ queue (snd (publish e b)))
        = map (\<lambda>i. base + of_nat i) [0..<length (out @ queue (snd (publish e b)))]"
      using Cons.prems(1) es(1) upt_add_eq_append [of 0 ?n "length es"] by (simp add: add.assoc)
    have "next_id (snd (publish e b)) = base + of_nat (length (out @ queue (snd (publish e b))))"
      using es(1,3) Cons.prems(2) by simp
    moreover have "bus_run publish drain ops (out, snd (publish e b)) = (out', b')"
      using Cons.prems(3) BPublish by simp
    ultimately show ?thesis using ids by (intro Cons.IH)
  qed
qed

lemma run_bounded:
  assumes "length (queue b) \<le> cap" and "bus_run publish drain ops (out, b) = (out', b')"
  shows "length (queue b') \<le> cap"
  using assms
proof (induction ops arbitrary: out b)
  case Nil
  then show ?case by simp
next
  case (Cons op ops)
  show ?case
  proof (cases op)
    case BDrain
    have "bus_run publish drain ops (out @ fst (drain b), snd (drain b)) = (out', b')"
      using Cons.prems(2) BDrain by (simp add: bus_run_drain)
    then show ?thesis
      by (rule Cons.IH [rotated]) (use drain_state [of b] in simp)
  next
    case (BPublish e)
    then show ?thesis
      using Cons.IH [of "snd (publish e b)" out] Cons.prems publish_grows [of e b] by auto
  qed
qed

text \<open>Nothing is lost silently: each event published is drained, queued, or counted as dropped.\<close>

lemma run_accounts:
  assumes "bus_run publish drain ops (out, b) = (out', b')"
  shows "dropped b' + of_nat (length (out' @ queue b'))
    = dropped b + of_nat (length (out @ queue b)) + of_nat (length (filter (\<lambda>o'. o' \<noteq> BDrain) ops))"
  using assms
proof (induction ops arbitrary: out b)
  case Nil
  then show ?case by simp
next
  case (Cons op ops)
  show ?case
  proof (cases op)
    case BDrain
    have "bus_run publish drain ops (out @ fst (drain b), snd (drain b)) = (out', b')"
      using Cons.prems BDrain by (simp add: bus_run_drain)
    from Cons.IH [OF this] BDrain drain_out [of b] drain_state [of b] show ?thesis
      by (simp add: algebra_simps)
  next
    case (BPublish e)
    have "bus_run publish drain ops (out, snd (publish e b)) = (out', b')"
      using Cons.prems BPublish by simp
    from Cons.IH [OF this] BPublish publish_grows [of e b] show ?thesis
      by (auto simp: algebra_simps)
  qed
qed

end

section \<open>EventBus\<close>

record EventBus =
  eb_nextEventId :: u64
  eb_droppedEvents :: u64
  eb_pending :: "WorldEvent list"

definition EventBus_init :: EventBus where
  "EventBus_init = \<lparr>eb_nextEventId = 1, eb_droppedEvents = 0, eb_pending = []\<rparr>"

definition EventBus_MaxPendingEvents :: nat where
  "EventBus_MaxPendingEvents = 4096"

text \<open>\<open>systemMs\<close> is the clock read \<open>GameTime::GetSystemTime()\<close>.\<close>

definition EventBus_stamp :: "u64 \<Rightarrow> EventBus \<Rightarrow> WorldEvent \<Rightarrow> WorldEvent" where
  "EventBus_stamp systemMs b event =
     (let event = event\<lparr>ev_OccurredAtMs := systemMs\<rparr>;
          i = eb_nextEventId b;
          event = event\<lparr>ev_EventId := i\<rparr>
      in if ev_CorrelationId event = 0 then event\<lparr>ev_CorrelationId := i\<rparr> else event)"

definition EventBus_Publish :: "u64 \<Rightarrow> WorldEvent \<Rightarrow> EventBus \<Rightarrow> bool \<times> EventBus" where
  "EventBus_Publish systemMs event b =
     (if EventBus_MaxPendingEvents \<le> length (eb_pending b)
      then (False, b\<lparr>eb_droppedEvents := eb_droppedEvents b + 1\<rparr>)
      else (True, b\<lparr>eb_nextEventId := eb_nextEventId b + 1,
                   eb_pending := eb_pending b @ [EventBus_stamp systemMs b event]\<rparr>))"

definition EventBus_Drain :: "EventBus \<Rightarrow> WorldEvent list \<times> EventBus" where
  "EventBus_Drain b = (eb_pending b, b\<lparr>eb_pending := []\<rparr>)"

text \<open>A publication is the clock value it is stamped with and the event.\<close>

abbreviation publish_at :: "u64 \<times> WorldEvent \<Rightarrow> EventBus \<Rightarrow> bool \<times> EventBus" where
  "publish_at p \<equiv> EventBus_Publish (fst p) (snd p)"

interpretation eb: bounded_bus publish_at EventBus_Drain eb_pending eb_nextEventId
    eb_droppedEvents ev_EventId "\<lambda>b p. EventBus_stamp (fst p) b (snd p)" EventBus_MaxPendingEvents
  by unfold_locales
    (auto simp: EventBus_Publish_def EventBus_Drain_def EventBus_stamp_def
      EventBus_MaxPendingEvents_def Let_def)

section \<open>DynamicQuestKillEventBus\<close>

record DynamicQuestKillEventBus =
  kb_nextEventId :: u64
  kb_droppedEvents :: u64
  kb_pending :: "DynamicQuestKillEvent list"

definition KillEventBus_init :: DynamicQuestKillEventBus where
  "KillEventBus_init = \<lparr>kb_nextEventId = 1, kb_droppedEvents = 0, kb_pending = []\<rparr>"

definition KillEventBus_MaxPendingEvents :: nat where
  "KillEventBus_MaxPendingEvents = 16384"

definition KillEventBus_stamp :: "DynamicQuestKillEventBus \<Rightarrow> DynamicQuestKillEvent \<Rightarrow> DynamicQuestKillEvent" where
  "KillEventBus_stamp b event = event\<lparr>ke_EventId := kb_nextEventId b\<rparr>"

definition KillEventBus_Publish :: "DynamicQuestKillEvent \<Rightarrow> DynamicQuestKillEventBus \<Rightarrow>
    bool \<times> DynamicQuestKillEventBus" where
  "KillEventBus_Publish event b =
     (if KillEventBus_MaxPendingEvents \<le> length (kb_pending b)
      then (False, b\<lparr>kb_droppedEvents := kb_droppedEvents b + 1\<rparr>)
      else (True, b\<lparr>kb_nextEventId := kb_nextEventId b + 1,
                   kb_pending := kb_pending b @ [KillEventBus_stamp b event]\<rparr>))"

definition KillEventBus_Drain :: "DynamicQuestKillEventBus \<Rightarrow>
    DynamicQuestKillEvent list \<times> DynamicQuestKillEventBus" where
  "KillEventBus_Drain b = (kb_pending b, b\<lparr>kb_pending := []\<rparr>)"

interpretation kb: bounded_bus KillEventBus_Publish KillEventBus_Drain kb_pending kb_nextEventId
    kb_droppedEvents ke_EventId KillEventBus_stamp KillEventBus_MaxPendingEvents
  by unfold_locales
    (auto simp: KillEventBus_Publish_def KillEventBus_Drain_def KillEventBus_stamp_def
      KillEventBus_MaxPendingEvents_def)

section \<open>Properties\<close>

lemma bus_run_split: "bus_run publish drain ops s = (fst (bus_run publish drain ops s), snd (bus_run publish drain ops s))"
  by simp

text \<open>
  For every sequence of publications (at any clock values) and drains on a fresh event bus:
  the events delivered so far followed by those still pending carry the ids 1, 2, 3, ... in
  publication order, so nothing is delivered twice or out of order; at most 4096 are pending;
  and every publication is delivered, pending or counted in the dropped-event counter.
\<close>
theorem event_bus_ordered_bounded_accounted:
  fixes ops
  defines "out \<equiv> fst (bus_run publish_at EventBus_Drain ops ([], EventBus_init))"
    and "b \<equiv> snd (bus_run publish_at EventBus_Drain ops ([], EventBus_init))"
  shows "(map ev_EventId (out @ eb_pending b) = map (\<lambda>i. 1 + of_nat i) [0..<length (out @ eb_pending b)]) \<and>
    (length (eb_pending b) \<le> 4096) \<and>
    (eb_droppedEvents b + of_nat (length (out @ eb_pending b)) = of_nat (length (filter (\<lambda>p. p \<noteq> BDrain) ops)))"
proof (rule conj3I)
  have run: "bus_run publish_at EventBus_Drain ops ([], EventBus_init) = (out, b)"
    unfolding out_def b_def by (rule bus_run_split)
  have i: "eb_pending EventBus_init = []" "eb_nextEventId EventBus_init = 1" "eb_droppedEvents EventBus_init = 0"
    by (simp_all add: EventBus_init_def)
  show "map ev_EventId (out @ eb_pending b) = map (\<lambda>i. 1 + of_nat i) [0..<length (out @ eb_pending b)]"
    using eb.run_ids [OF _ _ run, of 1] i by simp
  show "length (eb_pending b) \<le> 4096"
    using eb.run_bounded [OF _ run] i by (simp add: EventBus_MaxPendingEvents_def)
  show "eb_droppedEvents b + of_nat (length (out @ eb_pending b)) = of_nat (length (filter (\<lambda>p. p \<noteq> BDrain) ops))"
    using eb.run_accounts [OF run] i by simp
qed

text \<open>
  The same contract for the kill-event bus, whose bound is 16384: ordered gap-free ids from
  1, a bounded queue, and a dropped counter that accounts for every event refused.
\<close>
theorem kill_bus_ordered_bounded_accounted:
  fixes ops
  defines "out \<equiv> fst (bus_run KillEventBus_Publish KillEventBus_Drain ops ([], KillEventBus_init))"
    and "b \<equiv> snd (bus_run KillEventBus_Publish KillEventBus_Drain ops ([], KillEventBus_init))"
  shows "(map ke_EventId (out @ kb_pending b) = map (\<lambda>i. 1 + of_nat i) [0..<length (out @ kb_pending b)]) \<and>
    (length (kb_pending b) \<le> 16384) \<and>
    (kb_droppedEvents b + of_nat (length (out @ kb_pending b)) = of_nat (length (filter (\<lambda>p. p \<noteq> BDrain) ops)))"
proof (rule conj3I)
  have run: "bus_run KillEventBus_Publish KillEventBus_Drain ops ([], KillEventBus_init) = (out, b)"
    unfolding out_def b_def by (rule bus_run_split)
  have i: "kb_pending KillEventBus_init = []" "kb_nextEventId KillEventBus_init = 1" "kb_droppedEvents KillEventBus_init = 0"
    by (simp_all add: KillEventBus_init_def)
  show "map ke_EventId (out @ kb_pending b) = map (\<lambda>i. 1 + of_nat i) [0..<length (out @ kb_pending b)]"
    using kb.run_ids [OF _ _ run, of 1] i by simp
  show "length (kb_pending b) \<le> 16384"
    using kb.run_bounded [OF _ run] i by (simp add: KillEventBus_MaxPendingEvents_def)
  show "kb_droppedEvents b + of_nat (length (out @ kb_pending b)) = of_nat (length (filter (\<lambda>p. p \<noteq> BDrain) ops))"
    using kb.run_accounts [OF run] i by simp
qed

end
