(* ===== verification/Task_Validation.thy ===== *)
theory Task_Validation
  imports World_Events
begin

text \<open>
  From a language model's answer to a quest proposal: the value types of \<open>Inference/\<close>, the
  world thread's freshness check of a response (\<open>DynamicTaskAcceptance.cpp\<close>) and the
  authoritative validation that turns an accepted draft into a \<open>QuestProposal\<close>
  (\<open>DynamicTaskValidation.cpp\<close>).
\<close>

section \<open>Data\<close>

datatype QuestObjectiveType = QO_Invalid | KillCreature

datatype GoalType =
    GetFood | FleeDanger | GoToWork | GoHome | Regroup | Roam | Hunt | Defend | Feed
  | WildlifeRest | LocalActivity | PredatorHunt | SeekSafety | InvestigateDanger

record QuestProposal =
  qp_Giver :: AgentId
  qp_GiverRuntimeGuid :: ObjectGuid
  qp_SourceEventId :: u64
  qp_SourceCorrelationId :: u64
  qp_SourceEventType :: WorldEventType
  qp_Objective :: QuestObjectiveType
  qp_TargetToken :: u32
  qp_TargetGuid :: ObjectGuid
  qp_TargetEntry :: u32
  qp_TargetMapId :: u32
  qp_RequiredCount :: u32
  qp_MaxRangeYards :: flt
  qp_ExpiryMs :: u32
  qp_RewardMoneyCopper :: u32
  qp_Title :: string
  qp_Description :: string

record QuestProposalDraft =
  dr_Objective :: QuestObjectiveType
  dr_TargetToken :: u32
  dr_RequiredCount :: u32
  dr_MaxRangeYards :: flt
  dr_ExpiryMs :: u32
  dr_RewardMoneyCopper :: u32
  dr_Title :: string
  dr_Description :: string

record QuestProblemContext =
  pc_Type :: WorldEventType
  pc_ActorEntry :: u32
  pc_TargetEntry :: u32
  pc_MapId :: u32
  pc_AgeMs :: u32

record QuestRelevantEvent =
  re_Type :: WorldEventType
  re_ActorEntry :: u32
  re_TargetEntry :: u32
  re_Importance :: flt
  re_Relevance :: flt
  re_AgeMs :: u32

record QuestTargetCandidate =
  tc_Token :: u32
  tc_Entry :: u32
  tc_DisplayName :: string
  tc_MapId :: u32
  tc_DistanceYards :: flt
  tc_ObservationAgeMs :: u32

record QuestProposalLimits =
  pl_MaxRequiredCount :: u32
  pl_MaxRangeYards :: flt
  pl_MaxExpiryMs :: u32
  pl_MaxRewardMoneyCopper :: u32

record QuestContext =
  qc_Agent :: AgentId
  qc_SnapshotSequence :: u64
  qc_Problem :: QuestProblemContext
  qc_RelevantEvents :: "QuestRelevantEvent list"
  qc_CandidateTargets :: "QuestTargetCandidate list"
  qc_Limits :: QuestProposalLimits

record QuestTargetBinding =
  tb_Token :: u32
  tb_Guid :: ObjectGuid
  tb_Entry :: u32
  tb_MapId :: u32

record QuestRequestProvenance =
  pv_Agent :: AgentId
  pv_SnapshotSequence :: u64
  pv_RuntimeGuid :: ObjectGuid
  pv_Goal :: "GoalType option"
  pv_GoalStartedAtMs :: u64
  pv_SourceEventId :: u64
  pv_SourceCorrelationId :: u64
  pv_SourceEventType :: WorldEventType
  pv_SourceOccurredAtMs :: u64
  pv_TargetBindings :: "QuestTargetBinding list"

record DynamicTaskCandidate =
  ca_RequestId :: u64
  ca_AcceptedAtMs :: u64
  ca_RequestContext :: QuestContext
  ca_Provenance :: QuestRequestProvenance
  ca_Draft :: QuestProposalDraft

section \<open>Acceptance of a response on the world thread\<close>

record PendingDynamicTaskRequest =
  pr_RequestId :: u64
  pr_SubmittedAtMs :: u64
  pr_Context :: QuestContext
  pr_Provenance :: QuestRequestProvenance

datatype DynamicTaskDiscardReason =
    TD_None | StaleSnapshot | StaleRuntime | StaleGoal | StaleSourceEvent | StaleRequest
  | TargetTokenUnbound | TD_TargetBindingMismatch | PolicyWindowMismatch | StaleTarget

record DynamicTaskAcceptanceState =
  as_CurrentSnapshotSequence :: u64
  as_CurrentRuntimeGuid :: ObjectGuid
  as_CurrentGoal :: "GoalType option"
  as_CurrentGoalStartedAtMs :: u64
  as_SourceEventStillActive :: bool
  as_SourceEventMaxAgeMs :: u64
  as_NowMs :: u64
  as_ResponseMaxAgeMs :: u64

definition FindCandidate :: "QuestTargetCandidate list \<Rightarrow> u32 \<Rightarrow> QuestTargetCandidate option" where
  "FindCandidate candidates token = List.find (\<lambda>c. tc_Token c = token) candidates"

definition FindFirstBinding :: "QuestTargetBinding list \<Rightarrow> u32 \<Rightarrow> QuestTargetBinding option" where
  "FindFirstBinding bindings token = List.find (\<lambda>b. tb_Token b = token) bindings"

definition StaleGoalOf :: "QuestRequestProvenance \<Rightarrow> DynamicTaskAcceptanceState \<Rightarrow> bool" where
  "StaleGoalOf prov st =
     (case pv_Goal prov of
        None \<Rightarrow> False
      | Some goal \<Rightarrow> as_CurrentGoal st \<noteq> Some goal \<or>
          pv_GoalStartedAtMs prov \<noteq> as_CurrentGoalStartedAtMs st)"

definition CheckDynamicTaskResponseAcceptance ::
    "PendingDynamicTaskRequest \<Rightarrow> QuestProposalDraft \<Rightarrow> DynamicTaskAcceptanceState \<Rightarrow>
     DynamicTaskDiscardReason" where
  "CheckDynamicTaskResponseAcceptance pending draft st =
     (let prov = pr_Provenance pending in
      if pv_SnapshotSequence prov \<noteq> as_CurrentSnapshotSequence st then StaleSnapshot
      else if IsEmpty (pv_RuntimeGuid prov) \<or> pv_RuntimeGuid prov \<noteq> as_CurrentRuntimeGuid st
        then StaleRuntime
      else if StaleGoalOf prov st then StaleGoal
      else if \<not> as_SourceEventStillActive st \<or> as_NowMs st < pv_SourceOccurredAtMs prov \<or>
          as_NowMs st - pv_SourceOccurredAtMs prov > as_SourceEventMaxAgeMs st
        then StaleSourceEvent
      else if as_NowMs st < pr_SubmittedAtMs pending \<or>
          as_NowMs st - pr_SubmittedAtMs pending > as_ResponseMaxAgeMs st
        then StaleRequest
      else (case (FindCandidate (qc_CandidateTargets (pr_Context pending)) (dr_TargetToken draft),
                  FindFirstBinding (pv_TargetBindings prov) (dr_TargetToken draft)) of
          (Some candidate, Some binding) \<Rightarrow>
            if tc_Entry candidate \<noteq> tb_Entry binding \<or> tc_MapId candidate \<noteq> tb_MapId binding
              then TD_TargetBindingMismatch
            else let limits = qc_Limits (pr_Context pending) in
              if dr_RequiredCount draft > pl_MaxRequiredCount limits \<or>
                 flt_lt (pl_MaxRangeYards limits) (dr_MaxRangeYards draft) \<or>
                 dr_ExpiryMs draft > pl_MaxExpiryMs limits \<or>
                 dr_RewardMoneyCopper draft > pl_MaxRewardMoneyCopper limits
              then PolicyWindowMismatch else TD_None
        | _ \<Rightarrow> TargetTokenUnbound))"

definition ResolveDynamicTaskTargetBinding ::
    "PendingDynamicTaskRequest \<Rightarrow> QuestProposalDraft \<Rightarrow> QuestTargetBinding option" where
  "ResolveDynamicTaskTargetBinding pending draft =
     FindFirstBinding (pv_TargetBindings (pr_Provenance pending)) (dr_TargetToken draft)"

definition DynamicTaskResponseMatchesPending :: "u64 \<Rightarrow> u64 \<Rightarrow> bool" where
  "DynamicTaskResponseMatchesPending pendingRequestId responseRequestId =
     (pendingRequestId = responseRequestId)"

definition CanSubmitDynamicTaskContext :: "nat \<Rightarrow> bool" where
  "CanSubmitDynamicTaskContext candidateTargetCount = (0 < candidateTargetCount)"

section \<open>Authoritative validation\<close>

datatype DynamicTaskValidationReason =
    NotValidated | TV_None | UnsupportedObjective | SourceProblemMismatch | TargetBindingMissing
  | TargetBindingAmbiguous | TV_TargetBindingMismatch | RequiredCountInvalid | RangeInvalid
  | ExpiryInvalid | RewardInvalid | TextInvalid | LiveTargetOutOfRange

record DynamicTaskAuthoritativeLimits =
  al_MaxRequiredCount :: u32
  al_MaxRangeYards :: flt
  al_MaxExpiryMs :: u32
  al_MaxRewardMoneyCopper :: u32

record DynamicTaskSourceFacts =
  sf_Type :: WorldEventType
  sf_ActorEntry :: u32
  sf_TargetEntry :: u32
  sf_MapId :: u32

record DynamicTaskTargetFacts =
  tf_Entry :: u32
  tf_MapId :: u32
  tf_GiverToTargetDistanceYards :: flt

record DynamicTaskAuthoritativeFacts =
  af_Source :: DynamicTaskSourceFacts
  af_Target :: DynamicTaskTargetFacts

record DynamicTaskValidationResult =
  vr_Reason :: DynamicTaskValidationReason
  vr_Proposal :: "QuestProposal option"

definition vr_IsAccepted :: "DynamicTaskValidationResult \<Rightarrow> bool" where
  "vr_IsAccepted r = (vr_Reason r = TV_None \<and> vr_Proposal r \<noteq> None)"

definition QuestContractMaxTitleLength :: nat where "QuestContractMaxTitleLength = 80"
definition QuestContractMaxDescriptionLength :: nat where "QuestContractMaxDescriptionLength = 400"

text \<open>The scan keeps the binding found so far and stops at a second one: (binding, ambiguous).\<close>

fun FindBinding_loop :: "u32 \<Rightarrow> QuestTargetBinding list \<Rightarrow> QuestTargetBinding option \<Rightarrow>
    QuestTargetBinding option \<times> bool" where
  "FindBinding_loop token [] found = (found, False)"
| "FindBinding_loop token (binding # bs) found =
     (if tb_Token binding \<noteq> token then FindBinding_loop token bs found
      else case found of Some _ \<Rightarrow> (None, True)
           | None \<Rightarrow> FindBinding_loop token bs (Some binding))"

definition FindBinding :: "DynamicTaskCandidate \<Rightarrow> QuestTargetBinding option \<times> bool" where
  "FindBinding candidate =
     FindBinding_loop (dr_TargetToken (ca_Draft candidate)) (pv_TargetBindings (ca_Provenance candidate)) None"

definition IsValidProposalText :: "string \<Rightarrow> nat \<Rightarrow> bool" where
  "IsValidProposalText text maxLength =
     (text \<noteq> [] \<and> length text \<le> maxLength \<and>
      (\<forall>ch \<in> set text. \<not> (of_char ch < (0x20::nat) \<or> of_char ch = (0x7F::nat) \<or> ch = CHR 0x7C)))"

definition BuildProposal :: "DynamicTaskCandidate \<Rightarrow> QuestTargetBinding \<Rightarrow>
    DynamicTaskAuthoritativeFacts \<Rightarrow> QuestProposal" where
  "BuildProposal candidate binding facts =
     (let prov = ca_Provenance candidate; draft = ca_Draft candidate in
      \<lparr>qp_Giver = pv_Agent prov, qp_GiverRuntimeGuid = pv_RuntimeGuid prov,
       qp_SourceEventId = pv_SourceEventId prov, qp_SourceCorrelationId = pv_SourceCorrelationId prov,
       qp_SourceEventType = pv_SourceEventType prov, qp_Objective = dr_Objective draft,
       qp_TargetToken = dr_TargetToken draft, qp_TargetGuid = tb_Guid binding,
       qp_TargetEntry = tf_Entry (af_Target facts), qp_TargetMapId = tf_MapId (af_Target facts),
       qp_RequiredCount = dr_RequiredCount draft, qp_MaxRangeYards = dr_MaxRangeYards draft,
       qp_ExpiryMs = dr_ExpiryMs draft, qp_RewardMoneyCopper = dr_RewardMoneyCopper draft,
       qp_Title = dr_Title draft, qp_Description = dr_Description draft\<rparr>)"

definition tv_reject :: "DynamicTaskValidationReason \<Rightarrow> DynamicTaskValidationResult" where
  "tv_reject r = \<lparr>vr_Reason = r, vr_Proposal = None\<rparr>"

definition SourceMismatch :: "DynamicTaskSourceFacts \<Rightarrow> QuestProblemContext \<Rightarrow> bool" where
  "SourceMismatch src problem =
     (sf_Type src \<noteq> pc_Type problem \<or> sf_ActorEntry src \<noteq> pc_ActorEntry problem \<or>
      sf_TargetEntry src \<noteq> pc_TargetEntry problem \<or> sf_MapId src \<noteq> pc_MapId problem)"

text \<open>The range test \<open>limits\<close> and \<open>draft\<close> must both pass.\<close>

definition RangeInvalidFor :: "flt \<Rightarrow> flt \<Rightarrow> bool" where
  "RangeInvalidFor limit draft =
     (\<not> isfinite limit \<or> flt_le limit (Fin 0) \<or> \<not> isfinite draft \<or> flt_le draft (Fin 0) \<or>
      flt_lt limit draft)"

text \<open>\<open>!isfinite(d) || d < 0 || d > max\<close>, the distance test of every live check.\<close>

definition DistanceOutside :: "flt \<Rightarrow> flt \<Rightarrow> bool" where
  "DistanceOutside d limit = (\<not> isfinite d \<or> flt_lt d (Fin 0) \<or> flt_lt limit d)"

definition ValidateDynamicTaskCandidate :: "DynamicTaskCandidate \<Rightarrow> DynamicTaskAuthoritativeLimits \<Rightarrow>
    DynamicTaskAuthoritativeFacts \<Rightarrow> DynamicTaskValidationResult" where
  "ValidateDynamicTaskCandidate candidate limits facts =
     (let draft = ca_Draft candidate in
      if dr_Objective draft \<noteq> KillCreature then tv_reject UnsupportedObjective
      else if SourceMismatch (af_Source facts) (qc_Problem (ca_RequestContext candidate))
        then tv_reject SourceProblemMismatch
      else (case FindBinding candidate of
          (None, ambiguous) \<Rightarrow> tv_reject (if ambiguous then TargetBindingAmbiguous else TargetBindingMissing)
        | (Some binding, _) \<Rightarrow>
            if tb_Entry binding \<noteq> tf_Entry (af_Target facts) \<or> tb_MapId binding \<noteq> tf_MapId (af_Target facts)
              then tv_reject TV_TargetBindingMismatch
            else if dr_RequiredCount draft = 0 \<or> dr_RequiredCount draft > al_MaxRequiredCount limits
              then tv_reject RequiredCountInvalid
            else if RangeInvalidFor (al_MaxRangeYards limits) (dr_MaxRangeYards draft)
              then tv_reject RangeInvalid
            else if dr_ExpiryMs draft = 0 \<or> dr_ExpiryMs draft > al_MaxExpiryMs limits
              then tv_reject ExpiryInvalid
            else if dr_RewardMoneyCopper draft > al_MaxRewardMoneyCopper limits
              then tv_reject RewardInvalid
            else if \<not> IsValidProposalText (dr_Title draft) QuestContractMaxTitleLength \<or>
                \<not> IsValidProposalText (dr_Description draft) QuestContractMaxDescriptionLength
              then tv_reject TextInvalid
            else if DistanceOutside (tf_GiverToTargetDistanceYards (af_Target facts)) (dr_MaxRangeYards draft)
              then tv_reject LiveTargetOutOfRange
            else \<lparr>vr_Reason = TV_None, vr_Proposal = Some (BuildProposal candidate binding facts)\<rparr>))"

section \<open>Lemmas\<close>

lemmas validation_guards [guards] =
  SourceMismatch_def RangeInvalidFor_def DistanceOutside_def IsValidProposalText_def

lemma FindBinding_loop_spec:
  "FindBinding_loop token bs found =
     (case found of
        None \<Rightarrow> (case filter (\<lambda>b. tb_Token b = token) bs of
            [] \<Rightarrow> (None, False) | [b] \<Rightarrow> (Some b, False) | _ \<Rightarrow> (None, True))
      | Some f \<Rightarrow> if filter (\<lambda>b. tb_Token b = token) bs = [] then (Some f, False) else (None, True))"
  by (induction token bs found rule: FindBinding_loop.induct)
     (auto split: option.splits list.splits)

lemma FindBinding_Some:
  "fst (FindBinding c) = Some b \<longleftrightarrow>
     filter (\<lambda>b. tb_Token b = dr_TargetToken (ca_Draft c)) (pv_TargetBindings (ca_Provenance c)) = [b]"
  by (auto simp: FindBinding_def FindBinding_loop_spec split: list.splits)

lemma FindBinding_None:
  "FindBinding c = (None, amb) \<Longrightarrow> amb \<longleftrightarrow>
     2 \<le> length (filter (\<lambda>b. tb_Token b = dr_TargetToken (ca_Draft c)) (pv_TargetBindings (ca_Provenance c)))"
  by (auto simp: FindBinding_def FindBinding_loop_spec split: list.splits)

lemma filter_find: "filter P xs = x # ys \<Longrightarrow> List.find P xs = Some x"
  by (induction xs) (auto split: if_splits)

text \<open>Every condition under which a candidate becomes a proposal, and which proposal.\<close>

definition TaskAdmissible :: "DynamicTaskCandidate \<Rightarrow> DynamicTaskAuthoritativeLimits \<Rightarrow>
    DynamicTaskAuthoritativeFacts \<Rightarrow> QuestTargetBinding \<Rightarrow> bool" where
  "TaskAdmissible c l f b =
     (let d = ca_Draft c in
      dr_Objective d = KillCreature \<and> \<not> SourceMismatch (af_Source f) (qc_Problem (ca_RequestContext c)) \<and>
      filter (\<lambda>b. tb_Token b = dr_TargetToken d) (pv_TargetBindings (ca_Provenance c)) = [b] \<and>
      tb_Entry b = tf_Entry (af_Target f) \<and> tb_MapId b = tf_MapId (af_Target f) \<and>
      dr_RequiredCount d \<noteq> 0 \<and> dr_RequiredCount d \<le> al_MaxRequiredCount l \<and>
      \<not> RangeInvalidFor (al_MaxRangeYards l) (dr_MaxRangeYards d) \<and>
      dr_ExpiryMs d \<noteq> 0 \<and> dr_ExpiryMs d \<le> al_MaxExpiryMs l \<and>
      dr_RewardMoneyCopper d \<le> al_MaxRewardMoneyCopper l \<and>
      IsValidProposalText (dr_Title d) QuestContractMaxTitleLength \<and>
      IsValidProposalText (dr_Description d) QuestContractMaxDescriptionLength \<and>
      \<not> DistanceOutside (tf_GiverToTargetDistanceYards (af_Target f)) (dr_MaxRangeYards d))"

lemma tv_reject_simps [simp]: "vr_Reason (tv_reject r) = r" "vr_Proposal (tv_reject r) = None"
  by (simp_all add: tv_reject_def)

lemma Validate_proposal_iff:
  "vr_Proposal (ValidateDynamicTaskCandidate c l f) = Some p \<longleftrightarrow>
     (\<exists>b. TaskAdmissible c l f b \<and> p = BuildProposal c b f)"
proof (cases "FindBinding c")
  case (Pair ob amb)
  show ?thesis
  proof (cases ob)
    case None
    with Pair FindBinding_Some [of c] show ?thesis
      by (simp add: ValidateDynamicTaskCandidate_def TaskAdmissible_def Let_def)
  next
    case (Some b)
    with Pair FindBinding_Some [of c b]
    have "filter (\<lambda>b. tb_Token b = dr_TargetToken (ca_Draft c)) (pv_TargetBindings (ca_Provenance c)) = [b]"
      by simp
    with Pair Some show ?thesis
      by (auto simp: ValidateDynamicTaskCandidate_def TaskAdmissible_def Let_def linorder_not_less)
  qed
qed

lemma Validate_reason_None:
  "vr_Reason (ValidateDynamicTaskCandidate c l f) = TV_None \<longleftrightarrow>
     vr_Proposal (ValidateDynamicTaskCandidate c l f) \<noteq> None"
  by (simp add: ValidateDynamicTaskCandidate_def Let_def split: option.split prod.split)

lemma BuildProposal_simps [simp]:
  "qp_RequiredCount (BuildProposal c b f) = dr_RequiredCount (ca_Draft c)"
  "qp_ExpiryMs (BuildProposal c b f) = dr_ExpiryMs (ca_Draft c)"
  "qp_RewardMoneyCopper (BuildProposal c b f) = dr_RewardMoneyCopper (ca_Draft c)"
  "qp_MaxRangeYards (BuildProposal c b f) = dr_MaxRangeYards (ca_Draft c)"
  "qp_Title (BuildProposal c b f) = dr_Title (ca_Draft c)"
  "qp_Description (BuildProposal c b f) = dr_Description (ca_Draft c)"
  "qp_TargetGuid (BuildProposal c b f) = tb_Guid b"
  "qp_TargetEntry (BuildProposal c b f) = tf_Entry (af_Target f)"
  "qp_TargetMapId (BuildProposal c b f) = tf_MapId (af_Target f)"
  "qp_Giver (BuildProposal c b f) = pv_Agent (ca_Provenance c)"
  "qp_GiverRuntimeGuid (BuildProposal c b f) = pv_RuntimeGuid (ca_Provenance c)"
  "qp_Objective (BuildProposal c b f) = dr_Objective (ca_Draft c)"
  by (simp_all add: BuildProposal_def Let_def)

section \<open>Properties\<close>

text \<open>
  A candidate becomes a proposal exactly when every authoritative check passes (supported
  objective, unchanged source problem, exactly one target binding for the drafted token that
  matches the live target, counts, range, expiry, reward and texts within the limits, live
  target in range), and the proposal is then the draft bound to that target; the result is
  accepted iff it carries a proposal, whatever NaN or infinite distance or range was supplied.
\<close>
theorem task_validation_exact:
  "(vr_Proposal (ValidateDynamicTaskCandidate c l f) = Some p \<longleftrightarrow> (\<exists>b. TaskAdmissible c l f b \<and> p = BuildProposal c b f)) \<and>
    (vr_IsAccepted (ValidateDynamicTaskCandidate c l f) \<longleftrightarrow> (\<exists>b. TaskAdmissible c l f b))"
  using Validate_proposal_iff [of c l f] Validate_reason_None [of c l f] by (auto simp: vr_IsAccepted_def)

text \<open>
  When the world thread accepts a response and validation then produces a proposal for the
  candidate built from that pending request, the proposal's target is the binding the world
  thread resolved for the drafted token, its entry and map are those the request offered for
  that token, the amounts respect both the request's policy window and the authoritative
  limits, and the range is a positive finite number.
\<close>
theorem accepted_response_proposal_bounds:
  assumes "CheckDynamicTaskResponseAcceptance pending draft st = TD_None"
    and "vr_Proposal (ValidateDynamicTaskCandidate
      \<lparr>ca_RequestId = pr_RequestId pending, ca_AcceptedAtMs = now, ca_RequestContext = pr_Context pending,
       ca_Provenance = pr_Provenance pending, ca_Draft = draft\<rparr> l f) = Some p"
  shows "(\<exists>b cand. ResolveDynamicTaskTargetBinding pending draft = Some b \<and> qp_TargetGuid p = tb_Guid b \<and>
      FindCandidate (qc_CandidateTargets (pr_Context pending)) (dr_TargetToken draft) = Some cand \<and>
      qp_TargetEntry p = tc_Entry cand \<and> qp_TargetMapId p = tc_MapId cand) \<and>
    (0 < qp_RequiredCount p \<and> qp_RequiredCount p \<le> pl_MaxRequiredCount (qc_Limits (pr_Context pending)) \<and>
      qp_RequiredCount p \<le> al_MaxRequiredCount l) \<and>
    (qp_RewardMoneyCopper p \<le> pl_MaxRewardMoneyCopper (qc_Limits (pr_Context pending)) \<and>
      qp_RewardMoneyCopper p \<le> al_MaxRewardMoneyCopper l) \<and>
    (0 < qp_ExpiryMs p \<and> qp_ExpiryMs p \<le> pl_MaxExpiryMs (qc_Limits (pr_Context pending)) \<and>
      qp_ExpiryMs p \<le> al_MaxExpiryMs l) \<and>
    (\<exists>q. qp_MaxRangeYards p = Fin q \<and> 0 < q)"
proof (rule conj5I)
  let ?c = "\<lparr>ca_RequestId = pr_RequestId pending, ca_AcceptedAtMs = now, ca_RequestContext = pr_Context pending,
    ca_Provenance = pr_Provenance pending, ca_Draft = draft\<rparr>"
  from assms(2) obtain b where b: "TaskAdmissible ?c l f b" and p: "p = BuildProposal ?c b f"
    using Validate_proposal_iff by blast
  have one: "FindFirstBinding (pv_TargetBindings (pr_Provenance pending)) (dr_TargetToken draft) = Some b"
    using b filter_find by (fastforce simp: TaskAdmissible_def Let_def FindFirstBinding_def)
  have chk: "\<exists>cand. FindCandidate (qc_CandidateTargets (pr_Context pending)) (dr_TargetToken draft) = Some cand \<and>
      tc_Entry cand = tb_Entry b \<and> tc_MapId cand = tb_MapId b \<and>
      dr_RequiredCount draft \<le> pl_MaxRequiredCount (qc_Limits (pr_Context pending)) \<and>
      dr_ExpiryMs draft \<le> pl_MaxExpiryMs (qc_Limits (pr_Context pending)) \<and>
      dr_RewardMoneyCopper draft \<le> pl_MaxRewardMoneyCopper (qc_Limits (pr_Context pending))"
    using assms(1) one
    by (simp add: CheckDynamicTaskResponseAcceptance_def Let_def linorder_not_less split: if_splits option.splits)
  show "\<exists>b cand. ResolveDynamicTaskTargetBinding pending draft = Some b \<and> qp_TargetGuid p = tb_Guid b \<and>
      FindCandidate (qc_CandidateTargets (pr_Context pending)) (dr_TargetToken draft) = Some cand \<and>
      qp_TargetEntry p = tc_Entry cand \<and> qp_TargetMapId p = tc_MapId cand"
    using chk one b by (auto simp: p ResolveDynamicTaskTargetBinding_def TaskAdmissible_def Let_def)
  show "0 < qp_RequiredCount p \<and> qp_RequiredCount p \<le> pl_MaxRequiredCount (qc_Limits (pr_Context pending)) \<and>
      qp_RequiredCount p \<le> al_MaxRequiredCount l"
    using chk b by (auto simp: p TaskAdmissible_def Let_def word_neq_0_conv)
  show "qp_RewardMoneyCopper p \<le> pl_MaxRewardMoneyCopper (qc_Limits (pr_Context pending)) \<and>
      qp_RewardMoneyCopper p \<le> al_MaxRewardMoneyCopper l"
    using chk b by (auto simp: p TaskAdmissible_def Let_def)
  show "0 < qp_ExpiryMs p \<and> qp_ExpiryMs p \<le> pl_MaxExpiryMs (qc_Limits (pr_Context pending)) \<and>
      qp_ExpiryMs p \<le> al_MaxExpiryMs l"
    using chk b by (auto simp: p TaskAdmissible_def Let_def word_neq_0_conv)
  show "\<exists>q. qp_MaxRangeYards p = Fin q \<and> 0 < q"
    using b by (auto simp: p TaskAdmissible_def Let_def RangeInvalidFor_def isfinite_iff)
qed

definition example_pending :: PendingDynamicTaskRequest where
  "example_pending = \<lparr>pr_RequestId = 7, pr_SubmittedAtMs = 1000,
     pr_Context = \<lparr>qc_Agent = 3, qc_SnapshotSequence = 5,
       qc_Problem = \<lparr>pc_Type = NPCInjured, pc_ActorEntry = 69, pc_TargetEntry = 240, pc_MapId = 0, pc_AgeMs = 10\<rparr>,
       qc_RelevantEvents = [],
       qc_CandidateTargets = [\<lparr>tc_Token = 1, tc_Entry = 69, tc_DisplayName = ''wolf'', tc_MapId = 0,
         tc_DistanceYards = Fin 20, tc_ObservationAgeMs = 0\<rparr>],
       qc_Limits = \<lparr>pl_MaxRequiredCount = 10, pl_MaxRangeYards = Fin 100, pl_MaxExpiryMs = 60000,
         pl_MaxRewardMoneyCopper = 500\<rparr>\<rparr>,
     pr_Provenance = \<lparr>pv_Agent = 3, pv_SnapshotSequence = 5, pv_RuntimeGuid = 11, pv_Goal = None,
       pv_GoalStartedAtMs = 0, pv_SourceEventId = 21, pv_SourceCorrelationId = 21,
       pv_SourceEventType = NPCInjured, pv_SourceOccurredAtMs = 900,
       pv_TargetBindings = [\<lparr>tb_Token = 1, tb_Guid = 99, tb_Entry = 69, tb_MapId = 0\<rparr>]\<rparr>\<rparr>"

definition example_draft :: QuestProposalDraft where
  "example_draft = \<lparr>dr_Objective = KillCreature, dr_TargetToken = 1, dr_RequiredCount = 4,
     dr_MaxRangeYards = Fin 50, dr_ExpiryMs = 30000, dr_RewardMoneyCopper = 100,
     dr_Title = ''Wolves'', dr_Description = ''Cull the pack''\<rparr>"

definition example_state :: DynamicTaskAcceptanceState where
  "example_state = \<lparr>as_CurrentSnapshotSequence = 5, as_CurrentRuntimeGuid = 11, as_CurrentGoal = None,
     as_CurrentGoalStartedAtMs = 0, as_SourceEventStillActive = True, as_SourceEventMaxAgeMs = 5000,
     as_NowMs = 2000, as_ResponseMaxAgeMs = 5000\<rparr>"

definition example_limits :: DynamicTaskAuthoritativeLimits where
  "example_limits = \<lparr>al_MaxRequiredCount = 5, al_MaxRangeYards = Fin 80, al_MaxExpiryMs = 60000,
     al_MaxRewardMoneyCopper = 200\<rparr>"

definition example_facts :: DynamicTaskAuthoritativeFacts where
  "example_facts = \<lparr>af_Source = \<lparr>sf_Type = NPCInjured, sf_ActorEntry = 69, sf_TargetEntry = 240, sf_MapId = 0\<rparr>,
     af_Target = \<lparr>tf_Entry = 69, tf_MapId = 0, tf_GiverToTargetDistanceYards = Fin 20\<rparr>\<rparr>"

definition example_candidate :: "DynamicTaskCandidate" where
  "example_candidate = \<lparr>ca_RequestId = pr_RequestId example_pending, ca_AcceptedAtMs = 2000,
     ca_RequestContext = pr_Context example_pending, ca_Provenance = pr_Provenance example_pending,
     ca_Draft = example_draft\<rparr>"

lemma example_accepted:
  "CheckDynamicTaskResponseAcceptance example_pending example_draft example_state = TD_None"
  "TaskAdmissible example_candidate example_limits example_facts
     \<lparr>tb_Token = 1, tb_Guid = 99, tb_Entry = 69, tb_MapId = 0\<rparr>"
  by code_simp+

lemma accepted_response_proposal_bounds_witness:
  "\<exists>p. vr_Proposal (ValidateDynamicTaskCandidate example_candidate example_limits example_facts) = Some p \<and>
     0 < qp_RequiredCount p \<and> qp_RequiredCount p \<le> 10 \<and> qp_RequiredCount p \<le> 5 \<and> qp_TargetGuid p = 99"
proof -
  obtain p where p: "vr_Proposal (ValidateDynamicTaskCandidate example_candidate example_limits example_facts) = Some p"
    using Validate_proposal_iff example_accepted(2) by blast
  note v = p [unfolded example_candidate_def]
  show ?thesis
    using accepted_response_proposal_bounds [OF example_accepted(1) v] p
    by (auto simp: example_pending_def example_draft_def example_limits_def ResolveDynamicTaskTargetBinding_def
        FindFirstBinding_def)
qed

end
