(* ===== verification/Quest_Lifecycle.thy ===== *)
theory Quest_Lifecycle
  imports Task_Validation
begin

text \<open>
  The dynamic quest state machine of \<open>Quest/DynamicQuestLifecycle.cpp\<close> and the id counter of
  \<open>Quest/DynamicQuestIdAllocator.cpp\<close>: the instance record, one definition per transition,
  the documented transition relation (\<open>Quest/DynamicQuestState.h\<close>) and the contract
  \<open>quest_transition\<close> that every transition meets and that the registry relies on.
\<close>

section \<open>Data\<close>

datatype DynamicQuestState = Offered | Active | Completed | Failed | Expired

type_synonym DynamicQuestId = u64

record DynamicQuestInstance =
  qi_Id :: DynamicQuestId
  qi_State :: DynamicQuestState
  qi_Title :: string
  qi_Description :: string
  qi_Giver :: AgentId
  qi_GiverRuntimeGuid :: ObjectGuid
  qi_GiverLocationAtOffer :: WorldEventLocation
  qi_SourceEventId :: u64
  qi_SourceCorrelationId :: u64
  qi_SourceEventType :: WorldEventType
  qi_Objective :: QuestObjectiveType
  qi_TargetGuid :: ObjectGuid
  qi_TargetEntry :: u32
  qi_TargetMapId :: u32
  qi_RewardMoneyCopper :: u32
  qi_RequiredCount :: u32
  qi_Progress :: u32
  qi_CreatedAtMs :: u64
  qi_ExpiresAtMs :: u64
  qi_AcceptedByPlayerGuid :: ObjectGuid
  qi_ConsumedProgressEventIds :: "u64 list"

datatype DynamicQuestRejectReason =
    RR_NotAttempted | RR_None | AlreadyTerminal | InvalidTransition | InvalidQuestId | RR_QuestNotFound
  | DuplicateQuestId | InvalidPlayer | RR_PlayerMismatch | RR_AlreadyExpired | NotYetExpired
  | RR_ProgressIncomplete | ProgressAlreadyComplete | InvalidProgressEvent | DuplicateProgressEvent

record DynamicQuestTransitionResult =
  tr_Reason :: DynamicQuestRejectReason
  tr_Instance :: "DynamicQuestInstance option"

definition tr_IsAccepted :: "DynamicQuestTransitionResult \<Rightarrow> bool" where
  "tr_IsAccepted r = (tr_Reason r = RR_None \<and> tr_Instance r \<noteq> None)"

section \<open>Transitions\<close>

definition IsTerminal :: "DynamicQuestState \<Rightarrow> bool" where
  "IsTerminal s = (s = Completed \<or> s = Failed \<or> s = Expired)"

definition SaturatingAddMs :: "u64 \<Rightarrow> u32 \<Rightarrow> u64" where
  "SaturatingAddMs nowMs expiryMs =
     (let remaining = u64_max - nowMs in
      if widen expiryMs > remaining then u64_max else nowMs + widen expiryMs)"

definition Reject :: "DynamicQuestRejectReason \<Rightarrow> DynamicQuestTransitionResult" where
  "Reject reason = \<lparr>tr_Reason = reason, tr_Instance = None\<rparr>"

definition Accepted :: "DynamicQuestInstance \<Rightarrow> DynamicQuestTransitionResult" where
  "Accepted inst = \<lparr>tr_Reason = RR_None, tr_Instance = Some inst\<rparr>"

definition OfferDynamicQuest :: "DynamicQuestId \<Rightarrow> QuestProposal \<Rightarrow> WorldEventLocation \<Rightarrow> u64 \<Rightarrow>
    DynamicQuestTransitionResult" where
  "OfferDynamicQuest i proposal giverLocationAtOffer nowMs =
     (if i = 0 then Reject InvalidQuestId
      else Accepted \<lparr>qi_Id = i, qi_State = Offered,
        qi_Title = qp_Title proposal, qi_Description = qp_Description proposal,
        qi_Giver = qp_Giver proposal, qi_GiverRuntimeGuid = qp_GiverRuntimeGuid proposal,
        qi_GiverLocationAtOffer = giverLocationAtOffer,
        qi_SourceEventId = qp_SourceEventId proposal,
        qi_SourceCorrelationId = qp_SourceCorrelationId proposal,
        qi_SourceEventType = qp_SourceEventType proposal,
        qi_Objective = qp_Objective proposal, qi_TargetGuid = qp_TargetGuid proposal,
        qi_TargetEntry = qp_TargetEntry proposal, qi_TargetMapId = qp_TargetMapId proposal,
        qi_RewardMoneyCopper = qp_RewardMoneyCopper proposal,
        qi_RequiredCount = qp_RequiredCount proposal, qi_Progress = 0,
        qi_CreatedAtMs = nowMs, qi_ExpiresAtMs = SaturatingAddMs nowMs (qp_ExpiryMs proposal),
        qi_AcceptedByPlayerGuid = 0, qi_ConsumedProgressEventIds = []\<rparr>)"

definition IsDynamicQuestExpired :: "DynamicQuestInstance \<Rightarrow> u64 \<Rightarrow> bool" where
  "IsDynamicQuestExpired inst nowMs = (nowMs \<ge> qi_ExpiresAtMs inst)"

definition IsDynamicQuestObjectiveComplete :: "DynamicQuestInstance \<Rightarrow> bool" where
  "IsDynamicQuestObjectiveComplete inst = (qi_Progress inst \<ge> qi_RequiredCount inst)"

definition AcceptDynamicQuest :: "ObjectGuid \<Rightarrow> u64 \<Rightarrow> DynamicQuestInstance \<Rightarrow>
    DynamicQuestTransitionResult" where
  "AcceptDynamicQuest playerGuid nowMs inst =
     (if IsTerminal (qi_State inst) then Reject AlreadyTerminal
      else if qi_State inst \<noteq> Offered then Reject InvalidTransition
      else if \<not> IsPlayer playerGuid then Reject InvalidPlayer
      else if IsDynamicQuestExpired inst nowMs then Reject RR_AlreadyExpired
      else Accepted (inst\<lparr>qi_State := Active, qi_AcceptedByPlayerGuid := playerGuid\<rparr>))"

definition ApplyDynamicQuestProgress :: "ObjectGuid \<Rightarrow> u64 \<Rightarrow> u64 \<Rightarrow> DynamicQuestInstance \<Rightarrow>
    DynamicQuestTransitionResult" where
  "ApplyDynamicQuestProgress playerGuid progressEventId nowMs inst =
     (if IsTerminal (qi_State inst) then Reject AlreadyTerminal
      else if qi_State inst \<noteq> Active then Reject InvalidTransition
      else if IsDynamicQuestExpired inst nowMs then Reject RR_AlreadyExpired
      else if progressEventId = 0 then Reject InvalidProgressEvent
      else if playerGuid \<noteq> qi_AcceptedByPlayerGuid inst then Reject RR_PlayerMismatch
      else if progressEventId \<in> set (qi_ConsumedProgressEventIds inst) then Reject DuplicateProgressEvent
      else if qi_Progress inst \<ge> qi_RequiredCount inst then Reject ProgressAlreadyComplete
      else Accepted (inst\<lparr>
        qi_ConsumedProgressEventIds := qi_ConsumedProgressEventIds inst @ [progressEventId],
        qi_Progress := qi_Progress inst + 1\<rparr>))"

definition CompleteDynamicQuest :: "u64 \<Rightarrow> DynamicQuestInstance \<Rightarrow> DynamicQuestTransitionResult" where
  "CompleteDynamicQuest nowMs inst =
     (if IsTerminal (qi_State inst) then Reject AlreadyTerminal
      else if qi_State inst \<noteq> Active then Reject InvalidTransition
      else if IsDynamicQuestExpired inst nowMs then Reject RR_AlreadyExpired
      else if \<not> IsDynamicQuestObjectiveComplete inst then Reject RR_ProgressIncomplete
      else Accepted (inst\<lparr>qi_State := Completed\<rparr>))"

definition FailDynamicQuest :: "u64 \<Rightarrow> DynamicQuestInstance \<Rightarrow> DynamicQuestTransitionResult" where
  "FailDynamicQuest nowMs inst =
     (if IsTerminal (qi_State inst) then Reject AlreadyTerminal
      else if qi_State inst \<noteq> Active then Reject InvalidTransition
      else if IsDynamicQuestExpired inst nowMs then Reject RR_AlreadyExpired
      else Accepted (inst\<lparr>qi_State := Failed\<rparr>))"

definition ExpireDynamicQuest :: "u64 \<Rightarrow> DynamicQuestInstance \<Rightarrow> DynamicQuestTransitionResult" where
  "ExpireDynamicQuest nowMs inst =
     (if IsTerminal (qi_State inst) then Reject AlreadyTerminal
      else if \<not> IsDynamicQuestExpired inst nowMs then Reject NotYetExpired
      else Accepted (inst\<lparr>qi_State := Expired\<rparr>))"

section \<open>The id counter\<close>

text \<open>The id handed out and the counter afterwards; 0 is "exhausted" for both.\<close>

definition AdvanceDynamicQuestIdCounter :: "u64 \<Rightarrow> DynamicQuestId \<times> u64" where
  "AdvanceDynamicQuestIdCounter counter =
     (if counter = 0 then (0, counter)
      else (counter, if counter = u64_max then 0 else counter + 1))"

fun allocate_ids :: "nat \<Rightarrow> u64 \<Rightarrow> DynamicQuestId list" where
  "allocate_ids 0 c = []"
| "allocate_ids (Suc n) c = (let (i, c') = AdvanceDynamicQuestIdCounter c in i # allocate_ids n c')"

lemma unat_Suc_below_max: "(c::u64) \<noteq> u64_max \<Longrightarrow> unat (c + 1) = Suc (unat c)"
proof -
  assume "c \<noteq> u64_max"
  then have "unat c \<noteq> unat u64_max" by (simp only: word_unat_eq_iff not_False_eq_True)
  moreover have "unat c < 2 ^ LENGTH(64)" by (rule unsigned_less)
  ultimately show ?thesis by (simp add: unat_word_ariths)
qed

lemma allocate_ids_exhausted: "allocate_ids n 0 = replicate n 0"
  by (induction n) (simp_all add: AdvanceDynamicQuestIdCounter_def)

lemma allocate_ids_shape:
  "c \<noteq> 0 \<Longrightarrow> \<exists>k \<le> n. allocate_ids n c = map (\<lambda>j. c + of_nat j) [0..<k] @ replicate (n - k) 0
     \<and> (k < n \<longrightarrow> unat c + k = 2 ^ 64) \<and> unat c + k \<le> 2 ^ 64"
proof (induction n arbitrary: c)
  case 0
  have "unat c < 2 ^ LENGTH(64)" by (rule unsigned_less)
  then show ?case by simp
next
  case (Suc n)
  show ?case
  proof (cases "c = u64_max")
    case True
    then have "allocate_ids (Suc n) c = map (\<lambda>j. c + of_nat j) [0..<1] @ replicate n 0"
      using Suc.prems by (simp add: AdvanceDynamicQuestIdCounter_def allocate_ids_exhausted)
    moreover have "unat c + 1 = 2 ^ 64" using True by simp
    ultimately show ?thesis by (intro exI [of _ 1]) simp
  next
    case False
    then have "c + 1 \<noteq> 0" by (metis add_cancel_right_left add_eq_0_iff minus_minus add.commute)
    from Suc.IH [OF this] obtain k where k: "k \<le> n"
        "allocate_ids n (c + 1) = map (\<lambda>j. (c + 1) + of_nat j) [0..<k] @ replicate (n - k) 0"
        "k < n \<longrightarrow> unat (c + 1) + k = 2 ^ 64" "unat (c + 1) + k \<le> 2 ^ 64" by blast
    have "c # map (\<lambda>j. (c + 1) + of_nat j) [0..<k] = map (\<lambda>j. c + of_nat j) [0..<Suc k]"
      by (simp add: map_upt_Suc add.assoc del: upt_Suc)
    with k False Suc.prems unat_Suc_below_max [OF False] show ?thesis
      by (intro exI [of _ "Suc k"]) (simp add: AdvanceDynamicQuestIdCounter_def del: upt_Suc)
  qed
qed

section \<open>The documented state machine\<close>

text \<open>The legal transitions listed in \<open>DynamicQuestState.h\<close>, and progress, which stays Active.\<close>

inductive quest_edge :: "DynamicQuestState \<Rightarrow> DynamicQuestState \<Rightarrow> bool" where
  accept: "quest_edge Offered Active"
| expire_offered: "quest_edge Offered Expired"
| progress: "quest_edge Active Active"
| complete: "quest_edge Active Completed"
| fail: "quest_edge Active Failed"
| expire_active: "quest_edge Active Expired"

inductive_simps quest_edge_simps [simp]: "quest_edge s t"

text \<open>What no transition may touch.\<close>

definition same_offer :: "DynamicQuestInstance \<Rightarrow> DynamicQuestInstance \<Rightarrow> bool" where
  "same_offer i j =
     (j = i\<lparr>qi_State := qi_State j, qi_AcceptedByPlayerGuid := qi_AcceptedByPlayerGuid j,
            qi_Progress := qi_Progress j, qi_ConsumedProgressEventIds := qi_ConsumedProgressEventIds j\<rparr>)"

text \<open>
  The representation invariant: progress counts the distinct, nonzero events consumed and
  never passes the required count; an accepted quest is bound to a player; a completed one
  has reached its objective.
\<close>

definition quest_ok :: "DynamicQuestInstance \<Rightarrow> bool" where
  "quest_ok i =
     (qi_Id i \<noteq> 0 \<and>
      unat (qi_Progress i) = length (qi_ConsumedProgressEventIds i) \<and>
      qi_Progress i \<le> qi_RequiredCount i \<and>
      distinct (qi_ConsumedProgressEventIds i) \<and> 0 \<notin> set (qi_ConsumedProgressEventIds i) \<and>
      (qi_State i = Offered \<longrightarrow> qi_Progress i = 0 \<and> qi_AcceptedByPlayerGuid i = 0) \<and>
      (qi_State i \<in> {Active, Completed, Failed} \<longrightarrow> IsPlayer (qi_AcceptedByPlayerGuid i)) \<and>
      (qi_State i = Completed \<longrightarrow> qi_Progress i = qi_RequiredCount i))"

lemma same_offer_simps:
  assumes "same_offer i j"
  shows "qi_Id j = qi_Id i" "qi_Giver j = qi_Giver i" "qi_GiverRuntimeGuid j = qi_GiverRuntimeGuid i"
    "qi_RewardMoneyCopper j = qi_RewardMoneyCopper i" "qi_RequiredCount j = qi_RequiredCount i"
    "qi_ExpiresAtMs j = qi_ExpiresAtMs i" "qi_Title j = qi_Title i"
  by (subst assms [unfolded same_offer_def], simp)+

section \<open>The contract of a transition\<close>

locale quest_transition =
  fixes t :: "DynamicQuestInstance \<Rightarrow> DynamicQuestTransitionResult"
  assumes rejected: "tr_Reason (t i) \<noteq> RR_None \<Longrightarrow> tr_Instance (t i) = None"
    and accepted: "tr_Reason (t i) = RR_None \<Longrightarrow>
      \<exists>j. tr_Instance (t i) = Some j \<and> quest_edge (qi_State i) (qi_State j) \<and> same_offer i j"
    and invariant: "tr_Instance (t i) = Some j \<Longrightarrow> quest_ok i \<Longrightarrow> quest_ok j"
begin

lemma accepted_iff: "tr_IsAccepted (t i) \<longleftrightarrow> tr_Reason (t i) = RR_None"
  using accepted [of i] by (auto simp: tr_IsAccepted_def)

lemma result_edge:
  assumes "tr_Instance (t i) = Some j"
  shows "quest_edge (qi_State i) (qi_State j)" and "same_offer i j" and "tr_Reason (t i) = RR_None"
proof -
  from assms rejected [of i] show r: "tr_Reason (t i) = RR_None" by fastforce
  from accepted [OF r] assms show "quest_edge (qi_State i) (qi_State j)" and "same_offer i j" by auto
qed

lemma terminal_rejected: "IsTerminal (qi_State i) \<Longrightarrow> tr_Instance (t i) = None"
  using result_edge by (cases "tr_Instance (t i)") (fastforce simp: IsTerminal_def)+

lemma identity: "tr_Instance (t i) = Some j \<Longrightarrow> qi_Id j = qi_Id i \<and> qi_Giver j = qi_Giver i"
  using result_edge(2) same_offer_simps by blast

end

lemma Reject_simps [simp]:
  "tr_Reason (Reject r) = r" "tr_Instance (Reject r) = None"
  "tr_Reason (Accepted i) = RR_None" "tr_Instance (Accepted i) = Some i"
  "tr_IsAccepted (Accepted i)" "tr_IsAccepted (Reject r) = False"
  by (simp_all add: Reject_def Accepted_def tr_IsAccepted_def)

lemma Accepted_inject: "Accepted i = Accepted j \<longleftrightarrow> i = j"
  by (simp add: Accepted_def)

lemma unat_Suc_below: "(a::u32) \<le> b \<Longrightarrow> b \<noteq> a \<Longrightarrow> unat (a + 1) = Suc (unat a)"
  using unat_lt2p_32 [of b] by (simp add: word_le_nat_alt word_unat_eq_iff unat_word_ariths)

lemma le_of_less_succ: "(a::u32) \<le> b \<Longrightarrow> b \<noteq> a \<Longrightarrow> a + 1 \<le> b"
  using unat_Suc_below [of a b] by (simp add: word_le_nat_alt word_unat_eq_iff)

lemma IsPlayer_0 [simp]: "\<not> IsPlayer 0"
  using IsPlayer_nonzero by blast

interpretation q_accept: quest_transition "AcceptDynamicQuest playerGuid nowMs"
  by unfold_locales
    (auto simp: AcceptDynamicQuest_def IsTerminal_def same_offer_def quest_ok_def split: if_splits)

interpretation q_progress: quest_transition "ApplyDynamicQuestProgress playerGuid eventId nowMs"
  by unfold_locales
    (auto simp: ApplyDynamicQuestProgress_def IsTerminal_def same_offer_def quest_ok_def linorder_not_le
      unat_Suc_below le_of_less_succ split: if_splits)

interpretation q_complete: quest_transition "CompleteDynamicQuest nowMs"
  by unfold_locales
    (auto simp: CompleteDynamicQuest_def IsTerminal_def same_offer_def quest_ok_def
      IsDynamicQuestObjectiveComplete_def split: if_splits)

interpretation q_fail: quest_transition "FailDynamicQuest nowMs"
  by unfold_locales
    (auto simp: FailDynamicQuest_def IsTerminal_def same_offer_def quest_ok_def split: if_splits)

lemma live_state: "s \<noteq> Completed \<Longrightarrow> s \<noteq> Failed \<Longrightarrow> s \<noteq> Expired \<Longrightarrow> s \<noteq> Active \<Longrightarrow> s = Offered"
  by (cases s) simp_all

interpretation q_expire: quest_transition "ExpireDynamicQuest nowMs"
  by unfold_locales
    (auto simp: ExpireDynamicQuest_def IsTerminal_def same_offer_def quest_ok_def
      intro: live_state split: if_splits)

lemma offer_ok: "tr_Instance (OfferDynamicQuest i p l nowMs) = Some j \<Longrightarrow>
    quest_ok j \<and> qi_State j = Offered \<and> qi_Id j = i \<and> qi_Giver j = qp_Giver p"
  by (auto simp: OfferDynamicQuest_def quest_ok_def split: if_splits)

lemma unat_SaturatingAddMs:
  "unat (SaturatingAddMs nowMs e) = min (2 ^ 64 - 1) (unat nowMs + unat e)"
proof -
  have n: "unat nowMs < 2 ^ LENGTH(64)" by (rule unsigned_less)
  have "nowMs \<le> u64_max" by simp
  then have "unat (u64_max - nowMs) = 2 ^ 64 - 1 - unat nowMs"
    by (simp add: word_le_nat_alt unat_sub_if')
  with n show ?thesis
    by (auto simp: SaturatingAddMs_def Let_def word_less_nat_alt unat_word_ariths)
qed

section \<open>Properties\<close>

text \<open>
  The exact guard of each transition: accepting needs an unexpired offer and a player guid,
  progress an unexpired active quest, the accepting player, a fresh nonzero event and an
  unmet objective, completing a met objective, and so on; expiry is the only transition an
  expired quest still has, and it has it from both live states.
\<close>
theorem lifecycle_guards_exact:
  "(tr_IsAccepted (AcceptDynamicQuest p now i) \<longleftrightarrow>
     qi_State i = Offered \<and> IsPlayer p \<and> now < qi_ExpiresAtMs i) \<and>
    (tr_IsAccepted (ApplyDynamicQuestProgress p e now i) \<longleftrightarrow>
     qi_State i = Active \<and> now < qi_ExpiresAtMs i \<and> e \<noteq> 0 \<and> p = qi_AcceptedByPlayerGuid i \<and>
     e \<notin> set (qi_ConsumedProgressEventIds i) \<and> qi_Progress i < qi_RequiredCount i) \<and>
    (tr_IsAccepted (CompleteDynamicQuest now i) \<longleftrightarrow>
     qi_State i = Active \<and> now < qi_ExpiresAtMs i \<and> qi_RequiredCount i \<le> qi_Progress i) \<and>
    (tr_IsAccepted (FailDynamicQuest now i) \<longleftrightarrow> qi_State i = Active \<and> now < qi_ExpiresAtMs i) \<and>
    (tr_IsAccepted (ExpireDynamicQuest now i) \<longleftrightarrow>
     (qi_State i = Offered \<or> qi_State i = Active) \<and> qi_ExpiresAtMs i \<le> now)"
  by (cases "qi_State i"; auto simp: AcceptDynamicQuest_def ApplyDynamicQuestProgress_def CompleteDynamicQuest_def
      FailDynamicQuest_def ExpireDynamicQuest_def IsTerminal_def IsDynamicQuestExpired_def
      IsDynamicQuestObjectiveComplete_def)+

text \<open>
  The id counter hands out consecutive ids up to the largest 64-bit value, each of them once
  and none of them 0, and from then on answers 0 for ever instead of wrapping around to an id
  already used.
\<close>
theorem quest_ids_never_reused:
  assumes "c \<noteq> 0"
  shows "\<exists>k \<le> n. allocate_ids n c = map (\<lambda>j. c + of_nat j) [0..<k] @ replicate (n - k) 0 \<and>
    unat c + k \<le> 2 ^ 64 \<and> (k < n \<longrightarrow> unat c + k = 2 ^ 64)"
  using allocate_ids_shape [OF assms, of n] by blast

lemma quest_ids_never_reused_witness:
  "\<exists>k \<le> 3. allocate_ids 3 (u64_max - 1) = map (\<lambda>j. (u64_max - 1) + of_nat j) [0..<k] @ replicate (3 - k) 0 \<and>
    unat (u64_max - 1) + k \<le> 2 ^ 64 \<and> (k < 3 \<longrightarrow> unat (u64_max - 1) + k = 2 ^ 64)"
  by (rule quest_ids_never_reused) simp

text \<open>
  The expiry deadline of an offer is the exact sum of the current time and the proposal's
  lifetime, clamped to the largest 64-bit value; it never wraps into the past.
\<close>
theorem offer_deadline_saturates:
  "i \<noteq> 0 \<Longrightarrow> \<exists>j. OfferDynamicQuest i p loc now = Accepted j \<and>
     unat (qi_ExpiresAtMs j) = min (2 ^ 64 - 1) (unat now + unat (qp_ExpiryMs p)) \<and> now \<le> qi_ExpiresAtMs j \<and>
     qi_State j = Offered \<and> qi_Progress j = 0 \<and> qi_AcceptedByPlayerGuid j = 0"
  using unat_u64_bound [of now]
  by (simp add: OfferDynamicQuest_def Accepted_inject unat_SaturatingAddMs word_le_nat_alt)

lemma offer_deadline_saturates_witness:
  "\<exists>p j. OfferDynamicQuest 7 p default_location (u64_max - 5) = Accepted j \<and>
     unat (qi_ExpiresAtMs j) = min (2 ^ 64 - 1) (unat (u64_max - 5) + unat (qp_ExpiryMs p)) \<and>
     u64_max - 5 \<le> qi_ExpiresAtMs j \<and>
     qi_State j = Offered \<and> qi_Progress j = 0 \<and> qi_AcceptedByPlayerGuid j = 0"
  using offer_deadline_saturates [of 7 _ default_location "u64_max - 5"] by simp

end
