(* ===== verification/Quest_Registry.thy ===== *)
theory Quest_Registry
  imports Quest_Lifecycle
begin

text \<open>
  \<open>Quest/DynamicQuestRegistry.cpp\<close>: the owner of every live instance, its per-giver index,
  the read-decide-commit mutators, the cursor scan and the read-only queries. The registry
  invariant \<open>reg_ok\<close> ties the two maps together; the lemmas of \<open>quest_transition\<close> proved
  here say what a commit of any lawful transition does to a registry.
\<close>

section \<open>State and mutators\<close>

record DynamicQuestRegistry =
  rg_quests :: "(u64, DynamicQuestInstance) omap"
  rg_questIdsByGiver :: "(u64, u64 list) omap"

definition registry_empty :: DynamicQuestRegistry where
  "registry_empty = \<lparr>rg_quests = [], rg_questIdsByGiver = []\<rparr>"

definition Registry_Find :: "DynamicQuestRegistry \<Rightarrow> DynamicQuestId \<Rightarrow> DynamicQuestInstance option" where
  "Registry_Find r i = om_find (rg_quests r) i"

text \<open>\<open>_questIdsByGiver[giver].push_back(id)\<close>, and the erase-remove with pruning.\<close>

definition index_add :: "u64 \<Rightarrow> u64 \<Rightarrow> (u64, u64 list) omap \<Rightarrow> (u64, u64 list) omap" where
  "index_add g i m = om_put g ((case om_find m g of None \<Rightarrow> [] | Some ids \<Rightarrow> ids) @ [i]) m"

definition index_remove :: "u64 \<Rightarrow> u64 \<Rightarrow> (u64, u64 list) omap \<Rightarrow> (u64, u64 list) omap" where
  "index_remove g i m =
     (case om_find m g of None \<Rightarrow> m
      | Some ids \<Rightarrow> let ids' = filter (\<lambda>x. x \<noteq> i) ids in
          if ids' = [] then om_del g m else om_put g ids' m)"

definition Registry_Offer :: "DynamicQuestId \<Rightarrow> QuestProposal \<Rightarrow> WorldEventLocation \<Rightarrow> u64 \<Rightarrow>
    DynamicQuestRegistry \<Rightarrow> DynamicQuestTransitionResult \<times> DynamicQuestRegistry" where
  "Registry_Offer i proposal giverLocationAtOffer nowMs r =
     (let result = OfferDynamicQuest i proposal giverLocationAtOffer nowMs in
      case tr_Instance result of
        None \<Rightarrow> (result, r)
      | Some inst \<Rightarrow>
          if om_find (rg_quests r) (qi_Id inst) \<noteq> None then (Reject DuplicateQuestId, r)
          else (result, \<lparr>rg_quests = om_put (qi_Id inst) inst (rg_quests r),
                         rg_questIdsByGiver = index_add (qi_Giver inst) (qi_Id inst) (rg_questIdsByGiver r)\<rparr>))"

text \<open>The shape the five mutators below share: look up, decide on the stored value, commit.\<close>

definition registry_apply :: "(DynamicQuestInstance \<Rightarrow> DynamicQuestTransitionResult) \<Rightarrow> DynamicQuestId \<Rightarrow>
    DynamicQuestRegistry \<Rightarrow> DynamicQuestTransitionResult \<times> DynamicQuestRegistry" where
  "registry_apply t i r =
     (case om_find (rg_quests r) i of
        None \<Rightarrow> (Reject RR_QuestNotFound, r)
      | Some inst \<Rightarrow>
          let result = t inst in
          case (tr_IsAccepted result, tr_Instance result) of
            (True, Some next) \<Rightarrow> (result, r\<lparr>rg_quests := om_put i next (rg_quests r)\<rparr>)
          | _ \<Rightarrow> (result, r))"

definition Registry_Accept :: "DynamicQuestId \<Rightarrow> ObjectGuid \<Rightarrow> u64 \<Rightarrow> DynamicQuestRegistry \<Rightarrow>
    DynamicQuestTransitionResult \<times> DynamicQuestRegistry" where
  "Registry_Accept i playerGuid nowMs = registry_apply (AcceptDynamicQuest playerGuid nowMs) i"

definition Registry_ApplyProgress :: "DynamicQuestId \<Rightarrow> ObjectGuid \<Rightarrow> u64 \<Rightarrow> u64 \<Rightarrow> DynamicQuestRegistry \<Rightarrow>
    DynamicQuestTransitionResult \<times> DynamicQuestRegistry" where
  "Registry_ApplyProgress i playerGuid progressEventId nowMs =
     registry_apply (ApplyDynamicQuestProgress playerGuid progressEventId nowMs) i"

definition Registry_Complete :: "DynamicQuestId \<Rightarrow> u64 \<Rightarrow> DynamicQuestRegistry \<Rightarrow>
    DynamicQuestTransitionResult \<times> DynamicQuestRegistry" where
  "Registry_Complete i nowMs = registry_apply (CompleteDynamicQuest nowMs) i"

definition Registry_Fail :: "DynamicQuestId \<Rightarrow> u64 \<Rightarrow> DynamicQuestRegistry \<Rightarrow>
    DynamicQuestTransitionResult \<times> DynamicQuestRegistry" where
  "Registry_Fail i nowMs = registry_apply (FailDynamicQuest nowMs) i"

definition Registry_Expire :: "DynamicQuestId \<Rightarrow> u64 \<Rightarrow> DynamicQuestRegistry \<Rightarrow>
    DynamicQuestTransitionResult \<times> DynamicQuestRegistry" where
  "Registry_Expire i nowMs = registry_apply (ExpireDynamicQuest nowMs) i"

definition Registry_Remove :: "DynamicQuestId \<Rightarrow> DynamicQuestRegistry \<Rightarrow> bool \<times> DynamicQuestRegistry" where
  "Registry_Remove i r =
     (case om_find (rg_quests r) i of
        None \<Rightarrow> (False, r)
      | Some inst \<Rightarrow>
          (True, \<lparr>rg_quests = om_del i (rg_quests r),
                  rg_questIdsByGiver = index_remove (qi_Giver inst) i (rg_questIdsByGiver r)\<rparr>))"

section \<open>Queries\<close>

definition Registry_GetCount :: "DynamicQuestRegistry \<Rightarrow> u32" where
  "Registry_GetCount r = of_nat (length (rg_quests r))"

definition Registry_GetHighestId :: "DynamicQuestRegistry \<Rightarrow> DynamicQuestId" where
  "Registry_GetHighestId r = (if rg_quests r = [] then 0 else fst (last (rg_quests r)))"

fun GetIdsAfterUntil_loop :: "(u64 \<times> 'v) list \<Rightarrow> u64 \<Rightarrow> u32 \<Rightarrow> u64 list \<Rightarrow> u64 list" where
  "GetIdsAfterUntil_loop [] limit maxCount ids = ids"
| "GetIdsAfterUntil_loop ((k, v) # es) limit maxCount ids =
     (if k \<le> limit \<and> (of_nat (length ids) :: u32) < maxCount
      then GetIdsAfterUntil_loop es limit maxCount (ids @ [k]) else ids)"

definition Registry_GetIdsAfterUntil :: "DynamicQuestId \<Rightarrow> DynamicQuestId \<Rightarrow> u32 \<Rightarrow> DynamicQuestRegistry \<Rightarrow>
    DynamicQuestId list" where
  "Registry_GetIdsAfterUntil after limit maxCount r =
     (if maxCount = 0 \<or> after \<ge> limit then []
      else GetIdsAfterUntil_loop (om_upper_bound after (rg_quests r)) limit maxCount [])"

definition giver_bucket :: "AgentId \<Rightarrow> DynamicQuestRegistry \<Rightarrow> u64 list" where
  "giver_bucket giver r = (case om_find (rg_questIdsByGiver r) giver of None \<Rightarrow> [] | Some ids \<Rightarrow> ids)"

fun FindOffered_loop :: "DynamicQuestRegistry \<Rightarrow> AgentId \<Rightarrow> ObjectGuid \<Rightarrow> u64 list \<Rightarrow>
    DynamicQuestInstance option" where
  "FindOffered_loop r giver giverRuntimeGuid [] = None"
| "FindOffered_loop r giver giverRuntimeGuid (idValue # ids) =
     (case om_find (rg_quests r) idValue of
        None \<Rightarrow> FindOffered_loop r giver giverRuntimeGuid ids
      | Some inst \<Rightarrow>
          if qi_State inst = Offered \<and> qi_Giver inst = giver \<and> qi_GiverRuntimeGuid inst = giverRuntimeGuid
          then Some inst else FindOffered_loop r giver giverRuntimeGuid ids)"

definition Registry_FindOfferedByGiver :: "AgentId \<Rightarrow> ObjectGuid \<Rightarrow> DynamicQuestRegistry \<Rightarrow>
    DynamicQuestInstance option" where
  "Registry_FindOfferedByGiver giver giverRuntimeGuid r =
     FindOffered_loop r giver giverRuntimeGuid (giver_bucket giver r)"

definition active_for :: "AgentId \<Rightarrow> ObjectGuid \<Rightarrow> ObjectGuid \<Rightarrow> DynamicQuestInstance \<Rightarrow> bool" where
  "active_for giver giverRuntimeGuid playerGuid inst =
     (qi_State inst = Active \<and> qi_Giver inst = giver \<and> qi_GiverRuntimeGuid inst = giverRuntimeGuid \<and>
      qi_AcceptedByPlayerGuid inst = playerGuid)"

fun FindActive_loop :: "DynamicQuestRegistry \<Rightarrow> AgentId \<Rightarrow> ObjectGuid \<Rightarrow> ObjectGuid \<Rightarrow> u64 \<Rightarrow> u64 list \<Rightarrow>
    DynamicQuestInstance option \<Rightarrow> DynamicQuestInstance option" where
  "FindActive_loop r giver guid player nowMs [] fallbackExpired = fallbackExpired"
| "FindActive_loop r giver guid player nowMs (idValue # ids) fallbackExpired =
     (case om_find (rg_quests r) idValue of
        None \<Rightarrow> FindActive_loop r giver guid player nowMs ids fallbackExpired
      | Some inst \<Rightarrow>
          if \<not> active_for giver guid player inst
            then FindActive_loop r giver guid player nowMs ids fallbackExpired
          else if \<not> IsDynamicQuestExpired inst nowMs then Some inst
          else FindActive_loop r giver guid player nowMs ids
            (case fallbackExpired of None \<Rightarrow> Some inst | Some f \<Rightarrow> Some f))"

definition Registry_FindActiveByGiverAndPlayer :: "AgentId \<Rightarrow> ObjectGuid \<Rightarrow> ObjectGuid \<Rightarrow> u64 \<Rightarrow>
    DynamicQuestRegistry \<Rightarrow> DynamicQuestInstance option" where
  "Registry_FindActiveByGiverAndPlayer giver giverRuntimeGuid playerGuid nowMs r =
     FindActive_loop r giver giverRuntimeGuid playerGuid nowMs (giver_bucket giver r) None"

definition Registry_FindActiveByPlayerAndVictimEntry :: "ObjectGuid \<Rightarrow> u32 \<Rightarrow> u32 \<Rightarrow>
    DynamicQuestRegistry \<Rightarrow> DynamicQuestId list" where
  "Registry_FindActiveByPlayerAndVictimEntry playerGuid victimEntry mapId r =
     map fst (filter (\<lambda>(idValue, inst).
        qi_State inst = Active \<and> qi_AcceptedByPlayerGuid inst = playerGuid \<and>
        qi_Objective inst = KillCreature \<and> qi_TargetEntry inst = victimEntry \<and>
        qi_TargetMapId inst = mapId) (rg_quests r))"

fun HasLive_loop :: "DynamicQuestRegistry \<Rightarrow> AgentId \<Rightarrow> ObjectGuid \<Rightarrow> u64 \<Rightarrow> u64 list \<Rightarrow> bool" where
  "HasLive_loop r giver guid nowMs [] = False"
| "HasLive_loop r giver guid nowMs (idValue # ids) =
     (case om_find (rg_quests r) idValue of
        None \<Rightarrow> HasLive_loop r giver guid nowMs ids
      | Some inst \<Rightarrow>
          if qi_Giver inst \<noteq> giver \<or> qi_GiverRuntimeGuid inst \<noteq> guid
            then HasLive_loop r giver guid nowMs ids
          else if qi_State inst \<noteq> Offered \<and> qi_State inst \<noteq> Active
            then HasLive_loop r giver guid nowMs ids
          else if IsDynamicQuestExpired inst nowMs then HasLive_loop r giver guid nowMs ids
          else True)"

definition Registry_HasLiveInstanceForGiver :: "AgentId \<Rightarrow> ObjectGuid \<Rightarrow> u64 \<Rightarrow> DynamicQuestRegistry \<Rightarrow> bool" where
  "Registry_HasLiveInstanceForGiver giver giverRuntimeGuid nowMs r =
     HasLive_loop r giver giverRuntimeGuid nowMs (giver_bucket giver r)"

definition Registry_GetAllActiveIds :: "DynamicQuestRegistry \<Rightarrow> DynamicQuestId list" where
  "Registry_GetAllActiveIds r = map fst (filter (\<lambda>(idValue, inst). qi_State inst = Active) (rg_quests r))"

fun FailAll_loop :: "u64 \<Rightarrow> DynamicQuestId list \<Rightarrow> DynamicQuestRegistry \<Rightarrow> DynamicQuestInstance list \<Rightarrow>
    DynamicQuestInstance list \<times> DynamicQuestRegistry" where
  "FailAll_loop nowMs [] r failed = (failed, r)"
| "FailAll_loop nowMs (i # ids) r failed =
     (let (failResult, r') = Registry_Fail i nowMs r in
      case (tr_IsAccepted failResult, tr_Instance failResult) of
        (True, Some inst) \<Rightarrow> FailAll_loop nowMs ids r' (failed @ [inst])
      | _ \<Rightarrow> FailAll_loop nowMs ids r' failed)"

definition Registry_FailAllActiveInstances :: "u64 \<Rightarrow> DynamicQuestRegistry \<Rightarrow>
    DynamicQuestInstance list \<times> DynamicQuestRegistry" where
  "Registry_FailAllActiveInstances nowMs r = FailAll_loop nowMs (Registry_GetAllActiveIds r) r []"

record DynamicQuestTerminationResult =
  te_FailReason :: DynamicQuestRejectReason
  te_FailedInstance :: "DynamicQuestInstance option"
  te_Removed :: bool

definition Registry_TerminateForReplayContainment :: "DynamicQuestId \<Rightarrow> u64 \<Rightarrow> DynamicQuestRegistry \<Rightarrow>
    DynamicQuestTerminationResult \<times> DynamicQuestRegistry" where
  "Registry_TerminateForReplayContainment i nowMs r =
     (let (failResult, r1) = Registry_Fail i nowMs r;
          (removed, r2) = Registry_Remove i r1
      in (\<lparr>te_FailReason = tr_Reason failResult,
            te_FailedInstance = (if tr_IsAccepted failResult then tr_Instance failResult else None),
            te_Removed = removed\<rparr>, r2))"

section \<open>The registry invariant\<close>

text \<open>
  Every stored instance is well formed, stored under its own id and listed in its giver's
  bucket; every bucket is nonempty, duplicate-free and lists only stored instances of that giver.
\<close>

definition reg_ok :: "DynamicQuestRegistry \<Rightarrow> bool" where
  "reg_ok r =
     (om_wf (rg_quests r) \<and> om_wf (rg_questIdsByGiver r) \<and>
      (\<forall>k i. om_find (rg_quests r) k = Some i \<longrightarrow>
         qi_Id i = k \<and> quest_ok i \<and> k \<in> set (giver_bucket (qi_Giver i) r)) \<and>
      (\<forall>g ids. om_find (rg_questIdsByGiver r) g = Some ids \<longrightarrow>
         ids \<noteq> [] \<and> distinct ids \<and>
         (\<forall>k \<in> set ids. \<exists>i. om_find (rg_quests r) k = Some i \<and> qi_Giver i = g)))"

lemma reg_ok_wf: "reg_ok r \<Longrightarrow> om_wf (rg_quests r) \<and> om_wf (rg_questIdsByGiver r)"
  by (simp add: reg_ok_def)

lemma reg_ok_stored:
  "reg_ok r \<Longrightarrow> om_find (rg_quests r) k = Some i \<Longrightarrow>
     qi_Id i = k \<and> quest_ok i \<and> k \<in> set (giver_bucket (qi_Giver i) r)"
  by (simp add: reg_ok_def)

lemma reg_ok_bucket:
  assumes "reg_ok r" and "k \<in> set (giver_bucket g r)"
  shows "\<exists>i. om_find (rg_quests r) k = Some i \<and> qi_Giver i = g"
  using assms by (cases "om_find (rg_questIdsByGiver r) g") (auto simp: giver_bucket_def reg_ok_def)

lemma reg_ok_bucket_iff:
  assumes "reg_ok r"
  shows "k \<in> set (giver_bucket g r) \<longleftrightarrow> (\<exists>i. om_find (rg_quests r) k = Some i \<and> qi_Giver i = g)"
  using reg_ok_bucket [OF assms] reg_ok_stored [OF assms] by blast

lemma registry_empty_ok: "reg_ok registry_empty"
  by (simp add: reg_ok_def registry_empty_def)

lemma reg_okI:
  assumes "om_wf (rg_quests r)" and "om_wf (rg_questIdsByGiver r)"
    and "\<And>k i. om_find (rg_quests r) k = Some i \<Longrightarrow> qi_Id i = k \<and> quest_ok i \<and> k \<in> set (giver_bucket (qi_Giver i) r)"
    and "\<And>g ids. om_find (rg_questIdsByGiver r) g = Some ids \<Longrightarrow> ids \<noteq> [] \<and> distinct ids"
    and "\<And>g k. k \<in> set (giver_bucket g r) \<Longrightarrow> \<exists>i. om_find (rg_quests r) k = Some i \<and> qi_Giver i = g"
  shows "reg_ok r"
  using assms by (auto simp: reg_ok_def giver_bucket_def split: option.splits)

section \<open>Preservation\<close>

lemma giver_bucket_add:
  assumes "om_wf (rg_questIdsByGiver r)"
  shows "giver_bucket h \<lparr>rg_quests = q, rg_questIdsByGiver = index_add g i (rg_questIdsByGiver r)\<rparr>
    = (if h = g then giver_bucket h r @ [i] else giver_bucket h r)"
  using assms by (auto simp: giver_bucket_def index_add_def split: option.splits)

lemma giver_bucket_remove:
  assumes "om_wf (rg_questIdsByGiver r)"
  shows "giver_bucket h \<lparr>rg_quests = q, rg_questIdsByGiver = index_remove g i (rg_questIdsByGiver r)\<rparr>
    = (if h = g then filter (\<lambda>x. x \<noteq> i) (giver_bucket h r) else giver_bucket h r)"
  using assms by (auto simp: giver_bucket_def index_remove_def Let_def split: option.splits)

lemma giver_bucket_quests [simp]:
  "giver_bucket g \<lparr>rg_quests = q, rg_questIdsByGiver = rg_questIdsByGiver r\<rparr> = giver_bucket g r"
  "giver_bucket g (r\<lparr>rg_quests := q\<rparr>) = giver_bucket g r"
  by (simp_all add: giver_bucket_def)

lemma index_wf:
  assumes "om_wf m"
  shows "om_wf (index_add g i m)" and "om_wf (index_remove g i m)"
  using assms by (auto simp: index_add_def index_remove_def Let_def split: option.splits)

lemma Registry_Offer_cases:
  obtains (rejected) "snd (Registry_Offer i p l now r) = r"
    | (stored) j where "tr_Instance (OfferDynamicQuest i p l now) = Some j"
      and "om_find (rg_quests r) i = None"
      and "snd (Registry_Offer i p l now r) =
        \<lparr>rg_quests = om_put i j (rg_quests r),
         rg_questIdsByGiver = index_add (qi_Giver j) i (rg_questIdsByGiver r)\<rparr>"
      and "tr_Instance (fst (Registry_Offer i p l now r)) = Some j"
proof (cases "tr_Instance (OfferDynamicQuest i p l now)")
  case None
  then show thesis using rejected by (simp add: Registry_Offer_def)
next
  case (Some j)
  with offer_ok [OF Some] show thesis
    using rejected stored by (cases "om_find (rg_quests r) i") (auto simp: Registry_Offer_def)
qed

lemma Registry_Offer_ok [preserved]:
  assumes "reg_ok r"
  shows "reg_ok (snd (Registry_Offer i p l now r))"
proof (cases rule: Registry_Offer_cases [of i p l now r])
  case rejected
  with assms show ?thesis by simp
next
  case (stored j)
  let ?r = "\<lparr>rg_quests = om_put i j (rg_quests r),
    rg_questIdsByGiver = index_add (qi_Giver j) i (rg_questIdsByGiver r)\<rparr>"
  note wf = reg_ok_wf [OF assms]
  have fresh: "i \<notin> set (giver_bucket g r)" for g
    using stored(2) reg_ok_bucket [OF assms] by force
  have b: "giver_bucket g ?r = (if g = qi_Giver j then giver_bucket g r @ [i] else giver_bucket g r)" for g
    using wf by (simp only: giver_bucket_add)
  have f: "om_find (rg_quests ?r) k = (if k = i then Some j else om_find (rg_quests r) k)" for k
    using wf by simp
  show ?thesis unfolding stored(3)
  proof (rule reg_okI)
    fix k x
    assume "om_find (rg_quests ?r) k = Some x"
    then show "qi_Id x = k \<and> quest_ok x \<and> k \<in> set (giver_bucket (qi_Giver x) ?r)"
      unfolding b f using offer_ok [OF stored(1)] reg_ok_stored [OF assms, of k x] by (auto split: if_splits)
  next
    fix g ids
    assume "om_find (rg_questIdsByGiver ?r) g = Some ids"
    then show "ids \<noteq> [] \<and> distinct ids"
      using wf assms fresh [of g]
      by (auto simp: index_add_def reg_ok_def giver_bucket_def split: if_splits option.splits)
  next
    fix g k
    assume "k \<in> set (giver_bucket g ?r)"
    then show "\<exists>x. om_find (rg_quests ?r) k = Some x \<and> qi_Giver x = g"
      unfolding b f using reg_ok_bucket [OF assms, of k g] fresh by (auto split: if_splits)
  qed (use wf index_wf in auto)
qed

lemma Registry_Remove_ok [preserved]:
  assumes "reg_ok r"
  shows "reg_ok (snd (Registry_Remove i r))"
proof (cases "om_find (rg_quests r) i")
  case None
  with assms show ?thesis by (simp add: Registry_Remove_def)
next
  case (Some x)
  note wf = reg_ok_wf [OF assms]
  let ?r = "\<lparr>rg_quests = om_del i (rg_quests r),
    rg_questIdsByGiver = index_remove (qi_Giver x) i (rg_questIdsByGiver r)\<rparr>"
  have b: "giver_bucket g ?r
      = (if g = qi_Giver x then filter (\<lambda>k. k \<noteq> i) (giver_bucket g r) else giver_bucket g r)" for g
    using wf by (simp only: giver_bucket_remove)
  have f: "om_find (rg_quests ?r) k = (if k = i then None else om_find (rg_quests r) k)" for k
    using wf by simp
  have "reg_ok ?r"
  proof (rule reg_okI)
    fix k y
    assume "om_find (rg_quests ?r) k = Some y"
    then show "qi_Id y = k \<and> quest_ok y \<and> k \<in> set (giver_bucket (qi_Giver y) ?r)"
      unfolding b f using reg_ok_stored [OF assms, of k y] by (auto split: if_splits)
  next
    fix g ids
    assume "om_find (rg_questIdsByGiver ?r) g = Some ids"
    then show "ids \<noteq> [] \<and> distinct ids"
      using wf assms by (auto simp: index_remove_def reg_ok_def Let_def split: if_splits option.splits)
  next
    fix g k
    assume "k \<in> set (giver_bucket g ?r)"
    then show "\<exists>y. om_find (rg_quests ?r) k = Some y \<and> qi_Giver y = g"
      unfolding b f using reg_ok_bucket [OF assms, of k g] Some by (auto split: if_splits)
  qed (use wf index_wf in auto)
  with Some show ?thesis by (simp add: Registry_Remove_def)
qed

context quest_transition
begin

lemma apply_cases:
  obtains (kept) "snd (registry_apply t i r) = r" and "\<not> tr_IsAccepted (fst (registry_apply t i r))"
    | (committed) x j where "om_find (rg_quests r) i = Some x" and "tr_Instance (t x) = Some j"
      and "registry_apply t i r = (t x, r\<lparr>rg_quests := om_put i j (rg_quests r)\<rparr>)"
      and "tr_IsAccepted (t x)"
proof (cases "om_find (rg_quests r) i")
  case None
  then show thesis using kept by (simp add: registry_apply_def)
next
  case (Some x)
  show thesis
  proof (cases "tr_Instance (t x)")
    case None
    then have "\<not> tr_IsAccepted (t x)" by (simp add: tr_IsAccepted_def)
    with Some None show thesis using kept by (simp add: registry_apply_def Let_def)
  next
    case (Some j)
    then have "tr_IsAccepted (t x)" using result_edge(3) by (simp add: accepted_iff)
    with \<open>om_find (rg_quests r) i = Some x\<close> Some show thesis
      using committed by (simp add: registry_apply_def Let_def)
  qed
qed

lemma apply_ok:
  assumes "reg_ok r"
  shows "reg_ok (snd (registry_apply t i r))"
proof (cases rule: apply_cases [of i r])
  case kept
  with assms show ?thesis by simp
next
  case (committed x j)
  note wf = reg_ok_wf [OF assms]
  have x: "qi_Id x = i \<and> quest_ok x \<and> i \<in> set (giver_bucket (qi_Giver x) r)"
    using reg_ok_stored [OF assms committed(1)] .
  have j: "quest_ok j" "qi_Id j = i" "qi_Giver j = qi_Giver x"
    using invariant [OF committed(2)] identity [OF committed(2)] x by auto
  show ?thesis unfolding committed(3) snd_conv
  proof (rule reg_okI)
    fix k y
    assume "om_find (rg_quests (r\<lparr>rg_quests := om_put i j (rg_quests r)\<rparr>)) k = Some y"
    then show "qi_Id y = k \<and> quest_ok y \<and>
        k \<in> set (giver_bucket (qi_Giver y) (r\<lparr>rg_quests := om_put i j (rg_quests r)\<rparr>))"
      using wf j x reg_ok_stored [OF assms] by (auto split: if_splits)
  next
    fix g k
    assume "k \<in> set (giver_bucket g (r\<lparr>rg_quests := om_put i j (rg_quests r)\<rparr>))"
    then show "\<exists>y. om_find (rg_quests (r\<lparr>rg_quests := om_put i j (rg_quests r)\<rparr>)) k = Some y \<and> qi_Giver y = g"
      using wf reg_ok_bucket [OF assms, of k g] j committed(1) by auto
  qed (use wf assms in \<open>auto simp: reg_ok_def\<close>)
qed

lemma apply_find:
  assumes "reg_ok r" and "om_find (rg_quests r) k = Some x"
  shows "\<exists>y. om_find (rg_quests (snd (registry_apply t i r))) k = Some y \<and>
    (y = x \<or> quest_edge (qi_State x) (qi_State y)) \<and> same_offer x y"
proof (cases rule: apply_cases [of i r])
  case kept
  with assms show ?thesis by (simp add: same_offer_def)
next
  case (committed z j)
  then show ?thesis
    using assms reg_ok_wf [OF assms(1)] result_edge [OF committed(2)]
    by (cases "k = i") (auto simp: same_offer_def)
qed

text \<open>What a commit leaves of an instance: the transition's result where it has one.\<close>

lemma apply_find_eq:
  assumes "om_wf (rg_quests r)"
  shows "om_find (rg_quests (snd (registry_apply t i r))) k =
    map_option (if k = i then (\<lambda>x. case tr_Instance (t x) of None \<Rightarrow> x | Some j \<Rightarrow> j) else id) (om_find (rg_quests r) k)"
proof (cases "om_find (rg_quests r) i")
  case None
  then show ?thesis by (auto simp: registry_apply_def option.map_id)
next
  case (Some x)
  show ?thesis
  proof (cases "tr_Instance (t x)")
    case None
    with Some show ?thesis by (auto simp: registry_apply_def option.map_id Let_def split: bool.splits)
  next
    case (Some j)
    then have "tr_IsAccepted (t x)" using result_edge(3) by (simp add: accepted_iff)
    with \<open>om_find (rg_quests r) i = Some x\<close> Some assms show ?thesis
      by (auto simp: registry_apply_def option.map_id)
  qed
qed

lemma apply_keys: "reg_ok r \<Longrightarrow> om_find (rg_quests r) k = None \<Longrightarrow>
    om_find (rg_quests (snd (registry_apply t i r))) k = None"
  by (cases rule: apply_cases [of i r]) (auto simp: reg_ok_wf)

end

section \<open>Runs of operations\<close>

text \<open>Every operation of the class that changes the registry, and a run of them.\<close>

datatype reg_op =
    ROffer DynamicQuestId QuestProposal WorldEventLocation u64
  | RAccept DynamicQuestId ObjectGuid u64
  | RProgress DynamicQuestId ObjectGuid u64 u64
  | RComplete DynamicQuestId u64
  | RFail DynamicQuestId u64
  | RExpire DynamicQuestId u64
  | RRemove DynamicQuestId
  | RFailAll u64
  | RTerminate DynamicQuestId u64

fun reg_step :: "reg_op \<Rightarrow> DynamicQuestRegistry \<Rightarrow> DynamicQuestRegistry" where
  "reg_step (ROffer i p l now) r = snd (Registry_Offer i p l now r)"
| "reg_step (RAccept i pl now) r = snd (Registry_Accept i pl now r)"
| "reg_step (RProgress i pl e now) r = snd (Registry_ApplyProgress i pl e now r)"
| "reg_step (RComplete i now) r = snd (Registry_Complete i now r)"
| "reg_step (RFail i now) r = snd (Registry_Fail i now r)"
| "reg_step (RExpire i now) r = snd (Registry_Expire i now r)"
| "reg_step (RRemove i) r = snd (Registry_Remove i r)"
| "reg_step (RFailAll now) r = snd (Registry_FailAllActiveInstances now r)"
| "reg_step (RTerminate i now) r = snd (Registry_TerminateForReplayContainment i now r)"

definition reg_run :: "reg_op list \<Rightarrow> DynamicQuestRegistry \<Rightarrow> DynamicQuestRegistry" where
  "reg_run ops r = fold reg_step ops r"

lemmas registry_transitions =
  Registry_Accept_def Registry_ApplyProgress_def Registry_Complete_def Registry_Fail_def Registry_Expire_def

lemmas transitions_ok = q_accept.apply_ok q_progress.apply_ok q_complete.apply_ok q_fail.apply_ok q_expire.apply_ok

lemma Registry_Fail_ok: "reg_ok r \<Longrightarrow> reg_ok (snd (Registry_Fail i now r))"
  by (simp add: Registry_Fail_def q_fail.apply_ok)

lemma FailAll_loop_registry: "snd (FailAll_loop now ids r acc) = fold (\<lambda>i r. snd (Registry_Fail i now r)) ids r"
  by (induction ids arbitrary: r acc) (auto simp: Let_def split: prod.splits bool.splits option.splits)

lemma FailAll_fold: "snd (Registry_FailAllActiveInstances now r)
    = fold (\<lambda>i r. snd (Registry_Fail i now r)) (Registry_GetAllActiveIds r) r"
  by (simp add: Registry_FailAllActiveInstances_def FailAll_loop_registry)

lemma fold_preserves: "(\<And>x s. P s \<Longrightarrow> P (f x s)) \<Longrightarrow> P s \<Longrightarrow> P (fold f xs s)"
  by (induction xs arbitrary: s) auto

lemma FailAll_ok [preserved]: "reg_ok r \<Longrightarrow> reg_ok (snd (Registry_FailAllActiveInstances now r))"
  unfolding FailAll_fold by (rule fold_preserves [of reg_ok]) (rule Registry_Fail_ok)

lemma Terminate_registry: "snd (Registry_TerminateForReplayContainment i now r)
    = snd (Registry_Remove i (snd (Registry_Fail i now r)))"
  by (simp add: Registry_TerminateForReplayContainment_def Let_def split: prod.splits)

lemma reg_step_ok: "reg_ok r \<Longrightarrow> reg_ok (reg_step op r)"
  by (cases op) (simp_all add: registry_transitions transitions_ok preserved Terminate_registry Registry_Fail_ok)

lemma reg_run_ok: "reg_ok r \<Longrightarrow> reg_ok (reg_run ops r)"
  unfolding reg_run_def by (rule fold_preserves [of reg_ok]) (rule reg_step_ok)

lemma reg_reachable: "reg_ok (reg_run ops registry_empty)"
  by (rule reg_run_ok [OF registry_empty_ok])

fun removes :: "DynamicQuestId \<Rightarrow> reg_op \<Rightarrow> bool" where
  "removes k (RRemove i) = (i = k)"
| "removes k (RTerminate i now) = (i = k)"
| "removes k _ = False"

text \<open>What a run that does not remove the instance leaves of it: a path of the documented machine.\<close>

definition evolves :: "DynamicQuestInstance \<Rightarrow> DynamicQuestInstance \<Rightarrow> bool" where
  "evolves x y = (quest_edge\<^sup>*\<^sup>* (qi_State x) (qi_State y) \<and> same_offer x y \<and> (IsTerminal (qi_State x) \<longrightarrow> y = x))"

lemma evolves_refl [simp]: "evolves x x"
  by (simp add: evolves_def same_offer_def)

lemma same_offer_trans: "same_offer x y \<Longrightarrow> same_offer y z \<Longrightarrow> same_offer x z"
  by (cases x; cases y; cases z) (simp add: same_offer_def)

lemma evolves_trans: "evolves x y \<Longrightarrow> evolves y z \<Longrightarrow> evolves x z"
  by (auto simp: evolves_def intro: same_offer_trans)

definition keeps :: "DynamicQuestId \<Rightarrow> DynamicQuestRegistry \<Rightarrow> DynamicQuestRegistry \<Rightarrow> bool" where
  "keeps k r r' = (\<forall>x. om_find (rg_quests r) k = Some x \<longrightarrow> (\<exists>y. om_find (rg_quests r') k = Some y \<and> evolves x y))"

lemma keeps_refl [simp]: "keeps k r r"
  by (auto simp: keeps_def)

lemma keeps_trans: "keeps k r r' \<Longrightarrow> keeps k r' r'' \<Longrightarrow> keeps k r r''"
  unfolding keeps_def by (meson evolves_trans)

lemma keepsI: "(\<And>x. om_find (rg_quests r) k = Some x \<Longrightarrow>
   \<exists>y. om_find (rg_quests r') k = Some y \<and> (y = x \<or> quest_edge (qi_State x) (qi_State y)) \<and> same_offer x y) \<Longrightarrow> keeps k r r'"
  unfolding keeps_def evolves_def by (fastforce simp: IsTerminal_def)

context quest_transition
begin

lemma apply_keeps: "reg_ok r \<Longrightarrow> keeps k r (snd (registry_apply t i r))"
  using apply_find keepsI by blast

end

lemmas transitions_keep = q_accept.apply_keeps q_progress.apply_keeps q_complete.apply_keeps q_fail.apply_keeps
  q_expire.apply_keeps

lemma Registry_Fail_keeps: "reg_ok r \<Longrightarrow> keeps k r (snd (Registry_Fail i now r))"
  by (simp add: Registry_Fail_def transitions_keep)

lemma Registry_Offer_keeps: "reg_ok r \<Longrightarrow> keeps k r (snd (Registry_Offer i p l now r))"
  by (cases rule: Registry_Offer_cases [of i p l now r])
    (auto simp: keeps_def reg_ok_wf intro: exI [of _ "_ :: DynamicQuestInstance"])

lemma Registry_Remove_find: "reg_ok r \<Longrightarrow>
    om_find (rg_quests (snd (Registry_Remove i r))) k = (if k = i then None else om_find (rg_quests r) k)"
  by (auto simp: Registry_Remove_def reg_ok_wf split: option.splits)

lemma Registry_Remove_keeps: "reg_ok r \<Longrightarrow> i \<noteq> k \<Longrightarrow> keeps k r (snd (Registry_Remove i r))"
  by (auto simp: keeps_def Registry_Remove_find)

lemma fold_Fail_keeps: "reg_ok r \<Longrightarrow> keeps k r (fold (\<lambda>i r. snd (Registry_Fail i now r)) ids r)"
proof (induction ids arbitrary: r)
  case (Cons i ids)
  then show ?case
    using Registry_Fail_keeps [of r k i now] Registry_Fail_ok [of r i now] keeps_trans by fastforce
qed simp

lemma FailAll_keeps: "reg_ok r \<Longrightarrow> keeps k r (snd (Registry_FailAllActiveInstances now r))"
  unfolding FailAll_fold by (rule fold_Fail_keeps)

lemma reg_step_keeps: "reg_ok r \<Longrightarrow> \<not> removes k op \<Longrightarrow> keeps k r (reg_step op r)"
proof (cases op)
  case (RTerminate i now)
  assume "reg_ok r" and "\<not> removes k op"
  with RTerminate show ?thesis
    using Registry_Fail_keeps [of r k i now] Registry_Fail_ok [of r i now] Registry_Remove_keeps keeps_trans
    by (fastforce simp: Terminate_registry)
qed (auto simp: registry_transitions Registry_Offer_keeps Registry_Remove_keeps FailAll_keeps
    transitions_keep)

lemma reg_run_keeps: "reg_ok r \<Longrightarrow> \<forall>op \<in> set ops. \<not> removes k op \<Longrightarrow> keeps k r (reg_run ops r)"
proof (induction ops arbitrary: r)
  case (Cons op ops)
  then have "keeps k r (reg_step op r)" and "keeps k (reg_step op r) (reg_run ops (reg_step op r))"
    by (simp_all add: reg_step_keeps reg_step_ok)
  then show ?case using keeps_trans by (fastforce simp: reg_run_def)
qed (simp add: reg_run_def)

section \<open>The queries against a scan of the whole registry\<close>

definition reg_instances :: "DynamicQuestRegistry \<Rightarrow> DynamicQuestInstance list" where
  "reg_instances r = map snd (rg_quests r)"

lemma reg_instances_iff:
  assumes "reg_ok r"
  shows "x \<in> set (reg_instances r) \<longleftrightarrow> om_find (rg_quests r) (qi_Id x) = Some x"
proof -
  have "x \<in> set (reg_instances r) \<longleftrightarrow> (\<exists>k. (k, x) \<in> set (rg_quests r))" by (force simp: reg_instances_def)
  also have "\<dots> \<longleftrightarrow> (\<exists>k. om_find (rg_quests r) k = Some x)" using reg_ok_wf [OF assms] by (simp add: om_find_iff)
  also have "\<dots> \<longleftrightarrow> om_find (rg_quests r) (qi_Id x) = Some x" using reg_ok_stored [OF assms, of _ x] by metis
  finally show ?thesis .
qed

lemma bucket_instances:
  assumes "reg_ok r"
  shows "(\<exists>k \<in> set (giver_bucket g r). om_find (rg_quests r) k = Some x)
    \<longleftrightarrow> x \<in> set (reg_instances r) \<and> qi_Giver x = g"
proof
  assume "\<exists>k \<in> set (giver_bucket g r). om_find (rg_quests r) k = Some x"
  then obtain k where k: "k \<in> set (giver_bucket g r)" "om_find (rg_quests r) k = Some x" by blast
  with reg_ok_bucket [OF assms k(1)] reg_ok_stored [OF assms k(2)]
  show "x \<in> set (reg_instances r) \<and> qi_Giver x = g" by (simp add: reg_instances_iff [OF assms])
next
  assume "x \<in> set (reg_instances r) \<and> qi_Giver x = g"
  then have "om_find (rg_quests r) (qi_Id x) = Some x" and "qi_Giver x = g"
    by (simp_all add: reg_instances_iff [OF assms])
  with reg_ok_stored [OF assms this(1)]
  show "\<exists>k \<in> set (giver_bucket g r). om_find (rg_quests r) k = Some x" by blast
qed

lemma FindOffered_loop_Some: "FindOffered_loop r g u ids = Some x \<Longrightarrow>
    (\<exists>k \<in> set ids. om_find (rg_quests r) k = Some x) \<and> qi_State x = Offered \<and> qi_Giver x = g \<and> qi_GiverRuntimeGuid x = u"
  by (induction r g u ids rule: FindOffered_loop.induct) (auto split: option.splits if_splits)

lemma FindOffered_loop_None: "FindOffered_loop r g u ids = None \<longleftrightarrow>
    (\<forall>x. (\<exists>k \<in> set ids. om_find (rg_quests r) k = Some x) \<longrightarrow>
      \<not> (qi_State x = Offered \<and> qi_Giver x = g \<and> qi_GiverRuntimeGuid x = u))"
  by (induction r g u ids rule: FindOffered_loop.induct) (auto split: option.splits)

lemma HasLive_loop_iff: "HasLive_loop r g u now ids \<longleftrightarrow>
    (\<exists>x. (\<exists>k \<in> set ids. om_find (rg_quests r) k = Some x) \<and> qi_Giver x = g \<and> qi_GiverRuntimeGuid x = u \<and>
      (qi_State x = Offered \<or> qi_State x = Active) \<and> \<not> IsDynamicQuestExpired x now)"
proof (induction ids)
  case (Cons j ids)
  show ?case
  proof (cases "om_find (rg_quests r) j")
    case None
    with Cons.IH show ?thesis by simp
  next
    case (Some z)
    let ?live = "qi_Giver z = g \<and> qi_GiverRuntimeGuid z = u \<and>
      (qi_State z = Offered \<or> qi_State z = Active) \<and> \<not> IsDynamicQuestExpired z now"
    show ?thesis
    proof (cases ?live)
      case True
      with Some show ?thesis by (auto intro!: exI [of _ z])
    next
      case False
      with Some have "HasLive_loop r g u now (j # ids) = HasLive_loop r g u now ids" by auto
      with Cons.IH Some False show ?thesis by auto
    qed
  qed
qed simp

lemma FindActive_loop_Some: "FindActive_loop r g u p now ids fb = Some x \<Longrightarrow>
    fb = Some x \<or> (\<exists>k \<in> set ids. om_find (rg_quests r) k = Some x) \<and> active_for g u p x"
  by (induction r g u p now ids fb rule: FindActive_loop.induct) (auto split: option.splits if_splits)

lemma FindActive_loop_None: "FindActive_loop r g u p now ids fb = None \<longleftrightarrow>
    fb = None \<and> (\<forall>x. (\<exists>k \<in> set ids. om_find (rg_quests r) k = Some x) \<longrightarrow> \<not> active_for g u p x)"
proof (induction ids arbitrary: fb)
  case (Cons j ids)
  show ?case
  proof (cases "om_find (rg_quests r) j")
    case None
    with Cons.IH show ?thesis by simp
  next
    case (Some z)
    with Cons.IH show ?thesis
      by (cases "active_for g u p z"; cases "IsDynamicQuestExpired z now"; cases fb) auto
  qed
qed simp

lemma FindActive_loop_live:
  assumes "active_for g u p x" and "\<not> IsDynamicQuestExpired x now" and "om_find (rg_quests r) k = Some x"
  shows "k \<in> set ids \<Longrightarrow> \<exists>y. FindActive_loop r g u p now ids fb = Some y \<and> \<not> IsDynamicQuestExpired y now"
proof (induction ids arbitrary: fb)
  case (Cons j ids)
  with assms show ?case by (cases "j = k"; cases "om_find (rg_quests r) j") simp_all
qed simp

section \<open>The cursor scan and the highest id\<close>

lemma GetIdsAfterUntil_loop_take:
  assumes "length ids \<le> unat maxCount" and "sorted_wrt (<) (map fst es)"
  shows "GetIdsAfterUntil_loop es limit maxCount ids
    = ids @ take (unat maxCount - length ids) (map fst (filter (\<lambda>e. fst e \<le> limit) es))"
  using assms
proof (induction es limit maxCount ids rule: GetIdsAfterUntil_loop.induct)
  case (2 k v es limit maxCount ids)
  have len: "unat (of_nat (length ids) :: u32) = length ids"
    using 2(2) unat_lt2p_32 [of maxCount] by (intro unat_of_nat_u32) simp
  show ?case
  proof (cases "k \<le> limit")
    case False
    with 2(3) have "filter (\<lambda>e. fst e \<le> limit) es = []"
      by (fastforce simp: filter_empty_conv)
    with False show ?thesis by simp
  next
    case True
    show ?thesis
    proof (cases "length ids < unat maxCount")
      case room: True
      then have "(of_nat (length ids) :: u32) < maxCount" by (simp add: word_less_nat_alt len)
      with 2 True room show ?thesis by (simp add: Suc_diff_Suc [symmetric] take_Suc_Cons)
    next
      case False
      then have "\<not> (of_nat (length ids) :: u32) < maxCount" by (simp add: word_less_nat_alt len)
      with False show ?thesis by simp
    qed
  qed
qed simp

lemma GetIdsAfterUntil_eq:
  assumes "om_wf (rg_quests r)"
  shows "Registry_GetIdsAfterUntil after limit maxCount r
    = take (unat maxCount) (filter (\<lambda>k. after < k \<and> k \<le> limit) (om_keys (rg_quests r)))"
proof (cases "maxCount = 0 \<or> after \<ge> limit")
  case True
  then have "maxCount = 0 \<or> filter (\<lambda>k. after < k \<and> k \<le> limit) (om_keys (rg_quests r)) = []"
    by (auto simp: filter_empty_conv)
  with True show ?thesis by (auto simp: Registry_GetIdsAfterUntil_def)
next
  case False
  let ?es = "om_upper_bound after (rg_quests r)"
  have es: "?es = filter (\<lambda>e. after < fst e) (rg_quests r)" using assms by (rule om_upper_bound_filter)
  have "sorted_wrt (<) (map fst ?es)" using om_wf_filter [OF assms] by (simp add: es om_wf_def)
  with False show ?thesis
    by (simp add: Registry_GetIdsAfterUntil_def GetIdsAfterUntil_loop_take es om_keys_def filter_map comp_def conj_commute)
qed

lemma GetHighestId_greatest:
  assumes "reg_ok r" and "om_find (rg_quests r) k = Some x"
  shows "k \<le> Registry_GetHighestId r"
proof -
  have "rg_quests r \<noteq> []" using assms(2) by auto
  with om.last_key_greatest [OF _ assms(2)] reg_ok_wf [OF assms(1)] show ?thesis
    by (simp add: Registry_GetHighestId_def)
qed

section \<open>Failing every active instance\<close>

lemma Fail_find:
  assumes "reg_ok r"
  shows "om_find (rg_quests (snd (Registry_Fail i now r))) k =
    (case om_find (rg_quests r) k of None \<Rightarrow> None
     | Some x \<Rightarrow> if k = i \<and> qi_State x = Active \<and> \<not> IsDynamicQuestExpired x now then Some (x\<lparr>qi_State := Failed\<rparr>) else Some x)"
  using reg_ok_wf [OF assms]
  by (cases "om_find (rg_quests r) i")
    (auto simp: Registry_Fail_def registry_apply_def FailDynamicQuest_def IsTerminal_def Let_def split: option.splits)

definition fail_one :: "u64 \<Rightarrow> DynamicQuestInstance \<Rightarrow> DynamicQuestInstance" where
  "fail_one now x = (if qi_State x = Active \<and> \<not> IsDynamicQuestExpired x now then x\<lparr>qi_State := Failed\<rparr> else x)"

lemma fail_one_idem [simp]: "fail_one now (fail_one now x) = fail_one now x"
  by (simp add: fail_one_def)

lemma fold_Fail_find:
  "reg_ok r \<Longrightarrow> om_find (rg_quests (fold (\<lambda>i r. snd (Registry_Fail i now r)) ids r)) k =
    map_option (if k \<in> set ids then fail_one now else id) (om_find (rg_quests r) k)"
proof (induction ids arbitrary: r)
  case (Cons i ids)
  have "om_find (rg_quests (snd (Registry_Fail i now r))) k
    = map_option (if k = i then fail_one now else id) (om_find (rg_quests r) k)"
    using Fail_find [OF Cons.prems] by (simp add: fail_one_def split: option.splits)
  with Cons.IH [OF Registry_Fail_ok [OF Cons.prems]] show ?case
    by (auto simp: option.map_comp comp_def)
qed (simp add: option.map_id)

lemma FailAll_find:
  assumes "reg_ok r"
  shows "om_find (rg_quests (snd (Registry_FailAllActiveInstances now r))) k
    = map_option (fail_one now) (om_find (rg_quests r) k)"
proof (cases "om_find (rg_quests r) k")
  case (Some x)
  then have "k \<in> set (Registry_GetAllActiveIds r) \<longleftrightarrow> qi_State x = Active"
    using reg_ok_wf [OF assms] om_find_iff [of "rg_quests r" k] by (force simp: Registry_GetAllActiveIds_def)
  with Some show ?thesis by (auto simp: FailAll_fold fold_Fail_find [OF assms] fail_one_def)
qed (simp add: FailAll_fold fold_Fail_find [OF assms])

text \<open>The instances the sweep returns are those it failed.\<close>

lemma FailAll_loop_failed:
  assumes "reg_ok r" and "distinct ids"
  shows "set (fst (FailAll_loop now ids r acc)) = set acc \<union>
    {y. \<exists>k \<in> set ids. \<exists>x. om_find (rg_quests r) k = Some x \<and> qi_State x = Active \<and>
      \<not> IsDynamicQuestExpired x now \<and> y = x\<lparr>qi_State := Failed\<rparr>}"
  using assms
proof (induction ids arbitrary: r acc)
  case (Cons i ids)
  let ?r = "snd (Registry_Fail i now r)"
  let ?F = "\<lambda>r ids. {y. \<exists>k \<in> set ids. \<exists>x. om_find (rg_quests r) k = Some x \<and> qi_State x = Active \<and>
      \<not> IsDynamicQuestExpired x now \<and> y = x\<lparr>qi_State := Failed\<rparr>}"
  have IH: "set (fst (FailAll_loop now ids ?r acc)) = set acc \<union> ?F ?r ids" for acc
    using Cons by (simp add: Registry_Fail_ok)
  have "om_find (rg_quests ?r) k = om_find (rg_quests r) k" if "k \<in> set ids" for k
    using that Cons.prems Fail_find [OF Cons.prems(1)] by (auto split: option.split)
  then have same: "?F ?r ids = ?F r ids" by (simp cong: bex_cong)
  show ?case
  proof (cases "om_find (rg_quests r) i")
    case None
    then have "FailAll_loop now (i # ids) r acc = FailAll_loop now ids ?r acc"
      by (simp add: Registry_Fail_def registry_apply_def)
    with IH same None show ?thesis by simp
  next
    case (Some x)
    show ?thesis
    proof (cases "qi_State x = Active \<and> \<not> IsDynamicQuestExpired x now")
      case True
      then have "FailDynamicQuest now x = Accepted (x\<lparr>qi_State := Failed\<rparr>)"
        by (simp add: FailDynamicQuest_def IsTerminal_def)
      with Some have "FailAll_loop now (i # ids) r acc = FailAll_loop now ids ?r (acc @ [x\<lparr>qi_State := Failed\<rparr>])"
        by (simp add: Registry_Fail_def registry_apply_def Let_def)
      with IH same Some True show ?thesis by auto
    next
      case False
      then have "\<not> tr_IsAccepted (FailDynamicQuest now x)" and "tr_Instance (FailDynamicQuest now x) = None"
        by (auto simp: FailDynamicQuest_def)
      with Some have "FailAll_loop now (i # ids) r acc = FailAll_loop now ids ?r acc"
        by (simp add: Registry_Fail_def registry_apply_def Let_def)
      with IH same Some False show ?thesis by auto
    qed
  qed
qed simp

lemma FailAll_failed:
  assumes "reg_ok r"
  shows "set (fst (Registry_FailAllActiveInstances now r)) =
    {y. \<exists>k x. om_find (rg_quests r) k = Some x \<and> qi_State x = Active \<and>
      \<not> IsDynamicQuestExpired x now \<and> y = x\<lparr>qi_State := Failed\<rparr>}"
proof -
  have "distinct (Registry_GetAllActiveIds r)"
    using distinct_om_keys [OF om_wf_filter, of "rg_quests r"] reg_ok_wf [OF assms]
    unfolding Registry_GetAllActiveIds_def om_keys_def by blast
  moreover have "k \<in> set (Registry_GetAllActiveIds r) \<longleftrightarrow> (\<exists>x. om_find (rg_quests r) k = Some x \<and> qi_State x = Active)" for k
    using reg_ok_wf [OF assms] om_find_iff [of "rg_quests r" k] by (force simp: Registry_GetAllActiveIds_def)
  ultimately show ?thesis
    unfolding Registry_FailAllActiveInstances_def FailAll_loop_failed [OF assms \<open>distinct _\<close>] by auto
qed

section \<open>Registry changes that offer nothing\<close>

fun offers :: "reg_op \<Rightarrow> bool" where
  "offers (ROffer i p l now) = True"
| "offers _ = False"

definition evolved :: "DynamicQuestRegistry \<Rightarrow> DynamicQuestRegistry \<Rightarrow> bool" where
  "evolved r r' = (\<exists>ops. (\<forall>op \<in> set ops. \<not> offers op) \<and> r' = reg_run ops r)"

lemma evolved_refl [simp, intro]: "evolved r r"
  unfolding evolved_def by (rule exI [of _ "[]"]) (simp add: reg_run_def)

lemma evolved_trans [trans]: "evolved r r' \<Longrightarrow> evolved r' r'' \<Longrightarrow> evolved r r''"
  unfolding evolved_def reg_run_def by (metis fold_append comp_apply Un_iff set_append)

lemma evolved_step: "\<not> offers op \<Longrightarrow> evolved r (reg_step op r)"
  unfolding evolved_def by (rule exI [of _ "[op]"]) (simp add: reg_run_def)

lemmas evolved_ops [intro] =
  evolved_step [of "RAccept i p now" for i p now, simplified]
  evolved_step [of "RProgress i p e now" for i p e now, simplified]
  evolved_step [of "RComplete i now" for i now, simplified]
  evolved_step [of "RExpire i now" for i now, simplified]
  evolved_step [of "RRemove i" for i, simplified]
  evolved_step [of "RFailAll now" for now, simplified]
  evolved_step [of "RTerminate i now" for i now, simplified]

lemma evolved_ok: "evolved r r' \<Longrightarrow> reg_ok r \<Longrightarrow> reg_ok r'"
  by (auto simp: evolved_def reg_run_ok)

definition gone :: "DynamicQuestId \<Rightarrow> DynamicQuestRegistry \<Rightarrow> bool" where
  "gone k r = (om_find (rg_quests r) k = None)"

lemma Remove_gone: "reg_ok r \<Longrightarrow> gone k r \<Longrightarrow> gone k (snd (Registry_Remove i r))"
  by (simp add: gone_def Registry_Remove_find)

lemma Fail_gone: "reg_ok r \<Longrightarrow> gone k r \<Longrightarrow> gone k (snd (Registry_Fail i now r))"
  by (simp add: gone_def Fail_find)

lemma reg_step_gone: "reg_ok r \<Longrightarrow> gone k r \<Longrightarrow> \<not> offers op \<Longrightarrow> gone k (reg_step op r)"
proof (cases op)
  case (RTerminate i now)
  assume "reg_ok r" and "gone k r"
  then show ?thesis
    using RTerminate by (simp add: Terminate_registry Remove_gone Fail_gone Registry_Fail_ok)
qed (auto simp: registry_transitions gone_def Registry_Remove_find FailAll_find
    q_accept.apply_keys q_progress.apply_keys q_complete.apply_keys q_fail.apply_keys q_expire.apply_keys)

lemma evolved_gone:
  assumes "evolved r r'" and "reg_ok r" and "gone k r"
  shows "gone k r'"
proof -
  from assms(1) obtain ops where no: "\<forall>op \<in> set ops. \<not> offers op" and r': "r' = reg_run ops r"
    by (auto simp: evolved_def)
  have "reg_ok (fold reg_step ops r) \<and> gone k (fold reg_step ops r)"
    using no assms(2,3) by (induction ops arbitrary: r) (auto simp: reg_step_ok reg_step_gone)
  then show ?thesis by (simp add: r' reg_run_def)
qed

section \<open>Properties\<close>

text \<open>
  C5: After any sequence of registry operations whatsoever, starting from the empty registry,
  every stored instance is well formed (progress counts its distinct consumed events and never
  passes the required count, an accepted quest is bound to a player, a completed one met its
  objective), is stored under its own id and is listed by its giver's index; and the index
  lists, without duplicates, only stored quests of that giver, with no empty bucket left over.
\<close>
theorem registry_reachable_ok: "reg_ok (reg_run ops registry_empty)"
  by (rule reg_reachable)

text \<open>
  C6: From any reachable registry on, a stored instance that the run does not remove stays
  stored, its state follows the documented transition relation, none of the facts fixed at
  offer time (id, giver, runtime guid, objective, target, reward, required count, expiry, text)
  ever changes, and a terminal instance is not changed at all.
\<close>
theorem registry_instance_history:
  assumes "om_find (rg_quests (reg_run ops1 registry_empty)) k = Some x"
    and "\<forall>op \<in> set ops2. \<not> removes k op"
  shows "\<exists>y. om_find (rg_quests (reg_run (ops1 @ ops2) registry_empty)) k = Some y \<and>
    quest_edge\<^sup>*\<^sup>* (qi_State x) (qi_State y) \<and> same_offer x y \<and> (IsTerminal (qi_State x) \<longrightarrow> y = x)"
  using reg_run_keeps [OF reg_reachable assms(2)] assms(1)
  by (auto simp: keeps_def evolves_def reg_run_def simp del: quest_edge_simps)

text \<open>
  The three per-giver queries, which only scan the giver's index bucket, answer as a scan of
  the whole registry would: an offered quest is found iff one exists, a live quest exists iff
  some unexpired Offered or Active one does, and the player's active quest is found iff one
  exists, with an expired one returned only when there is no unexpired one.
\<close>
theorem registry_giver_queries_complete:
  fixes ops g u p now
  defines "r \<equiv> reg_run ops registry_empty"
  shows "(Registry_FindOfferedByGiver g u r = None \<longleftrightarrow>
      (\<nexists>x. x \<in> set (reg_instances r) \<and> qi_State x = Offered \<and> qi_Giver x = g \<and> qi_GiverRuntimeGuid x = u)) \<and>
    (Registry_HasLiveInstanceForGiver g u now r \<longleftrightarrow>
      (\<exists>x. x \<in> set (reg_instances r) \<and> qi_Giver x = g \<and> qi_GiverRuntimeGuid x = u \<and>
        (qi_State x = Offered \<or> qi_State x = Active) \<and> now < qi_ExpiresAtMs x)) \<and>
    (Registry_FindActiveByGiverAndPlayer g u p now r = None \<longleftrightarrow>
      (\<nexists>x. x \<in> set (reg_instances r) \<and> active_for g u p x)) \<and>
    ((\<exists>x. x \<in> set (reg_instances r) \<and> active_for g u p x \<and> now < qi_ExpiresAtMs x) \<longleftrightarrow>
      (\<exists>y. Registry_FindActiveByGiverAndPlayer g u p now r = Some y \<and> now < qi_ExpiresAtMs y))"
proof (rule conj4I)
  have ok: "reg_ok r" unfolding r_def by (rule reg_reachable)
  note b = bucket_instances [OF ok]
  show "Registry_FindOfferedByGiver g u r = None \<longleftrightarrow>
      (\<nexists>x. x \<in> set (reg_instances r) \<and> qi_State x = Offered \<and> qi_Giver x = g \<and> qi_GiverRuntimeGuid x = u)"
    unfolding Registry_FindOfferedByGiver_def FindOffered_loop_None b by blast
  show "Registry_HasLiveInstanceForGiver g u now r \<longleftrightarrow>
      (\<exists>x. x \<in> set (reg_instances r) \<and> qi_Giver x = g \<and> qi_GiverRuntimeGuid x = u \<and>
        (qi_State x = Offered \<or> qi_State x = Active) \<and> now < qi_ExpiresAtMs x)"
    unfolding Registry_HasLiveInstanceForGiver_def HasLive_loop_iff b IsDynamicQuestExpired_def not_le by blast
  show "Registry_FindActiveByGiverAndPlayer g u p now r = None \<longleftrightarrow>
      (\<nexists>x. x \<in> set (reg_instances r) \<and> active_for g u p x)"
    unfolding Registry_FindActiveByGiverAndPlayer_def FindActive_loop_None b by (auto simp: active_for_def)
  show "(\<exists>x. x \<in> set (reg_instances r) \<and> active_for g u p x \<and> now < qi_ExpiresAtMs x) \<longleftrightarrow>
      (\<exists>y. Registry_FindActiveByGiverAndPlayer g u p now r = Some y \<and> now < qi_ExpiresAtMs y)"
    (is "?L \<longleftrightarrow> ?R")
  proof
    assume ?L
    then obtain x where x: "x \<in> set (reg_instances r)" "active_for g u p x" "now < qi_ExpiresAtMs x" by blast
    then have "qi_Giver x = g" by (simp add: active_for_def)
    with x(1) b obtain k where "k \<in> set (giver_bucket g r)" "om_find (rg_quests r) k = Some x" by blast
    from FindActive_loop_live [OF x(2) _ this(2,1)] x(3) show ?R
      by (simp add: Registry_FindActiveByGiverAndPlayer_def IsDynamicQuestExpired_def not_le)
  next
    assume ?R
    then obtain y where y: "Registry_FindActiveByGiverAndPlayer g u p now r = Some y" "now < qi_ExpiresAtMs y"
      by blast
    from FindActive_loop_Some [OF y(1) [unfolded Registry_FindActiveByGiverAndPlayer_def]] b y(2) show ?L by blast
  qed
qed

text \<open>
  The maintenance cursor's page is exactly the first \<open>maxCount\<close> stored ids above the cursor
  and not above the pass limit, in ascending order, and the pass limit \<open>GetHighestId\<close> is at
  least every stored id, so a pass that starts at 0 misses no quest present when it started.
\<close>
theorem registry_scan_window:
  fixes ops
  defines "r \<equiv> reg_run ops registry_empty"
  shows "(Registry_GetIdsAfterUntil after limit maxCount r
      = take (unat maxCount) (filter (\<lambda>k. after < k \<and> k \<le> limit) (om_keys (rg_quests r)))) \<and>
    (sorted_wrt (<) (om_keys (rg_quests r))) \<and>
    (set (om_keys (rg_quests r)) \<subseteq> {k. 0 < k \<and> k \<le> Registry_GetHighestId r})"
proof (rule conj3I)
  have ok: "reg_ok r" unfolding r_def by (rule reg_reachable)
  note wf = reg_ok_wf [OF ok]
  show "Registry_GetIdsAfterUntil after limit maxCount r
      = take (unat maxCount) (filter (\<lambda>k. after < k \<and> k \<le> limit) (om_keys (rg_quests r)))"
    using wf by (simp add: GetIdsAfterUntil_eq)
  show "sorted_wrt (<) (om_keys (rg_quests r))" using wf by (simp add: om_wf_def om_keys_def)
  show "set (om_keys (rg_quests r)) \<subseteq> {k. 0 < k \<and> k \<le> Registry_GetHighestId r}"
    using GetHighestId_greatest [OF ok] reg_ok_stored [OF ok]
    by (force simp: set_om_keys quest_ok_def word_neq_0_conv)
qed

text \<open>
  The containment sweep fails every quest that is Active and not expired, and touches
  nothing else: Offered, terminal and already expired instances stay as they were, and no
  quest appears or disappears.
\<close>
theorem registry_fail_all_exact:
  fixes ops
  defines "r \<equiv> reg_run ops registry_empty"
  shows "om_find (rg_quests (snd (Registry_FailAllActiveInstances now r))) k =
    (case om_find (rg_quests r) k of None \<Rightarrow> None
     | Some x \<Rightarrow> Some (if qi_State x = Active \<and> now < qi_ExpiresAtMs x then x\<lparr>qi_State := Failed\<rparr> else x))"
  using FailAll_find [of r now k] reg_reachable [of ops]
  by (simp add: r_def fail_one_def IsDynamicQuestExpired_def not_le split: option.split)

section \<open>Witnesses\<close>

definition ex_proposal :: QuestProposal where
  "ex_proposal = \<lparr>qp_Giver = 3, qp_GiverRuntimeGuid = 0xF130000000000001, qp_SourceEventId = 21,
     qp_SourceCorrelationId = 21, qp_SourceEventType = NPCInjured, qp_Objective = KillCreature,
     qp_TargetToken = 1, qp_TargetGuid = 0xF130000000000002, qp_TargetEntry = 69, qp_TargetMapId = 0,
     qp_RequiredCount = 1, qp_MaxRangeYards = Fin 50, qp_ExpiryMs = 60000, qp_RewardMoneyCopper = 250,
     qp_Title = ''Wolves'', qp_Description = ''Cull the pack''\<rparr>"

definition ex_offer :: "reg_op list" where
  "ex_offer = [ROffer 1 ex_proposal default_location 1000]"

definition ex_offered :: DynamicQuestInstance where
  "ex_offered = hd (reg_instances (reg_run ex_offer registry_empty))"

lemma ex_offered_found: "om_find (rg_quests (reg_run ex_offer registry_empty)) 1 = Some ex_offered"
  by code_simp

lemma ex_offered_state: "qi_State ex_offered = Offered"
  by code_simp

lemma registry_instance_history_witness:
  "\<exists>y. om_find (rg_quests (reg_run (ex_offer @ [RAccept 1 5 1500, RProgress 1 5 7 1600, RComplete 1 1700]) registry_empty)) 1 = Some y \<and>
    quest_edge\<^sup>*\<^sup>* Offered (qi_State y) \<and> same_offer ex_offered y"
proof -
  have "\<forall>op \<in> set [RAccept 1 5 1500, RProgress 1 5 7 1600, RComplete 1 1700]. \<not> removes 1 op" by simp
  from registry_instance_history [OF ex_offered_found this] show ?thesis unfolding ex_offered_state by blast
qed

end
