(* ===== verification/Quest_Authority.thy ===== *)
theory Quest_Authority
  imports Quest_Registry
begin

text \<open>
  The single authority over dynamic quests, \<open>AIWorldMgr\<close>: the live-state checks of
  \<open>Quest/DynamicQuestCreation\<close>, \<open>DynamicQuestPlayerAcceptance\<close> and
  \<open>DynamicQuestPlayerCompletion\<close>, the outcome event, and the orchestration in
  \<open>AIWorldMgr.cpp\<close> that creates, accepts, advances, completes, pays, expires and contains
  quests. What the game engine knows (which agents, creatures and players are live, where
  they stand, the world clock) is the parameter \<open>LiveWorld\<close> of each call; a player's money
  and the messages sent to players are part of the state. The two money hooks a server
  script may install are parameters of \<open>ModifyMoney\<close>.
\<close>

section \<open>The live world\<close>

record LiveCreature =
  cr_Guid :: ObjectGuid
  cr_Alive :: bool
  cr_Entry :: u32
  cr_Location :: WorldEventLocation
  cr_Name :: string

record AgentView =
  av_Materialized :: bool
  av_AIWorldControlled :: bool
  av_Creature :: "LiveCreature option"

record LivePlayer =
  lp_Alive :: bool
  lp_MapId :: u32

record LiveWorld =
  lw_SystemMs :: u64
  lw_Agent :: "AgentId \<Rightarrow> AgentView option"
  lw_Player :: "ObjectGuid \<Rightarrow> LivePlayer option"
  lw_Target :: "ObjectGuid \<Rightarrow> ObjectGuid \<Rightarrow> LiveCreature option"
  lw_ValidAttackTarget :: "ObjectGuid \<Rightarrow> ObjectGuid \<Rightarrow> bool"
  lw_Distance :: "ObjectGuid \<Rightarrow> ObjectGuid \<Rightarrow> flt"

definition cr_MapId :: "LiveCreature \<Rightarrow> u32" where
  "cr_MapId c = loc_MapId (cr_Location c)"

text \<open>The creature \<open>ResolveLiveCreature\<close> finds for an agent record, if any.\<close>

definition GiverCreature :: "LiveWorld \<Rightarrow> AgentId \<Rightarrow> LiveCreature option" where
  "GiverCreature w a = (case lw_Agent w a of None \<Rightarrow> None | Some record \<Rightarrow> av_Creature record)"

record MoneyHooks =
  mh_Changed :: "u32 \<Rightarrow> u32 \<Rightarrow> u32 \<times> u32"
  mh_Limit :: "u32 \<Rightarrow> u32 \<Rightarrow> u32"

definition no_hooks :: MoneyHooks where
  "no_hooks = \<lparr>mh_Changed = (\<lambda>money amount. (money, amount)), mh_Limit = (\<lambda>money amount. money)\<rparr>"

definition MAX_MONEY_AMOUNT :: u32 where
  "MAX_MONEY_AMOUNT = 0x7FFFFFFF"

text \<open>\<open>Player::ModifyMoney(int32 amount)\<close> on the player's money; the amount is a signed word.\<close>

definition ModifyMoney :: "MoneyHooks \<Rightarrow> u32 \<Rightarrow> u32 \<Rightarrow> bool \<times> u32" where
  "ModifyMoney hooks amount money =
     (if amount = 0 then (True, money)
      else let (money, amount) = mh_Changed hooks money amount in
        if sint amount < 0 then (True, if money > - amount then money + amount else 0)
        else if money < MAX_MONEY_AMOUNT - amount then (True, money + amount)
        else (False, mh_Limit hooks money amount))"

section \<open>Creating an offer\<close>

datatype DynamicQuestCreateReason =
    DC_NotAttempted | DC_None | RegistryFull | DC_GiverMissing | DC_GiverChanged | DC_GiverUnavailable
  | TargetMissing | TargetChanged | TargetUnavailable | TargetOutOfRange | IdExhausted | OfferRejected

record DynamicQuestGiverFacts =
  gf_RecordExists :: bool
  gf_Materialized :: bool
  gf_AIWorldControlled :: bool
  gf_Alive :: bool
  gf_RuntimeGuid :: ObjectGuid

record DynamicQuestTargetFacts =
  qt_Resolved :: bool
  qt_Alive :: bool
  qt_Attackable :: bool
  qt_Entry :: u32
  qt_MapId :: u32
  qt_Distance :: flt

definition CheckDynamicQuestCreateApplicability ::
    "QuestProposal \<Rightarrow> DynamicQuestGiverFacts \<Rightarrow> DynamicQuestTargetFacts \<Rightarrow> DynamicQuestCreateReason" where
  "CheckDynamicQuestCreateApplicability proposal giver target =
     (if \<not> gf_RecordExists giver then DC_GiverMissing
      else if gf_RuntimeGuid giver \<noteq> qp_GiverRuntimeGuid proposal then DC_GiverChanged
      else if \<not> gf_Materialized giver \<or> \<not> gf_AIWorldControlled giver \<or> \<not> gf_Alive giver then DC_GiverUnavailable
      else if \<not> qt_Resolved target then TargetMissing
      else if qt_Entry target \<noteq> qp_TargetEntry proposal \<or> qt_MapId target \<noteq> qp_TargetMapId proposal then TargetChanged
      else if \<not> qt_Alive target \<or> \<not> qt_Attackable target then TargetUnavailable
      else if DistanceOutside (qt_Distance target) (qp_MaxRangeYards proposal) then TargetOutOfRange
      else DC_None)"

record DynamicQuestCreateResult =
  dc_Reason :: DynamicQuestCreateReason
  dc_Id :: "DynamicQuestId option"

definition dc_IsCreated :: "DynamicQuestCreateResult \<Rightarrow> bool" where
  "dc_IsCreated r = (dc_Reason r = DC_None \<and> dc_Id r \<noteq> None)"

section \<open>Accepting an offer\<close>

datatype DynamicQuestPlayerAcceptReason =
    PA_NotAttempted | PA_None | PA_QuestNotFound | PA_PlayerInvalid | PA_GiverMissing | PA_GiverChanged
  | PA_GiverUnavailable | PA_OutOfRange | PA_InteractionRangeInvalid | AcceptRejected

record DynamicQuestPlayerFacts =
  pf_IsPlayerGuid :: bool
  pf_Resolved :: bool
  pf_Alive :: bool
  pf_MapId :: u32

record DynamicQuestGiverAcceptFacts =
  ga_RecordExists :: bool
  ga_Materialized :: bool
  ga_AIWorldControlled :: bool
  ga_Alive :: bool
  ga_RuntimeGuid :: ObjectGuid
  ga_MapId :: u32

definition InteractionRangeBad :: "flt \<Rightarrow> bool" where
  "InteractionRangeBad maxRange = (\<not> isfinite maxRange \<or> flt_lt maxRange (Fin 1))"

definition CheckDynamicQuestPlayerAcceptApplicability ::
    "DynamicQuestInstance \<Rightarrow> DynamicQuestPlayerFacts \<Rightarrow> DynamicQuestGiverAcceptFacts \<Rightarrow> flt \<Rightarrow> flt \<Rightarrow>
     DynamicQuestPlayerAcceptReason" where
  "CheckDynamicQuestPlayerAcceptApplicability inst player giver distance maxRange =
     (if \<not> pf_IsPlayerGuid player \<or> \<not> pf_Resolved player \<or> \<not> pf_Alive player then PA_PlayerInvalid
      else if \<not> ga_RecordExists giver then PA_GiverMissing
      else if ga_RuntimeGuid giver \<noteq> qi_GiverRuntimeGuid inst then PA_GiverChanged
      else if \<not> ga_Materialized giver \<or> \<not> ga_AIWorldControlled giver \<or> \<not> ga_Alive giver then PA_GiverUnavailable
      else if pf_MapId player \<noteq> ga_MapId giver then PA_OutOfRange
      else if InteractionRangeBad maxRange then PA_InteractionRangeInvalid
      else if DistanceOutside distance maxRange then PA_OutOfRange
      else PA_None)"

section \<open>Turning a quest in\<close>

datatype DynamicQuestPlayerCompleteReason =
    PC_NotAttempted | PC_None | PC_QuestNotFound | PC_PlayerInvalid | PC_PlayerMismatch | PC_GiverMissing
  | PC_GiverChanged | PC_GiverUnavailable | PC_InteractionRangeInvalid | PC_OutOfRange | InvalidQuestState
  | PC_AlreadyExpired | PC_ProgressIncomplete | RewardMoneyLimit | RewardApplicationFailed | CompleteRejected

record DynamicQuestPlayerCompleteFacts =
  pcf_IsPlayerGuid :: bool
  pcf_Resolved :: bool
  pcf_Alive :: bool
  pcf_MapId :: u32
  pcf_Money :: u32

record DynamicQuestGiverCompleteFacts =
  gc_RecordExists :: bool
  gc_Materialized :: bool
  gc_AIWorldControlled :: bool
  gc_Alive :: bool
  gc_RuntimeGuid :: ObjectGuid
  gc_MapId :: u32

definition CheckDynamicQuestPlayerCompleteApplicability ::
    "DynamicQuestInstance \<Rightarrow> ObjectGuid \<Rightarrow> DynamicQuestPlayerCompleteFacts \<Rightarrow>
     DynamicQuestGiverCompleteFacts \<Rightarrow> flt \<Rightarrow> flt \<Rightarrow> u32 \<Rightarrow> u64 \<Rightarrow> DynamicQuestPlayerCompleteReason" where
  "CheckDynamicQuestPlayerCompleteApplicability inst playerGuid player giver distance maxRange maxMoney nowMs =
     (if \<not> pcf_IsPlayerGuid player \<or> \<not> pcf_Resolved player \<or> \<not> pcf_Alive player then PC_PlayerInvalid
      else if playerGuid \<noteq> qi_AcceptedByPlayerGuid inst then PC_PlayerMismatch
      else if \<not> gc_RecordExists giver then PC_GiverMissing
      else if gc_RuntimeGuid giver \<noteq> qi_GiverRuntimeGuid inst then PC_GiverChanged
      else if \<not> gc_Materialized giver \<or> \<not> gc_AIWorldControlled giver \<or> \<not> gc_Alive giver then PC_GiverUnavailable
      else if pcf_MapId player \<noteq> gc_MapId giver then PC_OutOfRange
      else if InteractionRangeBad maxRange then PC_InteractionRangeInvalid
      else if DistanceOutside distance maxRange then PC_OutOfRange
      else if qi_State inst \<noteq> Active then InvalidQuestState
      else if IsDynamicQuestExpired inst nowMs then PC_AlreadyExpired
      else if \<not> IsDynamicQuestObjectiveComplete inst then PC_ProgressIncomplete
      else if qi_RewardMoneyCopper inst > 0 \<and>
          widen (pcf_Money player) + widen (qi_RewardMoneyCopper inst) \<ge> widen maxMoney then RewardMoneyLimit
      else PC_None)"

section \<open>The outcome event\<close>

fun ToOutcomeEventType :: "DynamicQuestState \<Rightarrow> WorldEventType option" where
  "ToOutcomeEventType Completed = Some DynamicQuestCompleted"
| "ToOutcomeEventType Failed = Some DynamicQuestFailed"
| "ToOutcomeEventType Expired = Some DynamicQuestExpired"
| "ToOutcomeEventType _ = None"

definition BuildDynamicQuestOutcomeWorldEvent :: "DynamicQuestInstance \<Rightarrow> WorldEventLocation \<Rightarrow> WorldEvent option" where
  "BuildDynamicQuestOutcomeWorldEvent inst location =
     (case ToOutcomeEventType (qi_State inst) of
        None \<Rightarrow> None
      | Some type \<Rightarrow> Some (default_event\<lparr>ev_EventId := 0,
          ev_CorrelationId := qi_SourceCorrelationId inst, ev_CauseEventId := qi_SourceEventId inst,
          ev_Type := type, ev_Location := location,
          ev_Actor := (if qi_State inst = Completed
            then default_ref\<lparr>ref_Guid := qi_AcceptedByPlayerGuid inst\<rparr> else default_ref),
          ev_Target := default_ref\<lparr>ref_Agent := qi_Giver inst, ref_Guid := qi_GiverRuntimeGuid inst\<rparr>\<rparr>))"

section \<open>Messages\<close>

text \<open>\<open>std::to_string\<close> of an unsigned value, and the C string a \<open>%s\<close> prints.\<close>

fun decimal :: "nat \<Rightarrow> string" where
  "decimal n = (if n < 10 then [char_of (48 + n)] else decimal (n div 10) @ [char_of (48 + n mod 10)])"

declare decimal.simps [simp del]

definition c_str :: "string \<Rightarrow> string" where
  "c_str s = takeWhile (\<lambda>c. c \<noteq> CHR 0x00) s"

definition FormatDynamicQuestKillProgressMessage :: "u32 \<Rightarrow> u32 \<Rightarrow> string" where
  "FormatDynamicQuestKillProgressMessage progress requiredCount =
     ''Dynamic task progress: '' @ decimal (unat progress) @ ''/'' @ decimal (unat requiredCount)"

definition FormatDynamicQuestObjectiveCompleteMessage :: "string \<Rightarrow> string" where
  "FormatDynamicQuestObjectiveCompleteMessage giverName =
     (if giverName = [] then ''Objective complete. Return to the quest giver.''
      else ''Objective complete. Return to '' @ giverName @ ''.'')"

definition FormatDynamicQuestCompletedMessage :: "string \<Rightarrow> string" where
  "FormatDynamicQuestCompletedMessage title = ''Completed: '' @ title @ ''.''"

definition FormatDynamicQuestRewardMessage :: "u32 \<Rightarrow> string" where
  "FormatDynamicQuestRewardMessage rewardMoneyCopper = ''Reward: '' @ decimal (unat rewardMoneyCopper) @ '' copper.''"

definition FormatDynamicQuestCompleteRejectedMessage :: "DynamicQuestPlayerCompleteReason \<Rightarrow> string" where
  "FormatDynamicQuestCompleteRejectedMessage reason =
     (if reason = RewardMoneyLimit then ''Unable to turn in dynamic task: you cannot carry that much money.''
      else ''Unable to turn in dynamic task.'')"

section \<open>The authority's state\<close>

record QuestConfig =
  cfg_MaxLive :: u32
  cfg_AcceptMaxRangeYards :: flt
  cfg_ScanMaxPerPass :: u32

text \<open>\<open>LoadConfig\<close>: each value read from the configuration is clamped to its floor.\<close>

definition clamp_low :: "u32 \<Rightarrow> u32" where
  "clamp_low value = (if sint value < 1 then 1 else value)"

definition LoadDynamicQuestConfig :: "u32 \<Rightarrow> flt \<Rightarrow> u32 \<Rightarrow> QuestConfig" where
  "LoadDynamicQuestConfig maxLive maxRange scanMax =
     \<lparr>cfg_MaxLive = clamp_low maxLive,
      cfg_AcceptMaxRangeYards = (if InteractionRangeBad maxRange then Fin 1 else maxRange),
      cfg_ScanMaxPerPass = clamp_low scanMax\<rparr>"

record QuestAuthority =
  au_registry :: DynamicQuestRegistry
  au_nextDynamicQuestId :: u64
  au_eventBus :: EventBus
  au_killEventBus :: DynamicQuestKillEventBus
  au_maintenanceCursor :: DynamicQuestId
  au_maintenanceCycleHighWater :: DynamicQuestId
  au_lastObservedKillDropCount :: u64
  au_acceptEvents :: bool
  au_money :: "ObjectGuid \<Rightarrow> u32"
  au_messages :: "(ObjectGuid \<times> string) list"

definition PublishWorldEvent :: "LiveWorld \<Rightarrow> WorldEvent \<Rightarrow> QuestAuthority \<Rightarrow> bool \<times> QuestAuthority" where
  "PublishWorldEvent w event s =
     (if \<not> au_acceptEvents s then (False, s)
      else let (ok, b) = EventBus_Publish (lw_SystemMs w) event (au_eventBus s) in (ok, s\<lparr>au_eventBus := b\<rparr>))"

definition PublishDynamicQuestKillEvent :: "DynamicQuestKillEvent \<Rightarrow> QuestAuthority \<Rightarrow> QuestAuthority" where
  "PublishDynamicQuestKillEvent event s =
     (if \<not> au_acceptEvents s then s
      else s\<lparr>au_killEventBus := snd (KillEventBus_Publish event (au_killEventBus s))\<rparr>)"

definition ResolveDynamicQuestOutcomeLocation :: "LiveWorld \<Rightarrow> DynamicQuestInstance \<Rightarrow> WorldEventLocation" where
  "ResolveDynamicQuestOutcomeLocation w inst =
     (case GiverCreature w (qi_Giver inst) of
        None \<Rightarrow> qi_GiverLocationAtOffer inst
      | Some liveGiver \<Rightarrow>
          if cr_Guid liveGiver = qi_GiverRuntimeGuid inst then cr_Location liveGiver else qi_GiverLocationAtOffer inst)"

definition PublishDynamicQuestOutcome :: "LiveWorld \<Rightarrow> DynamicQuestInstance \<Rightarrow> WorldEventLocation \<Rightarrow>
    QuestAuthority \<Rightarrow> QuestAuthority" where
  "PublishDynamicQuestOutcome w inst location s =
     (case BuildDynamicQuestOutcomeWorldEvent inst location of
        None \<Rightarrow> s
      | Some outcomeEvent \<Rightarrow> snd (PublishWorldEvent w outcomeEvent s))"

definition say :: "ObjectGuid \<Rightarrow> string \<Rightarrow> QuestAuthority \<Rightarrow> QuestAuthority" where
  "say player text s = s\<lparr>au_messages := au_messages s @ [(player, c_str text)]\<rparr>"

section \<open>CreateDynamicQuestOffer\<close>

definition AllocateDynamicQuestId :: "QuestAuthority \<Rightarrow> DynamicQuestId \<times> QuestAuthority" where
  "AllocateDynamicQuestId s =
     (let (i, c) = AdvanceDynamicQuestIdCounter (au_nextDynamicQuestId s) in (i, s\<lparr>au_nextDynamicQuestId := c\<rparr>))"

definition CreateGiverFacts :: "LiveWorld \<Rightarrow> AgentId \<Rightarrow> DynamicQuestGiverFacts" where
  "CreateGiverFacts w a =
     (case lw_Agent w a of
        None \<Rightarrow> \<lparr>gf_RecordExists = False, gf_Materialized = False, gf_AIWorldControlled = False,
                 gf_Alive = False, gf_RuntimeGuid = 0\<rparr>
      | Some record \<Rightarrow> \<lparr>gf_RecordExists = True, gf_Materialized = av_Materialized record,
          gf_AIWorldControlled = av_AIWorldControlled record,
          gf_Alive = (case av_Creature record of None \<Rightarrow> False | Some c \<Rightarrow> cr_Alive c),
          gf_RuntimeGuid = (case av_Creature record of None \<Rightarrow> 0 | Some c \<Rightarrow> cr_Guid c)\<rparr>)"

definition CreateTargetFacts :: "LiveWorld \<Rightarrow> QuestProposal \<Rightarrow> DynamicQuestTargetFacts" where
  "CreateTargetFacts w proposal =
     (let none = \<lparr>qt_Resolved = False, qt_Alive = False, qt_Attackable = False, qt_Entry = 0, qt_MapId = 0,
                  qt_Distance = Fin 0\<rparr> in
      case GiverCreature w (qp_Giver proposal) of
        None \<Rightarrow> none
      | Some giver \<Rightarrow>
          (case lw_Target w (cr_Guid giver) (qp_TargetGuid proposal) of
             None \<Rightarrow> none
           | Some target \<Rightarrow> \<lparr>qt_Resolved = True, qt_Alive = cr_Alive target,
               qt_Attackable = (cr_Guid target \<noteq> cr_Guid giver \<and> cr_MapId target = cr_MapId giver \<and>
                 lw_ValidAttackTarget w (cr_Guid giver) (cr_Guid target)),
               qt_Entry = cr_Entry target, qt_MapId = cr_MapId target,
               qt_Distance = lw_Distance w (cr_Guid giver) (cr_Guid target)\<rparr>))"

definition CreateDynamicQuestOffer :: "LiveWorld \<Rightarrow> QuestConfig \<Rightarrow> QuestProposal \<Rightarrow> u64 \<Rightarrow> QuestAuthority \<Rightarrow>
    DynamicQuestCreateResult \<times> QuestAuthority" where
  "CreateDynamicQuestOffer w cfg proposal nowMs s =
     (if Registry_GetCount (au_registry s) \<ge> cfg_MaxLive cfg
      then (\<lparr>dc_Reason = RegistryFull, dc_Id = None\<rparr>, s)
      else let applicability = CheckDynamicQuestCreateApplicability proposal
             (CreateGiverFacts w (qp_Giver proposal)) (CreateTargetFacts w proposal) in
      if applicability \<noteq> DC_None then (\<lparr>dc_Reason = applicability, dc_Id = None\<rparr>, s)
      else let giverLocationAtOffer = (case GiverCreature w (qp_Giver proposal) of
                 None \<Rightarrow> default_location | Some c \<Rightarrow> cr_Location c);
               (i, s1) = AllocateDynamicQuestId s in
      if i = 0 then (\<lparr>dc_Reason = IdExhausted, dc_Id = None\<rparr>, s1)
      else let (offerResult, r) = Registry_Offer i proposal giverLocationAtOffer nowMs (au_registry s1);
               s2 = s1\<lparr>au_registry := r\<rparr> in
      if \<not> tr_IsAccepted offerResult then (\<lparr>dc_Reason = OfferRejected, dc_Id = None\<rparr>, s2)
      else (\<lparr>dc_Reason = DC_None, dc_Id = Some i\<rparr>, s2))"

section \<open>AcceptDynamicQuestForPlayer\<close>

text \<open>The player the guid resolves to; a guid that is not a player's is not looked up.\<close>

definition ResolvePlayer :: "LiveWorld \<Rightarrow> ObjectGuid \<Rightarrow> LivePlayer option" where
  "ResolvePlayer w playerGuid = (if IsPlayer playerGuid then lw_Player w playerGuid else None)"

definition PlayerGiverDistance :: "LiveWorld \<Rightarrow> ObjectGuid \<Rightarrow> AgentId \<Rightarrow> flt" where
  "PlayerGiverDistance w playerGuid giver =
     (case (ResolvePlayer w playerGuid, GiverCreature w giver) of
        (Some player, Some c) \<Rightarrow>
          if lp_MapId player = cr_MapId c then lw_Distance w playerGuid (cr_Guid c) else PosInf
      | _ \<Rightarrow> PosInf)"

definition AcceptPlayerFacts :: "LiveWorld \<Rightarrow> ObjectGuid \<Rightarrow> DynamicQuestPlayerFacts" where
  "AcceptPlayerFacts w playerGuid =
     (case ResolvePlayer w playerGuid of
        None \<Rightarrow> \<lparr>pf_IsPlayerGuid = IsPlayer playerGuid, pf_Resolved = False, pf_Alive = False, pf_MapId = 0\<rparr>
      | Some player \<Rightarrow> \<lparr>pf_IsPlayerGuid = IsPlayer playerGuid, pf_Resolved = True,
          pf_Alive = lp_Alive player, pf_MapId = lp_MapId player\<rparr>)"

definition AcceptGiverFacts :: "LiveWorld \<Rightarrow> AgentId \<Rightarrow> DynamicQuestGiverAcceptFacts" where
  "AcceptGiverFacts w a =
     (case lw_Agent w a of
        None \<Rightarrow> \<lparr>ga_RecordExists = False, ga_Materialized = False, ga_AIWorldControlled = False,
                 ga_Alive = False, ga_RuntimeGuid = 0, ga_MapId = 0\<rparr>
      | Some record \<Rightarrow> \<lparr>ga_RecordExists = True, ga_Materialized = av_Materialized record,
          ga_AIWorldControlled = av_AIWorldControlled record,
          ga_Alive = (case av_Creature record of None \<Rightarrow> False | Some c \<Rightarrow> cr_Alive c),
          ga_RuntimeGuid = (case av_Creature record of None \<Rightarrow> 0 | Some c \<Rightarrow> cr_Guid c),
          ga_MapId = (case av_Creature record of None \<Rightarrow> 0 | Some c \<Rightarrow> cr_MapId c)\<rparr>)"

definition AcceptDynamicQuestForPlayer :: "LiveWorld \<Rightarrow> QuestConfig \<Rightarrow> DynamicQuestId \<Rightarrow> ObjectGuid \<Rightarrow> u64 \<Rightarrow>
    QuestAuthority \<Rightarrow> DynamicQuestPlayerAcceptReason \<times> QuestAuthority" where
  "AcceptDynamicQuestForPlayer w cfg i playerGuid nowMs s =
     (case Registry_Find (au_registry s) i of
        None \<Rightarrow> (PA_QuestNotFound, s)
      | Some inst \<Rightarrow>
          let applicability = CheckDynamicQuestPlayerAcceptApplicability inst (AcceptPlayerFacts w playerGuid)
                (AcceptGiverFacts w (qi_Giver inst)) (PlayerGiverDistance w playerGuid (qi_Giver inst))
                (cfg_AcceptMaxRangeYards cfg) in
          if applicability \<noteq> PA_None then (applicability, s)
          else let (acceptResult, r) = Registry_Accept i playerGuid nowMs (au_registry s);
                   s1 = s\<lparr>au_registry := r\<rparr> in
          (case (tr_IsAccepted acceptResult, tr_Instance acceptResult) of
             (True, Some accepted) \<Rightarrow> (PA_None, say playerGuid (''Accepted: '' @ c_str (qi_Title accepted)) s1)
           | _ \<Rightarrow> (AcceptRejected, s1)))"

section \<open>CompleteDynamicQuestForPlayer\<close>

definition CompletePlayerFacts :: "LiveWorld \<Rightarrow> QuestAuthority \<Rightarrow> ObjectGuid \<Rightarrow> DynamicQuestPlayerCompleteFacts" where
  "CompletePlayerFacts w s playerGuid =
     (case ResolvePlayer w playerGuid of
        None \<Rightarrow> \<lparr>pcf_IsPlayerGuid = IsPlayer playerGuid, pcf_Resolved = False, pcf_Alive = False,
                 pcf_MapId = 0, pcf_Money = 0\<rparr>
      | Some player \<Rightarrow> \<lparr>pcf_IsPlayerGuid = IsPlayer playerGuid, pcf_Resolved = True,
          pcf_Alive = lp_Alive player, pcf_MapId = lp_MapId player, pcf_Money = au_money s playerGuid\<rparr>)"

definition CompleteGiverFacts :: "LiveWorld \<Rightarrow> AgentId \<Rightarrow> DynamicQuestGiverCompleteFacts" where
  "CompleteGiverFacts w a =
     (case lw_Agent w a of
        None \<Rightarrow> \<lparr>gc_RecordExists = False, gc_Materialized = False, gc_AIWorldControlled = False,
                 gc_Alive = False, gc_RuntimeGuid = 0, gc_MapId = 0\<rparr>
      | Some record \<Rightarrow> \<lparr>gc_RecordExists = True, gc_Materialized = av_Materialized record,
          gc_AIWorldControlled = av_AIWorldControlled record,
          gc_Alive = (case av_Creature record of None \<Rightarrow> False | Some c \<Rightarrow> cr_Alive c),
          gc_RuntimeGuid = (case av_Creature record of None \<Rightarrow> 0 | Some c \<Rightarrow> cr_Guid c),
          gc_MapId = (case av_Creature record of None \<Rightarrow> 0 | Some c \<Rightarrow> cr_MapId c)\<rparr>)"

text \<open>\<open>player->ModifyMoney(amount)\<close> on the player's money in the state.\<close>

definition PlayerModifyMoney :: "MoneyHooks \<Rightarrow> ObjectGuid \<Rightarrow> u32 \<Rightarrow> QuestAuthority \<Rightarrow> bool \<times> QuestAuthority" where
  "PlayerModifyMoney hooks playerGuid amount s =
     (let (ok, money) = ModifyMoney hooks amount (au_money s playerGuid)
      in (ok, s\<lparr>au_money := (au_money s)(playerGuid := money)\<rparr>))"

text \<open>
  \<open>actualDelta\<close> is an \<open>int64\<close> and the amount handed back is its negation cut to 32 bits; if the
  balance is not restored exactly, the quest is terminated so that it can never pay again.
\<close>

definition CompensateDynamicQuestReward :: "LiveWorld \<Rightarrow> MoneyHooks \<Rightarrow> DynamicQuestId \<Rightarrow> u64 \<Rightarrow> ObjectGuid \<Rightarrow>
    u32 \<Rightarrow> QuestAuthority \<Rightarrow> bool \<times> QuestAuthority" where
  "CompensateDynamicQuestReward w hooks i nowMs playerGuid moneyBeforeReward s =
     (let actualDelta = uint (au_money s playerGuid) - uint moneyBeforeReward;
          (compensated, s1) = (if actualDelta = 0 then (True, s)
             else PlayerModifyMoney hooks playerGuid (word_of_int (- actualDelta)) s);
          balanceRestored = (au_money s1 playerGuid = moneyBeforeReward)
      in if compensated \<and> balanceRestored then (True, s1)
         else let (termination, r) = Registry_TerminateForReplayContainment i nowMs (au_registry s1);
                  s2 = s1\<lparr>au_registry := r\<rparr>
         in (False, case te_FailedInstance termination of
               None \<Rightarrow> s2
             | Some failed \<Rightarrow> PublishDynamicQuestOutcome w failed (ResolveDynamicQuestOutcomeLocation w failed) s2))"

definition reject_turn_in :: "ObjectGuid \<Rightarrow> DynamicQuestPlayerCompleteReason \<Rightarrow> QuestAuthority \<Rightarrow>
    DynamicQuestPlayerCompleteReason \<times> QuestAuthority" where
  "reject_turn_in playerGuid reason s =
     (reason, say playerGuid (FormatDynamicQuestCompleteRejectedMessage reason) s)"

definition CompletionMessages :: "ObjectGuid \<Rightarrow> string \<Rightarrow> u32 \<Rightarrow> QuestAuthority \<Rightarrow> QuestAuthority" where
  "CompletionMessages playerGuid title reward s =
     (let s1 = say playerGuid (FormatDynamicQuestCompletedMessage title) s
      in if reward > 0 then say playerGuid (FormatDynamicQuestRewardMessage reward) s1 else s1)"

definition CompleteDynamicQuestForPlayer :: "LiveWorld \<Rightarrow> QuestConfig \<Rightarrow> MoneyHooks \<Rightarrow> DynamicQuestId \<Rightarrow>
    ObjectGuid \<Rightarrow> u64 \<Rightarrow> QuestAuthority \<Rightarrow> DynamicQuestPlayerCompleteReason \<times> QuestAuthority" where
  "CompleteDynamicQuestForPlayer w cfg hooks i playerGuid nowMs s =
     (case Registry_Find (au_registry s) i of
        None \<Rightarrow> (PC_QuestNotFound, s)
      | Some inst \<Rightarrow>
          let applicability = CheckDynamicQuestPlayerCompleteApplicability inst playerGuid
                (CompletePlayerFacts w s playerGuid) (CompleteGiverFacts w (qi_Giver inst))
                (PlayerGiverDistance w playerGuid (qi_Giver inst)) (cfg_AcceptMaxRangeYards cfg)
                MAX_MONEY_AMOUNT nowMs in
          if applicability \<noteq> PC_None then
            (if ResolvePlayer w playerGuid = None then (applicability, s) else reject_turn_in playerGuid applicability s)
          else let completionLocation = (case GiverCreature w (qi_Giver inst) of
                     None \<Rightarrow> default_location | Some c \<Rightarrow> cr_Location c) in
          if \<not> tr_IsAccepted (CompleteDynamicQuest nowMs inst) then reject_turn_in playerGuid CompleteRejected s
          else let reward = qi_RewardMoneyCopper inst;
                   moneyBeforeReward = au_money s playerGuid;
                   (rewardGranted, s1) = (if reward = 0 then (True, s) else PlayerModifyMoney hooks playerGuid reward s);
                   exactRewardApplied = (widen (au_money s1 playerGuid) = widen moneyBeforeReward + widen reward) in
          if \<not> rewardGranted \<or> \<not> exactRewardApplied then
            (let (restored, s2) = CompensateDynamicQuestReward w hooks i nowMs playerGuid moneyBeforeReward s1 in
             if \<not> restored then reject_turn_in playerGuid RewardApplicationFailed s2
             else reject_turn_in playerGuid (if rewardGranted then RewardApplicationFailed else RewardMoneyLimit) s2)
          else let (completeResult, r) = Registry_Complete i nowMs (au_registry s1);
                   s2 = s1\<lparr>au_registry := r\<rparr> in
          (case (tr_IsAccepted completeResult, tr_Instance completeResult) of
             (True, Some done_inst) \<Rightarrow>
               let s3 = PublishDynamicQuestOutcome w done_inst completionLocation s2;
                   s4 = s3\<lparr>au_registry := snd (Registry_Remove i (au_registry s3))\<rparr>
               in (PC_None, CompletionMessages playerGuid (qi_Title done_inst) reward s4)
           | _ \<Rightarrow>
               (let (restored, s3) = CompensateDynamicQuestReward w hooks i nowMs playerGuid moneyBeforeReward s2 in
                if \<not> restored then reject_turn_in playerGuid RewardApplicationFailed s3
                else reject_turn_in playerGuid CompleteRejected s3)))"

section \<open>Maintenance, kill credit and containment\<close>

fun Maintenance_loop :: "LiveWorld \<Rightarrow> u64 \<Rightarrow> DynamicQuestId list \<Rightarrow> QuestAuthority \<Rightarrow> QuestAuthority" where
  "Maintenance_loop w nowMs [] s = s"
| "Maintenance_loop w nowMs (i # ids) s =
     (case Registry_Find (au_registry s) i of
        None \<Rightarrow> Maintenance_loop w nowMs ids s
      | Some inst \<Rightarrow>
          if qi_State inst \<noteq> Offered \<and> qi_State inst \<noteq> Active then Maintenance_loop w nowMs ids s
          else if \<not> IsDynamicQuestExpired inst nowMs then Maintenance_loop w nowMs ids s
          else let (expireResult, r) = Registry_Expire i nowMs (au_registry s) in
          (case (tr_IsAccepted expireResult, tr_Instance expireResult) of
             (True, Some expired) \<Rightarrow>
               let s1 = PublishDynamicQuestOutcome w expired (ResolveDynamicQuestOutcomeLocation w expired)
                          (s\<lparr>au_registry := r\<rparr>)
               in Maintenance_loop w nowMs ids (s1\<lparr>au_registry := snd (Registry_Remove i (au_registry s1))\<rparr>)
           | _ \<Rightarrow> Maintenance_loop w nowMs ids (s\<lparr>au_registry := r\<rparr>)))"

definition MaintenanceScan :: "QuestConfig \<Rightarrow> QuestAuthority \<Rightarrow> DynamicQuestId list" where
  "MaintenanceScan cfg s =
     Registry_GetIdsAfterUntil (au_maintenanceCursor s) (au_maintenanceCycleHighWater s) (cfg_ScanMaxPerPass cfg)
       (au_registry s)"

definition RunDynamicQuestMaintenance :: "LiveWorld \<Rightarrow> QuestConfig \<Rightarrow> u64 \<Rightarrow> QuestAuthority \<Rightarrow> QuestAuthority" where
  "RunDynamicQuestMaintenance w cfg nowMs s =
     (let s1 = (if au_maintenanceCursor s = 0
                then s\<lparr>au_maintenanceCycleHighWater := Registry_GetHighestId (au_registry s)\<rparr> else s);
          discovered1 = MaintenanceScan cfg s1;
          restart = (discovered1 = [] \<and> au_maintenanceCursor s1 \<noteq> 0);
          s2 = (if restart then s1\<lparr>au_maintenanceCursor := 0,
                  au_maintenanceCycleHighWater := Registry_GetHighestId (au_registry s1)\<rparr> else s1);
          discovered = (if restart then MaintenanceScan cfg s2 else discovered1);
          s3 = (if discovered \<noteq> [] then s2\<lparr>au_maintenanceCursor := last discovered\<rparr> else s2)
      in Maintenance_loop w nowMs discovered s3)"

fun KillProgress_loop :: "LiveWorld \<Rightarrow> DynamicQuestKillEvent \<Rightarrow> u64 \<Rightarrow> DynamicQuestId list \<Rightarrow>
    QuestAuthority \<Rightarrow> QuestAuthority" where
  "KillProgress_loop w event nowMs [] s = s"
| "KillProgress_loop w event nowMs (i # ids) s =
     (let (result, r) = Registry_ApplyProgress i (ke_KillerGuid event) (ke_EventId event) nowMs (au_registry s);
          s1 = s\<lparr>au_registry := r\<rparr> in
      case (tr_IsAccepted result, tr_Instance result) of
        (True, Some updated) \<Rightarrow>
          if lw_Player w (ke_KillerGuid event) = None then KillProgress_loop w event nowMs ids s1
          else if qi_Progress updated < qi_RequiredCount updated
          then KillProgress_loop w event nowMs ids (say (ke_KillerGuid event)
                 (FormatDynamicQuestKillProgressMessage (qi_Progress updated) (qi_RequiredCount updated)) s1)
          else KillProgress_loop w event nowMs ids (say (ke_KillerGuid event)
                 (FormatDynamicQuestObjectiveCompleteMessage
                   (case GiverCreature w (qi_Giver updated) of None \<Rightarrow> [] | Some c \<Rightarrow> cr_Name c)) s1)
      | _ \<Rightarrow> KillProgress_loop w event nowMs ids s1)"

definition ProcessDynamicQuestKillProgress :: "LiveWorld \<Rightarrow> DynamicQuestKillEvent \<Rightarrow> QuestAuthority \<Rightarrow> QuestAuthority" where
  "ProcessDynamicQuestKillProgress w event s =
     (if \<not> IsPlayer (ke_KillerGuid event) then s
      else let matches = Registry_FindActiveByPlayerAndVictimEntry (ke_KillerGuid event) (ke_VictimEntry event)
                           (ke_MapId event) (au_registry s) in
      if matches = [] then s
      else KillProgress_loop w event (lw_SystemMs w) matches s)"

fun ForceFail_loop :: "LiveWorld \<Rightarrow> DynamicQuestInstance list \<Rightarrow> QuestAuthority \<Rightarrow> QuestAuthority" where
  "ForceFail_loop w [] s = s"
| "ForceFail_loop w (failed # rest) s =
     (let s1 = PublishDynamicQuestOutcome w failed (ResolveDynamicQuestOutcomeLocation w failed) s
      in ForceFail_loop w rest (s1\<lparr>au_registry := snd (Registry_Remove (qi_Id failed) (au_registry s1))\<rparr>))"

definition ForceFailAllActiveDynamicQuestsForKillCreditLoss :: "LiveWorld \<Rightarrow> QuestAuthority \<Rightarrow> QuestAuthority" where
  "ForceFailAllActiveDynamicQuestsForKillCreditLoss w s =
     (let (failedInstances, r) = Registry_FailAllActiveInstances (lw_SystemMs w) (au_registry s)
      in ForceFail_loop w failedInstances (s\<lparr>au_registry := r\<rparr>))"

definition ReclaimDynamicQuestsAfterKillCreditLoss :: "LiveWorld \<Rightarrow> QuestAuthority \<Rightarrow> QuestAuthority" where
  "ReclaimDynamicQuestsAfterKillCreditLoss w s =
     (let droppedCount = kb_droppedEvents (au_killEventBus s) in
      if droppedCount \<le> au_lastObservedKillDropCount s then s
      else ForceFailAllActiveDynamicQuestsForKillCreditLoss w (s\<lparr>au_lastObservedKillDropCount := droppedCount\<rparr>))"

fun KillEvents_loop :: "LiveWorld \<Rightarrow> DynamicQuestKillEvent list \<Rightarrow> QuestAuthority \<Rightarrow> QuestAuthority" where
  "KillEvents_loop w [] s = s"
| "KillEvents_loop w (event # events) s = KillEvents_loop w events (ProcessDynamicQuestKillProgress w event s)"

section \<open>What each step leaves alone\<close>

lemma say_simps [simp]:
  "au_registry (say p t s) = au_registry s" "au_money (say p t s) = au_money s"
  "au_nextDynamicQuestId (say p t s) = au_nextDynamicQuestId s" "au_killEventBus (say p t s) = au_killEventBus s"
  "au_eventBus (say p t s) = au_eventBus s" "au_maintenanceCursor (say p t s) = au_maintenanceCursor s"
  "au_maintenanceCycleHighWater (say p t s) = au_maintenanceCycleHighWater s"
  "au_lastObservedKillDropCount (say p t s) = au_lastObservedKillDropCount s"
  by (simp_all add: say_def)

lemma PublishWorldEvent_frame:
  "\<exists>b. snd (PublishWorldEvent w ev s) = s\<lparr>au_eventBus := b\<rparr>"
  by (cases "au_acceptEvents s") (auto simp: PublishWorldEvent_def Let_def split: prod.split intro: exI [of _ "au_eventBus s"])

lemma PublishDynamicQuestOutcome_frame:
  "\<exists>b. PublishDynamicQuestOutcome w inst l s = s\<lparr>au_eventBus := b\<rparr>"
  using PublishWorldEvent_frame [of w _ s]
  by (auto simp: PublishDynamicQuestOutcome_def split: option.split intro: exI [of _ "au_eventBus s"])

lemma PublishDynamicQuestOutcome_simps [simp]:
  "au_registry (PublishDynamicQuestOutcome w inst l s) = au_registry s"
  "au_money (PublishDynamicQuestOutcome w inst l s) = au_money s"
  "au_nextDynamicQuestId (PublishDynamicQuestOutcome w inst l s) = au_nextDynamicQuestId s"
  "au_killEventBus (PublishDynamicQuestOutcome w inst l s) = au_killEventBus s"
  "au_maintenanceCursor (PublishDynamicQuestOutcome w inst l s) = au_maintenanceCursor s"
  "au_maintenanceCycleHighWater (PublishDynamicQuestOutcome w inst l s) = au_maintenanceCycleHighWater s"
  "au_lastObservedKillDropCount (PublishDynamicQuestOutcome w inst l s) = au_lastObservedKillDropCount s"
  using PublishDynamicQuestOutcome_frame [of w inst l s] by auto

lemma PlayerModifyMoney_frame:
  "\<exists>m. snd (PlayerModifyMoney hooks p a s) = s\<lparr>au_money := (au_money s)(p := m)\<rparr>"
  by (auto simp: PlayerModifyMoney_def Let_def split: prod.split)

lemma PlayerModifyMoney_simps [simp]:
  "au_registry (snd (PlayerModifyMoney hooks p a s)) = au_registry s"
  "au_nextDynamicQuestId (snd (PlayerModifyMoney hooks p a s)) = au_nextDynamicQuestId s"
  "q \<noteq> p \<Longrightarrow> au_money (snd (PlayerModifyMoney hooks p a s)) q = au_money s q"
  using PlayerModifyMoney_frame [of hooks p a s] by auto

lemma CompletionMessages_simps [simp]:
  "au_registry (CompletionMessages p t m s) = au_registry s" "au_money (CompletionMessages p t m s) = au_money s"
  "au_nextDynamicQuestId (CompletionMessages p t m s) = au_nextDynamicQuestId s"
  by (simp_all add: CompletionMessages_def Let_def)

lemma reject_turn_in_simps [simp]:
  "fst (reject_turn_in p r s) = r" "au_registry (snd (reject_turn_in p r s)) = au_registry s"
  "au_money (snd (reject_turn_in p r s)) = au_money s"
  "au_nextDynamicQuestId (snd (reject_turn_in p r s)) = au_nextDynamicQuestId s"
  by (simp_all add: reject_turn_in_def)

section \<open>Compensation\<close>

lemma Compensate_cases:
  fixes w hooks i now p before s
  defines "res \<equiv> CompensateDynamicQuestReward w hooks i now p before s"
  obtains (restored) "fst res" and "au_registry (snd res) = au_registry s"
      and "au_money (snd res) = (au_money s)(p := before)" and "au_nextDynamicQuestId (snd res) = au_nextDynamicQuestId s"
    | (contained) "\<not> fst res"
      and "au_registry (snd res) = snd (Registry_TerminateForReplayContainment i now (au_registry s))"
      and "au_nextDynamicQuestId (snd res) = au_nextDynamicQuestId s"
proof -
  define d where "d = uint (au_money s p) - uint before"
  define r1 where "r1 = (if d = 0 then (True, s) else PlayerModifyMoney hooks p (word_of_int (- d)) s)"
  obtain m where "snd r1 = s\<lparr>au_money := (au_money s)(p := m)\<rparr>"
    using PlayerModifyMoney_frame [of hooks p "word_of_int (- d)" s]
    by (cases "d = 0") (auto simp: r1_def intro: that [of "au_money s p"])
  then obtain ok where r1: "r1 = (ok, s\<lparr>au_money := (au_money s)(p := m)\<rparr>)" by (metis prod.collapse)
  obtain t r where T: "Registry_TerminateForReplayContainment i now (au_registry s) = (t, r)" by fastforce
  have res: "res = (let (compensated, s1) = r1; balanceRestored = (au_money s1 p = before)
      in if compensated \<and> balanceRestored then (True, s1)
         else let (termination, r) = Registry_TerminateForReplayContainment i now (au_registry s1);
                  s2 = s1\<lparr>au_registry := r\<rparr>
         in (False, case te_FailedInstance termination of
               None \<Rightarrow> s2
             | Some failed \<Rightarrow> PublishDynamicQuestOutcome w failed (ResolveDynamicQuestOutcomeLocation w failed) s2))"
    by (simp add: res_def CompensateDynamicQuestReward_def Let_def d_def [symmetric] r1_def [symmetric])
  show thesis
  proof (cases "ok \<and> m = before")
    case True
    then have "res = (True, s\<lparr>au_money := (au_money s)(p := before)\<rparr>)"
      by (simp add: res r1)
    then show thesis by (intro restored) simp_all
  next
    case False
    have "\<exists>s'. res = (False, s') \<and> au_registry s' = r \<and> au_nextDynamicQuestId s' = au_nextDynamicQuestId s"
      using False by (cases "te_FailedInstance t") (auto simp: res r1 T)
    with T show thesis by (auto intro: contained)
  qed
qed

section \<open>Completion\<close>

definition TurnInChecked :: "LiveWorld \<Rightarrow> QuestConfig \<Rightarrow> ObjectGuid \<Rightarrow> u64 \<Rightarrow> QuestAuthority \<Rightarrow>
    DynamicQuestInstance \<Rightarrow> DynamicQuestPlayerCompleteReason" where
  "TurnInChecked w cfg p now s inst = CheckDynamicQuestPlayerCompleteApplicability inst p
     (CompletePlayerFacts w s p) (CompleteGiverFacts w (qi_Giver inst))
     (PlayerGiverDistance w p (qi_Giver inst)) (cfg_AcceptMaxRangeYards cfg) MAX_MONEY_AMOUNT now"

lemma TurnInChecked_None:
  assumes "TurnInChecked w cfg p now s inst = PC_None"
  shows "IsPlayer p" and "p = qi_AcceptedByPlayerGuid inst" and "qi_State inst = Active"
    and "now < qi_ExpiresAtMs inst" and "qi_RequiredCount inst \<le> qi_Progress inst"
    and "\<exists>pl. lw_Player w p = Some pl \<and> lp_Alive pl"
    and "\<exists>c. GiverCreature w (qi_Giver inst) = Some c \<and> cr_Alive c \<and> cr_Guid c = qi_GiverRuntimeGuid inst"
    and "qi_RewardMoneyCopper inst > 0 \<Longrightarrow>
      widen (au_money s p) + widen (qi_RewardMoneyCopper inst) < widen MAX_MONEY_AMOUNT"
    and "\<not> DistanceOutside (PlayerGiverDistance w p (qi_Giver inst)) (cfg_AcceptMaxRangeYards cfg)"
  using assms
  by (auto simp: TurnInChecked_def CheckDynamicQuestPlayerCompleteApplicability_def CompletePlayerFacts_def
      CompleteGiverFacts_def ResolvePlayer_def GiverCreature_def IsDynamicQuestExpired_def
      IsDynamicQuestObjectiveComplete_def linorder_not_le split: if_splits option.splits)

lemma Complete_unfold:
  assumes "om_find (rg_quests (au_registry s)) i = Some inst" and "TurnInChecked w cfg p now s inst = PC_None"
    and "(if qi_RewardMoneyCopper inst = 0 then (True, s)
          else PlayerModifyMoney hooks p (qi_RewardMoneyCopper inst) s) = (ok, s1)"
    and "exact = (widen (au_money s1 p) = widen (au_money s p) + widen (qi_RewardMoneyCopper inst))"
    and "CompensateDynamicQuestReward w hooks i now p (au_money s p) s1 = (restored, s2)"
    and "loc = (case GiverCreature w (qi_Giver inst) of None \<Rightarrow> default_location | Some c \<Rightarrow> cr_Location c)"
    and "done_inst = inst\<lparr>qi_State := Completed\<rparr>"
    and "s3 = PublishDynamicQuestOutcome w done_inst loc (s1\<lparr>au_registry := snd (Registry_Complete i now (au_registry s1))\<rparr>)"
    and "au_registry s1 = au_registry s"
  shows "CompleteDynamicQuestForPlayer w cfg hooks i p now s =
    (if \<not> ok \<or> \<not> exact then reject_turn_in p
       (if \<not> restored then RewardApplicationFailed else if ok then RewardApplicationFailed else RewardMoneyLimit) s2
     else (PC_None, CompletionMessages p (qi_Title inst) (qi_RewardMoneyCopper inst)
       (s3\<lparr>au_registry := snd (Registry_Remove i (au_registry s3))\<rparr>)))"
proof -
  have acc: "CompleteDynamicQuest now inst = Accepted done_inst"
    using TurnInChecked_None [OF assms(2)] assms(7)
    by (simp add: CompleteDynamicQuest_def IsTerminal_def IsDynamicQuestExpired_def
        IsDynamicQuestObjectiveComplete_def linorder_not_le)
  then obtain r' where commit: "Registry_Complete i now (au_registry s) = (Accepted done_inst, r')"
    using assms(1) by (simp add: Registry_Complete_def registry_apply_def)
  have "Registry_Find (au_registry s) i = Some inst" using assms(1) by (simp add: Registry_Find_def)
  note simps = this acc assms(2) [unfolded TurnInChecked_def] assms(3,5) assms(4) [symmetric] assms(6) [symmetric]
  show ?thesis
    unfolding CompleteDynamicQuestForPlayer_def by (simp add: simps Let_def assms(7-9) commit)
qed

lemma Registry_Complete_find:
  assumes "reg_ok r" and "om_find (rg_quests r) i = Some x" and "tr_Instance (CompleteDynamicQuest now x) = Some y"
  shows "om_find (rg_quests (snd (Registry_Complete i now r))) k = (if k = i then Some y else om_find (rg_quests r) k)"
  using q_complete.apply_find_eq [of r now i k] assms reg_ok_wf [OF assms(1)]
  by (simp add: Registry_Complete_def option.map_id)

text \<open>The three ways a turn-in can end.\<close>

lemma Complete_cases:
  fixes w cfg hooks i p now s
  defines "res \<equiv> CompleteDynamicQuestForPlayer w cfg hooks i p now s"
  obtains (rejected) "fst res \<noteq> PC_None" and "au_registry (snd res) = au_registry s"
      and "au_money (snd res) = au_money s" and "au_nextDynamicQuestId (snd res) = au_nextDynamicQuestId s"
    | (contained) "fst res \<noteq> PC_None"
      and "au_registry (snd res) = snd (Registry_TerminateForReplayContainment i now (au_registry s))"
      and "au_nextDynamicQuestId (snd res) = au_nextDynamicQuestId s"
    | (paid) inst where "fst res = PC_None" and "om_find (rg_quests (au_registry s)) i = Some inst"
      and "TurnInChecked w cfg p now s inst = PC_None"
      and "au_registry (snd res) = snd (Registry_Remove i (snd (Registry_Complete i now (au_registry s))))"
      and "widen (au_money (snd res) p) = widen (au_money s p) + widen (qi_RewardMoneyCopper inst)"
      and "\<And>q. q \<noteq> p \<Longrightarrow> au_money (snd res) q = au_money s q"
      and "au_nextDynamicQuestId (snd res) = au_nextDynamicQuestId s"
proof (cases "om_find (rg_quests (au_registry s)) i")
  case None
  then have "res = (PC_QuestNotFound, s)"
    by (simp add: res_def CompleteDynamicQuestForPlayer_def Registry_Find_def)
  then show thesis by (intro rejected) simp_all
next
  case (Some inst)
  show thesis
  proof (cases "TurnInChecked w cfg p now s inst = PC_None")
    case False
    with Some have "res = (TurnInChecked w cfg p now s inst, s) \<or> res = reject_turn_in p (TurnInChecked w cfg p now s inst) s"
      by (simp add: res_def CompleteDynamicQuestForPlayer_def Registry_Find_def TurnInChecked_def Let_def)
    with False show thesis by (intro rejected) auto
  next
    case True
    let ?pay = "if qi_RewardMoneyCopper inst = 0 then (True, s)
      else PlayerModifyMoney hooks p (qi_RewardMoneyCopper inst) s"
    obtain m where m: "snd ?pay = s\<lparr>au_money := (au_money s)(p := m)\<rparr>"
      using PlayerModifyMoney_frame [of hooks p "qi_RewardMoneyCopper inst" s]
      by (cases "qi_RewardMoneyCopper inst = 0") (auto intro: that [of "au_money s p"])
    obtain ok s1 where pay: "?pay = (ok, s1)" by (rule prod.exhaust)
    have s1: "s1 = s\<lparr>au_money := (au_money s)(p := m)\<rparr>" using m unfolding pay snd_conv .
    obtain restored s2 where comp: "CompensateDynamicQuestReward w hooks i now p (au_money s p) s1 = (restored, s2)"
      by fastforce
    have "au_registry s1 = au_registry s" by (simp add: s1)
    note res = Complete_unfold [OF Some True pay refl comp refl refl refl this, folded res_def]
    show thesis
    proof (cases "ok \<and> widen (au_money s1 p) = widen (au_money s p) + widen (qi_RewardMoneyCopper inst)")
      case True
      with res \<open>TurnInChecked w cfg p now s inst = PC_None\<close> Some show thesis
        by (intro paid [of inst]) (simp_all add: s1)
    next
      case False
      then have fst: "fst res \<noteq> PC_None" and snd: "au_registry (snd res) = au_registry s2"
        "au_money (snd res) = au_money s2" "au_nextDynamicQuestId (snd res) = au_nextDynamicQuestId s2"
        using res by (auto split: if_splits)
      from Compensate_cases [of w hooks i now p "au_money s p" s1, unfolded comp] fst snd s1
      show thesis by (cases) (auto intro: rejected contained)
    qed
  qed
qed

section \<open>Maintenance, kill credit and containment on the registry\<close>

definition lapsed :: "u64 \<Rightarrow> DynamicQuestInstance \<Rightarrow> bool" where
  "lapsed now x = ((qi_State x = Offered \<or> qi_State x = Active) \<and> IsDynamicQuestExpired x now)"

lemma Expire_Remove:
  assumes "reg_ok r"
  shows "om_find (rg_quests (snd (Registry_Remove i (snd (Registry_Expire i now r))))) k
    = (if k = i then None else om_find (rg_quests r) k)"
  using Registry_Remove_find [OF q_expire.apply_ok [OF assms]] q_expire.apply_find_eq [of r now i k] reg_ok_wf [OF assms]
  by (simp add: Registry_Expire_def option.map_id)

lemma Maintenance_loop_registry:
  assumes "reg_ok (au_registry s)"
  shows "reg_ok (au_registry (Maintenance_loop w now ids s))" (is ?ok)
    and "om_find (rg_quests (au_registry (Maintenance_loop w now ids s))) k =
      (case om_find (rg_quests (au_registry s)) k of None \<Rightarrow> None
       | Some x \<Rightarrow> if k \<in> set ids \<and> lapsed now x then None else Some x)" (is ?find)
    and "evolved (au_registry s) (au_registry (Maintenance_loop w now ids s))" (is ?ev)
proof -
  have "?ok \<and> ?find \<and> ?ev"
    using assms
  proof (induction ids arbitrary: s)
    case Nil
    then show ?case by (simp split: option.split)
  next
    case (Cons i ids)
    let ?r = "au_registry s"
    show ?case
    proof (cases "om_find (rg_quests ?r) i")
      case None
      with Cons show ?thesis by (auto simp: Registry_Find_def split: option.split)
    next
      case (Some x)
      show ?thesis
      proof (cases "lapsed now x")
        case False
        with Some have "Maintenance_loop w now (i # ids) s = Maintenance_loop w now ids s"
          by (auto simp: Registry_Find_def lapsed_def)
        with Cons Some False show ?thesis by (auto split: option.split)
      next
        case True
        define r' where "r' = snd (Registry_Remove i (snd (Registry_Expire i now ?r)))"
        have exp: "ExpireDynamicQuest now x = Accepted (x\<lparr>qi_State := Expired\<rparr>)"
          using True by (auto simp: lapsed_def ExpireDynamicQuest_def IsTerminal_def)
        then obtain r1 where "Registry_Expire i now ?r = (Accepted (x\<lparr>qi_State := Expired\<rparr>), r1)"
          using Some by (simp add: Registry_Expire_def registry_apply_def)
        with Some True obtain s' where s': "Maintenance_loop w now (i # ids) s = Maintenance_loop w now ids s'"
          and r: "au_registry s' = r'"
          by (auto simp: Registry_Find_def lapsed_def r'_def Let_def)
        have "evolved ?r r'" unfolding r'_def using evolved_trans evolved_ops by blast
        moreover have "reg_ok r'" unfolding r'_def
          using Cons.prems by (simp add: Registry_Expire_def q_expire.apply_ok Registry_Remove_ok)
        ultimately show ?thesis
          using Cons.IH [of s'] r s' Some True evolved_trans Expire_Remove [OF Cons.prems, of i now k, folded r'_def]
          by (auto split: option.splits if_splits)
      qed
    qed
  qed
  then show ?ok and ?find and ?ev by blast+
qed

text \<open>The ids a pass examines, and the cursor and cycle limit it leaves.\<close>

definition pass_start :: "QuestConfig \<Rightarrow> QuestAuthority \<Rightarrow> QuestAuthority" where
  "pass_start cfg s =
     (let s1 = (if au_maintenanceCursor s = 0
                then s\<lparr>au_maintenanceCycleHighWater := Registry_GetHighestId (au_registry s)\<rparr> else s)
      in if MaintenanceScan cfg s1 = [] \<and> au_maintenanceCursor s1 \<noteq> 0
         then s1\<lparr>au_maintenanceCursor := 0,
                 au_maintenanceCycleHighWater := Registry_GetHighestId (au_registry s1)\<rparr> else s1)"

lemma RunMaintenance_pass:
  "RunDynamicQuestMaintenance w cfg now s =
     (let s2 = pass_start cfg s; ids = MaintenanceScan cfg s2
      in Maintenance_loop w now ids (if ids \<noteq> [] then s2\<lparr>au_maintenanceCursor := last ids\<rparr> else s2))"
  by (auto simp: RunDynamicQuestMaintenance_def pass_start_def Let_def)

lemma pass_start_simps [simp]:
  "au_registry (pass_start cfg s) = au_registry s" "au_nextDynamicQuestId (pass_start cfg s) = au_nextDynamicQuestId s"
  "au_money (pass_start cfg s) = au_money s"
  by (simp_all add: pass_start_def Let_def)

lemma Maintenance_loop_simps [simp]:
  "au_money (Maintenance_loop w now ids s) = au_money s"
  "au_nextDynamicQuestId (Maintenance_loop w now ids s) = au_nextDynamicQuestId s"
  "au_maintenanceCursor (Maintenance_loop w now ids s) = au_maintenanceCursor s"
  "au_maintenanceCycleHighWater (Maintenance_loop w now ids s) = au_maintenanceCycleHighWater s"
  by (induction w now ids s rule: Maintenance_loop.induct)
    (simp_all add: Let_def split: option.split prod.split bool.split)

lemma RunMaintenance_registry:
  assumes "reg_ok (au_registry s)"
  shows "reg_ok (au_registry (RunDynamicQuestMaintenance w cfg now s))"
    and "om_find (rg_quests (au_registry (RunDynamicQuestMaintenance w cfg now s))) k =
      (case om_find (rg_quests (au_registry s)) k of None \<Rightarrow> None
       | Some x \<Rightarrow> if k \<in> set (MaintenanceScan cfg (pass_start cfg s)) \<and> lapsed now x then None else Some x)"
    and "evolved (au_registry s) (au_registry (RunDynamicQuestMaintenance w cfg now s))"
proof -
  let ?s2 = "pass_start cfg s" and ?ids = "MaintenanceScan cfg (pass_start cfg s)"
  let ?s3 = "if ?ids \<noteq> [] then ?s2\<lparr>au_maintenanceCursor := last ?ids\<rparr> else ?s2"
  have reg: "au_registry ?s3 = au_registry s" by simp
  have run: "RunDynamicQuestMaintenance w cfg now s = Maintenance_loop w now ?ids ?s3"
    by (simp add: RunMaintenance_pass Let_def)
  show "reg_ok (au_registry (RunDynamicQuestMaintenance w cfg now s))"
    unfolding run using assms reg Maintenance_loop_registry(1) by metis
  show "om_find (rg_quests (au_registry (RunDynamicQuestMaintenance w cfg now s))) k =
      (case om_find (rg_quests (au_registry s)) k of None \<Rightarrow> None
       | Some x \<Rightarrow> if k \<in> set ?ids \<and> lapsed now x then None else Some x)"
    unfolding run using assms Maintenance_loop_registry(2) [of ?s3 w now ?ids k] unfolding reg by blast
  show "evolved (au_registry s) (au_registry (RunDynamicQuestMaintenance w cfg now s))"
    unfolding run using assms Maintenance_loop_registry(3) [of ?s3 w now ?ids] unfolding reg by blast
qed

text \<open>Kill progress: the loop applies the progress transition to each match.\<close>

definition progressed :: "DynamicQuestKillEvent \<Rightarrow> u64 \<Rightarrow> DynamicQuestInstance \<Rightarrow> DynamicQuestInstance" where
  "progressed event now x =
     (case tr_Instance (ApplyDynamicQuestProgress (ke_KillerGuid event) (ke_EventId event) now x) of
        None \<Rightarrow> x | Some y \<Rightarrow> y)"

lemma KillProgress_loop_step:
  "\<exists>s'. KillProgress_loop w event now (i # ids) s = KillProgress_loop w event now ids s' \<and>
    au_registry s' = snd (Registry_ApplyProgress i (ke_KillerGuid event) (ke_EventId event) now (au_registry s)) \<and>
    au_money s' = au_money s \<and> au_nextDynamicQuestId s' = au_nextDynamicQuestId s"
  by (auto simp: Let_def split: prod.split bool.split option.split)

lemma KillProgress_loop_registry:
  assumes "reg_ok (au_registry s)" and "distinct ids"
  shows "reg_ok (au_registry (KillProgress_loop w event now ids s)) \<and>
    om_find (rg_quests (au_registry (KillProgress_loop w event now ids s))) k =
      map_option (if k \<in> set ids then progressed event now else id) (om_find (rg_quests (au_registry s)) k) \<and>
    evolved (au_registry s) (au_registry (KillProgress_loop w event now ids s)) \<and>
    au_money (KillProgress_loop w event now ids s) = au_money s \<and>
    au_nextDynamicQuestId (KillProgress_loop w event now ids s) = au_nextDynamicQuestId s"
  using assms
proof (induction ids arbitrary: s)
  case Nil
  then show ?case by (simp add: option.map_ident id_def)
next
  case (Cons i ids)
  let ?r = "au_registry s"
  let ?r' = "snd (Registry_ApplyProgress i (ke_KillerGuid event) (ke_EventId event) now ?r)"
  obtain s' where s': "KillProgress_loop w event now (i # ids) s = KillProgress_loop w event now ids s'"
      "au_registry s' = ?r'" "au_money s' = au_money s" "au_nextDynamicQuestId s' = au_nextDynamicQuestId s"
    using KillProgress_loop_step by blast
  have ok: "reg_ok ?r'" using Cons.prems by (simp add: Registry_ApplyProgress_def q_progress.apply_ok)
  have ev: "evolved ?r ?r'" by blast
  have find: "om_find (rg_quests ?r') k = map_option (if k = i then progressed event now else id) (om_find (rg_quests ?r) k)"
    using q_progress.apply_find_eq reg_ok_wf [OF Cons.prems(1)]
    by (simp add: Registry_ApplyProgress_def progressed_def [abs_def])
  have "reg_ok (au_registry s')" and "distinct ids" using ok s'(2) Cons.prems by simp_all
  note IH = Cons.IH [OF this]
  show ?case
    unfolding s'(1) using IH find ev evolved_trans s'(2-4) Cons.prems(2)
    by (auto simp: option.map_comp comp_def option.map_id split: if_splits)
qed

lemma FindActive_victims:
  assumes "reg_ok r"
  shows "distinct (Registry_FindActiveByPlayerAndVictimEntry p v m r)"
    and "k \<in> set (Registry_FindActiveByPlayerAndVictimEntry p v m r) \<longleftrightarrow>
      (\<exists>x. om_find (rg_quests r) k = Some x \<and> qi_State x = Active \<and> qi_AcceptedByPlayerGuid x = p \<and>
        qi_Objective x = KillCreature \<and> qi_TargetEntry x = v \<and> qi_TargetMapId x = m)"
proof -
  show "distinct (Registry_FindActiveByPlayerAndVictimEntry p v m r)"
    using distinct_om_keys [OF om_wf_filter, of "rg_quests r"] reg_ok_wf [OF assms]
    unfolding Registry_FindActiveByPlayerAndVictimEntry_def om_keys_def by blast
  show "k \<in> set (Registry_FindActiveByPlayerAndVictimEntry p v m r) \<longleftrightarrow>
      (\<exists>x. om_find (rg_quests r) k = Some x \<and> qi_State x = Active \<and> qi_AcceptedByPlayerGuid x = p \<and>
        qi_Objective x = KillCreature \<and> qi_TargetEntry x = v \<and> qi_TargetMapId x = m)"
    using reg_ok_wf [OF assms] om_find_iff [of "rg_quests r" k]
    by (force simp: Registry_FindActiveByPlayerAndVictimEntry_def)
qed

definition credits :: "DynamicQuestKillEvent \<Rightarrow> u64 \<Rightarrow> DynamicQuestInstance \<Rightarrow> bool" where
  "credits e now x =
     (IsPlayer (ke_KillerGuid e) \<and> qi_AcceptedByPlayerGuid x = ke_KillerGuid e \<and> qi_State x = Active \<and>
      qi_Objective x = KillCreature \<and> qi_TargetEntry x = ke_VictimEntry e \<and> qi_TargetMapId x = ke_MapId e \<and>
      now < qi_ExpiresAtMs x \<and> ke_EventId e \<noteq> 0 \<and> ke_EventId e \<notin> set (qi_ConsumedProgressEventIds x) \<and>
      qi_Progress x < qi_RequiredCount x)"

definition credited :: "DynamicQuestKillEvent \<Rightarrow> u64 \<Rightarrow> DynamicQuestInstance \<Rightarrow> DynamicQuestInstance" where
  "credited e now x =
     (if credits e now x then x\<lparr>qi_Progress := qi_Progress x + 1,
        qi_ConsumedProgressEventIds := qi_ConsumedProgressEventIds x @ [ke_EventId e]\<rparr> else x)"

lemma progressed_credited:
  assumes "IsPlayer (ke_KillerGuid e)"
  shows "(if qi_State x = Active \<and> qi_AcceptedByPlayerGuid x = ke_KillerGuid e \<and> qi_Objective x = KillCreature \<and>
      qi_TargetEntry x = ke_VictimEntry e \<and> qi_TargetMapId x = ke_MapId e then progressed e now x else x) = credited e now x"
  using assms
  by (simp add: progressed_def credited_def credits_def ApplyDynamicQuestProgress_def IsTerminal_def
      IsDynamicQuestExpired_def linorder_not_le)

lemma ProcessKill_registry:
  assumes "reg_ok (au_registry s)"
  shows "reg_ok (au_registry (ProcessDynamicQuestKillProgress w e s)) \<and>
    om_find (rg_quests (au_registry (ProcessDynamicQuestKillProgress w e s))) k =
      map_option (credited e (lw_SystemMs w)) (om_find (rg_quests (au_registry s)) k) \<and>
    evolved (au_registry s) (au_registry (ProcessDynamicQuestKillProgress w e s)) \<and>
    au_money (ProcessDynamicQuestKillProgress w e s) = au_money s \<and>
    au_nextDynamicQuestId (ProcessDynamicQuestKillProgress w e s) = au_nextDynamicQuestId s"
proof (cases "IsPlayer (ke_KillerGuid e)")
  case False
  then have "credited e now = id" for now by (simp add: fun_eq_iff credited_def credits_def)
  with False assms show ?thesis by (simp add: ProcessDynamicQuestKillProgress_def)
next
  case True
  let ?ids = "Registry_FindActiveByPlayerAndVictimEntry (ke_KillerGuid e) (ke_VictimEntry e) (ke_MapId e) (au_registry s)"
  have run: "ProcessDynamicQuestKillProgress w e s = KillProgress_loop w e (lw_SystemMs w) ?ids s"
    using True by (simp add: ProcessDynamicQuestKillProgress_def Let_def)
  have "map_option (if k \<in> set ?ids then progressed e now else id) (om_find (rg_quests (au_registry s)) k)
      = map_option (credited e now) (om_find (rg_quests (au_registry s)) k)" for now
    using FindActive_victims(2) [OF assms, of k "ke_KillerGuid e" "ke_VictimEntry e" "ke_MapId e"]
      progressed_credited [OF True, symmetric]
    by (cases "om_find (rg_quests (au_registry s)) k") auto
  then show ?thesis
    unfolding run using KillProgress_loop_registry [OF assms FindActive_victims(1) [OF assms]] by auto
qed

lemma KillEvents_loop_registry:
  "reg_ok (au_registry s) \<Longrightarrow> reg_ok (au_registry (KillEvents_loop w es s)) \<and>
    evolved (au_registry s) (au_registry (KillEvents_loop w es s)) \<and>
    au_money (KillEvents_loop w es s) = au_money s \<and>
    au_nextDynamicQuestId (KillEvents_loop w es s) = au_nextDynamicQuestId s"
proof (induction w es s rule: KillEvents_loop.induct)
  case (2 w e es s)
  from ProcessKill_registry [OF 2(2), of w e] 2(1) evolved_trans show ?case by fastforce
qed auto

text \<open>Containment: the force-failed quests are the active unexpired ones, and they are removed.\<close>

lemma ForceFail_loop_registry:
  assumes "reg_ok (au_registry s)"
  shows "reg_ok (au_registry (ForceFail_loop w xs s)) \<and>
    om_find (rg_quests (au_registry (ForceFail_loop w xs s))) k =
      (if k \<in> qi_Id ` set xs then None else om_find (rg_quests (au_registry s)) k) \<and>
    evolved (au_registry s) (au_registry (ForceFail_loop w xs s)) \<and>
    au_money (ForceFail_loop w xs s) = au_money s \<and>
    au_nextDynamicQuestId (ForceFail_loop w xs s) = au_nextDynamicQuestId s"
  using assms
proof (induction xs arbitrary: s)
  case (Cons x xs)
  let ?r' = "snd (Registry_Remove (qi_Id x) (au_registry s))"
  obtain s' where s': "ForceFail_loop w (x # xs) s = ForceFail_loop w xs s'" "au_registry s' = ?r'"
      "au_money s' = au_money s" "au_nextDynamicQuestId s' = au_nextDynamicQuestId s"
    by (simp add: Let_def)
  have "reg_ok (au_registry s')" and "evolved (au_registry s) ?r'"
    using Registry_Remove_ok [OF Cons.prems] s'(2) by auto
  with Cons.IH [of s'] s' Registry_Remove_find [OF Cons.prems] evolved_trans show ?case
    by (auto split: if_splits)
qed auto

lemma ForceFailAll_registry:
  assumes "reg_ok (au_registry s)"
  shows "reg_ok (au_registry (ForceFailAllActiveDynamicQuestsForKillCreditLoss w s)) \<and>
    om_find (rg_quests (au_registry (ForceFailAllActiveDynamicQuestsForKillCreditLoss w s))) k =
      (case om_find (rg_quests (au_registry s)) k of None \<Rightarrow> None
       | Some x \<Rightarrow> if qi_State x = Active \<and> lw_SystemMs w < qi_ExpiresAtMs x then None else Some x) \<and>
    evolved (au_registry s) (au_registry (ForceFailAllActiveDynamicQuestsForKillCreditLoss w s)) \<and>
    au_money (ForceFailAllActiveDynamicQuestsForKillCreditLoss w s) = au_money s \<and>
    au_nextDynamicQuestId (ForceFailAllActiveDynamicQuestsForKillCreditLoss w s) = au_nextDynamicQuestId s"
proof -
  let ?now = "lw_SystemMs w" and ?r = "au_registry s"
  let ?f = "Registry_FailAllActiveInstances ?now ?r"
  have run: "ForceFailAllActiveDynamicQuestsForKillCreditLoss w s = ForceFail_loop w (fst ?f) (s\<lparr>au_registry := snd ?f\<rparr>)"
    by (simp add: ForceFailAllActiveDynamicQuestsForKillCreditLoss_def case_prod_unfold Let_def)
  have ids: "k \<in> qi_Id ` set (fst ?f) \<longleftrightarrow>
      (\<exists>x. om_find (rg_quests ?r) k = Some x \<and> qi_State x = Active \<and> \<not> IsDynamicQuestExpired x ?now)"
    (is "?L \<longleftrightarrow> ?R")
  proof
    assume ?L
    then obtain j x where x: "om_find (rg_quests ?r) j = Some x" "qi_State x = Active"
        "\<not> IsDynamicQuestExpired x ?now" "k = qi_Id (x\<lparr>qi_State := Failed\<rparr>)"
      unfolding FailAll_failed [OF assms] by blast
    with reg_ok_stored [OF assms x(1)] show ?R by simp
  next
    assume ?R
    then obtain x where x: "om_find (rg_quests ?r) k = Some x" "qi_State x = Active" "\<not> IsDynamicQuestExpired x ?now"
      by blast
    then have "x\<lparr>qi_State := Failed\<rparr> \<in> set (fst ?f)" unfolding FailAll_failed [OF assms] by blast
    then have "qi_Id (x\<lparr>qi_State := Failed\<rparr>) \<in> qi_Id ` set (fst ?f)" by (rule imageI)
    with reg_ok_stored [OF assms x(1)] show ?L by simp
  qed
  have "reg_ok (au_registry (s\<lparr>au_registry := snd ?f\<rparr>))" using FailAll_ok [OF assms] by simp
  from ForceFail_loop_registry [OF this, of w "fst ?f" k] ids
  show ?thesis
    unfolding run using evolved_trans [of ?r "snd ?f"] FailAll_find [OF assms, of ?now k]
    by (auto simp: fail_one_def IsDynamicQuestExpired_def linorder_not_le split: option.splits)
qed

end
