(* ===== verification/Quest_Runs.thy ===== *)
theory Quest_Runs
  imports Quest_Authority
begin

text \<open>
  Executions of the quest authority: every entry point of \<open>AIWorldMgr\<close> that can change quest
  state, in any order, with any live world, configuration, clock and money hooks at each
  step. The invariant \<open>auth_ok\<close> and the properties that span the registry, the id counter,
  the event buses and the players' money.
\<close>

section \<open>Steps\<close>

text \<open>\<open>AIWorldMgr::Update\<close>: drain the kill events, apply each, then look for lost credit.\<close>

definition RunKillCreditTick :: "LiveWorld \<Rightarrow> QuestAuthority \<Rightarrow> QuestAuthority" where
  "RunKillCreditTick w s =
     (let (events, b) = KillEventBus_Drain (au_killEventBus s)
      in ReclaimDynamicQuestsAfterKillCreditLoss w (KillEvents_loop w events (s\<lparr>au_killEventBus := b\<rparr>)))"

datatype auth_op =
    ACreate LiveWorld QuestConfig QuestProposal u64
  | AAccept LiveWorld QuestConfig DynamicQuestId ObjectGuid u64
  | AComplete LiveWorld QuestConfig MoneyHooks DynamicQuestId ObjectGuid u64
  | AMaintain LiveWorld QuestConfig u64
  | AKillTick LiveWorld
  | AForceFail LiveWorld
  | APublishKill DynamicQuestKillEvent
  | APublish LiveWorld WorldEvent
  | ADrainEvents
  | AMoney ObjectGuid u32

text \<open>\<open>AMoney\<close> is the rest of the game changing a player's money between two calls.\<close>

fun auth_step :: "auth_op \<Rightarrow> QuestAuthority \<Rightarrow> QuestAuthority" where
  "auth_step (ACreate w cfg proposal now) s = snd (CreateDynamicQuestOffer w cfg proposal now s)"
| "auth_step (AAccept w cfg i p now) s = snd (AcceptDynamicQuestForPlayer w cfg i p now s)"
| "auth_step (AComplete w cfg hooks i p now) s = snd (CompleteDynamicQuestForPlayer w cfg hooks i p now s)"
| "auth_step (AMaintain w cfg now) s = RunDynamicQuestMaintenance w cfg now s"
| "auth_step (AKillTick w) s = RunKillCreditTick w s"
| "auth_step (AForceFail w) s = ForceFailAllActiveDynamicQuestsForKillCreditLoss w s"
| "auth_step (APublishKill event) s = PublishDynamicQuestKillEvent event s"
| "auth_step (APublish w event) s = snd (PublishWorldEvent w event s)"
| "auth_step ADrainEvents s = s\<lparr>au_eventBus := snd (EventBus_Drain (au_eventBus s))\<rparr>"
| "auth_step (AMoney p m) s = s\<lparr>au_money := (au_money s)(p := m)\<rparr>"

definition auth_run :: "auth_op list \<Rightarrow> QuestAuthority \<Rightarrow> QuestAuthority" where
  "auth_run ops s = fold auth_step ops s"

definition auth_init :: QuestAuthority where
  "auth_init = \<lparr>au_registry = registry_empty, au_nextDynamicQuestId = 1, au_eventBus = EventBus_init,
     au_killEventBus = KillEventBus_init, au_maintenanceCursor = 0, au_maintenanceCycleHighWater = 0,
     au_lastObservedKillDropCount = 0, au_acceptEvents = True, au_money = (\<lambda>p. 0), au_messages = []\<rparr>"

section \<open>The invariant\<close>

text \<open>An id that has been handed out: below the counter, or anything once the counter is exhausted.\<close>

definition issued :: "QuestAuthority \<Rightarrow> DynamicQuestId \<Rightarrow> bool" where
  "issued s i = (i \<noteq> 0 \<and> (au_nextDynamicQuestId s = 0 \<or> i < au_nextDynamicQuestId s))"

definition auth_ok :: "QuestAuthority \<Rightarrow> bool" where
  "auth_ok s = (reg_ok (au_registry s) \<and> (\<forall>k. \<not> gone k (au_registry s) \<longrightarrow> issued s k))"

lemma auth_okI:
  assumes "auth_ok s" and "evolved (au_registry s) (au_registry s')"
    and "au_nextDynamicQuestId s' = au_nextDynamicQuestId s"
  shows "auth_ok s'"
  using assms evolved_ok evolved_gone unfolding auth_ok_def issued_def by metis

text \<open>Every step but creation changes the registry by registry operations that offer nothing.\<close>

lemma Accept_evolved:
  "evolved (au_registry s) (au_registry (snd (AcceptDynamicQuestForPlayer w cfg i p now s))) \<and>
    au_nextDynamicQuestId (snd (AcceptDynamicQuestForPlayer w cfg i p now s)) = au_nextDynamicQuestId s"
proof -
  obtain res r where a: "Registry_Accept i p now (au_registry s) = (res, r)" by fastforce
  then have "evolved (au_registry s) r" using evolved_ops(1) [of "au_registry s" i p now] by simp
  then show ?thesis
    by (auto simp: AcceptDynamicQuestForPlayer_def Let_def a split: option.split bool.split)
qed

lemma Complete_evolved:
  "evolved (au_registry s) (au_registry (snd (CompleteDynamicQuestForPlayer w cfg hooks i p now s))) \<and>
    au_nextDynamicQuestId (snd (CompleteDynamicQuestForPlayer w cfg hooks i p now s)) = au_nextDynamicQuestId s"
  by (cases rule: Complete_cases [of w cfg hooks i p now s]) (simp_all, blast+, metis evolved_trans evolved_ops(3,5))

lemma RunKillCreditTick_evolved:
  assumes "reg_ok (au_registry s)"
  shows "evolved (au_registry s) (au_registry (RunKillCreditTick w s)) \<and>
    au_nextDynamicQuestId (RunKillCreditTick w s) = au_nextDynamicQuestId s"
proof -
  let ?s0 = "s\<lparr>au_killEventBus := snd (KillEventBus_Drain (au_killEventBus s))\<rparr>"
  let ?s1 = "KillEvents_loop w (fst (KillEventBus_Drain (au_killEventBus s))) ?s0"
  let ?s2 = "?s1\<lparr>au_lastObservedKillDropCount := kb_droppedEvents (au_killEventBus ?s1)\<rparr>"
  have run: "RunKillCreditTick w s = (if kb_droppedEvents (au_killEventBus ?s1) \<le> au_lastObservedKillDropCount ?s1
      then ?s1 else ForceFailAllActiveDynamicQuestsForKillCreditLoss w ?s2)"
    by (simp add: RunKillCreditTick_def ReclaimDynamicQuestsAfterKillCreditLoss_def case_prod_unfold Let_def)
  have one: "reg_ok (au_registry ?s1)" "evolved (au_registry s) (au_registry ?s1)"
    "au_nextDynamicQuestId ?s1 = au_nextDynamicQuestId s"
    using KillEvents_loop_registry [of ?s0 w "fst (KillEventBus_Drain (au_killEventBus s))"] assms by auto
  then have "reg_ok (au_registry ?s2)" by simp
  from ForceFailAll_registry [OF this, of w] one show ?thesis
    unfolding run using evolved_trans by auto
qed

lemma auth_step_evolved:
  assumes "reg_ok (au_registry s)" and "\<And>w cfg p now. op \<noteq> ACreate w cfg p now"
  shows "evolved (au_registry s) (au_registry (auth_step op s)) \<and>
    au_nextDynamicQuestId (auth_step op s) = au_nextDynamicQuestId s"
proof (cases op)
  case (AMaintain w cfg now)
  then show ?thesis using RunMaintenance_registry(3) [OF assms(1)] by (simp add: RunMaintenance_pass Let_def)
next
  case (APublish w ev)
  then show ?thesis using PublishWorldEvent_frame [of w ev s] by auto
qed (use assms Accept_evolved Complete_evolved RunKillCreditTick_evolved ForceFailAll_registry
    in \<open>auto simp: PublishDynamicQuestKillEvent_def\<close>)

section \<open>Creation\<close>

lemma Registry_Offer_fresh:
  assumes "reg_ok r" and "i \<noteq> 0" and "gone i r"
  obtains x where "Registry_Offer i p l now r = (Accepted x, \<lparr>rg_quests = om_put i x (rg_quests r),
      rg_questIdsByGiver = index_add (qi_Giver x) i (rg_questIdsByGiver r)\<rparr>)"
    and "OfferDynamicQuest i p l now = Accepted x"
proof -
  from assms(2) obtain x where x: "OfferDynamicQuest i p l now = Accepted x" by (simp add: OfferDynamicQuest_def)
  then have "qi_Id x = i" using offer_ok [of i p l now x] by simp
  with x assms(3) show thesis by (intro that [of x]) (simp_all add: Registry_Offer_def gone_def)
qed

lemma not_issued_next: "\<not> issued s (au_nextDynamicQuestId s)"
  by (simp add: issued_def)

lemma Create_cases:
  fixes w cfg p now s
  defines "res \<equiv> CreateDynamicQuestOffer w cfg p now s"
  assumes "auth_ok s"
  obtains (refused) "dc_Reason (fst res) \<noteq> DC_None" and "dc_Reason (fst res) \<noteq> OfferRejected" and "snd res = s"
    | (created) x l where "fst res = \<lparr>dc_Reason = DC_None, dc_Id = Some (au_nextDynamicQuestId s)\<rparr>"
      and "au_nextDynamicQuestId s \<noteq> 0" and "OfferDynamicQuest (au_nextDynamicQuestId s) p l now = Accepted x"
      and "Registry_GetCount (au_registry s) < cfg_MaxLive cfg"
      and "CheckDynamicQuestCreateApplicability p (CreateGiverFacts w (qp_Giver p)) (CreateTargetFacts w p) = DC_None"
      and "au_registry (snd res) = snd (Registry_Offer (au_nextDynamicQuestId s) p l now (au_registry s))"
      and "rg_quests (au_registry (snd res)) = om_put (au_nextDynamicQuestId s) x (rg_quests (au_registry s))"
      and "au_nextDynamicQuestId (snd res) = snd (AdvanceDynamicQuestIdCounter (au_nextDynamicQuestId s))"
      and "au_money (snd res) = au_money s"
proof -
  let ?c = "CheckDynamicQuestCreateApplicability p (CreateGiverFacts w (qp_Giver p)) (CreateTargetFacts w p)"
  let ?n = "au_nextDynamicQuestId s"
  define l where "l = (case GiverCreature w (qp_Giver p) of None \<Rightarrow> default_location | Some c \<Rightarrow> cr_Location c)"
  have never: "?c \<noteq> OfferRejected"
    by (simp add: CheckDynamicQuestCreateApplicability_def)
  consider "Registry_GetCount (au_registry s) \<ge> cfg_MaxLive cfg \<or> ?c \<noteq> DC_None"
    | "Registry_GetCount (au_registry s) < cfg_MaxLive cfg" "?c = DC_None" "?n = 0"
    | "Registry_GetCount (au_registry s) < cfg_MaxLive cfg" "?c = DC_None" "?n \<noteq> 0" by fastforce
  then show thesis
  proof cases
    case 1
    with never show thesis
      by (intro refused) (auto simp: res_def CreateDynamicQuestOffer_def Let_def)
  next
    case 2
    then show thesis
      by (intro refused) (auto simp: res_def CreateDynamicQuestOffer_def AllocateDynamicQuestId_def
          AdvanceDynamicQuestIdCounter_def Let_def)
  next
    case 3
    have "gone ?n (au_registry s)" using assms(2) not_issued_next by (auto simp: auth_ok_def)
    with assms(2) 3 obtain x where off: "Registry_Offer ?n p l now (au_registry s) = (Accepted x,
        \<lparr>rg_quests = om_put ?n x (rg_quests (au_registry s)),
         rg_questIdsByGiver = index_add (qi_Giver x) ?n (rg_questIdsByGiver (au_registry s))\<rparr>)"
      and x: "OfferDynamicQuest ?n p l now = Accepted x"
      by (auto simp: auth_ok_def elim: Registry_Offer_fresh [of "au_registry s" ?n p l now])
    define r where "r = snd (Registry_Offer ?n p l now (au_registry s))"
    have "res = (\<lparr>dc_Reason = DC_None, dc_Id = Some ?n\<rparr>,
        s\<lparr>au_nextDynamicQuestId := snd (AdvanceDynamicQuestIdCounter ?n), au_registry := r\<rparr>)"
      using 3 by (simp add: res_def CreateDynamicQuestOffer_def AllocateDynamicQuestId_def
          AdvanceDynamicQuestIdCounter_def Let_def off r_def l_def [symmetric])
    with 3 x off show thesis by (intro created [of l x]) (simp_all add: r_def)
  qed
qed

lemma issued_advance:
  assumes "c \<noteq> 0" and "i = c \<or> i \<noteq> 0 \<and> i < c" and "c' = snd (AdvanceDynamicQuestIdCounter c)"
  shows "i \<noteq> 0 \<and> (c' = 0 \<or> i < (c'::u64))"
proof (cases "c = u64_max")
  case True
  with assms show ?thesis by (auto simp: AdvanceDynamicQuestIdCounter_def)
next
  case False
  then have "c < c + 1" using unat_Suc_below_max by (simp add: word_less_nat_alt)
  with assms False show ?thesis by (auto simp: AdvanceDynamicQuestIdCounter_def)
qed

lemma Create_ok:
  assumes "auth_ok s"
  shows "auth_ok (snd (CreateDynamicQuestOffer w cfg p now s))"
    and "issued s k \<Longrightarrow> issued (snd (CreateDynamicQuestOffer w cfg p now s)) k"
    and "issued s k \<Longrightarrow> gone k (au_registry s) \<Longrightarrow> gone k (au_registry (snd (CreateDynamicQuestOffer w cfg p now s)))"
proof -
  let ?s' = "snd (CreateDynamicQuestOffer w cfg p now s)"
  have "auth_ok ?s' \<and> (issued s k \<longrightarrow> issued ?s' k) \<and> (issued s k \<longrightarrow> gone k (au_registry s) \<longrightarrow> gone k (au_registry ?s'))"
    using assms
  proof (cases rule: Create_cases [where w = w and cfg = cfg and p = p and now = now])
    case refused
    with assms show ?thesis by simp
  next
    case (created x l)
    let ?n = "au_nextDynamicQuestId s"
    have ok: "reg_ok (au_registry ?s')" unfolding created(6) using assms by (simp add: auth_ok_def Registry_Offer_ok)
    have gone: "gone j (au_registry ?s') \<longleftrightarrow> j \<noteq> ?n \<and> gone j (au_registry s)" for j
      using assms by (simp add: gone_def created(7) auth_ok_def reg_ok_wf)
    have new: "j = ?n \<or> issued s j \<Longrightarrow> issued ?s' j" for j
      using issued_advance [OF created(2), of j, OF _ created(8)] created(2) by (auto simp: issued_def)
    have keys: "\<not> gone j (au_registry ?s') \<Longrightarrow> j = ?n \<or> issued s j" for j
      using assms unfolding gone auth_ok_def by blast
    have "auth_ok ?s'" unfolding auth_ok_def using ok keys new by blast
    with new [of k] not_issued_next show ?thesis unfolding gone by auto
  qed
  then show "auth_ok ?s'" and "issued s k \<Longrightarrow> issued ?s' k"
    and "issued s k \<Longrightarrow> gone k (au_registry s) \<Longrightarrow> gone k (au_registry ?s')" by blast+
qed

section \<open>Runs\<close>

lemma auth_step_facts:
  assumes "auth_ok s"
  shows "auth_ok (auth_step op s) \<and> (issued s k \<longrightarrow> issued (auth_step op s) k) \<and>
    (issued s k \<longrightarrow> gone k (au_registry s) \<longrightarrow> gone k (au_registry (auth_step op s)))"
proof (cases "\<exists>w cfg p now. op = ACreate w cfg p now")
  case True
  with Create_ok [OF assms] show ?thesis by auto
next
  case False
  with assms have ev: "evolved (au_registry s) (au_registry (auth_step op s))"
      "au_nextDynamicQuestId (auth_step op s) = au_nextDynamicQuestId s"
    using auth_step_evolved [of s op] by (auto simp: auth_ok_def)
  then show ?thesis using auth_okI [OF assms ev] evolved_gone [OF ev(1)] assms by (simp add: auth_ok_def issued_def)
qed

lemma auth_run_facts:
  "auth_ok s \<Longrightarrow> auth_ok (auth_run ops s) \<and> (issued s k \<longrightarrow> issued (auth_run ops s) k) \<and>
    (issued s k \<longrightarrow> gone k (au_registry s) \<longrightarrow> gone k (au_registry (auth_run ops s)))"
proof (induction ops arbitrary: s)
  case (Cons op ops)
  from auth_step_facts [OF Cons.prems, of op k] Cons.IH [of "auth_step op s"] show ?case
    by (auto simp: auth_run_def)
qed (simp add: auth_run_def)

lemma auth_init_ok: "auth_ok auth_init"
  using registry_empty_ok by (simp add: auth_ok_def auth_init_def gone_def) (simp add: registry_empty_def)

lemma auth_reachable: "auth_ok (auth_run ops auth_init)"
  using auth_run_facts [OF auth_init_ok] by blast

lemma auth_run_append: "auth_run (ops1 @ ops2) s = auth_run ops2 (auth_run ops1 s)"
  by (simp add: auth_run_def)

section \<open>Maintenance terminates every lapsed quest\<close>

lemma om_keys_subset_length:
  assumes "om_wf m" and "om_wf m'" and "\<And>k. om_find m k = None \<Longrightarrow> om_find m' k = None"
  shows "length m' \<le> length m"
proof -
  have "set (om_keys m') \<subseteq> set (om_keys m)" using assms(3) by (metis set_om_keys subsetI)
  then have "card (set (om_keys m')) \<le> card (set (om_keys m))" by (simp add: card_mono)
  then show ?thesis using assms(1,2) by (simp only: distinct_card distinct_om_keys) (simp add: om_keys_def)
qed

lemma evolved_length:
  assumes "evolved r r'" and "reg_ok r"
  shows "length (rg_quests r') \<le> length (rg_quests r)"
  using om_keys_subset_length [of "rg_quests r" "rg_quests r'"] evolved_gone [OF assms] evolved_ok [OF assms]
    reg_ok_wf assms(2) by (auto simp: gone_def)

text \<open>\<open>swept c\<close>: no stored quest with an id up to \<open>c\<close> is lapsed, and the cycle limit covers every id.\<close>

definition above :: "DynamicQuestId \<Rightarrow> QuestAuthority \<Rightarrow> DynamicQuestId set" where
  "above c s = {k. c < k \<and> \<not> gone k (au_registry s)}"

definition no_lapsed_upto :: "u64 \<Rightarrow> DynamicQuestId \<Rightarrow> QuestAuthority \<Rightarrow> bool" where
  "no_lapsed_upto now c s = (\<forall>k x. om_find (rg_quests (au_registry s)) k = Some x \<and> k \<le> c \<longrightarrow> \<not> lapsed now x)"

definition no_lapsed :: "u64 \<Rightarrow> QuestAuthority \<Rightarrow> bool" where
  "no_lapsed now s = (\<forall>x \<in> set (reg_instances (au_registry s)). \<not> lapsed now x)"

lemma no_lapsed_iff:
  "reg_ok (au_registry s) \<Longrightarrow> no_lapsed now s \<longleftrightarrow>
    (\<forall>k x. om_find (rg_quests (au_registry s)) k = Some x \<longrightarrow> \<not> lapsed now x)"
  unfolding no_lapsed_def using reg_instances_iff reg_ok_stored by metis

lemma finite_above: "finite (above c s)"
proof -
  have "above c s \<subseteq> set (om_keys (rg_quests (au_registry s)))"
    by (auto simp: above_def gone_def set_om_keys)
  then show ?thesis by (rule finite_subset) simp
qed

lemma card_above_le: "reg_ok (au_registry s) \<Longrightarrow> card (above c s) \<le> length (rg_quests (au_registry s))"
proof -
  assume "reg_ok (au_registry s)"
  have "above c s \<subseteq> set (om_keys (rg_quests (au_registry s)))"
    by (auto simp: above_def gone_def set_om_keys)
  then have "card (above c s) \<le> card (set (om_keys (rg_quests (au_registry s))))" by (simp add: card_mono)
  also have "\<dots> \<le> length (rg_quests (au_registry s))" using card_length [of "om_keys (rg_quests (au_registry s))"] by (simp add: om_keys_def)
  finally show ?thesis .
qed

definition limit_ok :: "QuestAuthority \<Rightarrow> bool" where
  "limit_ok s = (\<forall>k. \<not> gone k (au_registry s) \<longrightarrow> k \<le> au_maintenanceCycleHighWater s)"

lemma Scan_eq:
  "reg_ok (au_registry s) \<Longrightarrow> MaintenanceScan cfg s = take (unat (cfg_ScanMaxPerPass cfg))
     (filter (\<lambda>k. au_maintenanceCursor s < k \<and> k \<le> au_maintenanceCycleHighWater s) (om_keys (rg_quests (au_registry s))))"
  by (simp add: MaintenanceScan_def GetIdsAfterUntil_eq reg_ok_wf)

text \<open>A page covers every id up to its last one.\<close>

lemma take_sorted_cover:
  assumes "sorted_wrt (<) (ks :: 'a::linorder list)" and "take n ks \<noteq> []" and "k \<in> set ks" and "k \<le> last (take n ks)"
  shows "k \<in> set (take n ks)"
proof (rule ccontr)
  assume "k \<notin> set (take n ks)"
  with assms(3) have "k \<in> set (drop n ks)" by (metis Un_iff append_take_drop_id set_append)
  moreover have "sorted_wrt (<) (take n ks @ drop n ks)" using assms(1) by simp
  ultimately have "last (take n ks) < k" using assms(2) last_in_set by (auto simp: sorted_wrt_append simp del: append_take_drop_id)
  with assms(4) show False by simp
qed

lemma sorted_filter_keys: "om_wf m \<Longrightarrow> sorted_wrt (<) (filter P (om_keys m))"
  by (simp add: om_wf_def om_keys_def sorted_wrt_filter)

lemma sorted_last: "sorted xs \<Longrightarrow> x \<in> set xs \<Longrightarrow> x \<le> last (xs :: 'a::linorder list)"
  by (induction xs) auto

lemma sorted_take_last:
  assumes "sorted_wrt (<) (ks :: 'a::linorder list)" and "x \<in> set (take n ks)"
  shows "x \<le> last (take n ks)"
proof -
  have "sorted_wrt (<) (take n ks)" using assms(1) by (rule sorted_wrt_take)
  then have "sorted (take n ks)" by (simp only: strict_sorted_iff)
  with assms(2) show ?thesis by (simp add: sorted_last)
qed

definition sweeping :: "u64 \<Rightarrow> QuestAuthority \<Rightarrow> bool" where
  "sweeping now s = (limit_ok s \<and> no_lapsed_upto now (au_maintenanceCursor s) s)"

lemma pass_result:
  fixes w cfg now s
  defines "p \<equiv> pass_start cfg s" and "s' \<equiv> RunDynamicQuestMaintenance w cfg now s"
  shows "au_maintenanceCursor s' = (if MaintenanceScan cfg p \<noteq> [] then last (MaintenanceScan cfg p) else au_maintenanceCursor p)"
    and "au_maintenanceCycleHighWater s' = au_maintenanceCycleHighWater p"
  by (simp_all add: s'_def p_def RunMaintenance_pass Let_def)

lemma Scan_in:
  assumes "reg_ok (au_registry s)" and "k \<in> set (MaintenanceScan cfg s)"
  shows "au_maintenanceCursor s < k" and "k \<le> au_maintenanceCycleHighWater s" and "\<not> gone k (au_registry s)"
  using assms(2) unfolding Scan_eq [OF assms(1)] by (auto dest!: in_set_takeD simp: gone_def set_om_keys)

lemma Scan_cover:
  assumes "reg_ok (au_registry s)" and "MaintenanceScan cfg s \<noteq> []" and "\<not> gone k (au_registry s)" and "limit_ok s"
    and "au_maintenanceCursor s < k" and "k \<le> last (MaintenanceScan cfg s)"
  shows "k \<in> set (MaintenanceScan cfg s)"
  using assms(2-) unfolding Scan_eq [OF assms(1)]
  by (intro take_sorted_cover) (auto simp: sorted_filter_keys reg_ok_wf assms(1) gone_def set_om_keys limit_ok_def)

lemma Scan_empty:
  assumes "reg_ok (au_registry s)" and "MaintenanceScan cfg s = []" and "cfg_ScanMaxPerPass cfg \<noteq> 0"
    and "\<not> gone k (au_registry s)" and "limit_ok s"
  shows "k \<le> au_maintenanceCursor s"
proof (rule ccontr)
  assume "\<not> ?thesis"
  with assms(4,5) have "k \<in> set (filter (\<lambda>k. au_maintenanceCursor s < k \<and> k \<le> au_maintenanceCycleHighWater s)
      (om_keys (rg_quests (au_registry s))))"
    by (auto simp: gone_def set_om_keys limit_ok_def)
  moreover have "unat (cfg_ScanMaxPerPass cfg) \<noteq> 0" using assms(3) by (simp add: unat_eq_0)
  moreover have "take n xs = [] \<Longrightarrow> n \<noteq> 0 \<Longrightarrow> k \<notin> set xs" for n and xs :: "DynamicQuestId list" by simp
  ultimately show False using assms(2) unfolding Scan_eq [OF assms(1)] by blast
qed

lemma RunMaintenance_find_Some:
  assumes "reg_ok (au_registry s)"
    and "om_find (rg_quests (au_registry (RunDynamicQuestMaintenance w cfg now s))) k = Some x"
  shows "om_find (rg_quests (au_registry s)) k = Some x"
    and "k \<in> set (MaintenanceScan cfg (pass_start cfg s)) \<Longrightarrow> \<not> lapsed now x"
  using assms(2) unfolding RunMaintenance_registry(2) [OF assms(1)] by (auto split: option.splits if_splits)

lemma no_lapsed_stays:
  assumes "reg_ok (au_registry s)" and "no_lapsed now s"
  shows "no_lapsed now (RunDynamicQuestMaintenance w cfg now s)"
  using assms RunMaintenance_registry(1) [OF assms(1)] RunMaintenance_find_Some(1) [OF assms(1)]
  by (simp add: no_lapsed_iff) blast

lemma above_decreases:
  assumes "reg_ok (au_registry s)" and "MaintenanceScan cfg p \<noteq> []" and "p = pass_start cfg s"
    and "s' = RunDynamicQuestMaintenance w cfg now s"
  shows "card (above (au_maintenanceCursor s') s') < card (above (au_maintenanceCursor p) p)"
proof -
  have reg: "au_registry p = au_registry s" by (simp add: assms(3))
  have ok: "reg_ok (au_registry p)" using assms(1) reg by simp
  let ?c = "last (MaintenanceScan cfg p)"
  have c: "?c \<in> set (MaintenanceScan cfg p)" using assms(2) by simp
  have cur: "au_maintenanceCursor s' = ?c" using pass_result(1) assms(2-) by simp
  have "gone k (au_registry s) \<Longrightarrow> gone k (au_registry s')" for k
    using RunMaintenance_registry(3) [OF assms(1)] evolved_gone assms(1,4) by blast
  then have "above ?c s' \<subseteq> above (au_maintenanceCursor p) p"
    using Scan_in(1) [OF ok c] reg by (auto simp: above_def)
  moreover have "?c \<in> above (au_maintenanceCursor p) p" and "?c \<notin> above ?c s'"
    using Scan_in [OF ok c] by (auto simp: above_def)
  ultimately have "above ?c s' \<subset> above (au_maintenanceCursor p) p" by blast
  then show ?thesis unfolding cur by (intro psubset_card_mono) (rule finite_above)
qed

lemma sweeping_pass:
  assumes "reg_ok (au_registry s)" and "p = pass_start cfg s" and "sweeping now p" and "cfg_ScanMaxPerPass cfg \<noteq> 0"
    and "s' = RunDynamicQuestMaintenance w cfg now s" and "\<not> no_lapsed now s'"
  shows "sweeping now s' \<and> MaintenanceScan cfg p \<noteq> []"
proof -
  have reg: "au_registry p = au_registry s" by (simp add: assms(2))
  have ok: "reg_ok (au_registry p)" using assms(1) reg by simp
  have ok': "reg_ok (au_registry s')" using RunMaintenance_registry(1) assms(1,5) by simp
  note find = RunMaintenance_find_Some [where w = w and cfg = cfg and now = now, OF assms(1), folded assms(5) assms(2)]
  have ne: "MaintenanceScan cfg p \<noteq> []"
  proof
    assume e: "MaintenanceScan cfg p = []"
    have "\<not> lapsed now x" if "om_find (rg_quests (au_registry s')) k = Some x" for k x
    proof -
      from find(1) [OF that] reg have x: "om_find (rg_quests (au_registry p)) k = Some x" by simp
      then have "k \<le> au_maintenanceCursor p"
        using Scan_empty [OF ok e assms(4)] assms(3) by (simp add: gone_def sweeping_def)
      with x assms(3) show ?thesis by (auto simp: sweeping_def no_lapsed_upto_def)
    qed
    with assms(6) ok' show False by (simp add: no_lapsed_iff)
  qed
  have "\<not> lapsed now x" if x: "om_find (rg_quests (au_registry s')) k = Some x" and k: "k \<le> au_maintenanceCursor s'" for k x
  proof (cases "k \<le> au_maintenanceCursor p")
    case True
    with find(1) [OF x] reg assms(3) show ?thesis by (auto simp: sweeping_def no_lapsed_upto_def)
  next
    case False
    have "k \<in> set (MaintenanceScan cfg p)"
      using Scan_cover [OF ok ne, of k] False k find(1) [OF x] reg assms(3) pass_result(1) [of w cfg now s] ne assms(2,5)
      by (simp add: gone_def sweeping_def)
    with find(2) [OF x] show ?thesis by simp
  qed
  moreover have "limit_ok s'"
    using assms(3) reg find(1) pass_result(2) [of w cfg now s] assms(2,5)
    by (fastforce simp: sweeping_def limit_ok_def gone_def)
  ultimately show ?thesis using ne by (auto simp: sweeping_def no_lapsed_upto_def)
qed

lemma sweeping_start:
  assumes "reg_ok (au_registry s)" and "au_maintenanceCursor (pass_start cfg s) = 0"
  shows "sweeping now (pass_start cfg s)"
proof -
  have "au_maintenanceCycleHighWater (pass_start cfg s) = Registry_GetHighestId (au_registry s)"
    using assms(2) by (auto simp: pass_start_def Let_def split: if_splits)
  moreover have "k \<noteq> 0" if "om_find (rg_quests (au_registry s)) k = Some x" for k x
    using reg_ok_stored [OF assms(1) that] by (auto simp: quest_ok_def)
  ultimately show ?thesis
    using GetHighestId_greatest [OF assms(1)] assms(2)
    by (auto simp: sweeping_def limit_ok_def no_lapsed_upto_def gone_def)
qed

text \<open>A count of the passes left: it drops with every pass until no quest is lapsed.\<close>

definition passes_left :: "nat \<Rightarrow> u64 \<Rightarrow> QuestAuthority \<Rightarrow> nat" where
  "passes_left n now s =
     (if no_lapsed now s then 0
      else if sweeping now s then Suc (card (above (au_maintenanceCursor s) s))
      else n + 2 + card (above (au_maintenanceCursor s) s))"

lemma above_pass_start:
  assumes "reg_ok (au_registry s)" and "MaintenanceScan cfg (pass_start cfg s) \<noteq> []"
    and "au_maintenanceCursor (pass_start cfg s) = au_maintenanceCursor s"
  shows "above (au_maintenanceCursor (pass_start cfg s)) (pass_start cfg s) = above (au_maintenanceCursor s) s"
  using assms by (simp add: above_def)

lemma sweeping_pass_start:
  assumes "reg_ok (au_registry s)"
  shows "sweeping now (pass_start cfg s) \<or>
    (pass_start cfg s = s \<and> au_maintenanceCursor s \<noteq> 0 \<and> MaintenanceScan cfg s \<noteq> [])"
proof (cases "au_maintenanceCursor (pass_start cfg s) = 0")
  case True
  then show ?thesis using sweeping_start [OF assms] by blast
next
  case False
  then show ?thesis by (auto simp: pass_start_def Let_def split: if_splits)
qed

lemma sweeping_kept_by_start:
  assumes "reg_ok (au_registry s)" and "sweeping now s"
  shows "au_maintenanceCursor (pass_start cfg s) = au_maintenanceCursor s \<or> no_lapsed now s \<or> cfg_ScanMaxPerPass cfg = 0"
proof (cases "au_maintenanceCursor s \<noteq> 0 \<and> MaintenanceScan cfg s = []")
  case True
  have "\<not> lapsed now x" if "om_find (rg_quests (au_registry s)) k = Some x" "cfg_ScanMaxPerPass cfg \<noteq> 0" for k x
    using Scan_empty [OF assms(1) conjunct2 [OF True] that(2), of k] that assms(2)
    by (auto simp: sweeping_def no_lapsed_upto_def gone_def)
  then show ?thesis using no_lapsed_iff [OF assms(1)] by blast
next
  case False
  then show ?thesis by (auto simp: pass_start_def Let_def)
qed

lemma passes_left_decreases:
  assumes "reg_ok (au_registry s)" and "cfg_ScanMaxPerPass cfg \<noteq> 0" and "length (rg_quests (au_registry s)) \<le> n"
    and "\<not> no_lapsed now (RunDynamicQuestMaintenance w cfg now s)"
  shows "passes_left n now (RunDynamicQuestMaintenance w cfg now s) < passes_left n now s"
proof -
  define s' where "s' = RunDynamicQuestMaintenance w cfg now s"
  define p where "p = pass_start cfg s"
  note res = assms(4) [folded s'_def]
  have live: "\<not> no_lapsed now s" using no_lapsed_stays [OF assms(1)] assms(4) by blast
  have small: "card (above c p) \<le> n" for c
    using card_above_le [of p c] assms(1,3) by (simp add: p_def)
  show ?thesis
  proof (cases "sweeping now p")
    case True
    from sweeping_pass [OF assms(1) p_def True assms(2) s'_def res]
    have sw: "sweeping now s'" and ne: "MaintenanceScan cfg p \<noteq> []" by blast+
    have less: "card (above (au_maintenanceCursor s') s') < card (above (au_maintenanceCursor p) p)"
      by (rule above_decreases [OF assms(1) ne p_def s'_def])
    show ?thesis
    proof (cases "sweeping now s")
      case True
      then have "au_maintenanceCursor p = au_maintenanceCursor s"
        using sweeping_kept_by_start [OF assms(1) True, of cfg] live assms(2) by (simp add: p_def)
      then have "above (au_maintenanceCursor p) p = above (au_maintenanceCursor s) s"
        by (simp add: above_def p_def)
      with less sw True live res show ?thesis by (simp add: passes_left_def s'_def [symmetric])
    next
      case False
      with less sw small [of "au_maintenanceCursor p"] live res show ?thesis
        by (simp add: passes_left_def s'_def [symmetric])
    qed
  next
    case False
    with sweeping_pass_start [OF assms(1), of now cfg] have p: "p = s" and ne: "MaintenanceScan cfg p \<noteq> []"
      by (auto simp: p_def)
    from above_decreases [OF assms(1) ne p_def s'_def] p False live res show ?thesis
      by (auto simp: passes_left_def s'_def [symmetric])
  qed
qed

lemma maintenance_passes_left:
  assumes "reg_ok (au_registry s)" and "cfg_ScanMaxPerPass cfg \<noteq> 0" and "length (rg_quests (au_registry s)) \<le> n"
    and "passes_left n now s \<le> length ws"
  shows "no_lapsed now (fold (\<lambda>w s. RunDynamicQuestMaintenance w cfg now s) ws s)"
  using assms
proof (induction ws arbitrary: s)
  case Nil
  then show ?case by (auto simp: passes_left_def split: if_splits)
next
  case (Cons w ws)
  let ?s' = "RunDynamicQuestMaintenance w cfg now s"
  have ok: "reg_ok (au_registry ?s')" by (rule RunMaintenance_registry(1) [OF Cons.prems(1)])
  have len: "length (rg_quests (au_registry ?s')) \<le> n"
    using evolved_length [OF RunMaintenance_registry(3) [OF Cons.prems(1)] Cons.prems(1)] Cons.prems(3)
    by (rule order_trans)
  have "passes_left n now ?s' \<le> length ws"
  proof (cases "no_lapsed now ?s'")
    case False
    from passes_left_decreases [OF Cons.prems(1-3) False] Cons.prems(4) show ?thesis by simp
  qed (simp add: passes_left_def)
  with Cons.IH [OF ok Cons.prems(2) len] show ?case by simp
qed

lemma passes_left_bound:
  "reg_ok (au_registry s) \<Longrightarrow> passes_left (length (rg_quests (au_registry s))) now s \<le> 2 * length (rg_quests (au_registry s)) + 2"
  using card_above_le [of s "au_maintenanceCursor s"] by (simp add: passes_left_def)

section \<open>Paying\<close>

lemma unat_widen_add: "unat (widen a + widen b) = unat a + unat b"
proof -
  have "unat a + unat b < 2 ^ LENGTH(64)" using unat_lt2p_32 [of a] unat_lt2p_32 [of b] by simp
  then show ?thesis by (simp add: unat_word_ariths)
qed

lemma Terminate_gone: "reg_ok r \<Longrightarrow> gone i (snd (Registry_TerminateForReplayContainment i now r))"
  using Registry_Remove_find [OF Registry_Fail_ok, of r i i now i] by (simp add: gone_def Terminate_registry)

lemma Complete_Remove_gone: "reg_ok r \<Longrightarrow> gone i (snd (Registry_Remove i (snd (Registry_Complete i now r))))"
  using Registry_Remove_find [OF q_complete.apply_ok, of r i now i i] by (simp add: gone_def Registry_Complete_def)

lemma ModifyMoney_no_hooks:
  assumes "reward \<noteq> 0" and "widen money + widen reward < widen MAX_MONEY_AMOUNT"
  shows "ModifyMoney no_hooks reward money = (True, money + reward)"
    and "widen (money + reward) = widen money + widen reward"
proof -
  have small: "unat money + unat reward < 2147483647"
    using assms(2) by (simp add: word_less_nat_alt unat_widen_add MAX_MONEY_AMOUNT_def)
  then have "reward \<le> MAX_MONEY_AMOUNT" by (simp add: word_le_nat_alt MAX_MONEY_AMOUNT_def)
  then have "unat (MAX_MONEY_AMOUNT - reward) = 2147483647 - unat reward"
    by (simp add: word_le_nat_alt unat_sub_if' MAX_MONEY_AMOUNT_def)
  then have room: "money < MAX_MONEY_AMOUNT - reward" unfolding word_less_nat_alt using small by linarith
  have "\<not> sint reward < 0"
  proof -
    have "unat reward < 2147483648" using small by linarith
    then have "uint reward < 2147483648" unfolding uint_nat by linarith
    then have "sint reward = uint reward" unfolding sint_uint
      by (intro signed_take_bit_int_eq_self order_trans [OF _ uint_ge_0]) simp_all
    then show ?thesis by simp
  qed
  with assms(1) room show "ModifyMoney no_hooks reward money = (True, money + reward)"
    by (simp add: ModifyMoney_def no_hooks_def)
  show "widen (money + reward) = widen money + widen reward"
    using small by (intro widen_add) simp
qed

section \<open>Properties\<close>


text \<open>
  C2: A dynamic quest pays at most once. After a successful turn-in of a quest id, no later
  sequence of calls, by any player, in any world, with any clock and any money hooks, can turn
  the same id in again: the id is never stored again and every further turn-in answers that
  the quest does not exist, leaving all money as it is.
\<close>
theorem turn_in_pays_at_most_once:
  assumes "fst (CompleteDynamicQuestForPlayer w cfg hooks i p now (auth_run ops1 auth_init)) = PC_None"
  shows "CompleteDynamicQuestForPlayer w' cfg' hooks' i p' now'
      (auth_run (ops1 @ AComplete w cfg hooks i p now # ops2) auth_init)
    = (PC_QuestNotFound, auth_run (ops1 @ AComplete w cfg hooks i p now # ops2) auth_init)"
proof -
  let ?s = "auth_run ops1 auth_init" and ?op = "AComplete w cfg hooks i p now"
  have ok: "auth_ok ?s" by (rule auth_reachable)
  have "\<not> gone i (au_registry ?s) \<and> gone i (au_registry (auth_step ?op ?s))"
    using assms ok
    by (cases rule: Complete_cases [of w cfg hooks i p now ?s])
      (auto simp: gone_def auth_ok_def intro: Complete_Remove_gone [unfolded gone_def])
  with ok have "issued (auth_step ?op ?s) i" and "gone i (au_registry (auth_step ?op ?s))"
    and "auth_ok (auth_step ?op ?s)"
    using auth_step_facts [OF ok, of ?op i] by (auto simp: auth_ok_def)
  with auth_run_facts [of "auth_step ?op ?s" ops2 i]
  have "gone i (au_registry (auth_run (ops1 @ ?op # ops2) auth_init))"
    by (simp add: auth_run_def)
  then show ?thesis by (simp add: gone_def CompleteDynamicQuestForPlayer_def Registry_Find_def)
qed

text \<open>
  When no server script alters amounts, a turn-in succeeds exactly when every check passes:
  the answer is the applicability check's, the payment is never refused, altered or rolled
  back, and the registry's own completion never rejects what the checks accepted.
\<close>
theorem turn_in_without_hooks:
  "fst (CompleteDynamicQuestForPlayer w cfg no_hooks i p now s) =
     (case om_find (rg_quests (au_registry s)) i of None \<Rightarrow> PC_QuestNotFound
      | Some inst \<Rightarrow> TurnInChecked w cfg p now s inst)"
proof (cases "om_find (rg_quests (au_registry s)) i")
  case None
  then show ?thesis by (simp add: CompleteDynamicQuestForPlayer_def Registry_Find_def)
next
  case (Some inst)
  show ?thesis
  proof (cases "TurnInChecked w cfg p now s inst = PC_None")
    case False
    then show ?thesis
      using Some by (simp add: CompleteDynamicQuestForPlayer_def Registry_Find_def TurnInChecked_def Let_def)
  next
    case True
    define s1 where "s1 = (if qi_RewardMoneyCopper inst = 0 then s
      else s\<lparr>au_money := (au_money s)(p := au_money s p + qi_RewardMoneyCopper inst)\<rparr>)"
    obtain restored s2 where comp: "CompensateDynamicQuestReward w no_hooks i now p (au_money s p) s1 = (restored, s2)"
      by fastforce
    have room: "qi_RewardMoneyCopper inst \<noteq> 0 \<Longrightarrow>
        widen (au_money s p) + widen (qi_RewardMoneyCopper inst) < widen MAX_MONEY_AMOUNT"
      using TurnInChecked_None(8) [OF True] by (simp add: word_neq_0_conv)
    have pay: "(if qi_RewardMoneyCopper inst = 0 then (True, s)
        else PlayerModifyMoney no_hooks p (qi_RewardMoneyCopper inst) s) = (True, s1)"
      using ModifyMoney_no_hooks(1) [OF _ room] by (simp add: PlayerModifyMoney_def s1_def)
    have "widen (au_money s1 p) = widen (au_money s p) + widen (qi_RewardMoneyCopper inst)"
      using ModifyMoney_no_hooks(2) [OF _ room] by (simp add: s1_def)
    with Complete_unfold [OF Some True pay refl comp refl refl refl] Some True show ?thesis by (simp add: s1_def)
  qed
qed

text \<open>
  C7: A quest id is never reused: once an id has been handed out and its quest is gone
  (completed, expired, contained), it never appears in the registry again, and every id the
  registry holds at any time is nonzero and was handed out by the counter.
\<close>
theorem quest_ids_never_return:
  assumes "issued (auth_run ops1 auth_init) k" and "gone k (au_registry (auth_run ops1 auth_init))"
  shows "(gone k (au_registry (auth_run (ops1 @ ops2) auth_init))) \<and>
    ({j. \<not> gone j (au_registry (auth_run ops1 auth_init))} \<subseteq> {j. issued (auth_run ops1 auth_init) j})"
proof (rule conjI)
  have ok: "auth_ok (auth_run ops1 auth_init)" by (rule auth_reachable)
  then show "gone k (au_registry (auth_run (ops1 @ ops2) auth_init))"
    using auth_run_facts assms by (simp add: auth_run_append)
  show "{j. \<not> gone j (au_registry (auth_run ops1 auth_init))} \<subseteq> {j. issued (auth_run ops1 auth_init) j}"
    using ok by (auto simp: auth_ok_def)
qed

text \<open>
  Creation on any reachable state: it succeeds exactly when the registry is below its
  capacity, the live checks pass and the id counter is not exhausted; it then stores one new
  Offered quest under the counter's id, otherwise it changes nothing. The registry's own
  rejection of an offer is unreachable.
\<close>
theorem create_offer_exact:
  fixes w cfg prp now ops
  defines "s \<equiv> auth_run ops auth_init" and "res \<equiv> CreateDynamicQuestOffer w cfg prp now (auth_run ops auth_init)"
  shows "(dc_IsCreated (fst res) \<longleftrightarrow> Registry_GetCount (au_registry s) < cfg_MaxLive cfg \<and>
      CheckDynamicQuestCreateApplicability prp (CreateGiverFacts w (qp_Giver prp)) (CreateTargetFacts w prp) = DC_None \<and>
      au_nextDynamicQuestId s \<noteq> 0) \<and>
    ((dc_IsCreated (fst res) \<and> dc_Id (fst res) = Some (au_nextDynamicQuestId s) \<and>
        (\<exists>x. qi_State x = Offered \<and> qi_Id x = au_nextDynamicQuestId s \<and> qi_Giver x = qp_Giver prp \<and>
          rg_quests (au_registry (snd res)) = om_put (au_nextDynamicQuestId s) x (rg_quests (au_registry s)))) \<or>
      (dc_Id (fst res) = None \<and> snd res = s)) \<and>
    (dc_Reason (fst res) \<noteq> OfferRejected)"
proof (rule conj3I)
  have ok: "auth_ok s" unfolding s_def by (rule auth_reachable)
  let ?c = "CheckDynamicQuestCreateApplicability prp (CreateGiverFacts w (qp_Giver prp)) (CreateTargetFacts w prp)"
  have res: "res = CreateDynamicQuestOffer w cfg prp now s" by (simp add: res_def s_def)
  have none: "dc_Reason (fst res) \<noteq> DC_None \<Longrightarrow> dc_Id (fst res) = None"
    by (auto simp: res CreateDynamicQuestOffer_def Let_def split: if_splits prod.splits)
  have fails: "\<not> (Registry_GetCount (au_registry s) < cfg_MaxLive cfg \<and> ?c = DC_None \<and> au_nextDynamicQuestId s \<noteq> 0) \<Longrightarrow>
      dc_Reason (fst res) \<noteq> DC_None"
    by (auto simp: res CreateDynamicQuestOffer_def AllocateDynamicQuestId_def AdvanceDynamicQuestIdCounter_def Let_def
        linorder_not_less)
  from ok have "(dc_Reason (fst res) \<noteq> DC_None \<and> dc_Reason (fst res) \<noteq> OfferRejected \<and> snd res = s \<and>
        \<not> (Registry_GetCount (au_registry s) < cfg_MaxLive cfg \<and> ?c = DC_None \<and> au_nextDynamicQuestId s \<noteq> 0)) \<or>
      (dc_IsCreated (fst res) \<and> dc_Id (fst res) = Some (au_nextDynamicQuestId s) \<and>
        (\<exists>x. qi_State x = Offered \<and> qi_Id x = au_nextDynamicQuestId s \<and> qi_Giver x = qp_Giver prp \<and>
          rg_quests (au_registry (snd res)) = om_put (au_nextDynamicQuestId s) x (rg_quests (au_registry s))))"
  proof (cases rule: Create_cases [where w = w and cfg = cfg and p = prp and now = now])
    case refused
    have "dc_Reason (fst res) = OfferRejected \<or> dc_Reason (fst res) = DC_None"
      if "Registry_GetCount (au_registry s) < cfg_MaxLive cfg \<and> ?c = DC_None \<and> au_nextDynamicQuestId s \<noteq> 0"
      using that by (auto simp: res CreateDynamicQuestOffer_def AllocateDynamicQuestId_def
          AdvanceDynamicQuestIdCounter_def Let_def split: prod.split)
    with refused [folded res] show ?thesis by blast
  next
    case (created x l)
    note created [folded res]
    then show ?thesis using offer_ok [of "au_nextDynamicQuestId s" prp l now x] by (auto simp: dc_IsCreated_def)
  qed
  with none fails show "dc_IsCreated (fst res) \<longleftrightarrow> Registry_GetCount (au_registry s) < cfg_MaxLive cfg \<and>
      ?c = DC_None \<and> au_nextDynamicQuestId s \<noteq> 0"
    and "(dc_IsCreated (fst res) \<and> dc_Id (fst res) = Some (au_nextDynamicQuestId s) \<and>
        (\<exists>x. qi_State x = Offered \<and> qi_Id x = au_nextDynamicQuestId s \<and> qi_Giver x = qp_Giver prp \<and>
          rg_quests (au_registry (snd res)) = om_put (au_nextDynamicQuestId s) x (rg_quests (au_registry s)))) \<or>
      (dc_Id (fst res) = None \<and> snd res = s)"
    and "dc_Reason (fst res) \<noteq> OfferRejected"
    by (auto simp: dc_IsCreated_def)
qed

text \<open>
  C13: Maintenance is live: with a nonzero page size, after twice the number of stored quests
  plus two passes at the same time (whatever the cursor and the cycle limit were before, and
  whatever the live worlds are), no stored Offered or Active quest is past its deadline.
\<close>
theorem maintenance_clears_expired:
  assumes "cfg_ScanMaxPerPass cfg \<noteq> 0"
    and "2 * length (rg_quests (au_registry (auth_run ops auth_init))) + 2 \<le> length ws"
    and "x \<in> set (reg_instances (au_registry
      (fold (\<lambda>w s. RunDynamicQuestMaintenance w cfg now s) ws (auth_run ops auth_init))))"
  shows "now < qi_ExpiresAtMs x \<or> qi_State x \<in> {Completed, Failed, Expired}"
proof -
  have ok: "reg_ok (au_registry (auth_run ops auth_init))" using auth_reachable by (simp add: auth_ok_def)
  have "no_lapsed now (fold (\<lambda>w s. RunDynamicQuestMaintenance w cfg now s) ws (auth_run ops auth_init))"
    using maintenance_passes_left [OF ok assms(1) order_refl] passes_left_bound [OF ok, of now] assms(2)
    by (meson order_trans)
  with assms(3) show ?thesis
    by (cases "qi_State x") (auto simp: no_lapsed_def lapsed_def IsDynamicQuestExpired_def linorder_not_le)
qed

text \<open>
  One maintenance pass removes exactly the lapsed quests among the ids it examines and leaves
  every other quest, all money and the id counter untouched.
\<close>
theorem maintenance_pass_exact:
  fixes w cfg now ops
  defines "s \<equiv> auth_run ops auth_init"
  shows "(om_find (rg_quests (au_registry (RunDynamicQuestMaintenance w cfg now s))) k =
      (case om_find (rg_quests (au_registry s)) k of None \<Rightarrow> None
       | Some x \<Rightarrow> if k \<in> set (MaintenanceScan cfg (pass_start cfg s)) \<and> (qi_State x = Offered \<or> qi_State x = Active) \<and>
            qi_ExpiresAtMs x \<le> now then None else Some x)) \<and>
    (au_money (RunDynamicQuestMaintenance w cfg now s) = au_money s) \<and>
    (au_nextDynamicQuestId (RunDynamicQuestMaintenance w cfg now s) = au_nextDynamicQuestId s)"
proof (rule conj3I)
  have ok: "reg_ok (au_registry s)" unfolding s_def using auth_reachable by (simp add: auth_ok_def)
  show "om_find (rg_quests (au_registry (RunDynamicQuestMaintenance w cfg now s))) k =
      (case om_find (rg_quests (au_registry s)) k of None \<Rightarrow> None
       | Some x \<Rightarrow> if k \<in> set (MaintenanceScan cfg (pass_start cfg s)) \<and> (qi_State x = Offered \<or> qi_State x = Active) \<and>
            qi_ExpiresAtMs x \<le> now then None else Some x)"
    unfolding RunMaintenance_registry(2) [OF ok] lapsed_def IsDynamicQuestExpired_def by (simp split: option.split)
qed (simp_all add: RunMaintenance_pass Let_def)

text \<open>
  C8: A kill event credits exactly the quests it should: each active, unexpired, unfinished kill
  quest of the killer for that victim on that map that has not consumed the event advances by
  one and records the event; every other quest is unchanged; and delivering the same event
  again changes nothing.
\<close>
theorem kill_credit_exact_once:
  fixes w w' e ops
  defines "s \<equiv> auth_run ops auth_init"
  shows "(om_find (rg_quests (au_registry (ProcessDynamicQuestKillProgress w e s))) k =
      map_option (credited e (lw_SystemMs w)) (om_find (rg_quests (au_registry s)) k)) \<and>
    (om_find (rg_quests (au_registry (ProcessDynamicQuestKillProgress w e
        (ProcessDynamicQuestKillProgress w e s)))) k
      = om_find (rg_quests (au_registry (ProcessDynamicQuestKillProgress w e s))) k)"
proof (rule conjI)
  have ok: "reg_ok (au_registry s)" unfolding s_def using auth_reachable by (simp add: auth_ok_def)
  note one = ProcessKill_registry [OF ok, of w e]
  show "om_find (rg_quests (au_registry (ProcessDynamicQuestKillProgress w e s))) k =
      map_option (credited e (lw_SystemMs w)) (om_find (rg_quests (au_registry s)) k)" using one by blast
  have "credited e (lw_SystemMs w) (credited e (lw_SystemMs w) x) = credited e (lw_SystemMs w) x" for x
    by (simp add: credited_def credits_def)
  then show "om_find (rg_quests (au_registry (ProcessDynamicQuestKillProgress w e
        (ProcessDynamicQuestKillProgress w e s)))) k
      = om_find (rg_quests (au_registry (ProcessDynamicQuestKillProgress w e s))) k"
    using one ProcessKill_registry [of "ProcessDynamicQuestKillProgress w e s" w e k]
    by (simp add: option.map_comp comp_def)
qed


lemma evolved_count:
  assumes "reg_ok (au_registry s)" and "\<And>w cfg p now. op \<noteq> ACreate w cfg p now"
  shows "length (rg_quests (au_registry (auth_step op s))) \<le> length (rg_quests (au_registry s))"
  using evolved_length auth_step_evolved assms by blast

lemma Create_count:
  assumes "auth_ok s" and "length (rg_quests (au_registry s)) \<le> unat (cfg_MaxLive cfg)"
  shows "length (rg_quests (au_registry (snd (CreateDynamicQuestOffer w cfg p now s)))) \<le> unat (cfg_MaxLive cfg)"
  using assms(1)
proof (cases rule: Create_cases [where w = w and cfg = cfg and p = p and now = now])
  case refused
  then show ?thesis using assms(2) by simp
next
  case (created x l)
  have "length (rg_quests (au_registry s)) < 2 ^ 32" using assms(2) unat_lt2p_32 [of "cfg_MaxLive cfg"] by simp
  then have "length (rg_quests (au_registry s)) < unat (cfg_MaxLive cfg)"
    using created(4) by (simp add: Registry_GetCount_def word_less_nat_alt unat_of_nat_u32)
  moreover have "om_find (rg_quests (au_registry s)) (au_nextDynamicQuestId s) = None"
    using assms(1) not_issued_next by (auto simp: auth_ok_def gone_def)
  ultimately show ?thesis by (simp add: created(7) length_om_put_new)
qed

text \<open>
  The registry stays within its configured capacity in every execution whose creations use
  that configuration.
\<close>
theorem registry_capacity_respected:
  assumes "\<forall>w c p now. ACreate w c p now \<in> set ops \<longrightarrow> c = cfg"
  shows "length (rg_quests (au_registry (auth_run ops auth_init))) \<le> unat (cfg_MaxLive cfg)"
proof -
  have "length (rg_quests (au_registry (auth_run ops s))) \<le> unat (cfg_MaxLive cfg)"
    if "auth_ok s" and "length (rg_quests (au_registry s)) \<le> unat (cfg_MaxLive cfg)" for s
    using that assms
  proof (induction ops arbitrary: s)
    case (Cons op ops)
    have ok: "auth_ok (auth_step op s)" using auth_step_facts [OF Cons.prems(1)] by blast
    have "length (rg_quests (au_registry (auth_step op s))) \<le> unat (cfg_MaxLive cfg)"
    proof (cases "\<exists>w c p now. op = ACreate w c p now")
      case True
      then obtain w p now where "op = ACreate w cfg p now" using Cons.prems(3) by auto
      with Create_count [OF Cons.prems(1,2)] show ?thesis by simp
    next
      case False
      with evolved_count [of s op] Cons.prems(1,2) show ?thesis by (fastforce simp: auth_ok_def)
    qed
    moreover have "\<forall>w c p now. ACreate w c p now \<in> set ops \<longrightarrow> c = cfg" using Cons.prems(3) by simp
    ultimately show ?case using Cons.IH [OF ok] by (simp add: auth_run_def)
  qed (simp add: auth_run_def)
  then show ?thesis using auth_init_ok by (simp add: auth_init_def registry_empty_def)
qed

section \<open>A concrete execution\<close>

definition ex_giver :: LiveCreature where
  "ex_giver = \<lparr>cr_Guid = 0xF130000000000001, cr_Alive = True, cr_Entry = 240,
     cr_Location = default_location, cr_Name = ''Guard''\<rparr>"

definition ex_target :: LiveCreature where
  "ex_target = \<lparr>cr_Guid = 0xF130000000000002, cr_Alive = True, cr_Entry = 69,
     cr_Location = default_location, cr_Name = ''Wolf''\<rparr>"

definition ex_world :: LiveWorld where
  "ex_world = \<lparr>lw_SystemMs = 1000,
     lw_Agent = (\<lambda>a. if a = 3 then Some \<lparr>av_Materialized = True, av_AIWorldControlled = True,
       av_Creature = Some ex_giver\<rparr> else None),
     lw_Player = (\<lambda>g. if g = 5 then Some \<lparr>lp_Alive = True, lp_MapId = 0\<rparr> else None),
     lw_Target = (\<lambda>a b. Some ex_target), lw_ValidAttackTarget = (\<lambda>a b. True), lw_Distance = (\<lambda>a b. Fin 5)\<rparr>"

definition ex_cfg :: QuestConfig where
  "ex_cfg = \<lparr>cfg_MaxLive = 10, cfg_AcceptMaxRangeYards = Fin 10, cfg_ScanMaxPerPass = 100\<rparr>"

definition ex_kill :: DynamicQuestKillEvent where
  "ex_kill = \<lparr>ke_EventId = 0, ke_KillerGuid = 5, ke_VictimGuid = 0xF130000000000002, ke_VictimEntry = 69, ke_MapId = 0\<rparr>"

definition ex_ops :: "auth_op list" where
  "ex_ops = [ACreate ex_world ex_cfg ex_proposal 1000, AAccept ex_world ex_cfg 1 5 1000,
     APublishKill ex_kill, AKillTick ex_world]"

lemma ex_turn_in:
  "fst (CompleteDynamicQuestForPlayer ex_world ex_cfg no_hooks 1 5 1000 (auth_run ex_ops auth_init)) = PC_None"
  by code_simp

section \<open>Witnesses\<close>

lemma turn_in_pays_at_most_once_witness:
  "CompleteDynamicQuestForPlayer ex_world ex_cfg no_hooks 1 5 2000
     (auth_run (ex_ops @ AComplete ex_world ex_cfg no_hooks 1 5 1000 # ex_ops) auth_init)
   = (PC_QuestNotFound, auth_run (ex_ops @ AComplete ex_world ex_cfg no_hooks 1 5 1000 # ex_ops) auth_init)"
  by (rule turn_in_pays_at_most_once [OF ex_turn_in])

lemma ex_paid:
  "issued (auth_run (ex_ops @ [AComplete ex_world ex_cfg no_hooks 1 5 1000]) auth_init) 1"
  "gone 1 (au_registry (auth_run (ex_ops @ [AComplete ex_world ex_cfg no_hooks 1 5 1000]) auth_init))"
  by code_simp+

lemma quest_ids_never_return_witness:
  "gone 1 (au_registry (auth_run ((ex_ops @ [AComplete ex_world ex_cfg no_hooks 1 5 1000]) @ ex_ops) auth_init))"
  by (rule conjunct1 [OF quest_ids_never_return [OF ex_paid]])

lemma ex_swept:
  "reg_instances (au_registry (fold (\<lambda>w s. RunDynamicQuestMaintenance w ex_cfg 1000 s) (replicate 4 ex_world)
     (auth_run [ACreate ex_world ex_cfg ex_proposal 1000] auth_init))) \<noteq> []"
  "cfg_ScanMaxPerPass ex_cfg \<noteq> 0"
  "2 * length (rg_quests (au_registry (auth_run [ACreate ex_world ex_cfg ex_proposal 1000] auth_init))) + 2
     \<le> length (replicate 4 ex_world)"
  by code_simp+

lemma maintenance_clears_expired_witness:
  "\<exists>x. x \<in> set (reg_instances (au_registry (fold (\<lambda>w s. RunDynamicQuestMaintenance w ex_cfg 1000 s) (replicate 4 ex_world)
      (auth_run [ACreate ex_world ex_cfg ex_proposal 1000] auth_init)))) \<and>
    (1000 < qi_ExpiresAtMs x \<or> qi_State x \<in> {Completed, Failed, Expired})"
  using maintenance_clears_expired [OF ex_swept(2,3) hd_in_set [OF ex_swept(1)]] hd_in_set [OF ex_swept(1)] by blast

definition ex_dropped :: QuestAuthority where
  "ex_dropped = (auth_run (take 2 ex_ops @ [ACreate ex_world ex_cfg ex_proposal 1000]) auth_init)
     \<lparr>au_killEventBus := \<lparr>kb_nextEventId = 9, kb_droppedEvents = 1, kb_pending = []\<rparr>\<rparr>"

lemma ex_contained:
  "au_lastObservedKillDropCount ex_dropped < kb_droppedEvents (au_killEventBus ex_dropped)"
  "reg_instances (au_registry (ReclaimDynamicQuestsAfterKillCreditLoss ex_world ex_dropped)) \<noteq> []"
  by code_simp+


lemma registry_capacity_respected_witness:
  "length (rg_quests (au_registry (auth_run ex_ops auth_init))) \<le> 10"
  using registry_capacity_respected [of ex_ops ex_cfg] by (simp add: ex_ops_def ex_cfg_def)

end
