(* ===== verification/Float_Arith.thy ===== *)
theory Float_Arith
  imports AIW_Prelude "HOL-Library.Log_Nat" "HOL-Library.Product_Lexorder"
begin

text \<open>
  IEEE binary32 and binary64 arithmetic as C++ performs it on a target with SSE: every operation is the exact
  result rounded to the nearest representable value, ties to even, and to an infinity on overflow.
  The two zeros are one value (nothing in the modelled code distinguishes them), and NaN payloads
  are not represented.
\<close>

section \<open>Rounding\<close>

definition round_even :: "rat \<Rightarrow> int" where
  "round_even x =
     (let f = \<lfloor>x\<rfloor>; r = x - of_int f in
      if r < 1 / 2 then f else if 1 / 2 < r then f + 1 else if even f then f else f + 1)"

text \<open>\<open>2 ^ k\<close> for any integer \<open>k\<close>, and the position of the leading bit of a positive rational.\<close>

definition pow2 :: "int \<Rightarrow> rat" where
  "pow2 k = (if k \<ge> 0 then 2 ^ nat k else 1 / 2 ^ nat (- k))"

definition leading :: "rat \<Rightarrow> int" where
  "leading q = (case quotient_of q of (n, d) \<Rightarrow>
     let e = bitlen n - bitlen d in if pow2 e \<le> q then e else e - 1)"

text \<open>The two formats of the code: digits of the significand, lowest last place, overflow threshold.\<close>

datatype float_format = Binary32 | Binary64

fun digits :: "float_format \<Rightarrow> int" where
  "digits Binary32 = 24"
| "digits Binary64 = 53"

fun lowest_place :: "float_format \<Rightarrow> int" where
  "lowest_place Binary32 = - 149"
| "lowest_place Binary64 = - 1074"

fun overflow_place :: "float_format \<Rightarrow> int" where
  "overflow_place Binary32 = 128"
| "overflow_place Binary64 = 1024"

text \<open>The exponent of the last place of the representable values next to \<open>q\<close>.\<close>

definition last_place :: "float_format \<Rightarrow> rat \<Rightarrow> int" where
  "last_place f q = (if q = 0 then lowest_place f else max (leading \<bar>q\<bar> - digits f + 1) (lowest_place f))"

definition nearest :: "float_format \<Rightarrow> rat \<Rightarrow> rat" where
  "nearest f q = of_int (round_even (q / pow2 (last_place f q))) * pow2 (last_place f q)"

definition round_to :: "float_format \<Rightarrow> rat \<Rightarrow> flt" where
  "round_to f q = (let v = nearest f q in
     if v \<ge> pow2 (overflow_place f) then PosInf else if v \<le> - pow2 (overflow_place f) then NegInf else Fin v)"

abbreviation rnd32 :: "rat \<Rightarrow> flt" where
  "rnd32 \<equiv> round_to Binary32"

section \<open>Operations\<close>

fun flt_neg :: "flt \<Rightarrow> flt" where
  "flt_neg (Fin a) = Fin (- a)"
| "flt_neg PosInf = NegInf"
| "flt_neg NegInf = PosInf"
| "flt_neg NaN = NaN"

fun add_in :: "float_format \<Rightarrow> flt \<Rightarrow> flt \<Rightarrow> flt" where
  "add_in f (Fin a) (Fin b) = round_to f (a + b)"
| "add_in f NaN _ = NaN"
| "add_in f _ NaN = NaN"
| "add_in f PosInf NegInf = NaN"
| "add_in f NegInf PosInf = NaN"
| "add_in f PosInf _ = PosInf"
| "add_in f _ PosInf = PosInf"
| "add_in f NegInf _ = NegInf"
| "add_in f _ NegInf = NegInf"

definition sub_in :: "float_format \<Rightarrow> flt \<Rightarrow> flt \<Rightarrow> flt" where
  "sub_in f a b = add_in f a (flt_neg b)"

text \<open>The sign of a value that is not NaN: -1, 0 or 1.\<close>

fun flt_sgn :: "flt \<Rightarrow> rat" where
  "flt_sgn (Fin a) = sgn a"
| "flt_sgn PosInf = 1"
| "flt_sgn NegInf = - 1"
| "flt_sgn NaN = 0"

definition flt_inf :: "rat \<Rightarrow> flt" where
  "flt_inf s = (if s > 0 then PosInf else if s < 0 then NegInf else NaN)"

fun mul_in :: "float_format \<Rightarrow> flt \<Rightarrow> flt \<Rightarrow> flt" where
  "mul_in f (Fin a) (Fin b) = round_to f (a * b)"
| "mul_in f NaN _ = NaN"
| "mul_in f _ NaN = NaN"
| "mul_in f a b = flt_inf (flt_sgn a * flt_sgn b)"

text \<open>Division; the code divides by positive values only, so a zero divisor is the positive zero.\<close>

fun div_in :: "float_format \<Rightarrow> flt \<Rightarrow> flt \<Rightarrow> flt" where
  "div_in f (Fin a) (Fin b) = (if b = 0 then flt_inf (sgn a) else round_to f (a / b))"
| "div_in f NaN _ = NaN"
| "div_in f _ NaN = NaN"
| "div_in f (Fin a) _ = Fin 0"
| "div_in f a (Fin b) = flt_inf (flt_sgn a * (if b < 0 then - 1 else 1))"
| "div_in f _ _ = NaN"

text \<open>
  The square root: its significant digits are found bit by bit as the integer part of the root of
  the scaled argument, then rounded by comparing with the square of the midpoint.
\<close>

fun root_digits :: "nat \<Rightarrow> int \<Rightarrow> int \<Rightarrow> int" where
  "root_digits 0 x r = r"
| "root_digits (Suc b) x r = root_digits b x (let r' = r + 2 ^ b in if r' * r' \<le> x then r' else r)"

fun sqrt_in :: "float_format \<Rightarrow> flt \<Rightarrow> flt" where
  "sqrt_in f (Fin a) =
     (if a = 0 then Fin 0 else if a < 0 then NaN
      else let k = leading a div 2 - digits f + 1;
               x = a / pow2 (2 * k);
               r = root_digits (nat (digits f)) \<lfloor>x\<rfloor> 0;
               mid = (of_int r + 1 / 2) ^ 2
           in Fin (of_int (if mid < x \<or> mid = x \<and> odd r then r + 1 else r) * pow2 k))"
| "sqrt_in f PosInf = PosInf"
| "sqrt_in f _ = NaN"

abbreviation "flt_add \<equiv> add_in Binary32"
abbreviation "flt_sub \<equiv> sub_in Binary32"
abbreviation "flt_mul \<equiv> mul_in Binary32"
abbreviation "flt_div \<equiv> div_in Binary32"
abbreviation "flt_sqrt \<equiv> sqrt_in Binary32"
abbreviation "dbl_add \<equiv> add_in Binary64"
abbreviation "dbl_sub \<equiv> sub_in Binary64"
abbreviation "dbl_mul \<equiv> mul_in Binary64"
abbreviation "dbl_div \<equiv> div_in Binary64"

text \<open>Conversions: of an unsigned integer, and between the formats.\<close>

definition of_word_in :: "float_format \<Rightarrow> 'a::len word \<Rightarrow> flt" where
  "of_word_in f n = round_to f (of_nat (unat n))"

fun convert_to :: "float_format \<Rightarrow> flt \<Rightarrow> flt" where
  "convert_to f (Fin a) = round_to f a"
| "convert_to f x = x"

definition flt_clamp :: "flt \<Rightarrow> flt \<Rightarrow> flt \<Rightarrow> flt" where
  "flt_clamp v lo hi = (if flt_lt v lo then lo else if flt_lt hi v then hi else v)"

section \<open>Rounding is monotone and keeps representable values\<close>

lemma round_even_of_int [simp]: "round_even (of_int n) = n"
  by (simp add: round_even_def)

lemma round_even_mono: "x \<le> y \<Longrightarrow> round_even x \<le> round_even y"
proof -
  assume xy: "x \<le> y"
  have f: "\<lfloor>x\<rfloor> \<le> \<lfloor>y\<rfloor>" using xy by (rule floor_mono)
  have bounds: "\<lfloor>z\<rfloor> \<le> round_even z \<and> round_even z \<le> \<lfloor>z\<rfloor> + 1" for z by (simp add: round_even_def Let_def)
  show ?thesis
  proof (cases "\<lfloor>x\<rfloor> = \<lfloor>y\<rfloor>")
    case True
    then show ?thesis using xy by (auto simp: round_even_def Let_def)
  next
    case False
    then have "\<lfloor>x\<rfloor> + 1 \<le> \<lfloor>y\<rfloor>" using f by simp
    then show ?thesis using bounds [of x] bounds [of y] by linarith
  qed
qed

lemma round_even_minus: "round_even (- x) = - round_even x"
proof (cases "x = of_int \<lfloor>x\<rfloor>")
  case True
  then show ?thesis by (metis of_int_minus round_even_of_int)
next
  case False
  have "of_int \<lfloor>x\<rfloor> < x" "x < of_int \<lfloor>x\<rfloor> + 1" using False of_int_floor_le [of x] by linarith+
  then have "\<lfloor>- x\<rfloor> = - \<lfloor>x\<rfloor> - 1" by (intro floor_unique) auto
  then show ?thesis unfolding round_even_def Let_def \<open>\<lfloor>- x\<rfloor> = - \<lfloor>x\<rfloor> - 1\<close> by (auto simp: field_simps)
qed

lemma pow2_pos [simp]: "pow2 k > 0"
  by (simp add: pow2_def)

lemma pow2_powi: "pow2 k = 2 powi k"
  by (simp add: pow2_def power_int_def field_simps)

lemma pow2_add: "pow2 (j + k) = pow2 j * pow2 k"
  by (simp add: pow2_powi power_int_add)

lemma pow2_less: "pow2 j < pow2 k \<longleftrightarrow> j < k"
proof -
  have up: "pow2 a < pow2 b" if "a < b" for a b
  proof -
    have "pow2 b = pow2 a * pow2 (b - a)" using pow2_add [of a "b - a"] by simp
    moreover have "pow2 (b - a) > 1" using that by (simp add: pow2_def one_less_power)
    ultimately show ?thesis by simp
  qed
  show ?thesis using up [of j k] up [of k j] by (metis less_asym linorder_cases order_less_irrefl)
qed

lemma pow2_le: "pow2 j \<le> pow2 k \<longleftrightarrow> j \<le> k"
  using pow2_less [of k j] by (simp add: not_less [symmetric])

lemma pow2_int: "k \<ge> 0 \<Longrightarrow> pow2 k = of_int (2 ^ nat k)"
  by (simp add: pow2_def)

lemma pow2_bitlen: "n > 0 \<Longrightarrow> pow2 (bitlen n - 1) \<le> of_int n \<and> of_int n < pow2 (bitlen n)"
proof -
  assume n: "n > 0"
  have b: "bitlen n > 0" using n by (simp add: bitlen_nonneg less_le bitlen_eq_zero_iff)
  have "2 ^ nat (bitlen n - 1) \<le> n \<and> n < 2 ^ nat (bitlen n)" by (rule bitlen_bounds) (rule n)
  then have "of_int (2 ^ nat (bitlen n - 1)) \<le> (of_int n :: rat) \<and> (of_int n :: rat) < of_int (2 ^ nat (bitlen n))"
    by (simp only: of_int_le_iff of_int_less_iff)
  with b show ?thesis by (simp add: pow2_int)
qed

lemma leading_bounds:
  assumes "q > 0"
  shows "pow2 (leading q) \<le> q" and "q < pow2 (leading q + 1)"
proof -
  obtain n d where nd: "quotient_of q = (n, d)" by fastforce
  have d: "d > 0" and q: "q = of_int n / of_int d" using nd quotient_of_denom_pos quotient_of_div by blast+
  have n: "n > 0" using assms d unfolding q by (simp add: zero_less_divide_iff)
  let ?e = "bitlen n - bitlen d"
  note bn = pow2_bitlen [OF n] and bd = pow2_bitlen [OF d]
  have "pow2 (?e - 1) * of_int d \<le> pow2 (?e - 1) * pow2 (bitlen d)" using bd by (simp add: less_imp_le)
  also have "\<dots> = pow2 (bitlen n - 1)" by (simp add: pow2_add [symmetric])
  finally have lo: "pow2 (?e - 1) \<le> q" using bn d unfolding q by (simp add: field_simps)
  have "pow2 (?e + 1) * of_int d \<ge> pow2 (?e + 1) * pow2 (bitlen d - 1)" using bd by simp
  moreover have "pow2 (?e + 1) * pow2 (bitlen d - 1) = pow2 (bitlen n)" by (simp add: pow2_add [symmetric])
  ultimately have "of_int n < pow2 (?e + 1) * of_int d" using bn by linarith
  then have hi: "q < pow2 (?e + 1)" using d unfolding q by (simp add: pos_divide_less_eq)
  have l: "leading q = (if pow2 ?e \<le> q then ?e else ?e - 1)" by (simp add: leading_def nd Let_def)
  show "pow2 (leading q) \<le> q" and "q < pow2 (leading q + 1)" using lo hi by (auto simp: l)
qed

lemma leading_mono: "0 < a \<Longrightarrow> a \<le> b \<Longrightarrow> leading a \<le> leading b"
proof -
  assume "0 < a" "a \<le> b"
  then have "pow2 (leading a) < pow2 (leading b + 1)"
    using leading_bounds(1) [of a] leading_bounds(2) [of b] by linarith
  then show ?thesis by (simp add: pow2_less)
qed

text \<open>A multiple of the last place bounds the rounded value as it bounds the exact one.\<close>

lemma nearest_le:
  assumes "q \<le> of_int m * pow2 (last_place f q)"
  shows "nearest f q \<le> of_int m * pow2 (last_place f q)"
proof -
  have "q / pow2 (last_place f q) \<le> of_int m" using assms by (simp add: field_simps)
  from round_even_mono [OF this] show ?thesis by (simp add: nearest_def)
qed

lemma nearest_ge:
  assumes "of_int m * pow2 (last_place f q) \<le> q"
  shows "of_int m * pow2 (last_place f q) \<le> nearest f q"
proof -
  have "of_int m \<le> q / pow2 (last_place f q)" using assms by (simp add: field_simps)
  from round_even_mono [OF this] show ?thesis by (simp add: nearest_def)
qed

lemma pow2_multiple: "k \<le> j \<Longrightarrow> pow2 j = of_int (2 ^ nat (j - k)) * pow2 k"
  using pow2_add [of "j - k" k] pow2_int [of "j - k"] by simp

lemma last_place_pos: "0 < q \<Longrightarrow> last_place f q = max (leading q - digits f + 1) (lowest_place f)"
  by (simp add: last_place_def)

lemma digits_pos: "digits f \<ge> 24"
  by (cases f) simp_all

lemma nearest_mono_pos:
  assumes "0 < a" and "a \<le> b"
  shows "nearest f a \<le> nearest f b"
proof (cases "last_place f a = last_place f b")
  case True
  have "a / pow2 (last_place f b) \<le> b / pow2 (last_place f b)" using assms(2) pow2_pos [of "last_place f b"] by (intro divide_right_mono) (simp_all add: less_imp_le)
  then show ?thesis using round_even_mono True by (simp add: nearest_def)
next
  case False
  have b: "0 < b" using assms by simp
  have le: "leading a \<le> leading b" by (rule leading_mono [OF assms])
  have pl: "last_place f a = max (leading a - digits f + 1) (lowest_place f)" "last_place f b = max (leading b - digits f + 1) (lowest_place f)"
    using last_place_pos [OF assms(1)] last_place_pos [OF b] by simp_all
  with False le digits_pos [of f] have lt: "last_place f b = leading b - digits f + 1" "leading a < leading b" "last_place f a \<le> leading b" by (auto simp: max_def split: if_splits)
  have "pow2 (leading a + 1) \<le> pow2 (leading b)" using lt(2) by (simp add: pow2_le)
  then have "a \<le> pow2 (leading b)" using leading_bounds(2) [OF assms(1)] by linarith
  then have "a \<le> of_int (2 ^ nat (leading b - last_place f a)) * pow2 (last_place f a)"
    using pow2_multiple [OF lt(3)] by simp
  then have "nearest f a \<le> pow2 (leading b)" using nearest_le pow2_multiple [OF lt(3)] by metis
  moreover have "last_place f b \<le> leading b" using lt digits_pos [of f] by simp
  then have "pow2 (leading b) \<le> nearest f b"
    using nearest_ge leading_bounds(1) [OF b] pow2_multiple by metis
  ultimately show ?thesis by simp
qed

lemma nearest_minus: "nearest f (- q) = - nearest f q"
  by (simp add: nearest_def last_place_def round_even_minus)

lemma nearest_0 [simp]: "nearest f 0 = 0"
  by (simp add: nearest_def round_even_def)

lemma nearest_nonneg: "0 \<le> q \<Longrightarrow> 0 \<le> nearest f q"
  using nearest_ge [of 0 f q] by simp

lemma nearest_mono:
  assumes "a \<le> b"
  shows "nearest f a \<le> nearest f b"
proof -
  consider "0 < a" | "a \<le> 0" "0 \<le> b" | "b < 0" using assms by linarith
  then show ?thesis
  proof cases
    case 1
    then show ?thesis using nearest_mono_pos assms by blast
  next
    case 2
    then have "0 \<le> nearest f b" "0 \<le> nearest f (- a)" by (simp_all add: nearest_nonneg)
    then show ?thesis by (simp add: nearest_minus)
  next
    case 3
    then have "nearest f (- b) \<le> nearest f (- a)" using assms by (intro nearest_mono_pos) simp_all
    then show ?thesis by (simp add: nearest_minus)
  qed
qed

lemma round_to_mono: "a \<le> b \<Longrightarrow> flt_le (round_to f a) (round_to f b)"
  using nearest_mono [of a b f] pow2_pos [of "overflow_place f"] by (auto simp: round_to_def Let_def flt_le_def)

text \<open>A multiple of a last place with few enough digits is representable, and so is every rounded value.\<close>

lemma nearest_multiple: "q = of_int m * pow2 (last_place f q) \<Longrightarrow> nearest f q = q"
  using nearest_le [of q m f] nearest_ge [of m f q] by simp

definition max_digits :: "float_format \<Rightarrow> int" where
  "max_digits f = 2 ^ nat (digits f)"

lemma pow2_digits: "pow2 (digits f) = of_int (max_digits f)"
  by (cases f) (simp_all add: pow2_def max_digits_def)

lemma nearest_exact_pos:
  assumes "0 < m" and "m \<le> max_digits f" and "k \<ge> lowest_place f"
  shows "nearest f (of_int m * pow2 k) = of_int m * pow2 k"
proof -
  let ?q = "of_int m * pow2 k"
  have q: "?q > 0" using assms(1) by simp
  have "last_place f ?q \<le> k \<or> m = max_digits f \<and> last_place f ?q \<le> digits f + k"
  proof (cases "m = max_digits f")
    case True
    then have "?q = pow2 (digits f + k)" by (simp add: pow2_add pow2_digits)
    then have "pow2 (leading ?q) \<le> pow2 (digits f + k)" using leading_bounds(1) [OF q] by simp
    then have "leading ?q \<le> digits f + k" by (simp add: pow2_le)
    then show ?thesis using True assms(3) last_place_pos [OF q] digits_pos [of f] by simp
  next
    case False
    then have "(of_int m :: rat) < of_int (max_digits f)" using assms(2) by (simp only: of_int_less_iff)
    then have "?q < pow2 (digits f + k)" by (simp add: pow2_add pow2_digits)
    then have "pow2 (leading ?q) < pow2 (digits f + k)" using leading_bounds(1) [OF q] by linarith
    then show ?thesis using assms(3) last_place_pos [OF q] by (simp add: pow2_less)
  qed
  then show ?thesis
  proof
    assume "last_place f ?q \<le> k"
    from pow2_multiple [OF this] have "?q = of_int (m * 2 ^ nat (k - last_place f ?q)) * pow2 (last_place f ?q)" by simp
    then show ?thesis by (rule nearest_multiple)
  next
    assume m: "m = max_digits f \<and> last_place f ?q \<le> digits f + k"
    then have "?q = pow2 (digits f + k)" by (simp add: pow2_add pow2_digits)
    also have "\<dots> = of_int (2 ^ nat (digits f + k - last_place f ?q)) * pow2 (last_place f ?q)"
      by (rule pow2_multiple) (rule m [THEN conjunct2])
    finally show ?thesis by (rule nearest_multiple)
  qed
qed

lemma nearest_exact:
  assumes "\<bar>m\<bar> \<le> max_digits f" and "k \<ge> lowest_place f"
  shows "nearest f (of_int m * pow2 k) = of_int m * pow2 k"
proof -
  consider "m = 0" | "0 < m" | "0 < - m" by linarith
  then show ?thesis
  proof cases
    case 2
    then show ?thesis using assms by (intro nearest_exact_pos) simp_all
  next
    case 3
    then have "nearest f (of_int (- m) * pow2 k) = of_int (- m) * pow2 k" using assms by (intro nearest_exact_pos) simp_all
    then show ?thesis using nearest_minus [of f "of_int m * pow2 k"] by simp
  qed simp
qed

lemma nearest_digits: "\<bar>round_even (q / pow2 (last_place f q))\<bar> \<le> max_digits f"
proof -
  have pos: "round_even (a / pow2 (last_place f a)) \<le> max_digits f \<and> 0 \<le> round_even (a / pow2 (last_place f a))" if "0 \<le> a" for a
  proof (cases "a = 0")
    case False
    with that have a: "0 < a" by simp
    have "pow2 (leading a + 1) \<le> pow2 (digits f + last_place f a)" using last_place_pos [OF a, of f] by (simp add: pow2_le)
    then have "a \<le> pow2 (digits f) * pow2 (last_place f a)" using leading_bounds(2) [OF a] by (simp add: pow2_add)
    then have "a / pow2 (last_place f a) \<le> of_int (max_digits f)" by (simp add: pos_divide_le_eq pow2_digits)
    from round_even_mono [OF this] have "round_even (a / pow2 (last_place f a)) \<le> max_digits f" by (simp only: round_even_of_int)
    moreover have "of_int 0 \<le> a / pow2 (last_place f a)" using a by (simp add: less_imp_le)
    from round_even_mono [OF this] have "0 \<le> round_even (a / pow2 (last_place f a))" by (simp only: round_even_of_int)
    ultimately show ?thesis by blast
  qed (simp add: round_even_def max_digits_def)
  show ?thesis
  proof (cases "0 \<le> q")
    case False
    then show ?thesis using pos [of "- q"] by (simp add: round_even_minus last_place_def)
  qed (use pos in force)
qed

lemma last_place_ge: "lowest_place f \<le> last_place f q"
  by (simp add: last_place_def)

lemma nearest_idem: "nearest f (nearest f q) = nearest f q"
  unfolding nearest_def [of f q] by (rule nearest_exact [OF nearest_digits last_place_ge])

lemma round_to_Fin: "round_to f q = Fin v \<Longrightarrow> v = nearest f q \<and> round_to f v = Fin v"
  by (auto simp: round_to_def Let_def nearest_idem split: if_splits)

text \<open>The values a variable of a format can hold.\<close>

definition is_in :: "float_format \<Rightarrow> flt \<Rightarrow> bool" where
  "is_in f x = (case x of Fin q \<Rightarrow> round_to f q = Fin q | _ \<Rightarrow> True)"

lemma is_in_round [intro, simp]: "is_in f (round_to f q)"
  using round_to_Fin [of f q] by (cases "round_to f q") (auto simp: is_in_def)

lemma round_to_exact:
  assumes "\<bar>m\<bar> \<le> max_digits f" and "lowest_place f \<le> k" and "k \<le> 100"
  shows "round_to f (of_int m * pow2 k) = Fin (of_int m * pow2 k)"
proof -
  have "\<bar>of_int m * pow2 k\<bar> \<le> of_int (max_digits f) * pow2 k"
    using assms(1) of_int_le_iff [of "\<bar>m\<bar>" "max_digits f", where ?'a = rat]
    by (simp add: abs_mult abs_of_pos [OF pow2_pos])
  also have "\<dots> < pow2 (overflow_place f)"
    using assms(3) by (cases f) (simp_all add: pow2_digits [symmetric] pow2_add [symmetric] pow2_less)
  finally show ?thesis using nearest_exact [OF assms(1,2)] by (auto simp: round_to_def Let_def)
qed

lemma round_to_int:
  assumes "\<bar>m\<bar> \<le> 16777216"
  shows "round_to f (of_int m) = Fin (of_int m)"
proof -
  have "\<bar>m\<bar> \<le> max_digits f" using assms by (cases f) (simp_all add: max_digits_def)
  moreover have "lowest_place f \<le> 0" by (cases f) simp_all
  ultimately show ?thesis using round_to_exact [of m f 0] by (simp add: pow2_def)
qed

text \<open>Integers of up to 24 bits are exact, so arithmetic on them evaluates by \<open>simp\<close>.\<close>

lemma round_to_numeral [simp]: "numeral n \<le> (16777216 :: int) \<Longrightarrow> round_to f (numeral n) = Fin (numeral n)"
  using round_to_int [of "numeral n" f] by simp

lemma round_to_neg_numeral [simp]: "numeral n \<le> (16777216 :: int) \<Longrightarrow> round_to f (- numeral n) = Fin (- numeral n)"
  using round_to_int [of "- numeral n" f] by simp

lemma round_to_0 [simp]: "round_to f 0 = Fin 0"
  using round_to_exact [of 0 f 0] by (cases f) (simp_all add: max_digits_def)

lemma round_to_1 [simp]: "round_to f 1 = Fin 1"
  using round_to_int [of 1 f] by simp

lemma round_to_neg_1 [simp]: "round_to f (- 1) = Fin (- 1)"
  using round_to_int [of "- 1" f] by simp

lemma is_in_inf: "is_in f (flt_inf s)"
  by (simp add: is_in_def flt_inf_def)

lemma is_in_add: "is_in f (add_in f a b)"
  by (cases "(f, a, b)" rule: add_in.cases) (simp_all, simp_all add: is_in_def)

lemma is_in_mul: "is_in f (mul_in f a b)"
  by (cases "(f, a, b)" rule: mul_in.cases) (simp_all add: is_in_inf, simp_all add: is_in_def)

text \<open>Values that are neither negative nor NaN; an infinity is possible.\<close>

definition nonneg :: "flt \<Rightarrow> bool" where
  "nonneg x \<longleftrightarrow> flt_le (Fin 0) x"

lemma nonneg_simps [simp]: "nonneg (Fin q) \<longleftrightarrow> 0 \<le> q" "nonneg PosInf" "\<not> nonneg NegInf" "\<not> nonneg NaN"
  by (auto simp: nonneg_def flt_le_def)

lemma nonneg_cases: "nonneg x \<Longrightarrow> x = PosInf \<or> (\<exists>q. x = Fin q \<and> 0 \<le> q)"
  by (cases x) simp_all

lemma round_nonneg: "0 \<le> q \<Longrightarrow> nonneg (round_to f q)"
  using round_to_mono [of 0 q f] nearest_0 [of f] pow2_pos [of "overflow_place f"]
  by (simp add: nonneg_def round_to_def [of f 0] Let_def)

lemma round_not_NaN [simp]: "round_to f q \<noteq> NaN"
  by (simp add: round_to_def Let_def)

lemma square_nonneg: "a \<noteq> NaN \<Longrightarrow> nonneg (mul_in f a a)"
  by (cases a) (simp_all add: round_nonneg flt_inf_def)

lemma add_nonneg: "nonneg a \<Longrightarrow> nonneg b \<Longrightarrow> nonneg (add_in f a b)"
  using nonneg_cases [of a] nonneg_cases [of b] by (auto simp: round_nonneg)

lemma sub_finite: "isfinite a \<Longrightarrow> isfinite b \<Longrightarrow> sub_in f a b \<noteq> NaN"
  by (auto simp: isfinite_iff sub_in_def)

text \<open>A sort key that orders floats like \<open><\<close>; NaN comes last.\<close>

fun flt_key :: "flt \<Rightarrow> int \<times> rat" where
  "flt_key NegInf = (- 1, 0)"
| "flt_key (Fin q) = (0, q)"
| "flt_key PosInf = (1, 0)"
| "flt_key NaN = (2, 0)"

lemma flt_key_less: "a \<noteq> NaN \<Longrightarrow> b \<noteq> NaN \<Longrightarrow> flt_key a < flt_key b \<longleftrightarrow> flt_lt a b"
  by (cases a; cases b) simp_all

lemma flt_key_eq: "a \<noteq> NaN \<Longrightarrow> b \<noteq> NaN \<Longrightarrow> flt_key a = flt_key b \<longleftrightarrow> flt_eq a b"
  by (cases a; cases b) simp_all

lemma clamp_range:
  "\<lbrakk>flt_le lo hi; v \<noteq> NaN; lo = Fin l; hi = Fin h\<rbrakk> \<Longrightarrow> \<exists>q. flt_clamp v lo hi = Fin q \<and> l \<le> q \<and> q \<le> h"
  by (cases v) (auto simp: flt_clamp_def)

text \<open>Known values: \<open>0.1f\<close>, and the first value that overflows beside the last that does not.\<close>

lemma rnd32_tenth: "rnd32 (1 / 10) = Fin (13421773 / 134217728)"
  by code_simp

lemma rnd32_overflow: "rnd32 (2 ^ 128 - 2 ^ 103) = PosInf" "rnd32 (2 ^ 128 - 2 ^ 103 - 1) = Fin (2 ^ 128 - 2 ^ 104)"
  by code_simp+

lemma sqrt_2: "flt_sqrt (Fin 2) = Fin (11863283 / 8388608)"
  by code_simp

end
