(* ===== verification/Agent_Memory.thy ===== *)
theory Agent_Memory
  imports World_Events Float_Arith
begin

text \<open>
  What an agent remembers: the value types of \<open>Perception/Observation.h\<close> and
  \<open>Memory/MemoryRecord.h\<close>, the short-term memory (\<open>Memory/ShortTermMemory\<close>: at most 128 records
  per agent, refresh of an equivalent record, eviction of the oldest, expiry), the long-term
  memory (\<open>Memory/LongTermMemory\<close>), the scoring of an observation
  (\<open>Memory/MemoryImportance\<close>) and the promotion step \<open>AIWorldMgr::ProcessObservation\<close>.

  The two hash maps from agent ids are ordered maps here; the only loop over one
  (\<open>Expire\<close>) treats every entry alike.
\<close>

section \<open>Observations and records\<close>

datatype ObservationType = OT_WorldEvent | OT_PlayerSeen | OT_CreatureSeen | OT_RaidExperience

datatype PerceptionChannel = Sight | Hearing | Rumor

datatype RaidExperienceKind =
    StockObserved | GuardEncounter | RouteBlocked | SourceEmpty | Theft | RX_Delivered | GuardPositionChecked

record RaidExperience =
  rx_Kind :: RaidExperienceKind
  rx_DepotId :: u32
  rx_RouteId :: u32
  rx_Quantity :: u32
  rx_AttemptId :: u64

definition SameRaidExperience :: "RaidExperience \<Rightarrow> RaidExperience \<Rightarrow> bool" where
  "SameRaidExperience a b = (rx_Kind a = rx_Kind b \<and> rx_DepotId a = rx_DepotId b \<and> rx_RouteId a = rx_RouteId b \<and>
     (rx_Kind a \<noteq> Theft \<and> rx_Kind a \<noteq> RX_Delivered \<or> rx_AttemptId a = rx_AttemptId b))"

record Observation =
  ob_Observer :: AgentId
  ob_Type :: ObservationType
  ob_SourceEventId :: u64
  ob_CorrelationId :: u64
  ob_SourceOccurredAtMs :: u64
  ob_ObservedAtMs :: u64
  ob_SourceEventType :: "WorldEventType option"
  ob_Location :: WorldEventLocation
  ob_Actor :: WorldEntityRef
  ob_Target :: WorldEntityRef
  ob_Channel :: PerceptionChannel
  ob_Distance :: flt
  ob_LineOfSight :: bool
  ob_Raid :: "RaidExperience option"

record MemoryRecord =
  mr_Id :: u64
  mr_Owner :: AgentId
  mr_Type :: ObservationType
  mr_Importance :: flt
  mr_SourceEventId :: u64
  mr_CorrelationId :: u64
  mr_SourceOccurredAtMs :: u64
  mr_SourceEventType :: "WorldEventType option"
  mr_FirstObservedAtMs :: u64
  mr_LastObservedAtMs :: u64
  mr_ExpiresAtMs :: u64
  mr_ObservationCount :: u32
  mr_Location :: WorldEventLocation
  mr_Actor :: WorldEntityRef
  mr_Target :: WorldEntityRef
  mr_Channel :: PerceptionChannel
  mr_LastDistance :: flt
  mr_LastLineOfSight :: bool
  mr_Raid :: "RaidExperience option"

text \<open>\<open>std::max\<close>: the first argument unless it is smaller than the second.\<close>

definition flt_max :: "flt \<Rightarrow> flt \<Rightarrow> flt" where
  "flt_max a b = (if flt_lt a b then b else a)"

section \<open>Short-term memory\<close>

record ShortTermMemory =
  stm_nextMemoryId :: u64
  stm_records :: "(u64, MemoryRecord list) omap"

definition ShortTermMemory_init :: ShortTermMemory where
  "ShortTermMemory_init = \<lparr>stm_nextMemoryId = 1, stm_records = []\<rparr>"

definition MaxEntriesPerAgent :: nat where
  "MaxEntriesPerAgent = 128"

definition SameCheckedGuardLocation :: "WorldEventLocation \<Rightarrow> WorldEventLocation \<Rightarrow> bool" where
  "SameCheckedGuardLocation a b =
     (if loc_MapId a \<noteq> loc_MapId b \<or> \<not> isfinite (loc_X a) \<or> \<not> isfinite (loc_Y a) \<or> \<not> isfinite (loc_Z a) \<or>
         \<not> isfinite (loc_X b) \<or> \<not> isfinite (loc_Y b) \<or> \<not> isfinite (loc_Z b)
      then False
      else let dx = dbl_sub (convert_to Binary64 (loc_X a)) (convert_to Binary64 (loc_X b));
               dy = dbl_sub (convert_to Binary64 (loc_Y a)) (convert_to Binary64 (loc_Y b));
               dz = dbl_sub (convert_to Binary64 (loc_Z a)) (convert_to Binary64 (loc_Z b))
           in flt_le (dbl_add (dbl_add (dbl_mul dx dx) (dbl_mul dy dy)) (dbl_mul dz dz)) (Fin 1))"

definition SameRaidMemory :: "MemoryRecord \<Rightarrow> Observation \<Rightarrow> bool" where
  "SameRaidMemory r ob =
     (case (mr_Raid r, ob_Raid ob) of
        (Some a, Some b) \<Rightarrow>
          SameRaidExperience a b \<and> loc_MapId (mr_Location r) = loc_MapId (ob_Location ob) \<and>
          (rx_Kind b \<noteq> GuardEncounter \<and> rx_Kind b \<noteq> GuardPositionChecked \<or>
             ref_SpawnId (mr_Target r) = ref_SpawnId (ob_Target ob)) \<and>
          (rx_Kind b \<noteq> GuardPositionChecked \<or>
             ref_SpawnId (ob_Target ob) \<noteq> 0 \<and> SameCheckedGuardLocation (mr_Location r) (ob_Location ob))
      | _ \<Rightarrow> False)"

definition Equivalent :: "MemoryRecord \<Rightarrow> Observation \<Rightarrow> bool" where
  "Equivalent r ob = (mr_Type r = ob_Type ob \<and>
     (case ob_Type ob of
        OT_RaidExperience \<Rightarrow> SameRaidMemory r ob
      | OT_WorldEvent \<Rightarrow> mr_SourceEventId r = ob_SourceEventId ob
      | OT_PlayerSeen \<Rightarrow> ref_Guid (mr_Target r) = ref_Guid (ob_Target ob)
      | OT_CreatureSeen \<Rightarrow>
          if ref_Agent (ob_Target ob) \<noteq> 0 then ref_Agent (mr_Target r) = ref_Agent (ob_Target ob)
          else if ref_SpawnId (ob_Target ob) \<noteq> 0
            then loc_MapId (mr_Location r) = loc_MapId (ob_Location ob) \<and>
              ref_SpawnId (mr_Target r) = ref_SpawnId (ob_Target ob)
          else ref_Guid (mr_Target r) = ref_Guid (ob_Target ob)))"

text \<open>The pointer \<open>FindEquivalent\<close> returns is the index of the record.\<close>

fun FindEquivalent :: "MemoryRecord list \<Rightarrow> Observation \<Rightarrow> nat option" where
  "FindEquivalent [] ob = None"
| "FindEquivalent (r # rs) ob =
     (if Equivalent r ob then Some 0 else map_option Suc (FindEquivalent rs ob))"

datatype RememberResult = Added | Refreshed

definition Refresh :: "Observation \<Rightarrow> u64 \<Rightarrow> flt \<Rightarrow> MemoryRecord \<Rightarrow> MemoryRecord" where
  "Refresh ob expiresAt importance r = r\<lparr>
     mr_LastObservedAtMs := ob_ObservedAtMs ob,
     mr_ExpiresAtMs := expiresAt,
     mr_ObservationCount := mr_ObservationCount r + 1,
     mr_Importance := flt_max (mr_Importance r) importance,
     mr_Location := ob_Location ob,
     mr_Actor := ob_Actor ob,
     mr_Target := ob_Target ob,
     mr_LastDistance := ob_Distance ob,
     mr_LastLineOfSight := ob_LineOfSight ob,
     mr_Raid := ob_Raid ob\<rparr>"

definition NewMemory :: "u64 \<Rightarrow> Observation \<Rightarrow> u64 \<Rightarrow> flt \<Rightarrow> MemoryRecord" where
  "NewMemory i ob expiresAt importance = \<lparr>
     mr_Id = i, mr_Owner = ob_Observer ob, mr_Type = ob_Type ob, mr_Importance = importance,
     mr_SourceEventId = ob_SourceEventId ob, mr_CorrelationId = ob_CorrelationId ob,
     mr_SourceOccurredAtMs = ob_SourceOccurredAtMs ob, mr_SourceEventType = ob_SourceEventType ob,
     mr_FirstObservedAtMs = ob_ObservedAtMs ob, mr_LastObservedAtMs = ob_ObservedAtMs ob,
     mr_ExpiresAtMs = expiresAt, mr_ObservationCount = 1,
     mr_Location = ob_Location ob, mr_Actor = ob_Actor ob, mr_Target = ob_Target ob,
     mr_Channel = ob_Channel ob, mr_LastDistance = ob_Distance ob,
     mr_LastLineOfSight = ob_LineOfSight ob, mr_Raid = ob_Raid ob\<rparr>"

definition STM_GetForAgent :: "AgentId \<Rightarrow> ShortTermMemory \<Rightarrow> MemoryRecord list" where
  "STM_GetForAgent a m = (case om_find (stm_records m) a of None \<Rightarrow> [] | Some rs \<Rightarrow> rs)"

definition STM_Remember :: "Observation \<Rightarrow> u64 \<Rightarrow> flt \<Rightarrow> ShortTermMemory \<Rightarrow> RememberResult \<times> ShortTermMemory" where
  "STM_Remember ob ttlMs importance m =
     (let a = ob_Observer ob;
          records = STM_GetForAgent a m;
          expiresAt = ob_ObservedAtMs ob + ttlMs in
      case FindEquivalent records ob of
        Some i \<Rightarrow> (Refreshed, m\<lparr>stm_records :=
          om_put a (records[i := Refresh ob expiresAt importance (records ! i)]) (stm_records m)\<rparr>)
      | None \<Rightarrow>
          let records1 = (if MaxEntriesPerAgent \<le> length records
                          then erase_at (min_element mr_LastObservedAtMs records) records else records)
          in (Added, \<lparr>stm_nextMemoryId = stm_nextMemoryId m + 1,
               stm_records = om_put a (records1 @ [NewMemory (stm_nextMemoryId m) ob expiresAt importance])
                 (stm_records m)\<rparr>))"

definition STM_Expire :: "u64 \<Rightarrow> ShortTermMemory \<Rightarrow> ShortTermMemory" where
  "STM_Expire nowMs m = m\<lparr>stm_records :=
     map (\<lambda>(a, rs). (a, filter (\<lambda>r. \<not> mr_ExpiresAtMs r \<le> nowMs) rs)) (stm_records m)\<rparr>"

definition STM_GetActiveForAgent :: "AgentId \<Rightarrow> u64 \<Rightarrow> ShortTermMemory \<Rightarrow> MemoryRecord list" where
  "STM_GetActiveForAgent a nowMs m =
     (case om_find (stm_records m) a of None \<Rightarrow> []
      | Some rs \<Rightarrow> filter (\<lambda>r. nowMs < mr_ExpiresAtMs r) rs)"

section \<open>Long-term memory\<close>

record LongTermMemoryRecord =
  lt_PersistentId :: u64
  lt_Owner :: AgentId
  lt_Type :: ObservationType
  lt_Importance :: flt
  lt_SourceEventId :: u64
  lt_CorrelationId :: u64
  lt_SourceOccurredAtMs :: u64
  lt_SourceEventType :: "WorldEventType option"
  lt_FirstObservedAtMs :: u64
  lt_LastObservedAtMs :: u64
  lt_ObservationCount :: u32
  lt_Location :: WorldEventLocation
  lt_Actor :: WorldEntityRef
  lt_Target :: WorldEntityRef
  lt_Channel :: PerceptionChannel

type_synonym LongTermMemory = "(u64, LongTermMemoryRecord list) omap"

definition LTM_Equivalent :: "LongTermMemoryRecord \<Rightarrow> Observation \<Rightarrow> bool" where
  "LTM_Equivalent r ob = (lt_Type r = ob_Type ob \<and>
     (case ob_Type ob of
        OT_RaidExperience \<Rightarrow> False
      | OT_WorldEvent \<Rightarrow> lt_SourceEventId r = ob_SourceEventId ob \<and>
          lt_SourceOccurredAtMs r = ob_SourceOccurredAtMs ob
      | OT_PlayerSeen \<Rightarrow> ref_Guid (lt_Target r) = ref_Guid (ob_Target ob)
      | OT_CreatureSeen \<Rightarrow>
          if ref_Agent (ob_Target ob) \<noteq> 0 then ref_Agent (lt_Target r) = ref_Agent (ob_Target ob)
          else if ref_SpawnId (ob_Target ob) \<noteq> 0
            then loc_MapId (lt_Location r) = loc_MapId (ob_Location ob) \<and>
              ref_SpawnId (lt_Target r) = ref_SpawnId (ob_Target ob)
          else ref_Guid (lt_Target r) = ref_Guid (ob_Target ob)))"

fun LTM_FindEquivalent :: "LongTermMemoryRecord list \<Rightarrow> Observation \<Rightarrow> nat option" where
  "LTM_FindEquivalent [] ob = None"
| "LTM_FindEquivalent (r # rs) ob =
     (if LTM_Equivalent r ob then Some 0 else map_option Suc (LTM_FindEquivalent rs ob))"

definition LTM_GetForAgent :: "AgentId \<Rightarrow> LongTermMemory \<Rightarrow> LongTermMemoryRecord list" where
  "LTM_GetForAgent a m = (case om_find m a of None \<Rightarrow> [] | Some rs \<Rightarrow> rs)"

definition NewLongTerm :: "Observation \<Rightarrow> flt \<Rightarrow> LongTermMemoryRecord" where
  "NewLongTerm ob importance = \<lparr>
     lt_PersistentId = 0, lt_Owner = ob_Observer ob, lt_Type = ob_Type ob, lt_Importance = importance,
     lt_SourceEventId = ob_SourceEventId ob, lt_CorrelationId = ob_CorrelationId ob,
     lt_SourceOccurredAtMs = ob_SourceOccurredAtMs ob, lt_SourceEventType = ob_SourceEventType ob,
     lt_FirstObservedAtMs = ob_ObservedAtMs ob, lt_LastObservedAtMs = ob_ObservedAtMs ob,
     lt_ObservationCount = 1, lt_Location = ob_Location ob, lt_Actor = ob_Actor ob,
     lt_Target = ob_Target ob, lt_Channel = ob_Channel ob\<rparr>"

definition LTM_Remember :: "Observation \<Rightarrow> flt \<Rightarrow> LongTermMemory \<Rightarrow>
    LongTermMemoryRecord option \<times> LongTermMemory" where
  "LTM_Remember ob importance m =
     (if ob_Type ob = OT_RaidExperience then (None, m)
      else let a = ob_Observer ob; records = LTM_GetForAgent a m in
      case LTM_FindEquivalent records ob of
        Some i \<Rightarrow> (None, om_put a (records[i := (records ! i)\<lparr>
            lt_LastObservedAtMs := ob_ObservedAtMs ob,
            lt_ObservationCount := lt_ObservationCount (records ! i) + 1,
            lt_Importance := flt_max (lt_Importance (records ! i)) importance,
            lt_Location := ob_Location ob,
            lt_Actor := ob_Actor ob,
            lt_Target := ob_Target ob\<rparr>]) m)
      | None \<Rightarrow> (Some (NewLongTerm ob importance), om_put a (records @ [NewLongTerm ob importance]) m))"

definition LTM_AddLoaded :: "LongTermMemoryRecord \<Rightarrow> LongTermMemory \<Rightarrow> bool \<times> LongTermMemory" where
  "LTM_AddLoaded r m =
     (if lt_PersistentId r = 0 \<or> lt_Owner r = 0 \<or> lt_Type r = OT_RaidExperience then (False, m)
      else (True, om_put (lt_Owner r) (LTM_GetForAgent (lt_Owner r) m @ [r]) m))"

record Page =
  pg_Total :: u64
  pg_Anchor :: u64
  pg_Records :: "LongTermMemoryRecord list"

text \<open>The loop over \<open>i\<close> of \<open>GetPage\<close>, newest record first.\<close>

fun GetPage_loop :: "LongTermMemoryRecord list \<Rightarrow> u64 \<Rightarrow> nat \<Rightarrow> u64 \<Rightarrow> LongTermMemoryRecord list" where
  "GetPage_loop records hi 0 i = []"
| "GetPage_loop records hi (Suc n) i = records ! unat (hi - i - 1) # GetPage_loop records hi n (i + 1)"

definition LTM_GetPage :: "AgentId \<Rightarrow> u32 \<Rightarrow> u32 \<Rightarrow> u32 \<Rightarrow> LongTermMemory \<Rightarrow> Page" where
  "LTM_GetPage a offset limit anchor m =
     (case om_find m a of
        None \<Rightarrow> \<lparr>pg_Total = 0, pg_Anchor = 0, pg_Records = []\<rparr>
      | Some records \<Rightarrow>
          let total = of_nat (length records);
              hi = (if anchor \<noteq> 0 then min (widen anchor) total else total) in
          if widen offset \<ge> hi then \<lparr>pg_Total = total, pg_Anchor = hi, pg_Records = []\<rparr>
          else let count = min (widen limit) (hi - widen offset) in
          \<lparr>pg_Total = total, pg_Anchor = hi,
           pg_Records = GetPage_loop records (hi - widen offset) (unat count) 0\<rparr>)"

section \<open>Scoring and promotion\<close>

definition MemoryImportance_Score :: "Observation \<Rightarrow> flt" where
  "MemoryImportance_Score ob =
     (if ob_Type ob = OT_PlayerSeen then rnd32 (20 / 100)
      else if ob_Type ob = OT_CreatureSeen then rnd32 (10 / 100)
      else case ob_SourceEventType ob of
        None \<Rightarrow> rnd32 (30 / 100)
      | Some t \<Rightarrow> (case t of
          NPCDied \<Rightarrow> Fin 1
        | LivestockKilled \<Rightarrow> rnd32 (90 / 100)
        | CreatureKilled \<Rightarrow> rnd32 (85 / 100)
        | ItemStolen \<Rightarrow> rnd32 (80 / 100)
        | FoodShortage \<Rightarrow> rnd32 (75 / 100)
        | NPCInjured \<Rightarrow> rnd32 (70 / 100)
        | WolfPackMoved \<Rightarrow> rnd32 (60 / 100)
        | TradeCompleted \<Rightarrow> rnd32 (40 / 100)
        | PlayerSeen \<Rightarrow> rnd32 (25 / 100)
        | _ \<Rightarrow> rnd32 (30 / 100)))"

text \<open>
  One observation of a watched agent: remembered for the configured time and, when important
  enough, promoted; the record to persist is returned. \<open>watched\<close> is the registry lookup with
  the simulation membership test.
\<close>

definition ProcessObservation :: "(AgentId \<Rightarrow> bool) \<Rightarrow>
    u32 \<Rightarrow> flt \<Rightarrow> Observation \<Rightarrow> ShortTermMemory \<times> LongTermMemory \<Rightarrow>
    LongTermMemoryRecord option \<times> ShortTermMemory \<times> LongTermMemory" where
  "ProcessObservation watched ttlMs minImportance ob st =
     (if \<not> watched (ob_Observer ob) then (None, st)
      else let importance = MemoryImportance_Score ob;
               stm = snd (STM_Remember ob (widen ttlMs) importance (fst st)) in
      if flt_le minImportance importance
      then let (r, ltm) = LTM_Remember ob importance (snd st) in (r, stm, ltm)
      else (None, stm, snd st))"

section \<open>Lemmas on the vector operations\<close>

lemma FindEquivalent_Some: "FindEquivalent rs ob = Some i \<Longrightarrow> i < length rs \<and> Equivalent (rs ! i) ob"
  by (induction rs arbitrary: i) (auto split: if_splits)

lemma FindEquivalent_None: "FindEquivalent rs ob = None \<longleftrightarrow> (\<forall>r \<in> set rs. \<not> Equivalent r ob)"
  by (induction rs) auto

section \<open>What identifies a remembered fact\<close>

text \<open>
  World events are identified by the event id, players by guid, creatures that are agents by
  agent id; the remaining facts have no identity of their own.
\<close>

datatype identity = KEvent u64 | KPlayer ObjectGuid | KAgent AgentId

fun identity_of :: "ObservationType \<Rightarrow> u64 \<Rightarrow> WorldEntityRef \<Rightarrow> identity option" where
  "identity_of OT_WorldEvent e t = Some (KEvent e)"
| "identity_of OT_PlayerSeen e t = Some (KPlayer (ref_Guid t))"
| "identity_of OT_CreatureSeen e t = (if ref_Agent t = 0 then None else Some (KAgent (ref_Agent t)))"
| "identity_of OT_RaidExperience e t = None"

abbreviation mr_identity :: "MemoryRecord \<Rightarrow> identity option" where
  "mr_identity r \<equiv> identity_of (mr_Type r) (mr_SourceEventId r) (mr_Target r)"

abbreviation ob_identity :: "Observation \<Rightarrow> identity option" where
  "ob_identity ob \<equiv> identity_of (ob_Type ob) (ob_SourceEventId ob) (ob_Target ob)"

definition identities :: "MemoryRecord list \<Rightarrow> identity list" where
  "identities rs = concat (map (\<lambda>r. case mr_identity r of None \<Rightarrow> [] | Some x \<Rightarrow> [x]) rs)"

lemma identities_simps [simp]:
  "identities [] = []"
  "identities (r # rs) = (case mr_identity r of None \<Rightarrow> [] | Some x \<Rightarrow> [x]) @ identities rs"
  "identities (rs @ rs') = identities rs @ identities rs'"
  by (simp_all add: identities_def)

lemma in_identities: "x \<in> set (identities rs) \<longleftrightarrow> (\<exists>r \<in> set rs. mr_identity r = Some x)"
  by (induction rs) (auto split: option.splits)

lemma Equivalent_identity: "ob_identity ob = Some x \<Longrightarrow> Equivalent r ob \<longleftrightarrow> mr_identity r = Some x"
  by (cases "ob_Type ob"; cases "mr_Type r") (auto simp: Equivalent_def split: if_splits)

lemma Refresh_identity:
  "Equivalent r ob \<Longrightarrow> mr_identity (Refresh ob e i r) = ob_identity ob"
  by (cases "ob_Type ob") (auto simp: Equivalent_def Refresh_def)

lemma NewMemory_identity: "mr_identity (NewMemory n ob e i) = ob_identity ob"
  by (simp add: NewMemory_def)

definition agent_records_ok :: "AgentId \<Rightarrow> MemoryRecord list \<Rightarrow> bool" where
  "agent_records_ok a rs = (length rs \<le> MaxEntriesPerAgent \<and> distinct (identities rs) \<and> (\<forall>r \<in> set rs. mr_Owner r = a))"

lemma distinct_identities_sub: "distinct (identities (ys @ r # zs)) \<Longrightarrow> distinct (identities (ys @ zs))"
  by auto

lemma erase_at_ok:
  assumes "agent_records_ok a rs" and "i < length rs"
  shows "agent_records_ok a (erase_at i rs)"
proof -
  from erase_at_split [OF assms(2)] obtain ys zs where s: "rs = ys @ rs ! i # zs" "erase_at i rs = ys @ zs" by blast
  have "distinct (identities (ys @ rs ! i # zs))" using assms(1) s(1) by (simp add: agent_records_ok_def)
  from distinct_identities_sub [OF this] show ?thesis
    using assms length_erase_at [OF assms(2)] set_erase_at [of i rs] s(2) by (auto simp: agent_records_ok_def)
qed

lemma distinct_identities_filter: "distinct (identities rs) \<Longrightarrow> distinct (identities (filter p rs))"
proof (induction rs)
  case (Cons r rs)
  have "set (identities (filter p rs)) \<subseteq> set (identities rs)" by (auto simp: in_identities)
  with Cons show ?case by (auto split: option.splits)
qed simp

lemma filter_records_ok: "agent_records_ok a rs \<Longrightarrow> agent_records_ok a (filter p rs)"
  by (simp add: agent_records_ok_def distinct_identities_filter order.trans [OF length_filter_le])

lemma refresh_ok:
  assumes ok: "agent_records_ok a rs" and i: "i < length rs" and eq: "Equivalent (rs ! i) ob"
  shows "agent_records_ok a (rs[i := Refresh ob e p (rs ! i)])"
proof -
  let ?r = "Refresh ob e p (rs ! i)"
  have own: "mr_Owner ?r = mr_Owner (rs ! i)" by (simp add: Refresh_def)
  have "distinct (identities (rs[i := ?r]))"
  proof (cases "ob_identity ob")
    case None
    have "rs[i := ?r] = take i rs @ ?r # drop (Suc i) rs" using i by (rule upd_conv_take_nth_drop)
    moreover have "distinct (identities (erase_at i rs))" using erase_at_ok [OF ok i] by (simp add: agent_records_ok_def)
    ultimately show ?thesis using Refresh_identity [OF eq] None by (simp add: erase_at_def)
  next
    case (Some x)
    have "map mr_identity (rs[i := ?r]) = map mr_identity rs"
      using Refresh_identity [OF eq] Some eq i Equivalent_identity [OF Some]
      by (simp add: list_eq_iff_nth_eq nth_list_update)
    then have "identities (rs[i := ?r]) = identities rs"
      unfolding identities_def by (metis (no_types, lifting) map_map comp_def map_eq_conv)
    then show ?thesis using ok by (simp add: agent_records_ok_def)
  qed
  then show ?thesis using ok own i by (auto simp: agent_records_ok_def dest: set_update_subset_insert [THEN subsetD])
qed

section \<open>The invariant of the short-term memory\<close>

definition stm_ok :: "ShortTermMemory \<Rightarrow> bool" where
  "stm_ok m = (om_wf (stm_records m) \<and> (\<forall>(a, rs) \<in> set (stm_records m). agent_records_ok a rs))"

datatype stm_op = SRemember Observation u64 flt | SExpire u64

fun stm_step :: "stm_op \<Rightarrow> ShortTermMemory \<Rightarrow> ShortTermMemory" where
  "stm_step (SRemember ob ttl p) m = snd (STM_Remember ob ttl p m)"
| "stm_step (SExpire now) m = STM_Expire now m"

definition stm_run :: "stm_op list \<Rightarrow> ShortTermMemory" where
  "stm_run ops = fold stm_step ops ShortTermMemory_init"

lemma agent_records_ok_Nil [simp]: "agent_records_ok a []"
  by (simp add: agent_records_ok_def)

lemma GetForAgent_ok: "stm_ok m \<Longrightarrow> agent_records_ok a (STM_GetForAgent a m)"
  by (auto simp: stm_ok_def STM_GetForAgent_def dest!: om_find_in split: option.split)

lemma stm_ok_put:
  assumes "stm_ok m" and "agent_records_ok a rs"
  shows "stm_ok \<lparr>stm_nextMemoryId = n, stm_records = om_put a rs (stm_records m)\<rparr>"
  using assms set_om_put [of a rs "stm_records m"] by (auto simp: stm_ok_def om_wf_put)

definition room_for :: "MemoryRecord list \<Rightarrow> MemoryRecord list" where
  "room_for rs = (if MaxEntriesPerAgent \<le> length rs then erase_at (min_element mr_LastObservedAtMs rs) rs else rs)"

lemma room_for_ok:
  assumes "agent_records_ok a rs"
  shows "agent_records_ok a (room_for rs)" and "length (room_for rs) < MaxEntriesPerAgent"
    and "set (room_for rs) \<subseteq> set rs"
proof -
  have i: "MaxEntriesPerAgent \<le> length rs \<Longrightarrow> min_element mr_LastObservedAtMs rs < length rs"
    by (rule min_element_less) (auto simp: MaxEntriesPerAgent_def)
  show "agent_records_ok a (room_for rs)" using assms i by (simp add: room_for_def erase_at_ok)
  show "length (room_for rs) < MaxEntriesPerAgent"
    using assms i length_erase_at [of "min_element mr_LastObservedAtMs rs" rs]
    by (auto simp: room_for_def agent_records_ok_def MaxEntriesPerAgent_def)
  show "set (room_for rs) \<subseteq> set rs" by (auto simp: room_for_def set_erase_at [THEN subsetD])
qed

lemma new_memory_ok:
  assumes "agent_records_ok a rs" and "length rs < MaxEntriesPerAgent" and "ob_Observer ob = a"
    and "\<forall>r \<in> set rs. \<not> Equivalent r ob"
  shows "agent_records_ok a (rs @ [NewMemory n ob e p])"
proof -
  have "ob_identity ob = Some x \<Longrightarrow> x \<notin> set (identities rs)" for x
    using assms(4) Equivalent_identity by (auto simp: in_identities)
  then show ?thesis
    using assms(1-3) by (auto simp: agent_records_ok_def NewMemory_identity NewMemory_def split: option.splits)
qed

lemma Remember_ok:
  assumes "stm_ok m"
  shows "stm_ok (snd (STM_Remember ob ttl p m))"
proof (cases "FindEquivalent (STM_GetForAgent (ob_Observer ob) m) ob")
  case None
  have ok: "agent_records_ok (ob_Observer ob) (STM_GetForAgent (ob_Observer ob) m)"
    by (rule GetForAgent_ok [OF assms])
  have "agent_records_ok (ob_Observer ob) (room_for (STM_GetForAgent (ob_Observer ob) m) @
      [NewMemory n ob e p])" for n e
    using new_memory_ok [OF room_for_ok(1,2) [OF ok] refl] room_for_ok(3) [OF ok] None [unfolded FindEquivalent_None]
    by blast
  then show ?thesis using stm_ok_put [OF assms] None
    by (simp add: STM_Remember_def Let_def room_for_def [symmetric])
next
  case (Some i)
  have "agent_records_ok (ob_Observer ob) ((STM_GetForAgent (ob_Observer ob) m)
      [i := Refresh ob e p (STM_GetForAgent (ob_Observer ob) m ! i)])" for e
    using refresh_ok [OF GetForAgent_ok [OF assms]] FindEquivalent_Some [OF Some] by blast
  from stm_ok_put [OF assms this, of "stm_nextMemoryId m"] show ?thesis using Some
    by (simp add: STM_Remember_def Let_def stm_ok_def)
qed

lemma Expire_memory_ok: "stm_ok m \<Longrightarrow> stm_ok (STM_Expire now m)"
  by (auto simp: stm_ok_def STM_Expire_def om_wf_map filter_records_ok)

lemma stm_run_ok: "stm_ok (stm_run ops)"
proof -
  have "stm_ok m \<Longrightarrow> stm_ok (fold stm_step ops m)" for m
  proof (induction ops arbitrary: m)
    case (Cons op ops)
    then show ?case by (cases op) (simp_all add: Remember_ok Expire_memory_ok)
  qed simp
  moreover have "stm_ok ShortTermMemory_init" by (simp add: stm_ok_def ShortTermMemory_init_def)
  ultimately show ?thesis by (simp add: stm_run_def)
qed

section \<open>What remembering keeps\<close>

lemma GetForAgent_put:
  "om_wf m \<Longrightarrow> STM_GetForAgent a \<lparr>stm_nextMemoryId = n, stm_records = om_put b rs m\<rparr> =
    (if a = b then rs else (case om_find m a of None \<Rightarrow> [] | Some rs \<Rightarrow> rs))"
  by (simp add: STM_GetForAgent_def om_find_put)

lemma Remember_records:
  assumes "om_wf (stm_records m)"
  shows "STM_GetForAgent a (snd (STM_Remember ob ttl p m)) =
    (if a \<noteq> ob_Observer ob then STM_GetForAgent a m
     else case FindEquivalent (STM_GetForAgent a m) ob of
        Some i \<Rightarrow> (STM_GetForAgent a m)[i := Refresh ob (ob_ObservedAtMs ob + ttl) p (STM_GetForAgent a m ! i)]
      | None \<Rightarrow> room_for (STM_GetForAgent a m) @ [NewMemory (stm_nextMemoryId m) ob (ob_ObservedAtMs ob + ttl) p])"
  using assms
  by (auto simp: STM_Remember_def Let_def room_for_def STM_GetForAgent_def om_find_put split: option.split)

definition recalls :: "Observation \<Rightarrow> u64 \<Rightarrow> flt \<Rightarrow> MemoryRecord \<Rightarrow> bool" where
  "recalls ob expiresAt p r = (mr_Type r = ob_Type ob \<and> mr_LastObservedAtMs r = ob_ObservedAtMs ob \<and>
     mr_ExpiresAtMs r = expiresAt \<and> mr_Target r = ob_Target ob \<and> mr_Actor r = ob_Actor ob \<and>
     mr_Location r = ob_Location ob \<and> mr_Raid r = ob_Raid ob \<and> \<not> flt_lt (mr_Importance r) p)"

lemma flt_lt_irrefl [simp]: "\<not> flt_lt a a"
  by (cases a) auto

lemma flt_max_not_less: "\<not> flt_lt (flt_max a b) b"
  by (simp add: flt_max_def)

lemma recalls_Refresh: "Equivalent r ob \<Longrightarrow> recalls ob e p (Refresh ob e p r)"
  by (simp add: recalls_def Refresh_def Equivalent_def flt_max_not_less)

lemma recalls_NewMemory: "recalls ob e p (NewMemory n ob e p)"
  by (simp add: recalls_def NewMemory_def)

lemma room_for_keeps:
  assumes "r \<in> set rs"
  shows "r \<in> set (room_for rs) \<or> (MaxEntriesPerAgent \<le> length rs \<and>
     (\<forall>r' \<in> set rs. mr_LastObservedAtMs r \<le> mr_LastObservedAtMs r'))"
proof (cases "r = rs ! min_element mr_LastObservedAtMs rs")
  case True
  with assms show ?thesis by (auto simp: room_for_def min_element_least)
next
  case False
  from assms have "min_element mr_LastObservedAtMs rs < length rs" by (intro min_element_less) auto
  from erase_at_keeps [OF assms False this] assms show ?thesis by (simp add: room_for_def)
qed

lemma update_keeps: "r \<in> set rs \<Longrightarrow> r \<noteq> rs ! i \<Longrightarrow> r \<in> set (rs[i := r'])"
  by (metis in_set_conv_nth length_list_update nth_list_update_neq)

lemma GetActive_filter: "STM_GetActiveForAgent a now m = filter (\<lambda>r. now < mr_ExpiresAtMs r) (STM_GetForAgent a m)"
  by (simp add: STM_GetActiveForAgent_def STM_GetForAgent_def split: option.split)

lemma Expire_records: "STM_GetForAgent a (STM_Expire now m) = STM_GetActiveForAgent a now m"
  by (auto simp: STM_GetForAgent_def STM_GetActiveForAgent_def STM_Expire_def om_find_map not_le split: option.split)

section \<open>Reading pages of the long-term memory\<close>

lemma GetPage_loop_nth:
  "GetPage_loop rs hi n i = map (\<lambda>j. rs ! unat (hi - (i + of_nat j) - 1)) [0..<n]"
proof (induction n arbitrary: i)
  case (Suc n)
  have "GetPage_loop rs hi (Suc n) i = rs ! unat (hi - i - 1) # map (\<lambda>j. rs ! unat (hi - (i + of_nat (Suc j)) - 1)) [0..<n]"
    by (simp add: Suc algebra_simps)
  also have "\<dots> = map (\<lambda>j. rs ! unat (hi - (i + of_nat j) - 1)) [0..<Suc n]"
    by (subst upt_rec) (simp add: map_Suc_upt [symmetric] comp_def del: upt_Suc)
  finally show ?case .
qed simp

lemma unat_of_nat_u64: "n < 2 ^ 64 \<Longrightarrow> unat (of_nat n :: u64) = n"
  by (simp add: unsigned_of_nat take_bit_nat_eq_self)

lemma unat_page_index:
  assumes "j < unat c" and "c \<le> hi"
  shows "unat (hi - of_nat j - 1 :: u64) = unat hi - j - 1"
proof -
  have j: "unat (of_nat j :: u64) = j"
    using assms(1) unat_u64_bound [of c] by (intro unat_of_nat_u64) simp
  have "Suc j \<le> unat hi" using assms by (simp add: word_le_nat_alt)
  then have s: "unat (of_nat (Suc j) :: u64) = Suc j" using unat_u64_bound [of hi] by (intro unat_of_nat_u64) simp
  have "hi - of_nat j - 1 = hi - of_nat (Suc j)" by simp
  moreover have "of_nat (Suc j) \<le> hi" using s \<open>Suc j \<le> unat hi\<close> by (simp only: word_le_nat_alt)
  ultimately show ?thesis using s by (simp only: unat_sub)
qed

lemma GetPage_slice:
  assumes "c \<le> hi" and "unat hi \<le> length rs"
  shows "GetPage_loop rs hi (unat c) 0 = take (unat c) (rev (take (unat hi) rs))"
proof (rule nth_equalityI)
  show "length (GetPage_loop rs hi (unat c) 0) = length (take (unat c) (rev (take (unat hi) rs)))"
    using assms by (simp add: GetPage_loop_nth word_le_nat_alt)
  fix j
  assume "j < length (GetPage_loop rs hi (unat c) 0)"
  then have j: "j < unat c" by (simp add: GetPage_loop_nth)
  then have "j < unat hi" using assms(1) by (simp add: word_le_nat_alt)
  with j show "GetPage_loop rs hi (unat c) 0 ! j = take (unat c) (rev (take (unat hi) rs)) ! j"
    using assms(2) unat_page_index [OF j assms(1)]
    by (simp add: GetPage_loop_nth rev_nth)
qed

lemma min_take_length: "unat (min (x :: u64) (of_nat n)) = min (unat x) n" if "n < 2 ^ 64"
  using unat_of_nat_u64 [OF that] by (simp add: min_def word_le_nat_alt)

lemma take_min_length: "length xs \<le> k \<Longrightarrow> take (min n k) xs = take n xs"
  by (simp add: min_def)

lemma page_records:
  assumes "length (LTM_GetForAgent a m) < 2 ^ 64"
  shows "pg_Records (LTM_GetPage a offset limit anchor m) = take (unat limit) (drop (unat offset)
    (rev (if anchor = 0 then LTM_GetForAgent a m else take (unat anchor) (LTM_GetForAgent a m))))"
proof (cases "om_find m a")
  case None
  then show ?thesis by (simp add: LTM_GetPage_def LTM_GetForAgent_def)
next
  case (Some rs)
  then have rs: "LTM_GetForAgent a m = rs" by (simp add: LTM_GetForAgent_def)
  define hi where "hi = (if anchor \<noteq> 0 then min (widen anchor) (of_nat (length rs)) else of_nat (length rs) :: u64)"
  have hi: "unat hi = (if anchor = 0 then length rs else min (unat anchor) (length rs))"
    using assms rs by (simp add: hi_def min_take_length unat_of_nat_u64)
  have top: "(if anchor = 0 then rs else take (unat anchor) rs) = take (unat hi) rs"
    by (simp add: hi min_def)
  show ?thesis
  proof (cases "hi \<le> widen offset")
    case True
    then have "unat hi \<le> unat offset" by (simp add: word_le_nat_alt)
    with True show ?thesis unfolding rs top using Some by (simp add: LTM_GetPage_def Let_def hi_def)
  next
    case False
    then have off: "widen offset \<le> hi" "unat offset \<le> unat hi" by (simp_all add: word_le_nat_alt)
    have le: "unat hi \<le> length rs" by (simp add: hi)
    let ?c = "min (widen limit) (hi - widen offset)"
    have d: "unat (hi - widen offset) = unat hi - unat offset" using off by (simp add: unat_sub)
    have c: "unat ?c = min (unat limit) (unat hi - unat offset)" by (simp add: min_def word_le_nat_alt d)
    have "pg_Records (LTM_GetPage a offset limit anchor m) = GetPage_loop rs (hi - widen offset) (unat ?c) 0"
      using Some False by (simp add: LTM_GetPage_def Let_def hi_def)
    also have "\<dots> = take (unat ?c) (rev (take (unat hi - unat offset) rs))"
      using GetPage_slice [of ?c "hi - widen offset" rs] d hi by simp
    also have "\<dots> = take (unat limit) (rev (take (unat hi - unat offset) rs))"
      using le by (simp add: c take_min_length)
    also have "\<dots> = take (unat limit) (drop (unat offset) (rev (take (unat hi) rs)))"
      using le by (simp add: drop_rev take_take min_def)
    finally show ?thesis unfolding rs top .
  qed
qed

lemma AddLoaded_records:
  "om_wf m \<Longrightarrow> \<exists>new. LTM_GetForAgent a (snd (LTM_AddLoaded r m)) = LTM_GetForAgent a m @ new \<and> length new \<le> 1"
  by (auto simp: LTM_AddLoaded_def LTM_GetForAgent_def om_find_put split: option.split)

section \<open>Properties\<close>

text \<open>
  C39: After any sequence of remembering and expiring, an agent holds at most 128 records, all its
  own, and no two of them are about the same world event, the same player or the same creature
  agent.
\<close>
theorem short_term_memory_bounded_unique:
  "length (STM_GetForAgent a (stm_run ops)) \<le> 128 \<and>
    mr_Owner ` set (STM_GetForAgent a (stm_run ops)) \<subseteq> {a} \<and>
    distinct (identities (STM_GetForAgent a (stm_run ops)))"
  using GetForAgent_ok [OF stm_run_ok, of a ops] by (auto simp: agent_records_ok_def MaxEntriesPerAgent_def)

text \<open>
  Remembering an observation always leaves a record of it (with the new time, place, target
  and expiry and at least its importance) among the active ones, even when an old record had to
  make room; it touches no other agent; and an old record of the observer survives unless it is
  equivalent to the observation, or the agent held 128 records and none was seen longer ago.
\<close>
theorem remembered_fact_recalled:
  fixes ops ob ttl p
  defines "m \<equiv> stm_run ops" and "m' \<equiv> snd (STM_Remember ob ttl p (stm_run ops))"
  assumes "ob_ObservedAtMs ob < ob_ObservedAtMs ob + ttl"
  shows "(\<exists>r. r \<in> set (STM_GetActiveForAgent (ob_Observer ob) (ob_ObservedAtMs ob) m') \<and>
        recalls ob (ob_ObservedAtMs ob + ttl) p r) \<and>
      (a \<noteq> ob_Observer ob \<longrightarrow> STM_GetForAgent a m' = STM_GetForAgent a m) \<and>
      (r \<in> set (STM_GetForAgent (ob_Observer ob) m) \<longrightarrow> r \<in> set (STM_GetForAgent (ob_Observer ob) m') \<or>
        Equivalent r ob \<or> (128 \<le> length (STM_GetForAgent (ob_Observer ob) m) \<and>
          (\<forall>r' \<in> set (STM_GetForAgent (ob_Observer ob) m). mr_LastObservedAtMs r \<le> mr_LastObservedAtMs r')))"
proof (intro conj3I impI)
  have wf: "om_wf (stm_records m)" using stm_run_ok by (simp add: m_def stm_ok_def)
  note recs = Remember_records [OF wf, of _ ob ttl p, folded m'_def [folded m_def]]
  let ?old = "STM_GetForAgent (ob_Observer ob) m" and ?new = "STM_GetForAgent (ob_Observer ob) m'"
  have "\<exists>r. r \<in> set ?new \<and> recalls ob (ob_ObservedAtMs ob + ttl) p r"
  proof (cases "FindEquivalent ?old ob")
    case None
    then have "?new = room_for ?old @ [NewMemory (stm_nextMemoryId m) ob (ob_ObservedAtMs ob + ttl) p]"
      by (simp add: recs)
    then show ?thesis using recalls_NewMemory by auto
  next
    case (Some i)
    then have "?new = ?old[i := Refresh ob (ob_ObservedAtMs ob + ttl) p (?old ! i)]" by (simp add: recs)
    then show ?thesis
      using FindEquivalent_Some [OF Some] recalls_Refresh set_update_memI [of i ?old] by metis
  qed
  then show "\<exists>r. r \<in> set (STM_GetActiveForAgent (ob_Observer ob) (ob_ObservedAtMs ob) m') \<and>
      recalls ob (ob_ObservedAtMs ob + ttl) p r"
    using assms(3) by (auto simp: GetActive_filter recalls_def)
  show "STM_GetForAgent a m' = STM_GetForAgent a m" if "a \<noteq> ob_Observer ob"
    using that by (simp add: recs)
  show "r \<in> set ?new \<or> Equivalent r ob \<or> (128 \<le> length ?old \<and>
      (\<forall>r' \<in> set ?old. mr_LastObservedAtMs r \<le> mr_LastObservedAtMs r'))" if r: "r \<in> set ?old"
  proof (cases "FindEquivalent ?old ob")
    case None
    then have "set (room_for ?old) \<subseteq> set ?new" by (auto simp: recs)
    with room_for_keeps [OF r] show ?thesis unfolding MaxEntriesPerAgent_def by blast
  next
    case (Some i)
    then have "?new = ?old[i := Refresh ob (ob_ObservedAtMs ob + ttl) p (?old ! i)]" by (simp add: recs)
    with update_keeps [OF r] FindEquivalent_Some [OF Some] show ?thesis by metis
  qed
qed

text \<open>
  Expiry is only housekeeping: it leaves exactly the records the active query would return at
  that time, and no active query at that time or later can tell whether it has run.
\<close>
theorem expiry_unobservable:
  "STM_GetForAgent a (STM_Expire now (stm_run ops)) = STM_GetActiveForAgent a now (stm_run ops) \<and>
    STM_GetActiveForAgent a (max now later) (STM_Expire now (stm_run ops)) =
      STM_GetActiveForAgent a (max now later) (stm_run ops)"
  by (auto simp: Expire_records GetActive_filter [of a "max now later"] GetActive_filter [of a now]
      intro!: filter_cong)

text \<open>
  A page of the long-term memory is the requested slice of the agent's records, newest first,
  as they stood when the anchor was taken; so loading further records between two page requests
  with the same anchor shifts and repeats nothing.
\<close>
theorem long_term_page_exact:
  assumes "om_wf m" and "length (LTM_GetForAgent a m) + 1 < 2 ^ 64"
  shows "pg_Records (LTM_GetPage a offset limit anchor m) = take (unat limit) (drop (unat offset)
      (rev (if anchor = 0 then LTM_GetForAgent a m else take (unat anchor) (LTM_GetForAgent a m)))) \<and>
    (anchor \<noteq> 0 \<and> unat anchor \<le> length (LTM_GetForAgent a m) \<longrightarrow>
      pg_Records (LTM_GetPage a offset limit anchor (snd (LTM_AddLoaded r m))) =
      pg_Records (LTM_GetPage a offset limit anchor m))"
proof -
  obtain new where new: "LTM_GetForAgent a (snd (LTM_AddLoaded r m)) = LTM_GetForAgent a m @ new" "length new \<le> 1"
    using AddLoaded_records [OF assms(1)] by blast
  then have "length (LTM_GetForAgent a (snd (LTM_AddLoaded r m))) < 2 ^ 64" using assms(2) by simp
  from page_records [OF this] page_records [of a m] assms(2) new(1) show ?thesis by simp
qed

section \<open>Witnesses\<close>

definition ex_seen :: Observation where
  "ex_seen = \<lparr>ob_Observer = 3, ob_Type = OT_PlayerSeen, ob_SourceEventId = 0, ob_CorrelationId = 0,
     ob_SourceOccurredAtMs = 0, ob_ObservedAtMs = 1000, ob_SourceEventType = None,
     ob_Location = default_location, ob_Actor = default_ref, ob_Target = default_ref\<lparr>ref_Guid := 5\<rparr>,
     ob_Channel = Sight, ob_Distance = Fin 4, ob_LineOfSight = True, ob_Raid = None\<rparr>"

lemma remembered_fact_recalled_witness:
  "\<exists>r. r \<in> set (STM_GetActiveForAgent 3 1000 (snd (STM_Remember ex_seen 500 (Fin (1/5)) (stm_run [])))) \<and>
    recalls ex_seen 1500 (Fin (1/5)) r"
proof -
  have t: "ob_ObservedAtMs ex_seen < ob_ObservedAtMs ex_seen + 500" by code_simp
  have e: "ob_Observer ex_seen = 3" "ob_ObservedAtMs ex_seen = 1000" by (simp_all add: ex_seen_def)
  show ?thesis using conjunct1 [OF remembered_fact_recalled [OF t, of "Fin (1/5)" "[]"]]
    unfolding e by simp
qed

definition ex_loaded :: LongTermMemoryRecord where
  "ex_loaded = (NewLongTerm ex_seen (Fin 1))\<lparr>lt_PersistentId := 9\<rparr>"

lemma ex_long_term:
  "om_wf (snd (LTM_AddLoaded ex_loaded []))"
  "LTM_GetForAgent 3 (snd (LTM_AddLoaded ex_loaded [])) = [ex_loaded]"
  by code_simp+

lemma long_term_page_exact_witness:
  "pg_Records (LTM_GetPage 3 0 10 0 (snd (LTM_AddLoaded ex_loaded []))) = [ex_loaded]"
proof -
  have "length (LTM_GetForAgent 3 (snd (LTM_AddLoaded ex_loaded []))) + 1 < 2 ^ 64" by (simp add: ex_long_term)
  from conjunct1 [OF long_term_page_exact [OF ex_long_term(1) this, of 0 10 0]]
  show ?thesis by (simp add: ex_long_term)
qed

end
