(* ===== verification/Quest_Gossip.thy ===== *)
theory Quest_Gossip
  imports Quest_Runs Agent_Memory "HOL-Library.Product_Lexorder"
begin

text \<open>
  What a quest giver says: the reaction to a recent quest outcome
  (\<open>Quest/DynamicQuestOutcomeReaction\<close>), the gossip content of a giver for a player and the
  queries that keep the gossip flag up (\<open>AIWorldMgr::GetDynamicQuestGossipContent\<close>,
  \<open>HasLiveDynamicQuestStateForGiver\<close>, \<open>HasDynamicQuestGossipContentForGiver\<close>). \<open>find_by_spawn\<close> is the
  agent registry's lookup of the creature's spawn; a null creature or player is \<open>None\<close>.
\<close>

section \<open>Reactions to outcomes\<close>

datatype DynamicQuestOutcomeReactionKind = Reaction_Completed | Reaction_Failed | Reaction_Expired

record DynamicQuestOutcomeReaction =
  oq_Kind :: DynamicQuestOutcomeReactionKind
  oq_SourceEventId :: u64
  oq_CorrelationId :: u64
  oq_ObservedAtMs :: u64
  oq_Channel :: PerceptionChannel

definition ToReactionKind :: "WorldEventType \<Rightarrow> DynamicQuestOutcomeReactionKind option" where
  "ToReactionKind t =
     (case t of DynamicQuestCompleted \<Rightarrow> Some Reaction_Completed | DynamicQuestFailed \<Rightarrow> Some Reaction_Failed
      | DynamicQuestExpired \<Rightarrow> Some Reaction_Expired | _ \<Rightarrow> None)"

text \<open>\<open>IsEligible\<close> with its out parameter: the kind of an eligible memory.\<close>

definition EligibleKind :: "AgentId \<Rightarrow> MemoryRecord \<Rightarrow> DynamicQuestOutcomeReactionKind option" where
  "EligibleKind issuer m =
     (if mr_Owner m \<noteq> issuer then None
      else if mr_Type m \<noteq> OT_WorldEvent then None
      else if ref_Agent (mr_Target m) \<noteq> issuer then None
      else case mr_SourceEventType m of None \<Rightarrow> None | Some t \<Rightarrow> ToReactionKind t)"

definition IsMoreRecent :: "MemoryRecord \<Rightarrow> MemoryRecord \<Rightarrow> bool" where
  "IsMoreRecent candidate current =
     (if mr_LastObservedAtMs candidate \<noteq> mr_LastObservedAtMs current
      then mr_LastObservedAtMs candidate > mr_LastObservedAtMs current
      else mr_SourceEventId candidate > mr_SourceEventId current)"

fun SelectReaction_loop :: "AgentId \<Rightarrow> MemoryRecord list \<Rightarrow> (MemoryRecord \<times> DynamicQuestOutcomeReactionKind) option \<Rightarrow>
    (MemoryRecord \<times> DynamicQuestOutcomeReactionKind) option" where
  "SelectReaction_loop issuer [] best = best"
| "SelectReaction_loop issuer (m # ms) best =
     (case EligibleKind issuer m of
        None \<Rightarrow> SelectReaction_loop issuer ms best
      | Some kind \<Rightarrow>
          if (case best of None \<Rightarrow> True | Some (b, _) \<Rightarrow> IsMoreRecent m b)
          then SelectReaction_loop issuer ms (Some (m, kind)) else SelectReaction_loop issuer ms best)"

definition SelectDynamicQuestOutcomeReaction :: "AgentId \<Rightarrow> MemoryRecord list \<Rightarrow>
    DynamicQuestOutcomeReaction option" where
  "SelectDynamicQuestOutcomeReaction issuer memories =
     (if issuer = 0 then None
      else case SelectReaction_loop issuer memories None of
        None \<Rightarrow> None
      | Some (best, kind) \<Rightarrow> Some \<lparr>oq_Kind = kind, oq_SourceEventId = mr_SourceEventId best,
          oq_CorrelationId = mr_CorrelationId best, oq_ObservedAtMs = mr_LastObservedAtMs best,
          oq_Channel = mr_Channel best\<rparr>)"

definition ToWorldEventType :: "DynamicQuestOutcomeReactionKind \<Rightarrow> WorldEventType" where
  "ToWorldEventType kind = (case kind of Reaction_Completed \<Rightarrow> DynamicQuestCompleted
     | Reaction_Failed \<Rightarrow> DynamicQuestFailed | Reaction_Expired \<Rightarrow> DynamicQuestExpired)"

section \<open>Gossip content\<close>

datatype ContentKind = NoQuest | Content_Offered | Content_Active | Content_ReadyToTurnIn | Content_RecentOutcome

record GossipContent =
  gc_Kind :: ContentKind
  gc_Id :: DynamicQuestId
  gc_Title :: string
  gc_Description :: string
  gc_Progress :: u32
  gc_RequiredCount :: u32
  gc_OutcomeType :: WorldEventType
  gc_SourceEventId :: u64
  gc_OutcomeChannel :: PerceptionChannel
  gc_GiverAgent :: AgentId

definition no_content :: GossipContent where
  "no_content = \<lparr>gc_Kind = NoQuest, gc_Id = 0, gc_Title = [], gc_Description = [], gc_Progress = 0,
     gc_RequiredCount = 0, gc_OutcomeType = DynamicQuestCompleted, gc_SourceEventId = 0,
     gc_OutcomeChannel = Sight, gc_GiverAgent = 0\<rparr>"

definition quest_content :: "ContentKind \<Rightarrow> DynamicQuestInstance \<Rightarrow> GossipContent" where
  "quest_content kind inst = no_content\<lparr>gc_Kind := kind, gc_Id := qi_Id inst, gc_Title := qi_Title inst,
     gc_Description := qi_Description inst, gc_Progress := qi_Progress inst,
     gc_RequiredCount := qi_RequiredCount inst\<rparr>"

record GiverSpawn =
  gs_MapId :: u32
  gs_SpawnId :: u64
  gs_Guid :: ObjectGuid

definition outcome_content :: "AgentId \<Rightarrow> u64 \<Rightarrow> ShortTermMemory \<Rightarrow> GossipContent" where
  "outcome_content agent nowMs stm =
     (case SelectDynamicQuestOutcomeReaction agent (STM_GetActiveForAgent agent nowMs stm) of
        None \<Rightarrow> no_content
      | Some reaction \<Rightarrow> no_content\<lparr>gc_Kind := Content_RecentOutcome,
          gc_OutcomeType := ToWorldEventType (oq_Kind reaction), gc_SourceEventId := oq_SourceEventId reaction,
          gc_OutcomeChannel := oq_Channel reaction, gc_GiverAgent := agent\<rparr>)"

definition offered_content :: "AgentId \<Rightarrow> ObjectGuid \<Rightarrow> u64 \<Rightarrow> DynamicQuestRegistry \<Rightarrow> ShortTermMemory \<Rightarrow>
    GossipContent" where
  "offered_content agent guid nowMs r stm =
     (case Registry_FindOfferedByGiver agent guid r of
        None \<Rightarrow> outcome_content agent nowMs stm
      | Some offered \<Rightarrow>
          if \<not> IsDynamicQuestExpired offered nowMs then quest_content Content_Offered offered
          else outcome_content agent nowMs stm)"

definition GetDynamicQuestGossipContent :: "(u32 \<Rightarrow> u64 \<Rightarrow> AgentId option) \<Rightarrow> GiverSpawn option \<Rightarrow>
    ObjectGuid option \<Rightarrow> u64 \<Rightarrow> DynamicQuestRegistry \<Rightarrow> ShortTermMemory \<Rightarrow> GossipContent" where
  "GetDynamicQuestGossipContent find_by_spawn giver player nowMs r stm =
     (case (giver, player) of
        (Some g, Some p) \<Rightarrow>
          (case find_by_spawn (gs_MapId g) (gs_SpawnId g) of
             None \<Rightarrow> no_content
           | Some agent \<Rightarrow>
               (case Registry_FindActiveByGiverAndPlayer agent (gs_Guid g) p nowMs r of
                  None \<Rightarrow> offered_content agent (gs_Guid g) nowMs r stm
                | Some active \<Rightarrow>
                    if \<not> IsDynamicQuestExpired active nowMs
                    then quest_content (if IsDynamicQuestObjectiveComplete active then Content_ReadyToTurnIn
                                        else Content_Active) active
                    else offered_content agent (gs_Guid g) nowMs r stm))
      | _ \<Rightarrow> no_content)"

definition HasLiveDynamicQuestStateForGiver :: "(u32 \<Rightarrow> u64 \<Rightarrow> AgentId option) \<Rightarrow> GiverSpawn option \<Rightarrow> u64 \<Rightarrow>
    DynamicQuestRegistry \<Rightarrow> bool" where
  "HasLiveDynamicQuestStateForGiver find_by_spawn giver nowMs r =
     (case giver of
        None \<Rightarrow> False
      | Some g \<Rightarrow>
          (case find_by_spawn (gs_MapId g) (gs_SpawnId g) of
             None \<Rightarrow> False
           | Some agent \<Rightarrow> Registry_HasLiveInstanceForGiver agent (gs_Guid g) nowMs r))"

definition HasDynamicQuestGossipContentForGiver :: "(u32 \<Rightarrow> u64 \<Rightarrow> AgentId option) \<Rightarrow> GiverSpawn option \<Rightarrow> u64 \<Rightarrow>
    DynamicQuestRegistry \<Rightarrow> ShortTermMemory \<Rightarrow> bool" where
  "HasDynamicQuestGossipContentForGiver find_by_spawn giver nowMs r stm =
     (if HasLiveDynamicQuestStateForGiver find_by_spawn giver nowMs r then True
      else case giver of
        None \<Rightarrow> False
      | Some g \<Rightarrow>
          (case find_by_spawn (gs_MapId g) (gs_SpawnId g) of
             None \<Rightarrow> False
           | Some agent \<Rightarrow>
               SelectDynamicQuestOutcomeReaction agent (STM_GetActiveForAgent agent nowMs stm) \<noteq> None))"

section \<open>Gossip lines\<close>

definition FormatDynamicQuestOfferGossipLine :: "string \<Rightarrow> string" where
  "FormatDynamicQuestOfferGossipLine title = ''Dynamic task: '' @ title"

definition FormatDynamicQuestProgressGossipLine :: "string \<Rightarrow> u32 \<Rightarrow> u32 \<Rightarrow> string" where
  "FormatDynamicQuestProgressGossipLine title progress requiredCount =
     title @ '' - Progress: '' @ decimal (unat progress) @ ''/'' @ decimal (unat requiredCount)"

definition FormatDynamicQuestReadyToTurnInGossipLine :: "string \<Rightarrow> string" where
  "FormatDynamicQuestReadyToTurnInGossipLine title = title @ '' - Objective complete''"

definition FormatDynamicQuestOutcomeReaction :: "WorldEventType \<Rightarrow> string" where
  "FormatDynamicQuestOutcomeReaction t = (case t of
     DynamicQuestCompleted \<Rightarrow> ''The task was completed.''
   | DynamicQuestFailed \<Rightarrow> ''The task failed.''
   | DynamicQuestExpired \<Rightarrow> ''The task expired before it was completed.''
   | _ \<Rightarrow> [])"

section \<open>The selected reaction\<close>

definition recency :: "MemoryRecord \<Rightarrow> u64 \<times> u64" where
  "recency m = (mr_LastObservedAtMs m, mr_SourceEventId m)"

lemma IsMoreRecent_iff: "IsMoreRecent a b \<longleftrightarrow> recency b < recency a"
  by (auto simp: IsMoreRecent_def recency_def)

lemma SelectReaction_loop_props:
  "case SelectReaction_loop issuer ms best of
      None \<Rightarrow> best = None \<and> (\<forall>m \<in> set ms. EligibleKind issuer m = None)
    | Some (b, k) \<Rightarrow> (best = Some (b, k) \<or> b \<in> set ms \<and> EligibleKind issuer b = Some k) \<and>
        (\<forall>m \<in> set ms. EligibleKind issuer m \<noteq> None \<longrightarrow> recency m \<le> recency b) \<and>
        (\<forall>b0 k0. best = Some (b0, k0) \<longrightarrow> recency b0 \<le> recency b)"
proof (induction ms arbitrary: best)
  case Nil
  then show ?case by (cases best) auto
next
  case (Cons m ms)
  show ?case
  proof (cases "EligibleKind issuer m")
    case None
    with Cons.IH [of best] show ?thesis by (auto split: option.splits)
  next
    case (Some kind)
    show ?thesis
    proof (cases best)
      case None
      with Some Cons.IH [of "Some (m, kind)"] show ?thesis by (auto split: option.splits)
    next
      case (Some b0)
      note best = Some
      obtain b k where b0: "b0 = (b, k)" by (cases b0)
      show ?thesis
      proof (cases "IsMoreRecent m b")
        case True
        with \<open>EligibleKind issuer m = Some kind\<close> best b0 Cons.IH [of "Some (m, kind)"] show ?thesis
          by (auto simp: IsMoreRecent_iff split: option.splits)
      next
        case False
        with \<open>EligibleKind issuer m = Some kind\<close> best b0 Cons.IH [of best] show ?thesis
          by (auto simp: IsMoreRecent_iff not_less split: option.splits)
      qed
    qed
  qed
qed

section \<open>What the content says\<close>

definition kind_shown :: "GossipContent \<Rightarrow> bool" where
  "kind_shown c = (gc_Kind c \<noteq> NoQuest)"

lemma quest_content_simps [simp]:
  "gc_Kind (quest_content kind x) = kind" "gc_Id (quest_content kind x) = qi_Id x"
  "gc_Kind no_content = NoQuest"
  by (simp_all add: quest_content_def no_content_def)

lemma stored_id: "reg_ok r \<Longrightarrow> om_find (rg_quests r) k = Some x \<Longrightarrow> om_find (rg_quests r) (qi_Id x) = Some x"
  using reg_ok_stored by metis

lemma offered_found:
  assumes "reg_ok r" and "Registry_FindOfferedByGiver a u r = Some x"
  shows "om_find (rg_quests r) (qi_Id x) = Some x" and "qi_State x = Offered" and "qi_Giver x = a" and "qi_GiverRuntimeGuid x = u"
  using FindOffered_loop_Some [OF assms(2) [unfolded Registry_FindOfferedByGiver_def]] stored_id [OF assms(1)] by auto

lemma active_found:
  assumes "reg_ok r" and "Registry_FindActiveByGiverAndPlayer a u p now r = Some x"
  shows "om_find (rg_quests r) (qi_Id x) = Some x" and "active_for a u p x"
  using FindActive_loop_Some [OF assms(2) [unfolded Registry_FindActiveByGiverAndPlayer_def]] stored_id [OF assms(1)] by auto

lemma live_for_giver:
  assumes "reg_ok r" and "om_find (rg_quests r) k = Some x" and "qi_Giver x = a" and "qi_GiverRuntimeGuid x = u"
    and "qi_State x = Offered \<or> qi_State x = Active" and "\<not> IsDynamicQuestExpired x now"
  shows "Registry_HasLiveInstanceForGiver a u now r"
  using assms reg_ok_bucket_iff [OF assms(1)]
  unfolding Registry_HasLiveInstanceForGiver_def HasLive_loop_iff by blast

lemma outcome_content_cases:
  "gc_Kind (outcome_content a now stm) = NoQuest \<or> gc_Kind (outcome_content a now stm) = Content_RecentOutcome \<and>
    SelectDynamicQuestOutcomeReaction a (STM_GetActiveForAgent a now stm) \<noteq> None"
  by (auto simp: outcome_content_def split: option.split)

text \<open>The claim a gossip content makes about the stored quest it names.\<close>

definition content_true :: "AgentId \<Rightarrow> ObjectGuid \<Rightarrow> ObjectGuid \<Rightarrow> u64 \<Rightarrow> DynamicQuestRegistry \<Rightarrow> ShortTermMemory \<Rightarrow>
    GossipContent \<Rightarrow> bool" where
  "content_true a u p now r stm c = (case gc_Kind c of
       NoQuest \<Rightarrow> True
     | Content_RecentOutcome \<Rightarrow> SelectDynamicQuestOutcomeReaction a (STM_GetActiveForAgent a now stm) \<noteq> None
     | kind \<Rightarrow> (\<exists>x. om_find (rg_quests r) (gc_Id c) = Some x \<and> qi_Giver x = a \<and> qi_GiverRuntimeGuid x = u \<and>
         now < qi_ExpiresAtMs x \<and>
         (if kind = Content_Offered then qi_State x = Offered
          else qi_State x = Active \<and> qi_AcceptedByPlayerGuid x = p \<and>
            (kind = Content_ReadyToTurnIn \<longleftrightarrow> qi_RequiredCount x \<le> qi_Progress x))))"

lemma offered_content_true:
  assumes "reg_ok r"
  shows "content_true a u p now r stm (offered_content a u now r stm) \<and>
    (kind_shown (offered_content a u now r stm) \<longrightarrow> Registry_HasLiveInstanceForGiver a u now r \<or>
      SelectDynamicQuestOutcomeReaction a (STM_GetActiveForAgent a now stm) \<noteq> None)"
proof (cases "\<exists>x. Registry_FindOfferedByGiver a u r = Some x \<and> \<not> IsDynamicQuestExpired x now")
  case True
  then obtain x where x: "Registry_FindOfferedByGiver a u r = Some x" "\<not> IsDynamicQuestExpired x now" by blast
  note f = offered_found [OF assms x(1)]
  from live_for_giver [OF assms f(1,3,4) _ x(2)] f(2) have "Registry_HasLiveInstanceForGiver a u now r" by blast
  with x f show ?thesis by (auto simp: offered_content_def content_true_def IsDynamicQuestExpired_def not_le)
next
  case False
  then have "offered_content a u now r stm = outcome_content a now stm"
    by (auto simp: offered_content_def split: option.split)
  with outcome_content_cases [of a now stm] show ?thesis by (auto simp: content_true_def kind_shown_def)
qed

lemma gossip_content_true:
  assumes "reg_ok r" and "f (gs_MapId g) (gs_SpawnId g) = Some a"
  shows "content_true a (gs_Guid g) p now r stm (GetDynamicQuestGossipContent f (Some g) (Some p) now r stm) \<and>
    (kind_shown (GetDynamicQuestGossipContent f (Some g) (Some p) now r stm) \<longrightarrow>
      HasDynamicQuestGossipContentForGiver f (Some g) now r stm)"
proof (cases "\<exists>x. Registry_FindActiveByGiverAndPlayer a (gs_Guid g) p now r = Some x \<and> \<not> IsDynamicQuestExpired x now")
  case True
  then obtain x where x: "Registry_FindActiveByGiverAndPlayer a (gs_Guid g) p now r = Some x" "\<not> IsDynamicQuestExpired x now"
    by blast
  note f = active_found [OF assms(1) x(1)]
  from live_for_giver [OF assms(1) f(1) _ _ _ x(2)] f(2) have "Registry_HasLiveInstanceForGiver a (gs_Guid g) now r"
    by (auto simp: active_for_def)
  with x f assms(2) show ?thesis
    by (auto simp: GetDynamicQuestGossipContent_def content_true_def IsDynamicQuestExpired_def not_le active_for_def
        IsDynamicQuestObjectiveComplete_def HasDynamicQuestGossipContentForGiver_def HasLiveDynamicQuestStateForGiver_def)
next
  case False
  then have "GetDynamicQuestGossipContent f (Some g) (Some p) now r stm = offered_content a (gs_Guid g) now r stm"
    using assms(2) by (auto simp: GetDynamicQuestGossipContent_def split: option.split)
  with offered_content_true [OF assms(1), of a "gs_Guid g" p now stm] assms(2) show ?thesis
    by (auto simp: HasDynamicQuestGossipContentForGiver_def HasLiveDynamicQuestStateForGiver_def)
qed

section \<open>Properties\<close>

text \<open>
  The reaction to a past quest is taken from an eligible memory of the giver (its own, of a
  world event that ended one of its quests), and no eligible memory is more recent; there is a
  reaction exactly when there is an eligible memory.
\<close>
theorem outcome_reaction_most_recent:
  "case SelectDynamicQuestOutcomeReaction issuer ms of
     None \<Rightarrow> issuer = 0 \<or> EligibleKind issuer ` set ms \<subseteq> {None}
   | Some r \<Rightarrow> issuer \<noteq> 0 \<and> (\<exists>m k. m \<in> set ms \<and> EligibleKind issuer m = Some k \<and>
       r = \<lparr>oq_Kind = k, oq_SourceEventId = mr_SourceEventId m, oq_CorrelationId = mr_CorrelationId m,
            oq_ObservedAtMs = mr_LastObservedAtMs m, oq_Channel = mr_Channel m\<rparr> \<and>
       {m' \<in> set ms. EligibleKind issuer m' \<noteq> None} \<subseteq> {m'. \<not> IsMoreRecent m' m})"
  using SelectReaction_loop_props [where issuer = issuer and ms = ms and best = None]
  by (auto simp: SelectDynamicQuestOutcomeReaction_def IsMoreRecent_iff not_less split: option.splits)

text \<open>
  What a giver's gossip shows is true of the registry: an offer shown is stored, Offered and
  unexpired under this incarnation of the giver, an active quest shown belongs to the asking
  player and is reported ready exactly when its objective is complete; and whenever there is
  something to show, the query that keeps the gossip flag up says so.
\<close>
theorem gossip_content_truthful:
  fixes f g p now ops stm a
  defines "r \<equiv> reg_run ops registry_empty"
    and "c \<equiv> GetDynamicQuestGossipContent f (Some g) (Some p) now (reg_run ops registry_empty) stm"
  assumes "f (gs_MapId g) (gs_SpawnId g) = Some a"
  shows "(case gc_Kind c of
       NoQuest \<Rightarrow> True
     | Content_RecentOutcome \<Rightarrow> SelectDynamicQuestOutcomeReaction a (STM_GetActiveForAgent a now stm) \<noteq> None
     | kind \<Rightarrow> (\<exists>x. om_find (rg_quests r) (gc_Id c) = Some x \<and> qi_Giver x = a \<and> qi_GiverRuntimeGuid x = gs_Guid g \<and>
         now < qi_ExpiresAtMs x \<and>
         (if kind = Content_Offered then qi_State x = Offered
          else qi_State x = Active \<and> qi_AcceptedByPlayerGuid x = p \<and>
            (kind = Content_ReadyToTurnIn \<longleftrightarrow> qi_RequiredCount x \<le> qi_Progress x)))) \<and>
    (gc_Kind c = NoQuest \<or> HasDynamicQuestGossipContentForGiver f (Some g) now r stm)"
  using gossip_content_true [where f = f and g = g and a = a, OF reg_reachable [of ops] assms(3), where p = p and now = now and stm = stm]
  unfolding content_true_def kind_shown_def c_def r_def by blast

section \<open>Witnesses and an example of a hidden offer\<close>

definition ex_spawn :: GiverSpawn where
  "ex_spawn = \<lparr>gs_MapId = 0, gs_SpawnId = 42, gs_Guid = 0xF130000000000001\<rparr>"

definition ex_find_by_spawn :: "u32 \<Rightarrow> u64 \<Rightarrow> AgentId option" where
  "ex_find_by_spawn m s = (if m = 0 \<and> s = 42 then Some 3 else None)"

lemma ex_spawn_found: "ex_find_by_spawn (gs_MapId ex_spawn) (gs_SpawnId ex_spawn) = Some 3"
  by code_simp

lemma ex_offer_shown:
  "gc_Kind (GetDynamicQuestGossipContent ex_find_by_spawn (Some ex_spawn) (Some 5) 2000
     (reg_run ex_offer registry_empty) ShortTermMemory_init) = Content_Offered"
  by code_simp

lemma gossip_content_truthful_witness:
  "HasDynamicQuestGossipContentForGiver ex_find_by_spawn (Some ex_spawn) 2000 (reg_run ex_offer registry_empty)
     ShortTermMemory_init"
  using gossip_content_truthful [where f = ex_find_by_spawn and g = ex_spawn and p = 5 and now = 2000 and ops = ex_offer
      and stm = ShortTermMemory_init, OF ex_spawn_found] ex_offer_shown by auto

definition ex_two_offers :: "auth_op list" where
  "ex_two_offers = [ACreate ex_world ex_cfg ex_proposal 1000, ACreate ex_world ex_cfg ex_proposal 50000]"

definition ex_two_registry :: DynamicQuestRegistry where
  "ex_two_registry = au_registry (auth_run ex_two_offers auth_init)"

lemma ex_two_registry_facts:
  "list_all (\<lambda>x. qi_State x = Offered) (reg_instances ex_two_registry)"
  "HasLiveDynamicQuestStateForGiver ex_find_by_spawn (Some ex_spawn) 70000 ex_two_registry"
  "offered_content 3 (gs_Guid ex_spawn) 70000 ex_two_registry ShortTermMemory_init = no_content"
  by code_simp+

text \<open>
  A giver that made two offers, of which the first has expired but has not been swept yet, keeps
  its gossip flag up for the second one, and yet shows nothing to any player: the lookup of an
  offer stops at the first offered instance, expired or not.
\<close>
theorem expired_offer_hides_live_offer:
  "HasLiveDynamicQuestStateForGiver ex_find_by_spawn (Some ex_spawn) 70000
      (au_registry (auth_run ex_two_offers auth_init)) \<and>
    GetDynamicQuestGossipContent ex_find_by_spawn (Some ex_spawn) (Some p) 70000
      (au_registry (auth_run ex_two_offers auth_init)) ShortTermMemory_init = no_content"
proof -
  have ok: "reg_ok ex_two_registry" using auth_reachable by (simp add: ex_two_registry_def auth_ok_def)
  have "\<not> active_for 3 (gs_Guid ex_spawn) p x" if "\<exists>k \<in> set (giver_bucket 3 ex_two_registry). om_find (rg_quests ex_two_registry) k = Some x" for x
    using that ex_two_registry_facts(1) bucket_instances [OF ok] by (auto simp: active_for_def list_all_iff)
  then have "Registry_FindActiveByGiverAndPlayer 3 (gs_Guid ex_spawn) p 70000 ex_two_registry = None"
    unfolding Registry_FindActiveByGiverAndPlayer_def FindActive_loop_None by blast
  then show ?thesis
    unfolding ex_two_registry_def [symmetric] using ex_two_registry_facts(2,3) ex_spawn_found
    by (simp add: GetDynamicQuestGossipContent_def)
qed

end
