(* ===== verification/Due_Selection.thy ===== *)
theory Due_Selection
  imports Std_Map "HOL-Library.Multiset" "HOL-Library.Product_Lexorder"
begin

text \<open>
  The three batch schedulers of \<open>Scheduler/\<close> (decisions of agents, coarse simulation of agents,
  coarse simulation of groups). Each filters the candidates that are due, sorts them, admits the
  first ones up to the capacity and reports the rest as skipped. \<open>due_selection\<close> is their common
  contract; the manager's simulation pass, which reschedules what was admitted, is proved free of
  starvation from it. The comparators of the code order different candidates strictly, so the
  result of \<open>std::sort\<close> is the sorted list.
\<close>

section \<open>Stable hash\<close>

definition StableAgentHash :: "u64 \<Rightarrow> u64" where
  "StableAgentHash value0 =
     (let value1 = xor value0 (drop_bit 33 value0);
          value2 = value1 * 0xff51afd7ed558ccd;
          value3 = xor value2 (drop_bit 33 value2);
          value4 = value3 * 0xc4ceb9fe1a85ec53
      in xor value4 (drop_bit 33 value4))"

section \<open>The contract of a batch selection\<close>

locale due_selection =
  fixes select :: "'c list \<Rightarrow> u32 \<Rightarrow> 'c list \<times> 'c list"
    and due :: "'c \<Rightarrow> bool"
    and key :: "'c \<Rightarrow> 'k::linorder"
  assumes select_all: "mset (fst (select cs n)) + mset (snd (select cs n)) = mset (filter due cs)"
    and select_length: "length (fst (select cs n)) = min (unat n) (length (filter due cs))"
    and select_sorted: "sorted (map key (fst (select cs n) @ snd (select cs n)))"
begin

lemma admitted_first:
  "x \<in> set (fst (select cs n)) \<Longrightarrow> y \<in> set (snd (select cs n)) \<Longrightarrow> key x \<le> key y"
  using select_sorted [of cs n] by (auto simp: sorted_append)

lemma select_set: "set (fst (select cs n)) \<union> set (snd (select cs n)) = {c \<in> set cs. due c}"
  using arg_cong [OF select_all, of set_mset cs n] by auto

lemma select_distinct:
  assumes "distinct cs"
  shows "distinct (fst (select cs n))" and "set (fst (select cs n)) \<inter> set (snd (select cs n)) = {}"
proof -
  have "mset (fst (select cs n) @ snd (select cs n)) = mset (filter due cs)" by (simp add: select_all)
  then have "distinct (fst (select cs n) @ snd (select cs n))"
    using assms by (metis distinct_filter mset_eq_imp_distinct_iff)
  then show "distinct (fst (select cs n))" and "set (fst (select cs n)) \<inter> set (snd (select cs n)) = {}"
    by (auto simp: distinct_append)
qed

text \<open>A due candidate is left out only by a full batch of candidates that are not behind it.\<close>

lemma left_out:
  assumes "c \<in> set cs" and "due c" and "c \<notin> set (fst (select cs n))"
  shows "length (fst (select cs n)) = unat n" and "\<forall>x \<in> set (fst (select cs n)). due x \<and> key x \<le> key c"
proof -
  from assms select_set [of cs n] have c: "c \<in> set (snd (select cs n))" by auto
  show "\<forall>x \<in> set (fst (select cs n)). due x \<and> key x \<le> key c"
    using admitted_first [OF _ c] select_set [of cs n] by auto
  have "length (fst (select cs n)) + length (snd (select cs n)) = length (filter due cs)"
    using arg_cong [OF select_all, of size cs n] by (simp del: mset_filter)
  moreover have "0 < length (snd (select cs n))" using c by (cases "snd (select cs n)") auto
  ultimately show "length (fst (select cs n)) = unat n" using select_length [of cs n] by linarith
qed

end

lemma sort_split_selection:
  "mset (take k (sort_key f xs)) + mset (drop k (sort_key f xs)) = mset xs"
  "length (take k (sort_key f xs)) = min k (length xs)"
  "sorted (map f (take k (sort_key f xs) @ drop k (sort_key f xs)))"
  by (simp_all flip: mset_append)

section \<open>Decision scheduler\<close>

datatype DecisionCadenceClass = Cadence_Nearby | Cadence_Active

record DecisionScheduleState =
  dss_LastDecisionSubmittedAtMs :: u64
  dss_AwaitingResponse :: bool

record Candidate =
  cand_Agent :: u64
  cand_CadenceClass :: DecisionCadenceClass

record SelectionResult =
  sel_Admitted :: "u64 list"
  sel_SkippedCapacity :: "u64 list"

definition EffectiveDueAtMs :: "(u64, DecisionScheduleState) omap \<Rightarrow> u32 \<Rightarrow> u32 \<Rightarrow> Candidate \<Rightarrow> u64" where
  "EffectiveDueAtMs state nearbyIntervalMs activeIntervalMs c =
     (let lastSubmittedAtMs = (case om_find state (cand_Agent c) of
            None \<Rightarrow> 0 | Some s \<Rightarrow> dss_LastDecisionSubmittedAtMs s) in
      if lastSubmittedAtMs = 0 then 0
      else lastSubmittedAtMs +
        widen (if cand_CadenceClass c = Cadence_Nearby then nearbyIntervalMs else activeIntervalMs))"

definition DecisionDue :: "(u64, DecisionScheduleState) omap \<Rightarrow> u64 \<Rightarrow> u32 \<Rightarrow> u32 \<Rightarrow> Candidate \<Rightarrow> bool" where
  "DecisionDue state nowMs nearbyIntervalMs activeIntervalMs c =
     (\<not> (case om_find state (cand_Agent c) of None \<Rightarrow> False | Some s \<Rightarrow> dss_AwaitingResponse s) \<and>
      \<not> EffectiveDueAtMs state nearbyIntervalMs activeIntervalMs c > nowMs)"

definition DecisionKey :: "(u64, DecisionScheduleState) omap \<Rightarrow> u32 \<Rightarrow> u32 \<Rightarrow> Candidate \<Rightarrow> u64 \<times> nat \<times> u64" where
  "DecisionKey state nearbyIntervalMs activeIntervalMs c =
     (EffectiveDueAtMs state nearbyIntervalMs activeIntervalMs c,
      if cand_CadenceClass c = Cadence_Nearby then 0 else 1, cand_Agent c)"

definition DecisionOrder :: "(u64, DecisionScheduleState) omap \<Rightarrow> Candidate list \<Rightarrow> u64 \<Rightarrow> u32 \<Rightarrow> u32 \<Rightarrow>
    Candidate list" where
  "DecisionOrder state candidates nowMs nearbyIntervalMs activeIntervalMs =
     sort_key (DecisionKey state nearbyIntervalMs activeIntervalMs)
       (filter (DecisionDue state nowMs nearbyIntervalMs activeIntervalMs) candidates)"

definition DecisionScheduler_SelectDue :: "(u64, DecisionScheduleState) omap \<Rightarrow> Candidate list \<Rightarrow> u64 \<Rightarrow> u32 \<Rightarrow>
    u32 \<Rightarrow> u32 \<Rightarrow> SelectionResult" where
  "DecisionScheduler_SelectDue state candidates nowMs maxAdmit nearbyIntervalMs activeIntervalMs =
     (let due = DecisionOrder state candidates nowMs nearbyIntervalMs activeIntervalMs;
          admitCount = min (length due) (unat maxAdmit)
      in \<lparr>sel_Admitted = map cand_Agent (take admitCount due),
          sel_SkippedCapacity = map cand_Agent (drop admitCount due)\<rparr>)"

section \<open>Coarse simulation schedulers\<close>

record SimulationScheduleState =
  sss_LastTickAtMs :: u64
  sss_NextTickAtMs :: u64

definition NextTickAtMs :: "(u64, SimulationScheduleState) omap \<Rightarrow> u64 \<Rightarrow> u64" where
  "NextTickAtMs state agent = (case om_find state agent of None \<Rightarrow> 0 | Some s \<Rightarrow> sss_NextTickAtMs s)"

definition CoarseSimulationScheduler_SelectDue :: "(u64, SimulationScheduleState) omap \<Rightarrow> u64 list \<Rightarrow> u64 \<Rightarrow>
    u32 \<Rightarrow> SelectionResult" where
  "CoarseSimulationScheduler_SelectDue state candidates nowMs maxAdmit =
     (let due = sort_key (\<lambda>a. (NextTickAtMs state a, a)) (filter (\<lambda>a. NextTickAtMs state a \<le> nowMs) candidates);
          admitCount = min (length due) (unat maxAdmit)
      in \<lparr>sel_Admitted = take admitCount due, sel_SkippedCapacity = drop admitCount due\<rparr>)"

definition GroupNextTickAtMs :: "(u64, SimulationScheduleState) omap \<Rightarrow> u64 \<Rightarrow> u64" where
  "GroupNextTickAtMs state g = (case om_find state g of None \<Rightarrow> 0 | Some s \<Rightarrow> sss_NextTickAtMs s)"

definition GroupCoarseSimulationScheduler_SelectDue :: "(u64, SimulationScheduleState) omap \<Rightarrow> u64 list \<Rightarrow>
    u64 \<Rightarrow> u32 \<Rightarrow> SelectionResult" where
  "GroupCoarseSimulationScheduler_SelectDue state candidates nowMs maxAdmit =
     (let due = sort_key (\<lambda>g. (GroupNextTickAtMs state g, g))
            (filter (\<lambda>g. GroupNextTickAtMs state g \<le> nowMs) candidates);
          admitCount = min (length due) (unat maxAdmit)
      in \<lparr>sel_Admitted = take admitCount due, sel_SkippedCapacity = drop admitCount due\<rparr>)"

text \<open>
  The simulation pass of the manager over the background agents: select, then stamp every
  admitted agent with this pass and its next time.
\<close>

definition CoarseTick :: "u64 \<Rightarrow> u32 \<Rightarrow> u64 \<Rightarrow> (u64, SimulationScheduleState) omap \<Rightarrow>
    (u64, SimulationScheduleState) omap" where
  "CoarseTick nowMs intervalMs agent state =
     om_put agent \<lparr>sss_LastTickAtMs = nowMs, sss_NextTickAtMs = nowMs + widen intervalMs\<rparr> state"

definition CoarseSimulationPass :: "u64 list \<Rightarrow> u32 \<Rightarrow> u32 \<Rightarrow> u64 \<Rightarrow> (u64, SimulationScheduleState) omap \<Rightarrow>
    u64 list \<times> (u64, SimulationScheduleState) omap" where
  "CoarseSimulationPass candidates maxAdmit intervalMs nowMs state =
     (let admitted = sel_Admitted (CoarseSimulationScheduler_SelectDue state candidates nowMs maxAdmit)
      in (admitted, fold (CoarseTick nowMs intervalMs) admitted state))"

fun coarse_passes :: "u64 list \<Rightarrow> u32 \<Rightarrow> u32 \<Rightarrow> u64 list \<Rightarrow> (u64, SimulationScheduleState) omap \<Rightarrow> u64 list list" where
  "coarse_passes candidates maxAdmit intervalMs [] state = []"
| "coarse_passes candidates maxAdmit intervalMs (now # nows) state =
     (let (admitted, state') = CoarseSimulationPass candidates maxAdmit intervalMs now state
      in admitted # coarse_passes candidates maxAdmit intervalMs nows state')"

section \<open>Simulation tiers\<close>

datatype SimulationTier = Tier_Background | Tier_Active | Tier_Nearby

definition DeriveSimulationTier :: "bool \<Rightarrow> bool \<Rightarrow> SimulationTier" where
  "DeriveSimulationTier materialized nearPlayer =
     (if materialized then (if nearPlayer then Tier_Nearby else Tier_Active) else Tier_Background)"

definition DeriveTransitionReason :: "SimulationTier \<Rightarrow> SimulationTier \<Rightarrow> string" where
  "DeriveTransitionReason from_tier to_tier =
     (let wasMaterialized = (from_tier = Tier_Active \<or> from_tier = Tier_Nearby);
          isMaterialized = (to_tier = Tier_Active \<or> to_tier = Tier_Nearby) in
      if isMaterialized \<and> \<not> wasMaterialized then ''MATERIALIZED''
      else if \<not> isMaterialized \<and> wasMaterialized then ''NOT_MATERIALIZED''
      else if to_tier = Tier_Nearby then ''PLAYER_NEARBY'' else ''PLAYER_LEFT_RANGE'')"

section \<open>The hash is a permutation\<close>

definition unshift :: "u64 \<Rightarrow> u64" where
  "unshift x = xor x (drop_bit 33 x)"

lemma drop_bit_past_width: "drop_bit 66 (x :: u64) = 0"
  by (rule bit_word_eqI) (auto simp: bit_simps dest: bit_imp_le_length)

lemma unshift_unshift: "unshift (unshift x) = x"
proof -
  have "xor (xor x (drop_bit 33 x)) (drop_bit 33 (xor x (drop_bit 33 x))) = xor x (drop_bit 66 x)"
    by (simp add: drop_bit_xor drop_bit_drop_bit xor.assoc)
  then show ?thesis by (simp add: unshift_def drop_bit_past_width)
qed

definition InverseAgentHash :: "u64 \<Rightarrow> u64" where
  "InverseAgentHash h = unshift (unshift (unshift h * 0x9cb4b2f8129337db) * 0x4f74430c22a54005)"


lemma hash_inverse: "InverseAgentHash (StableAgentHash v) = v" and inverse_hash: "StableAgentHash (InverseAgentHash h) = h"
proof -
  have h: "StableAgentHash v = unshift (unshift (unshift v * 0xff51afd7ed558ccd) * 0xc4ceb9fe1a85ec53)" for v
    by (simp only: StableAgentHash_def unshift_def Let_def)
  have c: "(0xff51afd7ed558ccd :: u64) * 0x4f74430c22a54005 = 1" "(0xc4ceb9fe1a85ec53 :: u64) * 0x9cb4b2f8129337db = 1"
    "(0x4f74430c22a54005 :: u64) * 0xff51afd7ed558ccd = 1" "(0x9cb4b2f8129337db :: u64) * 0xc4ceb9fe1a85ec53 = 1"
    by simp_all
  show "InverseAgentHash (StableAgentHash v) = v"
    unfolding InverseAgentHash_def h unshift_unshift mult.assoc c mult_1_right ..
  show "StableAgentHash (InverseAgentHash h) = h"
    unfolding InverseAgentHash_def h unshift_unshift mult.assoc c mult_1_right ..
qed

section \<open>The three selections meet the contract\<close>

lemma take_admit_count: "take (min (length xs) k) xs = take k xs" "drop (min (length xs) k) xs = drop k xs"
  by (simp_all add: min_def)

interpretation ds: due_selection
  "\<lambda>cs n. (take (unat n) (DecisionOrder state cs now ni ai), drop (unat n) (DecisionOrder state cs now ni ai))"
  "DecisionDue state now ni ai" "DecisionKey state ni ai"
  for state now ni ai
  by unfold_locales (simp_all only: fst_conv snd_conv DecisionOrder_def sort_split_selection)

interpretation cs: due_selection
  "\<lambda>cs n. (sel_Admitted (CoarseSimulationScheduler_SelectDue state cs now n),
     sel_SkippedCapacity (CoarseSimulationScheduler_SelectDue state cs now n))"
  "\<lambda>a. NextTickAtMs state a \<le> now" "\<lambda>a. (NextTickAtMs state a, a)"
  for state now
  by unfold_locales (simp_all only: fst_conv snd_conv CoarseSimulationScheduler_SelectDue_def Let_def
      SelectionResult.simps take_admit_count sort_split_selection)

interpretation gs: due_selection
  "\<lambda>cs n. (sel_Admitted (GroupCoarseSimulationScheduler_SelectDue state cs now n),
     sel_SkippedCapacity (GroupCoarseSimulationScheduler_SelectDue state cs now n))"
  "\<lambda>a. GroupNextTickAtMs state a \<le> now" "\<lambda>a. (GroupNextTickAtMs state a, a)"
  for state now
  by unfold_locales (simp_all only: fst_conv snd_conv GroupCoarseSimulationScheduler_SelectDue_def Let_def
      SelectionResult.simps take_admit_count sort_split_selection)

section \<open>The simulation pass starves nobody\<close>

lemma CoarseTick_fold:
  "om_wf state \<Longrightarrow> om_wf (fold (CoarseTick now i) ids state) \<and>
    NextTickAtMs (fold (CoarseTick now i) ids state) b = (if b \<in> set ids then now + widen i else NextTickAtMs state b)"
proof (induction ids arbitrary: state)
  case (Cons a ids)
  have "om_wf (CoarseTick now i a state)" using Cons.prems by (simp add: CoarseTick_def)
  from Cons.IH [OF this] Cons.prems show ?case by (auto simp: CoarseTick_def NextTickAtMs_def)
qed simp

definition ahead :: "u64 list \<Rightarrow> (u64, SimulationScheduleState) omap \<Rightarrow> u64 \<Rightarrow> u64 set" where
  "ahead candidates state a = {b \<in> set candidates. (NextTickAtMs state b, b) < (NextTickAtMs state a, a)}"

lemma pass_progress:
  assumes wf: "om_wf state" and cands: "distinct candidates" "a \<in> set candidates"
    and due: "NextTickAtMs state a \<le> now" "now < now + widen i"
    and pass: "CoarseSimulationPass candidates n i now state = (admitted, state')"
    and out: "a \<notin> set admitted"
  shows "om_wf state'" and "NextTickAtMs state' a = NextTickAtMs state a"
    and "card (ahead candidates state' a) + unat n = card (ahead candidates state a)"
proof -
  have adm: "admitted = sel_Admitted (CoarseSimulationScheduler_SelectDue state candidates now n)"
    and st: "state' = fold (CoarseTick now i) admitted state"
    using pass by (auto simp: CoarseSimulationPass_def Let_def)
  note tick = CoarseTick_fold [OF wf, of now i admitted, folded st]
  show "om_wf state'" and next_a: "NextTickAtMs state' a = NextTickAtMs state a" using tick out by auto
  note left = cs.left_out [of a candidates state now n, unfolded fst_conv, folded adm, OF cands(2) due(1) out]
  have sub: "set admitted \<subseteq> ahead candidates state a"
    using left(2) out cs.select_set [of state candidates now n] by (fastforce simp: ahead_def adm less_le)
  have "ahead candidates state' a = ahead candidates state a - set admitted"
    using tick due next_a by (auto simp: ahead_def)
  then show "card (ahead candidates state' a) + unat n = card (ahead candidates state a)"
    using card_Diff_subset [OF _ sub] card_mono [OF _ sub] left(1) cs.select_distinct(1) [OF cands(1), of state now n]
    by (simp add: distinct_card adm ahead_def)
qed

lemma coarse_passes_admit:
  assumes "om_wf state" and cands: "distinct candidates" "a \<in> set candidates"
    and "\<forall>now \<in> set nows. NextTickAtMs state a \<le> now \<and> now < now + widen i"
    and "card (ahead candidates state a) < length nows * unat n"
  shows "\<exists>admitted \<in> set (coarse_passes candidates n i nows state). a \<in> set admitted"
  using assms(1,4,5)
proof (induction nows arbitrary: state)
  case (Cons now nows)
  obtain admitted state' where pass: "CoarseSimulationPass candidates n i now state = (admitted, state')"
    by (cases "CoarseSimulationPass candidates n i now state")
  show ?case
  proof (cases "a \<in> set admitted")
    case False
    have "NextTickAtMs state a \<le> now" "now < now + widen i" using Cons.prems(2) by auto
    note prog = pass_progress [OF Cons.prems(1) cands this pass False]
    have "\<exists>admitted \<in> set (coarse_passes candidates n i nows state'). a \<in> set admitted"
      using Cons.prems(2,3) prog(3) by (intro Cons.IH prog(1)) (auto simp: prog(2))
    then show ?thesis using pass by simp
  qed (use pass in simp)
qed simp

section \<open>Properties\<close>

text \<open>
  C22: No background agent starves: if an agent is due throughout a series of simulation passes and
  the passes together have room for more agents than there are candidates, one of the passes
  admits it.
\<close>
theorem coarse_simulation_no_starvation:
  assumes "om_wf state" and "distinct candidates" and "a \<in> set candidates"
    and "\<forall>now \<in> set nows. NextTickAtMs state a \<le> now \<and> now < now + widen intervalMs"
    and "length candidates \<le> length nows * unat maxAdmit"
  shows "\<exists>admitted \<in> set (coarse_passes candidates maxAdmit intervalMs nows state). a \<in> set admitted"
proof (rule coarse_passes_admit [OF assms(1-4)])
  have "ahead candidates state a \<subset> set candidates" using assms(3) by (auto simp: ahead_def)
  then have "card (ahead candidates state a) < card (set candidates)" by (intro psubset_card_mono) simp_all
  also have "\<dots> \<le> length nows * unat maxAdmit" using assms(2,5) by (simp add: distinct_card)
  finally show "card (ahead candidates state a) < length nows * unat maxAdmit" .
qed

text \<open>
  The decision scheduler admits as many agents as it may, only agents that are due and not
  awaiting a response, reports all other due agents as skipped, and every admitted candidate
  comes before every skipped one in the order (due time, nearby before active, agent id).
\<close>
theorem decision_selection_exact:
  fixes state cands now n ni ai
  defines "ordered \<equiv> DecisionOrder state cands now ni ai"
  shows "DecisionScheduler_SelectDue state cands now n ni ai =
      \<lparr>sel_Admitted = map cand_Agent (take (unat n) ordered),
       sel_SkippedCapacity = map cand_Agent (drop (unat n) ordered)\<rparr> \<and>
    mset ordered = filter_mset (DecisionDue state now ni ai) (mset cands) \<and>
    sorted (map (DecisionKey state ni ai) ordered)"
  using ds.select_all [where state = state and now = now and ni = ni and ai = ai and cs = cands and n = n, unfolded fst_conv snd_conv, folded ordered_def]
    ds.select_sorted [where state = state and now = now and ni = ni and ai = ai and cs = cands and n = n, unfolded fst_conv snd_conv, folded ordered_def]
  by (simp add: DecisionScheduler_SelectDue_def Let_def take_admit_count flip: mset_append)
    (simp add: ordered_def)

text \<open>
  The hash that spreads agents over their update interval is a permutation of the 64-bit
  numbers: it is undone by an explicit inverse, so no two agents are forced into the same phase.
\<close>
theorem stable_hash_roundtrip:
  "InverseAgentHash (StableAgentHash v) = v \<and> StableAgentHash (InverseAgentHash h) = h"
  by (simp add: hash_inverse inverse_hash)

section \<open>Witness\<close>

lemma coarse_simulation_no_starvation_witness:
  "\<exists>admitted \<in> set (coarse_passes [7, 8, 9] 1 1000 [100, 200, 300] []). 9 \<in> set admitted"
proof -
  have n: "\<forall>now \<in> set [100, 200, 300]. NextTickAtMs [] 9 \<le> now \<and> now < now + widen 1000" by code_simp
  show ?thesis by (rule coarse_simulation_no_starvation [OF _ _ _ n]) simp_all
qed

end
