(* ===== verification/Role_Policy.thy ===== *)
theory Role_Policy
  imports Float_Arith Due_Selection
begin

text \<open>
  The rules of the living roles: the scope of the simulation (\<open>Simulation/SimulationScope.h\<close>), which
  role an agent has and what the role may do (\<open>Agent/LivingRolePolicy.h\<close>), the wolf's thresholds
  (\<open>Agent/WolfBehaviorPolicy.h\<close>) and the state of a hunt (\<open>Agent/LivingHuntPolicy.h\<close>). Not modelled:
  \<open>FreeChaseBearing\<close> and \<open>AvoidsDanger\<close>, which call \<open>fmod\<close> and \<open>hypot\<close> of the C library.
\<close>

section \<open>Scope of the simulation\<close>

record SimulationBounds =
  sb_MinX :: flt
  sb_MaxX :: flt
  sb_MinY :: flt
  sb_MaxY :: flt

definition Bounds_Valid :: "SimulationBounds \<Rightarrow> bool" where
  "Bounds_Valid b = (isfinite (sb_MinX b) \<and> isfinite (sb_MaxX b) \<and> isfinite (sb_MinY b) \<and> isfinite (sb_MaxY b) \<and>
     flt_lt (sb_MinX b) (sb_MaxX b) \<and> flt_lt (sb_MinY b) (sb_MaxY b))"

record SimulationScope =
  sc_MapId :: u32
  sc_ZoneIds :: "u32 list"
  sc_Bounds :: "SimulationBounds option"
  sc_SpawnIds :: "u64 list"

definition DefaultScope :: SimulationScope where
  "DefaultScope = \<lparr>sc_MapId = 0, sc_ZoneIds = [12], sc_Bounds = None, sc_SpawnIds = []\<rparr>"

text \<open>The loops over zones and spawns: no zero, and nothing that occurs earlier in the list.\<close>

fun AllNew_loop :: "'a::zero list \<Rightarrow> 'a list \<Rightarrow> bool" where
  "AllNew_loop before [] = True"
| "AllNew_loop before (i # rest) = (if i = 0 \<or> i \<in> set before then False else AllNew_loop (before @ [i]) rest)"

definition Scope_Valid :: "SimulationScope \<Rightarrow> bool" where
  "Scope_Valid s =
     (if sc_ZoneIds s = [] \<or> length (sc_ZoneIds s) > 64 \<or> length (sc_SpawnIds s) > 4096 \<or>
         (case sc_Bounds s of None \<Rightarrow> False | Some b \<Rightarrow> \<not> Bounds_Valid b) then False
      else if \<not> AllNew_loop [] (sc_ZoneIds s) then False
      else AllNew_loop [] (sc_SpawnIds s))"

definition ContainsMapZone :: "SimulationScope \<Rightarrow> u32 \<Rightarrow> u32 \<Rightarrow> bool" where
  "ContainsMapZone s mapId zone = (Scope_Valid s \<and> mapId = sc_MapId s \<and> zone \<in> set (sc_ZoneIds s))"

definition ContainsPosition :: "SimulationScope \<Rightarrow> u32 \<Rightarrow> flt \<Rightarrow> flt \<Rightarrow> flt \<Rightarrow> bool" where
  "ContainsPosition s mapId x y z =
     (Scope_Valid s \<and> mapId = sc_MapId s \<and> isfinite x \<and> isfinite y \<and> isfinite z \<and>
      (case sc_Bounds s of None \<Rightarrow> True
       | Some b \<Rightarrow> flt_le (sb_MinX b) x \<and> flt_le x (sb_MaxX b) \<and> flt_le (sb_MinY b) y \<and> flt_le y (sb_MaxY b)))"

definition Scope_Contains :: "SimulationScope \<Rightarrow> u32 \<Rightarrow> u32 \<Rightarrow> flt \<Rightarrow> flt \<Rightarrow> flt \<Rightarrow> bool" where
  "Scope_Contains s mapId zone x y z = (ContainsMapZone s mapId zone \<and> ContainsPosition s mapId x y z)"

definition ContainsSpawn :: "SimulationScope \<Rightarrow> u64 \<Rightarrow> bool" where
  "ContainsSpawn s spawn = (Scope_Valid s \<and> (sc_SpawnIds s = [] \<or> spawn \<in> set (sc_SpawnIds s)))"

definition ContainsActor :: "SimulationScope \<Rightarrow> u32 \<Rightarrow> u64 \<Rightarrow> bool" where
  "ContainsActor s mapId spawn = (mapId = sc_MapId s \<and> ContainsSpawn s spawn)"

section \<open>Agents\<close>

datatype AgentType = Civilian | Guard | Merchant | Unclassified | Combatant | Predator | Prey

datatype AgentWorldState = Abstract | Materialized

datatype AgentControlMode = ObserveOnly | AIWorldControlled

text \<open>The stored byte of a type; 3 is unused, and unknown bytes are unclassified.\<close>

definition ToKnownAgentType :: "8 word \<Rightarrow> AgentType" where
  "ToKnownAgentType value =
     (if value = 0 then Civilian else if value = 1 then Guard else if value = 2 then Merchant
      else if value = 4 then Unclassified else if value = 5 then Combatant else if value = 6 then Predator
      else if value = 7 then Prey else Unclassified)"

fun AgentType_ToString :: "AgentType \<Rightarrow> string" where
  "AgentType_ToString Civilian = ''CIVILIAN''"
| "AgentType_ToString Guard = ''GUARD''"
| "AgentType_ToString Merchant = ''MERCHANT''"
| "AgentType_ToString Unclassified = ''UNCLASSIFIED''"
| "AgentType_ToString Combatant = ''COMBATANT''"
| "AgentType_ToString Predator = ''PREDATOR''"
| "AgentType_ToString Prey = ''PREY''"

fun AgentControlMode_ToString :: "AgentControlMode \<Rightarrow> string" where
  "AgentControlMode_ToString ObserveOnly = ''OBSERVE_ONLY''"
| "AgentControlMode_ToString AIWorldControlled = ''AI_WORLD_CONTROLLED''"

datatype SpawnParticipationMode = FullAgent | LightweightBackground | VanillaOnly | Excluded

record AgentEconomyState =
  ec_Money :: u64
  ec_Food :: u32
  ec_Resource :: u32
  ec_LastRewardedWorkWindowId :: u64
  ec_Version :: u64

section \<open>Roles\<close>

datatype Role = Role_None | Role_Predator | Role_Prey | Role_Guard | Role_Combatant | Role_Civilian | Role_Worker
  | Role_Traveler | Role_Service | Role_Hunter | Role_Raider

datatype Activity = Act_None | Act_Roam | Act_Look | Act_Talk | Act_Work | Act_Graze | Act_Eat | Act_Rest

text \<open>The pause of an agent in a cycle, spread over the given range by the hash.\<close>

definition PauseMs :: "u64 \<Rightarrow> u64 \<Rightarrow> u32 \<Rightarrow> u32 \<Rightarrow> u32" where
  "PauseMs agent cycle minimum maximum =
     minimum + ucast (StableAgentHash (xor agent (StableAgentHash (cycle + 1))) mod (widen maximum - widen minimum + 1))"

definition KnownRole :: "Role \<Rightarrow> bool" where
  "KnownRole role = (case role of Role_None \<Rightarrow> False | _ \<Rightarrow> True)"

definition InScope :: "bool \<Rightarrow> AgentControlMode \<Rightarrow> u32 \<Rightarrow> u32 \<Rightarrow> SpawnParticipationMode \<Rightarrow> SimulationScope \<Rightarrow> bool" where
  "InScope enabled control mapId zone participation scope =
     (enabled \<and> control = AIWorldControlled \<and> ContainsMapZone scope mapId zone \<and>
      (participation = FullAgent \<or> participation = LightweightBackground))"

definition ResolveRole :: "AgentType \<Rightarrow> u32 \<Rightarrow> bool \<Rightarrow> Role" where
  "ResolveRole type entry service =
     (if type \<noteq> Predator \<and> type \<noteq> Prey \<and> type \<noteq> Guard \<and> type \<noteq> Combatant \<and> type \<noteq> Civilian \<and> type \<noteq> Merchant then Role_None
      else if service \<or> type = Merchant then Role_Service
      else case type of
        Predator \<Rightarrow> Role_Predator
      | Prey \<Rightarrow> Role_Prey
      | Guard \<Rightarrow> Role_Guard
      | Combatant \<Rightarrow> Role_Combatant
      | Civilian \<Rightarrow> if entry \<in> {250, 1975, 10616, 11260, 11328} then Role_Worker
          else if entry \<in> {14390, 14393} then Role_Traveler else Role_Civilian
      | _ \<Rightarrow> Role_None)"

definition Fighter :: "Role \<Rightarrow> bool" where
  "Fighter role = (role = Role_Guard \<or> role = Role_Combatant \<or> role = Role_Predator \<or> role = Role_Hunter \<or> role = Role_Raider)"

definition Wildlife :: "Role \<Rightarrow> bool" where
  "Wildlife role = (role = Role_Predator \<or> role = Role_Prey)"

definition HelpsAllies :: "Role \<Rightarrow> bool" where
  "HelpsAllies role = (role = Role_Guard \<or> role = Role_Combatant \<or> role = Role_Hunter)"

definition CanAssistAlly :: "u32 \<Rightarrow> u32 \<Rightarrow> bool \<Rightarrow> bool" where
  "CanAssistAlly actor ally nativeHostile = (actor \<noteq> 0 \<and> actor = ally \<and> \<not> nativeHostile)"

definition CanHuntNeutralPrey :: "Role \<Rightarrow> AgentType \<Rightarrow> bool \<Rightarrow> bool" where
  "CanHuntNeutralPrey hunter prey mutuallyNeutral =
     ((hunter = Role_Predator \<or> hunter = Role_Hunter) \<and> prey = Prey \<and> mutuallyNeutral)"

text \<open>\<open>ShouldFlee\<close>: the threshold of a role, lower while the agent is already fleeing.\<close>

definition ShouldFlee :: "Role \<Rightarrow> flt \<Rightarrow> bool \<Rightarrow> bool" where
  "ShouldFlee role healthPressure fleeing =
     (if \<not> Fighter role \<or> \<not> isfinite healthPressure then True
      else let threshold = (if role = Role_Guard then rnd32 (85 / 100) else rnd32 (70 / 100))
           in flt_le (flt_sub threshold (if fleeing then rnd32 (20 / 100) else Fin 0)) healthPressure)"

definition Personality :: "u64 \<Rightarrow> u32" where
  "Personality i = ucast (xor i (drop_bit 32 i) * 2654435761)"

definition Caution :: "u64 \<Rightarrow> flt" where
  "Caution i = flt_div (of_word_in Binary32 (Personality i mod 101)) (Fin 100)"

definition NoticeRadius :: "u64 \<Rightarrow> flt" where
  "NoticeRadius i = flt_add (Fin 9) (flt_mul (Fin 5) (Caution i))"

definition SafetyRadius :: "u64 \<Rightarrow> flt" where
  "SafetyRadius i = flt_add (NoticeRadius i) (Fin 3)"

definition ShouldFleeAs :: "Role \<Rightarrow> flt \<Rightarrow> bool \<Rightarrow> u64 \<Rightarrow> bool" where
  "ShouldFleeAs role pressure fleeing i =
     ShouldFlee role (flt_add pressure (flt_mul (flt_sub (Caution i) (Fin (1 / 2))) (rnd32 (12 / 100)))) fleeing"

definition SameHerd :: "u32 \<Rightarrow> u32 \<Rightarrow> bool" where
  "SameHerd a b = (a = b \<or> (a = 883 \<or> a = 890) \<and> (b = 883 \<or> b = 890))"

definition PreyScore :: "flt \<Rightarrow> flt \<Rightarrow> u32 \<Rightarrow> u32 \<Rightarrow> flt" where
  "PreyScore distance healthPct preyEntry hunterEntry =
     (let sizePenalty = (if hunterEntry = 30 \<and> preyEntry \<noteq> 721 \<and> preyEntry \<noteq> 890 then Fin 5 else Fin 0)
      in flt_add (flt_add distance (flt_mul (flt_clamp healthPct (Fin 0) (Fin 100)) (rnd32 (8 / 100)))) sizePenalty)"

definition ProduceWorkStock :: "u32 \<Rightarrow> u64 \<Rightarrow> AgentEconomyState \<Rightarrow> bool \<times> AgentEconomyState" where
  "ProduceWorkStock entry window economy =
     (if window = 0 \<or> ec_LastRewardedWorkWindowId economy \<ge> window \<or> ResolveRole Civilian entry False \<noteq> Role_Worker
      then (False, economy)
      else let e = (if entry = 1975
             then economy\<lparr>ec_Resource := ec_Resource economy + min 2 (20 - min 20 (ec_Resource economy))\<rparr>
             else economy\<lparr>ec_Food := ec_Food economy + min 6 (20 - min 20 (ec_Food economy))\<rparr>)
           in (True, e\<lparr>ec_LastRewardedWorkWindowId := window\<rparr>))"

definition RoamRadius :: "Role \<Rightarrow> flt" where
  "RoamRadius role = (case role of
     Role_Predator \<Rightarrow> Fin 12 | Role_Traveler \<Rightarrow> Fin 12
   | Role_Combatant \<Rightarrow> Fin 10 | Role_Hunter \<Rightarrow> Fin 10 | Role_Raider \<Rightarrow> Fin 10
   | Role_Guard \<Rightarrow> Fin 8
   | Role_Prey \<Rightarrow> Fin 6
   | Role_Civilian \<Rightarrow> Fin 4 | Role_Worker \<Rightarrow> Fin 4
   | _ \<Rightarrow> Fin 0)"

text \<open>The comparisons \<open>hunger >= 0.65f\<close> and \<open>fatigue >= 0.8f\<close>.\<close>

definition Hungry :: "flt \<Rightarrow> bool" where
  "Hungry hunger = flt_le (rnd32 (65 / 100)) hunger"

definition Tired :: "flt \<Rightarrow> bool" where
  "Tired fatigue = flt_le (rnd32 (8 / 10)) fatigue"

definition CuratedSelfCare :: "Role \<Rightarrow> flt \<Rightarrow> flt \<Rightarrow> u32 \<Rightarrow> bool \<Rightarrow> Activity" where
  "CuratedSelfCare role hunger fatigue food depotConsumer =
     (if Wildlife role \<or> \<not> KnownRole role then Act_None
      else if \<not> depotConsumer \<and> Hungry hunger \<and> food \<noteq> 0 then Act_Eat
      else if Tired fatigue \<and> role \<noteq> Role_Service \<and> role \<noteq> Role_Guard then Act_Rest
      else Act_None)"

definition ConsumeStockMeal :: "AgentEconomyState \<Rightarrow> bool \<times> AgentEconomyState" where
  "ConsumeStockMeal economy =
     (if ec_Food economy = 0 then (False, economy) else (True, economy\<lparr>ec_Food := ec_Food economy - 1\<rparr>))"

definition CanGatherFood :: "Role \<Rightarrow> u32 \<Rightarrow> bool" where
  "CanGatherFood role entry = (role = Role_Worker \<and> entry \<noteq> 1975)"

definition GatherEmergencyFood :: "AgentEconomyState \<Rightarrow> bool \<times> AgentEconomyState" where
  "GatherEmergencyFood economy =
     (if ec_Food economy \<noteq> 0 then (False, economy) else (True, economy\<lparr>ec_Food := 2\<rparr>))"

definition RecoveryActivity :: "Role \<Rightarrow> flt \<Rightarrow> bool \<Rightarrow> bool \<Rightarrow> Activity" where
  "RecoveryActivity role hunger rememberedDanger depotConsumer =
     (if rememberedDanger then Act_Look
      else if Hungry hunger \<and> role = Role_Prey then Act_Graze
      else if \<not> depotConsumer \<and> Hungry hunger \<and> \<not> Wildlife role \<and> role \<noteq> Role_Hunter then Act_Eat
      else if role = Role_Service \<or> role = Role_Guard then Act_Look else Act_Rest)"

definition Allows :: "Role \<Rightarrow> Activity \<Rightarrow> bool" where
  "Allows role activity =
     (if \<not> KnownRole role \<or> activity = Act_None then False
      else case activity of
        Act_Roam \<Rightarrow> flt_lt (Fin 0) (RoamRadius role)
      | Act_Look \<Rightarrow> True
      | Act_Talk \<Rightarrow> \<not> Wildlife role
      | Act_Work \<Rightarrow> role = Role_Worker \<or> role = Role_Hunter \<or> role = Role_Raider
      | Act_Graze \<Rightarrow> role = Role_Prey
      | Act_Eat \<Rightarrow> \<not> Wildlife role
      | Act_Rest \<Rightarrow> role \<noteq> Role_Service \<and> role \<noteq> Role_Guard
      | Act_None \<Rightarrow> False)"

definition IdleActivity :: "Role \<Rightarrow> u64 \<Rightarrow> bool \<Rightarrow> flt \<Rightarrow> flt \<Rightarrow> bool \<Rightarrow> Activity" where
  "IdleActivity role phase workHours hunger fatigue depotConsumer =
     (if \<not> KnownRole role then Act_None
      else if role = Role_Service
        then (if Hungry hunger then Act_Eat else if phase mod 2 \<noteq> 0 then Act_Talk else Act_Look)
      else if role = Role_Prey \<and> Hungry hunger then Act_Graze
      else if \<not> depotConsumer \<and> \<not> Wildlife role \<and> role \<noteq> Role_Hunter \<and> Hungry hunger then Act_Eat
      else if Allows role Act_Rest \<and> (Tired fatigue \<or> \<not> workHours \<and> phase mod 3 = 0) then Act_Rest
      else if role = Role_Worker \<and> workHours \<and> phase mod 3 \<noteq> 0 then Act_Work
      else if role = Role_Prey \<and> phase mod 2 \<noteq> 0 then Act_Graze
      else if \<not> Wildlife role \<and> role \<noteq> Role_Guard \<and> phase mod 3 = 1 then Act_Talk
      else if phase mod 2 \<noteq> 0 then Act_Look else Act_Roam)"

fun Role_ToString :: "Role \<Rightarrow> string" where
  "Role_ToString Role_Predator = ''PREDATOR''"
| "Role_ToString Role_Prey = ''PREY''"
| "Role_ToString Role_Guard = ''GUARD''"
| "Role_ToString Role_Combatant = ''COMBATANT''"
| "Role_ToString Role_Civilian = ''CIVILIAN''"
| "Role_ToString Role_Worker = ''WORKER''"
| "Role_ToString Role_Traveler = ''TRAVELER''"
| "Role_ToString Role_Service = ''SERVICE''"
| "Role_ToString Role_Hunter = ''HUNTER''"
| "Role_ToString Role_Raider = ''RAIDER''"
| "Role_ToString Role_None = ''NONE''"

fun Activity_ToString :: "Activity \<Rightarrow> string" where
  "Activity_ToString Act_Roam = ''ROAM''"
| "Activity_ToString Act_Look = ''LOOK''"
| "Activity_ToString Act_Talk = ''TALK''"
| "Activity_ToString Act_Work = ''WORK''"
| "Activity_ToString Act_Graze = ''GRAZE''"
| "Activity_ToString Act_Eat = ''EAT''"
| "Activity_ToString Act_Rest = ''REST''"
| "Activity_ToString Act_None = ''NONE''"

section \<open>Wolves and hunts\<close>

definition WolfShouldFlee :: "flt \<Rightarrow> bool \<Rightarrow> bool" where
  "WolfShouldFlee healthPressure alreadyFleeing =
     (\<not> isfinite healthPressure \<or> flt_le (if alreadyFleeing then Fin (1 / 2) else rnd32 (70 / 100)) healthPressure)"

definition WantsHunt :: "flt \<Rightarrow> flt \<Rightarrow> bool \<Rightarrow> bool" where
  "WantsHunt hunger healthPressure busy =
     (\<not> busy \<and> isfinite hunger \<and> isfinite healthPressure \<and> flt_le (rnd32 (65 / 100)) hunger \<and> \<not> WolfShouldFlee healthPressure False)"

definition WolfElapsed :: "u64 \<Rightarrow> u64 \<Rightarrow> u64 \<Rightarrow> bool" where
  "WolfElapsed now started duration = (now \<ge> started \<and> now - started \<ge> duration)"

datatype MotionState = Pursuing | InMeleeRange | TemporarilyBlocked | PathBlocked | VictimLost | ChaseMissing

definition EvaluateMotion :: "bool \<Rightarrow> bool \<Rightarrow> bool \<Rightarrow> bool \<Rightarrow> bool \<Rightarrow> MotionState" where
  "EvaluateMotion victimMatches cannotReach movementPrevented ownedChase inMeleeRange =
     (if \<not> victimMatches then VictimLost
      else if movementPrevented then TemporarilyBlocked
      else if cannotReach then PathBlocked
      else if inMeleeRange then InMeleeRange
      else if \<not> ownedChase then ChaseMissing
      else Pursuing)"

definition CanContinue :: "MotionState \<Rightarrow> bool" where
  "CanContinue state = (state = Pursuing \<or> state = InMeleeRange \<or> state = TemporarilyBlocked)"

fun MotionState_ToString :: "MotionState \<Rightarrow> string" where
  "MotionState_ToString Pursuing = ''HUNT_PURSUING''"
| "MotionState_ToString InMeleeRange = ''HUNT_IN_MELEE_RANGE''"
| "MotionState_ToString TemporarilyBlocked = ''HUNT_MOVEMENT_BLOCKED''"
| "MotionState_ToString PathBlocked = ''HUNT_PATH_BLOCKED''"
| "MotionState_ToString VictimLost = ''HUNT_VICTIM_LOST''"
| "MotionState_ToString ChaseMissing = ''HUNT_CHASE_MISSING''"

section \<open>Facts about the rules\<close>

lemma AllNew_iff: "AllNew_loop before xs \<longleftrightarrow> 0 \<notin> set xs \<and> distinct xs \<and> set before \<inter> set xs = {}"
  by (induction xs arbitrary: before) auto

lemma Scope_Valid_iff: "Scope_Valid s \<longleftrightarrow> sc_ZoneIds s \<noteq> [] \<and> length (sc_ZoneIds s) \<le> 64 \<and> length (sc_SpawnIds s) \<le> 4096 \<and>
    (\<forall>b. sc_Bounds s = Some b \<longrightarrow> Bounds_Valid b) \<and> distinct (sc_ZoneIds s) \<and> distinct (sc_SpawnIds s) \<and>
    0 \<notin> set (sc_ZoneIds s) \<and> 0 \<notin> set (sc_SpawnIds s)"
  by (auto simp: Scope_Valid_def AllNew_iff not_less split: option.splits)

lemma PauseMs_between:
  assumes "minimum \<le> maximum"
  shows "minimum \<le> PauseMs agent cycle minimum maximum \<and> PauseMs agent cycle minimum maximum \<le> maximum"
proof -
  let ?h = "StableAgentHash (xor agent (StableAgentHash (cycle + 1)))"
  let ?n = "widen maximum - widen minimum + 1 :: u64"
  have le: "unat minimum \<le> unat maximum" using assms by (simp add: word_le_nat_alt)
  have max: "unat maximum < 2 ^ 32" by (rule unat_lt2p_32)
  have "widen minimum \<le> widen maximum" using le by (simp add: word_le_nat_alt)
  then have "unat (widen maximum - widen minimum) = unat maximum - unat minimum" by (simp add: unat_sub)
  then have n: "unat ?n = unat maximum - unat minimum + 1"
    using max by (simp add: unat_word_ariths)
  have "unat (?h mod ?n) < unat maximum - unat minimum + 1" by (simp add: unat_mod_distrib n)
  then have r: "unat (ucast (?h mod ?n) :: u32) \<le> unat maximum - unat minimum"
    using max by (simp add: unsigned_ucast_eq take_bit_nat_eq_self)
  then have "unat (PauseMs agent cycle minimum maximum) = unat minimum + unat (ucast (?h mod ?n) :: u32)"
    using le max unfolding PauseMs_def by (subst unat_word_ariths) (simp add: PauseMs_def)
  with r le show ?thesis by (simp add: word_le_nat_alt)
qed

lemmas role_defs = IdleActivity_def RecoveryActivity_def CuratedSelfCare_def Allows_def KnownRole_def Wildlife_def RoamRadius_def

lemma IdleActivity_allowed: "KnownRole role \<Longrightarrow> Allows role (IdleActivity role phase work hunger fatigue depot)"
  by (cases role) (simp_all add: role_defs)

lemma RecoveryActivity_allowed: "KnownRole role \<Longrightarrow> Allows role (RecoveryActivity role hunger danger depot)"
  by (cases role) (simp_all add: role_defs)

lemma CuratedSelfCare_allowed:
  "CuratedSelfCare role hunger fatigue food depot \<noteq> Act_None \<Longrightarrow> Allows role (CuratedSelfCare role hunger fatigue food depot)"
  by (cases role) (simp_all add: role_defs split: if_splits)

lemma Caution_unit: "\<exists>q. Caution i = Fin q \<and> 0 \<le> q \<and> q \<le> 1"
proof -
  have "unat (Personality i mod 101) \<le> 100"
  proof -
    have "unat (Personality i mod 101) = unat (Personality i) mod 101" by (simp add: unat_mod_distrib)
    then show ?thesis by simp
  qed
  define k where "k = int (unat (Personality i mod 101))"
  have k: "0 \<le> k" "k \<le> 100" using \<open>unat (Personality i mod 101) \<le> 100\<close> unfolding k_def by linarith+
  have "(of_nat (unat (Personality i mod 101)) :: rat) = of_int k" unfolding k_def by (simp only: of_int_of_nat_eq)
  then have w: "of_word_in Binary32 (Personality i mod 101) = Fin (of_int k)"
    using k round_to_int [of k Binary32] by (simp add: of_word_in_def)
  have "0 \<le> (of_int k / 100 :: rat)" "(of_int k / 100 :: rat) \<le> 1" using k by simp_all
  note round_to_mono [OF this(1), of Binary32] round_to_mono [OF this(2), of Binary32]
  with w show ?thesis by (cases "round_to Binary32 (of_int k / 100)") (auto simp: Caution_def flt_le_def)
qed

lemma flee_thresholds:
  "flt_sub (rnd32 (85 / 100)) (rnd32 (20 / 100)) = Fin (10905191 / 16777216)"
  "flt_sub (rnd32 (70 / 100)) (rnd32 (20 / 100)) = Fin (1 / 2)"
  "flt_sub (rnd32 (85 / 100)) (Fin 0) = Fin (7130317 / 8388608)" "flt_sub (rnd32 (70 / 100)) (Fin 0) = Fin (11744051 / 16777216)"
  by code_simp+

lemma ShouldFlee_hysteresis: "ShouldFlee role p False \<Longrightarrow> ShouldFlee role p True"
proof (cases p)
  case (Fin q)
  assume "ShouldFlee role p False"
  then show ?thesis
    unfolding ShouldFlee_def Let_def Fin by (cases "role = Role_Guard") (auto simp: flee_thresholds [simplified] split: if_splits)
qed (simp_all add: ShouldFlee_def)

section \<open>Stock of a worker\<close>

datatype stock_op = WorkReward u32 u64 | StockMeal | Forage

fun stock_step :: "stock_op \<Rightarrow> AgentEconomyState \<Rightarrow> bool \<times> AgentEconomyState" where
  "stock_step (WorkReward entry window) e = ProduceWorkStock entry window e"
| "stock_step StockMeal e = ConsumeStockMeal e"
| "stock_step Forage e = GatherEmergencyFood e"

definition Economy_init :: AgentEconomyState where
  "Economy_init = \<lparr>ec_Money = 0, ec_Food = 0, ec_Resource = 0, ec_LastRewardedWorkWindowId = 0, ec_Version = 0\<rparr>"

definition stock_run :: "stock_op list \<Rightarrow> AgentEconomyState" where
  "stock_run ops = fold (\<lambda>op e. snd (stock_step op e)) ops Economy_init"

text \<open>The work windows that were rewarded, in order.\<close>

fun rewarded :: "stock_op list \<Rightarrow> AgentEconomyState \<Rightarrow> u64 list" where
  "rewarded [] e = []"
| "rewarded (op # ops) e =
     (case op of WorkReward entry window \<Rightarrow> if fst (stock_step op e) then [window] else [] | _ \<Rightarrow> []) @
     rewarded ops (snd (stock_step op e))"

definition stock_ok :: "AgentEconomyState \<Rightarrow> bool" where
  "stock_ok e \<longleftrightarrow> ec_Food e \<le> 20 \<and> ec_Resource e \<le> 20"

lemma top_up: "(f :: u32) \<le> 20 \<Longrightarrow> f + min n (20 - f) \<le> 20"
proof -
  assume f: "f \<le> 20"
  have "unat (f + min n (20 - f)) \<le> unat f + unat (min n (20 - f))" by (simp add: unat_word_ariths)
  also have "unat (min n (20 - f)) \<le> unat (20 - f)" by (simp add: word_le_nat_alt [symmetric])
  also have "unat (20 - f) = 20 - unat f" using f by (simp add: unat_sub)
  finally show ?thesis using f by (simp add: word_le_nat_alt)
qed

lemma one_less: "(f :: u32) \<le> 20 \<Longrightarrow> f \<noteq> 0 \<Longrightarrow> f - 1 \<le> 20"
proof -
  assume f: "f \<le> 20" "f \<noteq> 0"
  then have "1 \<le> f" by (simp add: word_le_nat_alt unat_gt_0 Suc_le_eq)
  then have "unat (f - 1) = unat f - 1" by (simp add: unat_sub)
  then show ?thesis using f(1) by (simp add: word_le_nat_alt)
qed

lemma stock_step_ok: "stock_ok e \<Longrightarrow> stock_ok (snd (stock_step op e))"
  by (cases op) (auto simp: stock_ok_def ProduceWorkStock_def ConsumeStockMeal_def GatherEmergencyFood_def Let_def top_up one_less)

lemma stock_step_window:
  "ec_LastRewardedWorkWindowId e \<le> ec_LastRewardedWorkWindowId (snd (stock_step op e))"
  "op = WorkReward entry window \<Longrightarrow> fst (stock_step op e) \<Longrightarrow>
    ec_LastRewardedWorkWindowId (snd (stock_step op e)) = window \<and> ec_LastRewardedWorkWindowId e < window"
  by (cases op; auto simp: ProduceWorkStock_def ConsumeStockMeal_def GatherEmergencyFood_def Let_def split: if_splits)+

lemma rewarded_increasing:
  "sorted_wrt (<) (rewarded ops e) \<and> list_all (\<lambda>w. ec_LastRewardedWorkWindowId e < w) (rewarded ops e)"
proof (induction ops arbitrary: e)
  case (Cons op ops)
  let ?e = "snd (stock_step op e)"
  have IH: "sorted_wrt (<) (rewarded ops ?e)" "list_all (\<lambda>w. ec_LastRewardedWorkWindowId ?e < w) (rewarded ops ?e)"
    using Cons.IH by blast+
  have up: "list_all (\<lambda>w. ec_LastRewardedWorkWindowId e < w) (rewarded ops ?e)"
    using IH(2) stock_step_window(1) [of e op] by (auto simp: list_all_iff intro: le_less_trans)
  show ?case
  proof (cases "\<exists>entry window. op = WorkReward entry window \<and> fst (stock_step op e)")
    case True
    then obtain entry window where op: "op = WorkReward entry window" "fst (stock_step op e)" by blast
    then have "rewarded (op # ops) e = window # rewarded ops ?e" by simp
    then show ?thesis using IH up stock_step_window(2) [OF op] by (simp add: list_all_iff)
  next
    case False
    then have "rewarded (op # ops) e = rewarded ops ?e" by (cases op) auto
    then show ?thesis using IH(1) up by simp
  qed
qed simp

lemma stock_run_ok: "stock_ok (stock_run ops)"
  by (induction ops rule: rev_induct)
     (simp add: stock_run_def stock_ok_def Economy_init_def, use stock_step_ok in \<open>simp add: stock_run_def\<close>)

section \<open>Properties\<close>

text \<open>
  C38: An agent with a role is only ever told to do what its role allows: the idle activity and the
  recovery activity always are, and self-care is either nothing or something allowed, whatever the
  hunger, the fatigue, the time of day and the memories.
\<close>
theorem role_activities_allowed:
  assumes "KnownRole role"
  shows "Allows role (IdleActivity role phase work hunger fatigue depot) \<and> Allows role (RecoveryActivity role hunger danger depot) \<and>
    CuratedSelfCare role hunger fatigue food depot \<in> insert Act_None {a. Allows role a}"
  using IdleActivity_allowed [OF assms] RecoveryActivity_allowed [OF assms] CuratedSelfCare_allowed by blast

theorem role_activities_allowed_witness:
  "Allows Role_Prey (IdleActivity Role_Prey 4 True (Fin 1) (Fin 0) False) \<and> IdleActivity Role_Prey 4 True (Fin 1) (Fin 0) False = Act_Graze"
proof -
  have "KnownRole Role_Prey" by (simp add: KnownRole_def)
  note a = role_activities_allowed [OF this, of 4 True "Fin 1" "Fin 0" False False 0]
  have "IdleActivity Role_Prey 4 True (Fin 1) (Fin 0) False = Act_Graze" by code_simp
  then show ?thesis using a by blast
qed

text \<open>
  Work pays once: in any sequence of finished work windows, meals and foraging, the rewarded
  windows strictly increase, so none is rewarded twice, and a worker's food and material never
  exceed twenty.
\<close>
theorem work_rewarded_once:
  "sorted_wrt (<) (rewarded ops Economy_init) \<and> ec_Food (stock_run ops) \<le> 20 \<and> ec_Resource (stock_run ops) \<le> 20"
  using rewarded_increasing [of ops Economy_init] stock_run_ok [of ops] by (simp add: stock_ok_def)

end
