(* ===== verification/Memory_Retrieval.thy ===== *)
theory Memory_Retrieval
  imports Agent_Memory "HOL-Library.Multiset"
begin

text \<open>
  Which memories an agent is reminded of (\<open>Memory/MemoryRetrieval\<close>): the relevance scores of the
  two tiers, computed in binary32 and binary64 as the code does, the merging of records of the
  same thing, the ranking and the cut. \<open>std::sort\<close> gives no order to records whose keys are all
  equal; the model keeps theirs.
\<close>

section \<open>Queries and results\<close>

datatype MemoryTier = ShortTerm | LongTerm

fun MemoryTier_ToString :: "MemoryTier \<Rightarrow> string" where
  "MemoryTier_ToString ShortTerm = ''SHORT_TERM''"
| "MemoryTier_ToString LongTerm = ''LONG_TERM''"

record MemoryQueryContext =
  mq_Agent :: AgentId
  mq_NowMs :: u64
  mq_MapId :: u32
  mq_X :: flt
  mq_Y :: flt
  mq_Z :: flt

record RetrievedMemory =
  rm_Tier :: MemoryTier
  rm_MemoryId :: u64
  rm_Type :: ObservationType
  rm_Importance :: flt
  rm_Relevance :: flt
  rm_SourceEventId :: u64
  rm_SourceOccurredAtMs :: u64
  rm_SourceEventType :: "WorldEventType option"
  rm_FirstObservedAtMs :: u64
  rm_LastObservedAtMs :: u64
  rm_Location :: WorldEventLocation
  rm_Actor :: WorldEntityRef
  rm_Target :: WorldEntityRef
  rm_Owner :: AgentId
  rm_Raid :: "RaidExperience option"

section \<open>Scores\<close>

definition ScoreLocality :: "MemoryQueryContext \<Rightarrow> WorldEventLocation \<Rightarrow> flt" where
  "ScoreLocality context location =
     (if loc_MapId location \<noteq> mq_MapId context then Fin 0
      else let dx = flt_sub (loc_X location) (mq_X context);
               dy = flt_sub (loc_Y location) (mq_Y context);
               dz = flt_sub (loc_Z location) (mq_Z context);
               distance = flt_sqrt (flt_add (flt_add (flt_mul dx dx) (flt_mul dy dy)) (flt_mul dz dz))
           in flt_sub (Fin 1) (flt_clamp (flt_div distance (Fin 200)) (Fin 0) (Fin 1)))"

definition Relevance :: "flt \<Rightarrow> flt \<Rightarrow> flt \<Rightarrow> flt" where
  "Relevance importance freshness locality =
     flt_add (flt_add (flt_mul (rnd32 (55 / 100)) importance) (flt_mul (rnd32 (25 / 100)) freshness))
       (flt_mul (rnd32 (20 / 100)) locality)"

definition ScoreShortTerm :: "MemoryQueryContext \<Rightarrow> MemoryRecord \<Rightarrow> flt" where
  "ScoreShortTerm context memory =
     (let lifetime = mr_ExpiresAtMs memory - mr_LastObservedAtMs memory;
          remaining = (if mr_ExpiresAtMs memory > mq_NowMs context then mr_ExpiresAtMs memory - mq_NowMs context else 0);
          freshness = (if lifetime \<noteq> 0
            then flt_clamp (flt_div (of_word_in Binary32 remaining) (of_word_in Binary32 lifetime)) (Fin 0) (Fin 1)
            else Fin 0)
      in Relevance (mr_Importance memory) freshness (ScoreLocality context (mr_Location memory)))"

definition ScoreLongTerm :: "MemoryQueryContext \<Rightarrow> LongTermMemoryRecord \<Rightarrow> flt" where
  "ScoreLongTerm context memory =
     (let ageMs = (if mq_NowMs context > lt_LastObservedAtMs memory
            then of_word_in Binary64 (mq_NowMs context - lt_LastObservedAtMs memory) else Fin 0);
          freshness = convert_to Binary32 (dbl_div (Fin 1) (dbl_add (Fin 1) (dbl_div ageMs (Fin 86400000))))
      in Relevance (lt_Importance memory) freshness (ScoreLocality context (lt_Location memory)))"

section \<open>Retrieval\<close>

definition SameRaidRetrieved :: "RetrievedMemory \<Rightarrow> RetrievedMemory \<Rightarrow> bool" where
  "SameRaidRetrieved a b =
     (case (rm_Raid a, rm_Raid b) of
        (Some x, Some y) \<Rightarrow>
          rm_Owner a = rm_Owner b \<and> loc_MapId (rm_Location a) = loc_MapId (rm_Location b) \<and> SameRaidExperience x y \<and>
          (rx_Kind x \<noteq> GuardEncounter \<and> rx_Kind x \<noteq> GuardPositionChecked \<or>
             ref_SpawnId (rm_Target a) = ref_SpawnId (rm_Target b)) \<and>
          (rx_Kind x \<noteq> GuardPositionChecked \<or>
             ref_SpawnId (rm_Target a) \<noteq> 0 \<and> SameCheckedGuardLocation (rm_Location a) (rm_Location b))
      | _ \<Rightarrow> False)"

definition IsSameMemory :: "RetrievedMemory \<Rightarrow> RetrievedMemory \<Rightarrow> bool" where
  "IsSameMemory a b = (rm_Type a = rm_Type b \<and>
     (case rm_Type a of
        OT_RaidExperience \<Rightarrow> SameRaidRetrieved a b
      | OT_WorldEvent \<Rightarrow> rm_SourceEventId a = rm_SourceEventId b \<and> rm_SourceOccurredAtMs a = rm_SourceOccurredAtMs b
      | OT_PlayerSeen \<Rightarrow> ref_Guid (rm_Target a) = ref_Guid (rm_Target b)
      | OT_CreatureSeen \<Rightarrow>
          if ref_Agent (rm_Target a) \<noteq> 0 \<or> ref_Agent (rm_Target b) \<noteq> 0
          then ref_Agent (rm_Target a) = ref_Agent (rm_Target b)
          else if ref_SpawnId (rm_Target a) \<noteq> 0 \<or> ref_SpawnId (rm_Target b) \<noteq> 0
          then loc_MapId (rm_Location a) = loc_MapId (rm_Location b) \<and> ref_SpawnId (rm_Target a) = ref_SpawnId (rm_Target b)
          else ref_Guid (rm_Target a) = ref_Guid (rm_Target b)))"

definition RetrievedShortTerm :: "MemoryQueryContext \<Rightarrow> MemoryRecord \<Rightarrow> RetrievedMemory" where
  "RetrievedShortTerm context m =
     \<lparr>rm_Tier = ShortTerm, rm_MemoryId = mr_Id m, rm_Type = mr_Type m, rm_Importance = mr_Importance m,
      rm_Relevance = ScoreShortTerm context m, rm_SourceEventId = mr_SourceEventId m,
      rm_SourceOccurredAtMs = mr_SourceOccurredAtMs m, rm_SourceEventType = mr_SourceEventType m,
      rm_FirstObservedAtMs = mr_FirstObservedAtMs m, rm_LastObservedAtMs = mr_LastObservedAtMs m,
      rm_Location = mr_Location m, rm_Actor = mr_Actor m, rm_Target = mr_Target m, rm_Owner = mr_Owner m,
      rm_Raid = mr_Raid m\<rparr>"

definition RetrievedLongTerm :: "MemoryQueryContext \<Rightarrow> LongTermMemoryRecord \<Rightarrow> RetrievedMemory" where
  "RetrievedLongTerm context m =
     \<lparr>rm_Tier = LongTerm, rm_MemoryId = lt_PersistentId m, rm_Type = lt_Type m, rm_Importance = lt_Importance m,
      rm_Relevance = ScoreLongTerm context m, rm_SourceEventId = lt_SourceEventId m,
      rm_SourceOccurredAtMs = lt_SourceOccurredAtMs m, rm_SourceEventType = lt_SourceEventType m,
      rm_FirstObservedAtMs = lt_FirstObservedAtMs m, rm_LastObservedAtMs = lt_LastObservedAtMs m,
      rm_Location = lt_Location m, rm_Actor = lt_Actor m, rm_Target = lt_Target m, rm_Owner = lt_Owner m,
      rm_Raid = None\<rparr>"

definition CandidateWins :: "RetrievedMemory \<Rightarrow> RetrievedMemory \<Rightarrow> bool" where
  "CandidateWins candidate existing =
     (flt_lt (rm_Relevance existing) (rm_Relevance candidate) \<or>
      flt_eq (rm_Relevance candidate) (rm_Relevance existing) \<and> rm_Tier candidate = LongTerm \<and> rm_Tier existing \<noteq> LongTerm)"

fun Merge_loop :: "RetrievedMemory \<Rightarrow> RetrievedMemory list \<Rightarrow> RetrievedMemory list" where
  "Merge_loop candidate [] = [candidate]"
| "Merge_loop candidate (existing # deduped) =
     (if \<not> IsSameMemory candidate existing then existing # Merge_loop candidate deduped
      else (if CandidateWins candidate existing then candidate else existing) # deduped)"

definition Combined :: "MemoryQueryContext \<Rightarrow> MemoryRecord list \<Rightarrow> LongTermMemoryRecord list \<Rightarrow> RetrievedMemory list" where
  "Combined context shortTerm longTerm =
     map (RetrievedShortTerm context) shortTerm @ map (RetrievedLongTerm context) longTerm"

definition Deduped :: "RetrievedMemory list \<Rightarrow> RetrievedMemory list" where
  "Deduped combined = fold Merge_loop combined []"

text \<open>The comparison as a key: greater relevance, importance and time first, then long-term, then the id.\<close>

definition flt_down :: "flt \<Rightarrow> int \<times> rat" where
  "flt_down x = (case flt_key x of (k, q) \<Rightarrow> (- k, - q))"

definition rank :: "RetrievedMemory \<Rightarrow> (int \<times> rat) \<times> (int \<times> rat) \<times> int \<times> int \<times> u64" where
  "rank m = (flt_down (rm_Relevance m), flt_down (rm_Importance m), - uint (rm_LastObservedAtMs m),
     (if rm_Tier m = LongTerm then 0 else 1), rm_MemoryId m)"

definition Retrieve :: "MemoryQueryContext \<Rightarrow> MemoryRecord list \<Rightarrow> LongTermMemoryRecord list \<Rightarrow> nat \<Rightarrow> RetrievedMemory list" where
  "Retrieve context shortTerm longTerm maxResults =
     (let deduped = sort_key rank (Deduped (Combined context shortTerm longTerm)) in
      if length deduped > maxResults then take maxResults deduped else deduped)"

section \<open>Scores lie between zero and one\<close>

definition in_unit :: "flt \<Rightarrow> bool" where
  "in_unit x \<longleftrightarrow> flt_le (Fin 0) x \<and> flt_le x (Fin 1)"

lemma in_unit_Fin [simp]: "in_unit (Fin q) \<longleftrightarrow> 0 \<le> q \<and> q \<le> 1"
  by (simp add: in_unit_def)

lemma in_unit_iff: "in_unit x \<longleftrightarrow> (\<exists>q. x = Fin q \<and> 0 \<le> q \<and> q \<le> 1)"
  by (cases x) (auto simp: in_unit_def flt_le_def)

lemma flt_le_trans: "flt_le a b \<Longrightarrow> flt_le b c \<Longrightarrow> flt_le a c"
  by (cases a; cases b; cases c) (auto simp: flt_le_def)

lemma clamp_unit: "v \<noteq> NaN \<Longrightarrow> in_unit (flt_clamp v (Fin 0) (Fin 1))"
  using clamp_range [of "Fin 0" "Fin 1" v 0 1] by (auto simp: in_unit_iff)

lemma round_between:
  assumes "l \<le> q" and "q \<le> u" and "round_to f l = Fin l'" and "round_to f u = Fin u'"
  shows "\<exists>r. round_to f q = Fin r \<and> l' \<le> r \<and> r \<le> u'"
  using round_to_mono [OF assms(1), of f] round_to_mono [OF assms(2), of f] assms(3,4)
  by (cases "round_to f q") (auto simp: flt_le_def)

lemma round_unit: "0 \<le> q \<Longrightarrow> q \<le> 1 \<Longrightarrow> in_unit (round_to f q)"
  using round_between [of 0 q 1 f 0 1] by (auto simp: in_unit_iff)

lemma one_minus_unit: "in_unit x \<Longrightarrow> in_unit (flt_sub (Fin 1) x)"
  by (auto simp: in_unit_iff [of x] sub_in_def round_unit)

text \<open>Each weight times a value of the unit interval is at most the weight, and the weights add up to one.\<close>

lemma weights: "rnd32 (55 / 100) = Fin (9227469 / 16777216)" "rnd32 (25 / 100) = Fin (1 / 4)" "rnd32 (20 / 100) = Fin (13421773 / 67108864)"
  by code_simp+

lemma weighted:
  assumes "in_unit x" and "round_to f w = Fin w" and "0 \<le> w"
  shows "\<exists>q. mul_in f (Fin w) x = Fin q \<and> 0 \<le> q \<and> q \<le> w"
proof -
  obtain q where q: "x = Fin q" "0 \<le> q" "q \<le> 1" using assms(1) by (auto simp: in_unit_iff)
  have "w * q \<le> w" using q assms(3) mult_left_mono [of q 1 w] by simp
  then show ?thesis using round_between [of 0 "w * q" w f 0 w] q assms by simp
qed

lemma weight_rounded: "rnd32 (9227469 / 16777216) = Fin (9227469 / 16777216)" "rnd32 (1 / 4) = Fin (1 / 4)"
    "rnd32 (13421773 / 67108864) = Fin (13421773 / 67108864)"
    "rnd32 (9227469 / 16777216 + 1 / 4) = Fin (13421773 / 16777216)" "rnd32 (13421773 / 16777216 + 13421773 / 67108864) = Fin 1"
  by code_simp+

lemma Relevance_unit:
  assumes "in_unit i" and "in_unit f" and "in_unit l"
  shows "in_unit (Relevance i f l)"
proof -
  obtain a b c where abc:
    "flt_mul (rnd32 (55 / 100)) i = Fin a" "0 \<le> a" "a \<le> 9227469 / 16777216"
    "flt_mul (rnd32 (25 / 100)) f = Fin b" "0 \<le> b" "b \<le> 1 / 4"
    "flt_mul (rnd32 (20 / 100)) l = Fin c" "0 \<le> c" "c \<le> 13421773 / 67108864"
    using weighted [OF assms(1) weight_rounded(1)] weighted [OF assms(2) weight_rounded(2)] weighted [OF assms(3) weight_rounded(3)]
    unfolding weights by auto
  obtain s where s: "rnd32 (a + b) = Fin s" "0 \<le> s" "s \<le> 13421773 / 16777216"
    using round_between [OF _ _ round_to_0 weight_rounded(4), of "a + b"] abc by force
  then have "\<exists>r. rnd32 (s + c) = Fin r \<and> 0 \<le> r \<and> r \<le> 1"
    using abc by (intro round_between [OF _ _ round_to_0 weight_rounded(5)]) simp_all
  then show ?thesis using abc s by (auto simp: Relevance_def in_unit_iff)
qed

lemma root_digits_ge: "r \<le> root_digits n x r"
proof (induction n arbitrary: r)
  case (Suc n)
  have "r + 2 ^ n \<le> root_digits n x (r + 2 ^ n)" by (rule Suc.IH)
  then show ?case using Suc.IH [of r] by (simp add: Let_def) (use zero_le_power [of "2 :: int" n] in linarith)
qed simp

lemma scaled_nonneg: "0 \<le> m \<Longrightarrow> nonneg (Fin (of_int m * pow2 k))"
  using pow2_pos [of k] by (simp add: less_imp_le)

lemma sqrt_nonneg: "nonneg x \<Longrightarrow> nonneg (sqrt_in f x)"
proof (cases x)
  case (Fin a)
  assume "nonneg x"
  moreover have "0 \<le> root_digits n z 0" for n z using root_digits_ge [of 0 n z] .
  ultimately show ?thesis
    using Fin by (simp add: Let_def scaled_nonneg add_nonneg_nonneg del: nonneg_simps(1)) simp
qed simp_all

lemma div_nonneg: "nonneg x \<Longrightarrow> 0 < b \<Longrightarrow> nonneg (div_in f x (Fin b))"
  by (cases x) (simp_all add: round_nonneg flt_inf_def)

definition finite_location :: "WorldEventLocation \<Rightarrow> bool" where
  "finite_location l \<longleftrightarrow> isfinite (loc_X l) \<and> isfinite (loc_Y l) \<and> isfinite (loc_Z l)"

definition finite_query :: "MemoryQueryContext \<Rightarrow> bool" where
  "finite_query q \<longleftrightarrow> isfinite (mq_X q) \<and> isfinite (mq_Y q) \<and> isfinite (mq_Z q)"

lemma nonneg_not_NaN: "nonneg x \<Longrightarrow> x \<noteq> NaN"
  by auto

lemma distance_share:
  assumes "dx \<noteq> NaN" and "dy \<noteq> NaN" and "dz \<noteq> NaN"
  shows "in_unit (flt_clamp (flt_div (flt_sqrt (flt_add (flt_add (flt_mul dx dx) (flt_mul dy dy)) (flt_mul dz dz))) (Fin 200)) (Fin 0) (Fin 1))"
  using assms by (intro clamp_unit nonneg_not_NaN [OF div_nonneg] sqrt_nonneg add_nonneg square_nonneg) simp_all

lemma ScoreLocality_unit:
  assumes "finite_query q" and "finite_location l"
  shows "in_unit (ScoreLocality q l)"
  using assms unfolding ScoreLocality_def Let_def finite_query_def finite_location_def
  by (auto intro!: one_minus_unit distance_share simp: sub_finite)

lemma round_2_64: "round_to f (2 ^ 64) = Fin (2 ^ 64)"
proof -
  have "lowest_place f \<le> 64" "1 \<le> max_digits f" by (cases f; simp add: max_digits_def)+
  then show ?thesis using round_to_exact [of 1 f 64] by (simp add: pow2_def)
qed

lemma of_word_Fin: "\<exists>q. of_word_in f (n :: u64) = Fin q \<and> 0 \<le> q \<and> q \<le> 2 ^ 64 \<and> (n \<noteq> 0 \<longrightarrow> 1 \<le> q)"
proof -
  have u: "(of_nat (unat n) :: rat) \<le> 2 ^ 64"
  proof -
    have "unat n \<le> 2 ^ 64" using unat_u64_bound [of n] by simp
    then have "(of_nat (unat n) :: rat) \<le> of_nat (2 ^ 64)" by (simp only: of_nat_le_iff)
    then show ?thesis by simp
  qed
  have l: "(of_nat (if n = 0 then 0 else 1) :: rat) \<le> of_nat (unat n)"
    unfolding of_nat_le_iff by (simp add: unat_gt_0 Suc_le_eq)
  show ?thesis
    using round_between [OF l u _ round_2_64, of f "if n = 0 then 0 else 1"] by (cases "n = 0") (auto simp: of_word_in_def)
qed

lemma ScoreShortTerm_unit:
  assumes "finite_query q" and "in_unit (mr_Importance m)" and "finite_location (mr_Location m)"
  shows "in_unit (ScoreShortTerm q m)"
proof -
  have "flt_div (of_word_in Binary32 (x :: u64)) (of_word_in Binary32 (y :: u64)) \<noteq> NaN" if "y \<noteq> 0" for x y
    using of_word_Fin [of Binary32 x] of_word_Fin [of Binary32 y] that by auto
  then show ?thesis unfolding ScoreShortTerm_def Let_def
    by (auto intro!: Relevance_unit clamp_unit assms ScoreLocality_unit)
qed

lemma freshness_unit:
  assumes "0 \<le> a" and "a \<le> 2 ^ 64"
  shows "in_unit (convert_to Binary32 (dbl_div (Fin 1) (dbl_add (Fin 1) (dbl_div (Fin a) (Fin 86400000)))))"
proof -
  obtain r where r: "dbl_div (Fin a) (Fin 86400000) = Fin r" "0 \<le> r" "r \<le> 2 ^ 64"
    using round_between [OF _ _ round_to_0 round_2_64, of "a / 86400000" Binary64] assms by auto
  have "round_to Binary64 (2 ^ 65) = Fin (2 ^ 65)"
    using round_to_exact [of 1 Binary64 65] by (simp add: pow2_def max_digits_def)
  then obtain s where s: "dbl_add (Fin 1) (Fin r) = Fin s" "1 \<le> s"
    using round_between [OF _ _ round_to_1, of "1 + r" "2 ^ 65" Binary64] r by auto
  then have "in_unit (round_to Binary64 (1 / s))" by (intro round_unit) simp_all
  then show ?thesis using r s by (auto simp: in_unit_iff [of "round_to Binary64 (1 / s)"] round_unit)
qed

lemma ScoreLongTerm_unit:
  assumes "finite_query q" and "in_unit (lt_Importance m)" and "finite_location (lt_Location m)"
  shows "in_unit (ScoreLongTerm q m)"
proof -
  have "\<exists>a. (if mq_NowMs q > lt_LastObservedAtMs m then of_word_in Binary64 (mq_NowMs q - lt_LastObservedAtMs m) else Fin 0) = Fin a \<and>
      0 \<le> a \<and> a \<le> 2 ^ 64"
    using of_word_Fin [of Binary64 "mq_NowMs q - lt_LastObservedAtMs m"] by auto
  then show ?thesis unfolding ScoreLongTerm_def Let_def
    by (auto intro!: Relevance_unit assms ScoreLocality_unit simp del: div_in.simps add_in.simps simp: freshness_unit)
qed

section \<open>Merging\<close>

datatype memory_key = Key_Event u64 u64 | Key_Player u64 | Key_Agent u64 | Key_Spawn u32 u64 | Key_Creature u64

definition memory_key :: "RetrievedMemory \<Rightarrow> memory_key option" where
  "memory_key m = (let t = rm_Target m in case rm_Type m of
     OT_RaidExperience \<Rightarrow> None
   | OT_WorldEvent \<Rightarrow> Some (Key_Event (rm_SourceEventId m) (rm_SourceOccurredAtMs m))
   | OT_PlayerSeen \<Rightarrow> Some (Key_Player (ref_Guid t))
   | OT_CreatureSeen \<Rightarrow> Some (if ref_Agent t \<noteq> 0 then Key_Agent (ref_Agent t)
       else if ref_SpawnId t \<noteq> 0 then Key_Spawn (loc_MapId (rm_Location m)) (ref_SpawnId t)
       else Key_Creature (ref_Guid t)))"

lemma IsSameMemory_iff:
  "IsSameMemory a b \<longleftrightarrow> rm_Type a = rm_Type b \<and>
     (if rm_Type a = OT_RaidExperience then SameRaidRetrieved a b else memory_key a = memory_key b)"
  by (cases "rm_Type a"; cases "rm_Type b") (simp_all add: IsSameMemory_def memory_key_def Let_def)

lemma memory_key_type: "memory_key a = memory_key b \<Longrightarrow> memory_key a \<noteq> None \<Longrightarrow> rm_Type a = rm_Type b"
  by (cases "rm_Type a"; cases "rm_Type b") (simp_all add: memory_key_def Let_def split: if_splits)

lemma memory_key_None: "memory_key a = None \<longleftrightarrow> rm_Type a = OT_RaidExperience"
  by (cases "rm_Type a") (simp_all add: memory_key_def Let_def)

lemma IsSameMemory_key:
  "memory_key a \<noteq> None \<Longrightarrow> IsSameMemory a b \<longleftrightarrow> memory_key a = memory_key b"
  "IsSameMemory a b \<Longrightarrow> memory_key a = memory_key b"
  using memory_key_type [of a b] memory_key_None [of a] memory_key_None [of b] by (auto simp: IsSameMemory_iff split: if_splits)

definition keys_of :: "RetrievedMemory list \<Rightarrow> memory_key option list" where
  "keys_of ms = filter (\<lambda>k. k \<noteq> None) (map memory_key ms)"

lemma Merge_keys:
  "map memory_key (Merge_loop c D) = map memory_key D @ (if \<exists>d \<in> set D. IsSameMemory c d then [] else [memory_key c])"
  by (induction D) (auto simp: IsSameMemory_key(2))

lemma Merge_distinct: "distinct (keys_of D) \<Longrightarrow> distinct (keys_of (Merge_loop c D))"
  by (auto simp: keys_of_def Merge_keys IsSameMemory_key(1))

lemma Merge_subset: "set (Merge_loop c D) \<subseteq> insert c (set D)"
  by (induction D) auto

text \<open>A memory stands for those of the same thing that are no more relevant.\<close>

definition covers :: "RetrievedMemory \<Rightarrow> RetrievedMemory \<Rightarrow> bool" where
  "covers e m \<longleftrightarrow> memory_key e = memory_key m \<and> flt_le (rm_Relevance m) (rm_Relevance e)"

definition rated :: "RetrievedMemory \<Rightarrow> bool" where
  "rated m \<longleftrightarrow> in_unit (rm_Relevance m)"

lemma covers_refl: "rated m \<Longrightarrow> covers m m"
  by (auto simp: covers_def rated_def in_unit_iff)

lemma covers_trans: "covers a b \<Longrightarrow> covers b c \<Longrightarrow> rated a \<Longrightarrow> rated b \<Longrightarrow> rated c \<Longrightarrow> covers a c"
  by (auto simp: covers_def rated_def in_unit_iff)

lemma Wins_covers:
  "IsSameMemory c e \<Longrightarrow> rated c \<Longrightarrow> rated e \<Longrightarrow> if CandidateWins c e then covers c e else covers e c"
  using IsSameMemory_key(2) [of c e] by (auto simp: CandidateWins_def covers_def rated_def in_unit_iff)

lemma Merge_covers:
  "\<lbrakk>rated c; \<forall>d \<in> set D. rated d; m \<in> insert c (set D)\<rbrakk> \<Longrightarrow> \<exists>e \<in> set (Merge_loop c D). covers e m"
proof (induction D)
  case (Cons d D)
  then show ?case
    using Wins_covers [of c d] covers_refl by (auto split: if_splits)
qed (simp add: covers_refl)

lemma Deduped_snoc: "Deduped (ms @ [m]) = Merge_loop m (Deduped ms)"
  by (simp add: Deduped_def)

lemma Deduped_facts:
  assumes "\<forall>m \<in> set ms. rated m"
  shows "set (Deduped ms) \<subseteq> set ms \<and> distinct (keys_of (Deduped ms)) \<and> (\<forall>m \<in> set ms. \<exists>e \<in> set (Deduped ms). covers e m)"
  using assms
proof (induction ms rule: rev_induct)
  case Nil
  then show ?case by (simp add: Deduped_def keys_of_def)
next
  case (snoc c ms)
  let ?D = "Deduped ms"
  have D: "set ?D \<subseteq> set ms" "distinct (keys_of ?D)" "\<forall>m \<in> set ms. \<exists>e \<in> set ?D. covers e m" and c: "rated c"
    using snoc by auto
  have rated: "\<forall>d \<in> set ?D. rated d" using D(1) snoc.prems by auto
  have "\<exists>e \<in> set (Merge_loop c ?D). covers e m" if m: "m \<in> set (ms @ [c])" for m
  proof (cases "m = c")
    case True
    then show ?thesis using Merge_covers [OF c rated] by blast
  next
    case False
    then obtain d where d: "d \<in> set ?D" "covers d m" using m D(3) by auto
    then obtain e where e: "e \<in> set (Merge_loop c ?D)" "covers e d" using Merge_covers [OF c rated, of d] by blast
    moreover have "rated e" using e(1) Merge_subset [of c ?D] rated c by auto
    ultimately have "covers e m" using d rated m snoc.prems by (intro covers_trans [of e d m]) auto
    then show ?thesis using e(1) by blast
  qed
  then show ?case using D Merge_distinct Merge_subset [of c ?D] by (auto simp: Deduped_snoc)
qed

section \<open>Ranking\<close>

text \<open>The comparison of the sort, as the code writes it.\<close>

definition Before :: "RetrievedMemory \<Rightarrow> RetrievedMemory \<Rightarrow> bool" where
  "Before a b =
     (if \<not> flt_eq (rm_Relevance a) (rm_Relevance b) then flt_lt (rm_Relevance b) (rm_Relevance a)
      else if \<not> flt_eq (rm_Importance a) (rm_Importance b) then flt_lt (rm_Importance b) (rm_Importance a)
      else if rm_LastObservedAtMs a \<noteq> rm_LastObservedAtMs b then rm_LastObservedAtMs a > rm_LastObservedAtMs b
      else if rm_Tier a \<noteq> rm_Tier b then rm_Tier a = LongTerm
      else rm_MemoryId a < rm_MemoryId b)"

lemma flt_down_less: "a \<noteq> NaN \<Longrightarrow> b \<noteq> NaN \<Longrightarrow> flt_down a < flt_down b \<longleftrightarrow> flt_lt b a"
  by (cases a; cases b) (simp_all add: flt_down_def)

lemma flt_down_eq: "a \<noteq> NaN \<Longrightarrow> b \<noteq> NaN \<Longrightarrow> flt_down a = flt_down b \<longleftrightarrow> flt_eq a b"
  by (cases a; cases b) (simp_all add: flt_down_def)

lemma MemoryTier_cases: "t \<noteq> LongTerm \<longleftrightarrow> t = ShortTerm"
  by (cases t) simp_all

lemma pair_less: "((a :: 'a :: linorder), (b :: 'b :: linorder)) < (c, d) \<longleftrightarrow> a < c \<or> a = c \<and> b < d"
  by auto

lemma flt_lt_not_eq: "flt_lt a b \<Longrightarrow> \<not> flt_eq b a"
  by (cases a; cases b) simp_all

lemma Before_rank:
  assumes "rm_Relevance a \<noteq> NaN" "rm_Relevance b \<noteq> NaN" "rm_Importance a \<noteq> NaN" "rm_Importance b \<noteq> NaN"
  shows "Before a b \<longleftrightarrow> rank a < rank b"
proof -
  have tier: "(if rm_Tier a = LongTerm then 0 else 1 :: int) < (if rm_Tier b = LongTerm then 0 else 1) \<longleftrightarrow>
      rm_Tier a \<noteq> rm_Tier b \<and> rm_Tier a = LongTerm"
    "(if rm_Tier a = LongTerm then 0 else 1 :: int) = (if rm_Tier b = LongTerm then 0 else 1) \<longleftrightarrow> rm_Tier a = rm_Tier b"
    by (cases "rm_Tier a"; cases "rm_Tier b"; simp)+
  have time: "- uint (rm_LastObservedAtMs a) < - uint (rm_LastObservedAtMs b) \<longleftrightarrow> rm_LastObservedAtMs b < rm_LastObservedAtMs a"
    "- uint (rm_LastObservedAtMs a) = - uint (rm_LastObservedAtMs b) \<longleftrightarrow> rm_LastObservedAtMs a = rm_LastObservedAtMs b"
    by (simp_all add: word_less_def word_uint_eq_iff)
  show ?thesis
    unfolding rank_def pair_less tier time flt_down_less [OF assms(1,2)] flt_down_eq [OF assms(1,2)]
      flt_down_less [OF assms(3,4)] flt_down_eq [OF assms(3,4)] Before_def
    using flt_lt_not_eq by (auto simp del: not_None_eq)
qed

lemma Retrieve_take: "Retrieve q st lt n = take n (sort_key rank (Deduped (Combined q st lt)))"
  by (simp add: Retrieve_def Let_def)

lemma rank_relevance: "rated a \<Longrightarrow> rated b \<Longrightarrow> rank a \<le> rank b \<Longrightarrow> flt_le (rm_Relevance b) (rm_Relevance a)"
  by (auto simp: rank_def rated_def in_unit_iff flt_down_def less_eq_prod_def)

definition usable_short :: "MemoryRecord \<Rightarrow> bool" where
  "usable_short m \<longleftrightarrow> in_unit (mr_Importance m) \<and> finite_location (mr_Location m)"

definition usable_long :: "LongTermMemoryRecord \<Rightarrow> bool" where
  "usable_long m \<longleftrightarrow> in_unit (lt_Importance m) \<and> finite_location (lt_Location m)"

lemma Combined_rated:
  assumes "finite_query q" and "list_all usable_short st" and "list_all usable_long lt"
  shows "\<forall>m \<in> set (Combined q st lt). rated m \<and> rm_Importance m \<noteq> NaN"
proof -
  have "rated (RetrievedShortTerm q m)" "rm_Importance (RetrievedShortTerm q m) \<noteq> NaN" if "m \<in> set st" for m
    using assms that ScoreShortTerm_unit [OF assms(1), of m]
    by (auto simp: list_all_iff usable_short_def rated_def RetrievedShortTerm_def in_unit_iff)
  moreover have "rated (RetrievedLongTerm q m)" "rm_Importance (RetrievedLongTerm q m) \<noteq> NaN" if "m \<in> set lt" for m
    using assms that ScoreLongTerm_unit [OF assms(1), of m]
    by (auto simp: list_all_iff usable_long_def rated_def RetrievedLongTerm_def in_unit_iff)
  ultimately show ?thesis by (auto simp: Combined_def)
qed

lemma distinct_keys_sort_take: "distinct (keys_of D) \<Longrightarrow> distinct (keys_of (take n (sort_key k D)))"
proof -
  assume d: "distinct (keys_of D)"
  have "mset (keys_of (sort_key k D)) = mset (keys_of D)" by (simp add: keys_of_def mset_map)
  with d have "distinct (keys_of (sort_key k D))" by (metis mset_eq_imp_distinct_iff)
  moreover have "keys_of (sort_key k D) = keys_of (take n (sort_key k D)) @ keys_of (drop n (sort_key k D))"
    unfolding keys_of_def by (simp add: filter_append [symmetric] map_append [symmetric] del: filter_append map_append)
  ultimately show ?thesis by simp
qed

lemma sorted_take_drop:
  assumes "a \<in> set (take n (sort_key k D))" and "b \<in> set (drop n (sort_key k D))"
  shows "k a \<le> (k b :: 'b :: linorder)"
proof -
  have "sorted (map k (take n (sort_key k D)) @ map k (drop n (sort_key k D)))"
    by (simp add: map_append [symmetric] del: map_append)
  then show ?thesis using assms by (simp add: sorted_append)
qed

lemma Retrieve_facts:
  assumes "finite_query q" and "list_all usable_short st" and "list_all usable_long lt"
  shows "sorted_wrt (\<lambda>a b. \<not> Before b a) (Retrieve q st lt n) \<and> distinct (keys_of (Retrieve q st lt n)) \<and>
    (\<forall>m \<in> set (Combined q st lt). (\<exists>r \<in> set (Retrieve q st lt n). covers r m) \<or>
       length (Retrieve q st lt n) = n \<and> list_all (\<lambda>r. flt_le (rm_Relevance m) (rm_Relevance r)) (Retrieve q st lt n))"
proof -
  let ?all = "Combined q st lt" and ?D = "Deduped (Combined q st lt)"
  let ?s = "sort_key rank ?D"
  note ok = Combined_rated [OF assms]
  have D: "set ?D \<subseteq> set ?all" "distinct (keys_of ?D)" "\<forall>m \<in> set ?all. \<exists>e \<in> set ?D. covers e m"
    using Deduped_facts [of ?all] ok by auto
  have sub: "set (Retrieve q st lt n) \<subseteq> set ?all" using D(1) set_take_subset [of n ?s] by (auto simp: Retrieve_take)
  have "sorted_wrt (\<lambda>a b. rank a \<le> rank b) (Retrieve q st lt n)"
    using sorted_sort_key [of rank ?D] by (simp add: Retrieve_take sorted_map sorted_wrt_take)
  then have sorted: "sorted_wrt (\<lambda>a b. \<not> Before b a) (Retrieve q st lt n)"
  proof (rule sorted_wrt_mono_rel [rotated])
    fix a b
    assume "a \<in> set (Retrieve q st lt n)" "b \<in> set (Retrieve q st lt n)" and le: "rank a \<le> rank b"
    then have "rated a" "rm_Importance a \<noteq> NaN" "rated b" "rm_Importance b \<noteq> NaN" using sub ok by auto
    then have "Before b a \<longleftrightarrow> rank b < rank a" by (intro Before_rank) (auto simp: rated_def in_unit_iff)
    then show "\<not> Before b a" using le by simp
  qed
  have "(\<exists>r \<in> set (Retrieve q st lt n). covers r m) \<or>
       length (Retrieve q st lt n) = n \<and> list_all (\<lambda>r. flt_le (rm_Relevance m) (rm_Relevance r)) (Retrieve q st lt n)"
    if m: "m \<in> set ?all" for m
  proof -
    obtain e where e: "e \<in> set ?D" "covers e m" using D(3) m by blast
    show ?thesis
    proof (cases "e \<in> set (take n ?s)")
      case True
      then have "e \<in> set (Retrieve q st lt n)" by (simp only: Retrieve_take)
      then show ?thesis using e(2) by blast
    next
      case False
      have "e \<in> set (take n ?s @ drop n ?s)" using e(1) by (simp only: append_take_drop_id set_sort)
      with False have d: "e \<in> set (drop n ?s)" by (simp only: set_append Un_iff simp_thms)
      have "length ?s > n"
      proof (rule ccontr)
        assume "\<not> length ?s > n"
        then have "drop n ?s = []" by simp
        then show False using d by simp
      qed
      moreover have "flt_le (rm_Relevance m) (rm_Relevance r)" if r: "r \<in> set (take n ?s)" for r
      proof -
        have "r \<in> set ?all" "e \<in> set ?all" using r e D(1) set_take_subset [of n ?s] by auto
        then have "flt_le (rm_Relevance e) (rm_Relevance r)" using sorted_take_drop [OF r d] ok by (auto intro: rank_relevance)
        then show ?thesis using e(2) flt_le_trans by (auto simp: covers_def)
      qed
      ultimately show ?thesis by (simp add: Retrieve_take list_all_iff)
    qed
  qed
  then show ?thesis using sorted D(2) distinct_keys_sort_take [of ?D n rank] by (simp add: Retrieve_take)
qed

lemma Retrieve_subset: "length (Retrieve q st lt n) \<le> n \<and> set (Retrieve q st lt n) \<subseteq> set (Combined q st lt)"
proof -
  have "set (Deduped ms) \<subseteq> set ms" for ms
  proof (induction ms rule: rev_induct)
    case (snoc m ms)
    then show ?case using Merge_subset [of m "Deduped ms"] by (auto simp: Deduped_snoc)
  qed (simp add: Deduped_def)
  then show ?thesis using set_take_subset [of n "sort_key rank (Deduped (Combined q st lt))"] by (force simp: Retrieve_take)
qed

section \<open>Properties\<close>

text \<open>
  Whatever the memories, the relevance of each stays between zero and one: for importances in
  that range and finite coordinates the binary32 and binary64 computation of both scores never
  leaves it, not by overflow, not by rounding, not by a NaN from very distant or very old records.
\<close>
theorem memory_scores_bounded:
  assumes "finite_query q" and "usable_short m" and "usable_long l"
  shows "in_unit (ScoreShortTerm q m) \<and> in_unit (ScoreLongTerm q l)"
  using assms by (simp add: ScoreShortTerm_unit ScoreLongTerm_unit usable_short_def usable_long_def)

definition sample_place :: WorldEventLocation where
  "sample_place = \<lparr>loc_MapId = 0, loc_X = Fin 3, loc_Y = Fin 4, loc_Z = Fin 0\<rparr>"

definition sample_ref :: WorldEntityRef where
  "sample_ref = \<lparr>ref_Guid = 5, ref_SpawnId = 0, ref_Entry = 0, ref_Agent = 8\<rparr>"

definition sample_query :: MemoryQueryContext where
  "sample_query = \<lparr>mq_Agent = 1, mq_NowMs = 500, mq_MapId = 0, mq_X = Fin 0, mq_Y = Fin 0, mq_Z = Fin 0\<rparr>"

definition sample_short :: MemoryRecord where
  "sample_short = \<lparr>mr_Id = 1, mr_Owner = 1, mr_Type = OT_CreatureSeen, mr_Importance = Fin (1 / 2), mr_SourceEventId = 0,
     mr_CorrelationId = 0, mr_SourceOccurredAtMs = 0, mr_SourceEventType = None, mr_FirstObservedAtMs = 100,
     mr_LastObservedAtMs = 100, mr_ExpiresAtMs = 1100, mr_ObservationCount = 1, mr_Location = sample_place,
     mr_Actor = sample_ref, mr_Target = sample_ref, mr_Channel = Sight, mr_LastDistance = Fin 5, mr_LastLineOfSight = True,
     mr_Raid = None\<rparr>"

definition sample_long :: LongTermMemoryRecord where
  "sample_long = \<lparr>lt_PersistentId = 1, lt_Owner = 1, lt_Type = OT_CreatureSeen, lt_Importance = Fin (1 / 2), lt_SourceEventId = 0,
     lt_CorrelationId = 0, lt_SourceOccurredAtMs = 0, lt_SourceEventType = None, lt_FirstObservedAtMs = 100,
     lt_LastObservedAtMs = 100, lt_ObservationCount = 1, lt_Location = sample_place, lt_Actor = sample_ref,
     lt_Target = sample_ref, lt_Channel = Sight\<rparr>"

lemma sample_usable: "finite_query sample_query" "usable_short sample_short" "usable_long sample_long"
  by (simp_all add: finite_query_def sample_query_def usable_short_def usable_long_def sample_short_def sample_long_def
      finite_location_def sample_place_def)

theorem memory_scores_bounded_witness:
  "in_unit (ScoreShortTerm sample_query sample_short) \<and> in_unit (ScoreLongTerm sample_query sample_long)"
  by (rule memory_scores_bounded [OF sample_usable])

text \<open>
  C37: Retrieval returns the most relevant memories: at most the requested number of them, each a
  stored record with its score, in the order of the comparison; no two of the same event, player
  or creature; and a stored memory of one that neither is returned nor has an at least as relevant one of
  the same thing among the results was pushed out by a full list of at least as relevant ones.
\<close>
theorem memory_retrieval_exact:
  assumes "finite_query q" and "list_all usable_short st" and "list_all usable_long lt"
  shows "length (Retrieve q st lt n) \<le> n \<and> set (Retrieve q st lt n) \<subseteq> set (Combined q st lt) \<and>
    sorted_wrt (\<lambda>a b. \<not> Before b a) (Retrieve q st lt n) \<and> distinct (keys_of (Retrieve q st lt n)) \<and>
    (\<forall>m \<in> {m \<in> set (Combined q st lt). memory_key m \<noteq> None}. (\<exists>r \<in> set (Retrieve q st lt n). covers r m) \<or>
       length (Retrieve q st lt n) = n \<and> list_all (\<lambda>r. flt_le (rm_Relevance m) (rm_Relevance r)) (Retrieve q st lt n))"
  using Retrieve_facts [OF assms] Retrieve_subset by blast

lemma sample_memories: "Combined sample_query [sample_short] [sample_long] =
    [RetrievedShortTerm sample_query sample_short, RetrievedLongTerm sample_query sample_long]"
  by (simp add: Combined_def)

lemma sample_key: "memory_key (RetrievedShortTerm sample_query sample_short) \<noteq> None"
  by (simp add: memory_key_def Let_def RetrievedShortTerm_def sample_short_def)

theorem memory_retrieval_exact_witness:
  "length (Retrieve sample_query [sample_short] [sample_long] 1) \<le> 1 \<and>
    ((\<exists>r \<in> set (Retrieve sample_query [sample_short] [sample_long] 1). covers r (RetrievedShortTerm sample_query sample_short)) \<or>
     list_all (\<lambda>r. flt_le (rm_Relevance (RetrievedShortTerm sample_query sample_short)) (rm_Relevance r))
       (Retrieve sample_query [sample_short] [sample_long] 1))"
proof -
  have "list_all usable_short [sample_short]" "list_all usable_long [sample_long]" by (simp_all add: sample_usable)
  note exact = memory_retrieval_exact [OF sample_usable(1) this, of 1]
  moreover have "RetrievedShortTerm sample_query sample_short \<in> {m \<in> set (Combined sample_query [sample_short] [sample_long]). memory_key m \<noteq> None}"
    using sample_key by (simp add: sample_memories)
  ultimately show ?thesis by blast
qed

end
