(* ===== verification/Needs_Goals.thy ===== *)
theory Needs_Goals
  imports Memory_Retrieval Task_Validation
begin

text \<open>
  What drives an agent: the pressures of \<open>Needs/NeedsSystem\<close> (growth, memories of danger,
  thresholds with hysteresis), the goals of \<open>Goal/GoalSystem\<close> (candidates, priorities, preemption,
  completion, timeout) and the daily routine of \<open>Goal/RoutineSystem\<close> and
  \<open>Goal/RoutineActivitySystem\<close>. All arithmetic is binary32, rounded as the code rounds.
\<close>

section \<open>Needs\<close>

record NeedsState =
  ns_HealthPressure :: flt
  ns_Hunger :: flt
  ns_Fatigue :: flt
  ns_SafetyPressure :: flt
  ns_ResourcePressure :: flt

definition NeedsState_init :: NeedsState where
  "NeedsState_init = \<lparr>ns_HealthPressure = Fin 0, ns_Hunger = Fin 0, ns_Fatigue = Fin 0, ns_SafetyPressure = Fin 0,
     ns_ResourcePressure = Fin 0\<rparr>"

record NeedsUpdateRates =
  nr_HungerPerSecond :: flt
  nr_FatiguePerSecond :: flt
  nr_ResourcePressurePerSecond :: flt

record NeedsUpdateContext =
  nc_Health :: u32
  nc_MaxHealth :: u32
  nc_Alive :: bool
  nc_InCombat :: bool
  nc_MemorySafetyPressure :: flt

datatype NeedsThresholdEventType = HungerCritical | DangerHigh

fun NeedsThresholdEventType_ToString :: "NeedsThresholdEventType \<Rightarrow> string" where
  "NeedsThresholdEventType_ToString HungerCritical = ''HUNGER_CRITICAL''"
| "NeedsThresholdEventType_ToString DangerHigh = ''DANGER_HIGH''"

record NeedsThresholdEvent =
  ne_Type :: NeedsThresholdEventType
  ne_Value :: flt

record NeedsThresholdState =
  nt_HungerCriticalActive :: bool
  nt_DangerHighActive :: bool

definition IsDangerousEventType :: "WorldEventType \<Rightarrow> bool" where
  "IsDangerousEventType type = (case type of
     CreatureKilled \<Rightarrow> True
   | NPCInjured \<Rightarrow> True
   | LivestockKilled \<Rightarrow> True
   | WolfPackMoved \<Rightarrow> True
   | NPCDied \<Rightarrow> True
   | _ \<Rightarrow> False)"

definition CriticalEnterThreshold :: flt where
  "CriticalEnterThreshold = rnd32 (80 / 100)"

definition CriticalResetThreshold :: flt where
  "CriticalResetThreshold = rnd32 (60 / 100)"

abbreviation clamp01 :: "flt \<Rightarrow> flt" where
  "clamp01 v \<equiv> flt_clamp v (Fin 0) (Fin 1)"

definition Needs_Update :: "NeedsUpdateContext \<Rightarrow> u32 \<Rightarrow> NeedsUpdateRates \<Rightarrow> NeedsState \<Rightarrow> NeedsState" where
  "Needs_Update context elapsedMs rates state =
     (if \<not> nc_Alive context then state\<lparr>ns_HealthPressure := Fin 1\<rparr>
      else let dtSeconds = flt_div (of_word_in Binary32 elapsedMs) (Fin 1000) in
        \<lparr>ns_HealthPressure = (if nc_MaxHealth context = 0 then Fin 1
           else flt_sub (Fin 1) (clamp01 (flt_div (of_word_in Binary32 (nc_Health context)) (of_word_in Binary32 (nc_MaxHealth context))))),
         ns_Hunger = clamp01 (flt_add (ns_Hunger state) (flt_mul (nr_HungerPerSecond rates) dtSeconds)),
         ns_Fatigue = clamp01 (flt_add (ns_Fatigue state) (flt_mul (nr_FatiguePerSecond rates) dtSeconds)),
         ns_SafetyPressure = (if nc_InCombat context then Fin 1 else clamp01 (nc_MemorySafetyPressure context)),
         ns_ResourcePressure = clamp01 (flt_add (ns_ResourcePressure state) (flt_mul (nr_ResourcePressurePerSecond rates) dtSeconds))\<rparr>)"

fun MemorySafety_loop :: "u64 \<Rightarrow> u32 \<Rightarrow> flt \<Rightarrow> RetrievedMemory list \<Rightarrow> flt" where
  "MemorySafety_loop nowMs recentWindowMs pressure [] = pressure"
| "MemorySafety_loop nowMs recentWindowMs pressure (memory # memories) =
     MemorySafety_loop nowMs recentWindowMs
       (case rm_SourceEventType memory of
          None \<Rightarrow> pressure
        | Some type \<Rightarrow>
            if \<not> IsDangerousEventType type then pressure
            else if rm_LastObservedAtMs memory > nowMs then pressure
            else let ageMs = nowMs - rm_LastObservedAtMs memory in
              if ageMs \<ge> widen recentWindowMs then pressure
              else let recency = flt_sub (Fin 1) (flt_div (of_word_in Binary32 ageMs) (of_word_in Binary32 recentWindowMs))
                   in flt_max pressure (flt_mul (rm_Importance memory) recency))
       memories"

definition EvaluateMemorySafety :: "RetrievedMemory list \<Rightarrow> u64 \<Rightarrow> u32 \<Rightarrow> flt" where
  "EvaluateMemorySafety memories nowMs recentWindowMs = clamp01 (MemorySafety_loop nowMs recentWindowMs (Fin 0) memories)"

text \<open>One threshold: entered at 0.80, left below 0.60; the event is raised on entering.\<close>

definition evaluate_threshold :: "NeedsThresholdEventType \<Rightarrow> flt \<Rightarrow> bool \<Rightarrow> NeedsThresholdEvent list \<times> bool" where
  "evaluate_threshold type value active =
     (if \<not> active \<and> flt_le CriticalEnterThreshold value then ([\<lparr>ne_Type = type, ne_Value = value\<rparr>], True)
      else if active \<and> flt_lt value CriticalResetThreshold then ([], False)
      else ([], active))"

definition EvaluateThresholds :: "NeedsState \<Rightarrow> NeedsThresholdState \<Rightarrow> NeedsThresholdEvent list \<times> NeedsThresholdState" where
  "EvaluateThresholds state thresholds =
     (let (hungerEvents, hunger) = evaluate_threshold HungerCritical (ns_Hunger state) (nt_HungerCriticalActive thresholds);
          (dangerEvents, danger) = evaluate_threshold DangerHigh (ns_SafetyPressure state) (nt_DangerHighActive thresholds)
      in (hungerEvents @ dangerEvents, \<lparr>nt_HungerCriticalActive = hunger, nt_DangerHighActive = danger\<rparr>))"

definition SatisfyHunger :: "NeedsState \<Rightarrow> NeedsState" where
  "SatisfyHunger state = state\<lparr>ns_Hunger := Fin 0\<rparr>"

section \<open>Goals\<close>

datatype GoalPriority = Normal | Emergency

datatype GoalSource = Needs

datatype GoalStatus = Succeeded | Failed

datatype GoalCompletionReason = NeedSatisfied | Timeout

datatype GoalTransition = NoTransition | Activated | Interrupted | GoalSucceeded | GoalFailed | Released

fun GoalPriority_ToString :: "GoalPriority \<Rightarrow> string" where
  "GoalPriority_ToString Normal = ''NORMAL''"
| "GoalPriority_ToString Emergency = ''EMERGENCY''"

fun GoalStatus_ToString :: "GoalStatus \<Rightarrow> string" where
  "GoalStatus_ToString Succeeded = ''SUCCEEDED''"
| "GoalStatus_ToString Failed = ''FAILED''"

fun GoalCompletionReason_ToString :: "GoalCompletionReason \<Rightarrow> string" where
  "GoalCompletionReason_ToString NeedSatisfied = ''NEED_SATISFIED''"
| "GoalCompletionReason_ToString Timeout = ''TIMEOUT''"

fun GoalTransition_ToString :: "GoalTransition \<Rightarrow> string" where
  "GoalTransition_ToString NoTransition = ''NONE''"
| "GoalTransition_ToString Activated = ''ACTIVATED''"
| "GoalTransition_ToString Interrupted = ''INTERRUPTED''"
| "GoalTransition_ToString GoalSucceeded = ''SUCCEEDED''"
| "GoalTransition_ToString GoalFailed = ''FAILED''"
| "GoalTransition_ToString Released = ''RELEASED''"

record GoalCandidate =
  gc_Type :: GoalType
  gc_Priority :: GoalPriority
  gc_Source :: GoalSource
  gc_Utility :: flt

record ActiveGoal =
  gl_Type :: GoalType
  gl_Priority :: GoalPriority
  gl_Source :: GoalSource
  gl_Utility :: flt
  gl_StartedAtMs :: u64
  gl_TimeoutMs :: u32

record GoalCompletion =
  gk_Type :: GoalType
  gk_Status :: GoalStatus
  gk_Reason :: GoalCompletionReason
  gk_StartedAtMs :: u64
  gk_CompletedAtMs :: u64

record GoalSelectionResult =
  gs_Goal :: "ActiveGoal option"
  gs_Transition :: GoalTransition
  gs_Completion :: "GoalCompletion option"

definition GoalCandidateThreshold :: flt where
  "GoalCandidateThreshold = rnd32 (80 / 100)"

definition GoalRetentionThreshold :: flt where
  "GoalRetentionThreshold = rnd32 (60 / 100)"

fun PriorityRank :: "GoalPriority \<Rightarrow> nat" where
  "PriorityRank Emergency = 2"
| "PriorityRank Normal = 1"

definition NeedValueFor :: "GoalType \<Rightarrow> NeedsState \<Rightarrow> flt" where
  "NeedValueFor type needs =
     (case type of GetFood \<Rightarrow> ns_Hunger needs | FleeDanger \<Rightarrow> ns_SafetyPressure needs | _ \<Rightarrow> Fin 0)"

text \<open>\<open>uint8(type)\<close>: the position in the enumeration.\<close>

fun GoalType_code :: "GoalType \<Rightarrow> nat" where
  "GoalType_code GetFood = 0"
| "GoalType_code FleeDanger = 1"
| "GoalType_code GoToWork = 2"
| "GoalType_code GoHome = 3"
| "GoalType_code Regroup = 4"
| "GoalType_code Roam = 5"
| "GoalType_code Hunt = 6"
| "GoalType_code Defend = 7"
| "GoalType_code Feed = 8"
| "GoalType_code WildlifeRest = 9"
| "GoalType_code LocalActivity = 10"
| "GoalType_code PredatorHunt = 11"
| "GoalType_code SeekSafety = 12"
| "GoalType_code InvestigateDanger = 13"

definition IsBetterCandidate :: "GoalCandidate \<Rightarrow> GoalCandidate \<Rightarrow> bool" where
  "IsBetterCandidate a b =
     (if PriorityRank (gc_Priority a) \<noteq> PriorityRank (gc_Priority b)
      then PriorityRank (gc_Priority a) > PriorityRank (gc_Priority b)
      else if \<not> flt_eq (gc_Utility a) (gc_Utility b) then flt_lt (gc_Utility b) (gc_Utility a)
      else GoalType_code (gc_Type a) < GoalType_code (gc_Type b))"

definition TimeoutFor :: "GoalType \<Rightarrow> u32" where
  "TimeoutFor type = (case type of GetFood \<Rightarrow> 30000 | FleeDanger \<Rightarrow> 30000 | _ \<Rightarrow> 30000)"

definition GenerateCandidates :: "NeedsState \<Rightarrow> bool \<Rightarrow> GoalCandidate list" where
  "GenerateCandidates needs hasFleeSource =
     (if flt_le GoalCandidateThreshold (ns_Hunger needs)
      then [\<lparr>gc_Type = GetFood, gc_Priority = Normal, gc_Source = Needs, gc_Utility = ns_Hunger needs\<rparr>] else []) @
     (if flt_le GoalCandidateThreshold (ns_SafetyPressure needs) \<and> hasFleeSource
      then [\<lparr>gc_Type = FleeDanger, gc_Priority = Emergency, gc_Source = Needs, gc_Utility = ns_SafetyPressure needs\<rparr>] else [])"

fun SelectBest_loop :: "GoalCandidate option \<Rightarrow> GoalCandidate list \<Rightarrow> GoalCandidate option" where
  "SelectBest_loop best [] = best"
| "SelectBest_loop best (candidate # candidates) =
     SelectBest_loop (case best of None \<Rightarrow> Some candidate
       | Some b \<Rightarrow> if IsBetterCandidate candidate b then Some candidate else best) candidates"

definition SelectBest :: "GoalCandidate list \<Rightarrow> GoalCandidate option" where
  "SelectBest candidates = SelectBest_loop None candidates"

definition MakeActiveGoal :: "GoalCandidate \<Rightarrow> u64 \<Rightarrow> ActiveGoal" where
  "MakeActiveGoal candidate nowMs =
     \<lparr>gl_Type = gc_Type candidate, gl_Priority = gc_Priority candidate, gl_Source = gc_Source candidate,
      gl_Utility = gc_Utility candidate, gl_StartedAtMs = nowMs, gl_TimeoutMs = TimeoutFor (gc_Type candidate)\<rparr>"

definition complete_goal :: "GoalStatus \<Rightarrow> GoalCompletionReason \<Rightarrow> ActiveGoal \<Rightarrow> u64 \<Rightarrow> GoalCompletion" where
  "complete_goal status reason g nowMs =
     \<lparr>gk_Type = gl_Type g, gk_Status = status, gk_Reason = reason, gk_StartedAtMs = gl_StartedAtMs g, gk_CompletedAtMs = nowMs\<rparr>"

definition selection :: "ActiveGoal option \<Rightarrow> GoalTransition \<Rightarrow> GoalCompletion option \<Rightarrow> GoalSelectionResult" where
  "selection goal transition completion = \<lparr>gs_Goal = goal, gs_Transition = transition, gs_Completion = completion\<rparr>"

definition UpdateActiveGoal :: "ActiveGoal option \<Rightarrow> NeedsState \<Rightarrow> GoalCandidate list \<Rightarrow> u64 \<Rightarrow> GoalSelectionResult" where
  "UpdateActiveGoal current needs candidates nowMs =
     (case current of
        None \<Rightarrow> (case SelectBest candidates of
            None \<Rightarrow> selection None NoTransition None
          | Some best \<Rightarrow> selection (Some (MakeActiveGoal best nowMs)) Activated None)
      | Some g \<Rightarrow>
          let timedOut = nowMs \<ge> gl_StartedAtMs g \<and> nowMs - gl_StartedAtMs g \<ge> widen (gl_TimeoutMs g);
              otherwise = (if flt_lt (NeedValueFor (gl_Type g) needs) GoalRetentionThreshold
                then selection None GoalSucceeded (Some (complete_goal Succeeded NeedSatisfied g nowMs))
                else if timedOut then selection None GoalFailed (Some (complete_goal Failed Timeout g nowMs))
                else selection current NoTransition None)
          in case SelectBest candidates of
               Some best \<Rightarrow> if PriorityRank (gc_Priority best) > PriorityRank (gl_Priority g)
                 then selection (Some (MakeActiveGoal best nowMs)) Interrupted None else otherwise
             | None \<Rightarrow> otherwise)"

section \<open>Daily routine\<close>

record GoalTarget =
  gt_Guid :: ObjectGuid
  gt_MapId :: u32
  gt_X :: flt
  gt_Y :: flt
  gt_Z :: flt

record RoutineGoal =
  rt_Type :: GoalType
  rt_Target :: GoalTarget

record RoutineScheduleConfig =
  rs_DayLengthMs :: u32
  rs_WorkStartMs :: u32
  rs_WorkEndMs :: u32

record AgentLocation =
  al_MapId :: u32
  al_X :: flt
  al_Y :: flt
  al_Z :: flt
  al_Orientation :: flt

text \<open>
  \<open>uint32(nowMs % config.DayLengthMs)\<close>; the configuration rejects a day of length zero, for which
  the remainder is undefined in C++.
\<close>

definition IsWorkHours :: "u64 \<Rightarrow> RoutineScheduleConfig \<Rightarrow> bool" where
  "IsWorkHours nowMs config =
     (let elapsedInDayMs = (ucast (nowMs mod widen (rs_DayLengthMs config)) :: u32)
      in elapsedInDayMs \<ge> rs_WorkStartMs config \<and> elapsedInDayMs < rs_WorkEndMs config)"

definition DeriveGoal :: "ActiveGoal option \<Rightarrow> AgentLocation option \<Rightarrow> AgentLocation option \<Rightarrow> u64 \<Rightarrow>
    RoutineScheduleConfig \<Rightarrow> RoutineGoal option" where
  "DeriveGoal currentGoal home work nowMs config =
     (case (home, work) of
        (Some homeAt, Some workAt) \<Rightarrow>
          if (case currentGoal of Some g \<Rightarrow> gl_Priority g = Emergency | None \<Rightarrow> False) then None
          else let isWorkHours = IsWorkHours nowMs config; source = (if isWorkHours then workAt else homeAt) in
            Some \<lparr>rt_Type = (if isWorkHours then GoToWork else GoHome),
                  rt_Target = \<lparr>gt_Guid = 0, gt_MapId = al_MapId source, gt_X = al_X source, gt_Y = al_Y source, gt_Z = al_Z source\<rparr>\<rparr>
      | _ \<Rightarrow> None)"

datatype RoutineActivityType = Work | Rest

record RoutineActivityContext =
  rc_CurrentRoutineGoal :: "GoalType option"
  rc_Materialized :: bool
  rc_IsAlive :: bool
  rc_HasActiveGoal :: bool
  rc_HasActiveAction :: bool
  rc_AtRoutineTarget :: bool
  rc_ActorMoving :: bool

definition DeriveActivity :: "RoutineActivityContext \<Rightarrow> RoutineActivityType option" where
  "DeriveActivity context =
     (if \<not> rc_Materialized context \<or> \<not> rc_IsAlive context then None
      else if rc_HasActiveGoal context \<or> rc_HasActiveAction context then None
      else if rc_ActorMoving context then None
      else if \<not> rc_AtRoutineTarget context then None
      else case rc_CurrentRoutineGoal context of
        None \<Rightarrow> None
      | Some GoToWork \<Rightarrow> Some Work
      | Some GoHome \<Rightarrow> Some Rest
      | Some _ \<Rightarrow> None)"

record FoodTargetConfig =
  ft_Enabled :: bool
  ft_MapId :: u32
  ft_X :: flt
  ft_Y :: flt
  ft_Z :: flt

definition ResolveFoodTarget :: "FoodTargetConfig \<Rightarrow> GoalTarget option" where
  "ResolveFoodTarget config =
     (if \<not> ft_Enabled config then None
      else Some \<lparr>gt_Guid = 0, gt_MapId = ft_MapId config, gt_X = ft_X config, gt_Y = ft_Y config, gt_Z = ft_Z config\<rparr>)"

text \<open>The schedule read from the configuration: \<open>int32\<close> values, repaired when they make no sense.\<close>

definition LoadRoutineSchedule :: "32 word \<Rightarrow> 32 word \<Rightarrow> 32 word \<Rightarrow> RoutineScheduleConfig" where
  "LoadRoutineSchedule dayLength workStart workEnd =
     (let day = (if sint dayLength < 60000 then 60000 else sint dayLength);
          invalid = (sint workStart < 0 \<or> sint workEnd \<le> sint workStart \<or> sint workEnd > day);
          start = (if invalid then day div 3 else sint workStart);
          finish = (if invalid then day * 2 div 3 else sint workEnd)
      in \<lparr>rs_DayLengthMs = word_of_int day, rs_WorkStartMs = word_of_int start, rs_WorkEndMs = word_of_int finish\<rparr>)"

section \<open>One update of an agent\<close>

text \<open>
  The needs part of \<open>AIWorldMgr::UpdateNeeds\<close>: the dangers the agent remembers, all of them, then
  the pressures, then the thresholds. What the creature reports (health, combat, position) and the
  configured rates are arguments; \<open>hungerRate\<close> is the rate of the agent's role when it has one.
\<close>

record CreatureReport =
  cr_Health :: u32
  cr_MaxHealth :: u32
  cr_Alive :: bool
  cr_InCombat :: bool

definition AgentRates :: "NeedsUpdateRates \<Rightarrow> flt option \<Rightarrow> bool \<Rightarrow> NeedsUpdateRates" where
  "AgentRates configured hungerRate livingNeedEvolutionEnabled =
     (let rates = (case hungerRate of None \<Rightarrow> configured | Some r \<Rightarrow> configured\<lparr>nr_HungerPerSecond := r\<rparr>) in
      if \<not> livingNeedEvolutionEnabled
      then \<lparr>nr_HungerPerSecond = Fin 0, nr_FatiguePerSecond = Fin 0, nr_ResourcePressurePerSecond = Fin 0\<rparr> else rates)"

definition AgentNeedsTick :: "CreatureReport \<Rightarrow> MemoryQueryContext \<Rightarrow> MemoryRecord list \<Rightarrow> LongTermMemoryRecord list \<Rightarrow> u32 \<Rightarrow>
    u32 \<Rightarrow> NeedsUpdateRates \<Rightarrow> NeedsState \<times> NeedsThresholdState \<Rightarrow>
    NeedsThresholdEvent list \<times> NeedsState \<times> NeedsThresholdState" where
  "AgentNeedsTick report query shortTerm longTerm shortTermMemoryTtlMs elapsedMs rates st =
     (let memories = Retrieve query shortTerm longTerm (length shortTerm + length longTerm);
          context = \<lparr>nc_Health = cr_Health report, nc_MaxHealth = cr_MaxHealth report, nc_Alive = cr_Alive report,
            nc_InCombat = cr_InCombat report,
            nc_MemorySafetyPressure = EvaluateMemorySafety memories (mq_NowMs query) shortTermMemoryTtlMs\<rparr>;
          needs = Needs_Update context elapsedMs rates (fst st);
          (events, thresholds) = EvaluateThresholds needs (snd st)
      in (events, needs, thresholds))"

section \<open>Pressures stay between zero and one\<close>

definition needs_unit :: "NeedsState \<Rightarrow> bool" where
  "needs_unit s \<longleftrightarrow> in_unit (ns_HealthPressure s) \<and> in_unit (ns_Hunger s) \<and> in_unit (ns_Fatigue s) \<and>
     in_unit (ns_SafetyPressure s) \<and> in_unit (ns_ResourcePressure s)"

definition rates_finite :: "NeedsUpdateRates \<Rightarrow> bool" where
  "rates_finite r \<longleftrightarrow> isfinite (nr_HungerPerSecond r) \<and> isfinite (nr_FatiguePerSecond r) \<and> isfinite (nr_ResourcePressurePerSecond r)"

lemma of_u32_Fin: "\<exists>q. of_word_in f (n :: u32) = Fin q \<and> 0 \<le> q \<and> q \<le> 2 ^ 64 \<and> (n \<noteq> 0 \<longrightarrow> 1 \<le> q)"
proof -
  have "of_word_in f n = of_word_in f (widen n)" by (simp add: of_word_in_def unat_widen)
  moreover have "widen n \<noteq> 0 \<longleftrightarrow> n \<noteq> 0" using widen_inj [of n 0] by simp
  ultimately show ?thesis using of_word_Fin [of f "widen n"] by metis
qed

lemma seconds_Fin: "\<exists>q. flt_div (of_word_in Binary32 (n :: u32)) (Fin 1000) = Fin q \<and> 0 \<le> q"
proof -
  obtain q where q: "of_word_in Binary32 n = Fin q" "0 \<le> q" "q \<le> 2 ^ 64" using of_u32_Fin by blast
  then have "\<exists>r. round_to Binary32 (q / 1000) = Fin r \<and> 0 \<le> r \<and> r \<le> 2 ^ 64"
    by (intro round_between [OF _ _ round_to_0 round_2_64]) simp_all
  then show ?thesis using q by auto
qed

lemma growth_not_NaN:
  assumes "in_unit v" and "isfinite r"
  shows "flt_add v (flt_mul r (flt_div (of_word_in Binary32 (n :: u32)) (Fin 1000))) \<noteq> NaN"
proof -
  obtain a b c where "v = Fin a" "r = Fin b" "flt_div (of_word_in Binary32 n) (Fin 1000) = Fin c"
    using assms seconds_Fin [of n] by (auto simp: in_unit_iff isfinite_iff)
  then show ?thesis by (cases "round_to Binary32 (b * c)") auto
qed

lemma ratio_not_NaN: "n \<noteq> 0 \<Longrightarrow> flt_div (of_word_in Binary32 (m :: u32)) (of_word_in Binary32 (n :: u32)) \<noteq> NaN"
  using of_u32_Fin [of Binary32 m] of_u32_Fin [of Binary32 n] by auto

lemma Needs_Update_unit:
  assumes "needs_unit s" and "rates_finite r" and "nc_MemorySafetyPressure c \<noteq> NaN"
  shows "needs_unit (Needs_Update c n r s)"
  using assms
  by (auto simp: needs_unit_def Needs_Update_def Let_def rates_finite_def ratio_not_NaN growth_not_NaN intro!: one_minus_unit clamp_unit)

text \<open>Remembered danger is a pressure like the others: the loop never yields a NaN.\<close>

lemma product_not_NaN: "in_unit a \<Longrightarrow> b \<noteq> NaN \<Longrightarrow> isfinite b \<Longrightarrow> flt_mul a b \<noteq> NaN"
  by (auto simp: in_unit_iff isfinite_iff)

lemma recency_finite:
  assumes "(age :: u64) < widen (window :: u32)"
  shows "in_unit (flt_sub (Fin 1) (flt_div (of_word_in Binary32 age) (of_word_in Binary32 window)))"
proof -
  have w: "of_word_in Binary32 window = of_word_in Binary32 (widen window :: u64)" by (simp add: of_word_in_def unat_widen)
  have "flt_le (of_word_in Binary32 age) (of_word_in Binary32 (widen window :: u64))"
    using assms unfolding of_word_in_def by (intro round_to_mono) (simp only: of_nat_le_iff word_less_nat_alt less_imp_le)
  moreover obtain a b where "of_word_in Binary32 age = Fin a" "0 \<le> a" "of_word_in Binary32 (widen window :: u64) = Fin b" "1 \<le> b"
    using of_word_Fin [of Binary32 age] of_word_Fin [of Binary32 "widen window"] assms by fastforce
  ultimately have "0 \<le> a / b" "a / b \<le> 1" and d: "flt_div (of_word_in Binary32 age) (of_word_in Binary32 window) = round_to Binary32 (a / b)"
    by (simp_all add: w)
  then show ?thesis by (auto intro!: one_minus_unit round_unit)
qed

lemma flt_max_cases: "flt_max a b = a \<or> flt_max a b = b"
  by (simp add: flt_max_def)

lemma MemorySafety_not_NaN:
  "list_all (\<lambda>m. in_unit (rm_Importance m)) ms \<Longrightarrow> p \<noteq> NaN \<Longrightarrow> MemorySafety_loop now w p ms \<noteq> NaN"
proof (induction ms arbitrary: p)
  case (Cons m ms)
  have "flt_mul (rm_Importance m) (flt_sub (Fin 1) (flt_div (of_word_in Binary32 age) (of_word_in Binary32 w))) \<noteq> NaN"
    if "age < widen w" for age
    using Cons.prems(1) recency_finite [OF that] by (intro product_not_NaN) (auto simp: in_unit_iff)
  then have "flt_max p (flt_mul (rm_Importance m) (flt_sub (Fin 1) (flt_div (of_word_in Binary32 age) (of_word_in Binary32 w)))) \<noteq> NaN"
    if "age < widen w" for age using that Cons.prems(2) flt_max_cases by metis
  then show ?case using Cons.IH Cons.prems by (simp add: Let_def not_le split: option.split)
qed simp

lemma EvaluateMemorySafety_unit:
  "list_all (\<lambda>m. in_unit (rm_Importance m)) ms \<Longrightarrow> in_unit (EvaluateMemorySafety ms now w)"
  unfolding EvaluateMemorySafety_def by (intro clamp_unit MemorySafety_not_NaN) simp_all

text \<open>No pressure without a dangerous event remembered within the window.\<close>

definition remembers_danger :: "u64 \<Rightarrow> u32 \<Rightarrow> RetrievedMemory \<Rightarrow> bool" where
  "remembers_danger now w m \<longleftrightarrow> (\<exists>t. rm_SourceEventType m = Some t \<and> IsDangerousEventType t) \<and>
     rm_LastObservedAtMs m \<le> now \<and> now - rm_LastObservedAtMs m < widen w"

lemma MemorySafety_skip: "list_all (\<lambda>m. \<not> remembers_danger now w m) ms \<Longrightarrow> MemorySafety_loop now w p ms = p"
  by (induction ms) (auto simp: remembers_danger_def Let_def not_le split: option.splits)

lemma usable_importance:
  assumes "list_all usable_short st" and "list_all usable_long lt"
  shows "list_all (\<lambda>m. in_unit (rm_Importance m)) (Retrieve q st lt n)"
proof -
  have "in_unit (rm_Importance m)" if "m \<in> set (Combined q st lt)" for m
    using that assms by (auto simp: Combined_def list_all_iff usable_short_def usable_long_def RetrievedShortTerm_def RetrievedLongTerm_def)
  then show ?thesis using Retrieve_subset [of q st lt n] by (auto simp: list_all_iff)
qed

definition usable_memories :: "MemoryRecord list \<Rightarrow> LongTermMemoryRecord list \<Rightarrow> bool" where
  "usable_memories st lt \<longleftrightarrow> list_all usable_short st \<and> list_all usable_long lt"

lemma AgentNeedsTick_unit:
  assumes "needs_unit (fst s)" and "rates_finite r" and "usable_memories st lt"
  shows "needs_unit (fst (snd (AgentNeedsTick c q st lt ttl ms r s)))"
proof -
  have "in_unit (EvaluateMemorySafety (Retrieve q st lt (length st + length lt)) (mq_NowMs q) ttl)"
    using assms(3) by (intro EvaluateMemorySafety_unit usable_importance) (simp_all add: usable_memories_def)
  then have "EvaluateMemorySafety (Retrieve q st lt (length st + length lt)) (mq_NowMs q) ttl \<noteq> NaN" by (auto simp: in_unit_iff)
  then show ?thesis using assms by (auto simp: AgentNeedsTick_def Let_def intro!: Needs_Update_unit split: prod.split)
qed

lemma hunger_grows:
  assumes "needs_unit s" and "flt_le (Fin 0) (nr_HungerPerSecond r)" and "isfinite (nr_HungerPerSecond r)" and "is_in Binary32 (ns_Hunger s)"
  shows "flt_le (ns_Hunger s) (ns_Hunger (Needs_Update c n r s))"
proof -
  obtain h where h: "ns_Hunger s = Fin h" "0 \<le> h" "h \<le> 1" using assms(1) by (auto simp: needs_unit_def in_unit_iff)
  obtain b where b: "nr_HungerPerSecond r = Fin b" "0 \<le> b" using assms(2,3) by (auto simp: isfinite_iff)
  obtain d where d: "flt_div (of_word_in Binary32 n) (Fin 1000) = Fin d" "0 \<le> d" using seconds_Fin by blast
  have "nonneg (flt_mul (Fin b) (Fin d))" using b(2) d(2) by (simp add: round_nonneg)
  then have "flt_le (Fin h) (flt_add (Fin h) (flt_mul (Fin b) (Fin d)))"
  proof (cases "flt_mul (Fin b) (Fin d)")
    case (Fin g)
    with \<open>nonneg (flt_mul (Fin b) (Fin d))\<close> have "flt_le (round_to Binary32 h) (round_to Binary32 (h + g))"
      by (intro round_to_mono) simp
    then show ?thesis using assms(4) h(1) Fin by (simp add: is_in_def)
  qed (simp_all add: flt_le_def)
  then have "flt_le (Fin h) (clamp01 (flt_add (Fin h) (flt_mul (Fin b) (Fin d))))"
    using h by (cases "flt_add (Fin h) (flt_mul (Fin b) (Fin d))") (auto simp: flt_clamp_def flt_le_def)
  then show ?thesis using h b d by (simp add: Needs_Update_def Let_def)
qed

section \<open>Runs of updates and meals\<close>

datatype needs_op =
    NeedsTick CreatureReport MemoryQueryContext "MemoryRecord list" "LongTermMemoryRecord list" u32 u32 NeedsUpdateRates
  | Meal

fun needs_step :: "needs_op \<Rightarrow> NeedsState \<times> NeedsThresholdState \<Rightarrow> NeedsState \<times> NeedsThresholdState" where
  "needs_step (NeedsTick c q st lt ttl ms r) s = snd (AgentNeedsTick c q st lt ttl ms r s)"
| "needs_step Meal s = (SatisfyHunger (fst s), snd s)"

definition needs_run :: "needs_op list \<Rightarrow> NeedsState \<times> NeedsThresholdState" where
  "needs_run ops = fold needs_step ops (NeedsState_init, \<lparr>nt_HungerCriticalActive = False, nt_DangerHighActive = False\<rparr>)"

fun usable_op :: "needs_op \<Rightarrow> bool" where
  "usable_op (NeedsTick c q st lt ttl ms r) \<longleftrightarrow> rates_finite r \<and> flt_le (Fin 0) (nr_HungerPerSecond r) \<and> usable_memories st lt"
| "usable_op Meal \<longleftrightarrow> True"

definition needs_ok :: "NeedsState \<Rightarrow> bool" where
  "needs_ok s \<longleftrightarrow> needs_unit s \<and> is_in Binary32 (ns_Hunger s)"

lemma is_in_Fin01: "is_in f (Fin 0)" "is_in f (Fin 1)"
  by (simp_all add: is_in_def)

lemma Needs_Update_is_in: "is_in Binary32 (ns_Hunger s) \<Longrightarrow> is_in Binary32 (ns_Hunger (Needs_Update c n r s))"
  by (auto simp: Needs_Update_def Let_def flt_clamp_def is_in_Fin01 is_in_add)

lemma tick_needs: "fst (snd (AgentNeedsTick c q st lt ttl ms r s)) =
    Needs_Update \<lparr>nc_Health = cr_Health c, nc_MaxHealth = cr_MaxHealth c, nc_Alive = cr_Alive c, nc_InCombat = cr_InCombat c,
      nc_MemorySafetyPressure = EvaluateMemorySafety (Retrieve q st lt (length st + length lt)) (mq_NowMs q) ttl\<rparr> ms r (fst s)"
  by (simp add: AgentNeedsTick_def Let_def split: prod.split)

lemma needs_step_ok: "usable_op op \<Longrightarrow> needs_ok (fst s) \<Longrightarrow> needs_ok (fst (needs_step op s))"
proof (cases op)
  case (NeedsTick c q st lt ttl ms r)
  assume "usable_op op" "needs_ok (fst s)"
  then show ?thesis
    using AgentNeedsTick_unit [of s r st lt c q ttl ms] NeedsTick by (simp add: needs_ok_def tick_needs Needs_Update_is_in)
qed (simp add: needs_ok_def needs_unit_def SatisfyHunger_def is_in_Fin01)

lemma needs_run_ok: "list_all usable_op ops \<Longrightarrow> needs_ok (fst (needs_run ops))"
proof (induction ops rule: rev_induct)
  case Nil
  then show ?case by (simp add: needs_run_def NeedsState_init_def needs_ok_def needs_unit_def is_in_Fin01)
next
  case (snoc op ops)
  then show ?case using needs_step_ok [of op "needs_run ops"] by (simp add: needs_run_def)
qed

lemma needs_step_hunger:
  assumes "usable_op op" and "op \<noteq> Meal" and "needs_ok (fst s)"
  shows "flt_le (ns_Hunger (fst s)) (ns_Hunger (fst (needs_step op s)))"
proof (cases op)
  case (NeedsTick c q st lt ttl ms r)
  then show ?thesis using assms by (simp add: tick_needs) (auto intro!: hunger_grows simp: needs_ok_def rates_finite_def)
qed (simp add: assms)

lemma needs_run_hunger:
  assumes "list_all usable_op (ops @ later)" and "Meal \<notin> set later"
  shows "flt_le (ns_Hunger (fst (needs_run ops))) (ns_Hunger (fst (needs_run (ops @ later))))"
  using assms
proof (induction later rule: rev_induct)
  case Nil
  then show ?case using needs_run_ok [of ops] by (auto simp: needs_ok_def needs_unit_def in_unit_iff)
next
  case (snoc op later)
  let ?s = "needs_run (ops @ later)"
  have "flt_le (ns_Hunger (fst ?s)) (ns_Hunger (fst (needs_step op ?s)))"
    using snoc.prems needs_run_ok [of "ops @ later"] by (intro needs_step_hunger) auto
  then show ?case using snoc flt_le_trans by (auto simp: needs_run_def)
qed

section \<open>Thresholds\<close>

definition threshold_run :: "NeedsState list \<Rightarrow> NeedsThresholdState" where
  "threshold_run ss = fold (\<lambda>s t. snd (EvaluateThresholds s t)) ss \<lparr>nt_HungerCriticalActive = False, nt_DangerHighActive = False\<rparr>"

text \<open>Whether a pressure has reached the upper threshold and not fallen below the lower one since.\<close>

definition still_critical :: "(NeedsState \<Rightarrow> flt) \<Rightarrow> NeedsState list \<Rightarrow> bool" where
  "still_critical value earlier \<longleftrightarrow> (\<exists>us u ws. earlier = us @ u # ws \<and> flt_le (rnd32 (80 / 100)) (value u) \<and>
     list_all (\<lambda>w. \<not> flt_lt (value w) (rnd32 (60 / 100))) ws)"

lemma thresholds_apart: "flt_le CriticalEnterThreshold v \<Longrightarrow> \<not> flt_lt v CriticalResetThreshold"
proof -
  have e: "CriticalEnterThreshold = Fin (13421773 / 16777216)" "CriticalResetThreshold = Fin (10066330 / 16777216)"
    unfolding CriticalEnterThreshold_def CriticalResetThreshold_def by code_simp+
  then show "flt_le CriticalEnterThreshold v \<Longrightarrow> \<not> flt_lt v CriticalResetThreshold" unfolding e by (cases v) (auto simp: flt_le_def)
qed

lemma still_critical_snoc: "still_critical value (earlier @ [s]) \<longleftrightarrow>
    flt_le CriticalEnterThreshold (value s) \<or> still_critical value earlier \<and> \<not> flt_lt (value s) CriticalResetThreshold"
proof -
  have "still_critical value (earlier @ [s])" if "still_critical value earlier" "\<not> flt_lt (value s) CriticalResetThreshold"
  proof -
    obtain us u ws where "earlier = us @ u # ws" "flt_le (rnd32 (80 / 100)) (value u)"
      "list_all (\<lambda>w. \<not> flt_lt (value w) (rnd32 (60 / 100))) ws"
      using \<open>still_critical value earlier\<close> unfolding still_critical_def by blast
    with that(2) show ?thesis unfolding still_critical_def CriticalResetThreshold_def
      by (intro exI [of _ us] exI [of _ u] exI [of _ "ws @ [s]"]) simp
  qed
  moreover have "still_critical value (earlier @ [s])" if "flt_le CriticalEnterThreshold (value s)"
    unfolding still_critical_def using that by (intro exI [of _ earlier] exI [of _ s] exI [of _ "[]"]) (simp add: CriticalEnterThreshold_def)
  moreover have "flt_le CriticalEnterThreshold (value s) \<or> still_critical value earlier \<and> \<not> flt_lt (value s) CriticalResetThreshold"
    if c: "still_critical value (earlier @ [s])"
  proof -
    obtain us u ws where w: "earlier @ [s] = us @ u # ws" "flt_le (rnd32 (80 / 100)) (value u)"
      "list_all (\<lambda>w. \<not> flt_lt (value w) (rnd32 (60 / 100))) ws" using c unfolding still_critical_def by blast
    show ?thesis
    proof (cases ws rule: rev_cases)
      case Nil
      then show ?thesis using w by (simp add: CriticalEnterThreshold_def)
    next
      case (snoc vs v)
      then have "earlier = us @ u # vs" "v = s" using w(1) by auto
      then show ?thesis using w snoc unfolding still_critical_def CriticalResetThreshold_def by auto
    qed
  qed
  ultimately show ?thesis by blast
qed

lemma evaluate_threshold_active:
  "snd (evaluate_threshold t v a) \<longleftrightarrow> flt_le CriticalEnterThreshold v \<or> a \<and> \<not> flt_lt v CriticalResetThreshold"
  using thresholds_apart [of v] by (auto simp: evaluate_threshold_def)

lemma EvaluateThresholds_active:
  "nt_HungerCriticalActive (snd (EvaluateThresholds s t)) \<longleftrightarrow> snd (evaluate_threshold HungerCritical (ns_Hunger s) (nt_HungerCriticalActive t))"
  "nt_DangerHighActive (snd (EvaluateThresholds s t)) \<longleftrightarrow> snd (evaluate_threshold DangerHigh (ns_SafetyPressure s) (nt_DangerHighActive t))"
  by (simp_all add: EvaluateThresholds_def split: prod.split)

lemma threshold_run_snoc: "threshold_run (ss @ [s]) = snd (EvaluateThresholds s (threshold_run ss))"
  by (simp add: threshold_run_def)

lemma threshold_run_active:
  "nt_HungerCriticalActive (threshold_run ss) \<longleftrightarrow> still_critical ns_Hunger ss"
  "nt_DangerHighActive (threshold_run ss) \<longleftrightarrow> still_critical ns_SafetyPressure ss"
  by (induction ss rule: rev_induct)
     (simp_all only: threshold_run_snoc EvaluateThresholds_active evaluate_threshold_active still_critical_snoc,
      simp_all add: threshold_run_def still_critical_def)

lemma thresholds_exact_step:
  "fst (EvaluateThresholds s (threshold_run earlier)) =
    (if flt_le (rnd32 (80 / 100)) (ns_Hunger s) \<and> \<not> still_critical ns_Hunger earlier
     then [\<lparr>ne_Type = HungerCritical, ne_Value = ns_Hunger s\<rparr>] else []) @
    (if flt_le (rnd32 (80 / 100)) (ns_SafetyPressure s) \<and> \<not> still_critical ns_SafetyPressure earlier
     then [\<lparr>ne_Type = DangerHigh, ne_Value = ns_SafetyPressure s\<rparr>] else [])"
  by (auto simp: EvaluateThresholds_def evaluate_threshold_def threshold_run_active CriticalEnterThreshold_def split: prod.splits)

section \<open>Runs of the goal system\<close>

text \<open>One decision: candidates from the needs, then the active goal.\<close>

datatype goal_tick = GoalTick (gt_needs: NeedsState) (gt_flee: bool) (gt_now: u64)

fun goal_step :: "goal_tick \<Rightarrow> ActiveGoal option \<Rightarrow> GoalSelectionResult" where
  "goal_step (GoalTick needs hasFleeSource now) g = UpdateActiveGoal g needs (GenerateCandidates needs hasFleeSource) now"

definition goal_run :: "goal_tick list \<Rightarrow> ActiveGoal option" where
  "goal_run ticks = fold (\<lambda>t g. gs_Goal (goal_step t g)) ticks None"

definition in_danger :: "goal_tick \<Rightarrow> bool" where
  "in_danger t \<longleftrightarrow> flt_le (rnd32 (80 / 100)) (ns_SafetyPressure (gt_needs t)) \<and> gt_flee t"

definition hungry :: "goal_tick \<Rightarrow> bool" where
  "hungry t \<longleftrightarrow> flt_le (rnd32 (80 / 100)) (ns_Hunger (gt_needs t))"

definition new_goal :: "GoalType \<Rightarrow> GoalPriority \<Rightarrow> flt \<Rightarrow> u64 \<Rightarrow> ActiveGoal" where
  "new_goal type priority utility now = \<lparr>gl_Type = type, gl_Priority = priority, gl_Source = Needs, gl_Utility = utility,
     gl_StartedAtMs = now, gl_TimeoutMs = 30000\<rparr>"

definition flee_goal :: "goal_tick \<Rightarrow> ActiveGoal" where
  "flee_goal t = new_goal FleeDanger Emergency (ns_SafetyPressure (gt_needs t)) (gt_now t)"

definition food_goal :: "goal_tick \<Rightarrow> ActiveGoal" where
  "food_goal t = new_goal GetFood Normal (ns_Hunger (gt_needs t)) (gt_now t)"

lemma SelectBest_tick:
  "map_option (\<lambda>c. MakeActiveGoal c (gt_now t)) (SelectBest (GenerateCandidates (gt_needs t) (gt_flee t))) =
    (if in_danger t then Some (flee_goal t) else if hungry t then Some (food_goal t) else None)"
  "SelectBest (GenerateCandidates (gt_needs t) (gt_flee t)) = Some c \<Longrightarrow> gc_Priority c = (if in_danger t then Emergency else Normal)"
  by (auto simp: SelectBest_def GenerateCandidates_def IsBetterCandidate_def MakeActiveGoal_def in_danger_def hungry_def flee_goal_def
      food_goal_def new_goal_def TimeoutFor_def GoalCandidateThreshold_def split: if_splits)

definition overdue :: "ActiveGoal \<Rightarrow> u64 \<Rightarrow> bool" where
  "overdue g now \<longleftrightarrow> now \<ge> gl_StartedAtMs g \<and> now - gl_StartedAtMs g \<ge> widen (gl_TimeoutMs g)"

definition need_met :: "ActiveGoal \<Rightarrow> NeedsState \<Rightarrow> bool" where
  "need_met g needs \<longleftrightarrow> flt_lt (NeedValueFor (gl_Type g) needs) (rnd32 (60 / 100))"

lemma goal_step_cases:
  "goal_step t None = selection (if in_danger t then Some (flee_goal t) else if hungry t then Some (food_goal t) else None)
     (if in_danger t \<or> hungry t then Activated else NoTransition) None"
  "goal_step t (Some g) =
    (if in_danger t \<and> gl_Priority g = Normal then selection (Some (flee_goal t)) Interrupted None
     else if need_met g (gt_needs t) then selection None GoalSucceeded (Some (complete_goal Succeeded NeedSatisfied g (gt_now t)))
     else if overdue g (gt_now t) then selection None GoalFailed (Some (complete_goal Failed Timeout g (gt_now t)))
     else selection (Some g) NoTransition None)"
proof -
  let ?b = "SelectBest (GenerateCandidates (gt_needs t) (gt_flee t))"
  have step: "goal_step t g = UpdateActiveGoal g (gt_needs t) (GenerateCandidates (gt_needs t) (gt_flee t)) (gt_now t)" for g
    by (cases t) simp
  show "goal_step t None = selection (if in_danger t then Some (flee_goal t) else if hungry t then Some (food_goal t) else None)
     (if in_danger t \<or> hungry t then Activated else NoTransition) None"
    using SelectBest_tick(1) [of t] by (cases ?b) (auto simp: step UpdateActiveGoal_def split: if_splits)
  have "gl_Priority g = Normal \<longleftrightarrow> gl_Priority g \<noteq> Emergency" by (cases "gl_Priority g") simp_all
  then show "goal_step t (Some g) =
    (if in_danger t \<and> gl_Priority g = Normal then selection (Some (flee_goal t)) Interrupted None
     else if need_met g (gt_needs t) then selection None GoalSucceeded (Some (complete_goal Succeeded NeedSatisfied g (gt_now t)))
     else if overdue g (gt_now t) then selection None GoalFailed (Some (complete_goal Failed Timeout g (gt_now t)))
     else selection (Some g) NoTransition None)"
    using SelectBest_tick(1) [of t] SelectBest_tick(2) [of t]
    by (cases ?b; cases "gl_Priority g")
       (auto simp: step UpdateActiveGoal_def Let_def need_met_def overdue_def GoalRetentionThreshold_def split: if_splits)
qed

definition goal_sound :: "ActiveGoal \<Rightarrow> goal_tick \<Rightarrow> bool" where
  "goal_sound g t \<longleftrightarrow> (gl_Type g, gl_Priority g) \<in> {(GetFood, Normal), (FleeDanger, Emergency)} \<and> \<not> need_met g (gt_needs t) \<and>
     gl_StartedAtMs g \<le> gt_now t \<and> gt_now t - gl_StartedAtMs g < 30000"

lemma critical_not_met: "flt_le (rnd32 (80 / 100)) v \<Longrightarrow> \<not> flt_lt v (rnd32 (60 / 100))"
  using thresholds_apart [of v] by (simp add: CriticalEnterThreshold_def CriticalResetThreshold_def)

lemma new_goals_sound:
  "in_danger t \<Longrightarrow> goal_sound (flee_goal t) t" "hungry t \<Longrightarrow> goal_sound (food_goal t) t"
  using critical_not_met
  by (simp_all add: goal_sound_def flee_goal_def food_goal_def new_goal_def need_met_def NeedValueFor_def in_danger_def hungry_def)

definition goal_shape :: "ActiveGoal \<Rightarrow> bool" where
  "goal_shape g \<longleftrightarrow> gl_TimeoutMs g = 30000 \<and> (gl_Type g, gl_Priority g) \<in> {(GetFood, Normal), (FleeDanger, Emergency)}"

lemma new_goals_shape: "goal_shape (flee_goal t)" "goal_shape (food_goal t)"
  by (simp_all add: goal_shape_def flee_goal_def food_goal_def new_goal_def)

lemma goal_step_sound:
  assumes "gs_Goal (goal_step t cur) = Some g" and "\<forall>c. cur = Some c \<longrightarrow> goal_shape c \<and> gl_StartedAtMs c \<le> gt_now t"
  shows "goal_sound g t \<and> goal_shape g"
proof (cases cur)
  case None
  then show ?thesis using assms(1) new_goals_sound new_goals_shape by (auto simp: goal_step_cases selection_def split: if_splits)
next
  case (Some c)
  have w: "widen 30000 = (30000 :: u64)" by (simp add: widen_def)
  from Some assms show ?thesis
    using new_goals_sound new_goals_shape
    by (auto simp: goal_step_cases selection_def goal_sound_def goal_shape_def overdue_def not_le w split: if_splits)
qed

lemma goal_run_sound:
  assumes "sorted (map gt_now ticks)" and "goal_run ticks = Some g"
  shows "goal_sound g (last ticks) \<and> goal_shape g"
  using assms
proof (induction ticks arbitrary: g rule: rev_induct)
  case Nil
  then show ?case by (simp add: goal_run_def)
next
  case (snoc t ticks)
  have "goal_shape c \<and> gl_StartedAtMs c \<le> gt_now t" if c: "goal_run ticks = Some c" for c
  proof -
    have "ticks \<noteq> []" using c by (auto simp: goal_run_def)
    moreover have "sorted (map gt_now ticks)" using snoc.prems by (simp add: sorted_append)
    ultimately have "goal_shape c" "gl_StartedAtMs c \<le> gt_now (last ticks)" "gt_now (last ticks) \<le> gt_now t"
      using snoc.IH [OF _ c] snoc.prems by (auto simp: goal_sound_def sorted_append)
    then show ?thesis by simp
  qed
  then show ?case using snoc.prems(2) goal_step_sound [of t "goal_run ticks" g] by (simp add: goal_run_def)
qed

lemma goal_run_snoc: "goal_run (ts @ [t]) = gs_Goal (goal_step t (goal_run ts))"
  by (simp add: goal_run_def)

lemma danger_goal:
  assumes "in_danger t" and "\<forall>c. cur = Some c \<longrightarrow> goal_shape c"
  shows "case gs_Goal (goal_step t cur) of
    Some g \<Rightarrow> gl_Type g = FleeDanger
  | None \<Rightarrow> \<exists>c. cur = Some c \<and> gl_Type c = FleeDanger \<and> overdue c (gt_now t)"
proof (cases cur)
  case None
  then show ?thesis using assms(1) by (simp add: goal_step_cases selection_def flee_goal_def new_goal_def)
next
  case (Some c)
  have "\<not> need_met c (gt_needs t)" if "gl_Type c = FleeDanger"
    using that assms(1) critical_not_met by (auto simp: need_met_def NeedValueFor_def in_danger_def)
  then show ?thesis using assms Some by (auto simp: goal_step_cases selection_def goal_shape_def flee_goal_def new_goal_def)
qed

section \<open>The schedule\<close>

lemma unat_word_of_int: "0 \<le> x \<Longrightarrow> x < 2 ^ 32 \<Longrightarrow> unat (word_of_int x :: u32) = nat x"
  by (simp add: unat_eq_nat_uint uint_word_of_int)

lemma sint_range: "- (2 ^ 31) \<le> sint (x :: 32 word) \<and> sint x < 2 ^ 31"
  using sint_ge [of x] sint_lt [of x] by simp

lemma schedule_valid:
  fixes d s e
  defines "c \<equiv> LoadRoutineSchedule d s e"
  shows "60000 \<le> unat (rs_DayLengthMs c) \<and> unat (rs_WorkStartMs c) < unat (rs_WorkEndMs c) \<and>
    unat (rs_WorkEndMs c) \<le> unat (rs_DayLengthMs c)"
proof -
  define day where "day = (if sint d < 60000 then 60000 else sint d)"
  define invalid where "invalid \<longleftrightarrow> sint s < 0 \<or> sint e \<le> sint s \<or> sint e > day"
  define start where "start = (if invalid then day div 3 else sint s)"
  define finish where "finish = (if invalid then day * 2 div 3 else sint e)"
  have c: "rs_DayLengthMs c = word_of_int day" "rs_WorkStartMs c = word_of_int start" "rs_WorkEndMs c = word_of_int finish"
    by (simp_all add: c_def LoadRoutineSchedule_def Let_def day_def invalid_def start_def finish_def)
  have day: "60000 \<le> day" "day < 2 ^ 31" using sint_range [of d] by (simp_all add: day_def)
  have range: "0 \<le> start" "start < finish" "finish \<le> day"
    using day(1) by (auto simp: start_def finish_def invalid_def)
  show ?thesis using day range by (simp add: c unat_word_of_int nat_le_eq_zle nat_less_eq_zless)
qed

lemma IsWorkHours_exact:
  assumes "rs_DayLengthMs c \<noteq> 0"
  shows "IsWorkHours now c \<longleftrightarrow> unat (rs_WorkStartMs c) \<le> unat now mod unat (rs_DayLengthMs c) \<and>
    unat now mod unat (rs_DayLengthMs c) < unat (rs_WorkEndMs c)"
proof -
  have pos: "0 < unat (rs_DayLengthMs c)" using assms by (simp add: unat_gt_0)
  have "unat (now mod widen (rs_DayLengthMs c)) = unat now mod unat (rs_DayLengthMs c)" by (simp add: unat_mod_distrib)
  moreover have "unat now mod unat (rs_DayLengthMs c) < 2 ^ 32"
    using pos unat_lt2p_32 [of "rs_DayLengthMs c"] mod_less_divisor [of "unat (rs_DayLengthMs c)" "unat now"] by linarith
  ultimately have "unat (ucast (now mod widen (rs_DayLengthMs c)) :: u32) = unat now mod unat (rs_DayLengthMs c)"
    by (simp add: unsigned_ucast_eq take_bit_nat_eq_self)
  then show ?thesis by (simp add: IsWorkHours_def Let_def word_le_nat_alt word_less_nat_alt)
qed

section \<open>Properties\<close>

text \<open>
  In any sequence of updates and meals all five pressures of an agent stay between zero and one,
  whatever its creature reports and whatever it remembers, and between two meals hunger never
  decreases, although every step rounds to binary32.
\<close>
theorem needs_bounded:
  assumes "list_all usable_op (ops @ later)" and "Meal \<notin> set later"
  shows "needs_unit (fst (needs_run ops)) \<and>
    flt_le (ns_Hunger (fst (needs_run ops))) (ns_Hunger (fst (needs_run (ops @ later))))"
  using assms needs_run_ok [of ops] needs_run_hunger [OF assms] by (simp add: needs_ok_def)

definition sample_rates :: NeedsUpdateRates where
  "sample_rates = \<lparr>nr_HungerPerSecond = Fin (1 / 4), nr_FatiguePerSecond = Fin 0, nr_ResourcePressurePerSecond = Fin 0\<rparr>"

definition sample_tick :: needs_op where
  "sample_tick = NeedsTick \<lparr>cr_Health = 10, cr_MaxHealth = 10, cr_Alive = True, cr_InCombat = False\<rparr> sample_query
     [sample_short] [sample_long] 60000 1000 sample_rates"

theorem needs_bounded_witness:
  "needs_unit (fst (needs_run [sample_tick, Meal])) \<and>
    flt_le (ns_Hunger (fst (needs_run [sample_tick, Meal]))) (ns_Hunger (fst (needs_run [sample_tick, Meal, sample_tick])))"
proof -
  have "list_all usable_op ([sample_tick, Meal] @ [sample_tick])" "Meal \<notin> set [sample_tick]"
    by (simp_all add: sample_tick_def rates_finite_def sample_rates_def usable_memories_def sample_usable)
  from needs_bounded [OF this] show ?thesis by simp
qed

text \<open>
  The hunger and danger thresholds have hysteresis: after any sequence of evaluations an event
  is raised exactly when the pressure is at or above 0.80 and has fallen below 0.60 since it last
  was, if it ever was; the events come hunger first and carry the pressure.
\<close>
theorem thresholds_exact:
  "fst (EvaluateThresholds s (threshold_run earlier)) =
    (if flt_le (rnd32 (80 / 100)) (ns_Hunger s) \<and> \<not> still_critical ns_Hunger earlier
     then [\<lparr>ne_Type = HungerCritical, ne_Value = ns_Hunger s\<rparr>] else []) @
    (if flt_le (rnd32 (80 / 100)) (ns_SafetyPressure s) \<and> \<not> still_critical ns_SafetyPressure earlier
     then [\<lparr>ne_Type = DangerHigh, ne_Value = ns_SafetyPressure s\<rparr>] else [])"
  by (rule thresholds_exact_step)

text \<open>
  C36: After any run of decisions on a clock that does not go back, an active goal is justified: it
  is food at normal or flight at emergency priority, its need is still at or above 0.60, and it is
  younger than 30 seconds. When danger threatens and there is something to flee from, the goal is
  flight, whatever it was before, except in the very decision in which a flight has timed out.
\<close>
theorem active_goal_justified:
  assumes "sorted (map gt_now (ts @ [t]))"
  shows "case goal_run (ts @ [t]) of
      Some g \<Rightarrow> goal_sound g t \<and> (in_danger t \<longrightarrow> gl_Type g = FleeDanger)
    | None \<Rightarrow> in_danger t \<longrightarrow> (\<exists>g. goal_run ts = Some g \<and> gl_Type g = FleeDanger \<and> overdue g (gt_now t))"
proof -
  have "\<forall>c. goal_run ts = Some c \<longrightarrow> goal_shape c" using assms goal_run_sound [of ts] by (simp add: sorted_append)
  note danger = danger_goal [OF _ this, of t]
  show ?thesis
    using danger goal_run_sound [OF assms] by (cases "goal_run (ts @ [t])") (auto simp: goal_run_snoc)
qed

definition sample_needs :: "rat \<Rightarrow> rat \<Rightarrow> NeedsState" where
  "sample_needs h d = NeedsState_init\<lparr>ns_Hunger := Fin h, ns_SafetyPressure := Fin d\<rparr>"

theorem active_goal_justified_witness:
  "case goal_run [GoalTick (sample_needs 1 0) False 10, GoalTick (sample_needs 1 1) True 20] of
      Some g \<Rightarrow> goal_sound g (GoalTick (sample_needs 1 1) True 20)
    | None \<Rightarrow> True"
  using active_goal_justified [of "[GoalTick (sample_needs 1 0) False 10]" "GoalTick (sample_needs 1 1) True 20"]
  by (auto split: option.splits simp del: goal_step.simps)

text \<open>
  Whatever three numbers the configuration holds, the schedule is usable: the day is at least a
  minute long, work ends after it starts and within the day, and an agent is at work exactly when
  the time of day lies in the working hours, without any truncation of the clock.
\<close>
theorem routine_schedule_exact:
  fixes d s e
  defines "c \<equiv> LoadRoutineSchedule d s e"
  shows "60000 \<le> unat (rs_DayLengthMs c) \<and> unat (rs_WorkStartMs c) < unat (rs_WorkEndMs c) \<and>
    unat (rs_WorkEndMs c) \<le> unat (rs_DayLengthMs c) \<and>
    (IsWorkHours now c \<longleftrightarrow> unat (rs_WorkStartMs c) \<le> unat now mod unat (rs_DayLengthMs c) \<and>
      unat now mod unat (rs_DayLengthMs c) < unat (rs_WorkEndMs c))"
proof -
  have "rs_DayLengthMs c \<noteq> 0" using schedule_valid [of d s e] by (auto simp: c_def)
  from IsWorkHours_exact [OF this] show ?thesis using schedule_valid [of d s e] by (simp add: c_def)
qed

end
