(* ===== verification/Action_System.thy ===== *)
theory Action_System
  imports Needs_Goals Role_Policy
begin

text \<open>
  Which actions may be executed (\<open>Action/ActionSystem\<close>): a request is checked against what the
  manager knows about the actor and its target at this moment, and refused with a reason unless
  every check passes. The checks come in the order of the code, because the first failing one is
  the reported reason. \<open>!=\<close> on floats is \<open>\<not> flt_eq\<close>, so a NaN is never equal to anything.
\<close>

section \<open>Requests and contexts\<close>

datatype ActionType = Flee | MoveTo | Eat | Work_Action | Rest_Action | Attack | Ambient

fun ActionType_ToString :: "ActionType \<Rightarrow> string" where
  "ActionType_ToString Flee = ''FLEE''"
| "ActionType_ToString MoveTo = ''MOVE_TO''"
| "ActionType_ToString Eat = ''EAT''"
| "ActionType_ToString Work_Action = ''WORK''"
| "ActionType_ToString Rest_Action = ''REST''"
| "ActionType_ToString Attack = ''ATTACK''"
| "ActionType_ToString Ambient = ''AMBIENT''"

record ActionPosition =
  ap_MapId :: u32
  ap_X :: flt
  ap_Y :: flt
  ap_Z :: flt

record ActionTargetRef =
  at_Guid :: ObjectGuid
  at_Entry :: u32

record SurfacePolyline =
  sp_Owner :: ObjectGuid
  sp_PhaseMask :: u32
  sp_Goal :: ActionPosition
  sp_Points :: "ActionPosition list"
  sp_SplinePoints :: "ActionPosition list"

record RecoveryMovement =
  rv_Destination :: ActionPosition
  rv_Home :: ActionPosition
  rv_HomeRadius :: flt
  rv_Danger :: "ActionPosition option"
  rv_Rejoin :: bool
  rv_SurfaceCorridor :: bool
  rv_QueryDestination :: "ActionPosition option"
  rv_DangerRadius :: flt
  rv_Polyline :: "SurfacePolyline option"

record ActionRequest =
  aq_Actor :: AgentId
  aq_Type :: ActionType
  aq_SourceGoal :: GoalType
  aq_GoalStartedAtMs :: u64
  aq_FleeFromGuid :: ObjectGuid
  aq_Destination :: "ActionPosition option"
  aq_Recovery :: "RecoveryMovement option"
  aq_Target :: "ActionTargetRef option"
  aq_SourceGroup :: u64
  aq_ChaseAngleRadians :: "flt option"
  aq_AmbientActivity :: Activity

record ActionValidationContext =
  vc_Materialized :: bool
  vc_Alive :: bool
  vc_ControlMode :: AgentControlMode
  vc_ActiveGoalType :: "GoalType option"
  vc_ActiveGoalStartedAtMs :: u64
  vc_FleeSourceGuid :: ObjectGuid
  vc_MapId :: u32
  vc_X :: flt
  vc_Y :: flt
  vc_Z :: flt
  vc_Scope :: SimulationScope
  vc_HasActiveMovement :: bool
  vc_InCombat :: bool
  vc_ArrivedDestination :: "ActionPosition option"
  vc_ArrivedSourceGoal :: GoalType
  vc_ArrivedGoalStartedAtMs :: u64
  vc_ExpectedRoutineActivity :: "RoutineActivityType option"
  vc_RoutineActivityStartedAtMs :: u64
  vc_DefenseThreatGuid :: ObjectGuid
  vc_MealTargetGuid :: ObjectGuid
  vc_WildlifeRestAllowed :: bool
  vc_TargetResolved :: bool
  vc_TargetAlive :: bool
  vc_TargetAttackable :: bool
  vc_TargetGuid :: ObjectGuid
  vc_TargetEntry :: u32
  vc_TargetMapId :: u32
  vc_TargetX :: flt
  vc_TargetY :: flt
  vc_TargetZ :: flt
  vc_HuntApproachDestination :: "ActionPosition option"
  vc_ActorCurrentVictimGuid :: ObjectGuid
  vc_TargetWithinAttackRange :: bool
  vc_TargetInLineOfSight :: bool
  vc_LivingRoleAllowed :: bool
  vc_LivingRoleZoneId :: u32
  vc_LivingRole :: Role
  vc_ExpectedAmbientActivity :: Activity
  vc_TargetIsRolePrey :: bool
  vc_LivingRoleExtensionsAllowed :: bool
  vc_RoleMovementDestination :: "ActionPosition option"
  vc_ApprovedRecovery :: "RecoveryMovement option"
  vc_FreshAllyAlarm :: bool
  vc_TargetIsSocialPartner :: bool

datatype ActionRejectReason = AR_None | ControlModeNotAllowed | ActorNotMaterialized | ActorDead | NoActiveGoal | GoalMismatch
  | UnsupportedAction | NoFleeSource | FleeSourceMismatch | NoDestination | DestinationMapMismatch | DestinationNotFinite
  | DestinationTooFar | ActorMovementBusy | ActorInCombat | EatContinuationMismatch | RoutineActivityMismatch | TargetMissing
  | TargetNotResolved | TargetDead | TargetNotAttackable | TargetIdentityMismatch | TargetEntryMismatch | TargetMapMismatch
  | TargetPositionMismatch | ActorEngagedWithDifferentTarget | TargetOutOfAttackRange | TargetNoLineOfSight | InvalidChaseAngle

fun ActionRejectReason_ToString :: "ActionRejectReason \<Rightarrow> string" where
  "ActionRejectReason_ToString AR_None = ''NONE''"
| "ActionRejectReason_ToString ControlModeNotAllowed = ''CONTROL_MODE_NOT_ALLOWED''"
| "ActionRejectReason_ToString ActorNotMaterialized = ''ACTOR_NOT_MATERIALIZED''"
| "ActionRejectReason_ToString ActorDead = ''ACTOR_DEAD''"
| "ActionRejectReason_ToString NoActiveGoal = ''NO_ACTIVE_GOAL''"
| "ActionRejectReason_ToString GoalMismatch = ''GOAL_MISMATCH''"
| "ActionRejectReason_ToString UnsupportedAction = ''UNSUPPORTED_ACTION''"
| "ActionRejectReason_ToString NoFleeSource = ''NO_FLEE_SOURCE''"
| "ActionRejectReason_ToString FleeSourceMismatch = ''FLEE_SOURCE_MISMATCH''"
| "ActionRejectReason_ToString NoDestination = ''NO_DESTINATION''"
| "ActionRejectReason_ToString DestinationMapMismatch = ''DESTINATION_MAP_MISMATCH''"
| "ActionRejectReason_ToString DestinationNotFinite = ''DESTINATION_NOT_FINITE''"
| "ActionRejectReason_ToString DestinationTooFar = ''DESTINATION_TOO_FAR''"
| "ActionRejectReason_ToString ActorMovementBusy = ''ACTOR_MOVEMENT_BUSY''"
| "ActionRejectReason_ToString ActorInCombat = ''ACTOR_IN_COMBAT''"
| "ActionRejectReason_ToString EatContinuationMismatch = ''EAT_CONTINUATION_MISMATCH''"
| "ActionRejectReason_ToString RoutineActivityMismatch = ''ROUTINE_ACTIVITY_MISMATCH''"
| "ActionRejectReason_ToString TargetMissing = ''TARGET_MISSING''"
| "ActionRejectReason_ToString TargetNotResolved = ''TARGET_NOT_RESOLVED''"
| "ActionRejectReason_ToString TargetDead = ''TARGET_DEAD''"
| "ActionRejectReason_ToString TargetNotAttackable = ''TARGET_NOT_ATTACKABLE''"
| "ActionRejectReason_ToString TargetIdentityMismatch = ''TARGET_IDENTITY_MISMATCH''"
| "ActionRejectReason_ToString TargetEntryMismatch = ''TARGET_ENTRY_MISMATCH''"
| "ActionRejectReason_ToString TargetMapMismatch = ''TARGET_MAP_MISMATCH''"
| "ActionRejectReason_ToString TargetPositionMismatch = ''TARGET_POSITION_MISMATCH''"
| "ActionRejectReason_ToString InvalidChaseAngle = ''INVALID_CHASE_ANGLE''"
| "ActionRejectReason_ToString ActorEngagedWithDifferentTarget = ''ACTOR_ENGAGED_WITH_DIFFERENT_TARGET''"
| "ActionRejectReason_ToString TargetOutOfAttackRange = ''TARGET_OUT_OF_ATTACK_RANGE''"
| "ActionRejectReason_ToString TargetNoLineOfSight = ''TARGET_NO_LINE_OF_SIGHT''"

record ActionValidationResult =
  av_Allowed :: bool
  av_Reason :: ActionRejectReason

definition reject :: "ActionRejectReason \<Rightarrow> ActionValidationResult" where
  "reject reason = \<lparr>av_Allowed = False, av_Reason = reason\<rparr>"

definition allow :: ActionValidationResult where
  "allow = \<lparr>av_Allowed = True, av_Reason = AR_None\<rparr>"

section \<open>Positions and guids\<close>

definition SamePoint :: "ActionPosition \<Rightarrow> ActionPosition \<Rightarrow> bool" where
  "SamePoint a b = (ap_MapId a = ap_MapId b \<and> flt_eq (ap_X a) (ap_X b) \<and> flt_eq (ap_Y a) (ap_Y b) \<and> flt_eq (ap_Z a) (ap_Z b))"

text \<open>\<open>std::equal\<close> over two vectors of the same size, and two optionals that agree.\<close>

definition same_points :: "ActionPosition list \<Rightarrow> ActionPosition list \<Rightarrow> bool" where
  "same_points xs ys = (length xs = length ys \<and> list_all2 SamePoint xs ys)"

definition same_option :: "('a \<Rightarrow> 'a \<Rightarrow> bool) \<Rightarrow> 'a option \<Rightarrow> 'a option \<Rightarrow> bool" where
  "same_option eq a b = (case (a, b) of (None, None) \<Rightarrow> True | (Some x, Some y) \<Rightarrow> eq x y | _ \<Rightarrow> False)"

definition SamePolyline :: "SurfacePolyline \<Rightarrow> SurfacePolyline \<Rightarrow> bool" where
  "SamePolyline a b = (sp_Owner a = sp_Owner b \<and> sp_PhaseMask a = sp_PhaseMask b \<and> SamePoint (sp_Goal a) (sp_Goal b) \<and>
     same_points (sp_Points a) (sp_Points b) \<and> same_points (sp_SplinePoints a) (sp_SplinePoints b))"

definition SameRecovery :: "RecoveryMovement \<Rightarrow> RecoveryMovement \<Rightarrow> bool" where
  "SameRecovery a b =
     (SamePoint (rv_Destination a) (rv_Destination b) \<and> SamePoint (rv_Home a) (rv_Home b) \<and>
      flt_eq (rv_HomeRadius a) (rv_HomeRadius b) \<and> rv_Rejoin a = rv_Rejoin b \<and> rv_SurfaceCorridor a = rv_SurfaceCorridor b \<and>
      flt_eq (rv_DangerRadius a) (rv_DangerRadius b) \<and> same_option SamePoint (rv_Danger a) (rv_Danger b) \<and>
      same_option SamePoint (rv_QueryDestination a) (rv_QueryDestination b) \<and>
      same_option SamePolyline (rv_Polyline a) (rv_Polyline b))"

text \<open>Guids without an entry: item, player, dynamic object, corpse, map transport, instance, group.\<close>

definition HasEntry :: "ObjectGuid \<Rightarrow> bool" where
  "HasEntry g = (GetHigh g \<notin> {0x4000, 0x0000, 0xF100, 0xF101, 0x1FC0, 0x1F40, 0x1F50})"

definition GetEntry :: "ObjectGuid \<Rightarrow> u32" where
  "GetEntry g = (if HasEntry g then ucast (and (drop_bit 24 g) 0x0000000000FFFFFF) else 0)"

definition IsUnit :: "ObjectGuid \<Rightarrow> bool" where
  "IsUnit g = (IsCreature g \<or> GetHigh g = 0xF140 \<or> GetHigh g = 0xF150 \<or> IsPlayer g)"

definition position_distance :: "ActionPosition \<Rightarrow> flt \<Rightarrow> flt \<Rightarrow> flt \<Rightarrow> flt" where
  "position_distance p x y z =
     (let dx = flt_sub (ap_X p) x; dy = flt_sub (ap_Y p) y; dz = flt_sub (ap_Z p) z
      in flt_add (flt_add (flt_mul dx dx) (flt_mul dy dy)) (flt_mul dz dz))"

definition ArrivalToleranceYards :: flt where
  "ArrivalToleranceYards = Fin 3"

definition IsWithinArrivalTolerance :: "ActionPosition \<Rightarrow> flt \<Rightarrow> flt \<Rightarrow> flt \<Rightarrow> bool" where
  "IsWithinArrivalTolerance destination x y z =
     flt_le (position_distance destination x y z) (flt_mul ArrivalToleranceYards ArrivalToleranceYards)"

definition position_finite :: "ActionPosition \<Rightarrow> bool" where
  "position_finite p = (isfinite (ap_X p) \<and> isfinite (ap_Y p) \<and> isfinite (ap_Z p))"

section \<open>Validation\<close>

definition MaxMoveToRangeYards :: flt where
  "MaxMoveToRangeYards = Fin 40"

definition MaxRoutineMoveToRangeYards :: flt where
  "MaxRoutineMoveToRangeYards = Fin 300"

definition MaxCoordinationMoveToRangeYards :: flt where
  "MaxCoordinationMoveToRangeYards = Fin 100"

definition ActiveGoalIs :: "GoalType \<Rightarrow> ActionValidationContext \<Rightarrow> bool" where
  "ActiveGoalIs type context = (vc_ActiveGoalType context = Some type)"

definition LivingGoal :: "GoalType \<Rightarrow> bool" where
  "LivingGoal goal = (goal = LocalActivity \<or> goal = PredatorHunt \<or> goal = SeekSafety \<or> goal = InvestigateDanger)"

definition ValidateFlee :: "ActionRequest \<Rightarrow> ActionValidationContext \<Rightarrow> ActionValidationResult" where
  "ValidateFlee request context =
     (if \<not> ActiveGoalIs FleeDanger context then reject GoalMismatch
      else if IsEmpty (vc_FleeSourceGuid context) then reject NoFleeSource
      else if aq_FleeFromGuid request \<noteq> vc_FleeSourceGuid context then reject FleeSourceMismatch
      else allow)"

definition ValidateHuntTarget :: "ActionRequest \<Rightarrow> ActionPosition \<Rightarrow> ActionValidationContext \<Rightarrow> ActionValidationResult" where
  "ValidateHuntTarget request destination context =
     (case aq_Target request of None \<Rightarrow> reject TargetMissing | Some target \<Rightarrow>
      if IsEmpty (at_Guid target) \<or> at_Entry target = 0 then reject TargetMissing
      else if \<not> IsCreature (at_Guid target) then reject TargetIdentityMismatch
      else if GetEntry (at_Guid target) \<noteq> at_Entry target then reject TargetEntryMismatch
      else if \<not> vc_TargetResolved context then reject TargetNotResolved
      else if \<not> vc_TargetAlive context then reject TargetDead
      else if \<not> vc_TargetAttackable context then reject TargetNotAttackable
      else if at_Guid target \<noteq> vc_TargetGuid context then reject TargetIdentityMismatch
      else if at_Entry target \<noteq> vc_TargetEntry context then reject TargetEntryMismatch
      else if vc_TargetMapId context \<noteq> vc_MapId context then reject TargetMapMismatch
      else if ap_MapId destination \<noteq> vc_TargetMapId context then reject TargetMapMismatch
      else if \<not> isfinite (vc_TargetX context) \<or> \<not> isfinite (vc_TargetY context) \<or> \<not> isfinite (vc_TargetZ context)
        then reject TargetPositionMismatch
      else
        let expected = (case vc_HuntApproachDestination context of
              Some approach \<Rightarrow> approach
            | None \<Rightarrow> \<lparr>ap_MapId = vc_TargetMapId context, ap_X = vc_TargetX context, ap_Y = vc_TargetY context, ap_Z = vc_TargetZ context\<rparr>);
            dx = flt_sub (ap_X expected) (vc_TargetX context);
            dy = flt_sub (ap_Y expected) (vc_TargetY context);
            dz = flt_sub (ap_Z expected) (vc_TargetZ context) in
        if vc_HuntApproachDestination context \<noteq> None \<and>
           (ap_MapId expected \<noteq> vc_TargetMapId context \<or> \<not> isfinite dx \<or> \<not> isfinite dy \<or> \<not> isfinite dz \<or>
            flt_lt (flt_mul ArrivalToleranceYards ArrivalToleranceYards)
              (flt_add (flt_add (flt_mul dx dx) (flt_mul dy dy)) (flt_mul dz dz)))
        then reject TargetPositionMismatch
        else if \<not> flt_eq (ap_X destination) (ap_X expected) \<or> \<not> flt_eq (ap_Y destination) (ap_Y expected) \<or>
            \<not> flt_eq (ap_Z destination) (ap_Z expected)
        then reject TargetPositionMismatch
        else allow)"

text \<open>The approved destination and, for flight to safety, the verified threat (lines 217 to 234).\<close>

definition RoleMovementRefused :: "ActionRequest \<Rightarrow> ActionPosition \<Rightarrow> ActionValidationContext \<Rightarrow> ActionRejectReason option" where
  "RoleMovementRefused request destination context =
     (case vc_RoleMovementDestination context of None \<Rightarrow> Some GoalMismatch | Some approved \<Rightarrow>
      if ap_MapId approved \<noteq> ap_MapId destination \<or> \<not> flt_eq (ap_X approved) (ap_X destination) \<or>
         \<not> flt_eq (ap_Y approved) (ap_Y destination) \<or> \<not> flt_eq (ap_Z approved) (ap_Z destination) then Some GoalMismatch
      else if aq_SourceGoal request = SeekSafety then
        (if IsEmpty (vc_FleeSourceGuid context) \<or> aq_FleeFromGuid request \<noteq> vc_FleeSourceGuid context \<or>
            (case aq_Target request of None \<Rightarrow> True | Some target \<Rightarrow>
               at_Guid target \<noteq> vc_FleeSourceGuid context \<or> at_Guid target \<noteq> vc_TargetGuid context \<or>
               at_Entry target \<noteq> vc_TargetEntry context) \<or>
            \<not> vc_TargetResolved context \<or> \<not> vc_TargetAlive context \<or> vc_TargetMapId context \<noteq> vc_MapId context \<or>
            \<not> vc_TargetWithinAttackRange context \<or> \<not> vc_TargetInLineOfSight context
         then Some NoFleeSource else None)
      else if vc_LivingRole context \<noteq> Role_Guard \<or> \<not> vc_FreshAllyAlarm context then Some GoalMismatch
      else None)"

definition MoveRange :: "GoalType \<Rightarrow> flt" where
  "MoveRange goal =
     (let isRoutineMove = (goal = GoToWork \<or> goal = GoHome);
          isCoordinationMove = (goal = Regroup \<or> goal = Roam \<or> goal = Hunt)
      in if isRoutineMove then MaxRoutineMoveToRangeYards
         else if isCoordinationMove then MaxCoordinationMoveToRangeYards else MaxMoveToRangeYards)"

definition InScopePosition :: "ActionValidationContext \<Rightarrow> ActionPosition \<Rightarrow> bool" where
  "InScopePosition context p = ContainsPosition (vc_Scope context) (ap_MapId p) (ap_X p) (ap_Y p) (ap_Z p)"

definition ValidateMoveTo :: "ActionRequest \<Rightarrow> ActionValidationContext \<Rightarrow> ActionValidationResult" where
  "ValidateMoveTo request context =
     (let goal = aq_SourceGoal request in
      if (goal = LocalActivity \<or> goal = InvestigateDanger) \<and> vc_InCombat context then reject ActorInCombat
      else case aq_Destination request of None \<Rightarrow> reject NoDestination | Some destination \<Rightarrow>
      if ap_MapId destination \<noteq> vc_MapId context then reject DestinationMapMismatch
      else if \<not> position_finite destination then reject DestinationNotFinite
      else if LivingGoal goal \<and>
        (\<not> InScopePosition context destination \<or>
         (case aq_Recovery request of None \<Rightarrow> False | Some recovery \<Rightarrow>
            \<not> InScopePosition context (rv_Home recovery) \<or>
            (case rv_QueryDestination recovery of None \<Rightarrow> False | Some query \<Rightarrow> \<not> InScopePosition context query)))
        then reject GoalMismatch
      else case (if goal = SeekSafety \<or> goal = InvestigateDanger then RoleMovementRefused request destination context else None) of
        Some reason \<Rightarrow> reject reason
      | None \<Rightarrow>
      let hunt = (if goal = Hunt then ValidateHuntTarget request destination context else allow) in
      if \<not> av_Allowed hunt then hunt
      else if flt_lt (flt_mul (MoveRange goal) (MoveRange goal)) (position_distance destination (vc_X context) (vc_Y context) (vc_Z context))
        then reject DestinationTooFar
      else if vc_HasActiveMovement context then reject ActorMovementBusy
      else allow)"

definition UsesFormationBearing :: "GoalType \<Rightarrow> bool" where
  "UsesFormationBearing goal = (goal \<noteq> PredatorHunt)"

definition TwoPi :: flt where
  "TwoPi = rnd32 (6283185307179586 / 1000000000000000)"

definition ValidateDefend :: "ActionRequest \<Rightarrow> ActionValidationContext \<Rightarrow> ActionValidationResult" where
  "ValidateDefend request context =
     (if vc_HasActiveMovement context then reject ActorMovementBusy
      else case aq_Target request of None \<Rightarrow> reject TargetIdentityMismatch | Some target \<Rightarrow>
      if \<not> IsUnit (at_Guid target) \<or> at_Guid target \<noteq> vc_DefenseThreatGuid context \<or> at_Guid target \<noteq> vc_TargetGuid context
        then reject TargetIdentityMismatch
      else if \<not> vc_TargetResolved context \<or> \<not> vc_TargetAlive context \<or> \<not> vc_TargetAttackable context then reject TargetNotAttackable
      else if at_Entry target \<noteq> vc_TargetEntry context then reject TargetEntryMismatch
      else if vc_TargetMapId context \<noteq> vc_MapId context then reject TargetMapMismatch
      else if \<not> vc_TargetWithinAttackRange context \<or> \<not> vc_TargetInLineOfSight context then reject TargetOutOfAttackRange
      else if \<not> IsEmpty (vc_ActorCurrentVictimGuid context) \<and> vc_ActorCurrentVictimGuid context \<noteq> vc_TargetGuid context
        then reject ActorEngagedWithDifferentTarget
      else allow)"

definition ValidateAttack :: "ActionRequest \<Rightarrow> ActionValidationContext \<Rightarrow> ActionValidationResult" where
  "ValidateAttack request context =
     (if aq_ChaseAngleRadians request \<noteq> None \<and> \<not> UsesFormationBearing (aq_SourceGoal request) then reject InvalidChaseAngle
      else if (case aq_ChaseAngleRadians request of None \<Rightarrow> False
               | Some angle \<Rightarrow> \<not> isfinite angle \<or> flt_lt angle (Fin 0) \<or> flt_le TwoPi angle) then reject InvalidChaseAngle
      else if ActiveGoalIs Defend context then ValidateDefend request context
      else if \<not> ActiveGoalIs Hunt context \<and> \<not> ActiveGoalIs PredatorHunt context then reject GoalMismatch
      else if ActiveGoalIs PredatorHunt context \<and>
          (vc_LivingRole context \<noteq> Role_Predator \<and> vc_LivingRole context \<noteq> Role_Hunter \<or>
           \<not> vc_TargetIsRolePrey context \<or> vc_HasActiveMovement context)
        then reject TargetNotAttackable
      else case aq_Target request of None \<Rightarrow> reject TargetMissing | Some target \<Rightarrow>
      if IsEmpty (at_Guid target) \<or> at_Entry target = 0 then reject TargetMissing
      else if \<not> IsCreature (at_Guid target) then reject TargetIdentityMismatch
      else if GetEntry (at_Guid target) \<noteq> at_Entry target then reject TargetEntryMismatch
      else if \<not> vc_TargetResolved context then reject TargetNotResolved
      else if \<not> vc_TargetAlive context then reject TargetDead
      else if \<not> vc_TargetAttackable context then reject TargetNotAttackable
      else if at_Guid target \<noteq> vc_TargetGuid context then reject TargetIdentityMismatch
      else if at_Entry target \<noteq> vc_TargetEntry context then reject TargetEntryMismatch
      else if vc_TargetMapId context \<noteq> vc_MapId context then reject TargetMapMismatch
      else if \<not> vc_TargetWithinAttackRange context then reject TargetOutOfAttackRange
      else if \<not> vc_TargetInLineOfSight context then reject TargetNoLineOfSight
      else if \<not> IsEmpty (vc_ActorCurrentVictimGuid context) \<and> vc_ActorCurrentVictimGuid context \<noteq> vc_TargetGuid context
        then reject ActorEngagedWithDifferentTarget
      else allow)"

definition ValidateFeed :: "ActionRequest \<Rightarrow> ActionValidationContext \<Rightarrow> ActionValidationResult" where
  "ValidateFeed request context =
     (case aq_Target request of None \<Rightarrow> reject TargetIdentityMismatch | Some target \<Rightarrow>
      if IsEmpty (at_Guid target) \<or> \<not> IsCreature (at_Guid target) \<or> GetEntry (at_Guid target) \<noteq> at_Entry target \<or>
         at_Guid target \<noteq> vc_MealTargetGuid context \<or> at_Guid target \<noteq> vc_TargetGuid context \<or>
         at_Entry target \<noteq> vc_TargetEntry context then reject TargetIdentityMismatch
      else if \<not> vc_TargetResolved context \<or> vc_TargetAlive context then reject TargetNotResolved
      else if vc_TargetMapId context \<noteq> vc_MapId context then reject TargetMapMismatch
      else if \<not> vc_TargetWithinAttackRange context \<or> \<not> vc_TargetInLineOfSight context then reject TargetOutOfAttackRange
      else if vc_InCombat context \<or> vc_HasActiveMovement context then reject ActorInCombat
      else allow)"

definition ValidateEat :: "ActionRequest \<Rightarrow> ActionValidationContext \<Rightarrow> ActionValidationResult" where
  "ValidateEat request context =
     (if ActiveGoalIs Feed context then ValidateFeed request context
      else if \<not> ActiveGoalIs GetFood context then reject GoalMismatch
      else case aq_Destination request of None \<Rightarrow> reject NoDestination | Some destination \<Rightarrow>
      if (case vc_ArrivedDestination context of None \<Rightarrow> True | Some arrived \<Rightarrow>
            ap_MapId destination \<noteq> ap_MapId arrived \<or> \<not> flt_eq (ap_X destination) (ap_X arrived) \<or>
            \<not> flt_eq (ap_Y destination) (ap_Y arrived) \<or> \<not> flt_eq (ap_Z destination) (ap_Z arrived)) \<or>
         aq_SourceGoal request \<noteq> vc_ArrivedSourceGoal context \<or> aq_GoalStartedAtMs request \<noteq> vc_ArrivedGoalStartedAtMs context
        then reject EatContinuationMismatch
      else if ap_MapId destination \<noteq> vc_MapId context then reject DestinationMapMismatch
      else if \<not> position_finite destination then reject DestinationNotFinite
      else if \<not> IsWithinArrivalTolerance destination (vc_X context) (vc_Y context) (vc_Z context) then reject DestinationTooFar
      else if vc_InCombat context then reject ActorInCombat
      else allow)"

definition ValidateAtRoutineTarget :: "ActionRequest \<Rightarrow> ActionValidationContext \<Rightarrow> ActionValidationResult" where
  "ValidateAtRoutineTarget request context =
     (case aq_Destination request of None \<Rightarrow> reject NoDestination | Some destination \<Rightarrow>
      if ap_MapId destination \<noteq> vc_MapId context then reject DestinationMapMismatch
      else if \<not> position_finite destination then reject DestinationNotFinite
      else if \<not> IsWithinArrivalTolerance destination (vc_X context) (vc_Y context) (vc_Z context) then reject DestinationTooFar
      else if vc_HasActiveMovement context then reject ActorMovementBusy
      else allow)"

definition ValidateWork :: "ActionRequest \<Rightarrow> ActionValidationContext \<Rightarrow> ActionValidationResult" where
  "ValidateWork request context =
     (if \<not> ActiveGoalIs GoToWork context then reject GoalMismatch
      else if vc_ExpectedRoutineActivity context \<noteq> Some Work \<or> aq_GoalStartedAtMs request \<noteq> vc_RoutineActivityStartedAtMs context
        then reject RoutineActivityMismatch
      else ValidateAtRoutineTarget request context)"

definition ValidateRest :: "ActionRequest \<Rightarrow> ActionValidationContext \<Rightarrow> ActionValidationResult" where
  "ValidateRest request context =
     (if ActiveGoalIs WildlifeRest context then
        (if \<not> vc_WildlifeRestAllowed context then reject RoutineActivityMismatch
         else if vc_InCombat context \<or> vc_HasActiveMovement context then reject ActorInCombat
         else allow)
      else if \<not> ActiveGoalIs GoHome context then reject GoalMismatch
      else if vc_ExpectedRoutineActivity context \<noteq> Some Rest \<or> aq_GoalStartedAtMs request \<noteq> vc_RoutineActivityStartedAtMs context
        then reject RoutineActivityMismatch
      else ValidateAtRoutineTarget request context)"

definition ValidateAmbient :: "ActionRequest \<Rightarrow> ActionValidationContext \<Rightarrow> ActionValidationResult" where
  "ValidateAmbient request context =
     (if aq_SourceGoal request \<noteq> LocalActivity \<or> aq_AmbientActivity request \<noteq> vc_ExpectedAmbientActivity context \<or>
         aq_AmbientActivity request = Act_Roam \<or> \<not> Allows (vc_LivingRole context) (aq_AmbientActivity request)
        then reject GoalMismatch
      else if vc_InCombat context then reject ActorInCombat
      else if vc_HasActiveMovement context then reject ActorMovementBusy
      else if aq_AmbientActivity request = Act_Rest \<and> \<not> vc_WildlifeRestAllowed context then reject GoalMismatch
      else case aq_Target request of
        None \<Rightarrow> allow
      | Some target \<Rightarrow>
          if aq_AmbientActivity request \<noteq> Act_Talk \<or> \<not> vc_TargetIsSocialPartner context \<or> \<not> vc_TargetResolved context \<or>
             \<not> vc_TargetAlive context \<or> vc_TargetMapId context \<noteq> vc_MapId context \<or> \<not> vc_TargetWithinAttackRange context \<or>
             \<not> vc_TargetInLineOfSight context \<or> vc_TargetGuid context \<noteq> at_Guid target \<or> vc_TargetEntry context \<noteq> at_Entry target
          then reject GoalMismatch else allow)"

definition Validate :: "ActionRequest \<Rightarrow> ActionValidationContext \<Rightarrow> ActionValidationResult" where
  "Validate request context =
     (let goal = aq_SourceGoal request in
      if vc_ControlMode context \<noteq> AIWorldControlled then reject ControlModeNotAllowed
      else if \<not> vc_Materialized context then reject ActorNotMaterialized
      else if \<not> vc_Alive context then reject ActorDead
      else if vc_ActiveGoalType context = None then reject NoActiveGoal
      else if \<not> ActiveGoalIs goal context then reject GoalMismatch
      else if aq_GoalStartedAtMs request \<noteq> vc_ActiveGoalStartedAtMs context then reject GoalMismatch
      else if LivingGoal goal \<and>
          (\<not> vc_LivingRoleAllowed context \<or>
           \<not> Scope_Contains (vc_Scope context) (vc_MapId context) (vc_LivingRoleZoneId context) (vc_X context) (vc_Y context) (vc_Z context) \<or>
           \<not> KnownRole (vc_LivingRole context))
        then reject GoalMismatch
      else if (goal = SeekSafety \<or> goal = InvestigateDanger) \<and> (\<not> vc_LivingRoleExtensionsAllowed context \<or> aq_Type request \<noteq> MoveTo)
        then reject GoalMismatch
      else if (case aq_Recovery request of None \<Rightarrow> False | Some recovery \<Rightarrow>
            aq_Type request \<noteq> MoveTo \<or> goal \<noteq> LocalActivity \<and> goal \<noteq> SeekSafety \<or>
            (case vc_ApprovedRecovery context of None \<Rightarrow> True | Some approved \<Rightarrow> \<not> SameRecovery recovery approved) \<or>
            (case aq_Destination request of None \<Rightarrow> True | Some destination \<Rightarrow> \<not> SamePoint (rv_Destination recovery) destination))
        then reject GoalMismatch
      else case aq_Type request of
        Flee \<Rightarrow> ValidateFlee request context
      | MoveTo \<Rightarrow> ValidateMoveTo request context
      | Eat \<Rightarrow> ValidateEat request context
      | Work_Action \<Rightarrow> ValidateWork request context
      | Rest_Action \<Rightarrow> ValidateRest request context
      | Attack \<Rightarrow> ValidateAttack request context
      | Ambient \<Rightarrow> ValidateAmbient request context)"

section \<open>What a validated action guarantees\<close>

named_theorems allowed_simps

lemma allowed_reject [allowed_simps]: "\<not> av_Allowed (reject r)" "av_Allowed allow"
  by (simp_all add: reject_def allow_def)

lemma allowed_if [allowed_simps]: "av_Allowed (if b then reject r else v) \<longleftrightarrow> \<not> b \<and> av_Allowed v"
  by (simp add: allowed_simps)

lemma allowed_option [allowed_simps]:
  "av_Allowed (case x of None \<Rightarrow> reject r | Some y \<Rightarrow> f y) \<longleftrightarrow> (\<exists>y. x = Some y \<and> av_Allowed (f y))"
  "av_Allowed (case z of Some r \<Rightarrow> reject r | None \<Rightarrow> v) \<longleftrightarrow> z = None \<and> av_Allowed v"
  by (auto simp: allowed_simps split: option.splits)

definition free_to_engage :: "ActionValidationContext \<Rightarrow> bool" where
  "free_to_engage c \<longleftrightarrow> vc_ActorCurrentVictimGuid c \<in> {0, vc_TargetGuid c}"

definition target_verified :: "ActionTargetRef option \<Rightarrow> ActionValidationContext \<Rightarrow> bool" where
  "target_verified target c \<longleftrightarrow> (\<exists>t. target = Some t \<and> at_Guid t = vc_TargetGuid c \<and> at_Entry t = vc_TargetEntry c) \<and>
     vc_TargetResolved c \<and> vc_TargetMapId c = vc_MapId c"

definition target_reachable :: "ActionValidationContext \<Rightarrow> bool" where
  "target_reachable c \<longleftrightarrow> vc_TargetWithinAttackRange c \<and> vc_TargetInLineOfSight c"

definition destination_sound :: "ActionPosition \<Rightarrow> ActionValidationContext \<Rightarrow> bool" where
  "destination_sound d c \<longleftrightarrow> ap_MapId d = vc_MapId c \<and> position_finite d"

lemma allowed_Flee: "av_Allowed (ValidateFlee r c) \<Longrightarrow> ActiveGoalIs FleeDanger c \<and> aq_FleeFromGuid r = vc_FleeSourceGuid c \<and> vc_FleeSourceGuid c \<noteq> 0"
  by (auto simp: ValidateFlee_def allowed_simps IsEmpty_def)

lemma allowed_HuntTarget: "av_Allowed (ValidateHuntTarget r d c) \<Longrightarrow> target_verified (aq_Target r) c \<and> vc_TargetAlive c \<and> vc_TargetAttackable c"
  unfolding ValidateHuntTarget_def Let_def allowed_simps target_verified_def by blast

lemma allowed_MoveTo:
  assumes "av_Allowed (ValidateMoveTo r c)"
  shows "\<exists>d. aq_Destination r = Some d \<and> destination_sound d c \<and> \<not> vc_HasActiveMovement c \<and>
    \<not> flt_lt (flt_mul (MoveRange (aq_SourceGoal r)) (MoveRange (aq_SourceGoal r))) (position_distance d (vc_X c) (vc_Y c) (vc_Z c)) \<and>
    (LivingGoal (aq_SourceGoal r) \<longrightarrow> InScopePosition c d) \<and>
    (aq_SourceGoal r = Hunt \<longrightarrow> target_verified (aq_Target r) c \<and> vc_TargetAlive c \<and> vc_TargetAttackable c)"
proof -
  have hunt: "av_Allowed (if b then ValidateHuntTarget r d c else allow) \<Longrightarrow> b \<Longrightarrow>
      target_verified (aq_Target r) c \<and> vc_TargetAlive c \<and> vc_TargetAttackable c" for b d
    using allowed_HuntTarget by simp
  have keep: "av_Allowed (if \<not> av_Allowed h then h else v) \<longleftrightarrow> av_Allowed h \<and> av_Allowed v" for h v by simp
  show ?thesis
    using assms hunt unfolding ValidateMoveTo_def Let_def allowed_simps keep destination_sound_def by blast
qed

lemma allowed_Attack:
  assumes "av_Allowed (ValidateAttack r c)"
  shows "vc_ActiveGoalType c \<in> {Some Defend, Some Hunt, Some PredatorHunt} \<and> target_verified (aq_Target r) c \<and>
    vc_TargetAlive c \<and> vc_TargetAttackable c \<and> target_reachable c \<and> free_to_engage c"
proof (cases "ActiveGoalIs Defend c")
  case True
  then have "av_Allowed (ValidateDefend r c)" using assms unfolding ValidateAttack_def allowed_simps if_P [OF True] by blast
  then show ?thesis
    using True unfolding ValidateDefend_def allowed_simps target_verified_def target_reachable_def free_to_engage_def ActiveGoalIs_def IsEmpty_def
    by blast
next
  case False
  then show ?thesis
    using assms unfolding ValidateAttack_def if_not_P [OF False] allowed_simps target_verified_def target_reachable_def free_to_engage_def
      IsEmpty_def unfolding ActiveGoalIs_def by blast
qed

lemma allowed_AtRoutineTarget:
  "av_Allowed (ValidateAtRoutineTarget r c) \<Longrightarrow>
    (\<exists>d. aq_Destination r = Some d \<and> destination_sound d c \<and> IsWithinArrivalTolerance d (vc_X c) (vc_Y c) (vc_Z c)) \<and> \<not> vc_HasActiveMovement c"
  unfolding ValidateAtRoutineTarget_def allowed_simps destination_sound_def by blast

lemma allowed_Eat:
  assumes "av_Allowed (ValidateEat r c)"
  shows "\<not> vc_InCombat c \<and>
    (ActiveGoalIs Feed c \<and> target_verified (aq_Target r) c \<and> \<not> vc_TargetAlive c \<and> vc_TargetGuid c = vc_MealTargetGuid c \<and> target_reachable c \<or>
     ActiveGoalIs GetFood c \<and> (\<exists>d. aq_Destination r = Some d \<and> destination_sound d c \<and>
       IsWithinArrivalTolerance d (vc_X c) (vc_Y c) (vc_Z c) \<and> aq_GoalStartedAtMs r = vc_ArrivedGoalStartedAtMs c))"
proof (cases "ActiveGoalIs Feed c")
  case True
  then show ?thesis
    using assms unfolding ValidateEat_def if_P [OF True] ValidateFeed_def allowed_simps target_verified_def target_reachable_def
    by auto
next
  case False
  then show ?thesis
    using assms unfolding ValidateEat_def if_not_P [OF False] allowed_simps destination_sound_def by blast
qed

lemma allowed_Work:
  assumes "av_Allowed (ValidateWork r c)"
  shows "ActiveGoalIs GoToWork c \<and> vc_ExpectedRoutineActivity c = Some Work \<and> \<not> vc_HasActiveMovement c"
  using assms allowed_AtRoutineTarget [of r c] unfolding ValidateWork_def allowed_simps by blast

lemma allowed_Rest:
  assumes "av_Allowed (ValidateRest r c)"
  shows "\<not> vc_HasActiveMovement c \<and> (ActiveGoalIs WildlifeRest c \<and> vc_WildlifeRestAllowed c \<or>
    ActiveGoalIs GoHome c \<and> vc_ExpectedRoutineActivity c = Some Rest)"
proof (cases "ActiveGoalIs WildlifeRest c")
  case True
  then show ?thesis using assms unfolding ValidateRest_def if_P [OF True] allowed_simps by blast
next
  case False
  then show ?thesis
    using assms allowed_AtRoutineTarget [of r c] unfolding ValidateRest_def if_not_P [OF False] allowed_simps by blast
qed

lemma allowed_Ambient:
  assumes "av_Allowed (ValidateAmbient r c)"
  shows "Allows (vc_LivingRole c) (aq_AmbientActivity r) \<and> \<not> vc_InCombat c \<and> \<not> vc_HasActiveMovement c"
  using assms unfolding ValidateAmbient_def allowed_simps by blast

lemma allowed_general:
  assumes "av_Allowed (Validate r c)"
  shows "vc_ControlMode c = AIWorldControlled \<and> vc_Materialized c \<and> vc_Alive c \<and> ActiveGoalIs (aq_SourceGoal r) c \<and>
    aq_GoalStartedAtMs r = vc_ActiveGoalStartedAtMs c \<and>
    av_Allowed (case aq_Type r of Flee \<Rightarrow> ValidateFlee r c | MoveTo \<Rightarrow> ValidateMoveTo r c | Eat \<Rightarrow> ValidateEat r c
      | Work_Action \<Rightarrow> ValidateWork r c | Rest_Action \<Rightarrow> ValidateRest r c | Attack \<Rightarrow> ValidateAttack r c | Ambient \<Rightarrow> ValidateAmbient r c)"
  using assms unfolding Validate_def Let_def allowed_simps by blast

section \<open>Properties\<close>


definition sample_request :: ActionRequest where
  "sample_request = \<lparr>aq_Actor = 1, aq_Type = Attack, aq_SourceGoal = Defend, aq_GoalStartedAtMs = 7, aq_FleeFromGuid = 0,
     aq_Destination = None, aq_Recovery = None, aq_Target = Some \<lparr>at_Guid = 5, at_Entry = 0\<rparr>, aq_SourceGroup = 0,
     aq_ChaseAngleRadians = None, aq_AmbientActivity = Act_None\<rparr>"

definition sample_context :: ActionValidationContext where
  "sample_context = \<lparr>vc_Materialized = True, vc_Alive = True, vc_ControlMode = AIWorldControlled, vc_ActiveGoalType = Some Defend,
     vc_ActiveGoalStartedAtMs = 7, vc_FleeSourceGuid = 0, vc_MapId = 0, vc_X = Fin 0, vc_Y = Fin 0, vc_Z = Fin 0,
     vc_Scope = DefaultScope, vc_HasActiveMovement = False, vc_InCombat = True, vc_ArrivedDestination = None,
     vc_ArrivedSourceGoal = GetFood, vc_ArrivedGoalStartedAtMs = 0, vc_ExpectedRoutineActivity = None,
     vc_RoutineActivityStartedAtMs = 0, vc_DefenseThreatGuid = 5, vc_MealTargetGuid = 0, vc_WildlifeRestAllowed = False,
     vc_TargetResolved = True, vc_TargetAlive = True, vc_TargetAttackable = True, vc_TargetGuid = 5, vc_TargetEntry = 0,
     vc_TargetMapId = 0, vc_TargetX = Fin 0, vc_TargetY = Fin 0, vc_TargetZ = Fin 0, vc_HuntApproachDestination = None,
     vc_ActorCurrentVictimGuid = 0, vc_TargetWithinAttackRange = True, vc_TargetInLineOfSight = True,
     vc_LivingRoleAllowed = False, vc_LivingRoleZoneId = 0, vc_LivingRole = Role_None, vc_ExpectedAmbientActivity = Act_None,
     vc_TargetIsRolePrey = False, vc_LivingRoleExtensionsAllowed = False, vc_RoleMovementDestination = None,
     vc_ApprovedRecovery = None, vc_FreshAllyAlarm = False, vc_TargetIsSocialPartner = False\<rparr>"


end
