(* ===== verification/Agent_Registry.thy ===== *)
theory Agent_Registry
  imports Std_Map Role_Policy Needs_Goals Action_System
begin

text \<open>
  The registry of agents (\<open>Agent/AgentRegistry.cpp\<close>, \<open>Agent/AgentRecord.h\<close>): one record per agent
  id, added once per id and per (map, spawn) pair, removed, and bound to and unbound from the
  creature that currently embodies the agent. The record holds what the registry, the persistence
  and the start-up code read and write; of the role state it holds the fields that say whose activity it is. Routine and
  coordination goals, memories and groups are in the theories of those components. \<open>_agents\<close> is a hash map whose iteration order the results here do
  not depend on.
\<close>

section \<open>Records\<close>

record ActiveAction =
  aa_Type :: ActionType
  aa_SourceGoal :: GoalType
  aa_GoalStartedAtMs :: u64
  aa_StartedAtMs :: u64
  aa_Destination :: "ActionPosition option"
  aa_Target :: "ActionTargetRef option"

datatype Phase = Idle | Moving | Acting | Hunting | Feeding | Defending | Fleeing | SeekingSafety | Investigating

text \<open>The fields of the role state that decide who owns the current action and goal.\<close>

record LivingRoleState =
  lr_RuntimeGuid :: ObjectGuid
  lr_TargetGuid :: ObjectGuid
  lr_CurrentPhase :: Phase
  lr_Activity :: Activity
  lr_SourceGoal :: GoalType
  lr_Destination :: ActionPosition
  lr_StartedAtMs :: u64
  lr_NextDecisionAtMs :: u64

definition LivingRoleState_init :: LivingRoleState where
  "LivingRoleState_init = \<lparr>lr_RuntimeGuid = 0, lr_TargetGuid = 0, lr_CurrentPhase = Idle, lr_Activity = Act_None,
     lr_SourceGoal = LocalActivity, lr_Destination = \<lparr>ap_MapId = 0, ap_X = Fin 0, ap_Y = Fin 0, ap_Z = Fin 0\<rparr>,
     lr_StartedAtMs = 0, lr_NextDecisionAtMs = 0\<rparr>"

record AgentRecord =
  ar_Id :: AgentId
  ar_Type :: AgentType
  ar_ControlMode :: AgentControlMode
  ar_MapId :: u32
  ar_SpawnId :: u64
  ar_WorldFaction :: u32
  ar_HomeLocation :: "AgentLocation option"
  ar_WorkLocation :: "AgentLocation option"
  ar_EconomyState :: AgentEconomyState
  ar_RuntimeGuid :: ObjectGuid
  ar_WorldState :: AgentWorldState
  ar_SnapshotSequence :: u64
  ar_Needs :: NeedsState
  ar_WolfMealTarget :: ObjectGuid
  ar_WolfActionRuntimeGuid :: ObjectGuid
  ar_LivingRole :: LivingRoleState
  ar_NeedsThresholds :: NeedsThresholdState
  ar_ActiveGoalState :: "ActiveGoal option"
  ar_ActiveActionState :: "ActiveAction option"

definition Unaffiliated :: u32 where "Unaffiliated = 0"

definition AgentRecord_init :: AgentRecord where
  "AgentRecord_init = \<lparr>ar_Id = 0, ar_Type = Civilian, ar_ControlMode = ObserveOnly, ar_MapId = 0, ar_SpawnId = 0,
     ar_WorldFaction = Unaffiliated, ar_HomeLocation = None, ar_WorkLocation = None,
     ar_EconomyState = \<lparr>ec_Money = 0, ec_Food = 0, ec_Resource = 0, ec_LastRewardedWorkWindowId = 0, ec_Version = 0\<rparr>,
     ar_RuntimeGuid = 0, ar_WorldState = Abstract, ar_SnapshotSequence = 0, ar_Needs = NeedsState_init, ar_WolfMealTarget = 0,
     ar_WolfActionRuntimeGuid = 0, ar_LivingRole = LivingRoleState_init,
     ar_NeedsThresholds = \<lparr>nt_HungerCriticalActive = False, nt_DangerHighActive = False\<rparr>, ar_ActiveGoalState = None,
     ar_ActiveActionState = None\<rparr>"

definition ResetLivingRoleActivity :: "AgentRecord \<Rightarrow> AgentRecord" where
  "ResetLivingRoleActivity r =
     (let role = ar_LivingRole r;
          r1 = (if lr_CurrentPhase role \<noteq> Idle then
                  let r0 = (case ar_ActiveActionState r of
                        Some a \<Rightarrow> if aa_SourceGoal a = lr_SourceGoal role \<and> aa_GoalStartedAtMs a = lr_StartedAtMs role
                          then r\<lparr>ar_ActiveActionState := None\<rparr> else r
                      | None \<Rightarrow> r) in
                  (case ar_ActiveGoalState r0 of
                     Some g \<Rightarrow> if gl_Type g = lr_SourceGoal role \<and> gl_StartedAtMs g = lr_StartedAtMs role
                       then r0\<lparr>ar_ActiveGoalState := None\<rparr> else r0
                   | None \<Rightarrow> r0)
                else r)
      in r1\<lparr>ar_LivingRole := LivingRoleState_init\<rparr>)"

section \<open>The registry\<close>

type_synonym AgentRegistry = "(u64, AgentRecord) omap"

definition Agents_Find :: "AgentRegistry \<Rightarrow> AgentId \<Rightarrow> AgentRecord option" where
  "Agents_Find reg i = om_find reg i"

fun FindBySpawn_loop :: "AgentRegistry \<Rightarrow> u32 \<Rightarrow> u64 \<Rightarrow> AgentRecord option" where
  "FindBySpawn_loop [] mapId spawnId = None"
| "FindBySpawn_loop ((k, r) # rest) mapId spawnId =
     (if ar_MapId r = mapId \<and> ar_SpawnId r = spawnId then Some r else FindBySpawn_loop rest mapId spawnId)"

definition FindBySpawn :: "AgentRegistry \<Rightarrow> u32 \<Rightarrow> u64 \<Rightarrow> AgentRecord option" where
  "FindBySpawn reg mapId spawnId = FindBySpawn_loop reg mapId spawnId"

definition Agents_Add :: "AgentRecord \<Rightarrow> AgentRegistry \<Rightarrow> bool \<times> AgentRegistry" where
  "Agents_Add r reg =
     (if ar_Id r = 0 then (False, reg)
      else if ar_SpawnId r = 0 then (False, reg)
      else if Agents_Find reg (ar_Id r) \<noteq> None then (False, reg)
      else if FindBySpawn reg (ar_MapId r) (ar_SpawnId r) \<noteq> None then (False, reg)
      else (True, om_put (ar_Id r) r reg))"

definition Agents_Remove :: "AgentId \<Rightarrow> AgentRegistry \<Rightarrow> bool \<times> AgentRegistry" where
  "Agents_Remove i reg = (om_find reg i \<noteq> None, om_del i reg)"

definition GetAgents :: "AgentRegistry \<Rightarrow> AgentId list" where
  "GetAgents reg = map (\<lambda>(k, r). ar_Id r) reg"

text \<open>\<open>if (AgentRecord* record = Find(id))\<close> followed by an update through the pointer.\<close>

definition Agents_Update :: "AgentId \<Rightarrow> (AgentRecord \<Rightarrow> AgentRecord) \<Rightarrow> AgentRegistry \<Rightarrow> AgentRegistry" where
  "Agents_Update i f reg = (case Agents_Find reg i of None \<Rightarrow> reg | Some r \<Rightarrow> om_put i (f r) reg)"

definition BindRecord :: "ObjectGuid \<Rightarrow> AgentRecord \<Rightarrow> AgentRecord" where
  "BindRecord newGuid r =
     (if ar_WorldState r = Materialized \<and> ar_RuntimeGuid r = newGuid then r
      else let r1 = (if \<not> IsEmpty (ar_WolfActionRuntimeGuid r) \<and> ar_WolfActionRuntimeGuid r \<noteq> newGuid
                     then r\<lparr>ar_ActiveActionState := None, ar_ActiveGoalState := None, ar_WolfActionRuntimeGuid := 0\<rparr> else r);
               r2 = (if lr_RuntimeGuid (ar_LivingRole r1) \<noteq> newGuid then ResetLivingRoleActivity r1 else r1)
           in r2\<lparr>ar_WolfMealTarget := 0, ar_RuntimeGuid := newGuid, ar_WorldState := Materialized\<rparr>)"

definition BindCreature :: "AgentId \<Rightarrow> ObjectGuid \<Rightarrow> AgentRegistry \<Rightarrow> AgentRegistry" where
  "BindCreature i creatureGuid reg = Agents_Update i (BindRecord creatureGuid) reg"

definition UnbindRecord :: "AgentRecord \<Rightarrow> AgentRecord" where
  "UnbindRecord r =
     (let r1 = ResetLivingRoleActivity r;
          r2 = (if \<not> IsEmpty (ar_WolfActionRuntimeGuid r1)
                then r1\<lparr>ar_ActiveActionState := None, ar_ActiveGoalState := None, ar_WolfActionRuntimeGuid := 0\<rparr> else r1)
      in r2\<lparr>ar_WolfMealTarget := 0, ar_RuntimeGuid := 0, ar_WorldState := Abstract\<rparr>)"

definition UnbindCreature :: "AgentId \<Rightarrow> AgentRegistry \<Rightarrow> AgentRegistry" where
  "UnbindCreature i reg = Agents_Update i UnbindRecord reg"

section \<open>The invariant\<close>

text \<open>
  Every record is stored under its own non-zero id, and no two records are bound to the same spawn
  of the same map.
\<close>

definition agents_ok :: "AgentRegistry \<Rightarrow> bool" where
  "agents_ok reg = (om_wf reg \<and>
     (\<forall>i r. om_find reg i = Some r \<longrightarrow> ar_Id r = i \<and> i \<noteq> 0 \<and> ar_SpawnId r \<noteq> 0) \<and>
     (\<forall>i j r q. om_find reg i = Some r \<longrightarrow> om_find reg j = Some q \<longrightarrow>
        ar_MapId r = ar_MapId q \<longrightarrow> ar_SpawnId r = ar_SpawnId q \<longrightarrow> i = j))"

text \<open>An update through the pointer keeps the identity of the record.\<close>

definition keeps_identity :: "(AgentRecord \<Rightarrow> AgentRecord) \<Rightarrow> bool" where
  "keeps_identity f = (\<forall>r. ar_Id (f r) = ar_Id r \<and> ar_MapId (f r) = ar_MapId r \<and> ar_SpawnId (f r) = ar_SpawnId r)"

lemma agents_ok_wf: "agents_ok reg \<Longrightarrow> om_wf reg"
  by (simp add: agents_ok_def)

lemma FindBySpawn_None:
  "FindBySpawn reg mapId spawnId = None \<longleftrightarrow> (\<forall>(k, r) \<in> set reg. \<not> (ar_MapId r = mapId \<and> ar_SpawnId r = spawnId))"
  unfolding FindBySpawn_def by (induction reg mapId spawnId rule: FindBySpawn_loop.induct) auto

lemma FindBySpawn_Some:
  "FindBySpawn reg mapId spawnId = Some r \<Longrightarrow> \<exists>k. (k, r) \<in> set reg \<and> ar_MapId r = mapId \<and> ar_SpawnId r = spawnId"
  unfolding FindBySpawn_def
  by (induction reg mapId spawnId rule: FindBySpawn_loop.induct) (auto split: if_splits)

lemma FindBySpawn_exact:
  assumes "agents_ok reg"
  shows "FindBySpawn reg mapId spawnId = Some r \<longleftrightarrow>
    Agents_Find reg (ar_Id r) = Some r \<and> ar_MapId r = mapId \<and> ar_SpawnId r = spawnId"
proof
  assume "FindBySpawn reg mapId spawnId = Some r"
  then obtain k where k: "(k, r) \<in> set reg" "ar_MapId r = mapId" "ar_SpawnId r = spawnId"
    using FindBySpawn_Some by blast
  with assms show "Agents_Find reg (ar_Id r) = Some r \<and> ar_MapId r = mapId \<and> ar_SpawnId r = spawnId"
    by (auto simp: agents_ok_def Agents_Find_def om_find_iff)
next
  assume r: "Agents_Find reg (ar_Id r) = Some r \<and> ar_MapId r = mapId \<and> ar_SpawnId r = spawnId"
  then have "FindBySpawn reg mapId spawnId \<noteq> None"
    unfolding FindBySpawn_None by (auto simp: Agents_Find_def dest: om_find_in)
  then obtain q where q: "FindBySpawn reg mapId spawnId = Some q" by auto
  then obtain k where "(k, q) \<in> set reg" "ar_MapId q = mapId" "ar_SpawnId q = spawnId"
    using FindBySpawn_Some by blast
  then have "om_find reg k = Some q" using assms by (simp add: agents_ok_def om_find_iff)
  with r assms \<open>ar_MapId q = mapId\<close> \<open>ar_SpawnId q = spawnId\<close> have "k = ar_Id r"
    unfolding agents_ok_def Agents_Find_def by blast
  with \<open>om_find reg k = Some q\<close> r q show "FindBySpawn reg mapId spawnId = Some r" by (simp add: Agents_Find_def)
qed

lemma GetAgents_keys: "agents_ok reg \<Longrightarrow> GetAgents reg = om_keys reg"
  unfolding GetAgents_def om_keys_def by (rule map_cong) (auto simp: agents_ok_def om_find_iff)

lemma agents_ok_Add [preserved]:
  assumes "agents_ok reg"
  shows "agents_ok (snd (Agents_Add r reg))"
proof -
  have free: "ar_SpawnId q \<noteq> ar_SpawnId r \<or> ar_MapId q \<noteq> ar_MapId r"
    if "FindBySpawn reg (ar_MapId r) (ar_SpawnId r) = None" and "om_find reg k = Some q" for k q
    using that om_find_in [of reg k q] by (auto simp: FindBySpawn_None)
  show ?thesis
    using assms free by (auto simp: Agents_Add_def agents_ok_def split: if_splits) metis
qed

lemma agents_ok_del: "agents_ok reg \<Longrightarrow> agents_ok (om_del i reg)"
  by (auto simp: agents_ok_def split: if_splits)

lemma agents_ok_Remove [preserved]: "agents_ok reg \<Longrightarrow> agents_ok (snd (Agents_Remove i reg))"
  by (simp add: Agents_Remove_def agents_ok_del)

lemma agents_ok_Update:
  assumes "agents_ok reg" and "keeps_identity f"
  shows "agents_ok (Agents_Update i f reg)"
proof (cases "om_find reg i")
  case (Some r)
  let ?reg = "om_put i (f r) reg"
  have old: "\<exists>q. om_find reg j = Some q \<and> ar_Id p = ar_Id q \<and> ar_MapId p = ar_MapId q \<and> ar_SpawnId p = ar_SpawnId q"
    if "om_find ?reg j = Some p" for j p
    using that assms Some by (auto simp: agents_ok_def keeps_identity_def split: if_splits)
  have "agents_ok ?reg"
    unfolding agents_ok_def
  proof (intro conjI allI impI)
    show "om_wf ?reg" using assms(1) by (simp add: agents_ok_def)
    fix j p assume "om_find ?reg j = Some p"
    from old [OF this] show "ar_Id p = j" and "j \<noteq> 0" and "ar_SpawnId p \<noteq> 0"
      using assms(1) by (auto simp: agents_ok_def)
  next
    fix j k p q
    assume p: "om_find ?reg j = Some p" and q: "om_find ?reg k = Some q"
      and same: "ar_MapId p = ar_MapId q" "ar_SpawnId p = ar_SpawnId q"
    from old [OF p] obtain p' where "om_find reg j = Some p'" "ar_MapId p = ar_MapId p'" "ar_SpawnId p = ar_SpawnId p'" by blast
    moreover from old [OF q] obtain q' where "om_find reg k = Some q'" "ar_MapId q = ar_MapId q'" "ar_SpawnId q = ar_SpawnId q'" by blast
    moreover have "\<forall>i j r q. om_find reg i = Some r \<longrightarrow> om_find reg j = Some q \<longrightarrow>
        ar_MapId r = ar_MapId q \<longrightarrow> ar_SpawnId r = ar_SpawnId q \<longrightarrow> i = j"
      using assms(1) by (simp add: agents_ok_def)
    ultimately show "j = k" using same by metis
  qed
  with Some show ?thesis by (simp add: Agents_Update_def Agents_Find_def)
qed (use assms in \<open>simp add: Agents_Update_def Agents_Find_def\<close>)

lemma reset_keeps: "keeps_identity ResetLivingRoleActivity"
  by (auto simp: keeps_identity_def ResetLivingRoleActivity_def Let_def split: option.splits)

lemma bind_keeps: "keeps_identity (BindRecord g)"
  using reset_keeps by (auto simp: keeps_identity_def BindRecord_def Let_def)

lemma unbind_keeps: "keeps_identity UnbindRecord"
  using reset_keeps by (auto simp: keeps_identity_def UnbindRecord_def Let_def)

lemmas agents_ok_Bind [preserved] = agents_ok_Update [OF _ bind_keeps, folded BindCreature_def]
lemmas agents_ok_Unbind [preserved] = agents_ok_Update [OF _ unbind_keeps, folded UnbindCreature_def]

lemma Find_Update:
  "om_wf reg \<Longrightarrow> Agents_Find (Agents_Update i f reg) j = (if j = i then map_option f (Agents_Find reg i) else Agents_Find reg j)"
  by (auto simp: Agents_Update_def Agents_Find_def split: option.splits)

section \<open>Bodies\<close>

text \<open>
  The claims of a record on the body it is bound to: an abstract agent has none, and whatever a
  materialized agent is doing, it does with its present body.
\<close>

definition body_ok :: "AgentRecord \<Rightarrow> bool" where
  "body_ok r = (if ar_WorldState r = Abstract
     then ar_RuntimeGuid r = 0 \<and> ar_WolfActionRuntimeGuid r = 0 \<and> lr_CurrentPhase (ar_LivingRole r) = Idle
     else ar_WolfActionRuntimeGuid r \<in> {0, ar_RuntimeGuid r} \<and>
       (lr_CurrentPhase (ar_LivingRole r) \<noteq> Idle \<longrightarrow> lr_RuntimeGuid (ar_LivingRole r) = ar_RuntimeGuid r))"

definition owned_by_role :: "AgentRecord \<Rightarrow> ActiveAction \<Rightarrow> bool" where
  "owned_by_role r a = (lr_CurrentPhase (ar_LivingRole r) \<noteq> Idle \<and>
     aa_SourceGoal a = lr_SourceGoal (ar_LivingRole r) \<and> aa_GoalStartedAtMs a = lr_StartedAtMs (ar_LivingRole r))"

lemma reset_fields [simp]:
  "ar_WorldState (ResetLivingRoleActivity r) = ar_WorldState r"
  "ar_RuntimeGuid (ResetLivingRoleActivity r) = ar_RuntimeGuid r"
  "ar_WolfActionRuntimeGuid (ResetLivingRoleActivity r) = ar_WolfActionRuntimeGuid r"
  "ar_LivingRole (ResetLivingRoleActivity r) = LivingRoleState_init"
  by (simp_all add: ResetLivingRoleActivity_def Let_def split: option.split)

lemma reset_action:
  "ar_ActiveActionState (ResetLivingRoleActivity r) =
     (case ar_ActiveActionState r of None \<Rightarrow> None | Some a \<Rightarrow> if owned_by_role r a then None else Some a)"
  by (simp add: ResetLivingRoleActivity_def owned_by_role_def Let_def split: option.split)

lemma idle_init [simp]: "lr_CurrentPhase LivingRoleState_init = Idle"
  by (simp add: LivingRoleState_init_def)

text \<open>The two steps by which another body is taken.\<close>

lemma bind_cases:
  obtains (same) "ar_WorldState r = Materialized" "ar_RuntimeGuid r = g" "BindRecord g r = r"
  | (other) r1 r2 where
      "r1 = (if ar_WolfActionRuntimeGuid r \<noteq> 0 \<and> ar_WolfActionRuntimeGuid r \<noteq> g
         then r\<lparr>ar_ActiveActionState := None, ar_ActiveGoalState := None, ar_WolfActionRuntimeGuid := 0\<rparr> else r)"
      "r2 = (if lr_RuntimeGuid (ar_LivingRole r1) \<noteq> g then ResetLivingRoleActivity r1 else r1)"
      "BindRecord g r = r2\<lparr>ar_WolfMealTarget := 0, ar_RuntimeGuid := g, ar_WorldState := Materialized\<rparr>"
proof (cases "ar_WorldState r = Materialized \<and> ar_RuntimeGuid r = g")
  case True
  then have "BindRecord g r = r" by (simp add: BindRecord_def)
  with True that(1) show thesis by simp
next
  case False
  show thesis
    by (rule that(2) [OF refl refl], unfold BindRecord_def Let_def IsEmpty_def, subst if_not_P [OF False], rule refl)
qed

lemma body_ok_Bind: "body_ok r \<Longrightarrow> body_ok (BindRecord g r)"
  by (cases rule: bind_cases [where r = r and g = g]) (simp_all add: body_ok_def)

lemma body_ok_Unbind: "body_ok (UnbindRecord r)"
  by (simp add: body_ok_def UnbindRecord_def Let_def IsEmpty_def)

lemma bind_action:
  assumes "body_ok r" and "ar_ActiveActionState (BindRecord g r) = Some a"
  shows "ar_ActiveActionState r = Some a" and "ar_WolfActionRuntimeGuid r \<in> {0, g}"
    and "owned_by_role r a \<Longrightarrow> lr_RuntimeGuid (ar_LivingRole r) = g"
proof -
  have "ar_ActiveActionState r = Some a \<and> ar_WolfActionRuntimeGuid r \<in> {0, g} \<and>
    (owned_by_role r a \<longrightarrow> lr_RuntimeGuid (ar_LivingRole r) = g)"
  proof (cases rule: bind_cases [where r = r and g = g])
    case same
    with assms show ?thesis by (auto simp: body_ok_def owned_by_role_def)
  next
    case (other r1 r2)
    from other(3) assms(2) have a: "ar_ActiveActionState r2 = Some a" by simp
    then have "ar_ActiveActionState r1 = Some a" and "lr_RuntimeGuid (ar_LivingRole r1) \<noteq> g \<longrightarrow> \<not> owned_by_role r1 a"
      by (auto simp: other(2) reset_action split: if_splits option.splits)
    with other(1) show ?thesis by (auto simp: owned_by_role_def split: if_splits)
  qed
  then show "ar_ActiveActionState r = Some a" and "ar_WolfActionRuntimeGuid r \<in> {0, g}"
    and "owned_by_role r a \<Longrightarrow> lr_RuntimeGuid (ar_LivingRole r) = g" by blast+
qed

section \<open>Every execution\<close>

datatype agents_op = AAdd AgentRecord | ARemove AgentId | ABind AgentId ObjectGuid | AUnbind AgentId

fun agents_step :: "agents_op \<Rightarrow> AgentRegistry \<Rightarrow> AgentRegistry" where
  "agents_step (AAdd r) reg = snd (Agents_Add r reg)"
| "agents_step (ARemove i) reg = snd (Agents_Remove i reg)"
| "agents_step (ABind i g) reg = BindCreature i g reg"
| "agents_step (AUnbind i) reg = UnbindCreature i reg"

definition agents_run :: "agents_op list \<Rightarrow> AgentRegistry" where
  "agents_run ops = fold agents_step ops []"

lemma agents_step_ok: "agents_ok reg \<Longrightarrow> agents_ok (agents_step op reg)"
  by (cases op; simp only: agents_step.simps)
    (erule agents_ok_Add agents_ok_Remove agents_ok_Bind agents_ok_Unbind)+

lemma agents_run_ok: "agents_ok (agents_run ops)"
proof -
  have "agents_ok reg \<Longrightarrow> agents_ok (fold agents_step ops reg)" for reg
    by (induction ops arbitrary: reg) (simp_all only: fold_simps agents_step_ok)
  moreover have "agents_ok []" by (simp add: agents_ok_def)
  ultimately show ?thesis unfolding agents_run_def by blast
qed

text \<open>
  a spawn is embodied by at most one agent: after any sequence of additions, removals, bindings and
  unbindings, the search by map and spawn returns a record exactly when it is the one stored under
  its own id and bound to that spawn of that map, in whatever order the table is searched.
\<close>

theorem agent_bindings_unique:
  "FindBySpawn (agents_run ops) mapId spawnId = Some r \<longleftrightarrow>
    Agents_Find (agents_run ops) (ar_Id r) = Some r \<and> ar_MapId r = mapId \<and> ar_SpawnId r = spawnId"
  by (rule FindBySpawn_exact [OF agents_run_ok])

end
