(* ===== verification/Spawn_Plan.thy ===== *)
theory Spawn_Plan
  imports Agent_Registry
begin

text \<open>
  Which creature spawns become agents (\<open>Reconciliation/\<close>, \<open>Agent/AgentTypeCatalog\<close>,
  \<open>Faction/WorldFactionCatalog\<close>): the catalogues loaded from the world database, the census of
  spawns, and \<open>BuildReconciliationPlan\<close>, which compares the census with the stored bindings. The
  contents of the database tables and of the \<open>ObjectMgr\<close> and DBC stores are parameters.
\<close>

section \<open>Catalogues\<close>

text \<open>\<open>emplace\<close> keeps the entry that is already there.\<close>

definition om_emplace :: "'k::linorder \<Rightarrow> 'v \<Rightarrow> ('k, 'v) omap \<Rightarrow> ('k, 'v) omap" where
  "om_emplace k v m = (case om_find m k of None \<Rightarrow> om_put k v m | Some _ \<Rightarrow> m)"

lemma om_wf_emplace [simp]: "om_wf m \<Longrightarrow> om_wf (om_emplace k v m)"
  by (simp add: om_emplace_def split: option.splits)

lemma om_find_emplace:
  "om_wf m \<Longrightarrow> om_find (om_emplace k v m) k' =
     (if k' = k \<and> om_find m k = None then Some v else om_find m k')"
  by (auto simp: om_emplace_def split: option.splits)

definition ToKnownParticipationMode :: "u8 \<Rightarrow> SpawnParticipationMode" where
  "ToKnownParticipationMode value =
     (if value = 0 then FullAgent else if value = 1 then LightweightBackground
      else if value = 2 then VanillaOnly else if value = 3 then Excluded else Excluded)"

definition ParticipationCatalog_Load :: "(u64 \<times> u8) list \<Rightarrow> (u64, SpawnParticipationMode) omap" where
  "ParticipationCatalog_Load rows =
     fold (\<lambda>(spawnId, raw). om_emplace spawnId (ToKnownParticipationMode raw)) rows []"

definition Participation_Resolve :: "(u64, SpawnParticipationMode) omap \<Rightarrow> u64 \<Rightarrow> SpawnParticipationMode" where
  "Participation_Resolve catalog spawnId = (case om_find catalog spawnId of None \<Rightarrow> Excluded | Some mode \<Rightarrow> mode)"

definition Participation_TryResolve :: "(u64, SpawnParticipationMode) omap \<Rightarrow> u64 \<Rightarrow> SpawnParticipationMode option" where
  "Participation_TryResolve catalog spawnId = om_find catalog spawnId"

definition FactionCatalog_Load :: "(u32 \<times> u32) list \<Rightarrow> (u32, u32) omap" where
  "FactionCatalog_Load rows = fold (\<lambda>(entry, faction). om_emplace entry faction) rows []"

definition Faction_Resolve :: "(u32, u32) omap \<Rightarrow> u32 \<Rightarrow> u32" where
  "Faction_Resolve catalog entry = (case om_find catalog entry of None \<Rightarrow> Unaffiliated | Some faction \<Rightarrow> faction)"

definition TypeCatalog_Load :: "(u32 \<times> u8) list \<Rightarrow> (u32, AgentType) omap" where
  "TypeCatalog_Load rows = fold (\<lambda>(entry, raw). om_emplace entry (ToKnownAgentType raw)) rows []"

definition Type_Resolve :: "(u32, AgentType) omap \<Rightarrow> u32 \<Rightarrow> AgentType" where
  "Type_Resolve catalog entry = (case om_find catalog entry of None \<Rightarrow> Unclassified | Some t \<Rightarrow> t)"

section \<open>The census\<close>

record CreatureData =
  cd_MapId :: u32
  cd_SpawnId :: u64
  cd_Id :: u32
  cd_NpcFlag :: u32
  cd_X :: flt
  cd_Y :: flt
  cd_Z :: flt

text \<open>
  What the server knows of the spawns: \<open>sObjectMgr->GetAllCreatureData()\<close>, whether a map of the
  DBC store is instanceable, the flags of the creature templates, and the answer of the query for the
  spawn ids of a zone (a 32-bit column).
\<close>

record SpawnWorld =
  sw_AllCreatureData :: "(u64, CreatureData) omap"
  sw_MapInstanceable :: "u32 \<Rightarrow> bool option"
  sw_TemplateNpcFlag :: "u32 \<Rightarrow> u32 option"
  sw_GuidsByZone :: "u32 \<Rightarrow> u32 list"

record CreatureSpawnIdentity =
  si_MapId :: u32
  si_SpawnId :: u64
  si_Entry :: u32
  si_NpcFlags :: u32

text \<open>\<open>ObjectMgr::ChooseCreatureFlags\<close> for the npc flags.\<close>

definition ChooseNpcFlag :: "u32 \<Rightarrow> CreatureData \<Rightarrow> u32" where
  "ChooseNpcFlag templateFlag cdata = (if cd_NpcFlag cdata \<noteq> 0 then cd_NpcFlag cdata else templateFlag)"

fun Census_loop :: "SpawnWorld \<Rightarrow> (u64 \<times> CreatureData) list \<Rightarrow> CreatureSpawnIdentity list" where
  "Census_loop w [] = []"
| "Census_loop w ((k, cdata) # rest) =
     (case sw_MapInstanceable w (cd_MapId cdata) of
        None \<Rightarrow> Census_loop w rest
      | Some inst \<Rightarrow>
          if inst then Census_loop w rest
          else \<lparr>si_MapId = cd_MapId cdata, si_SpawnId = cd_SpawnId cdata, si_Entry = cd_Id cdata,
              si_NpcFlags = (case sw_TemplateNpcFlag w (cd_Id cdata) of
                  None \<Rightarrow> cd_NpcFlag cdata | Some f \<Rightarrow> ChooseNpcFlag f cdata)\<rparr> # Census_loop w rest)"

definition BuildCreatureSpawnCensus :: "SpawnWorld \<Rightarrow> CreatureSpawnIdentity list" where
  "BuildCreatureSpawnCensus w = Census_loop w (sw_AllCreatureData w)"

definition BuildAllKnownCreatureSpawnIds :: "SpawnWorld \<Rightarrow> u64 set" where
  "BuildAllKnownCreatureSpawnIds w = (\<lambda>(k, cdata). cd_SpawnId cdata) ` set (sw_AllCreatureData w)"

definition FetchCreatureSpawnIdsForZone :: "SpawnWorld \<Rightarrow> u32 \<Rightarrow> u64 set" where
  "FetchCreatureSpawnIdsForZone w zone = widen ` set (sw_GuidsByZone w zone)"

definition SpawnInSimulationScope :: "SpawnWorld \<Rightarrow> SimulationScope \<Rightarrow> u64 \<Rightarrow> bool" where
  "SpawnInSimulationScope w scope spawnId =
     (case om_find (sw_AllCreatureData w) spawnId of
        None \<Rightarrow> False
      | Some cdata \<Rightarrow> ContainsActor scope (cd_MapId cdata) spawnId \<and>
          ContainsPosition scope (cd_MapId cdata) (cd_X cdata) (cd_Y cdata) (cd_Z cdata))"

section \<open>The plan\<close>

record AgentSpawnBinding =
  sbd_Id :: AgentId
  sbd_MapId :: u32
  sbd_SpawnId :: u64

record PendingCreatureAgent =
  pc_Type :: AgentType
  pc_MapId :: u32
  pc_SpawnId :: u64
  pc_WorldFaction :: u32

record SpawnReconciliationPlan =
  rp_Missing :: "PendingCreatureAgent list"
  rp_Orphaned :: "AgentId list"
  rp_Conflicted :: "AgentId list"
  rp_AgentIdCollisions :: "CreatureSpawnIdentity list"
  rp_ValidCount :: u32
  rp_QuarantinedCount :: u32
  rp_OutOfScopeCount :: u32
  rp_ExcludedButBound :: "AgentId list"
  rp_ExcludedSkippedCount :: u32

definition SpawnReconciliationPlan_init :: SpawnReconciliationPlan where
  "SpawnReconciliationPlan_init = \<lparr>rp_Missing = [], rp_Orphaned = [], rp_Conflicted = [], rp_AgentIdCollisions = [],
     rp_ValidCount = 0, rp_QuarantinedCount = 0, rp_OutOfScopeCount = 0, rp_ExcludedButBound = [],
     rp_ExcludedSkippedCount = 0\<rparr>"

record Catalogs =
  ct_Faction :: "(u32, u32) omap"
  ct_Type :: "(u32, AgentType) omap"
  ct_Participation :: "(u64, SpawnParticipationMode) omap"

definition EligibleBySpawnId :: "CreatureSpawnIdentity list \<Rightarrow> (u64, CreatureSpawnIdentity) omap" where
  "EligibleBySpawnId census = fold (\<lambda>identity. om_emplace (si_SpawnId identity) identity) census []"

definition Plan_Binding ::
  "(u64, CreatureSpawnIdentity) omap \<Rightarrow> u64 set \<Rightarrow> Catalogs \<Rightarrow> AgentSpawnBinding \<Rightarrow> SpawnReconciliationPlan \<Rightarrow> SpawnReconciliationPlan"
where
  "Plan_Binding eligible allKnownSpawnIds ct b plan =
     (if sbd_Id b \<noteq> sbd_SpawnId b then plan\<lparr>rp_QuarantinedCount := rp_QuarantinedCount plan + 1\<rparr>
      else case om_find eligible (sbd_SpawnId b) of
        None \<Rightarrow>
          if sbd_SpawnId b \<in> allKnownSpawnIds then plan\<lparr>rp_OutOfScopeCount := rp_OutOfScopeCount plan + 1\<rparr>
          else plan\<lparr>rp_Orphaned := rp_Orphaned plan @ [sbd_Id b]\<rparr>
      | Some identity \<Rightarrow>
          if sbd_MapId b \<noteq> si_MapId identity then plan\<lparr>rp_Conflicted := rp_Conflicted plan @ [sbd_Id b]\<rparr>
          else if Participation_Resolve (ct_Participation ct) (sbd_SpawnId b) = Excluded
            then plan\<lparr>rp_ExcludedButBound := rp_ExcludedButBound plan @ [sbd_Id b]\<rparr>
          else plan\<lparr>rp_ValidCount := rp_ValidCount plan + 1\<rparr>)"

definition Plan_Identity ::
  "u64 set \<Rightarrow> u64 set \<Rightarrow> Catalogs \<Rightarrow> CreatureSpawnIdentity \<Rightarrow> SpawnReconciliationPlan \<Rightarrow> SpawnReconciliationPlan"
where
  "Plan_Identity physicalSpawnIds physicalAgentIds ct identity plan =
     (if si_SpawnId identity \<in> physicalSpawnIds then plan
      else if si_SpawnId identity \<in> physicalAgentIds
        then plan\<lparr>rp_AgentIdCollisions := rp_AgentIdCollisions plan @ [identity]\<rparr>
      else if Participation_Resolve (ct_Participation ct) (si_SpawnId identity) = Excluded
        then plan\<lparr>rp_ExcludedSkippedCount := rp_ExcludedSkippedCount plan + 1\<rparr>
      else plan\<lparr>rp_Missing := rp_Missing plan @
        [\<lparr>pc_Type = Type_Resolve (ct_Type ct) (si_Entry identity), pc_MapId = si_MapId identity,
          pc_SpawnId = si_SpawnId identity, pc_WorldFaction = Faction_Resolve (ct_Faction ct) (si_Entry identity)\<rparr>]\<rparr>)"

definition BuildReconciliationPlan ::
  "CreatureSpawnIdentity list \<Rightarrow> u64 set \<Rightarrow> AgentSpawnBinding list \<Rightarrow> Catalogs \<Rightarrow> SpawnReconciliationPlan"
where
  "BuildReconciliationPlan census allKnownSpawnIds physicalBindings ct =
     (let eligible = EligibleBySpawnId census;
          physicalSpawnIds = set (map sbd_SpawnId physicalBindings);
          physicalAgentIds = set (map sbd_Id physicalBindings);
          plan = fold (Plan_Binding eligible allKnownSpawnIds ct) physicalBindings SpawnReconciliationPlan_init
      in fold (Plan_Identity physicalSpawnIds physicalAgentIds ct) census plan)"

section \<open>What the plan is\<close>

text \<open>The reference: every binding and every spawn of the census falls into exactly one class.\<close>

datatype binding_class = Valid | Quarantined | OutOfScope | Orphaned | Conflicted | ExcludedBound
datatype spawn_class = AlreadyBound | IdCollision | ExcludedSkipped | Missing

definition classify_binding :: "CreatureSpawnIdentity list \<Rightarrow> u64 set \<Rightarrow> Catalogs \<Rightarrow> AgentSpawnBinding \<Rightarrow> binding_class" where
  "classify_binding census known ct b =
     (if sbd_Id b \<noteq> sbd_SpawnId b then Quarantined
      else case find (\<lambda>identity. si_SpawnId identity = sbd_SpawnId b) census of
        None \<Rightarrow> if sbd_SpawnId b \<in> known then OutOfScope else Orphaned
      | Some identity \<Rightarrow> if sbd_MapId b \<noteq> si_MapId identity then Conflicted
          else if om_find (ct_Participation ct) (sbd_SpawnId b) \<in> {None, Some Excluded} then ExcludedBound
          else Valid)"

definition classify_spawn :: "AgentSpawnBinding list \<Rightarrow> Catalogs \<Rightarrow> CreatureSpawnIdentity \<Rightarrow> spawn_class" where
  "classify_spawn bindings ct identity =
     (if \<exists>b \<in> set bindings. sbd_SpawnId b = si_SpawnId identity then AlreadyBound
      else if \<exists>b \<in> set bindings. sbd_Id b = si_SpawnId identity then IdCollision
      else if om_find (ct_Participation ct) (si_SpawnId identity) \<in> {None, Some Excluded} then ExcludedSkipped
      else Missing)"

definition pending_agent :: "Catalogs \<Rightarrow> CreatureSpawnIdentity \<Rightarrow> PendingCreatureAgent" where
  "pending_agent ct identity =
     \<lparr>pc_Type = Type_Resolve (ct_Type ct) (si_Entry identity), pc_MapId = si_MapId identity,
      pc_SpawnId = si_SpawnId identity, pc_WorldFaction = Faction_Resolve (ct_Faction ct) (si_Entry identity)\<rparr>"

definition count_class :: "('a \<Rightarrow> 'c) \<Rightarrow> 'c \<Rightarrow> 'a list \<Rightarrow> u32" where
  "count_class f c xs = of_nat (length (filter (\<lambda>x. f x = c) xs))"

lemma Resolve_Excluded: "Participation_Resolve m i = Excluded \<longleftrightarrow> om_find m i \<in> {None, Some Excluded}"
  by (auto simp: Participation_Resolve_def split: option.splits)

lemma EligibleBySpawnId_find:
  "om_find (EligibleBySpawnId census) i = find (\<lambda>identity. si_SpawnId identity = i) census"
proof -
  have "om_wf m \<Longrightarrow> om_find (fold (\<lambda>identity. om_emplace (si_SpawnId identity) identity) census m) i =
      (case om_find m i of None \<Rightarrow> find (\<lambda>identity. si_SpawnId identity = i) census | Some v \<Rightarrow> Some v)" for m
    by (induction census arbitrary: m) (auto simp: om_find_emplace split: option.splits)
  then show ?thesis by (simp add: EligibleBySpawnId_def)
qed

lemma Plan_Binding_class:
  "Plan_Binding (EligibleBySpawnId census) known ct b plan =
     (case classify_binding census known ct b of
        Valid \<Rightarrow> plan\<lparr>rp_ValidCount := rp_ValidCount plan + 1\<rparr>
      | Quarantined \<Rightarrow> plan\<lparr>rp_QuarantinedCount := rp_QuarantinedCount plan + 1\<rparr>
      | OutOfScope \<Rightarrow> plan\<lparr>rp_OutOfScopeCount := rp_OutOfScopeCount plan + 1\<rparr>
      | Orphaned \<Rightarrow> plan\<lparr>rp_Orphaned := rp_Orphaned plan @ [sbd_Id b]\<rparr>
      | Conflicted \<Rightarrow> plan\<lparr>rp_Conflicted := rp_Conflicted plan @ [sbd_Id b]\<rparr>
      | ExcludedBound \<Rightarrow> plan\<lparr>rp_ExcludedButBound := rp_ExcludedButBound plan @ [sbd_Id b]\<rparr>)"
  unfolding Plan_Binding_def classify_binding_def EligibleBySpawnId_find Resolve_Excluded
  by (simp split: option.split)

lemma Plan_Identity_class:
  "Plan_Identity (set (map sbd_SpawnId bindings)) (set (map sbd_Id bindings)) ct identity plan =
     (case classify_spawn bindings ct identity of
        AlreadyBound \<Rightarrow> plan
      | IdCollision \<Rightarrow> plan\<lparr>rp_AgentIdCollisions := rp_AgentIdCollisions plan @ [identity]\<rparr>
      | ExcludedSkipped \<Rightarrow> plan\<lparr>rp_ExcludedSkippedCount := rp_ExcludedSkippedCount plan + 1\<rparr>
      | Missing \<Rightarrow> plan\<lparr>rp_Missing := rp_Missing plan @ [pending_agent ct identity]\<rparr>)"
proof -
  have "si_SpawnId identity \<in> set (map sbd_SpawnId bindings) \<longleftrightarrow> (\<exists>b \<in> set bindings. sbd_SpawnId b = si_SpawnId identity)"
    "si_SpawnId identity \<in> set (map sbd_Id bindings) \<longleftrightarrow> (\<exists>b \<in> set bindings. sbd_Id b = si_SpawnId identity)"
    by (force simp: image_iff)+
  then show ?thesis
    unfolding Plan_Identity_def classify_spawn_def Resolve_Excluded pending_agent_def by simp
qed

lemma Plan_Bindings_fold:
  "fold (Plan_Binding (EligibleBySpawnId census) known ct) bs plan =
     plan\<lparr>rp_ValidCount := rp_ValidCount plan + count_class (classify_binding census known ct) Valid bs,
       rp_QuarantinedCount := rp_QuarantinedCount plan + count_class (classify_binding census known ct) Quarantined bs,
       rp_OutOfScopeCount := rp_OutOfScopeCount plan + count_class (classify_binding census known ct) OutOfScope bs,
       rp_Orphaned := rp_Orphaned plan @ map sbd_Id (filter (\<lambda>b. classify_binding census known ct b = Orphaned) bs),
       rp_Conflicted := rp_Conflicted plan @ map sbd_Id (filter (\<lambda>b. classify_binding census known ct b = Conflicted) bs),
       rp_ExcludedButBound := rp_ExcludedButBound plan @ map sbd_Id (filter (\<lambda>b. classify_binding census known ct b = ExcludedBound) bs)\<rparr>"
proof (induction bs arbitrary: plan)
  case (Cons b bs)
  show ?case
    using Plan_Binding_class [of census known ct b plan]
    by (cases "classify_binding census known ct b") (simp_all add: Cons.IH count_class_def)
qed (simp add: count_class_def)

lemma Plan_Identities_fold:
  "fold (Plan_Identity (set (map sbd_SpawnId bindings)) (set (map sbd_Id bindings)) ct) ids plan =
     plan\<lparr>rp_Missing := rp_Missing plan @ map (pending_agent ct) (filter (\<lambda>i. classify_spawn bindings ct i = Missing) ids),
       rp_AgentIdCollisions := rp_AgentIdCollisions plan @ filter (\<lambda>i. classify_spawn bindings ct i = IdCollision) ids,
       rp_ExcludedSkippedCount := rp_ExcludedSkippedCount plan + count_class (classify_spawn bindings ct) ExcludedSkipped ids\<rparr>"
proof (induction ids arbitrary: plan)
  case (Cons i ids)
  show ?case
    using Plan_Identity_class [of bindings ct i plan]
    by (cases "classify_spawn bindings ct i") (simp_all add: Cons.IH count_class_def del: set_map)
qed (simp add: count_class_def)

text \<open>
  C27: the reconciliation plan is exactly the classification of its inputs: every stored binding is
  counted or listed in exactly one class (a wrong agent id before anything else, then spawns outside
  the zone, orphans, map conflicts, excluded spawns, and the rest valid), and the agents to create
  are, in census order, those of the spawns without a binding whose spawn id is no agent's id and
  whose participation is known and not excluded.
\<close>

theorem reconciliation_plan_exact:
  "BuildReconciliationPlan census known bindings ct =
     \<lparr>rp_Missing = map (pending_agent ct) (filter (\<lambda>i. classify_spawn bindings ct i = Missing) census),
      rp_Orphaned = map sbd_Id (filter (\<lambda>b. classify_binding census known ct b = Orphaned) bindings),
      rp_Conflicted = map sbd_Id (filter (\<lambda>b. classify_binding census known ct b = Conflicted) bindings),
      rp_AgentIdCollisions = filter (\<lambda>i. classify_spawn bindings ct i = IdCollision) census,
      rp_ValidCount = count_class (classify_binding census known ct) Valid bindings,
      rp_QuarantinedCount = count_class (classify_binding census known ct) Quarantined bindings,
      rp_OutOfScopeCount = count_class (classify_binding census known ct) OutOfScope bindings,
      rp_ExcludedButBound = map sbd_Id (filter (\<lambda>b. classify_binding census known ct b = ExcludedBound) bindings),
      rp_ExcludedSkippedCount = count_class (classify_spawn bindings ct) ExcludedSkipped census\<rparr>"
  unfolding BuildReconciliationPlan_def Let_def Plan_Identities_fold Plan_Bindings_fold
  by (simp add: SpawnReconciliationPlan_init_def)

end
