(* ===== verification/Agent_Startup.thy ===== *)
theory Agent_Startup
  imports Spawn_Plan
begin

text \<open>
  The start-up of the agent population (\<open>AIWorldMgr::Initialize\<close>, \<open>ApplyParticipationControlPolicy\<close>,
  \<open>RunSpawnReconciliation\<close> and \<open>RunZoneControlActivation\<close> of \<open>AIWorldMgr.cpp\<close>, with the batches of
  \<open>Persistence/AgentPersistence.cpp\<close>): the rows of \<open>ai_agents\<close> become the registry, the participation
  catalogue removes and demotes, reconciliation quarantines and creates, and activation promotes a
  whole zone or nothing.

  The characters database is the parameter \<open>AgentDatabase\<close>: functions that execute one statement or
  one transaction on an abstract database state and functions that answer the queries. Nothing is
  assumed of them unless a theorem says so: a statement may fail, and the code trusts the read-back.
\<close>

section \<open>The database\<close>

record AgentRow =
  rw_Id :: u64
  rw_Type :: u8
  rw_MapId :: u32
  rw_SpawnId :: u64
  rw_Home :: "AgentLocation option"
  rw_Work :: "AgentLocation option"
  rw_Economy :: AgentEconomyState
  rw_ControlMode :: u8
  rw_WorldFaction :: u32

text \<open>
  The queries return the rows of \<open>CHAR_SEL_AI_AGENTS\<close>, \<open>\<dots>_BINDINGS\<close>, \<open>\<dots>_CONTROL_MODES\<close>,
  \<open>\<dots>_WORLD_FACTIONS\<close> and \<open>\<dots>_TYPES\<close>; the updates execute one \<open>INSERT\<close> statement, and one transaction
  of \<open>UPDATE\<close> statements, each a new value and the ids of its \<open>IN\<close> list.
\<close>

record 'db AgentDatabase =
  db_Agents :: "'db \<Rightarrow> AgentRow list"
  db_Bindings :: "'db \<Rightarrow> AgentSpawnBinding list"
  db_ControlModes :: "'db \<Rightarrow> (u64 \<times> u8) list"
  db_WorldFactions :: "'db \<Rightarrow> (u64 \<times> u32) list"
  db_AgentTypes :: "'db \<Rightarrow> (u64 \<times> u8) list"
  db_InsertAgents :: "PendingCreatureAgent list \<Rightarrow> 'db \<Rightarrow> 'db"
  db_UpdateControlModes :: "(u8 \<times> u64 list) list \<Rightarrow> 'db \<Rightarrow> 'db"
  db_UpdateWorldFactions :: "(u32 \<times> u64 list) list \<Rightarrow> 'db \<Rightarrow> 'db"
  db_UpdateAgentTypes :: "(u8 \<times> u64 list) list \<Rightarrow> 'db \<Rightarrow> 'db"

section \<open>Persistence\<close>

fun AgentControlMode_byte :: "AgentControlMode \<Rightarrow> u8" where
  "AgentControlMode_byte ObserveOnly = 0"
| "AgentControlMode_byte AIWorldControlled = 1"

fun AgentType_byte :: "AgentType \<Rightarrow> u8" where
  "AgentType_byte Civilian = 0"
| "AgentType_byte Guard = 1"
| "AgentType_byte Merchant = 2"
| "AgentType_byte Unclassified = 4"
| "AgentType_byte Combatant = 5"
| "AgentType_byte Predator = 6"
| "AgentType_byte Prey = 7"

definition ToKnownControlMode :: "u8 \<Rightarrow> AgentControlMode" where
  "ToKnownControlMode raw = (if raw = AgentControlMode_byte AIWorldControlled then AIWorldControlled else ObserveOnly)"

definition LoadedRecord :: "AgentRow \<Rightarrow> AgentRecord" where
  "LoadedRecord row = AgentRecord_init\<lparr>ar_Id := rw_Id row, ar_Type := ToKnownAgentType (rw_Type row),
     ar_MapId := rw_MapId row, ar_SpawnId := rw_SpawnId row, ar_RuntimeGuid := 0, ar_WorldState := Abstract,
     ar_SnapshotSequence := 0, ar_HomeLocation := rw_Home row, ar_WorkLocation := rw_Work row,
     ar_EconomyState := rw_Economy row, ar_ControlMode := ToKnownControlMode (rw_ControlMode row),
     ar_WorldFaction := rw_WorldFaction row\<rparr>"

fun LoadAgents_loop :: "AgentRow list \<Rightarrow> u32 \<Rightarrow> AgentRegistry \<Rightarrow> u32 \<times> AgentRegistry" where
  "LoadAgents_loop [] loaded reg = (loaded, reg)"
| "LoadAgents_loop (row # rows) loaded reg =
     (if rw_Id row \<noteq> rw_SpawnId row then LoadAgents_loop rows loaded reg
      else let (added, reg') = Agents_Add (LoadedRecord row) reg
           in if \<not> added then LoadAgents_loop rows loaded reg' else LoadAgents_loop rows (loaded + 1) reg')"

definition LoadAgents :: "'db AgentDatabase \<Rightarrow> 'db \<Rightarrow> AgentRegistry \<Rightarrow> u32 \<times> AgentRegistry" where
  "LoadAgents d db reg = LoadAgents_loop (db_Agents d db) 0 reg"

definition AgentPersistenceBatchChunkSize :: nat where "AgentPersistenceBatchChunkSize = 1000"

text \<open>The loop that cuts a batch into statements of at most that many ids.\<close>

function chunks_from :: "nat \<Rightarrow> 'a list \<Rightarrow> 'a list list" where
  "chunks_from offset xs =
     (if offset < length xs
      then let chunkEnd = (if offset + AgentPersistenceBatchChunkSize > length xs then length xs
             else offset + AgentPersistenceBatchChunkSize)
           in take (chunkEnd - offset) (drop offset xs) # chunks_from (offset + AgentPersistenceBatchChunkSize) xs
      else [])"
  by pat_completeness auto
termination
  by (relation "measure (\<lambda>(offset, xs). length xs - offset)") (auto simp: AgentPersistenceBatchChunkSize_def)

declare chunks_from.simps [simp del]

definition CreateCreatureAgentsBatch ::
  "'db AgentDatabase \<Rightarrow> PendingCreatureAgent list \<Rightarrow> 'db \<Rightarrow> PendingCreatureAgent list \<times> 'db"
where
  "CreateCreatureAgentsBatch d pending db =
     (if pending = [] then ([], db)
      else let db' = fold (db_InsertAgents d) (chunks_from 0 pending) db;
               confirmedSpawnIds = set (map sbd_SpawnId (filter (\<lambda>b. sbd_Id b = sbd_SpawnId b) (db_Bindings d db')))
           in (filter (\<lambda>agent. pc_SpawnId agent \<in> confirmedSpawnIds) pending, db'))"

definition LoadAllControlModes :: "'db AgentDatabase \<Rightarrow> 'db \<Rightarrow> (u64, AgentControlMode) omap" where
  "LoadAllControlModes d db = fold (\<lambda>(i, raw). om_emplace i (ToKnownControlMode raw)) (db_ControlModes d db) []"

definition UpdateControlModeBatch ::
  "'db AgentDatabase \<Rightarrow> AgentControlMode \<Rightarrow> AgentId list \<Rightarrow> 'db \<Rightarrow> AgentId list \<times> 'db"
where
  "UpdateControlModeBatch d mode ids db =
     (if ids = [] then ([], db)
      else let db' = db_UpdateControlModes d (map (\<lambda>chunk. (AgentControlMode_byte mode, chunk)) (chunks_from 0 ids)) db;
               controlModes = LoadAllControlModes d db'
           in (filter (\<lambda>i. om_find controlModes i = Some mode) ids, db'))"

definition PromoteControlModeBatch :: "'db AgentDatabase \<Rightarrow> AgentId list \<Rightarrow> 'db \<Rightarrow> AgentId list \<times> 'db" where
  "PromoteControlModeBatch d ids db = UpdateControlModeBatch d AIWorldControlled ids db"

definition DemoteControlModeBatch :: "'db AgentDatabase \<Rightarrow> AgentId list \<Rightarrow> 'db \<Rightarrow> AgentId list \<times> 'db" where
  "DemoteControlModeBatch d ids db = UpdateControlModeBatch d ObserveOnly ids db"

text \<open>\<open>idsByTarget[value].push_back(id)\<close>, then one chunked update per target value.\<close>

definition ids_by_target :: "(u64 \<times> 'k::linorder) list \<Rightarrow> ('k, u64 list) omap" where
  "ids_by_target mismatches =
     fold (\<lambda>(i, target) m. om_put target ((case om_find m target of None \<Rightarrow> [] | Some ids \<Rightarrow> ids) @ [i]) m) mismatches []"

definition target_statements :: "(u64 \<times> 'k::linorder) list \<Rightarrow> ('k \<times> u64 list) list" where
  "target_statements mismatches =
     concat (map (\<lambda>(target, ids). map (\<lambda>chunk. (target, chunk)) (chunks_from 0 ids)) (ids_by_target mismatches))"

definition LoadAllWorldFactions :: "'db AgentDatabase \<Rightarrow> 'db \<Rightarrow> (u64, u32) omap" where
  "LoadAllWorldFactions d db = fold (\<lambda>(i, faction). om_emplace i faction) (db_WorldFactions d db) []"

definition ReconcileWorldFactionsBatch ::
  "'db AgentDatabase \<Rightarrow> (AgentId \<times> u32) list \<Rightarrow> 'db \<Rightarrow> (AgentId \<times> u32) list \<times> 'db"
where
  "ReconcileWorldFactionsBatch d mismatches db =
     (if mismatches = [] then ([], db)
      else let db' = db_UpdateWorldFactions d (target_statements mismatches) db;
               current = LoadAllWorldFactions d db'
           in (filter (\<lambda>(i, target). om_find current i = Some target) mismatches, db'))"

definition LoadAllAgentTypes :: "'db AgentDatabase \<Rightarrow> 'db \<Rightarrow> (u64, AgentType) omap" where
  "LoadAllAgentTypes d db = fold (\<lambda>(i, raw). om_emplace i (ToKnownAgentType raw)) (db_AgentTypes d db) []"

definition ReconcileAgentTypesBatch ::
  "'db AgentDatabase \<Rightarrow> (AgentId \<times> AgentType) list \<Rightarrow> 'db \<Rightarrow> (AgentId \<times> AgentType) list \<times> 'db"
where
  "ReconcileAgentTypesBatch d mismatches db =
     (if mismatches = [] then ([], db)
      else let db' = db_UpdateAgentTypes d (target_statements (map (\<lambda>(i, t). (i, AgentType_byte t)) mismatches)) db;
               current = LoadAllAgentTypes d db'
           in (filter (\<lambda>(i, t). om_find current i = Some t) mismatches, db'))"

section \<open>The manager\<close>

record StartupConfig =
  sc_RestrictAgentsToSimulationScope :: bool
  sc_SimulationScope :: SimulationScope
  sc_EnableSpawnReconciliation :: bool
  sc_SpawnReconciliationZoneId :: int
  sc_EnableZoneControlActivation :: bool
  sc_ControlZoneId :: int

record 'db AgentManager =
  am_registry :: AgentRegistry
  am_db :: 'db

definition InSimulationMembership :: "StartupConfig \<Rightarrow> u32 \<Rightarrow> u64 \<Rightarrow> bool" where
  "InSimulationMembership cfg mapId spawnId =
     (\<not> sc_RestrictAgentsToSimulationScope cfg \<or> ContainsActor (sc_SimulationScope cfg) mapId spawnId)"

fun RestrictMembership_loop :: "StartupConfig \<Rightarrow> AgentId list \<Rightarrow> AgentRegistry \<Rightarrow> AgentRegistry" where
  "RestrictMembership_loop cfg [] reg = reg"
| "RestrictMembership_loop cfg (i # ids) reg =
     (case Agents_Find reg i of
        None \<Rightarrow> RestrictMembership_loop cfg ids reg
      | Some r \<Rightarrow> RestrictMembership_loop cfg ids
          (if \<not> InSimulationMembership cfg (ar_MapId r) (ar_SpawnId r) then snd (Agents_Remove i reg) else reg))"

definition RestrictMembership :: "StartupConfig \<Rightarrow> AgentRegistry \<Rightarrow> AgentRegistry" where
  "RestrictMembership cfg reg =
     (if sc_RestrictAgentsToSimulationScope cfg then RestrictMembership_loop cfg (GetAgents reg) reg else reg)"

text \<open>The two lists of the policy scan, in the order of the registry.\<close>

definition ExcludedIds :: "(u64, SpawnParticipationMode) omap \<Rightarrow> AgentRegistry \<Rightarrow> AgentId list" where
  "ExcludedIds participation reg = filter (\<lambda>i. case Agents_Find reg i of
       None \<Rightarrow> False
     | Some r \<Rightarrow> Participation_TryResolve participation (ar_SpawnId r) = Some Excluded) (GetAgents reg)"

definition DemotionCandidates :: "(u64, SpawnParticipationMode) omap \<Rightarrow> AgentRegistry \<Rightarrow> AgentId list" where
  "DemotionCandidates participation reg = filter (\<lambda>i. case Agents_Find reg i of
       None \<Rightarrow> False
     | Some r \<Rightarrow> Participation_TryResolve participation (ar_SpawnId r) = Some VanillaOnly \<and>
         ar_ControlMode r = AIWorldControlled) (GetAgents reg)"

definition ApplyParticipationControlPolicy ::
  "'db AgentDatabase \<Rightarrow> Catalogs \<Rightarrow> 'db AgentManager \<Rightarrow> 'db AgentManager"
where
  "ApplyParticipationControlPolicy d ct s =
     (let excludedIds = ExcludedIds (ct_Participation ct) (am_registry s);
          candidates = DemotionCandidates (ct_Participation ct) (am_registry s);
          reg = fold (\<lambda>i reg. snd (Agents_Remove i reg)) excludedIds (am_registry s);
          reg = fold (\<lambda>i. Agents_Update i (\<lambda>r. r\<lparr>ar_ControlMode := ObserveOnly\<rparr>)) candidates reg;
          (demoted, db) = DemoteControlModeBatch d candidates (am_db s)
      in \<lparr>am_registry = reg, am_db = db\<rparr>)"

text \<open>The census of a zone, as both zone operations filter it.\<close>

definition InZoneScope :: "StartupConfig \<Rightarrow> SpawnWorld \<Rightarrow> u32 \<Rightarrow> CreatureSpawnIdentity \<Rightarrow> bool" where
  "InZoneScope cfg w zoneId identity =
     (si_SpawnId identity \<in> FetchCreatureSpawnIdsForZone w zoneId \<and>
      (\<not> sc_RestrictAgentsToSimulationScope cfg \<or>
       (ContainsMapZone (sc_SimulationScope cfg) (si_MapId identity) zoneId \<and>
        SpawnInSimulationScope w (sc_SimulationScope cfg) (si_SpawnId identity))))"

definition ZoneCensus :: "StartupConfig \<Rightarrow> SpawnWorld \<Rightarrow> u32 \<Rightarrow> CreatureSpawnIdentity list" where
  "ZoneCensus cfg w zoneId = filter (InZoneScope cfg w zoneId) (BuildCreatureSpawnCensus w)"

definition CreatedRecord :: "PendingCreatureAgent \<Rightarrow> AgentRecord" where
  "CreatedRecord pending = AgentRecord_init\<lparr>ar_Id := pc_SpawnId pending, ar_Type := pc_Type pending,
     ar_MapId := pc_MapId pending, ar_SpawnId := pc_SpawnId pending, ar_WorldState := Abstract,
     ar_ControlMode := ObserveOnly, ar_WorldFaction := pc_WorldFaction pending\<rparr>"

fun AddCreated_loop :: "PendingCreatureAgent list \<Rightarrow> u32 \<Rightarrow> AgentRegistry \<Rightarrow> u32 \<times> AgentRegistry" where
  "AddCreated_loop [] addedCount reg = (addedCount, reg)"
| "AddCreated_loop (pending # rest) addedCount reg =
     (let (added, reg') = Agents_Add (CreatedRecord pending) reg
      in AddCreated_loop rest (if added then addedCount + 1 else addedCount) reg')"

text \<open>\<open>worldFactionMismatches\<close> and \<open>agentTypeMismatches\<close>.\<close>

fun Mismatches :: "(AgentRecord \<Rightarrow> 'v) \<Rightarrow> (u32 \<Rightarrow> 'v) \<Rightarrow> AgentRegistry \<Rightarrow> CreatureSpawnIdentity list \<Rightarrow> (AgentId \<times> 'v) list" where
  "Mismatches field resolve reg [] = []"
| "Mismatches field resolve reg (identity # census) =
     (case Agents_Find reg (si_SpawnId identity) of
        None \<Rightarrow> Mismatches field resolve reg census
      | Some r \<Rightarrow>
          if ar_MapId r \<noteq> si_MapId identity then Mismatches field resolve reg census
          else if field r \<noteq> resolve (si_Entry identity)
            then (ar_Id r, resolve (si_Entry identity)) # Mismatches field resolve reg census
          else Mismatches field resolve reg census)"

definition VanillaOnlyViolations :: "Catalogs \<Rightarrow> AgentRegistry \<Rightarrow> CreatureSpawnIdentity list \<Rightarrow> u32" where
  "VanillaOnlyViolations ct reg census = of_nat (length (filter (\<lambda>identity.
     Participation_Resolve (ct_Participation ct) (si_SpawnId identity) = VanillaOnly \<and>
     (case Agents_Find reg (si_SpawnId identity) of None \<Rightarrow> False | Some r \<Rightarrow> ar_ControlMode r = AIWorldControlled)) census))"

definition RunSpawnReconciliation ::
  "StartupConfig \<Rightarrow> 'db AgentDatabase \<Rightarrow> SpawnWorld \<Rightarrow> Catalogs \<Rightarrow> u32 \<Rightarrow> 'db AgentManager \<Rightarrow> u32 \<times> 'db AgentManager"
where
  "RunSpawnReconciliation cfg d w ct zoneId s =
     (let census = ZoneCensus cfg w zoneId;
          allKnownSpawnIds = BuildAllKnownCreatureSpawnIds w;
          physicalBindings = db_Bindings d (am_db s);
          plan = BuildReconciliationPlan census allKnownSpawnIds physicalBindings ct;
          reg = fold (\<lambda>i reg. snd (Agents_Remove i reg)) (rp_Orphaned plan) (am_registry s);
          reg = fold (\<lambda>i reg. snd (Agents_Remove i reg)) (rp_Conflicted plan) reg;
          reg = fold (\<lambda>i reg. snd (Agents_Remove i reg)) (rp_ExcludedButBound plan) reg;
          (created, db) = CreateCreatureAgentsBatch d (rp_Missing plan) (am_db s);
          (addedCount, reg) = AddCreated_loop created 0 reg;
          (factions, db) = ReconcileWorldFactionsBatch d (Mismatches ar_WorldFaction (Faction_Resolve (ct_Faction ct)) reg census) db;
          reg = fold (\<lambda>(i, faction). Agents_Update i (\<lambda>r. r\<lparr>ar_WorldFaction := faction\<rparr>)) factions reg;
          (types, db) = ReconcileAgentTypesBatch d (Mismatches ar_Type (Type_Resolve (ct_Type ct)) reg census) db;
          reg = fold (\<lambda>(i, type). Agents_Update i (\<lambda>r. r\<lparr>ar_Type := type\<rparr>)) types reg
      in (VanillaOnlyViolations ct reg census, \<lparr>am_registry = reg, am_db = db\<rparr>))"

text \<open>The scan of the activation: the candidates and the number of spawns not yet reconciled.\<close>

fun Activation_scan ::
  "StartupConfig \<Rightarrow> SpawnWorld \<Rightarrow> u32 \<Rightarrow> Catalogs \<Rightarrow> AgentRegistry \<Rightarrow> CreatureSpawnIdentity list \<Rightarrow>
    AgentId list \<Rightarrow> u32 \<Rightarrow> AgentId list \<times> u32"
where
  "Activation_scan cfg w zoneId ct reg [] candidates notYetReconciled = (candidates, notYetReconciled)"
| "Activation_scan cfg w zoneId ct reg (identity # census) candidates notYetReconciled =
     (if \<not> InZoneScope cfg w zoneId identity then Activation_scan cfg w zoneId ct reg census candidates notYetReconciled
      else case Participation_TryResolve (ct_Participation ct) (si_SpawnId identity) of
        None \<Rightarrow> Activation_scan cfg w zoneId ct reg census candidates (notYetReconciled + 1)
      | Some participation \<Rightarrow>
          if participation = Excluded \<or> participation = VanillaOnly
          then Activation_scan cfg w zoneId ct reg census candidates notYetReconciled
          else case Agents_Find reg (si_SpawnId identity) of
            None \<Rightarrow> Activation_scan cfg w zoneId ct reg census candidates (notYetReconciled + 1)
          | Some r \<Rightarrow>
              if ar_MapId r \<noteq> si_MapId identity
              then Activation_scan cfg w zoneId ct reg census candidates (notYetReconciled + 1)
              else if ar_ControlMode r = AIWorldControlled
              then Activation_scan cfg w zoneId ct reg census candidates notYetReconciled
              else Activation_scan cfg w zoneId ct reg census (candidates @ [ar_Id r]) notYetReconciled)"

definition RunZoneControlActivation ::
  "StartupConfig \<Rightarrow> 'db AgentDatabase \<Rightarrow> SpawnWorld \<Rightarrow> Catalogs \<Rightarrow> u32 \<Rightarrow> 'db AgentManager \<Rightarrow> 'db AgentManager"
where
  "RunZoneControlActivation cfg d w ct zoneId s =
     (let (candidates, notYetReconciled) =
            Activation_scan cfg w zoneId ct (am_registry s) (BuildCreatureSpawnCensus w) [] 0
      in if notYetReconciled \<noteq> 0 then s
         else let (promoted, db) = PromoteControlModeBatch d candidates (am_db s)
              in \<lparr>am_registry = fold (\<lambda>i. Agents_Update i (\<lambda>r. r\<lparr>ar_ControlMode := AIWorldControlled\<rparr>)) promoted (am_registry s),
                  am_db = db\<rparr>)"

text \<open>
  The part of \<open>Initialize\<close> between the load of the agents and the load of the groups; the raw
  catalogue rows are the answers of the three queries of the world database.
\<close>

definition LoadCatalogs :: "(u32 \<times> u32) list \<Rightarrow> (u32 \<times> u8) list \<Rightarrow> (u64 \<times> u8) list \<Rightarrow> Catalogs" where
  "LoadCatalogs factionRows typeRows participationRows =
     \<lparr>ct_Faction = FactionCatalog_Load factionRows, ct_Type = TypeCatalog_Load typeRows,
      ct_Participation = ParticipationCatalog_Load participationRows\<rparr>"

definition InitializeAgents :: "StartupConfig \<Rightarrow> 'db AgentDatabase \<Rightarrow> SpawnWorld \<Rightarrow> Catalogs \<Rightarrow> 'db \<Rightarrow> 'db AgentManager" where
  "InitializeAgents cfg d w ct db =
     (let (loaded, reg) = LoadAgents d db [];
          s = \<lparr>am_registry = RestrictMembership cfg reg, am_db = db\<rparr>;
          s = ApplyParticipationControlPolicy d ct s;
          s = (if sc_EnableSpawnReconciliation cfg then
                 if sc_SpawnReconciliationZoneId cfg \<le> 0 then s
                 else snd (RunSpawnReconciliation cfg d w ct (of_int (sc_SpawnReconciliationZoneId cfg)) s)
               else s)
      in if sc_EnableZoneControlActivation cfg then
           if sc_ControlZoneId cfg \<le> 0 then s
           else RunZoneControlActivation cfg d w ct (of_int (sc_ControlZoneId cfg)) s
         else s)"

section \<open>Batches\<close>

lemma chunks_concat: "concat (chunks_from offset xs) = drop offset xs"
proof (induction offset xs rule: chunks_from.induct)
  case (1 offset xs)
  show ?case
  proof (cases "offset < length xs")
    case True
    let ?n = AgentPersistenceBatchChunkSize
    have "take ?n (drop offset xs) @ drop (?n + offset) xs = drop offset xs"
      using append_take_drop_id [of ?n "drop offset xs"] by (simp only: drop_drop)
    with True 1 show ?thesis
      by (subst chunks_from.simps) (auto simp: Let_def add.commute)
  qed (simp add: chunks_from.simps)
qed

lemma chunks_bounded: "c \<in> set (chunks_from offset xs) \<Longrightarrow> c \<noteq> [] \<and> length c \<le> AgentPersistenceBatchChunkSize"
proof (induction offset xs rule: chunks_from.induct)
  case (1 offset xs)
  then show ?case
    by (subst (asm) (2) chunks_from.simps) (auto simp: Let_def AgentPersistenceBatchChunkSize_def split: if_splits)
qed

lemma fold_keeps: "(\<And>x s. x \<in> set xs \<Longrightarrow> P s \<Longrightarrow> P (f x s)) \<Longrightarrow> P s \<Longrightarrow> P (fold f xs s)"
  by (induction xs arbitrary: s) auto

section \<open>Laws of the records\<close>

text \<open>
  A law of single records lifts to the registry: it holds of every record, and every operation of
  the registry keeps it if it holds of an added record and the updates of reconciliation keep it.
\<close>

definition all_agents :: "(AgentRecord \<Rightarrow> bool) \<Rightarrow> AgentRegistry \<Rightarrow> bool" where
  "all_agents law reg = (agents_ok reg \<and> (\<forall>i r. Agents_Find reg i = Some r \<longrightarrow> law r))"

lemma all_agents_empty: "all_agents law []"
  by (simp add: all_agents_def agents_ok_def Agents_Find_def)

lemma all_agents_Add: "all_agents law reg \<Longrightarrow> law r \<Longrightarrow> all_agents law (snd (Agents_Add r reg))"
  using agents_ok_Add [of reg r]
  by (auto simp: all_agents_def Agents_Add_def Agents_Find_def agents_ok_wf split: if_splits)

lemma all_agents_Remove: "all_agents law reg \<Longrightarrow> all_agents law (snd (Agents_Remove i reg))"
  using agents_ok_Remove [of reg i]
  by (auto simp: all_agents_def Agents_Remove_def Agents_Find_def agents_ok_wf split: if_splits)

lemma all_agents_Update:
  "all_agents law reg \<Longrightarrow> keeps_identity f \<Longrightarrow> (\<And>r. Agents_Find reg i = Some r \<Longrightarrow> law r \<Longrightarrow> law (f r)) \<Longrightarrow>
    all_agents law (Agents_Update i f reg)"
  using agents_ok_Update [of reg f i]
  by (auto simp: all_agents_def Find_Update agents_ok_wf split: if_splits)

lemma keeps_identity_fields:
  "keeps_identity (\<lambda>r. r\<lparr>ar_ControlMode := c\<rparr>)"
  "keeps_identity (\<lambda>r. r\<lparr>ar_WorldFaction := w\<rparr>)"
  "keeps_identity (\<lambda>r. r\<lparr>ar_Type := t\<rparr>)"
  by (simp_all add: keeps_identity_def)

locale record_law =
  fixes law :: "AgentRecord \<Rightarrow> bool"
  assumes law_observe: "law r \<Longrightarrow> law (r\<lparr>ar_ControlMode := ObserveOnly\<rparr>)"
    and law_faction: "law r \<Longrightarrow> law (r\<lparr>ar_WorldFaction := w\<rparr>)"
    and law_type: "law r \<Longrightarrow> law (r\<lparr>ar_Type := t\<rparr>)"
begin

lemma removes: "all_agents law reg \<Longrightarrow> all_agents law (fold (\<lambda>i reg. snd (Agents_Remove i reg)) ids reg)"
  by (rule fold_keeps) (auto intro: all_agents_Remove)

lemma observes:
  "all_agents law reg \<Longrightarrow> all_agents law (fold (\<lambda>i. Agents_Update i (\<lambda>r. r\<lparr>ar_ControlMode := ObserveOnly\<rparr>)) ids reg)"
  by (rule fold_keeps) (auto intro: all_agents_Update keeps_identity_fields law_observe)

lemma factions:
  "all_agents law reg \<Longrightarrow> all_agents law (fold (\<lambda>(i, w). Agents_Update i (\<lambda>r. r\<lparr>ar_WorldFaction := w\<rparr>)) ms reg)"
  by (rule fold_keeps) (auto intro: all_agents_Update keeps_identity_fields law_faction)

lemma types:
  "all_agents law reg \<Longrightarrow> all_agents law (fold (\<lambda>(i, t). Agents_Update i (\<lambda>r. r\<lparr>ar_Type := t\<rparr>)) ms reg)"
  by (rule fold_keeps) (auto intro: all_agents_Update keeps_identity_fields law_type)

lemma loads:
  "all_agents law reg \<Longrightarrow> (\<And>row. row \<in> set rows \<Longrightarrow> rw_Id row = rw_SpawnId row \<Longrightarrow> law (LoadedRecord row)) \<Longrightarrow>
    all_agents law (snd (LoadAgents_loop rows n reg))"
proof (induction rows n reg rule: LoadAgents_loop.induct)
  case (2 row rows n reg)
  have "all_agents law (snd (Agents_Add (LoadedRecord row) reg))" if "rw_Id row = rw_SpawnId row"
    using 2 that by (intro all_agents_Add) auto
  with 2 show ?case by (auto simp: Let_def split: prod.split)
qed simp

lemma created:
  "all_agents law reg \<Longrightarrow> (\<And>p. p \<in> set ps \<Longrightarrow> law (CreatedRecord p)) \<Longrightarrow>
    all_agents law (snd (AddCreated_loop ps n reg))"
proof (induction ps n reg rule: AddCreated_loop.induct)
  case (2 p ps n reg)
  have "all_agents law (snd (Agents_Add (CreatedRecord p) reg))"
    using 2 by (intro all_agents_Add) auto
  with 2 show ?case by (cases "Agents_Add (CreatedRecord p) reg") (auto simp: Let_def)
qed simp

lemma reconciles:
  assumes "all_agents law (am_registry s)"
    and "\<And>p. p \<in> set (rp_Missing (BuildReconciliationPlan (ZoneCensus cfg w zoneId) (BuildAllKnownCreatureSpawnIds w)
      (db_Bindings d (am_db s)) ct)) \<Longrightarrow> law (CreatedRecord p)"
  shows "all_agents law (am_registry (snd (RunSpawnReconciliation cfg d w ct zoneId s)))"
proof -
  let ?plan = "BuildReconciliationPlan (ZoneCensus cfg w zoneId) (BuildAllKnownCreatureSpawnIds w) (db_Bindings d (am_db s)) ct"
  have "set (fst (CreateCreatureAgentsBatch d ps db)) \<subseteq> set ps" for ps db
    by (auto simp: CreateCreatureAgentsBatch_def Let_def)
  then have new: "law (CreatedRecord p)"
    if "CreateCreatureAgentsBatch d (rp_Missing ?plan) db = (cs, db')" and "p \<in> set cs" for cs db db' p
    using assms(2) that by (metis fst_conv subsetD)
  have add: "all_agents law reg'"
    if "CreateCreatureAgentsBatch d (rp_Missing ?plan) db = (cs, db')" and "AddCreated_loop cs n reg = (m, reg')"
      and "all_agents law reg" for cs db db' n reg m reg'
    using created [OF that(3) new [OF that(1)], of cs n] that(2) by simp
  show ?thesis
    using assms(1) unfolding RunSpawnReconciliation_def Let_def
    by (auto split: prod.split intro!: types factions elim!: add intro: removes)
qed

end

section \<open>The laws of the population\<close>

definition loaded_law :: "AgentRecord \<Rightarrow> bool" where
  "loaded_law r = (ar_Id r = ar_SpawnId r \<and> ar_RuntimeGuid r = 0 \<and> ar_WorldState r = Abstract)"

definition member_law :: "StartupConfig \<Rightarrow> AgentRecord \<Rightarrow> bool" where
  "member_law cfg r = (loaded_law r \<and> InSimulationMembership cfg (ar_MapId r) (ar_SpawnId r))"

definition policy_law :: "StartupConfig \<Rightarrow> Catalogs \<Rightarrow> AgentRecord \<Rightarrow> bool" where
  "policy_law cfg ct r = (member_law cfg r \<and>
     Participation_TryResolve (ct_Participation ct) (ar_SpawnId r) \<noteq> Some Excluded \<and>
     (Participation_TryResolve (ct_Participation ct) (ar_SpawnId r) = Some VanillaOnly \<longrightarrow> ar_ControlMode r = ObserveOnly))"

interpretation loaded: record_law loaded_law
  by unfold_locales (simp_all add: loaded_law_def)

interpretation member: record_law "member_law cfg" for cfg
  by unfold_locales (simp_all add: member_law_def loaded_law_def)

interpretation policy: record_law "policy_law cfg ct" for cfg ct
  by unfold_locales (simp_all add: policy_law_def member_law_def loaded_law_def)

lemma all_agents_mono: "all_agents law reg \<Longrightarrow> (\<And>i r. Agents_Find reg i = Some r \<Longrightarrow> law r \<Longrightarrow> law' r) \<Longrightarrow> all_agents law' reg"
  by (auto simp: all_agents_def)

lemma all_agents_wf: "all_agents law reg \<Longrightarrow> om_wf reg"
  by (simp add: all_agents_def agents_ok_wf)

lemma all_agents_key:
  assumes "all_agents law reg" and "Agents_Find reg i = Some r"
  shows "ar_Id r = i" and "i \<in> set (GetAgents reg)" and "law r"
  using assms set_om_keys [of i reg] by (auto simp: all_agents_def GetAgents_keys agents_ok_def Agents_Find_def)

lemma Find_Remove: "om_wf reg \<Longrightarrow> Agents_Find (snd (Agents_Remove i reg)) j = (if j = i then None else Agents_Find reg j)"
  by (simp add: Agents_Remove_def Agents_Find_def)

lemma wf_Remove: "om_wf reg \<Longrightarrow> om_wf (snd (Agents_Remove i reg))"
  by (simp add: Agents_Remove_def)

lemma wf_Update: "om_wf reg \<Longrightarrow> om_wf (Agents_Update i f reg)"
  by (simp add: Agents_Update_def split: option.split)

lemma Find_removes:
  "om_wf reg \<Longrightarrow> Agents_Find (fold (\<lambda>i reg. snd (Agents_Remove i reg)) ids reg) j =
     (if j \<in> set ids then None else Agents_Find reg j)"
  by (induction ids arbitrary: reg) (auto simp: Find_Remove wf_Remove)

lemma Find_updates:
  assumes "\<And>r. f (f r) = f r"
  shows "om_wf reg \<Longrightarrow> Agents_Find (fold (\<lambda>i. Agents_Update i f) ids reg) j =
     (if j \<in> set ids then map_option f (Agents_Find reg j) else Agents_Find reg j)"
  by (induction ids arbitrary: reg) (auto simp: Find_Update wf_Update assms option.map_comp comp_def)

lemma Find_restricted:
  "om_wf reg \<Longrightarrow> Agents_Find (RestrictMembership_loop cfg ids reg) j =
     (case Agents_Find reg j of None \<Rightarrow> None
      | Some r \<Rightarrow> if j \<in> set ids \<and> \<not> InSimulationMembership cfg (ar_MapId r) (ar_SpawnId r) then None else Some r)"
  by (induction cfg ids reg rule: RestrictMembership_loop.induct)
    (auto simp: Find_Remove wf_Remove split: option.splits)

lemma restricted_all: "all_agents law reg \<Longrightarrow> all_agents law (RestrictMembership_loop cfg ids reg)"
  by (induction cfg ids reg rule: RestrictMembership_loop.induct) (auto simp: all_agents_Remove split: option.splits)

lemma loaded_members:
  assumes "all_agents loaded_law reg"
  shows "all_agents (member_law cfg) (RestrictMembership cfg reg)"
proof (cases "sc_RestrictAgentsToSimulationScope cfg")
  case True
  then show ?thesis
    using assms unfolding RestrictMembership_def
    by (auto intro!: all_agents_mono [OF restricted_all [OF assms]]
        simp: member_law_def Find_restricted all_agents_wf split: option.splits if_splits dest: all_agents_key(2) [OF assms])
next
  case False
  with assms show ?thesis
    unfolding RestrictMembership_def by (auto intro!: all_agents_mono [OF assms] simp: member_law_def InSimulationMembership_def)
qed

lemma policy_applied:
  assumes "all_agents (member_law cfg) (am_registry s)"
  shows "all_agents (policy_law cfg ct) (am_registry (ApplyParticipationControlPolicy d ct s))"
proof -
  let ?reg = "am_registry s" let ?p = "ct_Participation ct"
  let ?removed = "fold (\<lambda>i reg. snd (Agents_Remove i reg)) (ExcludedIds ?p ?reg) ?reg"
  let ?out = "fold (\<lambda>i. Agents_Update i (\<lambda>r. r\<lparr>ar_ControlMode := ObserveOnly\<rparr>)) (DemotionCandidates ?p ?reg) ?removed"
  have out: "am_registry (ApplyParticipationControlPolicy d ct s) = ?out"
    by (simp add: ApplyParticipationControlPolicy_def Let_def split: prod.split)
  have wf: "om_wf ?reg" "om_wf ?removed" using assms all_agents_wf member.removes by blast+
  have all: "all_agents (member_law cfg) ?out" using assms by (intro member.observes member.removes)
  have key: "Agents_Find ?reg i = Some r \<Longrightarrow> i \<in> set (GetAgents ?reg)" for i r using all_agents_key(2) [OF assms] .
  show ?thesis unfolding out
  proof (rule all_agents_mono [OF all])
    fix i r assume r: "Agents_Find ?out i = Some r" and law: "member_law cfg r"
    then obtain q where q: "Agents_Find ?reg i = Some q" and kept: "i \<notin> set (ExcludedIds ?p ?reg)"
      and rq: "r = (if i \<in> set (DemotionCandidates ?p ?reg) then q\<lparr>ar_ControlMode := ObserveOnly\<rparr> else q)"
      using wf by (auto simp: Find_updates Find_removes split: if_splits)
    from kept q key [OF q] have "Participation_TryResolve ?p (ar_SpawnId q) \<noteq> Some Excluded"
      by (simp add: ExcludedIds_def)
    moreover from q key [OF q] have "i \<in> set (DemotionCandidates ?p ?reg) \<or> ar_ControlMode q = ObserveOnly"
      if "Participation_TryResolve ?p (ar_SpawnId q) = Some VanillaOnly"
      using that by (cases "ar_ControlMode q") (auto simp: DemotionCandidates_def)
    ultimately show "policy_law cfg ct r" using law rq by (auto simp: policy_law_def split: if_splits)
  qed
qed

section \<open>Reconciliation and activation\<close>

lemma rp_Missing_plan:
  "rp_Missing (BuildReconciliationPlan census known bindings ct) =
     map (pending_agent ct) (filter (\<lambda>i. classify_spawn bindings ct i = Missing) census)"
  unfolding BuildReconciliationPlan_def Let_def Plan_Identities_fold Plan_Bindings_fold
  by (simp add: SpawnReconciliationPlan_init_def)

lemma classify_Missing:
  "classify_spawn bindings ct i = Missing \<longleftrightarrow>
     (\<forall>b \<in> set bindings. sbd_SpawnId b \<noteq> si_SpawnId i \<and> sbd_Id b \<noteq> si_SpawnId i) \<and>
     (\<exists>m. om_find (ct_Participation ct) (si_SpawnId i) = Some m \<and> m \<noteq> Excluded)"
  by (auto simp: classify_spawn_def)

lemma created_law:
  assumes "p \<in> set (rp_Missing (BuildReconciliationPlan (ZoneCensus cfg w zoneId) known bindings ct))"
  shows "policy_law cfg ct (CreatedRecord p)"
proof -
  from assms obtain i where i: "p = pending_agent ct i" "InZoneScope cfg w zoneId i" "classify_spawn bindings ct i = Missing"
    by (auto simp: rp_Missing_plan ZoneCensus_def)
  then have "InSimulationMembership cfg (si_MapId i) (si_SpawnId i)"
    by (auto simp: InZoneScope_def InSimulationMembership_def SpawnInSimulationScope_def ContainsActor_def ContainsMapZone_def
        split: option.splits)
  with i show ?thesis
    by (auto simp: policy_law_def member_law_def loaded_law_def CreatedRecord_def AgentRecord_init_def pending_agent_def
        classify_Missing Participation_TryResolve_def)
qed

text \<open>A spawn that the activation of the zone has to promote, or to wait for.\<close>

definition activation_ready :: "Catalogs \<Rightarrow> AgentRegistry \<Rightarrow> CreatureSpawnIdentity \<Rightarrow> bool" where
  "activation_ready ct reg i =
     (case om_find (ct_Participation ct) (si_SpawnId i) of
        None \<Rightarrow> False
      | Some m \<Rightarrow> m = Excluded \<or> m = VanillaOnly \<or>
          (case Agents_Find reg (si_SpawnId i) of None \<Rightarrow> False | Some r \<Rightarrow> ar_MapId r = si_MapId i))"

definition activation_candidate :: "Catalogs \<Rightarrow> AgentRegistry \<Rightarrow> CreatureSpawnIdentity \<Rightarrow> AgentId option" where
  "activation_candidate ct reg i =
     (case Agents_Find reg (si_SpawnId i) of
        None \<Rightarrow> None
      | Some r \<Rightarrow> if om_find (ct_Participation ct) (si_SpawnId i) \<in> {Some FullAgent, Some LightweightBackground} \<and>
          ar_MapId r = si_MapId i \<and> ar_ControlMode r = ObserveOnly then Some (ar_Id r) else None)"

lemma Activation_scan_exact:
  "Activation_scan cfg w zoneId ct reg census candidates n =
     (candidates @ List.map_filter (activation_candidate ct reg) (filter (InZoneScope cfg w zoneId) census),
      n + of_nat (length (filter (\<lambda>i. InZoneScope cfg w zoneId i \<and> \<not> activation_ready ct reg i) census)))"
proof (induction census arbitrary: candidates n)
  case (Cons identity census)
  note defs = Participation_TryResolve_def activation_ready_def activation_candidate_def map_filter_simps
  show ?case
  proof (cases "om_find (ct_Participation ct) (si_SpawnId identity)")
    case None
    with Cons show ?thesis by (simp add: defs split: option.split)
  next
    case (Some m)
    note mode = this
    show ?thesis
    proof (cases "Agents_Find reg (si_SpawnId identity)")
      case None
      with mode Cons show ?thesis by (cases m) (simp_all add: defs)
    next
      case (Some r)
      with mode Cons show ?thesis by (cases m; cases "ar_ControlMode r") (simp_all add: defs)
    qed
  qed
qed (simp add: map_filter_simps)

lemma Update_controlled:
  "all_agents (policy_law cfg ct) reg \<Longrightarrow> om_find (ct_Participation ct) i \<noteq> Some VanillaOnly \<Longrightarrow>
    all_agents (policy_law cfg ct) (Agents_Update i (\<lambda>r. r\<lparr>ar_ControlMode := AIWorldControlled\<rparr>) reg)"
proof (rule all_agents_Update [OF _ keeps_identity_fields(1)], assumption)
  fix r assume reg: "all_agents (policy_law cfg ct) reg" and i: "om_find (ct_Participation ct) i \<noteq> Some VanillaOnly"
    and r: "Agents_Find reg i = Some r" and law: "policy_law cfg ct r"
  then have "ar_SpawnId r = i"
    using all_agents_key(1) [OF reg r] by (simp add: policy_law_def member_law_def loaded_law_def)
  with law i show "policy_law cfg ct (r\<lparr>ar_ControlMode := AIWorldControlled\<rparr>)"
    by (simp add: policy_law_def member_law_def loaded_law_def Participation_TryResolve_def)
qed

lemma set_map_filter: "y \<in> set (List.map_filter f xs) \<longleftrightarrow> (\<exists>x \<in> set xs. f x = Some y)"
  by (auto simp: List.map_filter_def image_iff)

lemma candidate_known:
  assumes "all_agents law reg" and "activation_candidate ct reg i = Some j"
  shows "j = si_SpawnId i" and "om_find (ct_Participation ct) j \<in> {Some FullAgent, Some LightweightBackground}"
  using assms by (auto simp: activation_candidate_def dest: all_agents_key(1) split: option.splits if_splits)

lemma Promote_subset: "set (fst (PromoteControlModeBatch d ids db)) \<subseteq> set ids"
  by (auto simp: PromoteControlModeBatch_def UpdateControlModeBatch_def Let_def)

lemma activation_policy:
  assumes "all_agents (policy_law cfg ct) (am_registry s)"
  shows "all_agents (policy_law cfg ct) (am_registry (RunZoneControlActivation cfg d w ct zoneId s))"
proof -
  let ?candidates = "fst (Activation_scan cfg w zoneId ct (am_registry s) (BuildCreatureSpawnCensus w) [] 0)"
  have known: "om_find (ct_Participation ct) j \<noteq> Some VanillaOnly" if "j \<in> set ?candidates" for j
  proof -
    from that obtain i where "activation_candidate ct (am_registry s) i = Some j"
      by (auto simp: Activation_scan_exact set_map_filter)
    from candidate_known(2) [OF assms this] show ?thesis by auto
  qed
  have promoted: "om_find (ct_Participation ct) j \<noteq> Some VanillaOnly"
    if "j \<in> set (fst (PromoteControlModeBatch d ?candidates db))" for j db
    by (rule known [OF subsetD [OF Promote_subset that]])
  obtain cs n where scan: "Activation_scan cfg w zoneId ct (am_registry s) (BuildCreatureSpawnCensus w) [] 0 = (cs, n)" by fastforce
  obtain ps db where promote: "PromoteControlModeBatch d cs (am_db s) = (ps, db)" by fastforce
  have "om_find (ct_Participation ct) j \<noteq> Some VanillaOnly" if "j \<in> set ps" for j
    using promoted [of j "am_db s"] that by (simp add: scan promote)
  then have "all_agents (policy_law cfg ct)
      (fold (\<lambda>i. Agents_Update i (\<lambda>r. r\<lparr>ar_ControlMode := AIWorldControlled\<rparr>)) ps (am_registry s))"
    using assms by (intro fold_keeps [where P = "all_agents (policy_law cfg ct)"]) (auto intro: Update_controlled)
  with assms show ?thesis by (simp add: RunZoneControlActivation_def scan promote)
qed

lemma startup_policy:
  "all_agents (policy_law cfg ct) (am_registry (InitializeAgents cfg d w ct db))"
proof -
  have "all_agents loaded_law (snd (LoadAgents d db []))"
    unfolding LoadAgents_def
    by (rule loaded.loads) (simp_all add: all_agents_empty loaded_law_def LoadedRecord_def)
  then have "all_agents (policy_law cfg ct) (am_registry
      (ApplyParticipationControlPolicy d ct \<lparr>am_registry = RestrictMembership cfg (snd (LoadAgents d db [])), am_db = db\<rparr>))"
    by (intro policy_applied) (simp add: loaded_members)
  then show ?thesis
    unfolding InitializeAgents_def Let_def
    by (auto split: prod.split intro!: activation_policy policy.reconciles created_law)
qed

section \<open>A database that executes its statements\<close>

text \<open>
  The documented behaviour of the SQL statements: an \<open>INSERT\<close> of rows with fresh and distinct keys
  adds them, an \<open>UPDATE\<close> of another column keeps the bindings, and an \<open>UPDATE \<dots> WHERE agent_id IN\<close>
  sets the column of the listed rows.
\<close>

definition binding_of :: "PendingCreatureAgent \<Rightarrow> AgentSpawnBinding" where
  "binding_of p = \<lparr>sbd_Id = pc_SpawnId p, sbd_MapId = pc_MapId p, sbd_SpawnId = pc_SpawnId p\<rparr>"

definition fresh_keys :: "AgentSpawnBinding list \<Rightarrow> PendingCreatureAgent list \<Rightarrow> bool" where
  "fresh_keys bindings ps = (distinct (map pc_SpawnId ps) \<and>
     (\<forall>p \<in> set ps. \<forall>b \<in> set bindings. sbd_Id b \<noteq> pc_SpawnId p \<and> sbd_SpawnId b \<noteq> pc_SpawnId p))"

definition inserts_fresh :: "'db AgentDatabase \<Rightarrow> bool" where
  "inserts_fresh d = (\<forall>ps db. fresh_keys (db_Bindings d db) ps \<longrightarrow>
     set (db_Bindings d (db_InsertAgents d ps db)) = set (db_Bindings d db) \<union> binding_of ` set ps)"

definition updates_keep_bindings :: "'db AgentDatabase \<Rightarrow> bool" where
  "updates_keep_bindings d = (\<forall>db u v t. db_Bindings d (db_UpdateControlModes d u db) = db_Bindings d db \<and>
     db_Bindings d (db_UpdateWorldFactions d v db) = db_Bindings d db \<and>
     db_Bindings d (db_UpdateAgentTypes d t db) = db_Bindings d db)"

definition sets_control_modes :: "'db AgentDatabase \<Rightarrow> bool" where
  "sets_control_modes d = (\<forall>db v chunks i. i \<in> set (concat chunks) \<and> i \<in> sbd_Id ` set (db_Bindings d db) \<longrightarrow>
     om_find (LoadAllControlModes d (db_UpdateControlModes d (map (\<lambda>c. (v, c)) chunks) db)) i = Some (ToKnownControlMode v))"

lemma insert_chunks:
  assumes "inserts_fresh d" and "fresh_keys (db_Bindings d db) (concat css)"
  shows "set (db_Bindings d (fold (db_InsertAgents d) css db)) = set (db_Bindings d db) \<union> binding_of ` set (concat css)"
  using assms(2)
proof (induction css arbitrary: db)
  case (Cons c css)
  from Cons.prems have "fresh_keys (db_Bindings d db) c" by (auto simp: fresh_keys_def)
  with assms(1) have one: "set (db_Bindings d (db_InsertAgents d c db)) = set (db_Bindings d db) \<union> binding_of ` set c"
    by (simp add: inserts_fresh_def)
  with Cons.prems have "fresh_keys (db_Bindings d (db_InsertAgents d c db)) (concat css)"
    by (fastforce simp: fresh_keys_def binding_of_def)
  from Cons.IH [OF this] one show ?case by auto
qed simp

lemma create_honest:
  assumes "inserts_fresh d" and "fresh_keys (db_Bindings d db) ps"
  shows "fst (CreateCreatureAgentsBatch d ps db) = ps"
    and "set (db_Bindings d (snd (CreateCreatureAgentsBatch d ps db))) = set (db_Bindings d db) \<union> binding_of ` set ps"
proof -
  have all: "set (db_Bindings d (fold (db_InsertAgents d) (chunks_from 0 ps) db)) = set (db_Bindings d db) \<union> binding_of ` set ps"
    using insert_chunks [OF assms(1), of db "chunks_from 0 ps"] assms(2) by (simp add: chunks_concat)
  then show "set (db_Bindings d (snd (CreateCreatureAgentsBatch d ps db))) = set (db_Bindings d db) \<union> binding_of ` set ps"
    by (auto simp: CreateCreatureAgentsBatch_def Let_def)
  have "pc_SpawnId p \<in> sbd_SpawnId ` {b \<in> set (db_Bindings d (fold (db_InsertAgents d) (chunks_from 0 ps) db)). sbd_Id b = sbd_SpawnId b}"
    if "p \<in> set ps" for p
    using that all by (intro image_eqI [of _ _ "binding_of p"]) (auto simp: binding_of_def)
  then show "fst (CreateCreatureAgentsBatch d ps db) = ps"
    by (auto simp: CreateCreatureAgentsBatch_def Let_def intro!: filter_True)
qed

lemma Missing_fresh:
  assumes "distinct (map si_SpawnId census)"
  shows "fresh_keys bindings (rp_Missing (BuildReconciliationPlan census known bindings ct))"
  using assms
  by (auto simp: fresh_keys_def rp_Missing_plan pending_agent_def classify_Missing comp_def distinct_map inj_on_def)

lemma AddCreated_all:
  assumes "all_agents loaded_law reg" and "distinct (map pc_SpawnId ps)"
    and "\<And>p. p \<in> set ps \<Longrightarrow> pc_SpawnId p \<noteq> 0 \<Longrightarrow> Agents_Find reg (pc_SpawnId p) = None"
  shows "Agents_Find (snd (AddCreated_loop ps n reg)) i =
    (case find (\<lambda>p. pc_SpawnId p = i \<and> i \<noteq> 0) ps of Some p \<Rightarrow> Some (CreatedRecord p) | None \<Rightarrow> Agents_Find reg i)"
  using assms
proof (induction ps arbitrary: n reg)
  case (Cons p ps)
  let ?r = "CreatedRecord p"
  obtain b reg' where add: "Agents_Add ?r reg = (b, reg')" by fastforce
  have id: "ar_Id ?r = pc_SpawnId p" "ar_SpawnId ?r = pc_SpawnId p" by (simp_all add: CreatedRecord_def)
  have law: "all_agents loaded_law reg'"
  proof -
    have "loaded_law ?r" by (simp add: loaded_law_def CreatedRecord_def AgentRecord_init_def)
    from all_agents_Add [OF Cons.prems(1) this] add show ?thesis by simp
  qed
  have "FindBySpawn reg m (pc_SpawnId p) = None" if "pc_SpawnId p \<noteq> 0" for m
  proof (rule ccontr)
    assume "FindBySpawn reg m (pc_SpawnId p) \<noteq> None"
    then obtain q where "FindBySpawn reg m (pc_SpawnId p) = Some q" by auto
    moreover have "agents_ok reg" using Cons.prems(1) by (simp add: all_agents_def)
    ultimately have q: "Agents_Find reg (ar_Id q) = Some q" "ar_SpawnId q = pc_SpawnId p"
      by (simp_all add: FindBySpawn_exact)
    from all_agents_key(3) [OF Cons.prems(1) q(1)] q(2) have "ar_Id q = pc_SpawnId p" by (simp add: loaded_law_def)
    with q(1) Cons.prems(3) [of p] that show False by simp
  qed
  then have step: "Agents_Find reg' j = (if j = pc_SpawnId p \<and> j \<noteq> 0 then Some ?r else Agents_Find reg j)" for j
    using add Cons.prems(1) Cons.prems(3) [of p] all_agents_wf [OF Cons.prems(1)]
    by (auto simp: Agents_Add_def id Agents_Find_def split: if_splits)
  have "Agents_Find (snd (AddCreated_loop ps m reg')) i =
    (case find (\<lambda>p. pc_SpawnId p = i \<and> i \<noteq> 0) ps of Some p \<Rightarrow> Some (CreatedRecord p) | None \<Rightarrow> Agents_Find reg' i)" for m
    using Cons.prems by (intro Cons.IH [OF law]) (auto simp: step, metis imageI)
  moreover have "find (\<lambda>q. pc_SpawnId q = i \<and> i \<noteq> 0) ps = None" if "i = pc_SpawnId p"
    using Cons.prems(2) that by (simp add: find_None_iff) (metis imageI)
  ultimately show ?case by (auto simp: add step Let_def split: option.split)
qed simp

text \<open>What a field update may change.\<close>

lemma Find_field_updates:
  assumes "om_wf reg"
    and "\<And>y r. ar_MapId (g y r) = ar_MapId r \<and> ar_ControlMode (g y r) = ar_ControlMode r"
    and "Agents_Find reg i = Some r"
  shows "\<exists>q. Agents_Find (fold (\<lambda>(j, y). Agents_Update j (g y)) ms reg) i = Some q \<and>
    ar_MapId q = ar_MapId r \<and> ar_ControlMode q = ar_ControlMode r"
  using assms(1,3)
proof (induction ms arbitrary: reg r)
  case (Cons m ms)
  obtain j y where m: "m = (j, y)" by fastforce
  have "Agents_Find (Agents_Update j (g y) reg) i = Some (if i = j then g y r else r)"
    using Cons.prems by (auto simp: Find_Update)
  from Cons.IH [OF wf_Update [OF Cons.prems(1)] this] show ?case using assms(2) by (auto simp: m)
qed auto

section \<open>Reconciliation with such a database\<close>

lemma batch_bindings:
  assumes "updates_keep_bindings d"
  shows "db_Bindings d (snd (ReconcileWorldFactionsBatch d ms db)) = db_Bindings d db"
    and "db_Bindings d (snd (ReconcileAgentTypesBatch d ts db)) = db_Bindings d db"
    and "db_Bindings d (snd (UpdateControlModeBatch d mode ids db)) = db_Bindings d db"
  using assms
  by (simp_all add: updates_keep_bindings_def ReconcileWorldFactionsBatch_def ReconcileAgentTypesBatch_def
      UpdateControlModeBatch_def Let_def)

definition plan_of ::
  "StartupConfig \<Rightarrow> 'db AgentDatabase \<Rightarrow> SpawnWorld \<Rightarrow> Catalogs \<Rightarrow> u32 \<Rightarrow> 'db AgentManager \<Rightarrow> SpawnReconciliationPlan"
where
  "plan_of cfg d w ct zoneId s = BuildReconciliationPlan (ZoneCensus cfg w zoneId) (BuildAllKnownCreatureSpawnIds w)
     (db_Bindings d (am_db s)) ct"

lemma reconciled_bindings:
  assumes "inserts_fresh d" and "updates_keep_bindings d" and "distinct (map si_SpawnId (ZoneCensus cfg w zoneId))"
  shows "set (db_Bindings d (am_db (snd (RunSpawnReconciliation cfg d w ct zoneId s)))) =
    set (db_Bindings d (am_db s)) \<union> binding_of ` set (rp_Missing (plan_of cfg d w ct zoneId s))"
proof -
  have "fresh_keys (db_Bindings d (am_db s)) (rp_Missing (plan_of cfg d w ct zoneId s))"
    unfolding plan_of_def by (rule Missing_fresh [OF assms(3)])
  from create_honest(2) [OF assms(1) this] show ?thesis
    by (simp add: RunSpawnReconciliation_def Let_def split_beta plan_of_def batch_bindings [OF assms(2)])
qed

lemma reconciled_nothing_missing:
  assumes "inserts_fresh d" and "updates_keep_bindings d" and "distinct (map si_SpawnId (ZoneCensus cfg w zoneId))"
  shows "rp_Missing (plan_of cfg d w ct zoneId (snd (RunSpawnReconciliation cfg d w ct zoneId s))) = []"
proof -
  let ?bindings = "db_Bindings d (am_db (snd (RunSpawnReconciliation cfg d w ct zoneId s)))"
  have "classify_spawn ?bindings ct i \<noteq> Missing" if "i \<in> set (ZoneCensus cfg w zoneId)" for i
  proof (cases "classify_spawn (db_Bindings d (am_db s)) ct i = Missing")
    case True
    with that have "binding_of (pending_agent ct i) \<in> set ?bindings"
      unfolding reconciled_bindings [OF assms] by (auto simp: plan_of_def rp_Missing_plan)
    then show ?thesis unfolding classify_Missing by (force simp: binding_of_def pending_agent_def)
  next
    case False
    then show ?thesis unfolding classify_Missing reconciled_bindings [OF assms] by blast
  qed
  then show ?thesis unfolding plan_of_def rp_Missing_plan by (simp add: filter_empty_conv)
qed

lemma created_record:
  "ar_MapId (CreatedRecord p) = pc_MapId p" "ar_ControlMode (CreatedRecord p) = ObserveOnly"
  by (simp_all add: CreatedRecord_def)

lemma reconciled_registers:
  assumes "inserts_fresh d" and "distinct (map si_SpawnId (ZoneCensus cfg w zoneId))"
    and "all_agents loaded_law (am_registry s)"
    and "\<forall>i r. Agents_Find (am_registry s) i = Some r \<longrightarrow> i \<in> sbd_Id ` set (db_Bindings d (am_db s))"
    and "i \<in> set (ZoneCensus cfg w zoneId)" and "classify_spawn (db_Bindings d (am_db s)) ct i = Missing"
    and "si_SpawnId i \<noteq> 0"
  shows "\<exists>r. Agents_Find (am_registry (snd (RunSpawnReconciliation cfg d w ct zoneId s))) (si_SpawnId i) = Some r \<and>
    ar_MapId r = si_MapId i \<and> ar_ControlMode r = ObserveOnly"
proof -
  let ?plan = "plan_of cfg d w ct zoneId s"
  let ?ps = "rp_Missing ?plan" let ?rem = "fold (\<lambda>i reg. snd (Agents_Remove i reg))"
  let ?reg = "?rem (rp_ExcludedButBound ?plan) (?rem (rp_Conflicted ?plan) (?rem (rp_Orphaned ?plan) (am_registry s)))"
  have ps: "?ps = map (pending_agent ct) (filter (\<lambda>i. classify_spawn (db_Bindings d (am_db s)) ct i = Missing) (ZoneCensus cfg w zoneId))"
    by (simp add: plan_of_def rp_Missing_plan)
  have law: "all_agents loaded_law ?reg" using assms(3) by (intro loaded.removes)
  have fresh: "fresh_keys (db_Bindings d (am_db s)) ?ps" unfolding plan_of_def by (rule Missing_fresh [OF assms(2)])
  have wf: "om_wf (am_registry s)" "om_wf (?rem (rp_Orphaned ?plan) (am_registry s))"
    "om_wf (?rem (rp_Conflicted ?plan) (?rem (rp_Orphaned ?plan) (am_registry s)))"
    using assms(3) all_agents_wf loaded.removes by blast+
  have new: "Agents_Find ?reg (pc_SpawnId p) = None" if "p \<in> set ?ps" for p
  proof (rule ccontr)
    assume "Agents_Find ?reg (pc_SpawnId p) \<noteq> None"
    then have "Agents_Find (am_registry s) (pc_SpawnId p) \<noteq> None" using wf by (auto simp: Find_removes split: if_splits)
    with assms(4) fresh that show False by (fastforce simp: fresh_keys_def)
  qed
  let ?p = "pending_agent ct i"
  have p: "?p \<in> set ?ps" and spawn: "pc_SpawnId ?p = si_SpawnId i" using assms(5,6) by (auto simp: ps pending_agent_def)
  have "find (\<lambda>q. pc_SpawnId q = si_SpawnId i \<and> si_SpawnId i \<noteq> 0) ?ps \<noteq> None"
    using p spawn assms(7) by (auto simp: find_None_iff)
  then obtain q where q: "find (\<lambda>q. pc_SpawnId q = si_SpawnId i \<and> si_SpawnId i \<noteq> 0) ?ps = Some q" by auto
  then have "q \<in> set ?ps" "pc_SpawnId q = si_SpawnId i" by (auto simp: find_Some_iff)
  moreover have "inj_on pc_SpawnId (set ?ps)" using fresh by (simp add: fresh_keys_def distinct_map)
  ultimately have "q = ?p" using p spawn by (metis inj_onD)
  with q have found: "Agents_Find (snd (AddCreated_loop ?ps 0 ?reg)) (si_SpawnId i) = Some (CreatedRecord ?p)"
    using AddCreated_all [OF law, of ?ps 0 "si_SpawnId i"] fresh new by (simp add: fresh_keys_def)
  have wf': "om_wf (snd (AddCreated_loop ?ps 0 ?reg))"
    using loaded.created [OF law, of ?ps 0] all_agents_wf
    by (simp add: loaded_law_def CreatedRecord_def AgentRecord_init_def)
  have "\<exists>fs ts. am_registry (snd (RunSpawnReconciliation cfg d w ct zoneId s)) =
      fold (\<lambda>(i, t). Agents_Update i (\<lambda>r. r\<lparr>ar_Type := t\<rparr>)) ts
        (fold (\<lambda>(i, f). Agents_Update i (\<lambda>r. r\<lparr>ar_WorldFaction := f\<rparr>)) fs (snd (AddCreated_loop ?ps 0 ?reg)))"
    using create_honest(1) [OF assms(1) fresh]
    unfolding RunSpawnReconciliation_def Let_def split_beta plan_of_def snd_conv AgentManager.select_convs
    by (intro exI) simp
  then obtain fs ts where out: "am_registry (snd (RunSpawnReconciliation cfg d w ct zoneId s)) =
      fold (\<lambda>(i, t). Agents_Update i (\<lambda>r. r\<lparr>ar_Type := t\<rparr>)) ts
        (fold (\<lambda>(i, f). Agents_Update i (\<lambda>r. r\<lparr>ar_WorldFaction := f\<rparr>)) fs (snd (AddCreated_loop ?ps 0 ?reg)))"
    by blast
  obtain r1 where r1: "Agents_Find (fold (\<lambda>(i, f). Agents_Update i (\<lambda>r. r\<lparr>ar_WorldFaction := f\<rparr>)) fs
        (snd (AddCreated_loop ?ps 0 ?reg))) (si_SpawnId i) = Some r1"
      "ar_MapId r1 = si_MapId i" "ar_ControlMode r1 = ObserveOnly"
    using Find_field_updates [OF wf' _ found, of "\<lambda>f r. r\<lparr>ar_WorldFaction := f\<rparr>" fs]
    by (auto simp: created_record pending_agent_def)
  have "om_wf (fold (\<lambda>(i, f). Agents_Update i (\<lambda>r. r\<lparr>ar_WorldFaction := f\<rparr>)) fs (snd (AddCreated_loop ?ps 0 ?reg)))"
    by (rule fold_keeps) (auto simp: wf_Update wf')
  from Find_field_updates [OF this _ r1(1), of "\<lambda>t r. r\<lparr>ar_Type := t\<rparr>" ts] r1 show ?thesis
    unfolding out by auto
qed

lemma activation_outcome:
  assumes "agents_ok (am_registry s)" and "length (BuildCreatureSpawnCensus w) < 2 ^ 32"
    and "s' = RunZoneControlActivation cfg d w ct zoneId s"
  shows "if list_all (activation_ready ct (am_registry s)) (ZoneCensus cfg w zoneId)
    then Agents_Find (am_registry s') j =
      (case Agents_Find (am_registry s) j of None \<Rightarrow> None
       | Some r \<Rightarrow> Some (if j \<in> set (List.map_filter (activation_candidate ct (am_registry s)) (ZoneCensus cfg w zoneId)) \<and>
             om_find (LoadAllControlModes d (am_db s')) j = Some AIWorldControlled
           then r\<lparr>ar_ControlMode := AIWorldControlled\<rparr> else r))
    else s' = s"
proof -
  let ?cs = "List.map_filter (activation_candidate ct (am_registry s)) (ZoneCensus cfg w zoneId)"
  let ?bad = "filter (\<lambda>i. InZoneScope cfg w zoneId i \<and> \<not> activation_ready ct (am_registry s) i) (BuildCreatureSpawnCensus w)"
  have "length ?bad < 2 ^ LENGTH(32)"
    using assms(2) le_less_trans [OF length_filter_le] by simp
  then have zero: "(of_nat (length ?bad) :: u32) = 0 \<longleftrightarrow> ?bad = []"
    using nat_dvd_not_less by (fastforce simp: word_of_nat_eq_0_iff)
  have ready: "?bad = [] \<longleftrightarrow> list_all (activation_ready ct (am_registry s)) (ZoneCensus cfg w zoneId)"
    by (auto simp: filter_empty_conv list_all_iff ZoneCensus_def)
  have scan: "Activation_scan cfg w zoneId ct (am_registry s) (BuildCreatureSpawnCensus w) [] 0 = (?cs, of_nat (length ?bad))"
    by (simp add: Activation_scan_exact ZoneCensus_def)
  show ?thesis
  proof (cases "list_all (activation_ready ct (am_registry s)) (ZoneCensus cfg w zoneId)")
    case True
    then have none: "(of_nat (length ?bad) :: u32) = 0" using zero ready by blast
    obtain ps db where promote: "PromoteControlModeBatch d ?cs (am_db s) = (ps, db)" by fastforce
    then have ps: "j \<in> set ps \<longleftrightarrow> j \<in> set ?cs \<and> om_find (LoadAllControlModes d db) j = Some AIWorldControlled"
      by (auto simp: PromoteControlModeBatch_def UpdateControlModeBatch_def Let_def split: if_splits)
    have s': "s' = \<lparr>am_registry = fold (\<lambda>i. Agents_Update i (\<lambda>r. r\<lparr>ar_ControlMode := AIWorldControlled\<rparr>)) ps (am_registry s), am_db = db\<rparr>"
      using none by (simp add: assms(3) RunZoneControlActivation_def scan promote)
    show ?thesis
      using True ps by (auto simp: s' Find_updates agents_ok_wf [OF assms(1)] split: option.split)
  next
    case False
    then have "(of_nat (length ?bad) :: u32) \<noteq> 0" using zero ready by blast
    then have "s' = s" unfolding assms(3) RunZoneControlActivation_def scan prod.case by simp
    with False show ?thesis by simp
  qed
qed

section \<open>A table of rows\<close>

text \<open>One database with the documented behaviour: the table is the list of its rows.\<close>

definition row_of :: "PendingCreatureAgent \<Rightarrow> AgentRow" where
  "row_of p = \<lparr>rw_Id = pc_SpawnId p, rw_Type = AgentType_byte (pc_Type p), rw_MapId = pc_MapId p, rw_SpawnId = pc_SpawnId p,
     rw_Home = None, rw_Work = None,
     rw_Economy = \<lparr>ec_Money = 0, ec_Food = 0, ec_Resource = 0, ec_LastRewardedWorkWindowId = 0, ec_Version = 0\<rparr>,
     rw_ControlMode = 0, rw_WorldFaction = pc_WorldFaction p\<rparr>"

definition update_rows :: "('v \<Rightarrow> AgentRow \<Rightarrow> AgentRow) \<Rightarrow> ('v \<times> u64 list) list \<Rightarrow> AgentRow list \<Rightarrow> AgentRow list" where
  "update_rows put stmts rows = fold (\<lambda>(v, ids). map (\<lambda>row. if rw_Id row \<in> set ids then put v row else row)) stmts rows"

definition row_binding :: "AgentRow \<Rightarrow> AgentSpawnBinding" where
  "row_binding row = \<lparr>sbd_Id = rw_Id row, sbd_MapId = rw_MapId row, sbd_SpawnId = rw_SpawnId row\<rparr>"

definition table_database :: "AgentRow list AgentDatabase" where
  "table_database = \<lparr>db_Agents = (\<lambda>rows. rows), db_Bindings = map row_binding,
     db_ControlModes = map (\<lambda>row. (rw_Id row, rw_ControlMode row)),
     db_WorldFactions = map (\<lambda>row. (rw_Id row, rw_WorldFaction row)),
     db_AgentTypes = map (\<lambda>row. (rw_Id row, rw_Type row)),
     db_InsertAgents = (\<lambda>ps rows. if fresh_keys (map row_binding rows) ps then rows @ map row_of ps else rows),
     db_UpdateControlModes = update_rows (\<lambda>v row. row\<lparr>rw_ControlMode := v\<rparr>),
     db_UpdateWorldFactions = update_rows (\<lambda>v row. row\<lparr>rw_WorldFaction := v\<rparr>),
     db_UpdateAgentTypes = update_rows (\<lambda>v row. row\<lparr>rw_Type := v\<rparr>)\<rparr>"

lemma table_inserts: "inserts_fresh table_database"
proof -
  have "row_binding \<circ> row_of = binding_of" by (auto simp: row_binding_def row_of_def binding_of_def)
  then show ?thesis by (simp add: inserts_fresh_def table_database_def image_comp)
qed

lemma update_rows_binding:
  assumes "\<And>v row. row_binding (put v row) = row_binding row"
  shows "map row_binding (update_rows put stmts rows) = map row_binding rows"
proof (induction stmts arbitrary: rows)
  case (Cons stmt stmts)
  then show ?case by (cases stmt) (auto simp: update_rows_def assms)
qed (simp add: update_rows_def)

lemma table_updates: "updates_keep_bindings table_database"
  by (simp add: updates_keep_bindings_def table_database_def update_rows_binding row_binding_def)

lemma find_modes:
  "om_find (LoadAllControlModes table_database rows) i =
     map_option (\<lambda>row. ToKnownControlMode (rw_ControlMode row)) (find (\<lambda>row. rw_Id row = i) rows)"
proof -
  have "om_wf m \<Longrightarrow> om_find (fold (\<lambda>(i, raw). om_emplace i (ToKnownControlMode raw))
      (map (\<lambda>row. (rw_Id row, rw_ControlMode row)) rows) m) i =
      (case om_find m i of Some v \<Rightarrow> Some v
       | None \<Rightarrow> map_option (\<lambda>row. ToKnownControlMode (rw_ControlMode row)) (find (\<lambda>row. rw_Id row = i) rows))" for m
    by (induction rows arbitrary: m) (auto simp: om_find_emplace split: option.splits)
  then show ?thesis by (simp add: LoadAllControlModes_def table_database_def)
qed

lemma update_modes_row:
  "find (\<lambda>row. rw_Id row = i) (update_rows (\<lambda>v row. row\<lparr>rw_ControlMode := v\<rparr>) (map (\<lambda>c. (v, c)) chunks) rows) =
     map_option (\<lambda>row. if i \<in> set (concat chunks) then row\<lparr>rw_ControlMode := v\<rparr> else row) (find (\<lambda>row. rw_Id row = i) rows)"
proof (induction chunks arbitrary: rows)
  case (Cons c chunks)
  have "find (\<lambda>row. rw_Id row = i) (map (\<lambda>row. if rw_Id row \<in> set c then row\<lparr>rw_ControlMode := v\<rparr> else row) rows) =
      map_option (\<lambda>row. if i \<in> set c then row\<lparr>rw_ControlMode := v\<rparr> else row) (find (\<lambda>row. rw_Id row = i) rows)"
    by (induction rows) auto
  with Cons [of "map (\<lambda>row. if rw_Id row \<in> set c then row\<lparr>rw_ControlMode := v\<rparr> else row) rows"] show ?case
    by (cases "find (\<lambda>row. rw_Id row = i) rows") (auto simp: update_rows_def)
qed (simp add: update_rows_def option.map_ident)

lemma table_control_modes: "sets_control_modes table_database"
proof -
  have "\<exists>row. find (\<lambda>row. rw_Id row = i) rows = Some row" if "i \<in> sbd_Id ` set (map row_binding rows)" for i rows
    using that by (induction rows) (auto simp: row_binding_def)
  then show ?thesis
    unfolding sets_control_modes_def find_modes
    by (fastforce simp: table_database_def update_modes_row)
qed

section \<open>What the start-up guarantees\<close>

lemma activation_confirms:
  assumes "agents_ok (am_registry s)" and "length (BuildCreatureSpawnCensus w) < 2 ^ 32" and "sets_control_modes d"
    and "list_all (activation_ready ct (am_registry s)) (ZoneCensus cfg w zoneId)"
    and "j \<in> set (List.map_filter (activation_candidate ct (am_registry s)) (ZoneCensus cfg w zoneId))"
    and "j \<in> sbd_Id ` set (db_Bindings d (am_db s))"
  shows "om_find (LoadAllControlModes d (am_db (RunZoneControlActivation cfg d w ct zoneId s))) j = Some AIWorldControlled"
proof -
  let ?cs = "List.map_filter (activation_candidate ct (am_registry s)) (ZoneCensus cfg w zoneId)"
  have "filter (\<lambda>i. InZoneScope cfg w zoneId i \<and> \<not> activation_ready ct (am_registry s) i) (BuildCreatureSpawnCensus w) = []"
    using assms(4) by (auto simp: filter_empty_conv list_all_iff ZoneCensus_def)
  then have scan: "Activation_scan cfg w zoneId ct (am_registry s) (BuildCreatureSpawnCensus w) [] 0 = (?cs, 0)"
    by (simp add: Activation_scan_exact ZoneCensus_def)
  have "j \<in> set (concat (chunks_from 0 ?cs))" using assms(5) by (simp add: chunks_concat)
  moreover have "?cs \<noteq> []" using assms(5) by auto
  ultimately show ?thesis
    using assms(3,6)
    by (simp add: sets_control_modes_def RunZoneControlActivation_def scan PromoteControlModeBatch_def
        UpdateControlModeBatch_def Let_def ToKnownControlMode_def)
qed

lemma fresh_startup:
  assumes "db_Bindings d db = []" and "db_Agents d db = []"
  shows "ApplyParticipationControlPolicy d ct \<lparr>am_registry = RestrictMembership cfg (snd (LoadAgents d db [])), am_db = db\<rparr> =
    \<lparr>am_registry = [], am_db = db\<rparr>"
  using assms
  by (simp add: LoadAgents_def RestrictMembership_def GetAgents_def ApplyParticipationControlPolicy_def ExcludedIds_def
      DemotionCandidates_def DemoteControlModeBatch_def UpdateControlModeBatch_def Let_def)


text \<open>
  C12: the activation of a zone is all or nothing. If one spawn of the zone is not catalogued, or is to be
  controlled and has no agent on its map, nothing changes, in memory or in the database; otherwise
  exactly the observed agents of the spawns to be controlled whose new mode the database confirms on
  read-back are promoted, and no other record changes.
\<close>

theorem zone_activation_all_or_nothing:
  assumes "agents_ok (am_registry s)" and "length (BuildCreatureSpawnCensus w) < 2 ^ 32"
    and "s' = RunZoneControlActivation cfg d w ct zoneId s"
  shows "if list_all (activation_ready ct (am_registry s)) (ZoneCensus cfg w zoneId)
    then Agents_Find (am_registry s') j =
      (case Agents_Find (am_registry s) j of None \<Rightarrow> None
       | Some r \<Rightarrow> Some (if j \<in> set (List.map_filter (activation_candidate ct (am_registry s)) (ZoneCensus cfg w zoneId)) \<and>
             om_find (LoadAllControlModes d (am_db s')) j = Some AIWorldControlled
           then r\<lparr>ar_ControlMode := AIWorldControlled\<rparr> else r))
    else s' = s"
  by (rule activation_outcome [OF assms])

text \<open>
  on a database that executes its statements, one reconciliation is enough: every missing spawn
  of the zone has then an observing agent on its map, and a second run has nothing to create.
\<close>

theorem reconciliation_converges:
  assumes "inserts_fresh d" and "updates_keep_bindings d" and "distinct (map si_SpawnId (ZoneCensus cfg w zoneId))"
    and "all_agents loaded_law (am_registry s)"
    and "\<forall>i r. Agents_Find (am_registry s) i = Some r \<longrightarrow> i \<in> sbd_Id ` set (db_Bindings d (am_db s))"
    and "s' = snd (RunSpawnReconciliation cfg d w ct zoneId s)"
  shows "rp_Missing (BuildReconciliationPlan (ZoneCensus cfg w zoneId) (BuildAllKnownCreatureSpawnIds w)
        (db_Bindings d (am_db s')) ct) = [] \<and>
    (\<forall>i \<in> set (ZoneCensus cfg w zoneId). classify_spawn (db_Bindings d (am_db s)) ct i = Missing \<longrightarrow> si_SpawnId i \<noteq> 0 \<longrightarrow>
      (\<exists>r. Agents_Find (am_registry s') (si_SpawnId i) = Some r \<and> ar_MapId r = si_MapId i \<and> ar_ControlMode r = ObserveOnly))"
  using reconciled_nothing_missing [OF assms(1-3), of ct s] reconciled_registers [OF assms(1,3-5)]
  by (simp add: assms(6) plan_of_def)

text \<open>
  C11: a new world comes up completely: starting from an empty table, on a database that executes its
  statements, with reconciliation and activation enabled for a zone whose spawns are all catalogued,
  every spawn of the zone that takes part ends as an agent on its map controlled by the AI world.
\<close>

theorem fresh_zone_fully_controlled:
  assumes honest: "inserts_fresh d" "updates_keep_bindings d" "sets_control_modes d"
    and empty: "db_Bindings d db = []" "db_Agents d db = []"
    and enabled: "sc_EnableSpawnReconciliation cfg" "sc_EnableZoneControlActivation cfg"
    and zone: "sc_SpawnReconciliationZoneId cfg = z" "sc_ControlZoneId cfg = z" "0 < z"
    and census: "distinct (map si_SpawnId (ZoneCensus cfg w (of_int z)))" "length (BuildCreatureSpawnCensus w) < 2 ^ 32"
    and catalogued: "list_all (\<lambda>i. si_SpawnId i \<noteq> 0 \<and> om_find (ct_Participation ct) (si_SpawnId i) \<noteq> None) (ZoneCensus cfg w (of_int z))"
    and i: "i \<in> set (ZoneCensus cfg w (of_int z))"
      "om_find (ct_Participation ct) (si_SpawnId i) \<in> {Some FullAgent, Some LightweightBackground}"
  shows "\<exists>r. Agents_Find (am_registry (InitializeAgents cfg d w ct db)) (si_SpawnId i) = Some r \<and>
    ar_MapId r = si_MapId i \<and> ar_ControlMode r = AIWorldControlled"
proof -
  let ?s0 = "\<lparr>am_registry = [], am_db = db\<rparr>" let ?zone = "ZoneCensus cfg w (of_int z)"
  let ?s1 = "snd (RunSpawnReconciliation cfg d w ct (of_int z) ?s0)"
  let ?s2 = "RunZoneControlActivation cfg d w ct (of_int z) ?s1"
  let ?cs = "List.map_filter (activation_candidate ct (am_registry ?s1)) ?zone"
  have start: "InitializeAgents cfg d w ct db = ?s2"
    using fresh_startup [OF empty, of ct cfg] enabled zone by (simp add: InitializeAgents_def Let_def split_beta)
  have law: "all_agents loaded_law (am_registry ?s1)"
    by (rule loaded.reconciles) (simp_all add: all_agents_empty loaded_law_def CreatedRecord_def AgentRecord_init_def)
  then have ok: "agents_ok (am_registry ?s1)" by (simp add: all_agents_def)
  have missing: "classify_spawn (db_Bindings d db) ct k = Missing"
    if "om_find (ct_Participation ct) (si_SpawnId k) \<notin> {None, Some Excluded}" for k
    using that by (auto simp: classify_Missing empty)
  have registered: "\<exists>r. Agents_Find (am_registry ?s1) (si_SpawnId k) = Some r \<and> ar_MapId r = si_MapId k \<and> ar_ControlMode r = ObserveOnly"
    if "k \<in> set ?zone" and "om_find (ct_Participation ct) (si_SpawnId k) \<notin> {None, Some Excluded}" for k
    using that catalogued missing [OF that(2)]
    by (intro reconciled_registers [OF honest(1) census(1)])
      (auto simp: all_agents_empty Agents_Find_def list_all_iff)
  have ready: "list_all (activation_ready ct (am_registry ?s1)) ?zone"
    unfolding list_all_iff activation_ready_def
  proof
    fix k assume k: "k \<in> set ?zone"
    with catalogued obtain m where m: "om_find (ct_Participation ct) (si_SpawnId k) = Some m" by (auto simp: list_all_iff)
    with registered [OF k] show "case om_find (ct_Participation ct) (si_SpawnId k) of None \<Rightarrow> False
      | Some m \<Rightarrow> m = Excluded \<or> m = VanillaOnly \<or>
          (case Agents_Find (am_registry ?s1) (si_SpawnId k) of None \<Rightarrow> False | Some r \<Rightarrow> ar_MapId r = si_MapId k)"
      by (cases "m = Excluded") auto
  qed
  from i registered obtain r where r: "Agents_Find (am_registry ?s1) (si_SpawnId i) = Some r"
    "ar_MapId r = si_MapId i" "ar_ControlMode r = ObserveOnly" by force
  then have "activation_candidate ct (am_registry ?s1) i = Some (si_SpawnId i)"
    using i(2) all_agents_key(1) [OF law r(1)] by (simp add: activation_candidate_def)
  then have cand: "si_SpawnId i \<in> set ?cs" using i(1) by (auto simp: set_map_filter)
  have "binding_of (pending_agent ct i) \<in> set (db_Bindings d (am_db ?s1))"
    unfolding reconciled_bindings [OF honest(1,2) census(1)] using i missing [of i]
    by (auto simp: plan_of_def rp_Missing_plan)
  then have "si_SpawnId i \<in> sbd_Id ` set (db_Bindings d (am_db ?s1))"
    by (intro image_eqI [of _ _ "binding_of (pending_agent ct i)"]) (simp_all add: binding_of_def pending_agent_def)
  from activation_confirms [OF ok census(2) honest(3) ready cand this] cand
    activation_outcome [OF ok census(2) refl, where ct = ct and cfg = cfg and zoneId = "of_int z" and d = d and j = "si_SpawnId i"] ready r
  show ?thesis by (simp add: start)
qed

section \<open>A small world\<close>

definition example_config :: StartupConfig where
  "example_config = \<lparr>sc_RestrictAgentsToSimulationScope = False, sc_SimulationScope = DefaultScope,
     sc_EnableSpawnReconciliation = True, sc_SpawnReconciliationZoneId = 12,
     sc_EnableZoneControlActivation = True, sc_ControlZoneId = 12\<rparr>"

definition example_spawn :: "u64 \<Rightarrow> u32 \<Rightarrow> CreatureData" where
  "example_spawn i entry = \<lparr>cd_MapId = 0, cd_SpawnId = i, cd_Id = entry, cd_NpcFlag = 0, cd_X = Fin 0, cd_Y = Fin 0, cd_Z = Fin 0\<rparr>"

definition example_world :: SpawnWorld where
  "example_world = \<lparr>sw_AllCreatureData = [(100, example_spawn 100 6), (101, example_spawn 101 69), (102, example_spawn 102 6)],
     sw_MapInstanceable = (\<lambda>m. if m = 0 then Some False else None), sw_TemplateNpcFlag = (\<lambda>e. Some 0),
     sw_GuidsByZone = (\<lambda>z. if z = 12 then [100, 101] else [102])\<rparr>"

definition example_catalogs :: Catalogs where
  "example_catalogs = LoadCatalogs [(69, 6)] [(69, 6)] [(100, 0), (101, 2), (102, 3)]"

definition example_identity :: "u64 \<Rightarrow> u32 \<Rightarrow> CreatureSpawnIdentity" where
  "example_identity i entry = \<lparr>si_MapId = 0, si_SpawnId = i, si_Entry = entry, si_NpcFlags = 0\<rparr>"

lemma example_census:
  "BuildCreatureSpawnCensus example_world = [example_identity 100 6, example_identity 101 69, example_identity 102 6]"
  "ZoneCensus example_config example_world 12 = [example_identity 100 6, example_identity 101 69]"
  by code_simp+

lemma example_config_simps:
  "sc_EnableSpawnReconciliation example_config" "sc_EnableZoneControlActivation example_config"
  "sc_SpawnReconciliationZoneId example_config = 12" "sc_ControlZoneId example_config = 12"
  by (simp_all add: example_config_def)

lemma example_participation:
  "om_find (ct_Participation example_catalogs) 100 = Some FullAgent"
  "om_find (ct_Participation example_catalogs) 101 = Some VanillaOnly"
  by code_simp+

text \<open>The start-up of this world on an empty table, and on a table with a stale row.\<close>

definition example_rows :: "AgentRow list" where
  "example_rows = [(row_of (pending_agent example_catalogs (example_identity 101 69)))\<lparr>rw_ControlMode := 1\<rparr>,
     row_of (pending_agent example_catalogs (example_identity 102 6))]"

theorem fresh_zone_fully_controlled_witness:
  "\<exists>r. Agents_Find (am_registry (InitializeAgents example_config table_database example_world example_catalogs [])) 100 = Some r \<and>
    ar_MapId r = 0 \<and> ar_ControlMode r = AIWorldControlled"
proof -
  have "\<exists>r. Agents_Find (am_registry (InitializeAgents example_config table_database example_world example_catalogs []))
      (si_SpawnId (example_identity 100 6)) = Some r \<and>
    ar_MapId r = si_MapId (example_identity 100 6) \<and> ar_ControlMode r = AIWorldControlled"
    by (rule fresh_zone_fully_controlled [OF table_inserts table_updates table_control_modes, where z = 12])
      (simp_all add: table_database_def example_census example_participation example_config_simps
        example_identity_def)
  then show ?thesis by (simp add: example_identity_def)
qed

definition quiet_config :: StartupConfig where
  "quiet_config = example_config\<lparr>sc_EnableSpawnReconciliation := False, sc_EnableZoneControlActivation := False\<rparr>"


definition example_state :: "AgentRow list AgentManager" where
  "example_state = snd (RunSpawnReconciliation example_config table_database example_world example_catalogs 12
     \<lparr>am_registry = [], am_db = []\<rparr>)"

theorem zone_activation_all_or_nothing_witness:
  "Agents_Find (am_registry (RunZoneControlActivation example_config table_database example_world example_catalogs 12 example_state)) 100 =
    map_option (\<lambda>r. r\<lparr>ar_ControlMode := AIWorldControlled\<rparr>) (Agents_Find (am_registry example_state) 100)"
proof -
  have ok: "agents_ok (am_registry example_state)"
  proof -
    have "all_agents loaded_law (am_registry example_state)"
      unfolding example_state_def
      by (rule loaded.reconciles) (simp_all add: all_agents_empty loaded_law_def CreatedRecord_def AgentRecord_init_def)
    then show ?thesis by (simp add: all_agents_def)
  qed
  have eval: "list_all (activation_ready example_catalogs (am_registry example_state)) (ZoneCensus example_config example_world 12)"
    "100 \<in> set (List.map_filter (activation_candidate example_catalogs (am_registry example_state)) (ZoneCensus example_config example_world 12))"
    "om_find (LoadAllControlModes table_database (am_db (RunZoneControlActivation example_config table_database example_world
      example_catalogs 12 example_state))) 100 = Some AIWorldControlled"
    by code_simp+
  show ?thesis
    using zone_activation_all_or_nothing [OF ok _ refl, where w = example_world and cfg = example_config
        and d = table_database and ct = example_catalogs and zoneId = 12 and j = 100] eval
    by (simp add: example_census(1) split: option.splits)
qed

theorem reconciliation_converges_witness:
  "\<exists>r. Agents_Find (am_registry example_state) 101 = Some r \<and> ar_MapId r = 0 \<and> ar_ControlMode r = ObserveOnly"
proof -
  have "classify_spawn (db_Bindings table_database []) example_catalogs (example_identity 101 69) = Missing"
    by code_simp
  then show ?thesis
    using reconciliation_converges [OF table_inserts table_updates, where s = "\<lparr>am_registry = [], am_db = []\<rparr>"
        and s' = example_state and ct = example_catalogs and cfg = example_config and w = example_world and zoneId = 12]
    by (simp add: example_state_def [symmetric] example_census all_agents_empty Agents_Find_def example_identity_def)
qed

end
