(* ===== verification/Agent_Groups.thy ===== *)
theory Agent_Groups
  imports Std_Map
begin

text \<open>
  Groups of agents: the registry with its index from members to groups
  (\<open>Agent/AgentGroupRegistry\<close>), the asynchronous lifecycle operations
  (\<open>Agent/AgentGroupLifecycleSystem\<close>) and the group id allocation of
  \<open>AgentGroupPersistence::CreateGroupAsync\<close>. The database is the environment: it completes the
  transactions in flight in any order, each with success or failure. The agent registry is the
  parameter \<open>faction\<close>: the faction of every registered agent. Members of the hash set of an index
  bucket are kept in insertion order.
\<close>

type_synonym GroupId = u64

datatype AgentGroupKind = Loose | Stable

datatype CoalitionFormationProfileId = Profile_Invalid | WolfLoose | DefiasLoose

definition GetCoalitionProfileKind :: "CoalitionFormationProfileId \<Rightarrow> AgentGroupKind option" where
  "GetCoalitionProfileKind p = (case p of WolfLoose \<Rightarrow> Some Loose | DefiasLoose \<Rightarrow> Some Loose | _ \<Rightarrow> None)"

definition ElwynnWolves :: u32 where "ElwynnWolves = 6"
definition DefiasBrotherhood :: u32 where "DefiasBrotherhood = 2"

definition RequiredWorldFactionFor :: "CoalitionFormationProfileId \<Rightarrow> u32 option" where
  "RequiredWorldFactionFor p =
     (case p of WolfLoose \<Rightarrow> Some ElwynnWolves | DefiasLoose \<Rightarrow> Some DefiasBrotherhood | Profile_Invalid \<Rightarrow> None)"

record AgentGroupMembership =
  gm_Member :: u64
  gm_JoinedAtMs :: u64

record AgentGroupRecord =
  gr_Id :: GroupId
  gr_Kind :: AgentGroupKind
  gr_ProfileId :: CoalitionFormationProfileId
  gr_TerritoryMapId :: u32
  gr_TerritoryX :: flt
  gr_TerritoryY :: flt
  gr_TerritoryZ :: flt
  gr_Resources :: flt
  gr_Version :: u64
  gr_Members :: "AgentGroupMembership list"

section \<open>The registry\<close>

record AgentGroupRegistry =
  ag_groups :: "(u64, AgentGroupRecord) omap"
  ag_memberGroups :: "(u64, u64 list) omap"

definition group_registry_empty :: AgentGroupRegistry where
  "group_registry_empty = \<lparr>ag_groups = [], ag_memberGroups = []\<rparr>"

definition bucket :: "(u64, u64 list) omap \<Rightarrow> u64 \<Rightarrow> u64 list" where
  "bucket m k = (case om_find m k of None \<Rightarrow> [] | Some gs \<Rightarrow> gs)"

text \<open>\<open>_memberGroups[k].insert(g)\<close>, and the erase that drops an emptied bucket.\<close>

definition bucket_insert :: "u64 \<Rightarrow> u64 \<Rightarrow> (u64, u64 list) omap \<Rightarrow> (u64, u64 list) omap" where
  "bucket_insert k g m = om_put k (if g \<in> set (bucket m k) then bucket m k else bucket m k @ [g]) m"

definition bucket_erase :: "u64 \<Rightarrow> u64 \<Rightarrow> (u64, u64 list) omap \<Rightarrow> (u64, u64 list) omap" where
  "bucket_erase k g m =
     (case om_find m k of None \<Rightarrow> m
      | Some gs \<Rightarrow> let gs' = filter (\<lambda>x. x \<noteq> g) gs in if gs' = [] then om_del k m else om_put k gs' m)"

definition Groups_Find :: "GroupId \<Rightarrow> AgentGroupRegistry \<Rightarrow> AgentGroupRecord option" where
  "Groups_Find i r = om_find (ag_groups r) i"

definition Groups_Add :: "AgentGroupRecord \<Rightarrow> AgentGroupRegistry \<Rightarrow> bool \<times> AgentGroupRegistry" where
  "Groups_Add rec r =
     (if gr_Id rec = 0 then (False, r)
      else if Groups_Find (gr_Id rec) r \<noteq> None then (False, r)
      else (True, \<lparr>ag_groups = om_put (gr_Id rec) rec (ag_groups r),
              ag_memberGroups = fold (\<lambda>ms. bucket_insert (gm_Member ms) (gr_Id rec)) (gr_Members rec)
                (ag_memberGroups r)\<rparr>))"

definition Groups_Remove :: "GroupId \<Rightarrow> AgentGroupRegistry \<Rightarrow> bool \<times> AgentGroupRegistry" where
  "Groups_Remove i r =
     (case om_find (ag_groups r) i of
        None \<Rightarrow> (False, r)
      | Some rec \<Rightarrow> (True, \<lparr>ag_groups = om_del i (ag_groups r),
          ag_memberGroups = fold (\<lambda>ms. bucket_erase (gm_Member ms) i) (gr_Members rec) (ag_memberGroups r)\<rparr>))"

definition Groups_AddMember :: "GroupId \<Rightarrow> AgentGroupMembership \<Rightarrow> AgentGroupRegistry \<Rightarrow>
    bool \<times> AgentGroupRegistry" where
  "Groups_AddMember i ms r =
     (case Groups_Find i r of
        None \<Rightarrow> (False, r)
      | Some grp \<Rightarrow>
          if list_ex (\<lambda>x. gm_Member x = gm_Member ms) (gr_Members grp) then (False, r)
          else (True, \<lparr>ag_groups = om_put i (grp\<lparr>gr_Members := gr_Members grp @ [ms]\<rparr>) (ag_groups r),
                 ag_memberGroups = bucket_insert (gm_Member ms) i (ag_memberGroups r)\<rparr>))"

text \<open>\<open>std::find_if\<close> and \<open>erase\<close>: the first membership of the agent goes.\<close>

fun erase_member :: "u64 \<Rightarrow> AgentGroupMembership list \<Rightarrow> AgentGroupMembership list" where
  "erase_member a [] = []"
| "erase_member a (x # xs) = (if gm_Member x = a then xs else x # erase_member a xs)"

definition Groups_RemoveMember :: "GroupId \<Rightarrow> u64 \<Rightarrow> AgentGroupRegistry \<Rightarrow> bool \<times> AgentGroupRegistry" where
  "Groups_RemoveMember i a r =
     (case Groups_Find i r of
        None \<Rightarrow> (False, r)
      | Some grp \<Rightarrow>
          if \<not> list_ex (\<lambda>x. gm_Member x = a) (gr_Members grp) then (False, r)
          else (True, \<lparr>ag_groups = om_put i (grp\<lparr>gr_Members := erase_member a (gr_Members grp)\<rparr>) (ag_groups r),
                 ag_memberGroups = bucket_erase a i (ag_memberGroups r)\<rparr>))"

definition Groups_GetGroupsOfMember :: "u64 \<Rightarrow> AgentGroupRegistry \<Rightarrow> GroupId list" where
  "Groups_GetGroupsOfMember a r = (case om_find (ag_memberGroups r) a of None \<Rightarrow> [] | Some gs \<Rightarrow> gs)"

definition Groups_GetGroups :: "AgentGroupRegistry \<Rightarrow> GroupId list" where
  "Groups_GetGroups r = map (gr_Id \<circ> snd) (ag_groups r)"

definition Groups_GetHighestGroupId :: "AgentGroupRegistry \<Rightarrow> GroupId" where
  "Groups_GetHighestGroupId r = (if ag_groups r = [] then 0 else gr_Id (snd (last (ag_groups r))))"

fun GroupsAfterUntil_loop :: "(u64 \<times> AgentGroupRecord) list \<Rightarrow> u64 \<Rightarrow> u32 \<Rightarrow> u64 list \<Rightarrow> u64 list" where
  "GroupsAfterUntil_loop [] limit maxCount ids = ids"
| "GroupsAfterUntil_loop ((k, v) # es) limit maxCount ids =
     (if k \<le> limit \<and> (of_nat (length ids) :: u32) < maxCount
      then GroupsAfterUntil_loop es limit maxCount (ids @ [gr_Id v]) else ids)"

definition Groups_GetGroupsAfterUntil :: "GroupId \<Rightarrow> GroupId \<Rightarrow> u32 \<Rightarrow> AgentGroupRegistry \<Rightarrow> GroupId list" where
  "Groups_GetGroupsAfterUntil after limit maxCount r =
     (if maxCount = 0 \<or> after \<ge> limit then []
      else GroupsAfterUntil_loop (om_upper_bound after (ag_groups r)) limit maxCount [])"

definition Groups_IsMemberOfKind :: "u64 \<Rightarrow> AgentGroupKind \<Rightarrow> AgentGroupRegistry \<Rightarrow> bool" where
  "Groups_IsMemberOfKind a kind r =
     (case om_find (ag_memberGroups r) a of
        None \<Rightarrow> False
      | Some gs \<Rightarrow> list_ex (\<lambda>g. case om_find (ag_groups r) g of None \<Rightarrow> False | Some grp \<Rightarrow> gr_Kind grp = kind) gs)"

section \<open>Lifecycle operations in flight\<close>

text \<open>What the completion callbacks capture.\<close>

datatype GroupOp =
    OpCreate AgentGroupRecord
  | OpJoin GroupId u64 u64
  | OpLeave GroupId u64
  | OpDissolve GroupId

record GroupWorld =
  gw_registry :: AgentGroupRegistry
  gw_pending :: "GroupId list"
  gw_inflight :: "GroupOp list"
  gw_allocatorValid :: bool
  gw_nextGroupId :: u64

definition submit :: "GroupOp \<Rightarrow> GroupId \<Rightarrow> GroupWorld \<Rightarrow> bool \<times> GroupWorld" where
  "submit op g w = (True, w\<lparr>gw_pending := (if g \<in> set (gw_pending w) then gw_pending w else gw_pending w @ [g]),
     gw_inflight := gw_inflight w @ [op]\<rparr>)"

text \<open>The requests return whether a transaction was submitted; if not, \<open>onComplete\<close> got a failure.\<close>

definition RequestCreateGroup :: "AgentGroupKind \<Rightarrow> u32 \<Rightarrow> flt \<Rightarrow> flt \<Rightarrow> flt \<Rightarrow> flt \<Rightarrow>
    CoalitionFormationProfileId \<Rightarrow> GroupWorld \<Rightarrow> bool \<times> GroupWorld" where
  "RequestCreateGroup kind territoryMapId x y z resources profileId w =
     (if profileId \<noteq> Profile_Invalid \<and> GetCoalitionProfileKind profileId \<noteq> Some kind then (False, w)
      else if \<not> gw_allocatorValid w then (False, w)
      else if gw_nextGroupId w = u64_max then (False, w)
      else (True, w\<lparr>gw_nextGroupId := gw_nextGroupId w + 1,
        gw_inflight := gw_inflight w @ [OpCreate \<lparr>gr_Id = gw_nextGroupId w, gr_Kind = kind, gr_ProfileId = profileId,
          gr_TerritoryMapId = territoryMapId, gr_TerritoryX = x, gr_TerritoryY = y, gr_TerritoryZ = z,
          gr_Resources = resources, gr_Version = 0, gr_Members = []\<rparr>]\<rparr>))"

text \<open>The loop over the members stops at the first one the agent registry knows.\<close>

fun JoinConflict :: "(u64 \<Rightarrow> u32 option) \<Rightarrow> u32 \<Rightarrow> AgentGroupMembership list \<Rightarrow> bool" where
  "JoinConflict faction f [] = False"
| "JoinConflict faction f (ms # rest) =
     (case faction (gm_Member ms) of None \<Rightarrow> JoinConflict faction f rest | Some f' \<Rightarrow> f' \<noteq> f)"

definition RequestJoinGroup :: "(u64 \<Rightarrow> u32 option) \<Rightarrow> GroupId \<Rightarrow> u64 \<Rightarrow> u64 \<Rightarrow> GroupWorld \<Rightarrow> bool \<times> GroupWorld" where
  "RequestJoinGroup faction g a joinedAtMs w =
     (case Groups_Find g (gw_registry w) of
        None \<Rightarrow> (False, w)
      | Some grp \<Rightarrow>
          if g \<in> set (gw_pending w) then (False, w)
          else (case faction a of
            None \<Rightarrow> (False, w)
          | Some f \<Rightarrow>
              if list_ex (\<lambda>ms. gm_Member ms = a) (gr_Members grp) then (False, w)
              else if gr_Members grp = [] then
                (case RequiredWorldFactionFor (gr_ProfileId grp) of
                   None \<Rightarrow> submit (OpJoin g a joinedAtMs) g w
                 | Some req \<Rightarrow> if f \<noteq> req then (False, w) else submit (OpJoin g a joinedAtMs) g w)
              else if JoinConflict faction f (gr_Members grp) then (False, w)
              else submit (OpJoin g a joinedAtMs) g w))"

definition RequestLeaveGroup :: "GroupId \<Rightarrow> u64 \<Rightarrow> GroupWorld \<Rightarrow> bool \<times> GroupWorld" where
  "RequestLeaveGroup g a w =
     (case Groups_Find g (gw_registry w) of
        None \<Rightarrow> (False, w)
      | Some grp \<Rightarrow>
          if g \<in> set (gw_pending w) then (False, w)
          else if \<not> list_ex (\<lambda>ms. gm_Member ms = a) (gr_Members grp) then (False, w)
          else submit (OpLeave g a) g w)"

definition RequestDissolveGroup :: "GroupId \<Rightarrow> GroupWorld \<Rightarrow> bool \<times> GroupWorld" where
  "RequestDissolveGroup g w =
     (case Groups_Find g (gw_registry w) of
        None \<Rightarrow> (False, w)
      | Some grp \<Rightarrow> if g \<in> set (gw_pending w) then (False, w) else submit (OpDissolve g) g w)"

definition HasPendingOperation :: "GroupId \<Rightarrow> GroupWorld \<Rightarrow> bool" where
  "HasPendingOperation g w = (g \<in> set (gw_pending w))"

definition unpend :: "GroupId \<Rightarrow> GroupWorld \<Rightarrow> GroupWorld" where
  "unpend g w = w\<lparr>gw_pending := filter (\<lambda>x. x \<noteq> g) (gw_pending w)\<rparr>"

text \<open>The completion callbacks; the result is what \<open>onComplete\<close> is told.\<close>

fun CompleteOp :: "bool \<Rightarrow> GroupOp \<Rightarrow> GroupWorld \<Rightarrow> bool \<times> GroupWorld" where
  "CompleteOp success (OpCreate rec) w =
     (if \<not> success then (False, w)
      else let (added, r) = Groups_Add rec (gw_registry w) in
      if \<not> added then (False, w\<lparr>gw_registry := r\<rparr>) else (True, w\<lparr>gw_registry := r\<rparr>))"
| "CompleteOp success (OpJoin g a joinedAtMs) w =
     (let w1 = unpend g w in
      if \<not> success then (False, w1)
      else let (added, r) = Groups_AddMember g \<lparr>gm_Member = a, gm_JoinedAtMs = joinedAtMs\<rparr> (gw_registry w1) in
      if \<not> added then (False, w1\<lparr>gw_registry := r\<rparr>) else (True, w1\<lparr>gw_registry := r\<rparr>))"
| "CompleteOp success (OpLeave g a) w =
     (let w1 = unpend g w in
      if \<not> success then (False, w1)
      else (True, w1\<lparr>gw_registry := snd (Groups_RemoveMember g a (gw_registry w1))\<rparr>))"
| "CompleteOp success (OpDissolve g) w =
     (let w1 = unpend g w in
      if \<not> success then (False, w1)
      else (True, w1\<lparr>gw_registry := snd (Groups_Remove g (gw_registry w1))\<rparr>))"

section \<open>Interleavings\<close>

text \<open>
  One step of the world: a request, or the completion of any transaction in flight.
\<close>

inductive group_step :: "(u64 \<Rightarrow> u32 option) \<Rightarrow> GroupWorld \<Rightarrow> GroupWorld \<Rightarrow> bool" for faction where
  create: "group_step faction w (snd (RequestCreateGroup kind m x y z res p w))"
| join: "group_step faction w (snd (RequestJoinGroup faction g a t w))"
| leave: "group_step faction w (snd (RequestLeaveGroup g a w))"
| dissolve: "group_step faction w (snd (RequestDissolveGroup g w))"
| complete: "gw_inflight w = ops1 @ op # ops2 \<Longrightarrow>
    group_step faction w (snd (CompleteOp success op (w\<lparr>gw_inflight := ops1 @ ops2\<rparr>)))"

text \<open>
  At startup the sequence row of the database is trusted only when it lies above every existing
  group id; the runs below start without groups.
\<close>

definition LoadGroupIdSequence :: "u64 \<Rightarrow> u64 \<Rightarrow> GroupWorld \<Rightarrow> GroupWorld" where
  "LoadGroupIdSequence nextGroupId maxExistingGroupId w =
     (if nextGroupId = 0 \<or> nextGroupId \<le> maxExistingGroupId then w
      else w\<lparr>gw_nextGroupId := nextGroupId, gw_allocatorValid := True\<rparr>)"

definition group_init :: "u64 \<Rightarrow> GroupWorld" where
  "group_init nextId = LoadGroupIdSequence nextId 0 \<lparr>gw_registry = group_registry_empty, gw_pending = [],
     gw_inflight = [], gw_allocatorValid = False, gw_nextGroupId = 1\<rparr>"

section \<open>The index of members\<close>

definition members :: "AgentGroupRecord \<Rightarrow> u64 set" where
  "members grp = gm_Member ` set (gr_Members grp)"

lemma list_ex_member [simp]: "list_ex (\<lambda>ms. gm_Member ms = a) (gr_Members grp) \<longleftrightarrow> a \<in> members grp"
  by (auto simp: list_ex_iff members_def)

lemma members_update [simp]:
  "members (grp\<lparr>gr_Members := gr_Members grp @ [ms]\<rparr>) = insert (gm_Member ms) (members grp)"
  by (simp add: members_def)

lemma erase_member_set:
  "distinct (map gm_Member xs) \<Longrightarrow> gm_Member ` set (erase_member a xs) = gm_Member ` set xs - {a} \<and>
    set (erase_member a xs) \<subseteq> set xs \<and> distinct (map gm_Member (erase_member a xs))"
  by (induction xs) (auto simp: image_iff)

text \<open>A bucket is never stored empty, and lists a group once.\<close>

definition buckets_ok :: "(u64, u64 list) omap \<Rightarrow> bool" where
  "buckets_ok m = (om_wf m \<and> (\<forall>k gs. om_find m k = Some gs \<longrightarrow> gs \<noteq> [] \<and> distinct gs))"

lemma bucket_insert_ok:
  assumes "buckets_ok m"
  shows "buckets_ok (bucket_insert k g m)" and "set (bucket (bucket_insert k g m) a) = set (bucket m a) \<union> (if a = k then {g} else {})"
proof -
  have wf: "om_wf m" and gs: "\<And>k gs. om_find m k = Some gs \<Longrightarrow> gs \<noteq> [] \<and> distinct gs"
    using assms by (auto simp: buckets_ok_def)
  show "buckets_ok (bucket_insert k g m)"
    using wf gs by (auto simp: buckets_ok_def bucket_insert_def bucket_def om_wf_put om_find_put split: if_splits option.splits)
  show "set (bucket (bucket_insert k g m) a) = set (bucket m a) \<union> (if a = k then {g} else {})"
    using wf by (auto simp: bucket_insert_def bucket_def om_find_put split: option.splits)
qed

lemma bucket_erase_ok:
  assumes "buckets_ok m"
  shows "buckets_ok (bucket_erase k g m)" and "set (bucket (bucket_erase k g m) a) = set (bucket m a) - (if a = k then {g} else {})"
proof -
  have wf: "om_wf m" and gs: "\<And>k gs. om_find m k = Some gs \<Longrightarrow> gs \<noteq> [] \<and> distinct gs"
    using assms by (auto simp: buckets_ok_def)
  show "buckets_ok (bucket_erase k g m)"
    using wf gs
    by (auto simp: buckets_ok_def bucket_erase_def Let_def om_wf_put om_wf_del om_find_put om_find_del split: if_splits option.splits)
  show "set (bucket (bucket_erase k g m) a) = set (bucket m a) - (if a = k then {g} else {})"
    using wf by (auto simp: bucket_erase_def bucket_def Let_def om_find_put om_find_del filter_empty_conv split: option.splits)
qed

lemma fold_bucket_insert:
  "buckets_ok m \<Longrightarrow> buckets_ok (fold (\<lambda>ms. bucket_insert (gm_Member ms) g) xs m) \<and>
    set (bucket (fold (\<lambda>ms. bucket_insert (gm_Member ms) g) xs m) a) =
      set (bucket m a) \<union> (if a \<in> gm_Member ` set xs then {g} else {})"
  by (induction xs arbitrary: m) (auto simp: bucket_insert_ok)

lemma fold_bucket_erase:
  "buckets_ok m \<Longrightarrow> buckets_ok (fold (\<lambda>ms. bucket_erase (gm_Member ms) g) xs m) \<and>
    set (bucket (fold (\<lambda>ms. bucket_erase (gm_Member ms) g) xs m) a) =
      set (bucket m a) - (if a \<in> gm_Member ` set xs then {g} else {})"
  by (induction xs arbitrary: m) (auto simp: bucket_erase_ok)

definition registry_ok :: "AgentGroupRegistry \<Rightarrow> bool" where
  "registry_ok r = (om_wf (ag_groups r) \<and> buckets_ok (ag_memberGroups r) \<and>
     (\<forall>i grp. Groups_Find i r = Some grp \<longrightarrow> gr_Id grp = i \<and> i \<noteq> 0 \<and> distinct (map gm_Member (gr_Members grp))) \<and>
     (\<forall>a g. g \<in> set (bucket (ag_memberGroups r) a) \<longleftrightarrow> (\<exists>grp. Groups_Find g r = Some grp \<and> a \<in> members grp)))"

lemma registry_okD:
  assumes "registry_ok r"
  shows "om_wf (ag_groups r)" and "buckets_ok (ag_memberGroups r)"
    and "Groups_Find i r = Some grp \<Longrightarrow> gr_Id grp = i \<and> i \<noteq> 0 \<and> distinct (map gm_Member (gr_Members grp))"
    and "g \<in> set (bucket (ag_memberGroups r) a) \<longleftrightarrow> (\<exists>grp. Groups_Find g r = Some grp \<and> a \<in> members grp)"
  using assms unfolding registry_ok_def by blast+

lemma Groups_Find_put: "om_wf m \<Longrightarrow> Groups_Find j \<lparr>ag_groups = om_put i grp m, ag_memberGroups = x\<rparr> =
    (if j = i then Some grp else om_find m j)"
  by (simp add: Groups_Find_def om_find_put)

lemma Add_ok:
  assumes "registry_ok r" and "distinct (map gm_Member (gr_Members rec))"
  shows "registry_ok (snd (Groups_Add rec r))"
  using assms(2) registry_okD [OF assms(1)] fold_bucket_insert [OF registry_okD(2) [OF assms(1)], of "gr_Id rec" "gr_Members rec"]
  by (auto simp: Groups_Add_def registry_ok_def Groups_Find_put om_wf_put members_def Groups_Find_def split: if_splits)

lemma Remove_ok:
  assumes "registry_ok r"
  shows "registry_ok (snd (Groups_Remove i r))"
  using registry_okD [OF assms] fold_bucket_erase [OF registry_okD(2) [OF assms], of i]
  by (auto simp: Groups_Remove_def registry_ok_def Groups_Find_def om_wf_del om_find_del members_def split: option.split if_splits)

lemma AddMember_ok:
  assumes "registry_ok r"
  shows "registry_ok (snd (Groups_AddMember i ms r))"
  using registry_okD [OF assms] bucket_insert_ok [OF registry_okD(2) [OF assms], of "gm_Member ms" i]
  by (auto simp: Groups_AddMember_def registry_ok_def Groups_Find_put om_wf_put Groups_Find_def members_def split: option.split if_splits)

lemma RemoveMember_ok:
  assumes "registry_ok r"
  shows "registry_ok (snd (Groups_RemoveMember i a r))"
  using registry_okD [OF assms] bucket_erase_ok [OF registry_okD(2) [OF assms], of a i] erase_member_set [of _ a]
  by (auto simp: Groups_RemoveMember_def registry_ok_def Groups_Find_put om_wf_put Groups_Find_def members_def split: option.split if_splits)

section \<open>What the operations change\<close>

lemma Add_find:
  assumes "registry_ok r"
  shows "Groups_Find j (snd (Groups_Add rec r)) =
    (if j = gr_Id rec \<and> gr_Id rec \<noteq> 0 \<and> Groups_Find (gr_Id rec) r = None then Some rec else Groups_Find j r)"
  using registry_okD(1) [OF assms] by (auto simp: Groups_Add_def Groups_Find_put) (simp add: Groups_Find_def)

lemma Remove_find:
  "registry_ok r \<Longrightarrow> Groups_Find j (snd (Groups_Remove i r)) = (if j = i then None else Groups_Find j r)"
  by (auto simp: Groups_Remove_def Groups_Find_def registry_ok_def om_find_del split: option.split)

lemma AddMember_find:
  "registry_ok r \<Longrightarrow> Groups_Find j (snd (Groups_AddMember i ms r)) = (if j = i
    then map_option (\<lambda>grp. if gm_Member ms \<in> members grp then grp else grp\<lparr>gr_Members := gr_Members grp @ [ms]\<rparr>) (Groups_Find i r)
    else Groups_Find j r)"
  by (auto simp: Groups_AddMember_def Groups_Find_def registry_ok_def om_find_put split: option.split)

lemma RemoveMember_find:
  "registry_ok r \<Longrightarrow> Groups_Find j (snd (Groups_RemoveMember i a r)) = (if j = i
    then map_option (\<lambda>grp. if a \<in> members grp then grp\<lparr>gr_Members := erase_member a (gr_Members grp)\<rparr> else grp) (Groups_Find i r)
    else Groups_Find j r)"
  by (auto simp: Groups_RemoveMember_def Groups_Find_def registry_ok_def om_find_put split: option.split)

lemma members_erase: "distinct (map gm_Member (gr_Members grp)) \<Longrightarrow>
    members (grp\<lparr>gr_Members := erase_member a (gr_Members grp)\<rparr>) = members grp - {a}"
  by (simp add: members_def erase_member_set)

section \<open>The invariant of the lifecycle\<close>

text \<open>The group an operation in flight has locked, and the ids minted for groups being created.\<close>

fun locked :: "GroupOp \<Rightarrow> GroupId list" where
  "locked (OpCreate rec) = []"
| "locked (OpJoin g a t) = [g]"
| "locked (OpLeave g a) = [g]"
| "locked (OpDissolve g) = [g]"

fun minted :: "GroupOp \<Rightarrow> GroupId list" where
  "minted (OpCreate rec) = [gr_Id rec]"
| "minted _ = []"

definition faction_fits :: "(u64 \<Rightarrow> u32 option) \<Rightarrow> AgentGroupRecord \<Rightarrow> u32 \<Rightarrow> bool" where
  "faction_fits faction grp f = ((\<forall>a \<in> members grp. faction a = Some f) \<and>
     (\<forall>req. RequiredWorldFactionFor (gr_ProfileId grp) = Some req \<longrightarrow> f = req))"

text \<open>An empty group has no faction yet; otherwise its members share one, the required one if any.\<close>

definition group_uniform :: "(u64 \<Rightarrow> u32 option) \<Rightarrow> AgentGroupRecord \<Rightarrow> bool" where
  "group_uniform faction grp = (members grp = {} \<or> (\<exists>f. faction_fits faction grp f))"

definition profile_ok :: "AgentGroupRecord \<Rightarrow> bool" where
  "profile_ok grp = (gr_ProfileId grp \<noteq> Profile_Invalid \<longrightarrow> GetCoalitionProfileKind (gr_ProfileId grp) = Some (gr_Kind grp))"

fun op_ok :: "(u64 \<Rightarrow> u32 option) \<Rightarrow> AgentGroupRegistry \<Rightarrow> u64 \<Rightarrow> GroupOp \<Rightarrow> bool" where
  "op_ok faction r next (OpCreate rec) = (gr_Members rec = [] \<and> profile_ok rec \<and> gr_Id rec \<noteq> 0 \<and> gr_Id rec < next \<and>
     Groups_Find (gr_Id rec) r = None)"
| "op_ok faction r next (OpJoin g a t) = (\<exists>grp f. Groups_Find g r = Some grp \<and> a \<notin> members grp \<and> faction a = Some f \<and>
     faction_fits faction grp f)"
| "op_ok faction r next (OpLeave g a) = (\<exists>grp. Groups_Find g r = Some grp \<and> a \<in> members grp)"
| "op_ok faction r next (OpDissolve g) = (Groups_Find g r \<noteq> None)"

definition world_ok :: "(u64 \<Rightarrow> u32 option) \<Rightarrow> GroupWorld \<Rightarrow> bool" where
  "world_ok faction w = (registry_ok (gw_registry w) \<and>
     (\<forall>g grp. Groups_Find g (gw_registry w) = Some grp \<longrightarrow>
        group_uniform faction grp \<and> profile_ok grp \<and> g < gw_nextGroupId w) \<and>
     gw_nextGroupId w \<noteq> 0 \<and>
     distinct (concat (map locked (gw_inflight w))) \<and> set (gw_pending w) = set (concat (map locked (gw_inflight w))) \<and>
     distinct (concat (map minted (gw_inflight w))) \<and>
     list_all (op_ok faction (gw_registry w) (gw_nextGroupId w)) (gw_inflight w))"

lemma world_okD:
  assumes "world_ok faction w"
  shows "registry_ok (gw_registry w)"
    and "Groups_Find g (gw_registry w) = Some grp \<Longrightarrow> group_uniform faction grp \<and> profile_ok grp \<and> g < gw_nextGroupId w"
    and "gw_nextGroupId w \<noteq> 0" and "distinct (concat (map locked (gw_inflight w)))"
    and "set (gw_pending w) = set (concat (map locked (gw_inflight w)))"
    and "distinct (concat (map minted (gw_inflight w)))"
    and "list_all (op_ok faction (gw_registry w) (gw_nextGroupId w)) (gw_inflight w)"
  using assms unfolding world_ok_def by blast+

lemma JoinConflict_fits:
  assumes "group_uniform faction grp" and "gr_Members grp \<noteq> []"
  shows "\<not> JoinConflict faction f (gr_Members grp) \<longleftrightarrow> faction_fits faction grp f"
proof -
  obtain ms rest where ms: "gr_Members grp = ms # rest" using assms(2) by (cases "gr_Members grp") auto
  then have "gm_Member ms \<in> members grp" by (simp add: members_def)
  with assms(1) obtain f' where "faction_fits faction grp f'" and "faction (gm_Member ms) = Some f'"
    by (auto simp: group_uniform_def faction_fits_def)
  then have "\<not> JoinConflict faction f (gr_Members grp) \<longleftrightarrow> f' = f" using ms by auto
  moreover have "faction_fits faction grp f \<longleftrightarrow> f' = f"
    using \<open>gm_Member ms \<in> members grp\<close> \<open>faction_fits faction grp f'\<close> \<open>faction (gm_Member ms) = Some f'\<close>
    unfolding faction_fits_def by (metis option.inject)
  ultimately show ?thesis by simp
qed

lemma submit_ok:
  assumes "world_ok faction w" and "locked op = [g]" and "minted op = []" and "g \<notin> set (gw_pending w)"
    and "op_ok faction (gw_registry w) (gw_nextGroupId w) op"
  shows "world_ok faction (snd (submit op g w))"
  using assms unfolding world_ok_def submit_def by auto

lemma fits_empty: "members grp = {} \<Longrightarrow> faction_fits faction grp f \<longleftrightarrow>
    (\<forall>req. RequiredWorldFactionFor (gr_ProfileId grp) = Some req \<longrightarrow> f = req)"
  by (simp add: faction_fits_def)

lemma RequestJoinGroup_cases:
  assumes "Groups_Find g (gw_registry w) = Some grp" and "group_uniform faction grp"
  shows "RequestJoinGroup faction g a t w = (case faction a of
      None \<Rightarrow> (False, w)
    | Some f \<Rightarrow> if g \<in> set (gw_pending w) \<or> a \<in> members grp \<or> \<not> faction_fits faction grp f then (False, w)
        else submit (OpJoin g a t) g w)"
proof (cases "gr_Members grp = []")
  case True
  then have "members grp = {}" by (simp add: members_def)
  from fits_empty [OF this] this assms(1) True show ?thesis
    by (auto simp: RequestJoinGroup_def split: option.split)
next
  case False
  from JoinConflict_fits [OF assms(2) False] assms(1) False show ?thesis
    by (auto simp: RequestJoinGroup_def split: option.split)
qed

lemma RequestJoinGroup_ok:
  assumes "world_ok faction w"
  shows "world_ok faction (snd (RequestJoinGroup faction g a t w))"
proof (cases "Groups_Find g (gw_registry w)")
  case None
  with assms show ?thesis by (simp add: RequestJoinGroup_def)
next
  case (Some grp)
  then have "group_uniform faction grp" using world_okD(2) [OF assms] by blast
  from RequestJoinGroup_cases [OF Some this] Some assms submit_ok [OF assms, of "OpJoin g a t" g] show ?thesis
    by (auto split: option.split)
qed

lemma RequestLeaveGroup_ok: "world_ok faction w \<Longrightarrow> world_ok faction (snd (RequestLeaveGroup g a w))"
  using submit_ok [of faction w "OpLeave g a" g] by (auto simp: RequestLeaveGroup_def split: option.split)

lemma RequestDissolveGroup_ok: "world_ok faction w \<Longrightarrow> world_ok faction (snd (RequestDissolveGroup g w))"
  using submit_ok [of faction w "OpDissolve g" g] by (auto simp: RequestDissolveGroup_def split: option.split)

lemma op_ok_next: "op_ok faction r n op \<Longrightarrow> n \<le> n' \<Longrightarrow> op_ok faction r n' op"
  by (cases op) auto

lemma RequestCreateGroup_ok:
  assumes "world_ok faction w"
  shows "world_ok faction (snd (RequestCreateGroup kind m x y z res p w))"
proof (cases "(p \<noteq> Profile_Invalid \<and> GetCoalitionProfileKind p \<noteq> Some kind) \<or> \<not> gw_allocatorValid w \<or> gw_nextGroupId w = u64_max")
  case True
  with assms show ?thesis by (auto simp: RequestCreateGroup_def)
next
  case False
  let ?n = "gw_nextGroupId w"
  have "?n \<noteq> u64_max" using False by simp
  then have "unat ?n < unat u64_max" using unat_u64_bound [of ?n] by (metis nless_le unat_u64_max word_unat_eq_iff)
  then have "unat ?n + 1 < 2 ^ LENGTH(64)" by simp
  then have "unat (?n + 1) = Suc (unat ?n)" by (simp add: unat_word_ariths)
  then have n: "?n < ?n + 1" "?n + 1 \<noteq> 0" by (auto simp: word_less_nat_alt)
  note d = world_okD [OF assms]
  have fresh: "Groups_Find ?n (gw_registry w) = None" using d(2) by (cases "Groups_Find ?n (gw_registry w)") auto
  have "?n \<notin> set (concat (map minted (gw_inflight w)))"
  proof
    assume "?n \<in> set (concat (map minted (gw_inflight w)))"
    then obtain op where op: "op \<in> set (gw_inflight w)" "?n \<in> set (minted op)" by auto
    then have "op_ok faction (gw_registry w) ?n op" using d(7) by (simp add: list_all_iff)
    with op(2) show False by (cases op) auto
  qed
  then show ?thesis
    using d False n fresh less_le_trans [OF _ less_imp_le [OF n(1)]] op_ok_next [OF _ less_imp_le [OF n(1)]]
    by (auto simp: RequestCreateGroup_def world_ok_def list_all_iff profile_ok_def)
qed

section \<open>Completions\<close>

lemma op_frame:
  "op_ok faction r n op \<Longrightarrow> (\<And>g. g \<in> set (locked op) \<Longrightarrow> Groups_Find g r' = Groups_Find g r) \<Longrightarrow>
    (\<And>i. i \<in> set (minted op) \<Longrightarrow> Groups_Find i r' = Groups_Find i r) \<Longrightarrow> op_ok faction r' n op"
  by (cases op) auto

definition targets :: "GroupOp \<Rightarrow> GroupId set" where
  "targets op = set (locked op) \<union> set (minted op)"

lemma other_target:
  assumes "world_ok faction w" and "gw_inflight w = ops1 @ op # ops2" and "op' \<in> set (ops1 @ ops2)"
  shows "targets op \<inter> targets op' = {}"
proof -
  note d = world_okD(4,6,7) [OF assms(1), unfolded assms(2)]
  have "set (locked op) \<inter> set (locked op') = {}" "set (minted op) \<inter> set (minted op') = {}"
    using d(1,2) assms(3) by fastforce+
  moreover have ok: "op_ok faction (gw_registry w) (gw_nextGroupId w) op" "op_ok faction (gw_registry w) (gw_nextGroupId w) op'"
    using d(3) assms(3) by (auto simp: list_all_iff)
  have "set (locked x) \<inter> set (minted y) = {}" if "op_ok faction (gw_registry w) (gw_nextGroupId w) x"
      "op_ok faction (gw_registry w) (gw_nextGroupId w) y" for x y
    using that by (cases x; cases y) auto
  from this [OF ok] this [OF ok(2,1)] have "set (locked op) \<inter> set (minted op') = {}" "set (locked op') \<inter> set (minted op) = {}" .
  ultimately show ?thesis unfolding targets_def by blast
qed

lemma completion_ok:
  assumes ok: "world_ok faction w" and fl: "gw_inflight w = ops1 @ op # ops2"
    and r': "registry_ok (gw_registry w')" and fl': "gw_inflight w' = ops1 @ ops2"
    and pend: "set (gw_pending w') = set (gw_pending w) - set (locked op)"
    and nxt: "gw_nextGroupId w' = gw_nextGroupId w"
    and same: "\<And>g. g \<notin> targets op \<Longrightarrow> Groups_Find g (gw_registry w') = Groups_Find g (gw_registry w)"
    and changed: "\<And>g grp. g \<in> targets op \<Longrightarrow> Groups_Find g (gw_registry w') = Some grp \<Longrightarrow>
      group_uniform faction grp \<and> profile_ok grp \<and> g < gw_nextGroupId w"
  shows "world_ok faction w'"
proof -
  note d = world_okD [OF ok]
  have "op_ok faction (gw_registry w') (gw_nextGroupId w') op'" if "op' \<in> set (ops1 @ ops2)" for op'
  proof -
    have old: "op_ok faction (gw_registry w) (gw_nextGroupId w) op'" using d(7) that fl by (auto simp: list_all_iff)
    have "g \<in> targets op' \<Longrightarrow> Groups_Find g (gw_registry w') = Groups_Find g (gw_registry w)" for g
      using same other_target [OF ok fl that] by blast
    with old show ?thesis unfolding nxt targets_def by (intro op_frame [OF old]) blast+
  qed
  moreover have "set (gw_pending w') = set (concat (map locked (ops1 @ ops2)))"
    using d(4,5) fl pend by auto
  moreover have "distinct (concat (map locked (ops1 @ ops2)))" "distinct (concat (map minted (ops1 @ ops2)))"
    using d(4,6) fl by auto
  moreover have "Groups_Find g (gw_registry w') = Some grp \<Longrightarrow>
      group_uniform faction grp \<and> profile_ok grp \<and> g < gw_nextGroupId w'" for g grp
    using changed [of g grp] same [of g] d(2) [of g grp] nxt by (cases "g \<in> targets op") auto
  ultimately show ?thesis
    unfolding world_ok_def fl' using r' nxt d(3) by (auto simp: list_all_iff)
qed

lemma inflight_ok: "world_ok faction w \<Longrightarrow> gw_inflight w = ops1 @ op # ops2 \<Longrightarrow>
    op_ok faction (gw_registry w) (gw_nextGroupId w) op"
  using world_okD(7) [of faction w] by simp

lemma uniform_shrink: "group_uniform faction grp \<Longrightarrow> members grp' \<subseteq> members grp \<Longrightarrow> gr_ProfileId grp' = gr_ProfileId grp \<Longrightarrow>
    group_uniform faction grp'"
  unfolding group_uniform_def faction_fits_def by (metis subset_empty subsetD)

lemma fits_uniform: "faction_fits faction grp f \<Longrightarrow> faction a = Some f \<Longrightarrow> gr_ProfileId grp' = gr_ProfileId grp \<Longrightarrow>
    members grp' = insert a (members grp) \<Longrightarrow> group_uniform faction grp'"
  unfolding group_uniform_def faction_fits_def by auto

lemma CompleteOp_inflight [simp]: "gw_inflight (snd (CompleteOp b op w)) = gw_inflight w"
  "gw_nextGroupId (snd (CompleteOp b op w)) = gw_nextGroupId w"
  by (cases op; simp add: Let_def unpend_def split: prod.split)+

lemma CompleteOp_pending [simp]: "set (gw_pending (snd (CompleteOp b op w))) = set (gw_pending w) - set (locked op)"
  by (cases op) (auto simp: Let_def unpend_def split: prod.split)

lemma CompleteOp_registry:
  "gw_registry (snd (CompleteOp b op w)) = (if \<not> b then gw_registry w else case op of
      OpCreate rec \<Rightarrow> snd (Groups_Add rec (gw_registry w))
    | OpJoin g a t \<Rightarrow> snd (Groups_AddMember g \<lparr>gm_Member = a, gm_JoinedAtMs = t\<rparr> (gw_registry w))
    | OpLeave g a \<Rightarrow> snd (Groups_RemoveMember g a (gw_registry w))
    | OpDissolve g \<Rightarrow> snd (Groups_Remove g (gw_registry w)))"
  by (cases op) (auto simp: Let_def unpend_def split: prod.split)

declare CompleteOp.simps [simp del]

lemma complete_step_ok:
  assumes ok: "world_ok faction w" and fl: "gw_inflight w = ops1 @ op # ops2"
  shows "world_ok faction (snd (CompleteOp success op (w\<lparr>gw_inflight := ops1 @ ops2\<rparr>)))" (is "world_ok _ ?w'")
proof (rule completion_ok [OF ok fl])
  note r = world_okD(1) [OF ok]
  note old = world_okD(2) [OF ok]
  note op = inflight_ok [OF ok fl]
  note finds = Add_find [OF r] AddMember_find [OF r] RemoveMember_find [OF r] Remove_find [OF r]
  show "registry_ok (gw_registry ?w')"
    using op r by (cases op) (auto simp: CompleteOp_registry Add_ok AddMember_ok RemoveMember_ok Remove_ok)
  show "Groups_Find g (gw_registry ?w') = Groups_Find g (gw_registry w)" if "g \<notin> targets op" for g
    using that by (cases op) (auto simp: CompleteOp_registry targets_def finds)
  show "group_uniform faction grp \<and> profile_ok grp \<and> g < gw_nextGroupId w"
    if "g \<in> targets op" "Groups_Find g (gw_registry ?w') = Some grp" for g grp
  proof (cases success)
    case False
    with that old show ?thesis by (simp add: CompleteOp_registry)
  next
    case True
    show ?thesis
    proof (cases op)
      case (OpCreate rec)
      with that op True show ?thesis by (auto simp: CompleteOp_registry targets_def finds group_uniform_def members_def)
    next
      case (OpJoin g' a t)
      with op obtain grp' f where g': "Groups_Find g' (gw_registry w) = Some grp'" "a \<notin> members grp'" "faction a = Some f"
        "faction_fits faction grp' f" by auto
      with that True OpJoin have "g = g'" "grp = grp'\<lparr>gr_Members := gr_Members grp' @ [\<lparr>gm_Member = a, gm_JoinedAtMs = t\<rparr>]\<rparr>"
        by (auto simp: CompleteOp_registry targets_def finds)
      with old [OF g'(1)] fits_uniform [OF g'(4,3), of grp] show ?thesis by (simp add: profile_ok_def)
    next
      case (OpLeave g' a)
      with op obtain grp' where g': "Groups_Find g' (gw_registry w) = Some grp'" "a \<in> members grp'" by auto
      with that True OpLeave have "g = g'" "grp = grp'\<lparr>gr_Members := erase_member a (gr_Members grp')\<rparr>"
        by (auto simp: CompleteOp_registry targets_def finds)
      with old [OF g'(1)] uniform_shrink [of faction grp' grp] registry_okD(3) [OF r g'(1)] show ?thesis
        by (auto simp: profile_ok_def members_erase)
    next
      case (OpDissolve g')
      with that True show ?thesis by (auto simp: CompleteOp_registry targets_def finds)
    qed
  qed
qed simp_all

inductive_cases group_stepE: "group_step faction w w'"

lemma group_step_ok: "group_step faction w w' \<Longrightarrow> world_ok faction w \<Longrightarrow> world_ok faction w'"
  by (induction rule: group_step.induct)
    (simp_all add: RequestCreateGroup_ok RequestJoinGroup_ok RequestLeaveGroup_ok RequestDissolveGroup_ok complete_step_ok)

lemma group_init_ok: "world_ok faction (group_init n)"
  by (auto simp: group_init_def LoadGroupIdSequence_def world_ok_def registry_ok_def buckets_ok_def
      group_registry_empty_def Groups_Find_def bucket_def)

lemma group_reachable_ok: "(group_step faction)\<^sup>*\<^sup>* (group_init n) w \<Longrightarrow> world_ok faction w"
  by (induction rule: rtranclp_induct) (simp_all add: group_init_ok group_step_ok)

section \<open>Properties\<close>

text \<open>
  Whatever group operations are requested and in whatever order their transactions complete or
  fail, the index from members to groups says exactly what the member lists say: an agent's
  bucket holds exactly the groups that list it, the kind query agrees with the member lists,
  and no group lists an agent twice.
\<close>
theorem group_index_exact:
  assumes "(group_step faction)\<^sup>*\<^sup>* (group_init n) w"
  shows "set (Groups_GetGroupsOfMember a (gw_registry w)) =
      {g. \<exists>grp. Groups_Find g (gw_registry w) = Some grp \<and> a \<in> members grp} \<and>
    (Groups_IsMemberOfKind a kind (gw_registry w) \<longleftrightarrow>
      (\<exists>g grp. Groups_Find g (gw_registry w) = Some grp \<and> a \<in> members grp \<and> gr_Kind grp = kind)) \<and>
    (Groups_Find g (gw_registry w) = Some grp \<longrightarrow> distinct (map gm_Member (gr_Members grp)))"
proof -
  note ok = world_okD(1) [OF group_reachable_ok [OF assms]]
  have groups: "set (Groups_GetGroupsOfMember a (gw_registry w)) =
      {g. \<exists>grp. Groups_Find g (gw_registry w) = Some grp \<and> a \<in> members grp}"
    using registry_okD(4) [OF ok] unfolding Groups_GetGroupsOfMember_def bucket_def [symmetric] by blast
  have "Groups_IsMemberOfKind a kind (gw_registry w) \<longleftrightarrow>
      (\<exists>g \<in> set (Groups_GetGroupsOfMember a (gw_registry w)). \<exists>grp. Groups_Find g (gw_registry w) = Some grp \<and> gr_Kind grp = kind)"
    by (auto simp: Groups_IsMemberOfKind_def Groups_GetGroupsOfMember_def Groups_Find_def list_ex_iff split: option.splits)
  then have "Groups_IsMemberOfKind a kind (gw_registry w) \<longleftrightarrow>
      (\<exists>g grp. Groups_Find g (gw_registry w) = Some grp \<and> a \<in> members grp \<and> gr_Kind grp = kind)"
    unfolding groups by fastforce
  with groups registry_okD(3) [OF ok] show ?thesis by blast
qed


text \<open>
  A transaction that commits always takes effect: when it completes, the created group is
  registered, the member is added, the membership or the group is gone; the branches for a group
  that vanished meanwhile or an id already registered are never reached, because at most one
  operation per group is in flight and ids are minted once.
\<close>
theorem committed_group_operation_takes_effect:
  assumes "(group_step faction)\<^sup>*\<^sup>* (group_init n) w" and "gw_inflight w = ops1 @ op # ops2"
  shows "fst (CompleteOp True op (w\<lparr>gw_inflight := ops1 @ ops2\<rparr>)) \<and>
    (case op of
       OpCreate rec \<Rightarrow> Groups_Find (gr_Id rec) (gw_registry w) = None \<and>
         Groups_Find (gr_Id rec) (gw_registry (snd (CompleteOp True op (w\<lparr>gw_inflight := ops1 @ ops2\<rparr>)))) = Some rec
     | OpJoin g a t \<Rightarrow> \<exists>grp. Groups_Find g (gw_registry w) = Some grp \<and> a \<notin> members grp \<and>
         Groups_Find g (gw_registry (snd (CompleteOp True op (w\<lparr>gw_inflight := ops1 @ ops2\<rparr>)))) =
           Some (grp\<lparr>gr_Members := gr_Members grp @ [\<lparr>gm_Member = a, gm_JoinedAtMs = t\<rparr>]\<rparr>)
     | OpLeave g a \<Rightarrow> \<exists>grp grp'. Groups_Find g (gw_registry w) = Some grp \<and> a \<in> members grp \<and>
         Groups_Find g (gw_registry (snd (CompleteOp True op (w\<lparr>gw_inflight := ops1 @ ops2\<rparr>)))) = Some grp' \<and>
         members grp' = members grp - {a}
     | OpDissolve g \<Rightarrow> Groups_Find g (gw_registry w) \<noteq> None \<and>
         Groups_Find g (gw_registry (snd (CompleteOp True op (w\<lparr>gw_inflight := ops1 @ ops2\<rparr>)))) = None)"
proof -
  note ok = group_reachable_ok [OF assms(1)]
  note op = inflight_ok [OF ok assms(2)] and r = world_okD(1) [OF ok]
  have told: "fst (CompleteOp True op (w\<lparr>gw_inflight := ops1 @ ops2\<rparr>))"
    using op by (cases op) (auto simp: CompleteOp.simps Let_def unpend_def Groups_Add_def Groups_AddMember_def split: option.splits)
  note finds = Add_find [OF r] AddMember_find [OF r] RemoveMember_find [OF r] Remove_find [OF r]
  show ?thesis
  proof (cases op)
    case (OpLeave g a)
    with op obtain grp where "Groups_Find g (gw_registry w) = Some grp" "a \<in> members grp" by auto
    with told OpLeave registry_okD(3) [OF r this(1)] show ?thesis
      by (simp add: CompleteOp_registry finds members_erase)
  qed (use op told in \<open>auto simp: CompleteOp_registry finds\<close>)
qed

section \<open>Witnesses\<close>

definition finish :: "GroupWorld \<Rightarrow> GroupWorld" where
  "finish w = snd (CompleteOp True (hd (gw_inflight w)) (w\<lparr>gw_inflight := tl (gw_inflight w)\<rparr>))"

lemma finish_step: "gw_inflight w \<noteq> [] \<Longrightarrow> group_step faction w (finish w)"
  using group_step.complete [of w "[]" "hd (gw_inflight w)" "tl (gw_inflight w)" faction True] by (simp add: finish_def)

definition ex_faction :: "u64 \<Rightarrow> u32 option" where
  "ex_faction a = (if a = 7 \<or> a = 8 then Some 6 else if a = 9 then Some 2 else None)"

definition ex_pack1 :: GroupWorld where
  "ex_pack1 = snd (RequestCreateGroup Loose 0 (Fin 0) (Fin 0) (Fin 0) (Fin 0) WolfLoose (group_init 1))"

definition ex_pack2 :: GroupWorld where "ex_pack2 = snd (RequestJoinGroup ex_faction 1 7 50 (finish ex_pack1))"

definition ex_pack3 :: GroupWorld where "ex_pack3 = snd (RequestJoinGroup ex_faction 1 8 60 (finish ex_pack2))"

lemma ex_pack_inflight:
  "gw_inflight ex_pack1 \<noteq> []" "gw_inflight ex_pack2 \<noteq> []" "gw_inflight ex_pack3 = [] @ OpJoin 1 8 60 # []"
  by code_simp+

lemma reach_join: "(group_step f)\<^sup>*\<^sup>* v w \<Longrightarrow> (group_step f)\<^sup>*\<^sup>* v (snd (RequestJoinGroup f g a t w))"
  by (erule rtranclp.rtrancl_into_rtrancl) (rule group_step.join)

lemma reach_finish: "(group_step f)\<^sup>*\<^sup>* v w \<Longrightarrow> gw_inflight w \<noteq> [] \<Longrightarrow> (group_step f)\<^sup>*\<^sup>* v (finish w)"
  by (erule rtranclp.rtrancl_into_rtrancl) (rule finish_step)

lemma ex_pack_reachable: "(group_step ex_faction)\<^sup>*\<^sup>* (group_init 1) ex_pack3"
proof -
  have "(group_step ex_faction)\<^sup>*\<^sup>* (group_init 1) ex_pack1"
    unfolding ex_pack1_def by (rule r_into_rtranclp) (rule group_step.create)
  then have "(group_step ex_faction)\<^sup>*\<^sup>* (group_init 1) ex_pack2"
    unfolding ex_pack2_def by (intro reach_join reach_finish ex_pack_inflight)
  then show ?thesis unfolding ex_pack3_def by (intro reach_join reach_finish ex_pack_inflight)
qed

lemma ex_pack_finished: "(group_step ex_faction)\<^sup>*\<^sup>* (group_init 1) (finish ex_pack3)"
  by (rule reach_finish [OF ex_pack_reachable]) (simp add: ex_pack_inflight)

lemma group_index_exact_witness:
  "set (Groups_GetGroupsOfMember 8 (gw_registry (finish ex_pack3))) =
    {g. \<exists>grp. Groups_Find g (gw_registry (finish ex_pack3)) = Some grp \<and> 8 \<in> members grp}"
  using group_index_exact [OF ex_pack_finished] by blast

definition ex_pack :: AgentGroupRecord where
  "ex_pack = the (Groups_Find 1 (gw_registry (finish ex_pack3)))"

lemma ex_pack_facts:
  "Groups_Find 1 (gw_registry (finish ex_pack3)) = Some ex_pack" "7 \<in> members ex_pack" "8 \<in> members ex_pack"
  by code_simp+


lemma committed_group_operation_takes_effect_witness:
  "fst (CompleteOp True (OpJoin 1 8 60) (ex_pack3\<lparr>gw_inflight := [] @ []\<rparr>))"
  using committed_group_operation_takes_effect [OF ex_pack_reachable ex_pack_inflight(3)] by blast

end
