(* ===== verification/Group_Policy.thy ===== *)
theory Group_Policy
  imports Agent_Groups
begin

text \<open>
  The policy of agent groups (\<open>Agent/AgentGroupPolicySystem.cpp\<close>) and the requests of \<open>AIWorldMgr\<close>
  that ask it before they submit an operation to the asynchronous lifecycle of \<open>Agent_Groups\<close>. Every
  step of the world under the policy is a step of that lifecycle; the policy adds the limits on the
  size of a group and the protection of stable groups.
\<close>

section \<open>The policy\<close>

record AgentGroupPolicyConfig =
  pg_LooseMinMembers :: u32
  pg_LooseMaxMembers :: u32
  pg_StableMinMembers :: u32
  pg_StableMaxMembers :: u32

datatype AgentGroupOperationSource = Manual | AutomaticPolicy

record AgentGroupPolicyContext =
  px_Config :: AgentGroupPolicyConfig
  px_Source :: AgentGroupOperationSource

datatype AgentGroupPolicyDecision = Allowed | GroupFull | GroupTooSmall | StableGroupProtected | InvalidMember | InvalidOperation

fun AgentGroupPolicyDecision_ToString :: "AgentGroupPolicyDecision \<Rightarrow> string" where
  "AgentGroupPolicyDecision_ToString Allowed = ''ALLOWED''"
| "AgentGroupPolicyDecision_ToString GroupFull = ''GROUP_FULL''"
| "AgentGroupPolicyDecision_ToString GroupTooSmall = ''GROUP_TOO_SMALL''"
| "AgentGroupPolicyDecision_ToString StableGroupProtected = ''STABLE_GROUP_PROTECTED''"
| "AgentGroupPolicyDecision_ToString InvalidMember = ''INVALID_MEMBER''"
| "AgentGroupPolicyDecision_ToString InvalidOperation = ''INVALID_OPERATION''"

definition Policy_IsMember :: "AgentGroupRecord \<Rightarrow> u64 \<Rightarrow> bool" where
  "Policy_IsMember grp a = list_ex (\<lambda>ms. gm_Member ms = a) (gr_Members grp)"

definition CanJoin :: "AgentGroupRecord \<Rightarrow> u64 \<Rightarrow> AgentGroupPolicyContext \<Rightarrow> AgentGroupPolicyDecision" where
  "CanJoin grp a context =
     (if a = 0 \<or> Policy_IsMember grp a then InvalidMember
      else let maxMembers = (if gr_Kind grp = Loose then pg_LooseMaxMembers (px_Config context)
             else pg_StableMaxMembers (px_Config context))
           in if maxMembers \<le> of_nat (length (gr_Members grp)) then GroupFull else Allowed)"

definition CanLeave :: "AgentGroupRecord \<Rightarrow> u64 \<Rightarrow> AgentGroupPolicyContext \<Rightarrow> AgentGroupPolicyDecision" where
  "CanLeave grp a context =
     (if a = 0 \<or> \<not> Policy_IsMember grp a then InvalidMember
      else if px_Source context = Manual then Allowed
      else if gr_Kind grp = Stable then StableGroupProtected
      else Allowed)"

definition ShouldDissolve :: "AgentGroupRecord \<Rightarrow> AgentGroupPolicyContext \<Rightarrow> bool" where
  "ShouldDissolve grp context =
     (if gr_Kind grp = Stable then False
      else (of_nat (length (gr_Members grp)) :: u32) < pg_LooseMinMembers (px_Config context))"

text \<open>The limits from the configuration, each a 32-bit integer there.\<close>

definition ConfigurePolicy :: "int \<Rightarrow> int \<Rightarrow> int \<Rightarrow> int \<Rightarrow> AgentGroupPolicyConfig" where
  "ConfigurePolicy looseMin looseMax stableMin stableMax =
     (let looseMin = (if looseMin < 1 then 1 else looseMin);
          looseMax = (if looseMax < looseMin then looseMin else looseMax);
          stableMin = (if stableMin < 1 then 1 else stableMin);
          stableMax = (if stableMax < stableMin then stableMin else stableMax)
      in \<lparr>pg_LooseMinMembers = of_int looseMin, pg_LooseMaxMembers = of_int looseMax,
          pg_StableMinMembers = of_int stableMin, pg_StableMaxMembers = of_int stableMax\<rparr>)"

section \<open>The requests\<close>

text \<open>The decision \<open>onComplete\<close> is told, and the world after the submission.\<close>

definition RequestJoinGroupWithPolicy ::
  "AgentGroupPolicyConfig \<Rightarrow> (u64 \<Rightarrow> u32 option) \<Rightarrow> GroupId \<Rightarrow> u64 \<Rightarrow> u64 \<Rightarrow> AgentGroupOperationSource \<Rightarrow> GroupWorld \<Rightarrow>
    AgentGroupPolicyDecision \<times> GroupWorld"
where
  "RequestJoinGroupWithPolicy cfg faction g a joinedAtMs source w =
     (case Groups_Find g (gw_registry w) of
        None \<Rightarrow> (InvalidOperation, w)
      | Some grp \<Rightarrow>
          let decision = CanJoin grp a \<lparr>px_Config = cfg, px_Source = source\<rparr> in
          if decision \<noteq> Allowed then (decision, w)
          else (Allowed, snd (RequestJoinGroup faction g a joinedAtMs w)))"

definition RequestLeaveGroupWithPolicy ::
  "AgentGroupPolicyConfig \<Rightarrow> GroupId \<Rightarrow> u64 \<Rightarrow> AgentGroupOperationSource \<Rightarrow> GroupWorld \<Rightarrow> AgentGroupPolicyDecision \<times> GroupWorld"
where
  "RequestLeaveGroupWithPolicy cfg g a source w =
     (case Groups_Find g (gw_registry w) of
        None \<Rightarrow> (InvalidOperation, w)
      | Some grp \<Rightarrow>
          let decision = CanLeave grp a \<lparr>px_Config = cfg, px_Source = source\<rparr> in
          if decision \<noteq> Allowed then (decision, w)
          else (Allowed, snd (RequestLeaveGroup g a w)))"

definition RequestDissolveGroupWithPolicy ::
  "AgentGroupPolicyConfig \<Rightarrow> GroupId \<Rightarrow> AgentGroupOperationSource \<Rightarrow> GroupWorld \<Rightarrow> bool \<times> GroupWorld"
where
  "RequestDissolveGroupWithPolicy cfg g source w =
     (if source = Manual then RequestDissolveGroup g w
      else case Groups_Find g (gw_registry w) of
        None \<Rightarrow> (False, w)
      | Some grp \<Rightarrow>
          if \<not> ShouldDissolve grp \<lparr>px_Config = cfg, px_Source = source\<rparr> then (False, w)
          else RequestDissolveGroup g w)"

text \<open>One step of the world under the policy; a transaction in flight completes at any time.\<close>

inductive policy_step ::
  "AgentGroupPolicyConfig \<Rightarrow> (u64 \<Rightarrow> u32 option) \<Rightarrow> AgentGroupOperationSource set \<Rightarrow> GroupWorld \<Rightarrow> GroupWorld \<Rightarrow> bool"
  for cfg faction sources where
  create: "policy_step cfg faction sources w (snd (RequestCreateGroup kind m x y z res p w))"
| join: "source \<in> sources \<Longrightarrow> policy_step cfg faction sources w (snd (RequestJoinGroupWithPolicy cfg faction g a t source w))"
| leave: "source \<in> sources \<Longrightarrow> policy_step cfg faction sources w (snd (RequestLeaveGroupWithPolicy cfg g a source w))"
| dissolve: "source \<in> sources \<Longrightarrow> policy_step cfg faction sources w (snd (RequestDissolveGroupWithPolicy cfg g source w))"
| complete: "gw_inflight w = ops1 @ op # ops2 \<Longrightarrow>
    policy_step cfg faction sources w (snd (CompleteOp success op (w\<lparr>gw_inflight := ops1 @ ops2\<rparr>)))"

inductive_cases policy_stepE [consumes 1, case_names create join leave dissolve complete]: "policy_step cfg faction sources w w'"

text \<open>The policy refines the lifecycle: each of its steps is a step of it, or no step.\<close>

lemma policy_refines: "policy_step cfg faction sources w w' \<Longrightarrow> group_step faction w w' \<or> w' = w"
proof (induction rule: policy_step.induct)
  case (join source w g a t)
  show ?case
    using group_step.join [of faction w g a t]
    by (auto simp: RequestJoinGroupWithPolicy_def Let_def split: option.split)
next
  case (leave source w g a)
  show ?case
    using group_step.leave [of faction w g a]
    by (auto simp: RequestLeaveGroupWithPolicy_def Let_def split: option.split)
next
  case (dissolve source w g)
  show ?case
    using group_step.dissolve [of faction w g]
    by (auto simp: RequestDissolveGroupWithPolicy_def split: option.split)
qed (auto intro: group_step.intros)

lemma policy_refines_steps: "(policy_step cfg faction sources)\<^sup>*\<^sup>* w w' \<Longrightarrow> (group_step faction)\<^sup>*\<^sup>* w w'"
  by (induction rule: rtranclp_induct) (auto dest!: policy_refines intro: rtranclp.rtrancl_into_rtrancl)

lemmas policy_world_ok = group_reachable_ok [OF policy_refines_steps]

section \<open>The size of a group\<close>

definition max_members :: "AgentGroupPolicyConfig \<Rightarrow> AgentGroupKind \<Rightarrow> nat" where
  "max_members cfg kind = unat (if kind = Loose then pg_LooseMaxMembers cfg else pg_StableMaxMembers cfg)"

text \<open>The members of a group and those whose join is in flight stay within the limit.\<close>

definition joins :: "GroupId \<Rightarrow> GroupOp list \<Rightarrow> nat" where
  "joins g ops = length (filter (\<lambda>op. case op of OpJoin h a t \<Rightarrow> h = g | _ \<Rightarrow> False) ops)"

definition within_limit :: "AgentGroupPolicyConfig \<Rightarrow> GroupWorld \<Rightarrow> bool" where
  "within_limit cfg w = (\<forall>g grp. Groups_Find g (gw_registry w) = Some grp \<longrightarrow>
     length (gr_Members grp) + joins g (gw_inflight w) \<le> max_members cfg (gr_Kind grp))"

lemma joins_simps [simp]:
  "joins g (xs @ ys) = joins g xs + joins g ys"
  "joins g [] = 0"
  "joins g (OpCreate rec # ops) = joins g ops"
  "joins g (OpJoin h a t # ops) = (if h = g then Suc (joins g ops) else joins g ops)"
  "joins g (OpLeave h a # ops) = joins g ops"
  "joins g (OpDissolve h # ops) = joins g ops"
  by (simp_all add: joins_def)

lemma not_pending_no_joins:
  assumes "world_ok faction w" and "g \<notin> set (gw_pending w)"
  shows "joins g (gw_inflight w) = 0"
proof -
  have "g \<notin> set (concat (map locked (gw_inflight w)))" using assms world_okD(5) by blast
  then show ?thesis unfolding joins_def by (fastforce simp: filter_empty_conv split: GroupOp.splits)
qed

lemma fresh_no_joins:
  assumes "world_ok faction w" and "Groups_Find g (gw_registry w) = None"
  shows "joins g (gw_inflight w) = 0"
proof -
  have "op_ok faction (gw_registry w) (gw_nextGroupId w) op" if "op \<in> set (gw_inflight w)" for op
    using that world_okD(7) [OF assms(1)] by (simp add: list_all_iff)
  with assms(2) show ?thesis unfolding joins_def by (fastforce simp: filter_empty_conv split: GroupOp.splits)
qed

lemma max_members_bound: "max_members cfg kind < 2 ^ 32"
  unfolding max_members_def using unat_lt2p_32 by simp

lemma CanJoin_room:
  assumes "CanJoin grp a \<lparr>px_Config = cfg, px_Source = source\<rparr> = Allowed"
    and "length (gr_Members grp) \<le> max_members cfg (gr_Kind grp)"
  shows "Suc (length (gr_Members grp)) \<le> max_members cfg (gr_Kind grp)"
proof -
  have "length (gr_Members grp) < 2 ^ 32" using assms(2) max_members_bound by (rule le_less_trans)
  then have "unat (of_nat (length (gr_Members grp)) :: u32) = length (gr_Members grp)"
    by (simp add: unat_of_nat_u32)
  with assms(1) show ?thesis
    by (auto simp: CanJoin_def max_members_def Let_def not_le word_less_nat_alt split: if_splits)
qed

lemma submit_fields:
  "gw_registry (snd (submit op g w)) = gw_registry w"
  "gw_inflight (snd (submit op g w)) = gw_inflight w @ [op]"
  by (simp_all add: submit_def)

lemma RequestJoin_inflight:
  "snd (RequestJoinGroup faction g a t w) = w \<or>
   g \<notin> set (gw_pending w) \<and> snd (RequestJoinGroup faction g a t w) = snd (submit (OpJoin g a t) g w)"
  by (auto simp: RequestJoinGroup_def split: option.split)

lemma within_limit_join:
  assumes ok: "world_ok faction w" and lim: "within_limit cfg w"
  shows "within_limit cfg (snd (RequestJoinGroupWithPolicy cfg faction g a t source w))"
proof -
  let ?w = "snd (RequestJoinGroup faction g a t w)"
  have "within_limit cfg ?w" if g: "Groups_Find g (gw_registry w) = Some grp"
    and join: "CanJoin grp a \<lparr>px_Config = cfg, px_Source = source\<rparr> = Allowed" for grp
  proof (cases "?w = w")
    case False
    then have free: "g \<notin> set (gw_pending w)" and w: "?w = snd (submit (OpJoin g a t) g w)"
      using RequestJoin_inflight by blast+
    have "Suc (length (gr_Members grp)) \<le> max_members cfg (gr_Kind grp)"
      using CanJoin_room [OF join] lim g by (auto simp: within_limit_def intro: add_leD1)
    with lim g not_pending_no_joins [OF ok free] show ?thesis
      by (auto simp: within_limit_def w submit_fields)
  qed (use lim in simp)
  with lim show ?thesis
    by (auto simp: RequestJoinGroupWithPolicy_def Let_def split: option.split)
qed

lemma within_limit_complete:
  assumes ok: "world_ok faction w" and lim: "within_limit cfg w" and fl: "gw_inflight w = ops1 @ op # ops2"
  shows "within_limit cfg (snd (CompleteOp success op (w\<lparr>gw_inflight := ops1 @ ops2\<rparr>)))" (is "within_limit cfg ?w")
proof -
  note r = world_okD(1) [OF ok]
  note finds = Add_find [OF r] AddMember_find [OF r] RemoveMember_find [OF r] Remove_find [OF r]
  note op = inflight_ok [OF ok fl]
  have erase: "length (erase_member b xs) \<le> length xs" for b and xs :: "AgentGroupMembership list"
    by (induction xs) auto
  show ?thesis
    unfolding within_limit_def
  proof (intro allI impI)
    fix g grp assume g: "Groups_Find g (gw_registry ?w) = Some grp"
    have old: "length (gr_Members grp') + joins g (ops1 @ op # ops2) \<le> max_members cfg (gr_Kind grp')"
      if "Groups_Find g (gw_registry w) = Some grp'" for grp'
      using lim that fl by (simp only: within_limit_def)
    have less: "joins g (ops1 @ ops2) \<le> joins g (ops1 @ op # ops2)" by (cases op) auto
    show "length (gr_Members grp) + joins g (gw_inflight ?w) \<le> max_members cfg (gr_Kind grp)"
    proof (cases success)
      case False
      with g old [of grp] less show ?thesis by (simp add: CompleteOp_registry)
    next
      case True
      show ?thesis
      proof (cases op)
        case (OpCreate rec)
        then have "joins (gr_Id rec) (ops1 @ ops2) = 0" using fresh_no_joins [OF ok, of "gr_Id rec"] op fl by simp
        with OpCreate True g op old [of grp] show ?thesis
          by (auto simp: CompleteOp_registry finds split: if_splits)
      next
        case (OpJoin h a t)
        with op obtain grp' where grp': "Groups_Find h (gw_registry w) = Some grp'" "a \<notin> members grp'" by auto
        from OpJoin True g grp' have "grp = (if g = h then grp'\<lparr>gr_Members := gr_Members grp' @ [\<lparr>gm_Member = a, gm_JoinedAtMs = t\<rparr>]\<rparr> else grp)"
          and "g \<noteq> h \<Longrightarrow> Groups_Find g (gw_registry w) = Some grp"
          by (auto simp: CompleteOp_registry finds)
        with old [of grp] old [of grp'] grp' OpJoin show ?thesis by (cases "g = h") auto
      next
        case (OpLeave h a)
        with op obtain grp' where grp': "Groups_Find h (gw_registry w) = Some grp'" "a \<in> members grp'" by auto
        from OpLeave True g grp' have "grp = (if g = h then grp'\<lparr>gr_Members := erase_member a (gr_Members grp')\<rparr> else grp)"
          and "g \<noteq> h \<Longrightarrow> Groups_Find g (gw_registry w) = Some grp"
          by (auto simp: CompleteOp_registry finds)
        with old [of grp] old [of grp'] grp' OpLeave erase [of a "gr_Members grp'"] show ?thesis by (cases "g = h") auto
      next
        case (OpDissolve h)
        with True g old [of grp] show ?thesis by (auto simp: CompleteOp_registry finds split: if_splits)
      qed
    qed
  qed
qed

lemma within_limit_step:
  assumes "policy_step cfg faction sources w w'" and ok: "world_ok faction w" and "within_limit cfg w"
  shows "within_limit cfg w'"
  using assms(1)
proof (cases rule: policy_stepE)
  case (create kind m x y z res p)
  have "Groups_Find (gw_nextGroupId w) (gw_registry w) = None"
    using world_okD(2) [OF ok, of "gw_nextGroupId w"] by (cases "Groups_Find (gw_nextGroupId w) (gw_registry w)") auto
  then have "joins (gw_nextGroupId w) (gw_inflight w) = 0" by (rule fresh_no_joins [OF ok])
  then show ?thesis using assms(3) create
    by (auto simp: within_limit_def RequestCreateGroup_def split: if_splits)
next
  case (join source g a t)
  with within_limit_join [OF ok assms(3)] show ?thesis by simp
next
  case (leave source g a)
  then show ?thesis using assms(3)
    by (auto simp: within_limit_def RequestLeaveGroupWithPolicy_def RequestLeaveGroup_def submit_fields Let_def split: option.splits if_splits)
next
  case (dissolve source g)
  then show ?thesis using assms(3)
    by (auto simp: within_limit_def RequestDissolveGroupWithPolicy_def RequestDissolveGroup_def submit_fields split: option.splits if_splits)
next
  case (complete ops1 op ops2 success)
  with within_limit_complete [OF ok assms(3)] show ?thesis by simp
qed

lemma within_limit_init: "within_limit cfg (group_init n)"
  by (simp add: within_limit_def group_init_def LoadGroupIdSequence_def group_registry_empty_def Groups_Find_def)

lemma policy_reachable:
  assumes "(policy_step cfg faction sources)\<^sup>*\<^sup>* (group_init n) w"
  shows "world_ok faction w" and "within_limit cfg w"
proof -
  show "world_ok faction w" by (rule policy_world_ok [OF assms])
  from assms show "within_limit cfg w"
    by (induction rule: rtranclp_induct) (auto intro: within_limit_init within_limit_step policy_world_ok)
qed

text \<open>The configured limits are consistent, so a group that may dissolve is not full.\<close>

lemma configured_limits:
  assumes "looseMin < 2 ^ 31" and "looseMax < 2 ^ 31" and "stableMin < 2 ^ 31" and "stableMax < 2 ^ 31"
  shows "let cfg = ConfigurePolicy looseMin looseMax stableMin stableMax in
    1 \<le> pg_LooseMinMembers cfg \<and> pg_LooseMinMembers cfg \<le> pg_LooseMaxMembers cfg \<and>
    1 \<le> pg_StableMinMembers cfg \<and> pg_StableMinMembers cfg \<le> pg_StableMaxMembers cfg"
proof -
  have le: "(of_int a :: u32) \<le> of_int b" if "0 \<le> a" "a \<le> b" "b < 2 ^ 31" for a b
    using that by (simp add: word_le_def uint_word_of_int take_bit_eq_mod)
  show ?thesis
    using assms le [of 1] le [of looseMin looseMax] le [of 1 "looseMin"] le [of stableMin stableMax]
    by (auto simp: ConfigurePolicy_def Let_def)
qed

section \<open>Stable groups\<close>

text \<open>No operation in flight takes a member from the group.\<close>

definition only_grows :: "GroupId \<Rightarrow> GroupWorld \<Rightarrow> bool" where
  "only_grows g w = list_all (\<lambda>op. case op of OpLeave h a \<Rightarrow> h \<noteq> g | OpDissolve h \<Rightarrow> h \<noteq> g | _ \<Rightarrow> True) (gw_inflight w)"

definition keeps_group :: "GroupId \<Rightarrow> u64 set \<Rightarrow> GroupWorld \<Rightarrow> bool" where
  "keeps_group g ms w = (only_grows g w \<and>
     (\<exists>grp. Groups_Find g (gw_registry w) = Some grp \<and> gr_Kind grp = Stable \<and> ms \<subseteq> members grp))"

lemma keeps_group_step:
  assumes "policy_step cfg faction {AutomaticPolicy} w w'" and ok: "world_ok faction w" and keep: "keeps_group g ms w"
  shows "keeps_group g ms w'"
proof -
  from keep obtain grp where grp: "Groups_Find g (gw_registry w) = Some grp" "gr_Kind grp = Stable" "ms \<subseteq> members grp"
    and grows: "only_grows g w" by (auto simp: keeps_group_def)
  from assms(1) show ?thesis
  proof (cases rule: policy_stepE)
    case (create kind m x y z res p)
    with grp grows show ?thesis by (auto simp: keeps_group_def only_grows_def RequestCreateGroup_def split: if_splits)
  next
    case (join source h a t)
    with grp grows RequestJoin_inflight [of faction h a t w] show ?thesis
      by (auto simp: keeps_group_def only_grows_def RequestJoinGroupWithPolicy_def submit_fields Let_def split: option.splits if_splits)
  next
    case (leave source h a)
    with grp grows show ?thesis
      by (auto simp: keeps_group_def only_grows_def RequestLeaveGroupWithPolicy_def RequestLeaveGroup_def CanLeave_def
          submit_fields Let_def split: option.splits if_splits)
  next
    case (dissolve source h)
    with grp grows show ?thesis
      by (auto simp: keeps_group_def only_grows_def RequestDissolveGroupWithPolicy_def RequestDissolveGroup_def ShouldDissolve_def
          submit_fields split: option.splits if_splits)
  next
    case (complete ops1 op ops2 success)
    note r = world_okD(1) [OF ok]
    note finds = Add_find [OF r] AddMember_find [OF r] RemoveMember_find [OF r] Remove_find [OF r]
    note op = inflight_ok [OF ok complete(2)]
    have "only_grows g w'" using grows complete by (auto simp: only_grows_def)
    moreover have "\<exists>grp. Groups_Find g (gw_registry w') = Some grp \<and> gr_Kind grp = Stable \<and> ms \<subseteq> members grp"
      using grp grows op complete
    proof (cases op)
      case (OpJoin h a t)
      with grp complete show ?thesis by (cases "g = h") (auto simp: CompleteOp_registry finds)
    qed (use grp grows op complete in \<open>auto simp: only_grows_def CompleteOp_registry finds\<close>)
    ultimately show ?thesis by (simp add: keeps_group_def)
  qed
qed

section \<open>Properties\<close>

text \<open>
  C15: no group ever exceeds its limit: whatever requests are made under the policy and in whatever
  order their transactions complete or fail, a group has at most as many members as the
  configuration allows its kind, although the size is checked when a join is requested and the
  member is added only when the transaction commits.
\<close>

theorem group_size_limited:
  assumes "(policy_step cfg faction sources)\<^sup>*\<^sup>* (group_init n) w" and "Groups_Find g (gw_registry w) = Some grp"
  shows "length (gr_Members grp) \<le> unat (if gr_Kind grp = Loose then pg_LooseMaxMembers cfg else pg_StableMaxMembers cfg)"
proof -
  from policy_reachable(2) [OF assms(1)] assms(2)
  have "length (gr_Members grp) + joins g (gw_inflight w) \<le> max_members cfg (gr_Kind grp)"
    by (simp only: within_limit_def)
  then show ?thesis unfolding max_members_def by linarith
qed

text \<open>
  C16: the automatic policy never breaks up a stable group: from any reachable world in which no
  operation on the group is in flight, whatever requests the automatic policy makes and however
  their transactions end, the group stays registered and stable and keeps every member.
\<close>

theorem stable_group_protected:
  assumes "(policy_step cfg faction sources)\<^sup>*\<^sup>* (group_init n) w" and "(policy_step cfg faction {AutomaticPolicy})\<^sup>*\<^sup>* w w'"
    and "Groups_Find g (gw_registry w) = Some grp" and "gr_Kind grp = Stable" and "g \<notin> set (gw_pending w)"
  shows "\<exists>grp'. Groups_Find g (gw_registry w') = Some grp' \<and> gr_Kind grp' = Stable \<and>
    gm_Member ` set (gr_Members grp) \<subseteq> gm_Member ` set (gr_Members grp')"
proof -
  note ok = policy_reachable(1) [OF assms(1)]
  have "g \<notin> set (locked op)" if "op \<in> set (gw_inflight w)" for op
    using that world_okD(5) [OF ok] assms(5) by auto
  then have "only_grows g w" by (fastforce simp: only_grows_def list_all_iff split: GroupOp.splits)
  with assms(3,4) have start: "keeps_group g (members grp) w" by (simp add: keeps_group_def)
  from assms(2) have "keeps_group g (members grp) w' \<and> world_ok faction w'"
  proof (induction rule: rtranclp_induct)
    case (step u v)
    then show ?case using keeps_group_step policy_refines group_step_ok by metis
  qed (use start ok in simp)
  then show ?thesis by (auto simp: keeps_group_def members_def)
qed

section \<open>A stable group\<close>

definition ex_policy :: AgentGroupPolicyConfig where
  "ex_policy = ConfigurePolicy 2 5 2 8"

definition ex_stable1 :: GroupWorld where
  "ex_stable1 = snd (RequestCreateGroup Stable 0 (Fin 0) (Fin 0) (Fin 0) (Fin 1) Profile_Invalid (group_init 1))"

definition ex_stable2 :: GroupWorld where
  "ex_stable2 = snd (RequestJoinGroupWithPolicy ex_policy ex_faction 1 7 50 AutomaticPolicy (finish ex_stable1))"

definition ex_stable3 :: GroupWorld where
  "ex_stable3 = finish ex_stable2"

definition ex_stable_group :: AgentGroupRecord where
  "ex_stable_group = \<lparr>gr_Id = 1, gr_Kind = Stable, gr_ProfileId = Profile_Invalid, gr_TerritoryMapId = 0, gr_TerritoryX = Fin 0,
     gr_TerritoryY = Fin 0, gr_TerritoryZ = Fin 0, gr_Resources = Fin 1, gr_Version = 0,
     gr_Members = [\<lparr>gm_Member = 7, gm_JoinedAtMs = 50\<rparr>]\<rparr>"

lemma ex_stable_facts:
  "gw_inflight ex_stable1 \<noteq> []" "gw_inflight ex_stable2 \<noteq> []"
  "Groups_Find 1 (gw_registry ex_stable3) = Some ex_stable_group" "1 \<notin> set (gw_pending ex_stable3)"
  by code_simp+

lemma finish_policy: "gw_inflight w \<noteq> [] \<Longrightarrow> policy_step cfg faction sources w (finish w)"
  using policy_step.complete [of w "[]" "hd (gw_inflight w)" "tl (gw_inflight w)" cfg faction sources True]
  by (simp add: finish_def)

lemma ex_stable_reachable: "(policy_step ex_policy ex_faction UNIV)\<^sup>*\<^sup>* (group_init 1) ex_stable3"
proof -
  let ?S = "policy_step ex_policy ex_faction UNIV"
  have "?S (group_init 1) ex_stable1" unfolding ex_stable1_def by (rule policy_step.create)
  moreover have "?S ex_stable1 (finish ex_stable1)" by (rule finish_policy) (rule ex_stable_facts)
  moreover have "?S (finish ex_stable1) ex_stable2" unfolding ex_stable2_def by (rule policy_step.join) simp
  moreover have "?S ex_stable2 ex_stable3" unfolding ex_stable3_def by (rule finish_policy) (rule ex_stable_facts)
  ultimately show ?thesis by (meson converse_rtranclp_into_rtranclp rtranclp.rtrancl_refl)
qed

theorem group_size_limited_witness:
  "length (gr_Members ex_stable_group) \<le> unat (pg_StableMaxMembers ex_policy)"
  using group_size_limited [OF ex_stable_reachable ex_stable_facts(3)] by (simp add: ex_stable_group_def)

theorem stable_group_protected_witness:
  "\<exists>grp'. Groups_Find 1 (gw_registry (snd (RequestLeaveGroupWithPolicy ex_policy 1 7 AutomaticPolicy ex_stable3))) = Some grp' \<and>
    gr_Kind grp' = Stable \<and> 7 \<in> gm_Member ` set (gr_Members grp')"
proof -
  have "(policy_step ex_policy ex_faction {AutomaticPolicy})\<^sup>*\<^sup>* ex_stable3
      (snd (RequestLeaveGroupWithPolicy ex_policy 1 7 AutomaticPolicy ex_stable3))"
    by (intro r_into_rtranclp policy_step.leave) simp
  from stable_group_protected [OF ex_stable_reachable this ex_stable_facts(3) _ ex_stable_facts(4)] show ?thesis
    by (auto simp: ex_stable_group_def)
qed

end
