(* ===== verification/Coalitions.thy ===== *)
theory Coalitions
  imports Float_Arith Agent_Groups "HOL-Library.Multiset"
begin

text \<open>
  How coalitions form and are kept: the proposal of a group around a seed
  (\<open>Agent/CoalitionFormationSystem\<close>), the leave and dissolve decisions of an existing one
  (\<open>Agent/CoalitionMaintenanceSystem\<close>), and the parties a raid is split into
  (\<open>LivingRaidParty::Form\<close>). Squared distances are computed in binary32, operation by operation.
  Candidates are values; where \<open>std::sort\<close> meets equal elements the model keeps their order.
\<close>

section \<open>Distances\<close>

definition SquaredDistance :: "flt \<Rightarrow> flt \<Rightarrow> flt \<Rightarrow> flt" where
  "SquaredDistance dx dy dz = flt_add (flt_add (flt_mul dx dx) (flt_mul dy dy)) (flt_mul dz dz)"

section \<open>Formation\<close>

record CoalitionCandidate =
  cd_Id :: u64
  cd_MapId :: u32
  cd_X :: flt
  cd_Y :: flt
  cd_Z :: flt
  cd_CreatureEntry :: u32
  cd_WorldFaction :: u32

record CoalitionFormationProfile =
  cf_Id :: CoalitionFormationProfileId
  cf_Kind :: AgentGroupKind
  cf_CreatureEntry :: u32
  cf_RequiredWorldFaction :: u32
  cf_MinMembers :: u32
  cf_MaxMembers :: u32
  cf_FormationRadius :: flt

record CoalitionProposal =
  cp_Kind :: AgentGroupKind
  cp_TerritoryMapId :: u32
  cp_TerritoryX :: flt
  cp_TerritoryY :: flt
  cp_TerritoryZ :: flt
  cp_Members :: "u64 list"

definition candidate_distance :: "CoalitionCandidate \<Rightarrow> CoalitionCandidate \<Rightarrow> flt" where
  "candidate_distance seed c =
     SquaredDistance (flt_sub (cd_X c) (cd_X seed)) (flt_sub (cd_Y c) (cd_Y seed)) (flt_sub (cd_Z c) (cd_Z seed))"

definition Compatible :: "CoalitionFormationProfile \<Rightarrow> CoalitionCandidate \<Rightarrow> bool" where
  "Compatible profile c = (cd_CreatureEntry c = cf_CreatureEntry profile \<and> cd_WorldFaction c = cf_RequiredWorldFaction profile)"

definition IsNeighbor :: "flt \<Rightarrow> CoalitionCandidate \<Rightarrow> CoalitionCandidate \<Rightarrow> bool" where
  "IsNeighbor radiusSq seed c = (cd_MapId c = cd_MapId seed \<and> \<not> flt_lt radiusSq (candidate_distance seed c))"

definition SortedNeighbors :: "CoalitionFormationProfile \<Rightarrow> CoalitionCandidate \<Rightarrow> CoalitionCandidate list \<Rightarrow>
    CoalitionCandidate list" where
  "SortedNeighbors profile seed others =
     (let radiusSq = flt_mul (cf_FormationRadius profile) (cf_FormationRadius profile) in
      sort_key (\<lambda>c. (flt_key (candidate_distance seed c), cd_Id c)) (filter (IsNeighbor radiusSq seed) others))"

definition Neighbors :: "CoalitionFormationProfile \<Rightarrow> CoalitionCandidate \<Rightarrow> CoalitionCandidate list \<Rightarrow> CoalitionCandidate list" where
  "Neighbors profile seed others =
     (let neighbors = SortedNeighbors profile seed others in
      if (of_nat (length neighbors) :: u32) > cf_MaxMembers profile - 1
      then take (unat (cf_MaxMembers profile - 1)) neighbors else neighbors)"

text \<open>The loop over the seeds: those before the current one, the current one, those after it.\<close>

fun Propose_loop :: "CoalitionFormationProfile \<Rightarrow> CoalitionCandidate list \<Rightarrow> CoalitionCandidate list \<Rightarrow>
    CoalitionProposal option" where
  "Propose_loop profile before [] = None"
| "Propose_loop profile before (seed # after) =
     (let neighbors = Neighbors profile seed (before @ after) in
      if (of_nat (1 + length neighbors) :: u32) < cf_MinMembers profile
      then Propose_loop profile (before @ [seed]) after
      else Some \<lparr>cp_Kind = cf_Kind profile, cp_TerritoryMapId = cd_MapId seed, cp_TerritoryX = cd_X seed,
             cp_TerritoryY = cd_Y seed, cp_TerritoryZ = cd_Z seed, cp_Members = cd_Id seed # map cd_Id neighbors\<rparr>)"

definition Propose :: "CoalitionCandidate list \<Rightarrow> CoalitionFormationProfile \<Rightarrow> CoalitionProposal option" where
  "Propose candidates profile =
     (let compatible = filter (Compatible profile) candidates in
      if (of_nat (length compatible) :: u32) < cf_MinMembers profile then None
      else Propose_loop profile [] (sort_key cd_Id compatible))"

section \<open>Maintenance\<close>

record CoalitionMemberObservation =
  mo_MemberId :: u64
  mo_Materialized :: bool
  mo_Alive :: bool
  mo_MapId :: u32
  mo_X :: flt
  mo_Y :: flt
  mo_Z :: flt

record CoalitionMaintenanceProfile =
  cm_ProfileId :: CoalitionFormationProfileId
  cm_Kind :: AgentGroupKind
  cm_MinMembers :: u32
  cm_LeaveRadius :: flt

datatype CoalitionMaintenanceDecisionType = KeepCoalition | LeaveMember | DissolveGroup

record CoalitionMaintenanceDecision =
  md_Type :: CoalitionMaintenanceDecisionType
  md_Group :: GroupId
  md_Member :: u64

definition territory_distance :: "AgentGroupRecord \<Rightarrow> CoalitionMemberObservation \<Rightarrow> flt" where
  "territory_distance g o' = SquaredDistance (flt_sub (mo_X o') (gr_TerritoryX g)) (flt_sub (mo_Y o') (gr_TerritoryY g))
     (flt_sub (mo_Z o') (gr_TerritoryZ g))"

definition Strays :: "AgentGroupRecord \<Rightarrow> flt \<Rightarrow> CoalitionMemberObservation \<Rightarrow> bool" where
  "Strays g leaveRadiusSq o' = (mo_Materialized o' \<and> mo_Alive o' \<and> mo_MapId o' = gr_TerritoryMapId g \<and>
     \<not> flt_le (territory_distance g o') leaveRadiusSq)"

fun Farthest_loop :: "AgentGroupRecord \<Rightarrow> flt \<Rightarrow> (CoalitionMemberObservation \<times> flt) option \<Rightarrow>
    CoalitionMemberObservation list \<Rightarrow> (CoalitionMemberObservation \<times> flt) option" where
  "Farthest_loop g leaveRadiusSq best [] = best"
| "Farthest_loop g leaveRadiusSq best (o' # os) =
     (if \<not> Strays g leaveRadiusSq o' then Farthest_loop g leaveRadiusSq best os
      else let distanceSq = territory_distance g o';
               isNewFarthest = (case best of None \<Rightarrow> True
                 | Some (farthest, farthestSq) \<Rightarrow> flt_lt farthestSq distanceSq \<or>
                     flt_eq distanceSq farthestSq \<and> mo_MemberId o' < mo_MemberId farthest)
           in Farthest_loop g leaveRadiusSq (if isNewFarthest then Some (o', distanceSq) else best) os)"

definition EvaluateMaintenance :: "AgentGroupRecord \<Rightarrow> CoalitionMaintenanceProfile \<Rightarrow> CoalitionMemberObservation list \<Rightarrow>
    CoalitionMaintenanceDecision" where
  "EvaluateMaintenance g profile observations =
     (let decision = \<lparr>md_Type = KeepCoalition, md_Group = gr_Id g, md_Member = 0\<rparr> in
      if cm_ProfileId profile = Profile_Invalid then decision
      else if cm_Kind profile \<noteq> gr_Kind g then decision
      else if cm_ProfileId profile \<noteq> gr_ProfileId g then decision
      else if (of_nat (length (gr_Members g)) :: u32) < cm_MinMembers profile then decision\<lparr>md_Type := DissolveGroup\<rparr>
      else case Farthest_loop g (flt_mul (cm_LeaveRadius profile) (cm_LeaveRadius profile)) None observations of
        None \<Rightarrow> decision
      | Some (farthest, _) \<Rightarrow> decision\<lparr>md_Type := LeaveMember, md_Member := mo_MemberId farthest\<rparr>)"

section \<open>What a proposal contains\<close>

text \<open>The seed test of the loop, and the proposal around a seed, over all compatible candidates \<open>cs\<close>.\<close>

definition others_of :: "CoalitionCandidate \<Rightarrow> CoalitionCandidate list \<Rightarrow> CoalitionCandidate list" where
  "others_of seed cs = filter (\<lambda>c. cd_Id c \<noteq> cd_Id seed) cs"

definition enough :: "CoalitionFormationProfile \<Rightarrow> CoalitionCandidate list \<Rightarrow> CoalitionCandidate \<Rightarrow> bool" where
  "enough profile cs seed \<longleftrightarrow>
     \<not> (of_nat (1 + length (Neighbors profile seed (others_of seed cs))) :: u32) < cf_MinMembers profile"

definition proposal_around :: "CoalitionFormationProfile \<Rightarrow> CoalitionCandidate list \<Rightarrow> CoalitionCandidate \<Rightarrow> CoalitionProposal" where
  "proposal_around profile cs seed =
     \<lparr>cp_Kind = cf_Kind profile, cp_TerritoryMapId = cd_MapId seed, cp_TerritoryX = cd_X seed,
      cp_TerritoryY = cd_Y seed, cp_TerritoryZ = cd_Z seed,
      cp_Members = cd_Id seed # map cd_Id (Neighbors profile seed (others_of seed cs))\<rparr>"

lemma others_split:
  assumes "distinct (map cd_Id (before @ seed # after))"
  shows "others_of seed (before @ seed # after) = before @ after"
proof -
  have "filter (\<lambda>c. cd_Id c \<noteq> cd_Id seed) before = before" "filter (\<lambda>c. cd_Id c \<noteq> cd_Id seed) after = after"
    using assms by (simp_all add: filter_id_conv) (force simp: image_iff)+
  then show ?thesis by (simp add: others_of_def)
qed

lemma Propose_loop_find:
  assumes "distinct (map cd_Id (before @ seeds))"
  shows "Propose_loop profile before seeds =
    map_option (proposal_around profile (before @ seeds)) (find (enough profile (before @ seeds)) seeds)"
  using assms
proof (induction seeds arbitrary: before)
  case (Cons seed after)
  note o = others_split [OF Cons.prems]
  have "distinct (map cd_Id ((before @ [seed]) @ after))" using Cons.prems by simp
  note IH = Cons.IH [OF this]
  show ?case
    using IH by (simp add: Let_def enough_def proposal_around_def o [simplified])
qed simp

definition compatible_candidates :: "CoalitionFormationProfile \<Rightarrow> CoalitionCandidate list \<Rightarrow> CoalitionCandidate list" where
  "compatible_candidates profile candidates = sort_key cd_Id (filter (Compatible profile) candidates)"

lemma distinct_map_sort_key: "distinct (map f xs) \<Longrightarrow> distinct (map f (sort_key k xs))"
  by (simp add: distinct_map)

lemma compatible_distinct:
  "distinct (map cd_Id candidates) \<Longrightarrow> distinct (map cd_Id (compatible_candidates profile candidates))"
  unfolding compatible_candidates_def by (intro distinct_map_sort_key distinct_map_filter)

lemma set_compatible [simp]:
  "set (compatible_candidates profile candidates) = {c \<in> set candidates. Compatible profile c}"
  by (simp add: compatible_candidates_def)

lemma SortedNeighbors_distinct:
  "distinct (map cd_Id others) \<Longrightarrow> distinct (map cd_Id (SortedNeighbors profile seed others))"
  unfolding SortedNeighbors_def Let_def by (intro distinct_map_sort_key distinct_map_filter)

lemma set_SortedNeighbors: "set (SortedNeighbors profile seed others) =
    {c \<in> set others. IsNeighbor (flt_mul (cf_FormationRadius profile) (cf_FormationRadius profile)) seed c}"
  by (simp add: SortedNeighbors_def)

lemma Neighbors_take:
  assumes "length others < 2 ^ 32" and "1 \<le> cf_MaxMembers profile"
  shows "Neighbors profile seed others = take (unat (cf_MaxMembers profile) - 1) (SortedNeighbors profile seed others)"
proof -
  have len: "length (SortedNeighbors profile seed others) < 2 ^ 32"
  proof -
    have "length (SortedNeighbors profile seed others) \<le> length others" by (simp add: SortedNeighbors_def)
    with assms(1) show ?thesis by linarith
  qed
  have max: "unat (cf_MaxMembers profile - 1) = unat (cf_MaxMembers profile) - 1"
    using assms(2) by (simp add: unat_sub_if' word_le_nat_alt)
  show ?thesis
    using len by (auto simp: Neighbors_def Let_def word_less_nat_alt unat_of_nat_u32 max)
qed

text \<open>The compatible candidates near a seed.\<close>

definition near_seed :: "CoalitionFormationProfile \<Rightarrow> CoalitionCandidate list \<Rightarrow> CoalitionCandidate \<Rightarrow> CoalitionCandidate set" where
  "near_seed profile candidates seed =
     {c \<in> set candidates. Compatible profile c \<and> cd_Id c \<noteq> cd_Id seed \<and>
        IsNeighbor (flt_mul (cf_FormationRadius profile) (cf_FormationRadius profile)) seed c}"

definition party_size :: "CoalitionFormationProfile \<Rightarrow> CoalitionCandidate list \<Rightarrow> CoalitionCandidate \<Rightarrow> nat" where
  "party_size profile candidates seed = min (unat (cf_MaxMembers profile)) (1 + card (near_seed profile candidates seed))"

definition closer :: "CoalitionCandidate \<Rightarrow> CoalitionCandidate \<Rightarrow> CoalitionCandidate \<Rightarrow> bool" where
  "closer seed c d \<longleftrightarrow> (flt_key (candidate_distance seed c), cd_Id c) < (flt_key (candidate_distance seed d), cd_Id d)"

lemma sorted_key_take_drop:
  assumes "sorted (map k xs)" and "c \<in> set (take n xs)" and "d \<in> set (drop n xs)"
  shows "k c \<le> k d"
proof -
  have "sorted (map k (take n xs) @ map k (drop n xs))" using assms(1) by (simp add: map_append [symmetric] del: map_append)
  then show ?thesis using assms(2,3) by (simp add: sorted_append)
qed

lemma of_nat_less_u32: "n < 2 ^ 32 \<Longrightarrow> (of_nat n :: u32) < m \<longleftrightarrow> n < unat m"
  by (simp add: word_less_nat_alt unat_of_nat_u32)

lemma seed_facts:
  fixes profile candidates seed
  defines "cs \<equiv> compatible_candidates profile candidates"
    and "ns \<equiv> Neighbors profile seed (others_of seed (compatible_candidates profile candidates))"
  assumes "distinct (map cd_Id candidates)" and "length candidates + 1 < 2 ^ 32" and "1 \<le> cf_MaxMembers profile"
  shows "set ns \<subseteq> near_seed profile candidates seed \<and> 1 + length ns = party_size profile candidates seed \<and>
    distinct (cd_Id seed # map cd_Id ns) \<and> (\<forall>c \<in> set ns. \<forall>d \<in> near_seed profile candidates seed - set ns. \<not> closer seed d c) \<and>
    (enough profile cs seed \<longleftrightarrow> unat (cf_MinMembers profile) \<le> party_size profile candidates seed)"
proof -
  let ?o = "others_of seed cs"
  let ?s = "SortedNeighbors profile seed ?o"
  let ?key = "\<lambda>c. (flt_key (candidate_distance seed c), cd_Id c)"
  have lc: "length cs \<le> length candidates" by (simp add: cs_def compatible_candidates_def)
  have lo: "length ?o \<le> length candidates" using lc by (simp add: others_of_def order.trans [OF length_filter_le])
  then have ns: "ns = take (unat (cf_MaxMembers profile) - 1) ?s"
    unfolding ns_def cs_def using assms(4,5) by (intro Neighbors_take) (simp_all add: cs_def)
  have d: "distinct (map cd_Id ?o)" unfolding others_of_def cs_def by (intro distinct_map_filter compatible_distinct assms(3))
  then have ds: "distinct (map cd_Id ?s)" by (rule SortedNeighbors_distinct)
  have set_s: "set ?s = near_seed profile candidates seed"
    by (auto simp: set_SortedNeighbors others_of_def cs_def near_seed_def)
  have "card (near_seed profile candidates seed) = length ?s"
    using ds distinct_card [of ?s] by (simp add: set_s distinct_map)
  moreover have "length ns = min (length ?s) (unat (cf_MaxMembers profile) - 1)" by (simp add: ns)
  moreover have "1 \<le> unat (cf_MaxMembers profile)" using assms(5) by (simp add: word_le_nat_alt)
  ultimately have size: "1 + length ns = party_size profile candidates seed"
    unfolding party_size_def by linarith
  have sub: "set ns \<subseteq> near_seed profile candidates seed" using set_take_subset [of _ ?s] by (simp add: ns set_s)
  have dist: "distinct (map cd_Id ns)" using ds by (simp add: ns take_map [symmetric] distinct_take)
  then have dist: "distinct (cd_Id seed # map cd_Id ns)" using sub by (auto simp: near_seed_def)
  have "?key c \<le> ?key d'" if "c \<in> set ns" "d' \<in> near_seed profile candidates seed - set ns" for c d'
  proof -
    have "sorted (map ?key ?s)" unfolding SortedNeighbors_def Let_def by (rule sorted_sort_key)
    moreover have "d' \<in> set (drop (unat (cf_MaxMembers profile) - 1) ?s)"
      using that(2) set_s by (metis DiffE append_take_drop_id in_set_conv_decomp ns set_append UnE)
    ultimately show ?thesis
      using that(1) sorted_key_take_drop [of ?key ?s c "unat (cf_MaxMembers profile) - 1" d'] by (simp only: ns)
  qed
  then have near: "\<forall>c \<in> set ns. \<forall>d \<in> near_seed profile candidates seed - set ns. \<not> closer seed d c"
    unfolding closer_def by (meson linorder_not_less)
  have "length ?s \<le> length ?o" by (simp add: SortedNeighbors_def)
  with lo have "length ns \<le> length candidates" by (simp add: ns)
  then have "enough profile cs seed \<longleftrightarrow> unat (cf_MinMembers profile) \<le> 1 + length ns"
    using assms(4) of_nat_less_u32 [of "1 + length ns" "cf_MinMembers profile"] by (simp add: enough_def cs_def ns_def not_less)
  with size sub dist near show ?thesis by simp
qed

lemma find_least_Some:
  assumes "find P xs = Some x" and "sorted (map k xs)"
  shows "x \<in> set xs \<and> P x \<and> (\<forall>y \<in> set xs. k y < k x \<longrightarrow> \<not> P y)"
  using assms by (induction xs) (auto split: if_splits simp: not_less [symmetric])

lemma Propose_exact:
  assumes "distinct (map cd_Id candidates)" and "length candidates + 1 < 2 ^ 32" and "1 \<le> cf_MaxMembers profile"
  shows "case Propose candidates profile of
    None \<Rightarrow> \<forall>s \<in> set candidates. Compatible profile s \<longrightarrow> party_size profile candidates s < unat (cf_MinMembers profile)
  | Some p \<Rightarrow> \<exists>s ns. s \<in> set candidates \<and> Compatible profile s \<and> cp_Members p = cd_Id s # map cd_Id ns \<and>
      distinct (cp_Members p) \<and> set ns \<subseteq> near_seed profile candidates s \<and>
      length (cp_Members p) = party_size profile candidates s \<and> unat (cf_MinMembers profile) \<le> length (cp_Members p) \<and>
      (\<forall>c \<in> set ns. \<forall>d \<in> near_seed profile candidates s - set ns. \<not> closer s d c) \<and>
      (\<forall>e \<in> set candidates. Compatible profile e \<and> cd_Id e < cd_Id s \<longrightarrow>
        party_size profile candidates e < unat (cf_MinMembers profile))"
proof -
  let ?cs = "compatible_candidates profile candidates"
  note facts = seed_facts [OF assms]
  have loop: "Propose_loop profile [] ?cs = map_option (proposal_around profile ?cs) (find (enough profile ?cs) ?cs)"
    using Propose_loop_find [of "[]" ?cs profile] compatible_distinct [OF assms(1)] by simp
  have few: "party_size profile candidates s \<le> length ?cs" if "s \<in> set candidates" "Compatible profile s" for s
  proof -
    have "near_seed profile candidates s \<subseteq> set ?cs - {s}" by (auto simp: near_seed_def)
    then have "card (near_seed profile candidates s) \<le> card (set ?cs - {s})" by (intro card_mono) auto
    also have "\<dots> = card (set ?cs) - 1" using that by simp
    also have "\<dots> \<le> length ?cs - 1" using card_length [of ?cs] by simp
    finally have "card (near_seed profile candidates s) \<le> length ?cs - 1" .
    moreover have "s \<in> set ?cs" using that by simp
    then have "0 < length ?cs" by (rule length_pos_if_in_set)
    ultimately show ?thesis unfolding party_size_def by linarith
  qed
  have len: "length (filter (Compatible profile) candidates) = length ?cs" by (simp add: compatible_candidates_def)
  have "length ?cs \<le> length candidates" by (simp add: compatible_candidates_def)
  then have small: "(of_nat (length ?cs) :: u32) < cf_MinMembers profile \<longleftrightarrow> length ?cs < unat (cf_MinMembers profile)"
    using assms(2) by (intro of_nat_less_u32) simp
  have P: "Propose candidates profile = (if length ?cs < unat (cf_MinMembers profile) then None
      else map_option (proposal_around profile ?cs) (find (enough profile ?cs) ?cs))"
    using loop small by (simp add: Propose_def len compatible_candidates_def [symmetric] Let_def)
  show ?thesis
  proof (cases "Propose candidates profile")
    case None
    have "party_size profile candidates s < unat (cf_MinMembers profile)" if s: "s \<in> set candidates" "Compatible profile s" for s
    proof (cases "length ?cs < unat (cf_MinMembers profile)")
      case True
      then show ?thesis using few [OF s] by simp
    next
      case False
      then have "find (enough profile ?cs) ?cs = None" using None P by simp
      then have "\<not> enough profile ?cs s" using s by (simp add: find_None_iff)
      then show ?thesis using facts [of s] by simp
    qed
    with None show ?thesis by simp
  next
    case (Some p)
    then obtain s where s: "find (enough profile ?cs) ?cs = Some s" and p: "p = proposal_around profile ?cs s"
      using P by (auto split: if_splits)
    have "sorted (map cd_Id ?cs)" by (simp add: compatible_candidates_def)
    note least = find_least_Some [OF s this]
    let ?ns = "Neighbors profile s (others_of s ?cs)"
    have "cp_Members p = cd_Id s # map cd_Id ?ns" by (simp add: p proposal_around_def)
    moreover have "\<forall>e \<in> set candidates. Compatible profile e \<and> cd_Id e < cd_Id s \<longrightarrow>
        party_size profile candidates e < unat (cf_MinMembers profile)"
      using least facts by (auto simp: not_le)
    ultimately show ?thesis
      using facts [of s] least Some by (simp only: option.case) (rule exI [of _ s], rule exI [of _ ?ns], auto)
  qed
qed

section \<open>What a maintenance pass decides\<close>

text \<open>Finite coordinates never produce a NaN distance, though the distance may overflow to infinity.\<close>

lemma SquaredDistance_nonneg: "dx \<noteq> NaN \<Longrightarrow> dy \<noteq> NaN \<Longrightarrow> dz \<noteq> NaN \<Longrightarrow> nonneg (SquaredDistance dx dy dz)"
  unfolding SquaredDistance_def by (intro add_nonneg square_nonneg)

definition has_position :: "CoalitionMemberObservation \<Rightarrow> bool" where
  "has_position o' \<longleftrightarrow> isfinite (mo_X o') \<and> isfinite (mo_Y o') \<and> isfinite (mo_Z o')"

definition has_territory :: "AgentGroupRecord \<Rightarrow> bool" where
  "has_territory g \<longleftrightarrow> isfinite (gr_TerritoryX g) \<and> isfinite (gr_TerritoryY g) \<and> isfinite (gr_TerritoryZ g)"

lemma territory_distance_nonneg: "has_territory g \<Longrightarrow> has_position o' \<Longrightarrow> nonneg (territory_distance g o')"
  unfolding territory_distance_def has_territory_def has_position_def
  by (intro SquaredDistance_nonneg sub_finite) simp_all

text \<open>\<open>p\<close> strays further than \<open>o'\<close>, or equally far with a lower id.\<close>

definition further :: "AgentGroupRecord \<Rightarrow> CoalitionMemberObservation \<Rightarrow> CoalitionMemberObservation \<Rightarrow> bool" where
  "further g p o' \<longleftrightarrow> flt_lt (territory_distance g o') (territory_distance g p) \<or>
     flt_eq (territory_distance g p) (territory_distance g o') \<and> mo_MemberId p < mo_MemberId o'"

definition stray_key :: "AgentGroupRecord \<Rightarrow> CoalitionMemberObservation \<Rightarrow> (int \<times> rat) \<times> int" where
  "stray_key g o' = (flt_key (territory_distance g o'), - uint (mo_MemberId o'))"

lemma further_key:
  assumes "nonneg (territory_distance g p)" and "nonneg (territory_distance g o')"
  shows "further g p o' \<longleftrightarrow> stray_key g o' < stray_key g p"
proof -
  have "territory_distance g p \<noteq> NaN" "territory_distance g o' \<noteq> NaN" using assms by auto
  then show ?thesis
    by (auto simp: further_def stray_key_def flt_key_less [symmetric] flt_key_eq [symmetric] word_less_def)
qed

lemma Farthest_loop_key:
  assumes "\<forall>p \<in> set os. nonneg (territory_distance g p)"
    and "\<forall>b. best = Some b \<longrightarrow> snd b = territory_distance g (fst b) \<and> nonneg (snd b)"
  shows "case Farthest_loop g r best os of
      None \<Rightarrow> best = None \<and> (\<forall>p \<in> set os. \<not> Strays g r p)
    | Some (p, d) \<Rightarrow> d = territory_distance g p \<and> (p \<in> set os \<and> Strays g r p \<or> best = Some (p, d)) \<and>
        (\<forall>q \<in> set os. Strays g r q \<longrightarrow> stray_key g q \<le> stray_key g p) \<and>
        (\<forall>b. best = Some b \<longrightarrow> stray_key g (fst b) \<le> stray_key g p)"
  using assms
proof (induction os arbitrary: best)
  case Nil
  then show ?case by (auto split: option.splits)
next
  case (Cons q os)
  show ?case
  proof (cases "Strays g r q")
    case False
    have p: "\<forall>p \<in> set os. nonneg (territory_distance g p)" using Cons.prems(1) by simp
    show ?thesis using Cons.IH [OF p Cons.prems(2)] False by (cases "Farthest_loop g r best os") auto
  next
    case True
    let ?new = "case best of None \<Rightarrow> True | Some (p, d) \<Rightarrow> further g q p"
    let ?best = "if ?new then Some (q, territory_distance g q) else best"
    have step: "Farthest_loop g r best (q # os) = Farthest_loop g r ?best os"
      using True Cons.prems(2) by (auto simp: Let_def further_def split: option.splits)
    have new: "best = Some b \<Longrightarrow> ?new \<longleftrightarrow> stray_key g (fst b) < stray_key g q" for b
      using Cons.prems by (cases b) (simp add: further_key)
    have IH: "case Farthest_loop g r ?best os of
      None \<Rightarrow> ?best = None \<and> (\<forall>p \<in> set os. \<not> Strays g r p)
    | Some (p, d) \<Rightarrow> d = territory_distance g p \<and> (p \<in> set os \<and> Strays g r p \<or> ?best = Some (p, d)) \<and>
        (\<forall>q \<in> set os. Strays g r q \<longrightarrow> stray_key g q \<le> stray_key g p) \<and>
        (\<forall>b. ?best = Some b \<longrightarrow> stray_key g (fst b) \<le> stray_key g p)"
      using Cons.prems by (intro Cons.IH) auto
    show ?thesis
    proof (cases best)
      case None
      then show ?thesis using IH step True by (auto split: option.splits)
    next
      case (Some b)
      then show ?thesis
        using IH step True new [OF Some] by (cases "further g q (fst b)") (auto simp: not_less split: option.splits prod.splits)
    qed
  qed
qed

definition ProfileFits :: "AgentGroupRecord \<Rightarrow> CoalitionMaintenanceProfile \<Rightarrow> bool" where
  "ProfileFits g profile \<longleftrightarrow> cm_ProfileId profile \<noteq> Profile_Invalid \<and> cm_Kind profile = gr_Kind g \<and>
     cm_ProfileId profile = gr_ProfileId g"

definition LeaveRadiusSq :: "CoalitionMaintenanceProfile \<Rightarrow> flt" where
  "LeaveRadiusSq profile = flt_mul (cm_LeaveRadius profile) (cm_LeaveRadius profile)"

lemma EvaluateMaintenance_exact:
  assumes "has_territory g" and "\<forall>p \<in> set os. has_position p"
  shows "md_Group (EvaluateMaintenance g profile os) = gr_Id g \<and>
    (case md_Type (EvaluateMaintenance g profile os) of
      DissolveGroup \<Rightarrow> ProfileFits g profile \<and> (of_nat (length (gr_Members g)) :: u32) < cm_MinMembers profile
    | LeaveMember \<Rightarrow> ProfileFits g profile \<and> \<not> (of_nat (length (gr_Members g)) :: u32) < cm_MinMembers profile \<and>
        (\<exists>p \<in> set os. Strays g (LeaveRadiusSq profile) p \<and> mo_MemberId p = md_Member (EvaluateMaintenance g profile os) \<and>
          (\<forall>q \<in> set os. Strays g (LeaveRadiusSq profile) q \<longrightarrow> \<not> further g q p))
    | KeepCoalition \<Rightarrow> \<not> ProfileFits g profile \<or>
        \<not> (of_nat (length (gr_Members g)) :: u32) < cm_MinMembers profile \<and> (\<forall>p \<in> set os. \<not> Strays g (LeaveRadiusSq profile) p))"
proof -
  have d: "\<forall>p \<in> set os. nonneg (territory_distance g p)" using assms by (auto intro: territory_distance_nonneg)
  have loop: "case Farthest_loop g (LeaveRadiusSq profile) None os of
      None \<Rightarrow> \<forall>p \<in> set os. \<not> Strays g (LeaveRadiusSq profile) p
    | Some (p, d) \<Rightarrow> p \<in> set os \<and> Strays g (LeaveRadiusSq profile) p \<and>
        (\<forall>q \<in> set os. Strays g (LeaveRadiusSq profile) q \<longrightarrow> \<not> further g q p)"
    using Farthest_loop_key [OF d, of None "LeaveRadiusSq profile"] d
    by (auto simp: further_key not_less split: option.splits)
  show ?thesis
  proof (cases "ProfileFits g profile \<and> \<not> (of_nat (length (gr_Members g)) :: u32) < cm_MinMembers profile")
    case False
    then show ?thesis by (auto simp: EvaluateMaintenance_def ProfileFits_def Let_def)
  next
    case True
    then show ?thesis using loop
      by (auto simp: EvaluateMaintenance_def ProfileFits_def LeaveRadiusSq_def [symmetric] Let_def split: option.splits)
  qed
qed

section \<open>Properties\<close>

text \<open>
  C25: A coalition is proposed exactly when some compatible candidate has enough compatible
  neighbours within the formation radius; then the candidate of the lowest id that has them is
  the seed, the group is the seed and its nearest neighbours up to the maximum (ties go to the
  lower id), nobody is listed twice, and the size lies between minimum and maximum.
\<close>
theorem coalition_proposal_exact:
  assumes "distinct (map cd_Id candidates)" and "length candidates + 1 < 2 ^ 32" and "1 \<le> cf_MaxMembers profile"
  shows "case Propose candidates profile of
    None \<Rightarrow> \<forall>s \<in> set candidates. Compatible profile s \<longrightarrow> party_size profile candidates s < unat (cf_MinMembers profile)
  | Some p \<Rightarrow> \<exists>s ns. s \<in> set candidates \<and> Compatible profile s \<and> cp_Members p = cd_Id s # map cd_Id ns \<and>
      distinct (cp_Members p) \<and> set ns \<subseteq> near_seed profile candidates s \<and>
      length (cp_Members p) = party_size profile candidates s \<and> unat (cf_MinMembers profile) \<le> length (cp_Members p) \<and>
      (\<forall>c \<in> set ns. \<forall>d \<in> near_seed profile candidates s - set ns. \<not> closer s d c) \<and>
      (\<forall>e \<in> set candidates. Compatible profile e \<and> cd_Id e < cd_Id s \<longrightarrow>
        party_size profile candidates e < unat (cf_MinMembers profile))"
  using assms by (rule Propose_exact)

definition sample_candidate :: "u64 \<Rightarrow> rat \<Rightarrow> CoalitionCandidate" where
  "sample_candidate i x = \<lparr>cd_Id = i, cd_MapId = 0, cd_X = Fin x, cd_Y = Fin 0, cd_Z = Fin 0, cd_CreatureEntry = 7, cd_WorldFaction = 1\<rparr>"

definition sample_profile :: CoalitionFormationProfile where
  "sample_profile = \<lparr>cf_Id = Profile_Invalid, cf_Kind = Loose, cf_CreatureEntry = 7, cf_RequiredWorldFaction = 1,
     cf_MinMembers = 2, cf_MaxMembers = 2, cf_FormationRadius = Fin 10\<rparr>"

definition sample_candidates :: "CoalitionCandidate list" where
  "sample_candidates = [sample_candidate 4 9, sample_candidate 3 5, sample_candidate 1 6, sample_candidate 2 30]"

lemmas sample_defs = sample_candidates_def sample_candidate_def sample_profile_def

lemma sample_proposal: "map_option cp_Members (Propose sample_candidates sample_profile) = Some [1, 3]"
  by (simp add: Propose_def sample_defs Compatible_def Let_def sort_key_def insort_key.simps Neighbors_def SortedNeighbors_def
      IsNeighbor_def candidate_distance_def SquaredDistance_def sub_in_def flt_le_def word_le_nat_alt word_less_nat_alt)

theorem coalition_proposal_exact_witness:
  "\<exists>s ns. s \<in> set sample_candidates \<and> [1, 3] = cd_Id s # map cd_Id ns \<and> ns \<noteq> [] \<and>
     (\<forall>c \<in> set ns. \<forall>d \<in> near_seed sample_profile sample_candidates s - set ns. \<not> closer s d c)"
proof -
  have h: "distinct (map cd_Id sample_candidates)" "length sample_candidates + 1 < 2 ^ 32" "1 \<le> cf_MaxMembers sample_profile"
    by (simp_all add: sample_candidates_def sample_candidate_def sample_profile_def)
  obtain p where p: "Propose sample_candidates sample_profile = Some p" "cp_Members p = [1, 3]" using sample_proposal by auto
  from coalition_proposal_exact [OF h] have "\<exists>s ns. s \<in> set sample_candidates \<and> [1, 3] = cd_Id s # map cd_Id ns \<and>
     (\<forall>c \<in> set ns. \<forall>d \<in> near_seed sample_profile sample_candidates s - set ns. \<not> closer s d c)"
    unfolding p(1) option.case p(2) by (elim exE conjE) (intro exI conjI)
  then show ?thesis by (elim exE) (intro exI conjI, auto)
qed

text \<open>
  For finite coordinates a maintenance pass decides exactly this: an ill-fitting profile or a group
  nobody has strayed from keeps everything; a group below the minimum is dissolved, whoever strayed;
  otherwise one member leaves, the straying observation (materialized, alive, on the map of the
  territory, beyond the leave radius) that no other exceeds in distance, with the lowest id among
  equally distant ones.
\<close>
theorem coalition_maintenance_exact:
  assumes "has_territory g" and "\<forall>p \<in> set os. has_position p"
  shows "md_Group (EvaluateMaintenance g profile os) = gr_Id g \<and>
    (case md_Type (EvaluateMaintenance g profile os) of
      DissolveGroup \<Rightarrow> ProfileFits g profile \<and> (of_nat (length (gr_Members g)) :: u32) < cm_MinMembers profile
    | LeaveMember \<Rightarrow> ProfileFits g profile \<and> \<not> (of_nat (length (gr_Members g)) :: u32) < cm_MinMembers profile \<and>
        (\<exists>p \<in> set os. Strays g (LeaveRadiusSq profile) p \<and> mo_MemberId p = md_Member (EvaluateMaintenance g profile os) \<and>
          (\<forall>q \<in> set os. Strays g (LeaveRadiusSq profile) q \<longrightarrow> \<not> further g q p))
    | KeepCoalition \<Rightarrow> \<not> ProfileFits g profile \<or>
        \<not> (of_nat (length (gr_Members g)) :: u32) < cm_MinMembers profile \<and> (\<forall>p \<in> set os. \<not> Strays g (LeaveRadiusSq profile) p))"
  using assms by (rule EvaluateMaintenance_exact)

definition sample_group :: AgentGroupRecord where
  "sample_group = \<lparr>gr_Id = 9, gr_Kind = Loose, gr_ProfileId = WolfLoose, gr_TerritoryMapId = 0, gr_TerritoryX = Fin 0,
     gr_TerritoryY = Fin 0, gr_TerritoryZ = Fin 0, gr_Resources = Fin 0, gr_Version = 0, gr_Members = []\<rparr>"

definition sample_maintenance :: CoalitionMaintenanceProfile where
  "sample_maintenance = \<lparr>cm_ProfileId = WolfLoose, cm_Kind = Loose, cm_MinMembers = 0, cm_LeaveRadius = Fin 10\<rparr>"

definition sample_observation :: "u64 \<Rightarrow> rat \<Rightarrow> CoalitionMemberObservation" where
  "sample_observation i x = \<lparr>mo_MemberId = i, mo_Materialized = True, mo_Alive = True, mo_MapId = 0,
     mo_X = Fin x, mo_Y = Fin 0, mo_Z = Fin 0\<rparr>"

definition sample_observations :: "CoalitionMemberObservation list" where
  "sample_observations = [sample_observation 5 11, sample_observation 3 20, sample_observation 2 (- 20), sample_observation 1 9]"

lemma sample_decision:
  "EvaluateMaintenance sample_group sample_maintenance sample_observations = \<lparr>md_Type = LeaveMember, md_Group = 9, md_Member = 2\<rparr>"
  by (simp add: EvaluateMaintenance_def sample_group_def sample_maintenance_def sample_observations_def sample_observation_def
      Strays_def territory_distance_def SquaredDistance_def sub_in_def flt_le_def Let_def)

theorem coalition_maintenance_exact_witness:
  "\<exists>p \<in> set sample_observations. Strays sample_group (LeaveRadiusSq sample_maintenance) p \<and> mo_MemberId p = 2 \<and>
     (\<forall>q \<in> set sample_observations. Strays sample_group (LeaveRadiusSq sample_maintenance) q \<longrightarrow> \<not> further sample_group q p)"
proof -
  have "has_territory sample_group" "\<forall>p \<in> set sample_observations. has_position p"
    by (simp_all add: sample_group_def sample_observations_def sample_observation_def has_territory_def has_position_def)
  from coalition_maintenance_exact [OF this, of sample_maintenance] show ?thesis by (simp add: sample_decision)
qed

end
