(* ===== verification/Group_Intents.thy ===== *)
theory Group_Intents
  imports Coalitions Agent_Memory Action_System
begin

text \<open>
  What a group of agents intends and what it asks of its members: the formation slots
  (\<open>Agent/GroupMemberFormation.h\<close>), the regroup and roam intents and their projection on the
  members (\<open>Agent/AgentGroupIntentSystem.cpp\<close>, \<open>Agent/AgentGroupIntentProjector.cpp\<close>), the choice
  of the prey and its projection (\<open>Agent/HuntIntentSystem.cpp\<close>, \<open>Agent/HuntIntentProjector.cpp\<close>) and
  the simulation of the resources of a group (\<open>Agent/AgentGroupSimulationSystem.cpp\<close>). Floats are
  binary32; the sine and cosine of the C library are the parameters \<open>sinf\<close> and \<open>cosf\<close>.
\<close>

section \<open>Profiles and intents\<close>

record AgentGroupCoordinationProfile =
  gp_ProfileId :: CoalitionFormationProfileId
  gp_Kind :: AgentGroupKind
  gp_RegroupEnabled :: bool
  gp_RegroupRadius :: flt
  gp_RoamEnabled :: bool
  gp_RoamDistance :: flt
  gp_RoamIntervalMs :: u32
  gp_RoamArrivalRadius :: flt
  gp_MemberFormationRadius :: flt
  gp_HuntEnabled :: bool
  gp_HuntTargetCreatureEntry :: u32
  gp_HuntAcquisitionRadius :: flt
  gp_HuntObservationMaxAgeMs :: u32

datatype AgentGroupIntentType = Intent_None | Regroup | Roam

fun AgentGroupIntentType_ToString :: "AgentGroupIntentType \<Rightarrow> string" where
  "AgentGroupIntentType_ToString Intent_None = ''NONE''"
| "AgentGroupIntentType_ToString Regroup = ''REGROUP''"
| "AgentGroupIntentType_ToString Roam = ''ROAM''"

record AgentGroupIntent =
  it_Group :: GroupId
  it_Type :: AgentGroupIntentType
  it_MapId :: u32
  it_X :: flt
  it_Y :: flt
  it_Z :: flt

record GroupMemberActionProposal =
  ga_SourceGroup :: GroupId
  ga_Member :: u64
  ga_SourceIntent :: AgentGroupIntentType
  ga_MapId :: u32
  ga_X :: flt
  ga_Y :: flt
  ga_Z :: flt

fun CoalitionFormationProfileId_value :: "CoalitionFormationProfileId \<Rightarrow> u64" where
  "CoalitionFormationProfileId_value Profile_Invalid = 0"
| "CoalitionFormationProfileId_value WolfLoose = 1"
| "CoalitionFormationProfileId_value DefiasLoose = 2"

section \<open>Formation\<close>

record FormationSlot =
  sl_Angle :: flt
  sl_Radius :: flt
  sl_X :: flt
  sl_Y :: flt

definition MemberSpacing :: flt where "MemberSpacing = Fin 3"
definition FormationArrivalRadius :: flt where "FormationArrivalRadius = Fin (3 / 4)"

text \<open>\<open>std::min(a, b)\<close>.\<close>

definition flt_min :: "flt \<Rightarrow> flt \<Rightarrow> flt" where
  "flt_min a b = (if flt_lt b a then b else a)"

definition GetSlot :: "(flt \<Rightarrow> flt) \<Rightarrow> (flt \<Rightarrow> flt) \<Rightarrow> u64 \<Rightarrow> u64 list \<Rightarrow> flt \<Rightarrow> FormationSlot option" where
  "GetSlot sinf cosf actor roster maxRadius =
     (if actor = 0 \<or> \<not> isfinite maxRadius \<or> flt_le maxRadius (Fin 0) then None
      else let roster = remdups_adj (sort (filter (\<lambda>a. a \<noteq> 0) roster));
               member = length (takeWhile (\<lambda>a. a < actor) roster);
               size = of_word_in Binary32 (of_nat (length roster) :: u64)
           in if member = length roster \<or> roster ! member \<noteq> actor then None
              else if length roster = 1 then Some \<lparr>sl_Angle = Fin 0, sl_Radius = Fin 0, sl_X = Fin 0, sl_Y = Fin 0\<rparr>
              else let angle = flt_div (flt_mul TwoPi (of_word_in Binary32 (of_nat member :: u64))) size;
                       radius = flt_min maxRadius (flt_div MemberSpacing
                         (flt_mul (Fin 2) (sinf (flt_div TwoPi (flt_mul (Fin 2) size)))))
                   in Some \<lparr>sl_Angle = angle, sl_Radius = radius, sl_X = flt_mul radius (cosf angle),
                       sl_Y = flt_mul radius (sinf angle)\<rparr>)"

definition MemberSlot :: "(flt \<Rightarrow> flt) \<Rightarrow> (flt \<Rightarrow> flt) \<Rightarrow> u64 \<Rightarrow> CoalitionMemberObservation list \<Rightarrow> flt \<Rightarrow> FormationSlot option" where
  "MemberSlot sinf cosf actor obs maxRadius = GetSlot sinf cosf actor (map mo_MemberId obs) maxRadius"

section \<open>The intent of a group\<close>

definition RoamPhaseHash :: "u64 \<Rightarrow> CoalitionFormationProfileId \<Rightarrow> u64 \<Rightarrow> u64" where
  "RoamPhaseHash groupId profileId phase =
     (let seed = xor (xor groupId (CoalitionFormationProfileId_value profileId * 0x9E3779B97F4A7C15)) (phase * 0xBF58476D1CE4E5B9);
          seed = xor seed (drop_bit 30 seed);
          seed = seed * 0xBF58476D1CE4E5B9;
          seed = xor seed (drop_bit 27 seed);
          seed = seed * 0x94D049BB133111EB;
          seed = xor seed (drop_bit 31 seed)
      in seed)"

definition spaced_formation :: "AgentGroupCoordinationProfile \<Rightarrow> bool" where
  "spaced_formation profile = (isfinite (gp_MemberFormationRadius profile) \<and> flt_lt (Fin 0) (gp_MemberFormationRadius profile))"

definition NoIntent :: "AgentGroupRecord \<Rightarrow> AgentGroupIntent" where
  "NoIntent grp = \<lparr>it_Group = gr_Id grp, it_Type = Intent_None, it_MapId = 0, it_X = Fin 0, it_Y = Fin 0, it_Z = Fin 0\<rparr>"

text \<open>The first loop over the members: one of them is out of the regroup radius.\<close>

fun NeedsRegroup :: "AgentGroupRecord \<Rightarrow> flt \<Rightarrow> CoalitionMemberObservation list \<Rightarrow> bool" where
  "NeedsRegroup grp regroupRadiusSq [] = False"
| "NeedsRegroup grp regroupRadiusSq (o' # os) =
     (if \<not> mo_Materialized o' \<or> \<not> mo_Alive o' then NeedsRegroup grp regroupRadiusSq os
      else if mo_MapId o' \<noteq> gr_TerritoryMapId grp then NeedsRegroup grp regroupRadiusSq os
      else if flt_le (territory_distance grp o') regroupRadiusSq then NeedsRegroup grp regroupRadiusSq os
      else True)"

text \<open>The second loop: one of them is away from its place around the target.\<close>

fun NeedsRoam ::
  "(flt \<Rightarrow> flt) \<Rightarrow> (flt \<Rightarrow> flt) \<Rightarrow> AgentGroupRecord \<Rightarrow> AgentGroupCoordinationProfile \<Rightarrow> CoalitionMemberObservation list \<Rightarrow>
    flt \<Rightarrow> flt \<Rightarrow> flt \<Rightarrow> flt \<Rightarrow> CoalitionMemberObservation list \<Rightarrow> bool"
where
  "NeedsRoam sinf cosf grp profile obs targetX targetY targetZ radiusSq [] = False"
| "NeedsRoam sinf cosf grp profile obs targetX targetY targetZ radiusSq (o' # os) =
     (let rest = NeedsRoam sinf cosf grp profile obs targetX targetY targetZ radiusSq os;
          far = (\<lambda>memberX memberY.
            \<not> flt_le (SquaredDistance (flt_sub (mo_X o') memberX) (flt_sub (mo_Y o') memberY)
              (if spaced_formation profile then Fin 0 else flt_sub (mo_Z o') targetZ)) radiusSq)
      in if \<not> mo_Materialized o' \<or> \<not> mo_Alive o' then rest
         else if mo_MapId o' \<noteq> gr_TerritoryMapId grp then rest
         else if spaced_formation profile then
           (case MemberSlot sinf cosf (mo_MemberId o') obs (gp_MemberFormationRadius profile) of
              None \<Rightarrow> rest
            | Some slot \<Rightarrow> if far (flt_add targetX (sl_X slot)) (flt_add targetY (sl_Y slot)) then True else rest)
         else if far targetX targetY then True else rest)"

definition RoamArrivalRadiusFor :: "AgentGroupCoordinationProfile \<Rightarrow> flt" where
  "RoamArrivalRadiusFor profile =
     (if spaced_formation profile then flt_min (gp_RoamArrivalRadius profile) FormationArrivalRadius else gp_RoamArrivalRadius profile)"

text \<open>The target of the phase: the centre of the territory or one of eight points around it.\<close>

definition RoamTarget :: "(flt \<Rightarrow> flt) \<Rightarrow> (flt \<Rightarrow> flt) \<Rightarrow> AgentGroupRecord \<Rightarrow> AgentGroupCoordinationProfile \<Rightarrow> u64 \<Rightarrow> flt \<times> flt" where
  "RoamTarget sinf cosf grp profile nowMs =
     (let phase = nowMs div widen (gp_RoamIntervalMs profile);
          slot = RoamPhaseHash (gr_Id grp) (gp_ProfileId profile) phase mod 9;
          centerDistance = (if spaced_formation profile
            then flt_max (Fin 0) (flt_sub (gp_RoamDistance profile) (gp_MemberFormationRadius profile)) else gp_RoamDistance profile)
      in if slot \<noteq> 0 then
           let angle = flt_mul (of_word_in Binary32 (slot - 1)) (flt_div TwoPi (Fin 8))
           in (flt_add (gr_TerritoryX grp) (flt_mul centerDistance (cosf angle)),
               flt_add (gr_TerritoryY grp) (flt_mul centerDistance (sinf angle)))
         else (gr_TerritoryX grp, gr_TerritoryY grp))"

definition Intent_Evaluate ::
  "(flt \<Rightarrow> flt) \<Rightarrow> (flt \<Rightarrow> flt) \<Rightarrow> AgentGroupRecord \<Rightarrow> AgentGroupCoordinationProfile \<Rightarrow> CoalitionMemberObservation list \<Rightarrow> u64 \<Rightarrow>
    AgentGroupIntent"
where
  "Intent_Evaluate sinf cosf grp profile obs nowMs =
     (if gp_ProfileId profile = Profile_Invalid then NoIntent grp
      else if gp_Kind profile \<noteq> gr_Kind grp then NoIntent grp
      else if gp_ProfileId profile \<noteq> gr_ProfileId grp then NoIntent grp
      else if gp_RegroupEnabled profile \<and>
        NeedsRegroup grp (flt_mul (gp_RegroupRadius profile) (gp_RegroupRadius profile)) obs
      then \<lparr>it_Group = gr_Id grp, it_Type = Regroup, it_MapId = gr_TerritoryMapId grp, it_X = gr_TerritoryX grp,
        it_Y = gr_TerritoryY grp, it_Z = gr_TerritoryZ grp\<rparr>
      else if gp_RoamEnabled profile \<and> gp_RoamIntervalMs profile > 0 then
        (let (targetX, targetY) = RoamTarget sinf cosf grp profile nowMs;
             radius = RoamArrivalRadiusFor profile
         in if NeedsRoam sinf cosf grp profile obs targetX targetY (gr_TerritoryZ grp) (flt_mul radius radius) obs
            then \<lparr>it_Group = gr_Id grp, it_Type = Roam, it_MapId = gr_TerritoryMapId grp, it_X = targetX, it_Y = targetY,
              it_Z = gr_TerritoryZ grp\<rparr>
            else NoIntent grp)
      else NoIntent grp)"

section \<open>Projection on the members\<close>

definition TriggerRadius :: "AgentGroupIntent \<Rightarrow> AgentGroupCoordinationProfile \<Rightarrow> flt option" where
  "TriggerRadius intent profile =
     (case it_Type intent of
        Regroup \<Rightarrow> Some (gp_RegroupRadius profile)
      | Roam \<Rightarrow> Some (if spaced_formation profile then flt_min (gp_RoamArrivalRadius profile) FormationArrivalRadius
          else gp_RoamArrivalRadius profile)
      | Intent_None \<Rightarrow> None)"

fun Project_loop ::
  "(flt \<Rightarrow> flt) \<Rightarrow> (flt \<Rightarrow> flt) \<Rightarrow> AgentGroupIntent \<Rightarrow> AgentGroupCoordinationProfile \<Rightarrow> CoalitionMemberObservation list \<Rightarrow> flt \<Rightarrow>
    CoalitionMemberObservation list \<Rightarrow> GroupMemberActionProposal list"
where
  "Project_loop sinf cosf intent profile obs radiusSq [] = []"
| "Project_loop sinf cosf intent profile obs radiusSq (o' # os) =
     (let rest = Project_loop sinf cosf intent profile obs radiusSq os;
          propose = (\<lambda>destinationX destinationY.
            let dx = flt_sub (mo_X o') (if it_Type intent = Regroup then it_X intent else destinationX);
                dy = flt_sub (mo_Y o') (if it_Type intent = Regroup then it_Y intent else destinationY);
                dz = (if spaced_formation profile \<and> it_Type intent = Roam then Fin 0 else flt_sub (mo_Z o') (it_Z intent))
            in if flt_le (SquaredDistance dx dy dz) radiusSq then rest
               else \<lparr>ga_SourceGroup = it_Group intent, ga_Member = mo_MemberId o', ga_SourceIntent = it_Type intent,
                   ga_MapId = it_MapId intent, ga_X = destinationX, ga_Y = destinationY, ga_Z = it_Z intent\<rparr> # rest)
      in if \<not> mo_Materialized o' \<or> \<not> mo_Alive o' then rest
         else if mo_MapId o' \<noteq> it_MapId intent then rest
         else if spaced_formation profile then
           (case MemberSlot sinf cosf (mo_MemberId o') obs (gp_MemberFormationRadius profile) of
              None \<Rightarrow> rest
            | Some slot \<Rightarrow> propose (flt_add (it_X intent) (sl_X slot)) (flt_add (it_Y intent) (sl_Y slot)))
         else propose (it_X intent) (it_Y intent))"

definition Intent_Project ::
  "(flt \<Rightarrow> flt) \<Rightarrow> (flt \<Rightarrow> flt) \<Rightarrow> AgentGroupIntent \<Rightarrow> AgentGroupCoordinationProfile \<Rightarrow> CoalitionMemberObservation list \<Rightarrow>
    GroupMemberActionProposal list"
where
  "Intent_Project sinf cosf intent profile obs =
     (case TriggerRadius intent profile of
        None \<Rightarrow> []
      | Some radius \<Rightarrow> Project_loop sinf cosf intent profile obs (flt_mul radius radius) obs)"

section \<open>The prey\<close>

record HuntTargetProvenance =
  ht_TargetGuid :: ObjectGuid
  ht_TargetEntry :: u32
  ht_MapId :: u32
  ht_X :: flt
  ht_Y :: flt
  ht_Z :: flt
  ht_Alive :: bool
  ht_ObservedAtMs :: u64

record HuntTargetObservation =
  ho_Observer :: u64
  ho_Target :: HuntTargetProvenance
  ho_Distance :: flt
  ho_LineOfSight :: bool

record HuntIntent =
  hi_Group :: GroupId
  hi_Target :: HuntTargetProvenance
  hi_StartedAtMs :: u64

record HuntProposal =
  hp_SourceGroup :: GroupId
  hp_Member :: u64
  hp_Target :: HuntTargetProvenance
  hp_StartedAtMs :: u64

definition IsRealGroupMember :: "AgentGroupRecord \<Rightarrow> u64 \<Rightarrow> bool" where
  "IsRealGroupMember grp observer = list_ex (\<lambda>ms. gm_Member ms = observer) (gr_Members grp)"

definition SameObserverState :: "CoalitionMemberObservation \<Rightarrow> CoalitionMemberObservation \<Rightarrow> bool" where
  "SameObserverState a b = (mo_Materialized a = mo_Materialized b \<and> mo_Alive a = mo_Alive b \<and> mo_MapId a = mo_MapId b \<and>
     flt_eq (mo_X a) (mo_X b) \<and> flt_eq (mo_Y a) (mo_Y b) \<and> flt_eq (mo_Z a) (mo_Z b))"

text \<open>The first report of each observer, and the observers with a report that differs from it.\<close>

fun Resolve_loop ::
  "(u64, CoalitionMemberObservation) omap \<Rightarrow> (u64, bool) omap \<Rightarrow> CoalitionMemberObservation list \<Rightarrow>
    (u64, CoalitionMemberObservation) omap \<times> (u64, bool) omap"
where
  "Resolve_loop resolved conflicted [] = (resolved, conflicted)"
| "Resolve_loop resolved conflicted (o' # os) =
     (case om_find resolved (mo_MemberId o') of
        None \<Rightarrow> Resolve_loop (om_put (mo_MemberId o') o' resolved) conflicted os
      | Some first \<Rightarrow> Resolve_loop resolved
          (if \<not> SameObserverState first o' then om_put (mo_MemberId o') True conflicted else conflicted) os)"

definition ResolveObserverStates :: "CoalitionMemberObservation list \<Rightarrow> (u64, CoalitionMemberObservation) omap" where
  "ResolveObserverStates obs =
     (let (resolved, conflicted) = Resolve_loop [] [] obs
      in fold (\<lambda>(key, isConflicted) m. if isConflicted then om_del key m else m) conflicted resolved)"

definition SameObservationPayload :: "HuntTargetObservation \<Rightarrow> HuntTargetObservation \<Rightarrow> bool" where
  "SameObservationPayload a b = (flt_eq (ho_Distance a) (ho_Distance b) \<and> ho_LineOfSight a = ho_LineOfSight b \<and>
     ht_Alive (ho_Target a) = ht_Alive (ho_Target b) \<and> ht_MapId (ho_Target a) = ht_MapId (ho_Target b) \<and>
     ht_TargetEntry (ho_Target a) = ht_TargetEntry (ho_Target b) \<and>
     flt_eq (ht_X (ho_Target a)) (ht_X (ho_Target b)) \<and> flt_eq (ht_Y (ho_Target a)) (ht_Y (ho_Target b)) \<and>
     flt_eq (ht_Z (ho_Target a)) (ht_Z (ho_Target b)))"

text \<open>The filter of the loop over the observations.\<close>

definition UsableObservation ::
  "AgentGroupRecord \<Rightarrow> AgentGroupCoordinationProfile \<Rightarrow> (u64, CoalitionMemberObservation) omap \<Rightarrow> u64 \<Rightarrow>
    HuntTargetObservation \<Rightarrow> bool"
where
  "UsableObservation grp profile observerStates nowMs observation =
     (let target = ho_Target observation in
      if \<not> IsRealGroupMember grp (ho_Observer observation) then False
      else case om_find observerStates (ho_Observer observation) of
        None \<Rightarrow> False
      | Some observerState \<Rightarrow>
          if \<not> mo_Materialized observerState \<or> \<not> mo_Alive observerState then False
          else if mo_MapId observerState \<noteq> gr_TerritoryMapId grp then False
          else if IsEmpty (ht_TargetGuid target) \<or> \<not> IsCreature (ht_TargetGuid target) then False
          else if GetEntry (ht_TargetGuid target) \<noteq> ht_TargetEntry target then False
          else if ht_TargetEntry target \<noteq> gp_HuntTargetCreatureEntry profile then False
          else if \<not> ht_Alive target then False
          else if ht_MapId target \<noteq> gr_TerritoryMapId grp then False
          else if \<not> isfinite (ht_X target) \<or> \<not> isfinite (ht_Y target) \<or> \<not> isfinite (ht_Z target) then False
          else if ht_ObservedAtMs target = 0 \<or> ht_ObservedAtMs target > nowMs then False
          else if nowMs - ht_ObservedAtMs target > widen (gp_HuntObservationMaxAgeMs profile) then False
          else if \<not> ho_LineOfSight observation then False
          else if \<not> isfinite (ho_Distance observation) \<or> flt_lt (ho_Distance observation) (Fin 0) \<or>
            flt_lt (gp_HuntAcquisitionRadius profile) (ho_Distance observation) then False
          else True)"

text \<open>\<open>observationsByTarget[guid].push_back(&observation)\<close>.\<close>

fun ByTarget_loop ::
  "(HuntTargetObservation \<Rightarrow> bool) \<Rightarrow> (u64, HuntTargetObservation list) omap \<Rightarrow> HuntTargetObservation list \<Rightarrow>
    (u64, HuntTargetObservation list) omap"
where
  "ByTarget_loop usable buckets [] = buckets"
| "ByTarget_loop usable buckets (o' # os) =
     (if \<not> usable o' then ByTarget_loop usable buckets os
      else let key = ht_TargetGuid (ho_Target o') in
        ByTarget_loop usable (om_put key ((case om_find buckets key of None \<Rightarrow> [] | Some b \<Rightarrow> b) @ [o']) buckets) os)"

fun Ambiguous :: "HuntTargetObservation list \<Rightarrow> bool" where
  "Ambiguous [] = False"
| "Ambiguous (a # rest) =
     (if list_ex (\<lambda>b. \<not> (ht_ObservedAtMs (ho_Target a) \<noteq> ht_ObservedAtMs (ho_Target b) \<or> ho_Observer a \<noteq> ho_Observer b) \<and>
        \<not> SameObservationPayload a b) rest then True else Ambiguous rest)"

definition Fresher :: "HuntTargetObservation \<Rightarrow> HuntTargetObservation \<Rightarrow> bool" where
  "Fresher candidate best =
     (ht_ObservedAtMs (ho_Target candidate) > ht_ObservedAtMs (ho_Target best) \<or>
      ht_ObservedAtMs (ho_Target candidate) = ht_ObservedAtMs (ho_Target best) \<and> ho_Observer candidate < ho_Observer best)"

definition Closer :: "HuntTargetObservation \<Rightarrow> HuntTargetObservation \<Rightarrow> bool" where
  "Closer candidate selected =
     (flt_lt (ho_Distance candidate) (ho_Distance selected) \<or>
      flt_eq (ho_Distance candidate) (ho_Distance selected) \<and>
      ht_TargetGuid (ho_Target candidate) < ht_TargetGuid (ho_Target selected))"

text \<open>Both selection loops keep the first element and replace it by a better one.\<close>

fun Pick_loop :: "('a \<Rightarrow> 'a \<Rightarrow> bool) \<Rightarrow> 'a option \<Rightarrow> 'a list \<Rightarrow> 'a option" where
  "Pick_loop better best [] = best"
| "Pick_loop better best (x # xs) =
     (case best of None \<Rightarrow> Pick_loop better (Some x) xs
      | Some b \<Rightarrow> Pick_loop better (if better x b then Some x else Some b) xs)"

fun BestByTarget_loop :: "(u64 \<times> HuntTargetObservation list) list \<Rightarrow> (u64 \<times> HuntTargetObservation option) list" where
  "BestByTarget_loop [] = []"
| "BestByTarget_loop ((guidKey, bkt) # rest) =
     (if Ambiguous bkt then BestByTarget_loop rest
      else (guidKey, Pick_loop Fresher None bkt) # BestByTarget_loop rest)"

definition SelectHuntTarget ::
  "AgentGroupRecord \<Rightarrow> AgentGroupCoordinationProfile \<Rightarrow> CoalitionMemberObservation list \<Rightarrow> HuntTargetObservation list \<Rightarrow> u64 \<Rightarrow>
    HuntTargetObservation option"
where
  "SelectHuntTarget grp profile obs reports nowMs =
     (let usable = UsableObservation grp profile (ResolveObserverStates obs) nowMs;
          bestByTarget = BestByTarget_loop (ByTarget_loop usable [] reports)
      in Pick_loop Closer None (List.map_filter snd bestByTarget))"

definition Hunt_Evaluate ::
  "AgentGroupRecord \<Rightarrow> AgentGroupCoordinationProfile \<Rightarrow> CoalitionMemberObservation list \<Rightarrow> HuntTargetObservation list \<Rightarrow> u64 \<Rightarrow>
    HuntIntent option"
where
  "Hunt_Evaluate grp profile obs reports nowMs =
     (if gp_ProfileId profile = Profile_Invalid then None
      else if gp_Kind profile \<noteq> gr_Kind grp then None
      else if gp_ProfileId profile \<noteq> gr_ProfileId grp then None
      else if \<not> gp_HuntEnabled profile then None
      else if gp_HuntTargetCreatureEntry profile = 0 then None
      else if \<not> isfinite (gp_HuntAcquisitionRadius profile) \<or> flt_le (gp_HuntAcquisitionRadius profile) (Fin 0) then None
      else if gp_HuntObservationMaxAgeMs profile = 0 then None
      else if nowMs = 0 then None
      else case SelectHuntTarget grp profile obs reports nowMs of
        None \<Rightarrow> None
      | Some selected \<Rightarrow> Some \<lparr>hi_Group = gr_Id grp, hi_Target = ho_Target selected, hi_StartedAtMs = nowMs\<rparr>)"

fun HuntProject_loop :: "HuntIntent \<Rightarrow> CoalitionMemberObservation list \<Rightarrow> HuntProposal list" where
  "HuntProject_loop intent [] = []"
| "HuntProject_loop intent (o' # os) =
     (if \<not> mo_Materialized o' \<or> \<not> mo_Alive o' then HuntProject_loop intent os
      else if mo_MapId o' \<noteq> ht_MapId (hi_Target intent) then HuntProject_loop intent os
      else \<lparr>hp_SourceGroup = hi_Group intent, hp_Member = mo_MemberId o', hp_Target = hi_Target intent,
          hp_StartedAtMs = hi_StartedAtMs intent\<rparr> # HuntProject_loop intent os)"

definition Hunt_Project :: "HuntIntent \<Rightarrow> CoalitionMemberObservation list \<Rightarrow> HuntProposal list" where
  "Hunt_Project intent obs =
     (if hi_Group intent = 0 then []
      else if IsEmpty (ht_TargetGuid (hi_Target intent)) then []
      else if ht_TargetEntry (hi_Target intent) = 0 then []
      else if \<not> ht_Alive (hi_Target intent) then []
      else if ht_ObservedAtMs (hi_Target intent) = 0 then []
      else if hi_StartedAtMs intent = 0 then []
      else HuntProject_loop intent obs)"

section \<open>Resources of a group\<close>

definition Group_Simulate :: "flt \<Rightarrow> u64 \<Rightarrow> AgentGroupRecord \<Rightarrow> bool \<times> AgentGroupRecord" where
  "Group_Simulate resourcesPerSecond dtMs rec =
     (let dtSeconds = flt_div (of_word_in Binary32 dtMs) (Fin 1000);
          resources = flt_clamp (flt_sub (gr_Resources rec) (flt_mul resourcesPerSecond dtSeconds)) (Fin 0) (Fin 1)
      in (\<not> flt_eq resources (gr_Resources rec), rec\<lparr>gr_Resources := resources\<rparr>))"

section \<open>Every intent reaches a member\<close>

lemma in_remdups_adj_sort: "sorted xs \<Longrightarrow> sorted (remdups_adj xs)"
  by (induction xs rule: remdups_adj.induct) auto

lemma lower_bound_found:
  fixes a :: "'a::linorder"
  shows "sorted xs \<Longrightarrow> a \<in> set xs \<Longrightarrow>
    length (takeWhile (\<lambda>x. x < a) xs) < length xs \<and> xs ! length (takeWhile (\<lambda>x. x < a) xs) = a"
  by (induction xs) auto

lemma MemberSlot_found:
  assumes "o' \<in> set obs" and "mo_MemberId o' \<noteq> 0" and "spaced_formation profile"
  shows "MemberSlot sinf cosf (mo_MemberId o') obs (gp_MemberFormationRadius profile) \<noteq> None"
proof -
  let ?roster = "remdups_adj (sort (filter (\<lambda>a. a \<noteq> 0) (map mo_MemberId obs)))"
  have "mo_MemberId o' \<in> set ?roster" using assms by auto
  then have "length (takeWhile (\<lambda>a. a < mo_MemberId o') ?roster) < length ?roster \<and>
      ?roster ! length (takeWhile (\<lambda>a. a < mo_MemberId o') ?roster) = mo_MemberId o'"
    by (intro lower_bound_found) (simp_all add: in_remdups_adj_sort)
  moreover obtain q where "gp_MemberFormationRadius profile = Fin q" "0 < q"
    using assms(3) by (cases "gp_MemberFormationRadius profile") (auto simp: spaced_formation_def)
  ultimately show ?thesis using assms(2) by (auto simp: MemberSlot_def GetSlot_def Let_def)
qed

lemma NeedsRegroup_projected:
  assumes "NeedsRegroup grp radiusSq os" and "set os \<subseteq> set obs" and "\<forall>o' \<in> set obs. mo_MemberId o' \<noteq> 0"
    and "it_Type intent = Regroup" and "it_MapId intent = gr_TerritoryMapId grp" and "it_X intent = gr_TerritoryX grp"
    and "it_Y intent = gr_TerritoryY grp" and "it_Z intent = gr_TerritoryZ grp"
  shows "Project_loop sinf cosf intent profile obs radiusSq os \<noteq> []"
  using assms(1,2)
proof (induction os)
  case (Cons o' os)
  show ?case
  proof (cases "mo_Materialized o' \<and> mo_Alive o' \<and> mo_MapId o' = gr_TerritoryMapId grp \<and>
      \<not> flt_le (territory_distance grp o') radiusSq")
    case True
    moreover have "MemberSlot sinf cosf (mo_MemberId o') obs (gp_MemberFormationRadius profile) \<noteq> None" if "spaced_formation profile"
      using Cons.prems assms(3) that by (intro MemberSlot_found) auto
    ultimately show ?thesis
      using assms(4-8) by (auto simp: Let_def territory_distance_def)
  next
    case False
    with Cons have "Project_loop sinf cosf intent profile obs radiusSq os \<noteq> []" by (auto split: if_splits)
    then show ?thesis by (simp add: Let_def split: option.split)
  qed
qed simp

lemma NeedsRoam_projected:
  assumes "NeedsRoam sinf cosf grp profile obs (it_X intent) (it_Y intent) (it_Z intent) radiusSq os"
    and "it_Type intent = Roam" and "it_MapId intent = gr_TerritoryMapId grp"
  shows "Project_loop sinf cosf intent profile obs radiusSq os \<noteq> []"
  using assms(1)
proof (induction os)
  case (Cons o' os)
  then show ?case
    using assms(2,3) by (simp add: Let_def split: option.splits if_splits)
qed simp

section \<open>The choice of the prey\<close>

lemma Pick_loop_best:
  assumes asym: "\<And>x y. x \<in> S \<Longrightarrow> y \<in> S \<Longrightarrow> better x y \<Longrightarrow> \<not> better y x"
    and split: "\<And>x y z. x \<in> S \<Longrightarrow> y \<in> S \<Longrightarrow> z \<in> S \<Longrightarrow> better x y \<Longrightarrow> better x z \<or> better z y"
  shows "set xs \<subseteq> S \<Longrightarrow> b \<in> S \<Longrightarrow>
    \<exists>r. Pick_loop better (Some b) xs = Some r \<and> r \<in> insert b (set xs) \<and> (\<forall>y \<in> insert b (set xs). \<not> better y r)"
proof (induction xs arbitrary: b)
  case Nil
  then show ?case using asym [of b b] by auto
next
  case (Cons x xs)
  let ?b = "if better x b then x else b"
  have b: "?b \<in> S" using Cons.prems by simp
  then obtain r where r: "Pick_loop better (Some ?b) xs = Some r" "r \<in> insert ?b (set xs)" "\<forall>y \<in> insert ?b (set xs). \<not> better y r"
    using Cons.IH [of ?b] Cons.prems by auto
  have rS: "r \<in> S" using r(2) b Cons.prems by (auto split: if_splits)
  have "\<not> better b r \<and> \<not> better x r"
  proof (cases "better x b")
    case True
    with r(3) have "\<not> better x r" by simp
    moreover from this True have "\<not> better b r"
      using split [of b r x] asym [of x b] rS Cons.prems by auto
    ultimately show ?thesis by simp
  next
    case False
    with r(3) have "\<not> better b r" by simp
    moreover from this False have "\<not> better x r" using split [of x r b] rS Cons.prems by auto
    ultimately show ?thesis by simp
  qed
  with r show ?case by (auto split: if_splits)
qed

lemma Pick_loop_None:
  assumes "\<And>x y. x \<in> S \<Longrightarrow> y \<in> S \<Longrightarrow> better x y \<Longrightarrow> \<not> better y x"
    and "\<And>x y z. x \<in> S \<Longrightarrow> y \<in> S \<Longrightarrow> z \<in> S \<Longrightarrow> better x y \<Longrightarrow> better x z \<or> better z y"
    and "set xs \<subseteq> S"
  shows "xs \<noteq> [] \<Longrightarrow> \<exists>r. Pick_loop better None xs = Some r"
    and "Pick_loop better None xs = Some r \<Longrightarrow> r \<in> set xs \<and> (\<forall>y \<in> set xs. \<not> better y r)"
proof -
  have best: "\<exists>r. Pick_loop better None xs = Some r \<and> r \<in> set xs \<and> (\<forall>y \<in> set xs. \<not> better y r)" if "xs \<noteq> []"
  proof -
    from that obtain x ys where xs: "xs = x # ys" by (cases xs) auto
    have "\<exists>r. Pick_loop better (Some x) ys = Some r \<and> r \<in> insert x (set ys) \<and> (\<forall>y \<in> insert x (set ys). \<not> better y r)"
      using assms(3) xs by (intro Pick_loop_best [of S better, OF assms(1,2)]) simp_all
    then show ?thesis by (simp add: xs)
  qed
  then show "xs \<noteq> [] \<Longrightarrow> \<exists>r. Pick_loop better None xs = Some r" by blast
  show "r \<in> set xs \<and> (\<forall>y \<in> set xs. \<not> better y r)" if "Pick_loop better None xs = Some r"
  proof -
    from that have "xs \<noteq> []" by auto
    with best that show ?thesis by auto
  qed
qed

lemma Fresher_order:
  "Fresher x y \<Longrightarrow> \<not> Fresher y x" "Fresher x y \<Longrightarrow> Fresher x z \<or> Fresher z y"
  by (auto simp: Fresher_def)

lemma Closer_order:
  assumes "isfinite (ho_Distance x)" "isfinite (ho_Distance y)"
  shows "Closer x y \<Longrightarrow> \<not> Closer y x" and "isfinite (ho_Distance z) \<Longrightarrow> Closer x y \<Longrightarrow> Closer x z \<or> Closer z y"
  using assms by (auto simp: Closer_def isfinite_iff)

text \<open>The reports about one prey, and the freshest of them if no two of them contradict each other.\<close>

definition conflicting :: "HuntTargetObservation set \<Rightarrow> u64 \<Rightarrow> bool" where
  "conflicting S g = (\<exists>a \<in> S. \<exists>b \<in> S. ht_TargetGuid (ho_Target a) = g \<and> ht_TargetGuid (ho_Target b) = g \<and>
     ht_ObservedAtMs (ho_Target a) = ht_ObservedAtMs (ho_Target b) \<and> ho_Observer a = ho_Observer b \<and>
     \<not> SameObservationPayload a b)"

definition freshest :: "HuntTargetObservation set \<Rightarrow> HuntTargetObservation \<Rightarrow> bool" where
  "freshest S x = (x \<in> S \<and> \<not> conflicting S (ht_TargetGuid (ho_Target x)) \<and>
     (\<forall>y \<in> S. ht_TargetGuid (ho_Target y) = ht_TargetGuid (ho_Target x) \<longrightarrow> \<not> Fresher y x))"

definition prey_of :: "HuntTargetObservation set \<Rightarrow> HuntTargetObservation \<Rightarrow> bool" where
  "prey_of S x = (freshest S x \<and> (\<forall>y. freshest S y \<longrightarrow> \<not> Closer y x))"

definition finite_report :: "HuntTargetObservation \<Rightarrow> bool" where
  "finite_report x = (isfinite (ho_Distance x) \<and> isfinite (ht_X (ho_Target x)) \<and> isfinite (ht_Y (ho_Target x)) \<and>
     isfinite (ht_Z (ho_Target x)))"

lemma usable_finite: "UsableObservation grp profile states nowMs x \<Longrightarrow> finite_report x"
  by (auto simp: UsableObservation_def Let_def finite_report_def split: option.splits if_splits)

lemma flt_eq_finite: "isfinite a \<Longrightarrow> isfinite b \<Longrightarrow> flt_eq a b \<longleftrightarrow> a = b"
  by (auto simp: isfinite_iff)

lemma payload_refl: "finite_report x \<Longrightarrow> SameObservationPayload x x"
  by (auto simp: finite_report_def SameObservationPayload_def flt_eq_finite)

lemma payload_sym: "SameObservationPayload x y \<longleftrightarrow> SameObservationPayload y x"
proof -
  have "flt_eq a b \<longleftrightarrow> flt_eq b a" for a b by (cases a; cases b) auto
  then show ?thesis by (auto simp: SameObservationPayload_def)
qed

lemma payload_eq:
  assumes "finite_report x" "finite_report y" "SameObservationPayload x y" "ho_Observer x = ho_Observer y"
    and "ht_ObservedAtMs (ho_Target x) = ht_ObservedAtMs (ho_Target y)"
    and "ht_TargetGuid (ho_Target x) = ht_TargetGuid (ho_Target y)"
  shows "x = y"
  using assms by (cases x, cases y, cases "ho_Target x", cases "ho_Target y")
    (auto simp: finite_report_def SameObservationPayload_def flt_eq_finite)

lemma Ambiguous_iff:
  assumes "\<forall>x \<in> set xs. finite_report x"
  shows "Ambiguous xs \<longleftrightarrow> (\<exists>a \<in> set xs. \<exists>b \<in> set xs. ht_ObservedAtMs (ho_Target a) = ht_ObservedAtMs (ho_Target b) \<and>
    ho_Observer a = ho_Observer b \<and> \<not> SameObservationPayload a b)"
  using assms
proof (induction xs)
  case (Cons x xs)
  define C where "C a b \<longleftrightarrow> ht_ObservedAtMs (ho_Target a) = ht_ObservedAtMs (ho_Target b) \<and> ho_Observer a = ho_Observer b \<and>
    \<not> SameObservationPayload a b" for a b
  have "\<not> C x x" using Cons.prems payload_refl [of x] by (simp add: C_def)
  moreover have "C a b \<longleftrightarrow> C b a" for a b using payload_sym [of a b] by (auto simp: C_def)
  moreover have "Ambiguous (x # xs) \<longleftrightarrow> (\<exists>b \<in> set xs. C x b) \<or> Ambiguous xs"
    by (auto simp: C_def list_ex_iff)
  moreover have "Ambiguous xs \<longleftrightarrow> (\<exists>a \<in> set xs. \<exists>b \<in> set xs. C a b)"
    using Cons by (simp add: C_def)
  ultimately show ?case unfolding C_def [symmetric] by (simp only: list.set) blast
qed simp

lemma ByTarget_find:
  "om_wf m \<Longrightarrow> om_find (ByTarget_loop usable m xs) k =
     (let ys = (case om_find m k of None \<Rightarrow> [] | Some b \<Rightarrow> b) @ filter (\<lambda>x. usable x \<and> ht_TargetGuid (ho_Target x) = k) xs
      in if om_find m k = None \<and> ys = [] then None else Some ys)"
  by (induction usable m xs rule: ByTarget_loop.induct) (auto simp: Let_def split: option.split)

lemma ByTarget_wf: "om_wf m \<Longrightarrow> om_wf (ByTarget_loop usable m xs)"
  by (induction usable m xs rule: ByTarget_loop.induct) (auto simp: Let_def)

lemma in_BestByTarget:
  "x \<in> set (List.map_filter snd (BestByTarget_loop m)) \<longleftrightarrow>
     (\<exists>k xs. (k, xs) \<in> set m \<and> \<not> Ambiguous xs \<and> Pick_loop Fresher None xs = Some x)"
  by (induction m rule: BestByTarget_loop.induct) (auto simp: map_filter_simps split: option.split)

lemma SelectHuntTarget_exact:
  "SelectHuntTarget grp profile obs reports nowMs = Some x \<longleftrightarrow>
     prey_of {r \<in> set reports. UsableObservation grp profile (ResolveObserverStates obs) nowMs r} x"
proof -
  define usable where "usable = UsableObservation grp profile (ResolveObserverStates obs) nowMs"
  define S where "S = {r \<in> set reports. usable r}"
  let ?m = "ByTarget_loop usable [] reports"
  let ?guid = "\<lambda>r. ht_TargetGuid (ho_Target r)"
  let ?best = "List.map_filter snd (BestByTarget_loop ?m)"
  have fin: "finite_report r" if "r \<in> S" for r using that usable_finite by (auto simp: S_def usable_def)
  have wf: "om_wf ?m" by (simp add: ByTarget_wf)
  have group: "(k, xs) \<in> set ?m \<longleftrightarrow> xs \<noteq> [] \<and> xs = filter (\<lambda>r. usable r \<and> ?guid r = k) reports" for k xs
    using ByTarget_find [of "[]" usable reports k] by (auto simp: om_find_iff [OF wf] Let_def)
  have ambiguous: "Ambiguous (filter (\<lambda>r. usable r \<and> ?guid r = k) reports) \<longleftrightarrow> conflicting S k" for k
    using Ambiguous_iff [of "filter (\<lambda>r. usable r \<and> ?guid r = k) reports"] fin
    unfolding conflicting_def by (auto simp: S_def)
  note pick_fresh = Pick_loop_None [where S = UNIV and better = Fresher, OF Fresher_order(1) Fresher_order(2), simplified]
  have best: "y \<in> set ?best \<longleftrightarrow> freshest S y" for y
  proof
    assume "y \<in> set ?best"
    then obtain k xs where xs: "xs = filter (\<lambda>r. usable r \<and> ?guid r = k) reports" "\<not> Ambiguous xs" "Pick_loop Fresher None xs = Some y"
      by (auto simp: in_BestByTarget group)
    from pick_fresh(2) [OF xs(3)] have "y \<in> set xs" "\<forall>z \<in> set xs. \<not> Fresher z y" by auto
    with xs ambiguous [of k] show "freshest S y" by (auto simp: freshest_def S_def)
  next
    assume y: "freshest S y"
    let ?xs = "filter (\<lambda>r. usable r \<and> ?guid r = ?guid y) reports"
    have "y \<in> set ?xs" using y by (auto simp: freshest_def S_def)
    then have ne: "?xs \<noteq> []" by (metis empty_iff list.set(1))
    then obtain z where z: "Pick_loop Fresher None ?xs = Some z" using pick_fresh(1) by blast
    from pick_fresh(2) [OF z] \<open>y \<in> set ?xs\<close> have zx: "z \<in> set ?xs" "\<not> Fresher y z" by auto
    with y have "\<not> Fresher z y" "z \<in> S" "y \<in> S" "?guid z = ?guid y" by (auto simp: freshest_def S_def)
    with zx(2) have "ht_ObservedAtMs (ho_Target z) = ht_ObservedAtMs (ho_Target y)" "ho_Observer z = ho_Observer y"
      by (auto simp: Fresher_def)
    moreover from this y \<open>z \<in> S\<close> \<open>y \<in> S\<close> \<open>?guid z = ?guid y\<close> have "SameObservationPayload z y"
      unfolding freshest_def conflicting_def by metis
    ultimately have "z = y" using fin \<open>z \<in> S\<close> \<open>y \<in> S\<close> \<open>?guid z = ?guid y\<close> by (intro payload_eq) auto
    moreover have "\<not> Ambiguous ?xs" using y ambiguous by (simp add: freshest_def)
    moreover have "(?guid y, ?xs) \<in> set ?m" using ne unfolding group by simp
    ultimately show "y \<in> set ?best" using z unfolding in_BestByTarget by blast
  qed
  have dist: "isfinite (ho_Distance r)" if "r \<in> S" for r using fin [OF that] by (simp add: finite_report_def)
  have inS: "set ?best \<subseteq> S" using best by (auto simp: freshest_def)
  have asym: "Closer a b \<Longrightarrow> \<not> Closer b a" if "a \<in> S" "b \<in> S" for a b
    using Closer_order(1) [OF dist [OF that(1)] dist [OF that(2)]] .
  have between: "Closer a b \<Longrightarrow> Closer a c \<or> Closer c b" if "a \<in> S" "b \<in> S" "c \<in> S" for a b c
    using Closer_order(2) [OF dist [OF that(1)] dist [OF that(2)] dist [OF that(3)]] .
  have close1: "\<exists>r. Pick_loop Closer None xs = Some r" if "set xs \<subseteq> S" "xs \<noteq> []" for xs
    by (rule Pick_loop_None(1) [of S]) (fact asym, fact between, fact that(1), fact that(2))
  have close2: "r \<in> set xs \<and> (\<forall>y \<in> set xs. \<not> Closer y r)" if "set xs \<subseteq> S" "Pick_loop Closer None xs = Some r" for xs r
    by (rule Pick_loop_None(2) [of S]) (fact asym, fact between, fact that(1), fact that(2))
  have unique: "a = b" if "prey_of S a" "prey_of S b" for a b
  proof -
    from that have ab: "freshest S a" "freshest S b" "\<not> Closer a b" "\<not> Closer b a" by (auto simp: prey_of_def)
    then have "a \<in> S" "b \<in> S" by (auto simp: freshest_def)
    with ab(3,4) dist [of a] dist [of b] have "?guid a = ?guid b" by (auto simp: Closer_def isfinite_iff)
    with ab(1,2) \<open>a \<in> S\<close> \<open>b \<in> S\<close> have "\<not> Fresher a b" "\<not> Fresher b a" by (auto simp: freshest_def)
    then have "ht_ObservedAtMs (ho_Target a) = ht_ObservedAtMs (ho_Target b)" "ho_Observer a = ho_Observer b"
      by (auto simp: Fresher_def)
    moreover from this ab(1) \<open>a \<in> S\<close> \<open>b \<in> S\<close> \<open>?guid a = ?guid b\<close> have "SameObservationPayload a b"
      unfolding freshest_def conflicting_def by metis
    ultimately show ?thesis using fin \<open>a \<in> S\<close> \<open>b \<in> S\<close> \<open>?guid a = ?guid b\<close> by (intro payload_eq) auto
  qed
  have sound: "prey_of S r" if "Pick_loop Closer None ?best = Some r" for r
    using close2 [OF inS that] best by (auto simp: prey_of_def)
  have "SelectHuntTarget grp profile obs reports nowMs = Some x \<longleftrightarrow> prey_of S x"
  proof
    assume "SelectHuntTarget grp profile obs reports nowMs = Some x"
    then show "prey_of S x" using sound by (simp add: SelectHuntTarget_def Let_def usable_def)
  next
    assume x: "prey_of S x"
    then have "x \<in> set ?best" using best by (simp add: prey_of_def)
    then have "?best \<noteq> []" by (metis empty_iff list.set(1))
    then obtain r where r: "Pick_loop Closer None ?best = Some r" using close1 [OF inS] by blast
    with sound unique x have "r = x" by blast
    with r show "SelectHuntTarget grp profile obs reports nowMs = Some x"
      by (simp add: SelectHuntTarget_def Let_def usable_def)
  qed
  then show ?thesis by (simp add: S_def usable_def)
qed

text \<open>The observer of the chosen report is itself a member that can hunt.\<close>

lemma resolved_observed:
  "om_wf resolved \<Longrightarrow> om_find (fst (Resolve_loop resolved conflicted os)) k = Some o' \<Longrightarrow>
    om_find resolved k = Some o' \<or> o' \<in> set os"
  by (induction resolved conflicted os rule: Resolve_loop.induct) (auto split: option.splits if_splits)

lemma resolved_wf: "om_wf resolved \<Longrightarrow> om_wf (fst (Resolve_loop resolved conflicted os))"
  by (induction resolved conflicted os rule: Resolve_loop.induct) (auto split: option.splits)

lemma observer_observed:
  assumes "om_find (ResolveObserverStates obs) k = Some o'"
  shows "o' \<in> set obs"
proof -
  obtain resolved conflicted where r: "Resolve_loop [] [] obs = (resolved, conflicted)" by fastforce
  have wf: "om_wf resolved" using resolved_wf [of "[]" "[]" obs] r by simp
  have "om_wf m \<Longrightarrow> om_find (fold (\<lambda>(key, b) m. if b then om_del key m else m) cs m) k = Some o' \<Longrightarrow> om_find m k = Some o'"
    for cs :: "(u64 \<times> bool) list" and m :: "(u64, CoalitionMemberObservation) omap"
  proof (induction cs arbitrary: m)
    case (Cons c cs)
    obtain key b where c: "c = (key, b)" by fastforce
    have "om_find (if b then om_del key m else m) k = Some o'"
      by (rule Cons.IH) (use Cons.prems c in simp_all)
    with Cons.prems(1) show ?case by (auto split: if_splits)
  qed simp
  with assms wf have "om_find resolved k = Some o'" by (simp add: ResolveObserverStates_def r)
  then show ?thesis using resolved_observed [of "[]" "[]" obs k o'] r by simp
qed

lemma HuntProject_nonempty:
  "o' \<in> set obs \<Longrightarrow> mo_Materialized o' \<Longrightarrow> mo_Alive o' \<Longrightarrow> mo_MapId o' = ht_MapId (hi_Target intent) \<Longrightarrow>
    HuntProject_loop intent obs \<noteq> []"
  by (induction intent obs rule: HuntProject_loop.induct) auto

lemma hunt_reaches_member:
  assumes "Hunt_Evaluate grp profile obs reports nowMs = Some intent" and "gr_Id grp \<noteq> 0"
  shows "Hunt_Project intent obs \<noteq> []"
proof -
  from assms(1) obtain x where x: "SelectHuntTarget grp profile obs reports nowMs = Some x"
    and intent: "intent = \<lparr>hi_Group = gr_Id grp, hi_Target = ho_Target x, hi_StartedAtMs = nowMs\<rparr>"
    and profile: "nowMs \<noteq> 0" "gp_HuntTargetCreatureEntry profile \<noteq> 0"
    by (auto simp: Hunt_Evaluate_def split: if_splits option.splits)
  from x have "UsableObservation grp profile (ResolveObserverStates obs) nowMs x"
    by (auto simp: SelectHuntTarget_exact prey_of_def freshest_def)
  then obtain st where "om_find (ResolveObserverStates obs) (ho_Observer x) = Some st" "mo_Materialized st" "mo_Alive st"
      "mo_MapId st = ht_MapId (ho_Target x)"
    and ok: "\<not> IsEmpty (ht_TargetGuid (ho_Target x))" "ht_TargetEntry (ho_Target x) = gp_HuntTargetCreatureEntry profile"
      "ht_Alive (ho_Target x)" "ht_ObservedAtMs (ho_Target x) \<noteq> 0"
    by (auto simp: UsableObservation_def Let_def split: option.splits if_splits)
  with HuntProject_nonempty [OF observer_observed] intent have "HuntProject_loop intent obs \<noteq> []" by simp
  with ok profile assms(2) intent show ?thesis by (simp add: Hunt_Project_def)
qed

text \<open>
  C18: the prey of a group is determined by its reports, not by their order or by the order of the hash
  tables: a group whose profile may hunt hunts exactly the prey whose freshest report (the lowest
  observer among equally fresh ones) is the nearest, the lowest guid among equally near ones, where
  only reports of living members in sight count and a prey with contradicting reports is left alone.
\<close>

theorem hunt_intent_exact:
  "Hunt_Evaluate grp profile obs reports nowMs = Some intent \<longleftrightarrow>
     gp_ProfileId profile \<noteq> Profile_Invalid \<and> gp_Kind profile = gr_Kind grp \<and> gp_ProfileId profile = gr_ProfileId grp \<and>
     gp_HuntEnabled profile \<and> gp_HuntTargetCreatureEntry profile \<noteq> 0 \<and> isfinite (gp_HuntAcquisitionRadius profile) \<and>
     flt_lt (Fin 0) (gp_HuntAcquisitionRadius profile) \<and> gp_HuntObservationMaxAgeMs profile \<noteq> 0 \<and> nowMs \<noteq> 0 \<and>
     (\<exists>x. prey_of {r \<in> set reports. UsableObservation grp profile (ResolveObserverStates obs) nowMs r} x \<and>
       intent = \<lparr>hi_Group = gr_Id grp, hi_Target = ho_Target x, hi_StartedAtMs = nowMs\<rparr>)"
proof -
  have "\<not> (\<not> isfinite r \<or> flt_le r (Fin 0)) \<longleftrightarrow> isfinite r \<and> flt_lt (Fin 0) r" for r by (auto simp: isfinite_iff)
  then show ?thesis
    unfolding Hunt_Evaluate_def SelectHuntTarget_exact [symmetric]
    by (auto split: option.split)
qed

text \<open>
  C17: an intent always reaches a member: whenever the evaluation raises a regroup or a roam intent
  for members with valid ids, its projection proposes an action to at least one of them, whatever
  the values of sine and cosine and however the distances round, and whenever a registered group
  decides to hunt, at least one member is sent. A group never holds an intent that moves nobody.
\<close>

theorem group_intent_reaches_member:
  assumes "list_all (\<lambda>o'. mo_MemberId o' \<noteq> 0) obs"
    and "gr_Id grp \<noteq> 0"
  shows "(it_Type (Intent_Evaluate sinf cosf grp profile obs nowMs) \<noteq> Intent_None \<longrightarrow>
      Intent_Project sinf cosf (Intent_Evaluate sinf cosf grp profile obs nowMs) profile obs \<noteq> []) \<and>
    (\<forall>intent. Hunt_Evaluate grp profile obs reports nowMs = Some intent \<longrightarrow> Hunt_Project intent obs \<noteq> [])"
proof -
  obtain x y where target: "RoamTarget sinf cosf grp profile nowMs = (x, y)" by fastforce
  let ?roam = "\<lparr>it_Group = gr_Id grp, it_Type = Roam, it_MapId = gr_TerritoryMapId grp, it_X = x, it_Y = y, it_Z = gr_TerritoryZ grp\<rparr>"
  have "Intent_Project sinf cosf ?roam profile obs \<noteq> []"
    if "NeedsRoam sinf cosf grp profile obs x y (gr_TerritoryZ grp)
      (flt_mul (RoamArrivalRadiusFor profile) (RoamArrivalRadiusFor profile)) obs"
    using NeedsRoam_projected [of sinf cosf grp profile obs ?roam _ obs] that
    by (auto simp: Intent_Project_def TriggerRadius_def RoamArrivalRadiusFor_def)
  moreover have "Intent_Project sinf cosf \<lparr>it_Group = gr_Id grp, it_Type = Regroup, it_MapId = gr_TerritoryMapId grp,
      it_X = gr_TerritoryX grp, it_Y = gr_TerritoryY grp, it_Z = gr_TerritoryZ grp\<rparr> profile obs \<noteq> []"
    if "NeedsRegroup grp (flt_mul (gp_RegroupRadius profile) (gp_RegroupRadius profile)) obs"
    using NeedsRegroup_projected [OF that subset_refl, where intent = "\<lparr>it_Group = gr_Id grp, it_Type = Regroup,
        it_MapId = gr_TerritoryMapId grp, it_X = gr_TerritoryX grp, it_Y = gr_TerritoryY grp, it_Z = gr_TerritoryZ grp\<rparr>"] assms(1)
    by (simp add: Intent_Project_def TriggerRadius_def list_all_iff)
  ultimately show ?thesis
    using hunt_reaches_member [OF _ assms(2)] unfolding Intent_Evaluate_def target prod.case Let_def
    by (auto simp: NoIntent_def split: if_splits)
qed

section \<open>A pack\<close>

definition ex_wolves :: AgentGroupRecord where
  "ex_wolves = \<lparr>gr_Id = 1, gr_Kind = Loose, gr_ProfileId = WolfLoose, gr_TerritoryMapId = 0, gr_TerritoryX = Fin 0,
     gr_TerritoryY = Fin 0, gr_TerritoryZ = Fin 0, gr_Resources = Fin 1, gr_Version = 0,
     gr_Members = [\<lparr>gm_Member = 7, gm_JoinedAtMs = 50\<rparr>]\<rparr>"

definition ex_wolf_profile :: AgentGroupCoordinationProfile where
  "ex_wolf_profile = \<lparr>gp_ProfileId = WolfLoose, gp_Kind = Loose, gp_RegroupEnabled = True, gp_RegroupRadius = Fin 30,
     gp_RoamEnabled = True, gp_RoamDistance = Fin 20, gp_RoamIntervalMs = 60000, gp_RoamArrivalRadius = Fin 5,
     gp_MemberFormationRadius = Fin 3, gp_HuntEnabled = True, gp_HuntTargetCreatureEntry = 721,
     gp_HuntAcquisitionRadius = Fin 40, gp_HuntObservationMaxAgeMs = 5000\<rparr>"

definition ex_wolf_report :: "rat \<Rightarrow> CoalitionMemberObservation" where
  "ex_wolf_report x = \<lparr>mo_MemberId = 7, mo_Materialized = True, mo_Alive = True, mo_MapId = 0, mo_X = Fin x, mo_Y = Fin 0, mo_Z = Fin 0\<rparr>"

definition ex_rabbit :: HuntTargetObservation where
  "ex_rabbit = \<lparr>ho_Observer = 7, ho_Target = \<lparr>ht_TargetGuid = 0xF1300002D1000001, ht_TargetEntry = 721, ht_MapId = 0, ht_X = Fin 5,
     ht_Y = Fin 0, ht_Z = Fin 0, ht_Alive = True, ht_ObservedAtMs = 99000\<rparr>, ho_Distance = Fin 4, ho_LineOfSight = True\<rparr>"

theorem group_intent_reaches_member_witness:
  "Intent_Project (\<lambda>_. Fin 0) (\<lambda>_. Fin 0) (Intent_Evaluate (\<lambda>_. Fin 0) (\<lambda>_. Fin 0) ex_wolves ex_wolf_profile [ex_wolf_report 40] 100000)
      ex_wolf_profile [ex_wolf_report 40] \<noteq> [] \<and>
   (\<exists>intent. Hunt_Evaluate ex_wolves ex_wolf_profile [ex_wolf_report 1] [ex_rabbit] 100000 = Some intent \<and>
      Hunt_Project intent [ex_wolf_report 1] \<noteq> [])"
proof -
  have ids: "list_all (\<lambda>o'. mo_MemberId o' \<noteq> 0) [ex_wolf_report x]" "gr_Id ex_wolves \<noteq> 0" for x
    by (simp_all add: ex_wolf_report_def ex_wolves_def)
  have "it_Type (Intent_Evaluate (\<lambda>_. Fin 0) (\<lambda>_. Fin 0) ex_wolves ex_wolf_profile [ex_wolf_report 40] 100000) \<noteq> Intent_None"
    by code_simp
  moreover have "\<not> Option.is_none (Hunt_Evaluate ex_wolves ex_wolf_profile [ex_wolf_report 1] [ex_rabbit] 100000)"
    by code_simp
  ultimately show ?thesis
    using group_intent_reaches_member [OF ids(1) [of 40] ids(2), where sinf = "\<lambda>_. Fin 0" and cosf = "\<lambda>_. Fin 0"
        and profile = ex_wolf_profile and nowMs = 100000 and reports = "[]"]
      group_intent_reaches_member [OF ids(1) [of 1] ids(2), where sinf = "\<lambda>_. Fin 0" and cosf = "\<lambda>_. Fin 0"
        and profile = ex_wolf_profile and nowMs = 100000 and reports = "[ex_rabbit]"]
    by (auto simp: Option.is_none_def)
qed

end
