(* ===== verification/Supply_Ledger.thy ===== *)
theory Supply_Ledger
  imports Std_Map
begin

text \<open>
  The food ledger of the living-world simulation, \<open>Agent/LivingSupplyState.h\<close>: depots, fields,
  carcasses and actors, the two-phase reservation of carcass portions (reserve, commit,
  cancel), the physical events (field harvest, theft, loading, delivery, meal) with their
  replay receipts, expiry and regrowth, and the two conservation laws the class states about
  itself (\<open>Conserved\<close>, \<open>PotentialConserved\<close>). All amounts are machine words.
\<close>

section \<open>Data\<close>

definition CarcassPortions :: u32 where "CarcassPortions = 6"
definition PredatorMealPortions :: u32 where "PredatorMealPortions = 3"
definition HunterCargoCapacity :: u32 where "HunterCargoCapacity = 6"
definition RaiderCargoCapacity :: u32 where "RaiderCargoCapacity = 2"
definition FarmerCargoCapacity :: u32 where "FarmerCargoCapacity = 2"
definition CarrierCargoCapacity :: u32 where "CarrierCargoCapacity = 6"
definition CityDepotId :: u32 where "CityDepotId = 7"
definition FieldCapacity :: u32 where "FieldCapacity = 24"
definition FieldRegrowMs :: u64 where "FieldRegrowMs = 30000"

lemmas ledger_constants = CarcassPortions_def PredatorMealPortions_def HunterCargoCapacity_def
  RaiderCargoCapacity_def FarmerCargoCapacity_def CarrierCargoCapacity_def CityDepotId_def
  FieldCapacity_def FieldRegrowMs_def

record CarcassKey =
  ck_Source :: u64
  ck_Life :: u64

datatype ClaimKind = Harvest | PredatorMeal

record Token =
  tk_Actor :: u64
  tk_Serial :: u64

record LedgerResult =
  rs_Success :: bool
  rs_Duplicate :: bool
  rs_Portions :: u32
  rs_Reason :: string

record Depot =
  dp_Id :: u32
  dp_Stock :: u32
  dp_Capacity :: u32
  dp_Target :: u32
  dp_Low :: u32
  dp_Stolen :: u64
  dp_Exported :: u64
  dp_Delivered :: u64
  dp_Consumed :: u64

record Carcass =
  cc_Key :: CarcassKey
  cc_Remaining :: u32
  cc_Reserved :: u32
  cc_ExpiresAtMs :: u64
  cc_Active :: bool

record Field =
  fd_Id :: u32
  fd_DepotId :: u32
  fd_Remaining :: u32
  fd_Capacity :: u32
  fd_RegrowMs :: u64
  fd_LastGrowthAtMs :: u64
  fd_HarvestedTotal :: u64
  fd_RegrownTotal :: u64

record Counters =
  ct_InitialFood :: u64
  ct_HarvestedTotal :: u64
  ct_ConsumedTotal :: u64
  ct_LostTotal :: u64
  ct_DeliveredTotal :: u64
  ct_StolenTotal :: u64
  ct_LoadedTotal :: u64
  ct_PredatorConsumed :: u64
  ct_DepotConsumed :: u64
  ct_PotentialCreated :: u64
  ct_PotentialLost :: u64

record Claim =
  cl_Id :: Token
  cl_Key :: CarcassKey
  cl_Kind :: ClaimKind
  cl_Requested :: u32
  cl_Amount :: u32
  cl_ExpiresAtMs :: u64

datatype EventKind = Delivery | Meal | Theft | FieldHarvest | Loading

record LedgerEvent =
  le_Serial :: u64
  le_Kind :: EventKind
  le_DepotId :: u32
  le_Requested :: u32
  le_Receipt :: LedgerResult

record Actor =
  ac_DepotId :: u32
  ac_Capacity :: u32
  ac_Predator :: bool
  ac_Consumer :: bool
  ac_RaidSourceDepotId :: u32
  ac_FieldId :: u32
  ac_Cargo :: u32
  ac_Pending :: "Claim option"
  ac_LastCommitted :: "(Token \<times> LedgerResult) option"
  ac_LastEventSerial :: u64
  ac_LastEvent :: "LedgerEvent option"
  ac_AllVillageRaidSources :: bool
  ac_Carrier :: bool

record Ledger =
  lg_depots :: "(u32, Depot) omap"
  lg_initialDepotStock :: "(u32, u32) omap"
  lg_fields :: "(u32, Field) omap"
  lg_initialFieldCrops :: "(u32, u32) omap"
  lg_actors :: "(u64, Actor) omap"
  lg_carcasses :: "(u64, Carcass) omap"
  lg_nextClaimSerial :: u64
  lg_counters :: Counters
  lg_residentsV11 :: bool

definition zero_counters :: Counters where
  "zero_counters = \<lparr>ct_InitialFood = 0, ct_HarvestedTotal = 0, ct_ConsumedTotal = 0, ct_LostTotal = 0,
     ct_DeliveredTotal = 0, ct_StolenTotal = 0, ct_LoadedTotal = 0, ct_PredatorConsumed = 0,
     ct_DepotConsumed = 0, ct_PotentialCreated = 0, ct_PotentialLost = 0\<rparr>"

definition Ledger_init :: Ledger where
  "Ledger_init = \<lparr>lg_depots = [], lg_initialDepotStock = [], lg_fields = [], lg_initialFieldCrops = [],
     lg_actors = [], lg_carcasses = [], lg_nextClaimSerial = 0, lg_counters = zero_counters,
     lg_residentsV11 = False\<rparr>"

section \<open>Lookups and totals\<close>

definition GetDepot :: "Ledger \<Rightarrow> u32 \<Rightarrow> Depot option" where
  "GetDepot L i = om_find (lg_depots L) i"

definition GetField :: "Ledger \<Rightarrow> u32 \<Rightarrow> Field option" where
  "GetField L i = om_find (lg_fields L) i"

definition FindCarcass :: "Ledger \<Rightarrow> CarcassKey \<Rightarrow> Carcass option" where
  "FindCarcass L key =
     (case om_find (lg_carcasses L) (ck_Source key) of
        None \<Rightarrow> None | Some c \<Rightarrow> if cc_Key c = key then Some c else None)"

definition GetCargo :: "Ledger \<Rightarrow> u64 \<Rightarrow> u32" where
  "GetCargo L actor = (case om_find (lg_actors L) actor of None \<Rightarrow> 0 | Some a \<Rightarrow> ac_Cargo a)"

definition DepotFood :: "Ledger \<Rightarrow> u64" where
  "DepotFood L = om_sum (\<lambda>d. widen (dp_Stock d)) (lg_depots L)"

definition CargoFood :: "Ledger \<Rightarrow> u64" where
  "CargoFood L = om_sum (\<lambda>a. widen (ac_Cargo a)) (lg_actors L)"

definition RemainingPotential :: "Ledger \<Rightarrow> u64" where
  "RemainingPotential L = om_sum (\<lambda>c. widen (cc_Remaining c)) (lg_carcasses L)
     + om_sum (\<lambda>f. widen (fd_Remaining f)) (lg_fields L)"

definition Conserved :: "Ledger \<Rightarrow> bool" where
  "Conserved L = (ct_InitialFood (lg_counters L) + ct_HarvestedTotal (lg_counters L)
     = DepotFood L + CargoFood L + ct_ConsumedTotal (lg_counters L) + ct_LostTotal (lg_counters L))"

definition PotentialConserved :: "Ledger \<Rightarrow> bool" where
  "PotentialConserved L = (ct_PotentialCreated (lg_counters L)
     = RemainingPotential L + ct_HarvestedTotal (lg_counters L) + ct_PotentialLost (lg_counters L))"

section \<open>Configuration and registration\<close>

definition ConfigureDepot :: "u32 \<Rightarrow> u32 \<Rightarrow> u32 \<Rightarrow> u32 \<Rightarrow> u32 \<Rightarrow> Ledger \<Rightarrow> bool \<times> Ledger" where
  "ConfigureDepot i initial capacity target low L =
     (if i = 0 \<or> capacity = 0 \<or> low > target \<or> target > capacity \<or> initial > capacity then (False, L)
      else case GetDepot L i of
        Some current \<Rightarrow> (dp_Capacity current = capacity \<and> dp_Target current = target \<and> dp_Low current = low \<and>
          om_find (lg_initialDepotStock L) i = Some initial, L)
      | None \<Rightarrow>
          if length (lg_depots L) \<ge> 7 then (False, L)
          else (True, L\<lparr>lg_depots := om_put i \<lparr>dp_Id = i, dp_Stock = initial, dp_Capacity = capacity,
                  dp_Target = target, dp_Low = low, dp_Stolen = 0, dp_Exported = 0, dp_Delivered = 0,
                  dp_Consumed = 0\<rparr> (lg_depots L),
                lg_initialDepotStock := om_put i initial (lg_initialDepotStock L),
                lg_counters := (lg_counters L)\<lparr>ct_InitialFood := ct_InitialFood (lg_counters L) + widen initial\<rparr>\<rparr>))"

definition ConfigureResidentsV11 :: "Ledger \<Rightarrow> bool \<times> Ledger" where
  "ConfigureResidentsV11 L =
     (if lg_actors L \<noteq> [] \<or> lg_fields L \<noteq> [] \<or> lg_carcasses L \<noteq> [] \<or> length (lg_depots L) \<noteq> 6 \<or>
         ct_InitialFood (lg_counters L) \<noteq> 0 \<or> lg_residentsV11 L then (False, L)
      else if \<exists>i \<in> set [1, 2, 3, 4, 5, 6]. GetDepot L i = None then (False, L)
      else (True, L\<lparr>lg_residentsV11 := True\<rparr>))"

definition ConfigureField :: "u32 \<Rightarrow> u64 \<Rightarrow> u32 \<Rightarrow> u32 \<Rightarrow> u64 \<Rightarrow> Ledger \<Rightarrow> bool \<times> Ledger" where
  "ConfigureField i nowMs initial capacity regrowMs L =
     (if (if lg_residentsV11 L then i < 1 \<or> i > 3 else i < 4 \<or> i > 6) \<or> GetDepot L i = None \<or>
         capacity = 0 \<or> capacity > FieldCapacity \<or> initial > capacity \<or> regrowMs < FieldRegrowMs then (False, L)
      else case GetField L i of
        Some current \<Rightarrow> (fd_Capacity current = capacity \<and> fd_RegrowMs current = regrowMs \<and>
          om_find (lg_initialFieldCrops L) i = Some initial, L)
      | None \<Rightarrow>
          if length (lg_fields L) \<ge> 3 then (False, L)
          else (True, L\<lparr>lg_fields := om_put i \<lparr>fd_Id = i, fd_DepotId = i, fd_Remaining = initial,
                  fd_Capacity = capacity, fd_RegrowMs = regrowMs, fd_LastGrowthAtMs = nowMs,
                  fd_HarvestedTotal = 0, fd_RegrownTotal = 0\<rparr> (lg_fields L),
                lg_initialFieldCrops := om_put i initial (lg_initialFieldCrops L),
                lg_counters := (lg_counters L)\<lparr>ct_PotentialCreated := ct_PotentialCreated (lg_counters L) + widen initial\<rparr>\<rparr>))"

definition new_actor :: "u32 \<Rightarrow> u32 \<Rightarrow> bool \<Rightarrow> bool \<Rightarrow> Actor" where
  "new_actor depotId cargoCapacity predator consumer =
     \<lparr>ac_DepotId = depotId, ac_Capacity = cargoCapacity, ac_Predator = predator, ac_Consumer = consumer,
      ac_RaidSourceDepotId = 0, ac_FieldId = 0, ac_Cargo = 0, ac_Pending = None, ac_LastCommitted = None,
      ac_LastEventSerial = 0, ac_LastEvent = None, ac_AllVillageRaidSources = False, ac_Carrier = False\<rparr>"

text \<open>The tail of the four registrations: compare with an existing record, or add under the cap.\<close>

definition add_actor :: "u64 \<Rightarrow> (Actor \<Rightarrow> bool) \<Rightarrow> Actor \<Rightarrow> Ledger \<Rightarrow> bool \<times> Ledger" where
  "add_actor actor same record L =
     (case om_find (lg_actors L) actor of
        Some current \<Rightarrow> (same current, L)
      | None \<Rightarrow> if length (lg_actors L) \<ge> 128 then (False, L)
                else (True, L\<lparr>lg_actors := om_put actor record (lg_actors L)\<rparr>))"

definition RegisterActor :: "u64 \<Rightarrow> u32 \<Rightarrow> u32 \<Rightarrow> bool \<Rightarrow> bool \<Rightarrow> Ledger \<Rightarrow> bool \<times> Ledger" where
  "RegisterActor actor depotId cargoCapacity predator consumer L =
     (if actor = 0 \<or> (predator \<and> consumer) \<or>
         (if consumer then GetDepot L depotId = None \<or> cargoCapacity \<noteq> 0
          else if predator then depotId \<noteq> 0 \<or> cargoCapacity \<noteq> 0
          else GetDepot L depotId = None \<or> cargoCapacity = 0 \<or> cargoCapacity > HunterCargoCapacity)
      then (False, L)
      else add_actor actor (\<lambda>c. ac_DepotId c = depotId \<and> ac_Capacity c = cargoCapacity \<and>
             ac_Predator c = predator \<and> ac_Consumer c = consumer \<and>
             ac_RaidSourceDepotId c = 0 \<and> ac_FieldId c = 0 \<and> \<not> ac_Carrier c)
           (new_actor depotId cargoCapacity predator consumer) L)"

definition RegisterFarmer :: "u64 \<Rightarrow> u32 \<Rightarrow> u32 \<Rightarrow> u32 \<Rightarrow> Ledger \<Rightarrow> bool \<times> Ledger" where
  "RegisterFarmer actor depotId fieldId cargoCapacity L =
     (case GetField L fieldId of
        None \<Rightarrow> (False, L)
      | Some field \<Rightarrow>
          if actor = 0 \<or> fd_DepotId field \<noteq> depotId \<or> GetDepot L depotId = None \<or> cargoCapacity = 0 \<or>
             cargoCapacity > FarmerCargoCapacity then (False, L)
          else add_actor actor (\<lambda>c. ac_DepotId c = depotId \<and> ac_Capacity c = cargoCapacity \<and>
                 ac_FieldId c = fieldId \<and> ac_RaidSourceDepotId c = 0 \<and>
                 \<not> ac_Predator c \<and> \<not> ac_Consumer c \<and> \<not> ac_Carrier c)
               ((new_actor depotId cargoCapacity False False)\<lparr>ac_FieldId := fieldId\<rparr>) L)"

definition RegisterRaider :: "u64 \<Rightarrow> u32 \<Rightarrow> u32 \<Rightarrow> u32 \<Rightarrow> bool \<Rightarrow> Ledger \<Rightarrow> bool \<times> Ledger" where
  "RegisterRaider actor ownDepotId sourceDepotId cargoCapacity allVillageSources L =
     (if actor = 0 \<or> ownDepotId \<noteq> (if lg_residentsV11 L then 6 else 3) \<or> sourceDepotId \<noteq> 1 \<or>
         cargoCapacity \<noteq> RaiderCargoCapacity \<or> GetDepot L ownDepotId = None \<or> GetDepot L sourceDepotId = None
      then (False, L)
      else if allVillageSources \<and>
         (if lg_residentsV11 L then GetDepot L 2 = None \<or> GetDepot L 3 = None \<or> GetDepot L 4 = None
          else GetDepot L 4 = None \<or> GetDepot L 5 = None \<or> GetDepot L 6 = None) then (False, L)
      else add_actor actor (\<lambda>c. ac_DepotId c = ownDepotId \<and> ac_Capacity c = cargoCapacity \<and>
             ac_RaidSourceDepotId c = sourceDepotId \<and> \<not> ac_Predator c \<and> \<not> ac_Consumer c \<and>
             ac_FieldId c = 0 \<and> ac_AllVillageRaidSources c = allVillageSources \<and> \<not> ac_Carrier c)
           ((new_actor ownDepotId cargoCapacity False False)
              \<lparr>ac_RaidSourceDepotId := sourceDepotId, ac_AllVillageRaidSources := allVillageSources\<rparr>) L)"

definition RegisterCarrier :: "u64 \<Rightarrow> u32 \<Rightarrow> u32 \<Rightarrow> Ledger \<Rightarrow> bool \<times> Ledger" where
  "RegisterCarrier actor ownDepotId cargoCapacity L =
     (if actor = 0 \<or> ownDepotId \<noteq> (if lg_residentsV11 L then 5 else CityDepotId) \<or>
         cargoCapacity \<noteq> CarrierCargoCapacity \<or> GetDepot L ownDepotId = None \<or> GetDepot L 1 = None \<or>
         (if lg_residentsV11 L then GetDepot L 2 = None \<or> GetDepot L 3 = None \<or> GetDepot L 4 = None
          else GetDepot L 4 = None \<or> GetDepot L 5 = None \<or> GetDepot L 6 = None) then (False, L)
      else add_actor actor (\<lambda>c. ac_Carrier c \<and> ac_DepotId c = ownDepotId \<and> ac_Capacity c = cargoCapacity \<and>
             \<not> ac_Predator c \<and> \<not> ac_Consumer c \<and> ac_RaidSourceDepotId c = 0 \<and> ac_FieldId c = 0)
           ((new_actor ownDepotId cargoCapacity False False)\<lparr>ac_Carrier := True\<rparr>) L)"

section \<open>Claims on carcasses\<close>

text \<open>\<open>Release\<close>: give the claimed amount back to its carcass.\<close>

definition Release :: "Claim \<Rightarrow> Ledger \<Rightarrow> Ledger" where
  "Release claim L =
     (case FindCarcass L (cl_Key claim) of
        None \<Rightarrow> L
      | Some c \<Rightarrow> L\<lparr>lg_carcasses := om_put (ck_Source (cl_Key claim))
          (c\<lparr>cc_Reserved := cc_Reserved c - cl_Amount claim\<rparr>) (lg_carcasses L)\<rparr>)"

definition drop_claim :: "u64 \<Rightarrow> Actor \<Rightarrow> Claim \<Rightarrow> Ledger \<Rightarrow> Ledger" where
  "drop_claim a actor claim L =
     (let L1 = Release claim L in L1\<lparr>lg_actors := om_put a (actor\<lparr>ac_Pending := None\<rparr>) (lg_actors L1)\<rparr>)"

text \<open>
  The loop over \<open>_actors\<close> in \<open>CloseCarcass\<close> and \<open>Expire\<close>: every pending claim that meets the
  condition is released.
\<close>

fun DropClaims_loop :: "(Claim \<Rightarrow> bool) \<Rightarrow> u64 list \<Rightarrow> Ledger \<Rightarrow> Ledger" where
  "DropClaims_loop P [] L = L"
| "DropClaims_loop P (a # as) L =
     (case om_find (lg_actors L) a of
        None \<Rightarrow> DropClaims_loop P as L
      | Some actor \<Rightarrow>
          (case ac_Pending actor of
             None \<Rightarrow> DropClaims_loop P as L
           | Some claim \<Rightarrow>
               if P claim then DropClaims_loop P as (drop_claim a actor claim L) else DropClaims_loop P as L))"

definition CloseCarcass :: "CarcassKey \<Rightarrow> Ledger \<Rightarrow> Ledger" where
  "CloseCarcass key L =
     (case FindCarcass L key of
        None \<Rightarrow> L
      | Some c0 \<Rightarrow>
          if \<not> cc_Active c0 then L
          else let L1 = DropClaims_loop (\<lambda>claim. cl_Key claim = key) (om_keys (lg_actors L)) L in
          (case FindCarcass L1 key of
             None \<Rightarrow> L1
           | Some c \<Rightarrow> L1\<lparr>lg_counters := (lg_counters L1)\<lparr>ct_PotentialLost :=
                 ct_PotentialLost (lg_counters L1) + widen (cc_Remaining c)\<rparr>,
               lg_carcasses := om_put (ck_Source key) (c\<lparr>cc_Remaining := 0, cc_Active := False\<rparr>) (lg_carcasses L1)\<rparr>))"

text \<open>\<open>Regrow\<close>: the field afterwards and the amount grown.\<close>

definition Regrow :: "Field \<Rightarrow> u64 \<Rightarrow> Field \<times> u32" where
  "Regrow field nowMs =
     (if nowMs \<le> fd_LastGrowthAtMs field then (field, 0)
      else if fd_Remaining field = fd_Capacity field then (field\<lparr>fd_LastGrowthAtMs := nowMs\<rparr>, 0)
      else let growth = (ucast (min ((nowMs - fd_LastGrowthAtMs field) div fd_RegrowMs field)
                 (widen (fd_Capacity field - fd_Remaining field))) :: u32) in
      if growth = 0 then (field, 0)
      else let remaining = fd_Remaining field + growth in
        (field\<lparr>fd_Remaining := remaining,
               fd_RegrownTotal := fd_RegrownTotal field + widen growth,
               fd_LastGrowthAtMs := (if remaining = fd_Capacity field then nowMs
                 else fd_LastGrowthAtMs field + widen growth * fd_RegrowMs field)\<rparr>, growth))"

fun Regrow_loop :: "u64 \<Rightarrow> u32 list \<Rightarrow> Ledger \<Rightarrow> Ledger" where
  "Regrow_loop nowMs [] L = L"
| "Regrow_loop nowMs (i # ids) L =
     (case om_find (lg_fields L) i of
        None \<Rightarrow> Regrow_loop nowMs ids L
      | Some field \<Rightarrow>
          let (field', growth) = Regrow field nowMs in
          Regrow_loop nowMs ids (L\<lparr>lg_fields := om_put i field' (lg_fields L),
            lg_counters := (lg_counters L)\<lparr>ct_PotentialCreated := ct_PotentialCreated (lg_counters L) + widen growth\<rparr>\<rparr>))"

fun ExpireCarcass_loop :: "u64 \<Rightarrow> u64 list \<Rightarrow> Ledger \<Rightarrow> Ledger" where
  "ExpireCarcass_loop nowMs [] L = L"
| "ExpireCarcass_loop nowMs (k # ks) L =
     (case om_find (lg_carcasses L) k of
        None \<Rightarrow> ExpireCarcass_loop nowMs ks L
      | Some c \<Rightarrow> ExpireCarcass_loop nowMs ks
          (if cc_Active c \<and> nowMs \<ge> cc_ExpiresAtMs c then CloseCarcass (cc_Key c) L else L))"

definition Expire :: "u64 \<Rightarrow> Ledger \<Rightarrow> Ledger" where
  "Expire nowMs L =
     (let L1 = Regrow_loop nowMs (om_keys (lg_fields L)) L;
          L2 = DropClaims_loop (\<lambda>claim. nowMs \<ge> cl_ExpiresAtMs claim) (om_keys (lg_actors L1)) L1
      in ExpireCarcass_loop nowMs (om_keys (lg_carcasses L2)) L2)"

definition RegisterCarcass :: "CarcassKey \<Rightarrow> u64 \<Rightarrow> u64 \<Rightarrow> u32 \<Rightarrow> Ledger \<Rightarrow> bool \<times> Ledger" where
  "RegisterCarcass key nowMs expiresAtMs portions L =
     (if ck_Source key = 0 \<or> ck_Life key = 0 \<or> expiresAtMs \<le> nowMs \<or> portions = 0 \<or> portions > CarcassPortions
      then (False, L)
      else let add = (\<lambda>L1. (True, L1\<lparr>lg_carcasses := om_put (ck_Source key)
                 \<lparr>cc_Key = key, cc_Remaining = portions, cc_Reserved = 0, cc_ExpiresAtMs = expiresAtMs,
                  cc_Active = True\<rparr> (lg_carcasses L1),
               lg_counters := (lg_counters L1)\<lparr>ct_PotentialCreated :=
                 ct_PotentialCreated (lg_counters L1) + widen portions\<rparr>\<rparr>)) in
      case om_find (lg_carcasses L) (ck_Source key) of
        Some current \<Rightarrow> if ck_Life key \<le> ck_Life (cc_Key current) then (False, L)
                       else add (CloseCarcass (cc_Key current) L)
      | None \<Rightarrow> if length (lg_carcasses L) \<ge> 256 then (False, L) else add L)"

definition Cancel :: "Token \<Rightarrow> Ledger \<Rightarrow> bool \<times> Ledger" where
  "Cancel token L =
     (case om_find (lg_actors L) (tk_Actor token) of
        None \<Rightarrow> (False, L)
      | Some actor \<Rightarrow>
          (case ac_Pending actor of
             None \<Rightarrow> (False, L)
           | Some claim \<Rightarrow>
               if cl_Id claim \<noteq> token then (False, L) else (True, drop_claim (tk_Actor token) actor claim L)))"

definition CancelActor :: "u64 \<Rightarrow> Ledger \<Rightarrow> bool \<times> Ledger" where
  "CancelActor actorId L =
     (case om_find (lg_actors L) actorId of
        None \<Rightarrow> (False, L)
      | Some actor \<Rightarrow> (case ac_Pending actor of None \<Rightarrow> (False, L) | Some claim \<Rightarrow> Cancel (cl_Id claim) L))"

text \<open>Which actors may claim what; \<open>kind\<close> has only its two enumerators.\<close>

definition ReserveRefused :: "Actor \<Rightarrow> ClaimKind \<Rightarrow> u32 \<Rightarrow> bool" where
  "ReserveRefused owner kind requested =
     (ac_Consumer owner \<or> ac_Carrier owner \<or> ac_RaidSourceDepotId owner \<noteq> 0 \<or> ac_FieldId owner \<noteq> 0 \<or>
      ac_Predator owner \<noteq> (kind = PredatorMeal) \<or>
      requested > (if ac_Predator owner then PredatorMealPortions else ac_Capacity owner))"

definition Reserve :: "u64 \<Rightarrow> CarcassKey \<Rightarrow> ClaimKind \<Rightarrow> u32 \<Rightarrow> u64 \<Rightarrow> u64 \<Rightarrow> Ledger \<Rightarrow> Token option \<times> Ledger" where
  "Reserve actorId key kind requested nowMs claimTtlMs L0 =
     (let L = Expire nowMs L0 in
      case (om_find (lg_actors L) actorId, FindCarcass L key) of
        (Some owner, Some carcass) \<Rightarrow>
          if \<not> cc_Active carcass \<or> requested = 0 \<or> claimTtlMs = 0 then (None, L)
          else if ReserveRefused owner kind requested then (None, L)
          else (case ac_Pending owner of
            Some pending \<Rightarrow>
              if cl_Key pending = key \<and> cl_Kind pending = kind \<and> cl_Requested pending = requested
              then (Some (cl_Id pending), L) else (None, L)
          | None \<Rightarrow>
              let amount0 = min requested (cc_Remaining carcass - cc_Reserved carcass);
                  amount = (if ac_Predator owner then amount0
                            else min amount0 (ac_Capacity owner - ac_Cargo owner)) in
              if amount = 0 \<or> lg_nextClaimSerial L = u64_max then (None, L)
              else let expires = (if claimTtlMs > u64_max - nowMs then u64_max else nowMs + claimTtlMs);
                       serial = lg_nextClaimSerial L + 1;
                       token = \<lparr>tk_Actor = actorId, tk_Serial = serial\<rparr>;
                       claim = \<lparr>cl_Id = token, cl_Key = key, cl_Kind = kind, cl_Requested = requested,
                         cl_Amount = amount, cl_ExpiresAtMs = min expires (cc_ExpiresAtMs carcass)\<rparr>
              in (Some token, L\<lparr>lg_nextClaimSerial := serial,
                   lg_actors := om_put actorId (owner\<lparr>ac_Pending := Some claim\<rparr>) (lg_actors L),
                   lg_carcasses := om_put (ck_Source key)
                     (carcass\<lparr>cc_Reserved := cc_Reserved carcass + amount\<rparr>) (lg_carcasses L)\<rparr>))
      | _ \<Rightarrow> (None, L))"

definition Rejected :: "string \<Rightarrow> LedgerResult" where
  "Rejected reason = \<lparr>rs_Success = False, rs_Duplicate = False, rs_Portions = 0, rs_Reason = reason\<rparr>"

definition Replayed :: "LedgerResult \<Rightarrow> LedgerResult" where
  "Replayed receipt = receipt\<lparr>rs_Duplicate := True\<rparr>"

text \<open>Whether the claim being committed is no longer backed by its carcass.\<close>

definition ClaimInvalid :: "Ledger \<Rightarrow> Actor \<Rightarrow> Claim \<Rightarrow> u64 \<Rightarrow> bool" where
  "ClaimInvalid L actor claim nowMs =
     (case FindCarcass L (cl_Key claim) of
        None \<Rightarrow> True
      | Some c \<Rightarrow> \<not> cc_Active c \<or> nowMs \<ge> cl_ExpiresAtMs claim \<or> cc_Reserved c < cl_Amount claim \<or>
          cc_Remaining c < cl_Amount claim \<or>
          (cl_Kind claim = Harvest \<and> ac_Cargo actor > ac_Capacity actor - cl_Amount claim))"

definition CommitCounters :: "Claim \<Rightarrow> Counters \<Rightarrow> Counters" where
  "CommitCounters claim ct =
     (let ct1 = ct\<lparr>ct_HarvestedTotal := ct_HarvestedTotal ct + widen (cl_Amount claim)\<rparr>
      in if cl_Kind claim = PredatorMeal
         then ct1\<lparr>ct_ConsumedTotal := ct_ConsumedTotal ct1 + widen (cl_Amount claim),
                 ct_PredatorConsumed := ct_PredatorConsumed ct1 + widen (cl_Amount claim)\<rparr> else ct1)"

definition CommitClaim :: "Token \<Rightarrow> Actor \<Rightarrow> Claim \<Rightarrow> u64 \<Rightarrow> Ledger \<Rightarrow> LedgerResult \<times> Ledger" where
  "CommitClaim token actor claim nowMs L =
     (if cl_Id claim \<noteq> token then (Rejected ''UNKNOWN_CLAIM'', L)
      else if ClaimInvalid L actor claim nowMs then (Rejected ''CLAIM_INVALIDATED'', snd (Cancel token L))
      else (case FindCarcass L (cl_Key claim) of
        None \<Rightarrow> (Rejected ''CLAIM_INVALIDATED'', snd (Cancel token L))
      | Some c \<Rightarrow>
          let receipt = \<lparr>rs_Success = True, rs_Duplicate = False, rs_Portions = cl_Amount claim, rs_Reason = ''COMMITTED''\<rparr>;
              cargo = (if cl_Kind claim = PredatorMeal then ac_Cargo actor else ac_Cargo actor + cl_Amount claim)
          in (receipt, L\<lparr>
               lg_carcasses := om_put (ck_Source (cl_Key claim))
                 (c\<lparr>cc_Remaining := cc_Remaining c - cl_Amount claim,
                    cc_Reserved := cc_Reserved c - cl_Amount claim\<rparr>) (lg_carcasses L),
               lg_actors := om_put (tk_Actor token)
                 (actor\<lparr>ac_Pending := None, ac_Cargo := cargo, ac_LastCommitted := Some (token, receipt)\<rparr>) (lg_actors L),
               lg_counters := CommitCounters claim (lg_counters L)\<rparr>)))"

text \<open>A receipt already issued for the token is replayed before the pending claim is looked at.\<close>

definition Commit :: "Token \<Rightarrow> u64 \<Rightarrow> Ledger \<Rightarrow> LedgerResult \<times> Ledger" where
  "Commit token nowMs L0 =
     (let L = Expire nowMs L0 in
      case om_find (lg_actors L) (tk_Actor token) of
        None \<Rightarrow> (Rejected ''UNKNOWN_CLAIM'', L)
      | Some actor \<Rightarrow>
          if tk_Serial token = 0 then (Rejected ''UNKNOWN_CLAIM'', L)
          else if map_option fst (ac_LastCommitted actor) = Some token
            then (Replayed (snd (the (ac_LastCommitted actor))), L)
          else (case ac_Pending actor of
              None \<Rightarrow> (Rejected ''UNKNOWN_CLAIM'', L)
            | Some claim \<Rightarrow> CommitClaim token actor claim nowMs L))"

section \<open>Physical events\<close>

definition ReplayEvent :: "Actor \<Rightarrow> u64 \<Rightarrow> EventKind \<Rightarrow> u32 \<Rightarrow> u32 \<Rightarrow> LedgerResult option" where
  "ReplayEvent actor serial kind depotId requested =
     (if serial > ac_LastEventSerial actor then None
      else case ac_LastEvent actor of
        None \<Rightarrow> Some (Rejected ''STALE_OR_CHANGED_EVENT'')
      | Some e \<Rightarrow>
          if le_Serial e = serial \<and> le_Kind e = kind \<and> le_DepotId e = depotId \<and> le_Requested e = requested
          then Some (Replayed (le_Receipt e)) else Some (Rejected ''STALE_OR_CHANGED_EVENT''))"

definition SaveEvent :: "u64 \<Rightarrow> EventKind \<Rightarrow> u32 \<Rightarrow> u32 \<Rightarrow> u32 \<Rightarrow> Actor \<Rightarrow> LedgerResult \<times> Actor" where
  "SaveEvent serial kind depotId requested amount actor =
     (let result = \<lparr>rs_Success = True, rs_Duplicate = False, rs_Portions = amount, rs_Reason = ''COMPLETED''\<rparr>
      in (result, actor\<lparr>ac_LastEventSerial := serial,
            ac_LastEvent := Some \<lparr>le_Serial = serial, le_Kind = kind, le_DepotId = depotId,
              le_Requested = requested, le_Receipt = result\<rparr>\<rparr>))"

definition HarvestField :: "u64 \<Rightarrow> u64 \<Rightarrow> u32 \<Rightarrow> u32 \<Rightarrow> u64 \<Rightarrow> bool \<Rightarrow> Ledger \<Rightarrow> LedgerResult \<times> Ledger" where
  "HarvestField actorId eventSerial fieldId requested nowMs physicallyCompleted L0 =
     (let L = Expire nowMs L0 in
      case om_find (lg_actors L) actorId of
        None \<Rightarrow> (Rejected ''UNKNOWN_ACTOR'', L)
      | Some owner \<Rightarrow>
          (case ReplayEvent owner eventSerial FieldHarvest fieldId requested of
             Some replay \<Rightarrow> (replay, L)
           | None \<Rightarrow>
          (case om_find (lg_fields L) fieldId of
             None \<Rightarrow> (Rejected ''FIELD_HARVEST_NOT_AUTHORIZED'', L)
           | Some field \<Rightarrow>
               if \<not> physicallyCompleted \<or> eventSerial = 0 \<or> requested = 0 \<or> requested > ac_Capacity owner \<or>
                  ac_FieldId owner = 0 \<or> ac_FieldId owner \<noteq> fieldId \<or> fd_DepotId field \<noteq> ac_DepotId owner \<or>
                  ac_Predator owner \<or> ac_Consumer owner \<or> ac_Carrier owner \<or> ac_RaidSourceDepotId owner \<noteq> 0
               then (Rejected ''FIELD_HARVEST_NOT_AUTHORIZED'', L)
               else let amount = min (min requested (ac_Capacity owner - ac_Cargo owner)) (fd_Remaining field) in
               if amount = 0
               then (Rejected (if ac_Cargo owner = ac_Capacity owner then ''CARGO_FULL'' else ''FIELD_EMPTY''), L)
               else let (result, owner') = SaveEvent eventSerial FieldHarvest fieldId requested amount
                          (owner\<lparr>ac_Cargo := ac_Cargo owner + amount\<rparr>)
               in (result, L\<lparr>
                    lg_fields := om_put fieldId (field\<lparr>fd_Remaining := fd_Remaining field - amount,
                      fd_HarvestedTotal := fd_HarvestedTotal field + widen amount\<rparr>) (lg_fields L),
                    lg_actors := om_put actorId owner' (lg_actors L),
                    lg_counters := (lg_counters L)\<lparr>ct_HarvestedTotal := ct_HarvestedTotal (lg_counters L) + widen amount\<rparr>\<rparr>))))"

text \<open>The village depots a raider with all sources may rob.\<close>

definition RaidSourceOk :: "Ledger \<Rightarrow> Actor \<Rightarrow> u32 \<Rightarrow> bool" where
  "RaidSourceOk L owner sourceDepotId =
     (ac_RaidSourceDepotId owner = sourceDepotId \<or>
      (ac_AllVillageRaidSources owner \<and>
        (if lg_residentsV11 L then sourceDepotId \<ge> 1 \<and> sourceDepotId \<le> 4
         else sourceDepotId \<ge> 4 \<and> sourceDepotId \<le> 6)))"

definition Steal :: "u64 \<Rightarrow> u64 \<Rightarrow> u32 \<Rightarrow> u32 \<Rightarrow> bool \<Rightarrow> Ledger \<Rightarrow> LedgerResult \<times> Ledger" where
  "Steal actorId eventSerial sourceDepotId requested physicallyCompleted L =
     (case om_find (lg_actors L) actorId of
        None \<Rightarrow> (Rejected ''UNKNOWN_ACTOR'', L)
      | Some owner \<Rightarrow>
          (case ReplayEvent owner eventSerial Theft sourceDepotId requested of
             Some replay \<Rightarrow> (replay, L)
           | None \<Rightarrow>
          (case om_find (lg_depots L) sourceDepotId of
             None \<Rightarrow> (Rejected ''THEFT_NOT_AUTHORIZED'', L)
           | Some source \<Rightarrow>
               if \<not> physicallyCompleted \<or> eventSerial = 0 \<or> requested = 0 \<or> requested > RaiderCargoCapacity \<or>
                  ac_Predator owner \<or> ac_Consumer owner \<or> ac_Carrier owner \<or> ac_RaidSourceDepotId owner = 0 \<or>
                  \<not> RaidSourceOk L owner sourceDepotId
               then (Rejected ''THEFT_NOT_AUTHORIZED'', L)
               else let amount = min requested (ac_Capacity owner - ac_Cargo owner) in
               if amount = 0 then (Rejected ''CARGO_FULL'', L)
               else if dp_Stock source < amount then (Rejected ''NO_FOOD'', L)
               else let (result, owner') = SaveEvent eventSerial Theft sourceDepotId requested amount
                          (owner\<lparr>ac_Cargo := ac_Cargo owner + amount\<rparr>)
               in (result, L\<lparr>
                    lg_depots := om_put sourceDepotId (source\<lparr>dp_Stock := dp_Stock source - amount,
                      dp_Stolen := dp_Stolen source + widen amount\<rparr>) (lg_depots L),
                    lg_actors := om_put actorId owner' (lg_actors L),
                    lg_counters := (lg_counters L)\<lparr>ct_StolenTotal := ct_StolenTotal (lg_counters L) + widen amount\<rparr>\<rparr>))))"

definition Load :: "u64 \<Rightarrow> u64 \<Rightarrow> u32 \<Rightarrow> u32 \<Rightarrow> bool \<Rightarrow> Ledger \<Rightarrow> LedgerResult \<times> Ledger" where
  "Load actorId eventSerial sourceDepotId requested physicallyCompleted L =
     (case om_find (lg_actors L) actorId of
        None \<Rightarrow> (Rejected ''UNKNOWN_ACTOR'', L)
      | Some owner \<Rightarrow>
          (case ReplayEvent owner eventSerial Loading sourceDepotId requested of
             Some replay \<Rightarrow> (replay, L)
           | None \<Rightarrow>
          (case om_find (lg_depots L) sourceDepotId of
             None \<Rightarrow> (Rejected ''LOAD_NOT_AUTHORIZED'', L)
           | Some source \<Rightarrow>
               if \<not> physicallyCompleted \<or> eventSerial = 0 \<or> requested = 0 \<or> requested > CarrierCargoCapacity \<or>
                  \<not> ac_Carrier owner \<or> ac_DepotId owner \<noteq> (if lg_residentsV11 L then 5 else CityDepotId) \<or>
                  ac_Predator owner \<or> ac_Consumer owner \<or> ac_RaidSourceDepotId owner \<noteq> 0 \<or> ac_FieldId owner \<noteq> 0 \<or>
                  (if lg_residentsV11 L then sourceDepotId < 1 \<or> sourceDepotId > 3
                   else sourceDepotId \<noteq> 1 \<and> sourceDepotId \<noteq> 4 \<and> sourceDepotId \<noteq> 5 \<and> sourceDepotId \<noteq> 6)
               then (Rejected ''LOAD_NOT_AUTHORIZED'', L)
               else if ac_Cargo owner \<ge> ac_Capacity owner then (Rejected ''CARGO_FULL'', L)
               else let available = (if dp_Stock source > dp_Low source then dp_Stock source - dp_Low source else 0);
                        amount = min (min requested (ac_Capacity owner - ac_Cargo owner)) available in
               if amount = 0 then (Rejected ''VILLAGE_RESERVE'', L)
               else let (result, owner') = SaveEvent eventSerial Loading sourceDepotId requested amount
                          (owner\<lparr>ac_Cargo := ac_Cargo owner + amount\<rparr>)
               in (result, L\<lparr>
                    lg_depots := om_put sourceDepotId (source\<lparr>dp_Stock := dp_Stock source - amount,
                      dp_Exported := dp_Exported source + widen amount\<rparr>) (lg_depots L),
                    lg_actors := om_put actorId owner' (lg_actors L),
                    lg_counters := (lg_counters L)\<lparr>ct_LoadedTotal := ct_LoadedTotal (lg_counters L) + widen amount\<rparr>\<rparr>))))"

text \<open>An actor's own depot, or one of the two city depots for a V11 carrier.\<close>

definition OwnDepot :: "Ledger \<Rightarrow> Actor \<Rightarrow> u32 \<Rightarrow> bool" where
  "OwnDepot L owner depotId =
     (ac_DepotId owner = depotId \<or> (lg_residentsV11 L \<and> ac_Carrier owner \<and> (depotId = 4 \<or> depotId = 5)))"

definition Deliver :: "u64 \<Rightarrow> u64 \<Rightarrow> u32 \<Rightarrow> u32 \<Rightarrow> bool \<Rightarrow> Ledger \<Rightarrow> LedgerResult \<times> Ledger" where
  "Deliver actorId eventSerial depotId requested physicallyCompleted L =
     (case om_find (lg_actors L) actorId of
        None \<Rightarrow> (Rejected ''UNKNOWN_ACTOR'', L)
      | Some owner \<Rightarrow>
          (case ReplayEvent owner eventSerial Delivery depotId requested of
             Some replay \<Rightarrow> (replay, L)
           | None \<Rightarrow>
          (case om_find (lg_depots L) depotId of
             None \<Rightarrow> (Rejected ''DELIVERY_NOT_AUTHORIZED'', L)
           | Some depot \<Rightarrow>
               if \<not> physicallyCompleted \<or> eventSerial = 0 \<or> requested = 0 \<or> ac_Predator owner \<or> ac_Consumer owner \<or>
                  \<not> OwnDepot L owner depotId
               then (Rejected ''DELIVERY_NOT_AUTHORIZED'', L)
               else let amount = min (min requested (ac_Cargo owner)) (dp_Capacity depot - dp_Stock depot) in
               if amount = 0 then (Rejected (if ac_Cargo owner \<noteq> 0 then ''DEPOT_FULL'' else ''NO_CARGO''), L)
               else let (result, owner') = SaveEvent eventSerial Delivery depotId requested amount
                          (owner\<lparr>ac_Cargo := ac_Cargo owner - amount\<rparr>)
               in (result, L\<lparr>
                    lg_depots := om_put depotId (depot\<lparr>dp_Stock := dp_Stock depot + amount,
                      dp_Delivered := dp_Delivered depot + widen amount\<rparr>) (lg_depots L),
                    lg_actors := om_put actorId owner' (lg_actors L),
                    lg_counters := (lg_counters L)\<lparr>ct_DeliveredTotal := ct_DeliveredTotal (lg_counters L) + widen amount\<rparr>\<rparr>))))"

definition EatDepot :: "u64 \<Rightarrow> u64 \<Rightarrow> u32 \<Rightarrow> u32 \<Rightarrow> bool \<Rightarrow> Ledger \<Rightarrow> LedgerResult \<times> Ledger" where
  "EatDepot actorId eventSerial depotId portions physicallyCompleted L =
     (case om_find (lg_actors L) actorId of
        None \<Rightarrow> (Rejected ''UNKNOWN_ACTOR'', L)
      | Some owner \<Rightarrow>
          (case ReplayEvent owner eventSerial Meal depotId portions of
             Some replay \<Rightarrow> (replay, L)
           | None \<Rightarrow>
          (case om_find (lg_depots L) depotId of
             None \<Rightarrow> (Rejected ''MEAL_NOT_AUTHORIZED'', L)
           | Some depot \<Rightarrow>
               if \<not> physicallyCompleted \<or> eventSerial = 0 \<or> portions = 0 \<or> ac_Predator owner \<or> \<not> OwnDepot L owner depotId
               then (Rejected ''MEAL_NOT_AUTHORIZED'', L)
               else if dp_Stock depot < portions then (Rejected ''NO_FOOD'', L)
               else let (result, owner') = SaveEvent eventSerial Meal depotId portions portions owner
               in (result, L\<lparr>
                    lg_depots := om_put depotId (depot\<lparr>dp_Stock := dp_Stock depot - portions,
                      dp_Consumed := dp_Consumed depot + widen portions\<rparr>) (lg_depots L),
                    lg_actors := om_put actorId owner' (lg_actors L),
                    lg_counters := (lg_counters L)\<lparr>ct_ConsumedTotal := ct_ConsumedTotal (lg_counters L) + widen portions,
                      ct_DepotConsumed := ct_DepotConsumed (lg_counters L) + widen portions\<rparr>\<rparr>))))"

definition DropCargo :: "u64 \<Rightarrow> Ledger \<Rightarrow> u32 \<times> Ledger" where
  "DropCargo actorId L =
     (case om_find (lg_actors L) actorId of
        None \<Rightarrow> (0, L)
      | Some _ \<Rightarrow>
          let L1 = snd (CancelActor actorId L) in
          (case om_find (lg_actors L1) actorId of
             None \<Rightarrow> (0, L1)
           | Some owner \<Rightarrow> (ac_Cargo owner, L1\<lparr>
               lg_counters := (lg_counters L1)\<lparr>ct_LostTotal := ct_LostTotal (lg_counters L1) + widen (ac_Cargo owner)\<rparr>,
               lg_actors := om_put actorId (owner\<lparr>ac_Cargo := 0, ac_LastCommitted := None, ac_LastEvent := None\<rparr>)
                 (lg_actors L1)\<rparr>)))"

section \<open>The invariant\<close>

text \<open>
  Each carcass's \<open>Reserved\<close> is the sum of the pending claims on it and never exceeds what
  remains; every pending claim is its actor's own and its carcass is stored; cargo and stock
  stay within their capacities; and both conservation laws hold.
\<close>

definition claim_amount :: "CarcassKey \<Rightarrow> Actor \<Rightarrow> nat" where
  "claim_amount key x = (case ac_Pending x of None \<Rightarrow> 0
     | Some cl \<Rightarrow> if cl_Key cl = key then unat (cl_Amount cl) else 0)"

definition claimed :: "CarcassKey \<Rightarrow> (u64, Actor) omap \<Rightarrow> nat" where
  "claimed key as = om_sum (claim_amount key) as"

definition carcass_ok :: "(u64, Actor) omap \<Rightarrow> u64 \<Rightarrow> Carcass \<Rightarrow> bool" where
  "carcass_ok as k c =
     (ck_Source (cc_Key c) = k \<and> unat (cc_Reserved c) = claimed (cc_Key c) as \<and>
      cc_Reserved c \<le> cc_Remaining c \<and> (cc_Active c \<or> cc_Remaining c = 0))"

definition backed :: "(u64, Carcass) omap \<Rightarrow> u64 \<Rightarrow> Claim \<Rightarrow> bool" where
  "backed cs a cl = (tk_Actor (cl_Id cl) = a \<and> cl_Amount cl \<noteq> 0 \<and>
     map_option cc_Key (om_find cs (ck_Source (cl_Key cl))) = Some (cl_Key cl))"

definition actor_ok :: "(u64, Carcass) omap \<Rightarrow> u64 \<Rightarrow> Actor \<Rightarrow> bool" where
  "actor_ok cs a x =
     (ac_Cargo x \<le> ac_Capacity x \<and> ac_Capacity x \<le> 6 \<and>
      (\<forall>cl. ac_Pending x = Some cl \<longrightarrow>
         backed cs a cl \<and> (cl_Kind cl = PredatorMeal \<or> cl_Amount cl \<le> ac_Capacity x)))"

definition claims_ok :: "(u64, Actor) omap \<Rightarrow> (u64, Carcass) omap \<Rightarrow> bool" where
  "claims_ok as cs =
     (om_wf as \<and> om_wf cs \<and> (\<forall>k c. om_find cs k = Some c \<longrightarrow> carcass_ok as k c) \<and>
      (\<forall>a x. om_find as a = Some x \<longrightarrow> actor_ok cs a x))"

definition depot_ok :: "Depot \<Rightarrow> bool" where
  "depot_ok d = (dp_Stock d \<le> dp_Capacity d \<and> dp_Low d \<le> dp_Target d \<and> dp_Target d \<le> dp_Capacity d)"

definition field_ok :: "Field \<Rightarrow> bool" where
  "field_ok f = (fd_Remaining f \<le> fd_Capacity f \<and> fd_Capacity f \<le> 24 \<and> 30000 \<le> fd_RegrowMs f)"

definition stores_ok :: "Ledger \<Rightarrow> bool" where
  "stores_ok L =
     (om_wf (lg_depots L) \<and> om_wf (lg_fields L) \<and>
      (\<forall>k d. om_find (lg_depots L) k = Some d \<longrightarrow> depot_ok d) \<and>
      (\<forall>k f. om_find (lg_fields L) k = Some f \<longrightarrow> field_ok f))"

definition ledger_ok :: "Ledger \<Rightarrow> bool" where
  "ledger_ok L = (claims_ok (lg_actors L) (lg_carcasses L) \<and> stores_ok L \<and> Conserved L \<and> PotentialConserved L)"

lemma ledger_okD:
  assumes "ledger_ok L"
  shows "claims_ok (lg_actors L) (lg_carcasses L)" "stores_ok L" "Conserved L" "PotentialConserved L"
    "om_wf (lg_actors L)" "om_wf (lg_carcasses L)" "om_wf (lg_depots L)" "om_wf (lg_fields L)"
  using assms by (simp_all add: ledger_ok_def claims_ok_def stores_ok_def)

lemma ledger_init_ok: "ledger_ok Ledger_init"
  by (simp add: ledger_ok_def Ledger_init_def claims_ok_def stores_ok_def Conserved_def PotentialConserved_def
      zero_counters_def DepotFood_def CargoFood_def RemainingPotential_def)

section \<open>Sums\<close>

lemma om_sum_upd:
  fixes f :: "'v \<Rightarrow> 'a::ab_group_add"
  assumes "om_wf m" and "om_find m k = Some w"
  shows "om_sum f (om_put k v m) = om_sum f m + f v - f w"
  using om_sum_put_old [OF assms, of f v] by (simp add: algebra_simps eq_diff_eq)

lemma claimed_upd:
  assumes "om_wf as" and "om_find as a = Some x"
  shows "claimed key (om_put a y as) + claim_amount key x = claimed key as + claim_amount key y"
  using om_sum_put_old [OF assms, of "claim_amount key" y] by (simp add: claimed_def)

lemma claimed_new:
  "om_wf as \<Longrightarrow> om_find as a = None \<Longrightarrow> claimed key (om_put a y as) = claimed key as + claim_amount key y"
  by (simp add: claimed_def om_sum_put_new)

lemma claimed_same:
  assumes "om_wf as" and "om_find as a = Some x" and "ac_Pending y = ac_Pending x"
  shows "claimed key (om_put a y as) = claimed key as"
  using claimed_upd [OF assms(1,2), of key y] assms(3) by (simp add: claim_amount_def)

lemma claimed_ge: "om_find as a = Some x \<Longrightarrow> claim_amount key x \<le> claimed key as"
proof (induction as)
  case (Cons e as)
  then show ?case by (cases e) (auto simp: claimed_def split: if_splits)
qed (simp add: claimed_def)

lemma claimed_zero:
  "(\<And>a x cl. om_find as a = Some x \<Longrightarrow> ac_Pending x = Some cl \<Longrightarrow> cl_Key cl \<noteq> key) \<Longrightarrow> om_wf as \<Longrightarrow> claimed key as = 0"
proof (induction as)
  case (Cons e as)
  obtain a x where e: "e = (a, x)" by fastforce
  have "claim_amount key x = 0"
    using Cons.prems(1) [of a x] e by (auto simp: claim_amount_def split: option.split)
  moreover have "claimed key as = 0"
  proof (rule Cons.IH)
    fix b y cl
    assume b: "om_find as b = Some y" "ac_Pending y = Some cl"
    then have "b \<noteq> a" using Cons.prems(2) e om_find_in in_om_keys by (fastforce simp: om_wf_Cons)
    with b Cons.prems(1) [of b y cl] e show "cl_Key cl \<noteq> key" by simp
  qed (use Cons.prems(2) e in \<open>simp add: om_wf_Cons\<close>)
  ultimately show ?case by (simp add: e claimed_def)
qed (simp add: claimed_def)

section \<open>Claims\<close>

lemma claims_okD:
  assumes "claims_ok as cs"
  shows "om_wf as" "om_wf cs" "om_find cs k = Some c \<Longrightarrow> carcass_ok as k c" "om_find as a = Some x \<Longrightarrow> actor_ok cs a x"
  using assms by (simp_all add: claims_ok_def)

lemma claims_ok_cargo:
  assumes "claims_ok as cs" and "om_find as a = Some x" and "ac_Pending y = ac_Pending x"
    and "ac_Capacity y = ac_Capacity x" and "ac_Cargo y \<le> ac_Capacity y"
  shows "claims_ok (om_put a y as) cs"
  using assms claims_okD [OF assms(1)] claimed_same [OF _ assms(2,3)]
  by (auto simp: claims_ok_def carcass_ok_def actor_ok_def split: if_splits)

lemma claims_ok_add_actor:
  assumes "claims_ok as cs" and "om_find as a = None" and "ac_Pending y = None"
    and "ac_Capacity y \<le> 6" and "ac_Cargo y \<le> ac_Capacity y"
  shows "claims_ok (om_put a y as) cs"
proof -
  have "claimed key (om_put a y as) = claimed key as" for key
    using claimed_new [OF _ assms(2)] claims_okD(1) [OF assms(1)] assms(3) by (simp add: claim_amount_def)
  then show ?thesis
    using assms claims_okD [OF assms(1)] by (auto simp: claims_ok_def carcass_ok_def actor_ok_def split: if_splits)
qed

text \<open>An actor's pending claim disappears and its carcass gives up the claimed amount.\<close>

lemma backed_put:
  "om_wf cs \<Longrightarrow> om_find cs k = Some c \<Longrightarrow> cc_Key c' = cc_Key c \<Longrightarrow> backed (om_put k c' cs) a cl = backed cs a cl"
  by (auto simp: backed_def)

lemma claims_ok_drop:
  assumes ok: "claims_ok as cs" and x: "om_find as a = Some x" and cl: "ac_Pending x = Some cl"
    and c: "om_find cs k = Some c" and key: "cc_Key c = cl_Key cl"
    and y: "ac_Pending y = None" "ac_Capacity y = ac_Capacity x" "ac_Cargo y \<le> ac_Capacity y"
    and c': "cc_Key c' = cc_Key c" "cc_Reserved c' = cc_Reserved c - cl_Amount cl" "cc_Active c' = cc_Active c"
    and rem: "cc_Remaining c' = cc_Remaining c \<or> cc_Remaining c' = cc_Remaining c - cl_Amount cl"
  shows "claims_ok (om_put a y as) (om_put k c' cs)"
    and "cl_Amount cl \<le> cc_Reserved c" and "cc_Reserved c \<le> cc_Remaining c"
proof -
  note okD = claims_okD [OF ok]
  have cok: "carcass_ok as k c" by (rule okD(3) [OF c])
  have amt: "claim_amount (cl_Key cl) x = unat (cl_Amount cl)" by (simp add: claim_amount_def cl)
  show le: "cl_Amount cl \<le> cc_Reserved c"
    using claimed_ge [OF x, of "cl_Key cl"] cok key amt by (simp add: carcass_ok_def word_le_nat_alt)
  show rr: "cc_Reserved c \<le> cc_Remaining c" using cok by (simp add: carcass_ok_def)
  have sub: "unat (cc_Reserved c - cl_Amount cl) = unat (cc_Reserved c) - unat (cl_Amount cl)"
    using le by (simp add: word_le_nat_alt unat_sub_if')
  have sub2: "unat (cc_Remaining c - cl_Amount cl) = unat (cc_Remaining c) - unat (cl_Amount cl)"
    using le rr by (simp add: word_le_nat_alt unat_sub_if')
  have claimed: "claimed key (om_put a y as) + (if key = cl_Key cl then unat (cl_Amount cl) else 0) = claimed key as" for key
    using claimed_upd [OF okD(1) x, of key y] y(1) by (auto simp: claim_amount_def cl)
  have "cc_Reserved c - cl_Amount cl \<le> cc_Remaining c'"
    using rem rr le sub sub2 by (auto simp: word_le_nat_alt)
  moreover have "cc_Active c \<or> cc_Remaining c' = 0"
  proof (cases "cc_Active c")
    case False
    then have "cc_Remaining c = 0" using cok by (simp add: carcass_ok_def)
    with rr le have "cl_Amount cl = 0" by (simp add: word_le_nat_alt unat_eq_0)
    with \<open>cc_Remaining c = 0\<close> rem show ?thesis by auto
  qed simp
  ultimately have c'ok: "carcass_ok (om_put a y as) k c'"
    using cok claimed [of "cl_Key cl"] c' key sub by (simp add: carcass_ok_def)
  have other: "carcass_ok (om_put a y as) j d" if "om_find cs j = Some d" "j \<noteq> k" for j d
  proof -
    have d: "carcass_ok as j d" by (rule okD(3) [OF that(1)])
    moreover have "cc_Key d \<noteq> cl_Key cl" using d that(2) cok key by (auto simp: carcass_ok_def)
    ultimately show ?thesis using claimed [of "cc_Key d"] by (simp add: carcass_ok_def)
  qed
  have act: "actor_ok (om_put k c' cs) b z" if "om_find as b = Some z" for b z
    using okD(4) [OF that] backed_put [OF okD(2) c c'(1)] by (simp add: actor_ok_def)
  have "actor_ok (om_put k c' cs) a y" using y okD(4) [OF x] by (simp add: actor_ok_def)
  with act c'ok other okD(1,2) show "claims_ok (om_put a y as) (om_put k c' cs)"
    by (auto simp: claims_ok_def split: if_splits)
qed

lemma claims_ok_reserve:
  assumes ok: "claims_ok as cs" and x: "om_find as a = Some x" and none: "ac_Pending x = None"
    and c: "om_find cs k = Some c" and cl: "cl_Key cl = cc_Key c" "tk_Actor (cl_Id cl) = a" "cl_Amount cl \<noteq> 0"
    and room: "cl_Amount cl \<le> cc_Remaining c - cc_Reserved c"
    and fits: "cl_Kind cl = PredatorMeal \<or> cl_Amount cl \<le> ac_Capacity x"
  shows "claims_ok (om_put a (x\<lparr>ac_Pending := Some cl\<rparr>) as)
    (om_put k (c\<lparr>cc_Reserved := cc_Reserved c + cl_Amount cl\<rparr>) cs)"
proof -
  note okD = claims_okD [OF ok]
  let ?y = "x\<lparr>ac_Pending := Some cl\<rparr>" and ?c = "c\<lparr>cc_Reserved := cc_Reserved c + cl_Amount cl\<rparr>"
  have cok: "carcass_ok as k c" by (rule okD(3) [OF c])
  then have rr: "cc_Reserved c \<le> cc_Remaining c" by (simp add: carcass_ok_def)
  have sum: "unat (cc_Reserved c) + unat (cl_Amount cl) \<le> unat (cc_Remaining c)"
    and le: "cc_Reserved c + cl_Amount cl \<le> cc_Remaining c" using word_sub_room [OF rr room] by auto
  have "unat (cc_Reserved c) + unat (cl_Amount cl) < 2 ^ LENGTH(32)"
    using sum unat_lt2p_32 [of "cc_Remaining c"] by simp
  then have add: "unat (cc_Reserved c + cl_Amount cl) = unat (cc_Reserved c) + unat (cl_Amount cl)"
    by (simp add: unat_word_ariths)
  have claimed: "claimed key (om_put a ?y as) = claimed key as + (if key = cc_Key c then unat (cl_Amount cl) else 0)" for key
    using claimed_upd [OF okD(1) x, of key ?y] none cl(1) by (auto simp: claim_amount_def)
  have cok': "carcass_ok (om_put a ?y as) k ?c"
    using cok add le claimed [of "cc_Key c"] by (simp add: carcass_ok_def)
  have other: "carcass_ok (om_put a ?y as) j d" if "om_find cs j = Some d" "j \<noteq> k" for j d
  proof -
    have d: "carcass_ok as j d" by (rule okD(3) [OF that(1)])
    moreover have "cc_Key d \<noteq> cc_Key c" using d that(2) cok by (auto simp: carcass_ok_def)
    ultimately show ?thesis using claimed [of "cc_Key d"] by (simp add: carcass_ok_def)
  qed
  have bk: "backed (om_put k ?c cs) b cl'  = backed cs b cl'" for b cl'
    by (rule backed_put [OF okD(2) c]) simp
  have act: "actor_ok (om_put k ?c cs) b z" if "om_find as b = Some z" for b z
    using okD(4) [OF that] bk by (simp add: actor_ok_def)
  have "backed cs a cl" using cok c cl by (simp add: backed_def carcass_ok_def)
  with act [OF x] bk fits have "actor_ok (om_put k ?c cs) a ?y" by (simp add: actor_ok_def)
  with act cok' other okD(1,2) show ?thesis by (auto simp: claims_ok_def split: if_splits)
qed

lemma claims_ok_close:
  assumes ok: "claims_ok as cs" and c: "om_find cs k = Some c" and zero: "claimed (cc_Key c) as = 0"
    and c': "cc_Key c' = cc_Key c" "cc_Reserved c' = cc_Reserved c" "cc_Remaining c' = 0"
  shows "claims_ok as (om_put k c' cs)"
proof -
  note okD = claims_okD [OF ok]
  have "carcass_ok as k c'" using okD(3) [OF c] zero c' by (auto simp: carcass_ok_def unat_eq_0)
  moreover have "actor_ok (om_put k c' cs) b z" if "om_find as b = Some z" for b z
    using okD(4) [OF that] backed_put [OF okD(2) c c'(1)] by (simp add: actor_ok_def)
  ultimately show ?thesis using okD by (auto simp: claims_ok_def split: if_splits)
qed

lemma claims_ok_new_carcass:
  assumes ok: "claims_ok as cs" and src: "ck_Source (cc_Key c') = k"
    and old: "\<And>c. om_find cs k = Some c \<Longrightarrow> cc_Key c \<noteq> cc_Key c' \<and> claimed (cc_Key c) as = 0"
    and c': "cc_Reserved c' = 0" "cc_Active c'"
  shows "claims_ok as (om_put k c' cs)"
proof -
  note okD = claims_okD [OF ok]
  have away: "ck_Source (cl_Key cl) \<noteq> k" if "om_find as b = Some z" "ac_Pending z = Some cl" for b z cl
  proof
    assume k: "ck_Source (cl_Key cl) = k"
    from okD(4) [OF that(1)] that(2) k obtain c where c: "om_find cs k = Some c" "cc_Key c = cl_Key cl"
        and pos: "cl_Amount cl \<noteq> 0"
      by (auto simp: actor_ok_def backed_def)
    with old have "claimed (cl_Key cl) as = 0" by auto
    with claimed_ge [OF that(1), of "cl_Key cl"] that(2) pos show False by (simp add: claim_amount_def unat_eq_0)
  qed
  then have "cl_Key cl \<noteq> cc_Key c'" if "om_find as b = Some z" "ac_Pending z = Some cl" for b z cl
    using away [OF that] src by auto
  then have "claimed (cc_Key c') as = 0" using claimed_zero okD(1) by blast
  then have "carcass_ok as k c'" using src c' by (simp add: carcass_ok_def)
  moreover have "actor_ok (om_put k c' cs) b z" if "om_find as b = Some z" for b z
    using okD(2) okD(4) [OF that] away [OF that] by (auto simp: actor_ok_def backed_def)
  ultimately show ?thesis using okD by (auto simp: claims_ok_def split: if_splits)
qed

section \<open>Dropping claims and closing carcasses\<close>

lemma FindCarcass_Some: "FindCarcass L key = Some c \<longleftrightarrow> om_find (lg_carcasses L) (ck_Source key) = Some c \<and> cc_Key c = key"
  by (auto simp: FindCarcass_def split: option.split)

lemmas totals = Conserved_def PotentialConserved_def DepotFood_def CargoFood_def RemainingPotential_def

lemma pending_backed:
  assumes "ledger_ok L" and "om_find (lg_actors L) a = Some x" and "ac_Pending x = Some cl"
  obtains c where "FindCarcass L (cl_Key cl) = Some c" and "tk_Actor (cl_Id cl) = a" and "cl_Amount cl \<noteq> 0"
  using claims_okD(4) [OF ledger_okD(1) [OF assms(1)] assms(2)] assms(3)
  by (auto simp: actor_ok_def backed_def FindCarcass_Some)

lemma drop_claim_eq:
  assumes "FindCarcass L (cl_Key cl) = Some c"
  shows "drop_claim a x cl L = L\<lparr>
    lg_carcasses := om_put (ck_Source (cl_Key cl)) (c\<lparr>cc_Reserved := cc_Reserved c - cl_Amount cl\<rparr>) (lg_carcasses L),
    lg_actors := om_put a (x\<lparr>ac_Pending := None\<rparr>) (lg_actors L)\<rparr>"
  using assms by (simp add: drop_claim_def Release_def)

lemma drop_claim_ok:
  assumes ok: "ledger_ok L" and x: "om_find (lg_actors L) a = Some x" and cl: "ac_Pending x = Some cl"
  shows "ledger_ok (drop_claim a x cl L)"
proof -
  obtain c where c: "FindCarcass L (cl_Key cl) = Some c" using pending_backed [OF ok x cl] .
  then have f: "om_find (lg_carcasses L) (ck_Source (cl_Key cl)) = Some c" and key: "cc_Key c = cl_Key cl"
    by (simp_all add: FindCarcass_Some)
  note okD = ledger_okD [OF ok]
  let ?as = "om_put a (x\<lparr>ac_Pending := None\<rparr>) (lg_actors L)"
  let ?cs = "om_put (ck_Source (cl_Key cl)) (c\<lparr>cc_Reserved := cc_Reserved c - cl_Amount cl\<rparr>) (lg_carcasses L)"
  have "ac_Cargo x \<le> ac_Capacity x" using claims_okD(4) [OF okD(1) x] by (simp add: actor_ok_def)
  then have "claims_ok ?as ?cs" by (intro claims_ok_drop(1) [OF okD(1) x cl f key]) simp_all
  moreover have "om_sum (\<lambda>a. widen (ac_Cargo a)) ?as = om_sum (\<lambda>a. widen (ac_Cargo a)) (lg_actors L)"
    using okD(5) x by (simp add: om_sum_put_same)
  moreover have "om_sum (\<lambda>c. widen (cc_Remaining c)) ?cs = om_sum (\<lambda>c. widen (cc_Remaining c)) (lg_carcasses L)"
    using okD(6) f by (simp add: om_sum_put_same)
  ultimately show ?thesis
    using ok unfolding drop_claim_eq [OF c] by (simp add: ledger_ok_def stores_ok_def totals)
qed

text \<open>What dropping a claim does to every actor, and what it keeps of every carcass.\<close>

definition drops_to :: "(Claim \<Rightarrow> bool) \<Rightarrow> Actor \<Rightarrow> Actor" where
  "drops_to P x = (case ac_Pending x of None \<Rightarrow> x | Some cl \<Rightarrow> if P cl then x\<lparr>ac_Pending := None\<rparr> else x)"

definition same_body :: "Carcass \<Rightarrow> Carcass \<Rightarrow> bool" where
  "same_body c c' = (c' = c\<lparr>cc_Reserved := cc_Reserved c'\<rparr>)"

lemma drops_to_pending: "ac_Pending (drops_to P z) = Some cl \<Longrightarrow> \<not> P cl"
  by (auto simp: drops_to_def split: option.splits if_splits)

lemma same_body_trans: "same_body c c' \<Longrightarrow> same_body c' c'' \<Longrightarrow> same_body c c''"
  by (cases c; cases c'; cases c'') (simp add: same_body_def)

lemma DropClaims_loop_facts:
  assumes "ledger_ok L"
  shows "ledger_ok (DropClaims_loop P as L) \<and>
    om_find (lg_actors (DropClaims_loop P as L)) b
      = map_option (if b \<in> set as then drops_to P else id) (om_find (lg_actors L) b) \<and>
    rel_option same_body (om_find (lg_carcasses L) k) (om_find (lg_carcasses (DropClaims_loop P as L)) k) \<and>
    lg_depots (DropClaims_loop P as L) = lg_depots L \<and> lg_fields (DropClaims_loop P as L) = lg_fields L \<and>
    lg_counters (DropClaims_loop P as L) = lg_counters L \<and>
    lg_nextClaimSerial (DropClaims_loop P as L) = lg_nextClaimSerial L"
  using assms
proof (induction as arbitrary: L)
  case Nil
  then show ?case by (auto simp: option.map_id same_body_def intro: option.rel_refl_strong)
next
  case (Cons a as)
  consider (skip) "DropClaims_loop P (a # as) L = DropClaims_loop P as L"
      "map_option (drops_to P) (om_find (lg_actors L) a) = om_find (lg_actors L) a"
    | (drop) x cl where "om_find (lg_actors L) a = Some x" "ac_Pending x = Some cl" "P cl"
      "DropClaims_loop P (a # as) L = DropClaims_loop P as (drop_claim a x cl L)"
  proof (cases "om_find (lg_actors L) a")
    case None
    then show thesis by (intro skip) simp_all
  next
    case (Some x)
    show thesis
    proof (cases "\<exists>cl. ac_Pending x = Some cl \<and> P cl")
      case True
      with Some show thesis by (auto intro: drop)
    next
      case False
      with Some show thesis by (intro skip) (auto simp: drops_to_def split: option.split)
    qed
  qed
  then show ?case
  proof cases
    case skip
    then show ?thesis using Cons.IH [OF Cons.prems] by (cases "b = a") auto
  next
    case drop
    obtain c where c: "FindCarcass L (cl_Key cl) = Some c" using pending_backed [OF Cons.prems drop(1,2)] .
    let ?L = "drop_claim a x cl L"
    note IH = Cons.IH [OF drop_claim_ok [OF Cons.prems drop(1,2)]]
    have act: "om_find (lg_actors ?L) b = (if b = a then Some (drops_to P x) else om_find (lg_actors L) b)"
      using drop ledger_okD(5) [OF Cons.prems] by (simp add: drop_claim_eq [OF c] drops_to_def)
    have car: "rel_option same_body (om_find (lg_carcasses L) k) (om_find (lg_carcasses ?L) k)"
      using c ledger_okD(6) [OF Cons.prems]
      by (auto simp: drop_claim_eq [OF c] FindCarcass_Some same_body_def intro: option.rel_refl_strong)
    have idem: "drops_to P (drops_to P x) = drops_to P x" for x
      by (simp add: drops_to_def split: option.split)
    have tr: "rel_option same_body u v \<Longrightarrow> rel_option same_body v w \<Longrightarrow> rel_option same_body u w" for u v w
      by (cases u; cases v; cases w) (auto intro: same_body_trans)
    show ?thesis
      using IH act drop(1) idem tr [OF car] unfolding drop(4) by (auto simp: drop_claim_eq [OF c])
  qed
qed

lemma CloseCarcass_facts:
  assumes ok: "ledger_ok L" and c0: "FindCarcass L key = Some c0"
  shows "ledger_ok (CloseCarcass key L)"
    and "\<exists>c. FindCarcass (CloseCarcass key L) key = Some c \<and> cc_Remaining c = 0"
proof -
  have "ledger_ok (CloseCarcass key L) \<and> (\<exists>c. FindCarcass (CloseCarcass key L) key = Some c \<and> cc_Remaining c = 0)"
  proof (cases "cc_Active c0")
    case False
    have "carcass_ok (lg_actors L) (ck_Source key) c0"
      using c0 claims_okD(3) [OF ledger_okD(1) [OF ok], of "ck_Source key" c0] by (simp add: FindCarcass_Some)
    with False have "cc_Remaining c0 = 0" by (simp add: carcass_ok_def)
    with False c0 ok show ?thesis by (simp add: CloseCarcass_def)
  next
    case True
    let ?P = "\<lambda>claim. cl_Key claim = key"
    define L1 where "L1 = DropClaims_loop ?P (om_keys (lg_actors L)) L"
    note dc = DropClaims_loop_facts [OF ok, of ?P "om_keys (lg_actors L)", folded L1_def]
    have ok1: "ledger_ok L1" using dc by blast
    have f0: "om_find (lg_carcasses L) (ck_Source key) = Some c0" "cc_Key c0 = key"
      using c0 by (simp_all add: FindCarcass_Some)
    have "rel_option same_body (om_find (lg_carcasses L) (ck_Source key)) (om_find (lg_carcasses L1) (ck_Source key))"
      using dc [of undefined "ck_Source key"] by blast
    then obtain c where c: "om_find (lg_carcasses L1) (ck_Source key) = Some c" "same_body c0 c"
      unfolding f0(1) by (auto simp: option_rel_Some1)
    have key: "cc_Key c = key" using c(2) f0(2) by (cases c; cases c0) (simp add: same_body_def)
    have "cl_Key cl \<noteq> key" if "om_find (lg_actors L1) a = Some x" "ac_Pending x = Some cl" for a x cl
    proof -
      have f: "om_find (lg_actors L1) a = map_option (if a \<in> set (om_keys (lg_actors L)) then drops_to ?P else id)
          (om_find (lg_actors L) a)" using dc by blast
      with that(1) have "om_find (lg_actors L) a \<noteq> None" by (cases "om_find (lg_actors L) a") simp_all
      then have "a \<in> set (om_keys (lg_actors L))" by (simp add: set_om_keys)
      with f that(1) obtain z where "x = drops_to ?P z" by (cases "om_find (lg_actors L) a") auto
      with that(2) drops_to_pending show ?thesis by blast
    qed
    then have zero: "claimed (cc_Key c) (lg_actors L1) = 0"
      using claimed_zero [of "lg_actors L1" key] ledger_okD(5) [OF ok1] key by blast
    have close: "CloseCarcass key L = L1\<lparr>lg_counters := (lg_counters L1)\<lparr>ct_PotentialLost :=
          ct_PotentialLost (lg_counters L1) + widen (cc_Remaining c)\<rparr>,
        lg_carcasses := om_put (ck_Source key) (c\<lparr>cc_Remaining := 0, cc_Active := False\<rparr>) (lg_carcasses L1)\<rparr>"
      using True c0 c(1) key by (simp add: CloseCarcass_def L1_def [symmetric] FindCarcass_def [of L1])
    have "claims_ok (lg_actors L1) (om_put (ck_Source key) (c\<lparr>cc_Remaining := 0, cc_Active := False\<rparr>) (lg_carcasses L1))"
      by (rule claims_ok_close [OF ledger_okD(1) [OF ok1] c(1) zero]) simp_all
    moreover have "om_sum (\<lambda>c. widen (cc_Remaining c))
        (om_put (ck_Source key) (c\<lparr>cc_Remaining := 0, cc_Active := False\<rparr>) (lg_carcasses L1))
        = om_sum (\<lambda>c. widen (cc_Remaining c)) (lg_carcasses L1) - widen (cc_Remaining c)"
      using om_sum_upd [OF ledger_okD(6) [OF ok1] c(1), of "\<lambda>c. widen (cc_Remaining c)"
          "c\<lparr>cc_Remaining := 0, cc_Active := False\<rparr>"] by simp
    ultimately have "ledger_ok (CloseCarcass key L)"
      using ok1 unfolding close by (simp add: ledger_ok_def stores_ok_def totals algebra_simps)
    moreover have "FindCarcass (CloseCarcass key L) key = Some (c\<lparr>cc_Remaining := 0, cc_Active := False\<rparr>)"
      using ledger_okD(6) [OF ok1] key unfolding close by (simp add: FindCarcass_Some)
    ultimately show ?thesis by simp
  qed
  then show "ledger_ok (CloseCarcass key L)"
    and "\<exists>c. FindCarcass (CloseCarcass key L) key = Some c \<and> cc_Remaining c = 0" by blast+
qed

lemma CloseCarcass_ok: "ledger_ok L \<Longrightarrow> ledger_ok (CloseCarcass key L)"
  using CloseCarcass_facts(1) by (cases "FindCarcass L key") (auto simp: CloseCarcass_def)

section \<open>Regrowth and expiry\<close>

lemma Regrow_facts:
  assumes "field_ok f"
  shows "field_ok (fst (Regrow f now))"
    and "widen (fd_Remaining (fst (Regrow f now))) = widen (fd_Remaining f) + widen (snd (Regrow f now))"
proof -
  let ?room = "fd_Capacity f - fd_Remaining f"
  let ?g = "ucast (min ((now - fd_LastGrowthAtMs f) div fd_RegrowMs f) (widen ?room)) :: u32"
  have "min ((now - fd_LastGrowthAtMs f) div fd_RegrowMs f) (widen ?room) \<le> widen ?room" by simp
  then have m: "unat (min ((now - fd_LastGrowthAtMs f) div fd_RegrowMs f) (widen ?room)) \<le> unat ?room"
    by (simp only: word_le_nat_alt unat_widen)
  have "unat ?g \<le> unat (min ((now - fd_LastGrowthAtMs f) div fd_RegrowMs f) (widen ?room))"
    by (simp add: unsigned_ucast_eq take_bit_nat_less_eq_self)
  with m have g: "?g \<le> ?room" by (simp add: word_le_nat_alt)
  have le: "fd_Remaining f \<le> fd_Capacity f" using assms by (simp add: field_ok_def)
  note room = word_sub_room [OF le g]
  have "unat (fd_Remaining f) + unat ?g < 2 ^ 32" using room(1) unat_lt2p_32 [of "fd_Capacity f"] by simp
  then have w: "widen (fd_Remaining f + ?g) = widen (fd_Remaining f) + widen ?g" by (rule widen_add)
  show "field_ok (fst (Regrow f now))"
    using assms room(2) by (simp add: Regrow_def Let_def field_ok_def)
  show "widen (fd_Remaining (fst (Regrow f now))) = widen (fd_Remaining f) + widen (snd (Regrow f now))"
    using w by (simp add: Regrow_def Let_def)
qed

lemma Regrow_loop_ok: "ledger_ok L \<Longrightarrow> ledger_ok (Regrow_loop now ids L)"
proof (induction now ids L rule: Regrow_loop.induct)
  case (2 now i ids L)
  show ?case
  proof (cases "om_find (lg_fields L) i")
    case None
    with 2 show ?thesis by simp
  next
    case (Some f)
    note okD = ledger_okD [OF 2(3)]
    obtain f' g where r: "Regrow f now = (f', g)" by fastforce
    have f: "field_ok f" using okD(2) Some by (simp add: stores_ok_def)
    have f': "field_ok f'" "widen (fd_Remaining f') = widen (fd_Remaining f) + widen g"
      using Regrow_facts [OF f, of now] r by simp_all
    let ?L = "L\<lparr>lg_fields := om_put i f' (lg_fields L),
      lg_counters := (lg_counters L)\<lparr>ct_PotentialCreated := ct_PotentialCreated (lg_counters L) + widen g\<rparr>\<rparr>"
    have "om_sum (\<lambda>f. widen (fd_Remaining f)) (om_put i f' (lg_fields L))
        = om_sum (\<lambda>f. widen (fd_Remaining f)) (lg_fields L) + widen g"
      using om_sum_upd [OF okD(8) Some, of "\<lambda>f. widen (fd_Remaining f)" f'] f'(2) by (simp add: algebra_simps)
    then have "ledger_ok ?L"
      using 2(3) okD(8) f'(1) by (simp add: ledger_ok_def stores_ok_def totals algebra_simps)
    with 2(2) [OF Some r [symmetric] refl] Some r show ?thesis by simp
  qed
qed simp

lemma ExpireCarcass_loop_ok: "ledger_ok L \<Longrightarrow> ledger_ok (ExpireCarcass_loop now ks L)"
proof (induction now ks L rule: ExpireCarcass_loop.induct)
  case (2 now k ks L)
  then show ?case using CloseCarcass_ok by (cases "om_find (lg_carcasses L) k") auto
qed simp

lemma Expire_ok [preserved]: "ledger_ok L \<Longrightarrow> ledger_ok (Expire now L)"
  unfolding Expire_def Let_def
  using Regrow_loop_ok DropClaims_loop_facts ExpireCarcass_loop_ok by metis

section \<open>Every operation preserves the invariant\<close>

lemma add_actor_ok:
  assumes "ledger_ok L" and "ac_Pending y = None" and "ac_Capacity y \<le> 6" and "ac_Cargo y = 0"
  shows "ledger_ok (snd (add_actor a same y L))"
proof (cases "om_find (lg_actors L) a")
  case None
  note okD = ledger_okD [OF assms(1)]
  have "claims_ok (om_put a y (lg_actors L)) (lg_carcasses L)"
    using claims_ok_add_actor [OF okD(1) None assms(2,3)] assms(4) by simp
  moreover have "om_sum (\<lambda>a. widen (ac_Cargo a)) (om_put a y (lg_actors L)) = om_sum (\<lambda>a. widen (ac_Cargo a)) (lg_actors L)"
    using om_sum_put_new [OF okD(5) None, of "\<lambda>a. widen (ac_Cargo a)" y] assms(4) by simp
  ultimately show ?thesis using assms(1) None by (simp add: add_actor_def ledger_ok_def stores_ok_def totals)
qed (use assms in \<open>simp add: add_actor_def\<close>)

lemma new_actor_simps [simp]:
  "ac_Pending (new_actor d c p k) = None" "ac_Capacity (new_actor d c p k) = c" "ac_Cargo (new_actor d c p k) = 0"
  by (simp_all add: new_actor_def)

lemma Register_ok [preserved]:
  assumes "ledger_ok L"
  shows "ledger_ok (snd (RegisterActor a d c p k L))" and "ledger_ok (snd (RegisterFarmer a d f c L))"
    and "ledger_ok (snd (RegisterRaider a d s c av L))" and "ledger_ok (snd (RegisterCarrier a d c L))"
proof -
  have two: "c \<le> 2 \<Longrightarrow> c \<le> (6::u32)" by (erule order_trans) simp
  show "ledger_ok (snd (RegisterActor a d c p k L))"
    using assms by (auto simp: RegisterActor_def ledger_constants intro!: add_actor_ok split: if_splits)
  show "ledger_ok (snd (RegisterFarmer a d f c L))"
    using assms two by (auto simp: RegisterFarmer_def ledger_constants linorder_not_less intro!: add_actor_ok split: option.split)
  show "ledger_ok (snd (RegisterRaider a d s c av L))"
    using assms by (auto simp: RegisterRaider_def ledger_constants intro!: add_actor_ok)
  show "ledger_ok (snd (RegisterCarrier a d c L))"
    using assms by (auto simp: RegisterCarrier_def ledger_constants intro!: add_actor_ok)
qed

lemma ConfigureDepot_ok [preserved]:
  assumes "ledger_ok L"
  shows "ledger_ok (snd (ConfigureDepot i n c t l L))"
proof (cases "GetDepot L i")
  case None
  note okD = ledger_okD [OF assms]
  let ?d = "\<lparr>dp_Id = i, dp_Stock = n, dp_Capacity = c, dp_Target = t, dp_Low = l, dp_Stolen = 0,
    dp_Exported = 0, dp_Delivered = 0, dp_Consumed = 0\<rparr>"
  have "om_sum (\<lambda>d. widen (dp_Stock d)) (om_put i ?d (lg_depots L)) = om_sum (\<lambda>d. widen (dp_Stock d)) (lg_depots L) + widen n"
    using om_sum_put_new [OF okD(7) None [unfolded GetDepot_def], of "\<lambda>d. widen (dp_Stock d)" ?d] by simp
  with assms okD(7) None show ?thesis
    by (auto simp: ConfigureDepot_def ledger_ok_def stores_ok_def depot_ok_def totals algebra_simps)
qed (use assms in \<open>simp add: ConfigureDepot_def\<close>)

lemma ConfigureResidentsV11_ok [preserved]: "ledger_ok L \<Longrightarrow> ledger_ok (snd (ConfigureResidentsV11 L))"
  by (auto simp: ConfigureResidentsV11_def ledger_ok_def stores_ok_def totals)

lemma ConfigureField_ok [preserved]:
  assumes "ledger_ok L"
  shows "ledger_ok (snd (ConfigureField i now n c g L))"
proof (cases "GetField L i")
  case None
  note okD = ledger_okD [OF assms]
  let ?f = "\<lparr>fd_Id = i, fd_DepotId = i, fd_Remaining = n, fd_Capacity = c, fd_RegrowMs = g, fd_LastGrowthAtMs = now,
    fd_HarvestedTotal = 0, fd_RegrownTotal = 0\<rparr>"
  have "om_sum (\<lambda>f. widen (fd_Remaining f)) (om_put i ?f (lg_fields L)) = om_sum (\<lambda>f. widen (fd_Remaining f)) (lg_fields L) + widen n"
    using om_sum_put_new [OF okD(8) None [unfolded GetField_def], of "\<lambda>f. widen (fd_Remaining f)" ?f] by simp
  with assms okD(8) None show ?thesis
    by (simp add: ConfigureField_def ledger_constants ledger_ok_def stores_ok_def field_ok_def totals algebra_simps
        linorder_not_less)
qed (use assms in \<open>simp add: ConfigureField_def\<close>)

lemma Cancel_ok [preserved]: "ledger_ok L \<Longrightarrow> ledger_ok (snd (Cancel token L))"
  using drop_claim_ok by (auto simp: Cancel_def split: option.split)

lemma CancelActor_ok [preserved]: "ledger_ok L \<Longrightarrow> ledger_ok (snd (CancelActor a L))"
  using Cancel_ok by (auto simp: CancelActor_def split: option.split)

text \<open>Putting a fresh carcass under a source whose old carcass, if any, is closed.\<close>

lemma put_carcass_ok:
  assumes ok: "ledger_ok L" and src: "ck_Source key = k" and n: "0 < portions"
    and old: "\<And>c. om_find (lg_carcasses L) k = Some c \<Longrightarrow> cc_Key c \<noteq> key \<and> cc_Remaining c = 0"
  shows "ledger_ok (L\<lparr>lg_carcasses := om_put k \<lparr>cc_Key = key, cc_Remaining = portions, cc_Reserved = 0,
      cc_ExpiresAtMs = e, cc_Active = True\<rparr> (lg_carcasses L),
    lg_counters := (lg_counters L)\<lparr>ct_PotentialCreated := ct_PotentialCreated (lg_counters L) + widen portions\<rparr>\<rparr>)"
proof -
  note okD = ledger_okD [OF ok]
  let ?c = "\<lparr>cc_Key = key, cc_Remaining = portions, cc_Reserved = 0, cc_ExpiresAtMs = e, cc_Active = True\<rparr>"
  have zero: "cc_Key c \<noteq> cc_Key ?c \<and> claimed (cc_Key c) (lg_actors L) = 0" if "om_find (lg_carcasses L) k = Some c" for c
    using old [OF that] claims_okD(3) [OF okD(1) that] by (auto simp: carcass_ok_def unat_eq_0)
  have cl: "claims_ok (lg_actors L) (om_put k ?c (lg_carcasses L))"
    by (rule claims_ok_new_carcass [OF okD(1) _ zero]) (simp_all add: src)
  have sum: "om_sum (\<lambda>c. widen (cc_Remaining c)) (om_put k ?c (lg_carcasses L))
      = om_sum (\<lambda>c. widen (cc_Remaining c)) (lg_carcasses L) + widen portions"
  proof (cases "om_find (lg_carcasses L) k")
    case None
    from om_sum_put_new [OF okD(6) this, of "\<lambda>c. widen (cc_Remaining c)" ?c] show ?thesis by simp
  next
    case (Some c)
    from om_sum_upd [OF okD(6) this, of "\<lambda>c. widen (cc_Remaining c)" ?c] old [OF Some] show ?thesis by simp
  qed
  show ?thesis using ok cl sum by (simp add: ledger_ok_def stores_ok_def totals algebra_simps)
qed

lemma RegisterCarcass_ok [preserved]:
  assumes ok: "ledger_ok L"
  shows "ledger_ok (snd (RegisterCarcass key now e n L))"
proof (cases "ck_Source key = 0 \<or> ck_Life key = 0 \<or> e \<le> now \<or> n = 0 \<or> n > CarcassPortions")
  case True
  with ok show ?thesis by (simp add: RegisterCarcass_def)
next
  case False
  then have n: "0 < n" by (simp add: word_neq_0_conv)
  show ?thesis
  proof (cases "om_find (lg_carcasses L) (ck_Source key)")
    case None
    then have "ledger_ok (L\<lparr>lg_carcasses := om_put (ck_Source key) \<lparr>cc_Key = key, cc_Remaining = n, cc_Reserved = 0,
      cc_ExpiresAtMs = e, cc_Active = True\<rparr> (lg_carcasses L),
    lg_counters := (lg_counters L)\<lparr>ct_PotentialCreated := ct_PotentialCreated (lg_counters L) + widen n\<rparr>\<rparr>)"
      by (intro put_carcass_ok [OF ok refl n]) simp
    with None ok False show ?thesis by (simp add: RegisterCarcass_def)
  next
    case (Some c)
    show ?thesis
    proof (cases "ck_Life key \<le> ck_Life (cc_Key c)")
      case True
      with Some ok show ?thesis by (simp add: RegisterCarcass_def)
    next
      case newer: False
      have src: "ck_Source (cc_Key c) = ck_Source key"
        using claims_okD(3) [OF ledger_okD(1) [OF ok] Some] by (simp add: carcass_ok_def)
      have "FindCarcass L (cc_Key c) = Some c" using Some src by (simp add: FindCarcass_Some)
      note close = CloseCarcass_facts [OF ok this]
      let ?L = "CloseCarcass (cc_Key c) L"
      from close(2) obtain d where d: "om_find (lg_carcasses ?L) (ck_Source key) = Some d"
          "cc_Key d = cc_Key c" "cc_Remaining d = 0"
        by (auto simp: FindCarcass_Some src)
      have "ledger_ok (?L\<lparr>lg_carcasses := om_put (ck_Source key) \<lparr>cc_Key = key, cc_Remaining = n, cc_Reserved = 0,
          cc_ExpiresAtMs = e, cc_Active = True\<rparr> (lg_carcasses ?L),
        lg_counters := (lg_counters ?L)\<lparr>ct_PotentialCreated := ct_PotentialCreated (lg_counters ?L) + widen n\<rparr>\<rparr>)"
        using d newer by (intro put_carcass_ok [OF close(1) refl n]) auto
      with Some newer False show ?thesis by (simp add: RegisterCarcass_def)
    qed
  qed
qed

lemma Reserve_ok [preserved]:
  assumes ok0: "ledger_ok L0"
  shows "ledger_ok (snd (Reserve a key kind req now ttl L0))"
proof -
  define L where "L = Expire now L0"
  have ok: "ledger_ok L" unfolding L_def by (rule Expire_ok [OF ok0])
  note okD = ledger_okD [OF ok]
  show ?thesis
  proof (cases "snd (Reserve a key kind req now ttl L0) = L")
    case True
    with ok show ?thesis by simp
  next
    case False
    then obtain x c where x: "om_find (lg_actors L) a = Some x" and c: "FindCarcass L key = Some c"
      unfolding Reserve_def L_def [symmetric] by (auto simp: Let_def split: option.splits)
    with False have none: "ac_Pending x = None"
      unfolding Reserve_def L_def [symmetric] by (auto simp: Let_def split: option.splits if_splits)
    define amount where "amount = (let m = min req (cc_Remaining c - cc_Reserved c) in
      if ac_Predator x then m else min m (ac_Capacity x - ac_Cargo x))"
    from False x c none obtain e where pos: "amount \<noteq> 0" and res: "snd (Reserve a key kind req now ttl L0) = L\<lparr>
        lg_nextClaimSerial := lg_nextClaimSerial L + 1,
        lg_actors := om_put a (x\<lparr>ac_Pending := Some \<lparr>cl_Id = \<lparr>tk_Actor = a, tk_Serial = lg_nextClaimSerial L + 1\<rparr>,
          cl_Key = key, cl_Kind = kind, cl_Requested = req, cl_Amount = amount, cl_ExpiresAtMs = e\<rparr>\<rparr>) (lg_actors L),
        lg_carcasses := om_put (ck_Source key) (c\<lparr>cc_Reserved := cc_Reserved c + amount\<rparr>) (lg_carcasses L)\<rparr>"
      unfolding Reserve_def L_def [symmetric] by (auto simp: Let_def amount_def split: if_splits)
    let ?cl = "\<lparr>cl_Id = \<lparr>tk_Actor = a, tk_Serial = lg_nextClaimSerial L + 1\<rparr>,
          cl_Key = key, cl_Kind = kind, cl_Requested = req, cl_Amount = amount, cl_ExpiresAtMs = e\<rparr>"
    have f: "om_find (lg_carcasses L) (ck_Source key) = Some c" "cc_Key c = key" using c by (simp_all add: FindCarcass_Some)
    have am: "amount \<le> min req (cc_Remaining c - cc_Reserved c)"
      unfolding amount_def Let_def by (simp only: order_refl min.cobounded1 split: if_split) simp
    then have room: "amount \<le> cc_Remaining c - cc_Reserved c" and req: "amount \<le> req" by simp_all
    from False x c none have "\<not> ReserveRefused x kind req"
      unfolding Reserve_def L_def [symmetric] by (auto simp: Let_def split: if_splits)
    then have "kind = PredatorMeal \<or> req \<le> ac_Capacity x"
      by (cases kind) (auto simp: ReserveRefused_def linorder_not_less)
    then have fits: "kind = PredatorMeal \<or> amount \<le> ac_Capacity x" using req order_trans by blast
    have "claims_ok (om_put a (x\<lparr>ac_Pending := Some ?cl\<rparr>) (lg_actors L))
        (om_put (ck_Source key) (c\<lparr>cc_Reserved := cc_Reserved c + cl_Amount ?cl\<rparr>) (lg_carcasses L))"
      using f pos room fits by (intro claims_ok_reserve [OF okD(1) x none f(1)]) simp_all
    moreover have "om_sum (\<lambda>a. widen (ac_Cargo a)) (om_put a (x\<lparr>ac_Pending := Some ?cl\<rparr>) (lg_actors L))
        = om_sum (\<lambda>a. widen (ac_Cargo a)) (lg_actors L)"
      by (rule om_sum_put_same [OF okD(5) x]) simp
    moreover have "om_sum (\<lambda>c. widen (cc_Remaining c))
        (om_put (ck_Source key) (c\<lparr>cc_Reserved := cc_Reserved c + amount\<rparr>) (lg_carcasses L))
        = om_sum (\<lambda>c. widen (cc_Remaining c)) (lg_carcasses L)"
      by (rule om_sum_put_same [OF okD(6) f(1)]) simp
    ultimately show ?thesis using ok unfolding res by (simp add: ledger_ok_def stores_ok_def totals)
  qed
qed

lemma actor_capacity: "ledger_ok L \<Longrightarrow> om_find (lg_actors L) a = Some x \<Longrightarrow> ac_Cargo x \<le> ac_Capacity x \<and> ac_Capacity x \<le> 6"
  using claims_okD(4) [OF ledger_okD(1)] by (simp add: actor_ok_def)

lemma widen_room:
  fixes x n cap :: u32
  assumes "x \<le> cap" and "n \<le> cap - x"
  shows "x + n \<le> cap" and "widen (x + n) = widen x + widen n"
proof -
  note room = word_sub_room [OF assms]
  show "x + n \<le> cap" by (rule room(2))
  have "unat x + unat n < 2 ^ 32" using room(1) unat_lt2p_32 [of cap] by simp
  then show "widen (x + n) = widen x + widen n" by (rule widen_add)
qed

text \<open>The claim is paid out of the carcass into the cargo, or eaten on the spot.\<close>

lemma CommitClaim_ok:
  assumes ok: "ledger_ok L" and x: "om_find (lg_actors L) (tk_Actor token) = Some x" and cl: "ac_Pending x = Some cl"
  shows "ledger_ok (snd (CommitClaim token x cl now L))"
proof (cases "cl_Id cl = token \<and> \<not> ClaimInvalid L x cl now")
  case False
  with ok Cancel_ok [OF ok] show ?thesis by (auto simp: CommitClaim_def)
next
  case True
  note okD = ledger_okD [OF ok]
  obtain c where c: "FindCarcass L (cl_Key cl) = Some c" using pending_backed [OF ok x cl] .
  then have f: "om_find (lg_carcasses L) (ck_Source (cl_Key cl)) = Some c" and key: "cc_Key c = cl_Key cl"
    by (simp_all add: FindCarcass_Some)
  define cargo where "cargo = (if cl_Kind cl = PredatorMeal then ac_Cargo x else ac_Cargo x + cl_Amount cl)"
  define y where "y = x\<lparr>ac_Pending := None, ac_Cargo := cargo, ac_LastCommitted := Some (token,
    \<lparr>rs_Success = True, rs_Duplicate = False, rs_Portions = cl_Amount cl, rs_Reason = ''COMMITTED''\<rparr>)\<rparr>"
  define c' where "c' = c\<lparr>cc_Remaining := cc_Remaining c - cl_Amount cl, cc_Reserved := cc_Reserved c - cl_Amount cl\<rparr>"
  have res: "snd (CommitClaim token x cl now L) = L\<lparr>
      lg_carcasses := om_put (ck_Source (cl_Key cl)) c' (lg_carcasses L),
      lg_actors := om_put (tk_Actor token) y (lg_actors L), lg_counters := CommitCounters cl (lg_counters L)\<rparr>"
    using True c by (simp add: CommitClaim_def Let_def y_def c'_def cargo_def)
  have kind: "cl_Kind cl = PredatorMeal \<or> cl_Kind cl = Harvest" by (cases "cl_Kind cl") auto
  note cap = actor_capacity [OF ok x]
  have cargo: "cargo \<le> ac_Capacity x \<and> widen cargo = widen (ac_Cargo x) + (if cl_Kind cl = PredatorMeal then 0 else widen (cl_Amount cl))"
  proof (cases "cl_Kind cl = PredatorMeal")
    case True
    with cap show ?thesis by (simp add: cargo_def)
  next
    case False
    with kind True c have room: "ac_Cargo x \<le> ac_Capacity x - cl_Amount cl"
      by (simp add: ClaimInvalid_def linorder_not_less)
    moreover have "cl_Amount cl \<le> ac_Capacity x"
      using False claims_okD(4) [OF okD(1) x] cl by (auto simp: actor_ok_def)
    ultimately show ?thesis using widen_room [of "cl_Amount cl" "ac_Capacity x" "ac_Cargo x"] False
      by (simp add: cargo_def add.commute)
  qed
  have y: "ac_Pending y = None" "ac_Capacity y = ac_Capacity x" "ac_Cargo y = cargo" by (simp_all add: y_def)
  have c': "cc_Key c' = cc_Key c" "cc_Reserved c' = cc_Reserved c - cl_Amount cl" "cc_Active c' = cc_Active c"
    "cc_Remaining c' = cc_Remaining c - cl_Amount cl" by (simp_all add: c'_def)
  note drop = claims_ok_drop [OF okD(1) x cl f key, of y c']
  have claims: "claims_ok (om_put (tk_Actor token) y (lg_actors L)) (om_put (ck_Source (cl_Key cl)) c' (lg_carcasses L))"
    and le: "cl_Amount cl \<le> cc_Remaining c"
    using drop y c' cargo order_trans by auto
  have sums: "om_sum (\<lambda>a. widen (ac_Cargo a)) (om_put (tk_Actor token) y (lg_actors L))
      = om_sum (\<lambda>a. widen (ac_Cargo a)) (lg_actors L) + widen cargo - widen (ac_Cargo x)"
    "om_sum (\<lambda>c. widen (cc_Remaining c)) (om_put (ck_Source (cl_Key cl)) c' (lg_carcasses L))
      = om_sum (\<lambda>c. widen (cc_Remaining c)) (lg_carcasses L) - widen (cl_Amount cl)"
    using om_sum_upd [OF okD(5) x, of "\<lambda>a. widen (ac_Cargo a)" y]
      om_sum_upd [OF okD(6) f, of "\<lambda>c. widen (cc_Remaining c)" c'] y c' widen_diff [OF le] by simp_all
  show ?thesis
    using ok claims sums cargo unfolding res
    by (simp add: ledger_ok_def stores_ok_def totals CommitCounters_def Let_def algebra_simps)
qed

lemma Commit_ok [preserved]: "ledger_ok L \<Longrightarrow> ledger_ok (snd (Commit token now L))"
  using Expire_ok CommitClaim_ok by (auto simp: Commit_def Let_def split: option.split)

text \<open>An exchange between an actor and a depot, with \<open>eaten\<close> leaving the world.\<close>

lemma depot_exchange_ok:
  assumes ok: "ledger_ok L" and x: "om_find (lg_actors L) a = Some x" and d: "om_find (lg_depots L) k = Some d"
    and y: "ac_Pending y = ac_Pending x" "ac_Capacity y = ac_Capacity x" "ac_Cargo y \<le> ac_Capacity x"
    and d': "depot_ok d'"
    and bal: "widen (dp_Stock d') + widen (ac_Cargo y) + eaten = widen (dp_Stock d) + widen (ac_Cargo x)"
    and ct: "ct_InitialFood ct = ct_InitialFood (lg_counters L)" "ct_HarvestedTotal ct = ct_HarvestedTotal (lg_counters L)"
      "ct_LostTotal ct = ct_LostTotal (lg_counters L)" "ct_PotentialCreated ct = ct_PotentialCreated (lg_counters L)"
      "ct_PotentialLost ct = ct_PotentialLost (lg_counters L)" "ct_ConsumedTotal ct = ct_ConsumedTotal (lg_counters L) + eaten"
  shows "ledger_ok (L\<lparr>lg_depots := om_put k d' (lg_depots L), lg_actors := om_put a y (lg_actors L), lg_counters := ct\<rparr>)"
proof -
  note okD = ledger_okD [OF ok]
  have claims: "claims_ok (om_put a y (lg_actors L)) (lg_carcasses L)"
    using y by (intro claims_ok_cargo [OF okD(1) x]) simp_all
  let ?A = "om_sum (\<lambda>a. widen (ac_Cargo a))" and ?D = "om_sum (\<lambda>d. widen (dp_Stock d))"
  have A: "?A (om_put a y (lg_actors L)) = ?A (lg_actors L) + widen (ac_Cargo y) - widen (ac_Cargo x)"
    by (rule om_sum_upd [OF okD(5) x])
  have D: "?D (om_put k d' (lg_depots L)) = ?D (lg_depots L) + widen (dp_Stock d') - widen (dp_Stock d)"
    by (rule om_sum_upd [OF okD(7) d])
  have "widen (dp_Stock d') = widen (dp_Stock d) + widen (ac_Cargo x) - widen (ac_Cargo y) - eaten"
    using bal by (simp add: eq_diff_eq ac_simps)
  then have "?D (om_put k d' (lg_depots L)) + ?A (om_put a y (lg_actors L)) + eaten = ?D (lg_depots L) + ?A (lg_actors L)"
    unfolding A D by simp
  then have "?D (om_put k d' (lg_depots L)) + ?A (om_put a y (lg_actors L)) + (ct_ConsumedTotal (lg_counters L) + eaten)
      = ?D (lg_depots L) + ?A (lg_actors L) + ct_ConsumedTotal (lg_counters L)"
    by (simp add: ac_simps)
  then show ?thesis
    using ok claims d' okD(7) ct by (simp add: ledger_ok_def stores_ok_def totals)
qed

lemma field_harvest_ok:
  assumes ok: "ledger_ok L" and x: "om_find (lg_actors L) a = Some x" and f: "om_find (lg_fields L) k = Some f"
    and y: "ac_Pending y = ac_Pending x" "ac_Capacity y = ac_Capacity x" "ac_Cargo y \<le> ac_Capacity x"
      "widen (ac_Cargo y) = widen (ac_Cargo x) + widen n"
    and f': "fd_Remaining f' = fd_Remaining f - n" "fd_Capacity f' = fd_Capacity f" "fd_RegrowMs f' = fd_RegrowMs f"
    and n: "n \<le> fd_Remaining f"
  shows "ledger_ok (L\<lparr>lg_fields := om_put k f' (lg_fields L), lg_actors := om_put a y (lg_actors L),
    lg_counters := (lg_counters L)\<lparr>ct_HarvestedTotal := ct_HarvestedTotal (lg_counters L) + widen n\<rparr>\<rparr>)"
proof -
  note okD = ledger_okD [OF ok]
  have claims: "claims_ok (om_put a y (lg_actors L)) (lg_carcasses L)"
    using y by (intro claims_ok_cargo [OF okD(1) x]) simp_all
  have fok: "field_ok f" using okD(2) f by (simp add: stores_ok_def)
  have "fd_Remaining f - n \<le> fd_Remaining f" using n by (simp add: word_le_nat_alt unat_sub_if')
  with fok f' have f'ok: "field_ok f'" by (auto simp: field_ok_def)
  have "om_sum (\<lambda>a. widen (ac_Cargo a)) (om_put a y (lg_actors L))
      = om_sum (\<lambda>a. widen (ac_Cargo a)) (lg_actors L) + widen (ac_Cargo y) - widen (ac_Cargo x)"
    "om_sum (\<lambda>f. widen (fd_Remaining f)) (om_put k f' (lg_fields L))
      = om_sum (\<lambda>f. widen (fd_Remaining f)) (lg_fields L) + widen (fd_Remaining f') - widen (fd_Remaining f)"
    by (rule om_sum_upd [OF okD(5) x, of "\<lambda>a. widen (ac_Cargo a)" y])
       (rule om_sum_upd [OF okD(8) f, of "\<lambda>f. widen (fd_Remaining f)" f'])
  moreover have "widen (fd_Remaining f') = widen (fd_Remaining f) - widen n" using f'(1) widen_diff [OF n] by simp
  ultimately show ?thesis
    using ok claims f'ok okD(8) y(4) by (simp add: ledger_ok_def stores_ok_def totals algebra_simps)
qed

lemma SaveEvent_simps [simp]:
  "ac_Pending (snd (SaveEvent s k d r n x)) = ac_Pending x" "ac_Capacity (snd (SaveEvent s k d r n x)) = ac_Capacity x"
  "ac_Cargo (snd (SaveEvent s k d r n x)) = ac_Cargo x"
  by (simp_all add: SaveEvent_def Let_def)

lemma depot_stock: "ledger_ok L \<Longrightarrow> om_find (lg_depots L) k = Some d \<Longrightarrow> depot_ok d"
  using ledger_okD(2) by (simp add: stores_ok_def)

lemma depot_ok_less: "depot_ok d \<Longrightarrow> n \<le> dp_Stock d \<Longrightarrow> dp_Stock d' = dp_Stock d - n \<Longrightarrow> dp_Capacity d' = dp_Capacity d \<Longrightarrow>
    dp_Low d' = dp_Low d \<Longrightarrow> dp_Target d' = dp_Target d \<Longrightarrow> depot_ok d'"
  using word_sub_le_iff [of "dp_Stock d" n] order_trans by (fastforce simp: depot_ok_def)

lemma HarvestField_ok [preserved]:
  assumes "ledger_ok L0"
  shows "ledger_ok (snd (HarvestField a s f req now phys L0))"
proof -
  define L where "L = Expire now L0"
  have ok: "ledger_ok L" unfolding L_def by (rule Expire_ok [OF assms])
  show ?thesis
  proof (cases "snd (HarvestField a s f req now phys L0) = L")
    case True
    with ok show ?thesis by simp
  next
    case False
    then obtain x fd where x: "om_find (lg_actors L) a = Some x" and fd: "om_find (lg_fields L) f = Some fd"
      unfolding HarvestField_def L_def [symmetric] by (auto simp: Let_def split: option.splits)
    define n where "n = min (min req (ac_Capacity x - ac_Cargo x)) (fd_Remaining fd)"
    have n: "n \<le> ac_Capacity x - ac_Cargo x" "n \<le> fd_Remaining fd" by (auto simp: n_def min_le_iff_disj)
    have full: "ac_Cargo x = ac_Capacity x \<Longrightarrow> n = 0" by (simp add: n_def)
    note room = widen_room [OF conjunct1 [OF actor_capacity [OF ok x]] n(1)]
    have "snd (HarvestField a s f req now phys L0) = L\<lparr>
        lg_fields := om_put f (fd\<lparr>fd_Remaining := fd_Remaining fd - n, fd_HarvestedTotal := fd_HarvestedTotal fd + widen n\<rparr>) (lg_fields L),
        lg_actors := om_put a (snd (SaveEvent s FieldHarvest f req n (x\<lparr>ac_Cargo := ac_Cargo x + n\<rparr>))) (lg_actors L),
        lg_counters := (lg_counters L)\<lparr>ct_HarvestedTotal := ct_HarvestedTotal (lg_counters L) + widen n\<rparr>\<rparr>"
      using False x fd full unfolding HarvestField_def L_def [symmetric]
      by (auto simp: Let_def n_def [symmetric] case_prod_unfold split: option.splits if_splits)
    then show ?thesis using room n by (auto intro!: field_harvest_ok [OF ok x fd])
  qed
qed

lemma Steal_ok [preserved]:
  assumes ok: "ledger_ok L"
  shows "ledger_ok (snd (Steal a s k req phys L))"
proof (cases "snd (Steal a s k req phys L) = L")
  case True
  with ok show ?thesis by simp
next
  case False
  then obtain x d where x: "om_find (lg_actors L) a = Some x" and d: "om_find (lg_depots L) k = Some d"
    unfolding Steal_def by (auto simp: Let_def split: option.splits)
  define n where "n = min req (ac_Capacity x - ac_Cargo x)"
  have room: "n \<le> ac_Capacity x - ac_Cargo x" by (simp add: n_def)
  note room = widen_room [OF conjunct1 [OF actor_capacity [OF ok x]] room]
  from False x d have stock: "n \<le> dp_Stock d" and res: "snd (Steal a s k req phys L) = L\<lparr>
      lg_depots := om_put k (d\<lparr>dp_Stock := dp_Stock d - n, dp_Stolen := dp_Stolen d + widen n\<rparr>) (lg_depots L),
      lg_actors := om_put a (snd (SaveEvent s Theft k req n (x\<lparr>ac_Cargo := ac_Cargo x + n\<rparr>))) (lg_actors L),
      lg_counters := (lg_counters L)\<lparr>ct_StolenTotal := ct_StolenTotal (lg_counters L) + widen n\<rparr>\<rparr>"
    unfolding Steal_def by (auto simp: Let_def n_def [symmetric] case_prod_unfold linorder_not_less split: option.splits if_splits)
  show ?thesis unfolding res
    using room widen_diff [OF stock] depot_ok_less [OF depot_stock [OF ok d] stock]
    by (intro depot_exchange_ok [OF ok x d, where eaten = 0]) simp_all
qed

lemma Load_ok [preserved]:
  assumes ok: "ledger_ok L"
  shows "ledger_ok (snd (Load a s k req phys L))"
proof (cases "snd (Load a s k req phys L) = L")
  case True
  with ok show ?thesis by simp
next
  case False
  then obtain x d where x: "om_find (lg_actors L) a = Some x" and d: "om_find (lg_depots L) k = Some d"
    unfolding Load_def by (auto simp: Let_def split: option.splits)
  define n where "n = min (min req (ac_Capacity x - ac_Cargo x)) (if dp_Stock d > dp_Low d then dp_Stock d - dp_Low d else 0)"
  have room: "n \<le> ac_Capacity x - ac_Cargo x" by (auto simp: n_def min_le_iff_disj)
  note room = widen_room [OF conjunct1 [OF actor_capacity [OF ok x]] room]
  have "n \<le> (if dp_Stock d > dp_Low d then dp_Stock d - dp_Low d else 0)" by (simp only: n_def min.cobounded2)
  then have stock: "n \<le> dp_Stock d" by (auto simp: word_le_nat_alt word_less_nat_alt unat_sub_if' split: if_splits)
  let ?L = "L\<lparr>
      lg_depots := om_put k (d\<lparr>dp_Stock := dp_Stock d - n, dp_Exported := dp_Exported d + widen n\<rparr>) (lg_depots L),
      lg_actors := om_put a (snd (SaveEvent s Loading k req n (x\<lparr>ac_Cargo := ac_Cargo x + n\<rparr>))) (lg_actors L),
      lg_counters := (lg_counters L)\<lparr>ct_LoadedTotal := ct_LoadedTotal (lg_counters L) + widen n\<rparr>\<rparr>"
  have "\<exists>g1 g2 g3 r e. Load a s k req phys L = (case ReplayEvent x s Loading k req of Some replay \<Rightarrow> (replay, L)
      | None \<Rightarrow> if g1 then (g3, L) else if g2 then (r, L) else if n = 0 then (e, L)
          else (fst (SaveEvent s Loading k req n (x\<lparr>ac_Cargo := ac_Cargo x + n\<rparr>)), ?L))"
    unfolding Load_def x d option.case Let_def n_def case_prod_unfold by blast
  with False have res: "snd (Load a s k req phys L) = ?L"
    by (auto split: option.splits if_splits)
  show ?thesis unfolding res
    using room widen_diff [OF stock] depot_ok_less [OF depot_stock [OF ok d] stock]
    by (intro depot_exchange_ok [OF ok x d, where eaten = 0]) simp_all
qed

lemma Deliver_ok [preserved]:
  assumes ok: "ledger_ok L"
  shows "ledger_ok (snd (Deliver a s k req phys L))"
proof (cases "snd (Deliver a s k req phys L) = L")
  case True
  with ok show ?thesis by simp
next
  case False
  then obtain x d where x: "om_find (lg_actors L) a = Some x" and d: "om_find (lg_depots L) k = Some d"
    unfolding Deliver_def by (auto simp: Let_def split: option.splits)
  define n where "n = min (min req (ac_Cargo x)) (dp_Capacity d - dp_Stock d)"
  have cargo: "n \<le> ac_Cargo x" and free: "n \<le> dp_Capacity d - dp_Stock d" by (auto simp: n_def min_le_iff_disj)
  have dok: "depot_ok d" by (rule depot_stock [OF ok d])
  then have "dp_Stock d \<le> dp_Capacity d" by (simp add: depot_ok_def)
  note room = widen_room [OF this free]
  have less: "ac_Cargo x - n \<le> ac_Cargo x" using cargo by (simp add: word_le_nat_alt unat_sub_if')
  have none: "ac_Cargo x = 0 \<Longrightarrow> n = 0" by (simp add: n_def)
  from False x d none have res: "snd (Deliver a s k req phys L) = L\<lparr>
      lg_depots := om_put k (d\<lparr>dp_Stock := dp_Stock d + n, dp_Delivered := dp_Delivered d + widen n\<rparr>) (lg_depots L),
      lg_actors := om_put a (snd (SaveEvent s Delivery k req n (x\<lparr>ac_Cargo := ac_Cargo x - n\<rparr>))) (lg_actors L),
      lg_counters := (lg_counters L)\<lparr>ct_DeliveredTotal := ct_DeliveredTotal (lg_counters L) + widen n\<rparr>\<rparr>"
    unfolding Deliver_def by (auto simp: Let_def n_def [symmetric] case_prod_unfold split: option.splits if_splits)
  show ?thesis unfolding res
    using room widen_diff [OF cargo] less actor_capacity [OF ok x] dok order_trans
    by (intro depot_exchange_ok [OF ok x d, where eaten = 0]) (auto simp: depot_ok_def)
qed

lemma EatDepot_ok [preserved]:
  assumes ok: "ledger_ok L"
  shows "ledger_ok (snd (EatDepot a s k n phys L))"
proof (cases "snd (EatDepot a s k n phys L) = L")
  case True
  with ok show ?thesis by simp
next
  case False
  then obtain x d where x: "om_find (lg_actors L) a = Some x" and d: "om_find (lg_depots L) k = Some d"
    unfolding EatDepot_def by (auto simp: Let_def split: option.splits)
  from False x d have stock: "n \<le> dp_Stock d" and res: "snd (EatDepot a s k n phys L) = L\<lparr>
      lg_depots := om_put k (d\<lparr>dp_Stock := dp_Stock d - n, dp_Consumed := dp_Consumed d + widen n\<rparr>) (lg_depots L),
      lg_actors := om_put a (snd (SaveEvent s Meal k n n x)) (lg_actors L),
      lg_counters := (lg_counters L)\<lparr>ct_ConsumedTotal := ct_ConsumedTotal (lg_counters L) + widen n,
        ct_DepotConsumed := ct_DepotConsumed (lg_counters L) + widen n\<rparr>\<rparr>"
    unfolding EatDepot_def by (auto simp: Let_def case_prod_unfold linorder_not_less split: option.splits if_splits)
  show ?thesis unfolding res
    using widen_diff [OF stock] depot_ok_less [OF depot_stock [OF ok d] stock] actor_capacity [OF ok x]
    by (intro depot_exchange_ok [OF ok x d, where eaten = "widen n"]) simp_all
qed

lemma DropCargo_ok [preserved]:
  assumes "ledger_ok L"
  shows "ledger_ok (snd (DropCargo a L))"
proof -
  define L1 where "L1 = snd (CancelActor a L)"
  have ok: "ledger_ok L1" unfolding L1_def by (rule CancelActor_ok [OF assms])
  note okD = ledger_okD [OF ok]
  show ?thesis
  proof (cases "om_find (lg_actors L) a = None \<or> om_find (lg_actors L1) a = None")
    case True
    with assms ok show ?thesis by (auto simp: DropCargo_def L1_def [symmetric] split: option.split)
  next
    case False
    then obtain x where x: "om_find (lg_actors L1) a = Some x" and some: "om_find (lg_actors L) a \<noteq> None" by auto
    define y where "y = x\<lparr>ac_Cargo := 0, ac_LastCommitted := None, ac_LastEvent := None\<rparr>"
    have y: "ac_Pending y = ac_Pending x" "ac_Capacity y = ac_Capacity x" "ac_Cargo y = 0" by (simp_all add: y_def)
    have "claims_ok (om_put a y (lg_actors L1)) (lg_carcasses L1)"
      using y by (intro claims_ok_cargo [OF okD(1) x]) simp_all
    moreover have "om_sum (\<lambda>a. widen (ac_Cargo a)) (om_put a y (lg_actors L1))
        = om_sum (\<lambda>a. widen (ac_Cargo a)) (lg_actors L1) - widen (ac_Cargo x)"
      using om_sum_upd [OF okD(5) x, of "\<lambda>a. widen (ac_Cargo a)" y] y(3) by simp
    moreover have "snd (DropCargo a L) = L1\<lparr>
        lg_counters := (lg_counters L1)\<lparr>ct_LostTotal := ct_LostTotal (lg_counters L1) + widen (ac_Cargo x)\<rparr>,
        lg_actors := om_put a y (lg_actors L1)\<rparr>"
      using some x by (auto simp: DropCargo_def L1_def [symmetric] y_def)
    ultimately show ?thesis using ok by (simp add: ledger_ok_def stores_ok_def totals algebra_simps)
  qed
qed

section \<open>Executions\<close>

datatype ledger_op =
    LConfigureDepot u32 u32 u32 u32 u32
  | LConfigureResidentsV11
  | LConfigureField u32 u64 u32 u32 u64
  | LRegisterActor u64 u32 u32 bool bool
  | LRegisterFarmer u64 u32 u32 u32
  | LRegisterRaider u64 u32 u32 u32 bool
  | LRegisterCarrier u64 u32 u32
  | LRegisterCarcass CarcassKey u64 u64 u32
  | LReserve u64 CarcassKey ClaimKind u32 u64 u64
  | LCommit Token u64
  | LCancel Token
  | LCancelActor u64
  | LCloseCarcass CarcassKey
  | LExpire u64
  | LHarvestField u64 u64 u32 u32 u64 bool
  | LSteal u64 u64 u32 u32 bool
  | LLoad u64 u64 u32 u32 bool
  | LDeliver u64 u64 u32 u32 bool
  | LEatDepot u64 u64 u32 u32 bool
  | LDropCargo u64

fun ledger_step :: "ledger_op \<Rightarrow> Ledger \<Rightarrow> Ledger" where
  "ledger_step (LConfigureDepot i n c t l) L = snd (ConfigureDepot i n c t l L)"
| "ledger_step LConfigureResidentsV11 L = snd (ConfigureResidentsV11 L)"
| "ledger_step (LConfigureField i now n c g) L = snd (ConfigureField i now n c g L)"
| "ledger_step (LRegisterActor a d c p k) L = snd (RegisterActor a d c p k L)"
| "ledger_step (LRegisterFarmer a d f c) L = snd (RegisterFarmer a d f c L)"
| "ledger_step (LRegisterRaider a d s c av) L = snd (RegisterRaider a d s c av L)"
| "ledger_step (LRegisterCarrier a d c) L = snd (RegisterCarrier a d c L)"
| "ledger_step (LRegisterCarcass key now e n) L = snd (RegisterCarcass key now e n L)"
| "ledger_step (LReserve a key kind r now ttl) L = snd (Reserve a key kind r now ttl L)"
| "ledger_step (LCommit t now) L = snd (Commit t now L)"
| "ledger_step (LCancel t) L = snd (Cancel t L)"
| "ledger_step (LCancelActor a) L = snd (CancelActor a L)"
| "ledger_step (LCloseCarcass key) L = CloseCarcass key L"
| "ledger_step (LExpire now) L = Expire now L"
| "ledger_step (LHarvestField a s f r now p) L = snd (HarvestField a s f r now p L)"
| "ledger_step (LSteal a s d r p) L = snd (Steal a s d r p L)"
| "ledger_step (LLoad a s d r p) L = snd (Load a s d r p L)"
| "ledger_step (LDeliver a s d r p) L = snd (Deliver a s d r p L)"
| "ledger_step (LEatDepot a s d n p) L = snd (EatDepot a s d n p L)"
| "ledger_step (LDropCargo a) L = snd (DropCargo a L)"

definition ledger_run :: "ledger_op list \<Rightarrow> Ledger" where
  "ledger_run ops = fold ledger_step ops Ledger_init"

lemma ledger_step_ok: "ledger_ok L \<Longrightarrow> ledger_ok (ledger_step op L)"
  by (cases op) (simp_all add: preserved CloseCarcass_ok)

lemma ledger_run_ok: "ledger_ok (ledger_run ops)"
proof -
  have "ledger_ok L \<Longrightarrow> ledger_ok (fold ledger_step ops L)" for L
    by (induction ops arbitrary: L) (simp_all add: ledger_step_ok)
  then show ?thesis using ledger_init_ok by (simp add: ledger_run_def)
qed

section \<open>What expiry leaves of an actor\<close>

definition same_account :: "Actor \<Rightarrow> Actor \<Rightarrow> bool" where
  "same_account x y = (y = x\<lparr>ac_Pending := ac_Pending y\<rparr> \<and> (ac_Pending y = ac_Pending x \<or> ac_Pending y = None))"

lemma same_account_refl [simp]: "same_account x x"
  by (simp add: same_account_def)

lemma same_account_trans: "same_account x y \<Longrightarrow> same_account y z \<Longrightarrow> same_account x z"
  by (cases x; cases y; cases z) (auto simp: same_account_def)

lemma rel_account_refl [simp]: "rel_option same_account u u"
  by (cases u) simp_all

lemma rel_account_trans:
  "rel_option same_account u v \<Longrightarrow> rel_option same_account v w \<Longrightarrow> rel_option same_account u w"
  by (cases u; cases v; cases w) (auto intro: same_account_trans)

lemma DropClaims_account:
  assumes "ledger_ok L"
  shows "rel_option same_account (om_find (lg_actors L) b) (om_find (lg_actors (DropClaims_loop P as L)) b)"
proof -
  have "om_find (lg_actors (DropClaims_loop P as L)) b
      = map_option (if b \<in> set as then drops_to P else id) (om_find (lg_actors L) b)"
    using DropClaims_loop_facts [OF assms] by blast
  moreover have "same_account x (drops_to P x)" for x
    by (auto simp: drops_to_def same_account_def split: option.split)
  ultimately show ?thesis by (cases "om_find (lg_actors L) b") auto
qed

lemma CloseCarcass_account:
  assumes "ledger_ok L"
  shows "rel_option same_account (om_find (lg_actors L) b) (om_find (lg_actors (CloseCarcass key L)) b)"
proof -
  have "lg_actors (CloseCarcass key L) = lg_actors L \<or>
      lg_actors (CloseCarcass key L) = lg_actors (DropClaims_loop (\<lambda>claim. cl_Key claim = key) (om_keys (lg_actors L)) L)"
    by (auto simp: CloseCarcass_def Let_def split: option.split)
  then show ?thesis
  proof
    assume "lg_actors (CloseCarcass key L) = lg_actors L"
    then show ?thesis by simp
  next
    assume e: "lg_actors (CloseCarcass key L) = lg_actors (DropClaims_loop (\<lambda>claim. cl_Key claim = key) (om_keys (lg_actors L)) L)"
    show ?thesis unfolding e by (rule DropClaims_account [OF assms])
  qed
qed

lemma ExpireCarcass_account:
  "ledger_ok L \<Longrightarrow> rel_option same_account (om_find (lg_actors L) b) (om_find (lg_actors (ExpireCarcass_loop now ks L)) b)"
proof (induction now ks L rule: ExpireCarcass_loop.induct)
  case (2 now k ks L)
  show ?case
  proof (cases "om_find (lg_carcasses L) k")
    case (Some c)
    let ?L = "if cc_Active c \<and> now \<ge> cc_ExpiresAtMs c then CloseCarcass (cc_Key c) L else L"
    have ok: "ledger_ok ?L" using CloseCarcass_ok [OF 2(3)] 2(3) by simp
    have "rel_option same_account (om_find (lg_actors L) b) (om_find (lg_actors ?L) b)"
      using CloseCarcass_account [OF 2(3)] by simp
    from rel_account_trans [OF this 2(2) [OF Some ok]] Some show ?thesis by simp
  next
    case None
    from 2(1) [OF None 2(3)] None show ?thesis by simp
  qed
qed simp

lemma Regrow_loop_actors [simp]: "lg_actors (Regrow_loop now ids L) = lg_actors L"
  by (induction now ids L rule: Regrow_loop.induct) (auto split: option.splits prod.splits)

lemma Expire_account:
  assumes "ledger_ok L"
  shows "rel_option same_account (om_find (lg_actors L) b) (om_find (lg_actors (Expire now L)) b)"
proof -
  let ?L1 = "Regrow_loop now (om_keys (lg_fields L)) L"
  let ?L2 = "DropClaims_loop (\<lambda>claim. now \<ge> cl_ExpiresAtMs claim) (om_keys (lg_actors ?L1)) ?L1"
  have ok1: "ledger_ok ?L1" by (rule Regrow_loop_ok [OF assms])
  have "rel_option same_account (om_find (lg_actors L) b) (om_find (lg_actors ?L2) b)"
    using DropClaims_account [OF ok1] by simp
  moreover have "ledger_ok ?L2" using DropClaims_loop_facts [OF ok1] by blast
  ultimately show ?thesis unfolding Expire_def Let_def using ExpireCarcass_account rel_account_trans by blast
qed

section \<open>Replays\<close>

lemma ReplayEvent_saved:
  "ReplayEvent (snd (SaveEvent s k d r n x)) s k d r = Some (Replayed (fst (SaveEvent s k d r n x)))"
  by (simp add: ReplayEvent_def SaveEvent_def Let_def)

lemma Replayed_idem [simp]: "Replayed (Replayed r) = Replayed r"
  by (simp add: Replayed_def)

text \<open>An event that changed the ledger saved its receipt with the actor.\<close>

definition saved :: "Ledger \<Rightarrow> u64 \<Rightarrow> u64 \<Rightarrow> EventKind \<Rightarrow> u32 \<Rightarrow> u32 \<Rightarrow> LedgerResult \<times> Ledger \<Rightarrow> bool" where
  "saved L a s kind k r res = (\<exists>n y. fst res = fst (SaveEvent s kind k r n y) \<and>
     lg_actors (snd res) = om_put a (snd (SaveEvent s kind k r n y)) (lg_actors L))"

lemma saved_pair: "saved L a s kind k r (fst (SaveEvent s kind k r n y),
    L\<lparr>lg_depots := d, lg_actors := om_put a (snd (SaveEvent s kind k r n y)) (lg_actors L), lg_counters := c\<rparr>)"
  by (auto simp: saved_def)

lemma saved_replay:
  assumes "saved L a s kind k r res" and "om_wf (lg_actors L)"
  obtains y where "om_find (lg_actors (snd res)) a = Some y" and "ReplayEvent y s kind k r = Some (Replayed (fst res))"
  using assms ReplayEvent_saved by (fastforce simp: saved_def)

definition unchanged_or_saved :: "Ledger \<Rightarrow> u64 \<Rightarrow> u64 \<Rightarrow> EventKind \<Rightarrow> u32 \<Rightarrow> u32 \<Rightarrow> LedgerResult \<times> Ledger \<Rightarrow> bool" where
  "unchanged_or_saved L a s kind k r res = (snd res = L \<or> saved L a s kind k r res)"

lemma unchanged_or_saved_simps [simp]:
  "unchanged_or_saved L a s kind k r (q, L)"
  "unchanged_or_saved L a s kind k r (fst (SaveEvent s kind k r n y),
    L\<lparr>lg_depots := d, lg_actors := om_put a (snd (SaveEvent s kind k r n y)) (lg_actors L), lg_counters := c\<rparr>)"
  by (simp_all add: unchanged_or_saved_def saved_pair)

lemma events_saved:
  "unchanged_or_saved L a s Theft k r (Steal a s k r phys L)"
  "unchanged_or_saved L a s Loading k r (Load a s k r phys L)"
  "unchanged_or_saved L a s Delivery k r (Deliver a s k r phys L)"
  "unchanged_or_saved L a s Meal k r (EatDepot a s k r phys L)"
  unfolding Steal_def Load_def Deliver_def EatDepot_def Let_def case_prod_unfold
  by (simp_all split: option.split)

lemma events_replay:
  assumes "om_find (lg_actors M) a = Some z"
  shows "ReplayEvent z s Theft k r = Some q \<Longrightarrow> Steal a s k r p M = (q, M)"
    and "ReplayEvent z s Loading k r = Some q \<Longrightarrow> Load a s k r p M = (q, M)"
    and "ReplayEvent z s Delivery k r = Some q \<Longrightarrow> Deliver a s k r p M = (q, M)"
    and "ReplayEvent z s Meal k r = Some q \<Longrightarrow> EatDepot a s k r p M = (q, M)"
  using assms by (simp_all add: Steal_def Load_def Deliver_def EatDepot_def)

lemma depot_event_replayed:
  assumes "om_wf (lg_actors L)" and "op \<in> {Steal a s k r, Load a s k r, Deliver a s k r, EatDepot a s k r}"
    and "snd (op phys L) \<noteq> L"
  shows "op phys' (snd (op phys L)) = (Replayed (fst (op phys L)), snd (op phys L))"
proof -
  from assms(2,3) events_saved [of L a s k r phys] obtain kind where
      k: "saved L a s kind k r (op phys L)" and
      op: "(op, kind) \<in> {(Steal a s k r, Theft), (Load a s k r, Loading), (Deliver a s k r, Delivery), (EatDepot a s k r, Meal)}"
    by (auto simp: unchanged_or_saved_def)
  from saved_replay [OF k assms(1)] obtain y where
      "om_find (lg_actors (snd (op phys L))) a = Some y" "ReplayEvent y s kind k r = Some (Replayed (fst (op phys L)))" .
  with events_replay [OF this(1)] op show ?thesis by auto
qed

lemma Commit_paid:
  assumes "ledger_ok L0" and "rs_Success (fst (Commit token now L0))"
  shows "\<exists>y r. om_find (lg_actors (snd (Commit token now L0))) (tk_Actor token) = Some y \<and>
    ac_LastCommitted y = Some (token, r) \<and> Replayed r = Replayed (fst (Commit token now L0)) \<and> tk_Serial token \<noteq> 0"
proof -
  define L where "L = Expire now L0"
  have ok: "ledger_ok L" unfolding L_def by (rule Expire_ok [OF assms(1)])
  from assms(2) obtain x where x: "om_find (lg_actors L) (tk_Actor token) = Some x" and serial: "tk_Serial token \<noteq> 0"
    by (auto simp: Commit_def L_def [symmetric] Rejected_def split: option.splits if_splits)
  show ?thesis
  proof (cases "map_option fst (ac_LastCommitted x) = Some token")
    case True
    with x serial have "Commit token now L0 = (Replayed (snd (the (ac_LastCommitted x))), L)"
      by (simp add: Commit_def L_def [symmetric])
    with x serial True show ?thesis by auto
  next
    case False
    with assms(2) x serial obtain cl where cl: "ac_Pending x = Some cl" and c: "Commit token now L0 = CommitClaim token x cl now L"
      by (auto simp: Commit_def L_def [symmetric] Rejected_def split: option.splits)
    with assms(2) obtain f where "FindCarcass L (cl_Key cl) = Some f" "\<not> ClaimInvalid L x cl now" "cl_Id cl = token"
      by (auto simp: CommitClaim_def Rejected_def split: option.splits if_splits)
    with x serial c ledger_okD(5) [OF ok] show ?thesis by (simp add: CommitClaim_def Let_def)
  qed
qed

section \<open>Properties\<close>

text \<open>
  C3: Food is conserved in every execution: initial plus harvested food always equals what is in
  depots and cargoes plus what was consumed and lost, and every portion of potential ever
  created is still in a carcass or a field, harvested, or lost. Both are the class's own
  checks, as equations of 64-bit counters, and no operation in any order can break them.
\<close>
theorem ledger_conserves_food: "Conserved (ledger_run ops) \<and> PotentialConserved (ledger_run ops)"
  using ledger_run_ok by (simp add: ledger_ok_def)

text \<open>
  C4: In every execution the reserved amount of each carcass is exactly the sum of the pending
  claims on it and never exceeds what the carcass still holds, so two actors can never be
  promised the same portion; every cargo stays within its actor's capacity, which is at most
  six; and every depot's stock and every field's crop stay within their capacities.
\<close>
theorem ledger_never_overcommits:
  fixes ops
  defines "L \<equiv> ledger_run ops"
  shows "(snd ` set (lg_carcasses L) \<subseteq> {c. unat (cc_Reserved c) = claimed (cc_Key c) (lg_actors L) \<and> cc_Reserved c \<le> cc_Remaining c}) \<and>
    (snd ` set (lg_actors L) \<subseteq> {x. ac_Cargo x \<le> ac_Capacity x \<and> ac_Capacity x \<le> 6}) \<and>
    (snd ` set (lg_depots L) \<subseteq> {d. dp_Stock d \<le> dp_Capacity d}) \<and>
    (snd ` set (lg_fields L) \<subseteq> {f. fd_Remaining f \<le> fd_Capacity f})"
proof (rule conj4I)
  note okD = ledger_okD [OF ledger_run_ok [of ops, folded L_def]]
  show "snd ` set (lg_carcasses L) \<subseteq> {c. unat (cc_Reserved c) = claimed (cc_Key c) (lg_actors L) \<and> cc_Reserved c \<le> cc_Remaining c}"
    using claims_okD(3) [OF okD(1)] om_find_iff [OF okD(6)] by (fastforce simp: carcass_ok_def)
  show "snd ` set (lg_actors L) \<subseteq> {x. ac_Cargo x \<le> ac_Capacity x \<and> ac_Capacity x \<le> 6}"
    using claims_okD(4) [OF okD(1)] om_find_iff [OF okD(5)] by (fastforce simp: actor_ok_def)
  show "snd ` set (lg_depots L) \<subseteq> {d. dp_Stock d \<le> dp_Capacity d}"
    using okD(2) om_find_iff [OF okD(7)] by (fastforce simp: stores_ok_def depot_ok_def)
  show "snd ` set (lg_fields L) \<subseteq> {f. fd_Remaining f \<le> fd_Capacity f}"
    using okD(2) om_find_iff [OF okD(8)] by (fastforce simp: stores_ok_def field_ok_def)
qed


text \<open>
  A reservation is paid at most once. After a successful commit, committing the same token
  again at any later call moves nothing: the receipt is replayed as a duplicate and the ledger
  only goes through its ordinary expiry.
\<close>
theorem claim_paid_once:
  assumes "rs_Success (fst (Commit token now (ledger_run ops)))"
  shows "Commit token now' (snd (Commit token now (ledger_run ops)))
    = (Replayed (fst (Commit token now (ledger_run ops))), Expire now' (snd (Commit token now (ledger_run ops))))"
proof -
  let ?L = "snd (Commit token now (ledger_run ops))"
  obtain y r where y: "om_find (lg_actors ?L) (tk_Actor token) = Some y" "ac_LastCommitted y = Some (token, r)"
      "Replayed r = Replayed (fst (Commit token now (ledger_run ops)))" "tk_Serial token \<noteq> 0"
    using Commit_paid [OF ledger_run_ok assms] by blast
  have "rel_option same_account (om_find (lg_actors ?L) (tk_Actor token)) (om_find (lg_actors (Expire now' ?L)) (tk_Actor token))"
    by (rule Expire_account [OF Commit_ok [OF ledger_run_ok]])
  then obtain z where z: "om_find (lg_actors (Expire now' ?L)) (tk_Actor token) = Some z" "same_account y z"
    unfolding y(1) by (auto simp: option_rel_Some1)
  have "ac_LastCommitted z = ac_LastCommitted y" using z(2) by (cases y; cases z) (simp add: same_account_def)
  with y z(1) show ?thesis by (simp add: Commit_def)
qed

text \<open>
  Loading a caravan never takes a village below its reserve: when a load changes the ledger,
  the village's stock afterwards is still at least its low mark, and stock and cargo change by
  exactly the receipt's portions.
\<close>
theorem load_keeps_village_reserve:
  assumes "snd (Load a s k r phys (ledger_run ops)) \<noteq> ledger_run ops"
  shows "\<exists>d d' x x'. om_find (lg_depots (ledger_run ops)) k = Some d \<and> om_find (lg_actors (ledger_run ops)) a = Some x \<and>
    om_find (lg_depots (snd (Load a s k r phys (ledger_run ops)))) k = Some d' \<and>
    om_find (lg_actors (snd (Load a s k r phys (ledger_run ops)))) a = Some x' \<and>
    dp_Low d \<le> dp_Stock d' \<and>
    unat (dp_Stock d') + unat (rs_Portions (fst (Load a s k r phys (ledger_run ops)))) = unat (dp_Stock d) \<and>
    unat (ac_Cargo x') = unat (ac_Cargo x) + unat (rs_Portions (fst (Load a s k r phys (ledger_run ops))))"
proof -
  define L where "L = ledger_run ops"
  have ok: "ledger_ok L" unfolding L_def by (rule ledger_run_ok)
  have changed: "snd (Load a s k r phys L) \<noteq> L" using assms by (simp add: L_def)
  then obtain x d where x: "om_find (lg_actors L) a = Some x" and d: "om_find (lg_depots L) k = Some d"
    unfolding Load_def by (auto simp: Let_def split: option.splits)
  define v where "v = (if dp_Stock d > dp_Low d then dp_Stock d - dp_Low d else 0)"
  define n where "n = min (min r (ac_Capacity x - ac_Cargo x)) v"
  let ?L = "L\<lparr>lg_depots := om_put k (d\<lparr>dp_Stock := dp_Stock d - n, dp_Exported := dp_Exported d + widen n\<rparr>) (lg_depots L),
      lg_actors := om_put a (snd (SaveEvent s Loading k r n (x\<lparr>ac_Cargo := ac_Cargo x + n\<rparr>))) (lg_actors L),
      lg_counters := (lg_counters L)\<lparr>ct_LoadedTotal := ct_LoadedTotal (lg_counters L) + widen n\<rparr>\<rparr>"
  have "\<exists>g1 g2 g3 q e. Load a s k r phys L = (case ReplayEvent x s Loading k r of Some replay \<Rightarrow> (replay, L)
      | None \<Rightarrow> if g1 then (g3, L) else if g2 then (q, L) else if n = 0 then (e, L)
          else (fst (SaveEvent s Loading k r n (x\<lparr>ac_Cargo := ac_Cargo x + n\<rparr>)), ?L))"
    unfolding Load_def x d option.case Let_def n_def v_def case_prod_unfold by blast
  with changed have res: "Load a s k r phys L = (fst (SaveEvent s Loading k r n (x\<lparr>ac_Cargo := ac_Cargo x + n\<rparr>)), ?L)"
    and pos: "n \<noteq> 0"
    by (auto split: option.splits if_splits)
  have "n \<le> v" by (simp add: n_def)
  with pos have above: "dp_Low d < dp_Stock d" by (auto simp: v_def split: if_splits)
  with \<open>n \<le> v\<close> have low: "dp_Low d \<le> dp_Stock d - n" and take: "unat (dp_Stock d - n) + unat n = unat (dp_Stock d)"
    by (auto simp: v_def word_le_nat_alt word_less_nat_alt unat_sub_if' split: if_splits)
  have room: "n \<le> ac_Capacity x - ac_Cargo x" by (auto simp: n_def min_le_iff_disj)
  have "unat (ac_Cargo x) + unat n \<le> unat (ac_Capacity x)"
    using word_sub_room(1) [OF conjunct1 [OF actor_capacity [OF ok x]] room] .
  then have "unat (ac_Cargo x) + unat n < 2 ^ LENGTH(32)" using unat_lt2p_32 [of "ac_Capacity x"] by simp
  then have cargo: "unat (ac_Cargo x + n) = unat (ac_Cargo x) + unat n" by (simp add: unat_word_ariths)
  show ?thesis unfolding L_def [symmetric] res
    using x d low take cargo ledger_okD(5,7) [OF ok] by (simp add: SaveEvent_def Let_def)
qed

section \<open>Witnesses\<close>

text \<open>A caravan loads from a village, a hunter's claim is paid.\<close>

definition ex_ledger_ops :: "ledger_op list" where
  "ex_ledger_ops = [LConfigureDepot 1 10 30 12 4, LConfigureDepot 4 0 30 12 4, LConfigureDepot 5 0 30 12 4,
     LConfigureDepot 6 0 30 12 4, LConfigureDepot 7 0 30 12 4, LRegisterCarrier 50 7 6, LRegisterActor 60 1 6 False False,
     LRegisterCarcass \<lparr>ck_Source = 9, ck_Life = 1\<rparr> 100 5000 6,
     LReserve 60 \<lparr>ck_Source = 9, ck_Life = 1\<rparr> Harvest 4 200 1000]"

lemma ex_ledger_facts:
  "rs_Success (fst (Load 50 1 1 5 True (ledger_run ex_ledger_ops)))"
  "ct_LoadedTotal (lg_counters (snd (Load 50 1 1 5 True (ledger_run ex_ledger_ops)))) = 5"
  "ct_LoadedTotal (lg_counters (ledger_run ex_ledger_ops)) = 0"
  "rs_Success (fst (Commit \<lparr>tk_Actor = 60, tk_Serial = 1\<rparr> 300 (ledger_run ex_ledger_ops)))"
  by code_simp+

lemma ex_load_changes: "snd (Load 50 1 1 5 True (ledger_run ex_ledger_ops)) \<noteq> ledger_run ex_ledger_ops"
  using ex_ledger_facts(2,3) by auto


lemma claim_paid_once_witness:
  "fst (Commit \<lparr>tk_Actor = 60, tk_Serial = 1\<rparr> 900 (snd (Commit \<lparr>tk_Actor = 60, tk_Serial = 1\<rparr> 300 (ledger_run ex_ledger_ops))))
    = Replayed (fst (Commit \<lparr>tk_Actor = 60, tk_Serial = 1\<rparr> 300 (ledger_run ex_ledger_ops)))"
  by (simp add: claim_paid_once [OF ex_ledger_facts(4)])

lemma load_keeps_village_reserve_witness:
  "\<exists>d'. om_find (lg_depots (snd (Load 50 1 1 5 True (ledger_run ex_ledger_ops)))) 1 = Some d' \<and>
    unat (dp_Stock d') + unat (rs_Portions (fst (Load 50 1 1 5 True (ledger_run ex_ledger_ops)))) = 10"
proof -
  have "map_option dp_Stock (om_find (lg_depots (ledger_run ex_ledger_ops)) 1) = Some 10" by code_simp
  with load_keeps_village_reserve [OF ex_load_changes] show ?thesis by auto
qed

end
