(* ===== verification/Update_Scheduler.thy ===== *)
theory Update_Scheduler
  imports Due_Selection
begin

text \<open>
  \<open>Scheduler/AgentUpdateScheduler.h\<close>: when each agent of the living world is updated next. The
  schedule is a map from agents to states, and a priority queue of entries of which only those
  that still match the state of their agent count; the others are skipped when they surface. The
  queue is a list ordered by \<open>(AtMs, Id)\<close>, the order of \<open>Later\<close>; entries that differ in the
  generation only may surface in any order, and at most one of them matches.
\<close>

record UpdateState =
  us_LastMs :: u64
  us_NextMs :: u64
  us_PeriodicNextMs :: u64
  us_Generation :: u64

record UpdateEntry =
  ue_AtMs :: u64
  ue_Id :: u64
  ue_Generation :: u64

record Update =
  upd_Agent :: u64
  upd_ElapsedMs :: u32
  upd_LateMs :: u64

record AgentUpdateScheduler =
  aus_states :: "(u64, UpdateState) omap"
  aus_due :: "UpdateEntry list"
  aus_intervalMs :: u32

definition AgentUpdateScheduler_init :: AgentUpdateScheduler where
  "AgentUpdateScheduler_init = \<lparr>aus_states = [], aus_due = [], aus_intervalMs = 1\<rparr>"

definition entry_key :: "UpdateEntry \<Rightarrow> u64 \<times> u64" where
  "entry_key e = (ue_AtMs e, ue_Id e)"

definition push_entry :: "UpdateEntry \<Rightarrow> UpdateEntry list \<Rightarrow> UpdateEntry list" where
  "push_entry e q = insort_key entry_key e q"

definition AddTime :: "u64 \<Rightarrow> u64 \<Rightarrow> u64" where
  "AddTime nowMs delay = nowMs + min delay (u64_max - nowMs)"

definition Matches :: "UpdateState \<Rightarrow> UpdateEntry \<Rightarrow> bool" where
  "Matches st e = (us_NextMs st = ue_AtMs e \<and> us_Generation st = ue_Generation e \<and> us_NextMs st > us_LastMs st)"

definition live_entry :: "(u64, UpdateState) omap \<Rightarrow> UpdateEntry \<Rightarrow> bool" where
  "live_entry states e = (case om_find states (ue_Id e) of None \<Rightarrow> False | Some st \<Rightarrow> Matches st e)"

fun PruneStale_loop :: "(u64, UpdateState) omap \<Rightarrow> UpdateEntry list \<Rightarrow> UpdateEntry list" where
  "PruneStale_loop states [] = []"
| "PruneStale_loop states (e # q) = (if live_entry states e then e # q else PruneStale_loop states q)"

definition PruneStale :: "AgentUpdateScheduler \<Rightarrow> AgentUpdateScheduler" where
  "PruneStale s = s\<lparr>aus_due := PruneStale_loop (aus_states s) (aus_due s)\<rparr>"

definition AdvanceState :: "u32 \<Rightarrow> u64 \<Rightarrow> UpdateState \<Rightarrow> UpdateState" where
  "AdvanceState intervalMs nowMs st =
     (let periodic = (if nowMs \<ge> us_PeriodicNextMs st
                      then AddTime nowMs (widen intervalMs - (nowMs - us_PeriodicNextMs st) mod widen intervalMs)
                      else us_PeriodicNextMs st)
      in \<lparr>us_LastMs = nowMs, us_NextMs = periodic, us_PeriodicNextMs = periodic,
          us_Generation = us_Generation st + 1\<rparr>)"

text \<open>\<open>_states.at(id)\<close> would throw on a missing id; both callers have just found it.\<close>

definition Advance :: "u64 \<Rightarrow> u64 \<Rightarrow> AgentUpdateScheduler \<Rightarrow> Update option \<times> AgentUpdateScheduler" where
  "Advance i nowMs s =
     (case om_find (aus_states s) i of
        None \<Rightarrow> (None, s)
      | Some st \<Rightarrow>
          let update = \<lparr>upd_Agent = i, upd_ElapsedMs = ucast (min (nowMs - us_LastMs st) (widen u32_max)),
                upd_LateMs = nowMs - us_NextMs st\<rparr>;
              st' = AdvanceState (aus_intervalMs s) nowMs st
          in (Some update, s\<lparr>aus_states := om_put i st' (aus_states s),
                aus_due := push_entry \<lparr>ue_AtMs = us_NextMs st', ue_Id = i, ue_Generation = us_Generation st'\<rparr>
                  (aus_due s)\<rparr>))"

text \<open>One agent of \<open>Sync\<close>: its state, kept from the old schedule where time has not gone back.\<close>

definition SyncState :: "u64 \<Rightarrow> u32 \<Rightarrow> u64 \<Rightarrow> u32 \<Rightarrow> u64 \<Rightarrow> UpdateState option \<Rightarrow> UpdateState" where
  "SyncState nowMs intervalMs salt oldIntervalMs i old =
     (let next = AddTime nowMs (1 + StableAgentHash (xor i salt) mod widen intervalMs);
          fresh = \<lparr>us_LastMs = nowMs, us_NextMs = next, us_PeriodicNextMs = next, us_Generation = 1\<rparr> in
      case old of
        None \<Rightarrow> fresh
      | Some st \<Rightarrow>
          if nowMs \<ge> us_LastMs st then
            if intervalMs = oldIntervalMs then st
            else if us_NextMs st < us_PeriodicNextMs st
              then fresh\<lparr>us_LastMs := us_LastMs st, us_NextMs := min next (us_NextMs st)\<rparr>
              else fresh\<lparr>us_LastMs := us_LastMs st\<rparr>
          else fresh)"

fun Sync_loop :: "u64 \<Rightarrow> u32 \<Rightarrow> u64 \<Rightarrow> AgentUpdateScheduler \<Rightarrow> u64 list \<Rightarrow>
    (u64, UpdateState) omap \<Rightarrow> UpdateEntry list \<Rightarrow> (u64, UpdateState) omap \<times> UpdateEntry list" where
  "Sync_loop nowMs intervalMs salt s [] states entries = (states, entries)"
| "Sync_loop nowMs intervalMs salt s (i # ids) states entries =
     (if i = 0 \<or> om_find states i \<noteq> None then Sync_loop nowMs intervalMs salt s ids states entries
      else let st = SyncState nowMs intervalMs salt (aus_intervalMs s) i (om_find (aus_states s) i)
           in Sync_loop nowMs intervalMs salt s ids (om_put i st states)
                (entries @ [\<lparr>ue_AtMs = us_NextMs st, ue_Id = i, ue_Generation = us_Generation st\<rparr>]))"

definition Sync :: "u64 list \<Rightarrow> u64 \<Rightarrow> u32 \<Rightarrow> u64 \<Rightarrow> AgentUpdateScheduler \<Rightarrow> AgentUpdateScheduler" where
  "Sync agents nowMs intervalMs0 salt s =
     (let intervalMs = max 1 intervalMs0;
          (states, entries) = Sync_loop nowMs intervalMs salt s agents [] []
      in \<lparr>aus_states = states, aus_due = sort_key entry_key entries, aus_intervalMs = intervalMs\<rparr>)"

definition Wake :: "u64 \<Rightarrow> u64 \<Rightarrow> AgentUpdateScheduler \<Rightarrow> bool \<times> AgentUpdateScheduler" where
  "Wake i nowMs s =
     (case om_find (aus_states s) i of
        None \<Rightarrow> (False, s)
      | Some st \<Rightarrow>
          if i = 0 \<or> nowMs \<le> us_LastMs st \<or> nowMs \<ge> us_NextMs st then (False, s)
          else let st' = st\<lparr>us_NextMs := nowMs, us_Generation := us_Generation st + 1\<rparr>
          in (True, s\<lparr>aus_states := om_put i st' (aus_states s),
                aus_due := push_entry \<lparr>ue_AtMs = nowMs, ue_Id = i, ue_Generation = us_Generation st'\<rparr> (aus_due s)\<rparr>))"

definition PopDue :: "u64 \<Rightarrow> AgentUpdateScheduler \<Rightarrow> Update option \<times> AgentUpdateScheduler" where
  "PopDue nowMs s0 =
     (let s = PruneStale s0 in
      case aus_due s of
        [] \<Rightarrow> (None, s)
      | e # q \<Rightarrow> if ue_AtMs e > nowMs then (None, s) else Advance (ue_Id e) nowMs (s\<lparr>aus_due := q\<rparr>))"

fun DueAgents_loop :: "(u64, UpdateState) omap \<Rightarrow> u64 \<Rightarrow> nat \<Rightarrow> UpdateEntry list \<Rightarrow> u64 list \<Rightarrow> u64 list" where
  "DueAgents_loop states nowMs limit [] ids = ids"
| "DueAgents_loop states nowMs limit (e # q) ids =
     (if ue_AtMs e \<le> nowMs \<and> length ids < limit
      then DueAgents_loop states nowMs limit q (if live_entry states e then ids @ [ue_Id e] else ids)
      else ids)"

definition DueAgents :: "u64 \<Rightarrow> nat \<Rightarrow> AgentUpdateScheduler \<Rightarrow> u64 list \<times> AgentUpdateScheduler" where
  "DueAgents nowMs limit s0 =
     (let s = PruneStale s0 in (DueAgents_loop (aus_states s) nowMs limit (aus_due s) [], s))"

definition PopDueAgent :: "u64 \<Rightarrow> u64 \<Rightarrow> AgentUpdateScheduler \<Rightarrow> Update option \<times> AgentUpdateScheduler" where
  "PopDueAgent i nowMs s =
     (case om_find (aus_states s) i of
        None \<Rightarrow> (None, s)
      | Some st \<Rightarrow>
          if i = 0 \<or> us_NextMs st > nowMs \<or> nowMs \<le> us_LastMs st then (None, s) else Advance i nowMs s)"

definition OldestLateMs :: "u64 \<Rightarrow> AgentUpdateScheduler \<Rightarrow> u64 \<times> AgentUpdateScheduler" where
  "OldestLateMs nowMs s0 =
     (let s = PruneStale s0 in
      (case aus_due s of [] \<Rightarrow> 0 | e # q \<Rightarrow> if nowMs > ue_AtMs e then nowMs - ue_AtMs e else 0, s))"

section \<open>The invariant of the schedule\<close>

text \<open>
  The queue is ordered, and every state that waits for a later time than its last update has its
  matching entry in the queue. The interval is never 0.
\<close>

definition entry_of :: "u64 \<Rightarrow> UpdateState \<Rightarrow> UpdateEntry" where
  "entry_of i st = \<lparr>ue_AtMs = us_NextMs st, ue_Id = i, ue_Generation = us_Generation st\<rparr>"

definition queued :: "AgentUpdateScheduler \<Rightarrow> bool" where
  "queued s = (\<forall>i st. om_find (aus_states s) i = Some st \<longrightarrow> us_LastMs st < us_NextMs st \<longrightarrow>
     entry_of i st \<in> set (aus_due s))"

definition sched_ok :: "AgentUpdateScheduler \<Rightarrow> bool" where
  "sched_ok s = (om_wf (aus_states s) \<and> sorted (map entry_key (aus_due s)) \<and> aus_intervalMs s \<noteq> 0 \<and> queued s)"

lemma Matches_entry: "Matches st (entry_of i st) \<longleftrightarrow> us_LastMs st < us_NextMs st"
  by (simp add: Matches_def entry_of_def)

lemma live_entry_iff: "live_entry states e \<longleftrightarrow>
    (\<exists>st. om_find states (ue_Id e) = Some st \<and> e = entry_of (ue_Id e) st \<and> us_LastMs st < us_NextMs st)"
  by (cases e) (auto simp: live_entry_def Matches_def entry_of_def split: option.splits)

lemma live_entry_of: "om_find states i = Some st \<Longrightarrow> us_LastMs st < us_NextMs st \<Longrightarrow> live_entry states (entry_of i st)"
  by (simp add: live_entry_def Matches_def entry_of_def)

lemma push_entry_simps [simp]:
  "set (push_entry e q) = insert e (set q)"
  "sorted (map entry_key (push_entry e q)) \<longleftrightarrow> sorted (map entry_key q)"
  by (simp_all add: push_entry_def set_insort_key sorted_insort_key)

lemma queued_put:
  assumes "om_wf states" and "\<And>k v. om_find states k = Some v \<Longrightarrow> k \<noteq> i \<Longrightarrow> us_LastMs v < us_NextMs v \<Longrightarrow> entry_of k v \<in> set q"
  shows "queued \<lparr>aus_states = om_put i st states, aus_due = push_entry (entry_of i st) q, aus_intervalMs = n\<rparr>"
  using assms by (auto simp: queued_def om_find_put)

lemma PruneStale_loop_props:
  "sorted (map entry_key q) \<Longrightarrow> sorted (map entry_key (PruneStale_loop states q)) \<and>
    (\<forall>e \<in> set q. live_entry states e \<longrightarrow> e \<in> set (PruneStale_loop states q)) \<and>
    (PruneStale_loop states q = [] \<or> live_entry states (hd (PruneStale_loop states q)))"
  by (induction q) auto

lemma PruneStale_states [simp]:
  "aus_states (PruneStale s) = aus_states s" "aus_intervalMs (PruneStale s) = aus_intervalMs s"
  by (simp_all add: PruneStale_def)

lemma PruneStale_ok:
  assumes "sched_ok s"
  shows "sched_ok (PruneStale s)"
    and "aus_due (PruneStale s) = [] \<or> live_entry (aus_states s) (hd (aus_due (PruneStale s)))"
  using assms PruneStale_loop_props [of "aus_due s" "aus_states s"] live_entry_of
  by (auto simp: sched_ok_def PruneStale_def queued_def)

section \<open>The specification: the earliest agent first\<close>

definition live_states :: "u64 \<Rightarrow> AgentUpdateScheduler \<Rightarrow> (u64 \<times> UpdateState) list" where
  "live_states nowMs s = filter (\<lambda>(i, st). us_LastMs st < us_NextMs st \<and> us_NextMs st \<le> nowMs) (aus_states s)"

definition state_key :: "u64 \<times> UpdateState \<Rightarrow> u64 \<times> u64" where
  "state_key p = (us_NextMs (snd p), fst p)"

definition due_order :: "u64 \<Rightarrow> AgentUpdateScheduler \<Rightarrow> (u64 \<times> UpdateState) list" where
  "due_order nowMs s = sort_key state_key (live_states nowMs s)"

definition update_of :: "u64 \<Rightarrow> u64 \<times> UpdateState \<Rightarrow> Update" where
  "update_of nowMs p = \<lparr>upd_Agent = fst p, upd_ElapsedMs = ucast (min (nowMs - us_LastMs (snd p)) (widen u32_max)),
     upd_LateMs = nowMs - us_NextMs (snd p)\<rparr>"

lemma distinct_om: "om_wf m \<Longrightarrow> distinct m"
  using distinct_om_keys [of m] unfolding om_keys_def by (simp add: distinct_map)

lemma in_om: "om_wf m \<Longrightarrow> p \<in> set m \<longleftrightarrow> om_find m (fst p) = Some (snd p)"
  using om_find_iff [of m "fst p" "snd p"] by simp

lemma live_states_iff:
  "om_wf (aus_states s) \<Longrightarrow> p \<in> set (live_states now s) \<longleftrightarrow> om_find (aus_states s) (fst p) = Some (snd p) \<and>
    us_LastMs (snd p) < us_NextMs (snd p) \<and> us_NextMs (snd p) \<le> now"
  by (auto simp: live_states_def in_om)

lemma state_key_inj: "om_wf (aus_states s) \<Longrightarrow> inj_on state_key (set (live_states now s))"
proof (rule inj_onI)
  fix p q
  assume wf: "om_wf (aus_states s)" and in_live: "p \<in> set (live_states now s)" "q \<in> set (live_states now s)"
    and "state_key p = state_key q"
  then have f: "fst p = fst q" by (simp add: state_key_def)
  have "Some (snd p) = Some (snd q)"
    using live_states_iff [OF wf, of p now] live_states_iff [OF wf, of q now] in_live unfolding f by metis
  with f show "p = q" by (simp add: prod_eq_iff)
qed

lemma due_order_unique:
  assumes "om_wf (aus_states s)" and "distinct ys" and "set ys = set (live_states now s)" and "sorted (map state_key ys)"
  shows "due_order now s = ys"
  unfolding due_order_def
proof (rule sort_key_inj_key_eq [OF _ state_key_inj [OF assms(1)] assms(4)])
  have "distinct (live_states now s)" using distinct_om [OF assms(1)] by (simp add: live_states_def)
  then show "mset (live_states now s) = mset ys" using assms(2,3) by (simp add: set_eq_iff_mset_eq_distinct)
qed

lemma due_order_props:
  assumes "om_wf (aus_states s)"
  shows "distinct (due_order now s)" and "set (due_order now s) = set (live_states now s)"
    and "sorted (map state_key (due_order now s))"
  using distinct_om [OF assms] by (simp_all add: due_order_def live_states_def)

section \<open>Every operation keeps the invariant\<close>

lemma Advance_Some:
  "om_find (aus_states s) i = Some st \<Longrightarrow> Advance i now s = (Some (update_of now (i, st)),
    \<lparr>aus_states = om_put i (AdvanceState (aus_intervalMs s) now st) (aus_states s),
     aus_due = push_entry (entry_of i (AdvanceState (aus_intervalMs s) now st)) (aus_due s),
     aus_intervalMs = aus_intervalMs s\<rparr>)"
  by (simp add: Advance_def update_of_def entry_of_def Let_def)

lemma Advance_ok:
  assumes "om_wf (aus_states s)" and "sorted (map entry_key (aus_due s))" and "aus_intervalMs s \<noteq> 0"
    and "om_find (aus_states s) i = Some st"
    and "\<And>k v. om_find (aus_states s) k = Some v \<Longrightarrow> k \<noteq> i \<Longrightarrow> us_LastMs v < us_NextMs v \<Longrightarrow>
      entry_of k v \<in> set (aus_due s)"
  shows "sched_ok (snd (Advance i now s))"
  using assms queued_put [OF assms(1,5)] by (simp add: Advance_Some sched_ok_def om_wf_put)

lemma PopDueAgent_ok: "sched_ok s \<Longrightarrow> sched_ok (snd (PopDueAgent i now s))"
  by (auto simp: PopDueAgent_def split: option.split intro!: Advance_ok) (auto simp: sched_ok_def queued_def)

lemma PopDue_ok:
  assumes "sched_ok s"
  shows "sched_ok (snd (PopDue now s))"
proof (cases "aus_due (PruneStale s)")
  case Nil
  then show ?thesis using PruneStale_ok(1) [OF assms] by (simp add: PopDue_def Let_def)
next
  case (Cons e q)
  note ok = PruneStale_ok [OF assms]
  from ok(2) Cons obtain st where st: "om_find (aus_states s) (ue_Id e) = Some st" "e = entry_of (ue_Id e) st"
    by (auto simp: live_entry_iff)
  have "sched_ok (snd (Advance (ue_Id e) now ((PruneStale s)\<lparr>aus_due := q\<rparr>)))"
  proof (rule Advance_ok)
    fix k v
    assume kv: "om_find (aus_states ((PruneStale s)\<lparr>aus_due := q\<rparr>)) k = Some v" "k \<noteq> ue_Id e" "us_LastMs v < us_NextMs v"
    then have "entry_of k v \<in> set (e # q)" using ok(1) Cons by (auto simp: sched_ok_def queued_def)
    moreover have "entry_of k v \<noteq> e" using kv(2) by (auto simp: entry_of_def)
    ultimately show "entry_of k v \<in> set (aus_due ((PruneStale s)\<lparr>aus_due := q\<rparr>))" by simp
  qed (use ok(1) Cons st(1) in \<open>simp_all add: sched_ok_def\<close>)
  then show ?thesis using Cons ok(1) by (simp add: PopDue_def Let_def)
qed

lemma Wake_ok: "sched_ok s \<Longrightarrow> sched_ok (snd (Wake i now s))"
  unfolding Wake_def sched_ok_def queued_def
  by (auto simp: Let_def om_wf_put om_find_put entry_of_def split: option.split)

lemma Sync_loop_props:
  "om_wf states \<Longrightarrow> (\<forall>i st. om_find states i = Some st \<longrightarrow> entry_of i st \<in> set entries) \<Longrightarrow>
    Sync_loop now n salt s ids states entries = (states', entries') \<Longrightarrow>
    om_wf states' \<and> (\<forall>i st. om_find states' i = Some st \<longrightarrow> entry_of i st \<in> set entries')"
proof (induction ids arbitrary: states entries)
  case (Cons i ids)
  show ?case
  proof (cases "i = 0 \<or> om_find states i \<noteq> None")
    case True
    then show ?thesis using Cons by simp
  next
    case False
    let ?st = "SyncState now n salt (aus_intervalMs s) i (om_find (aus_states s) i)"
    have "Sync_loop now n salt s ids (om_put i ?st states) (entries @ [entry_of i ?st]) = (states', entries')"
      using Cons.prems(3) False by (simp add: Let_def entry_of_def)
    from Cons.IH [OF _ _ this] Cons.prems(1,2) show ?thesis by (simp add: om_wf_put om_find_put)
  qed
qed simp

lemma Sync_ok: "sched_ok (Sync ids now n salt s)"
proof -
  obtain states entries where l: "Sync_loop now (max 1 n) salt s ids [] [] = (states, entries)"
    by (cases "Sync_loop now (max 1 n) salt s ids [] []")
  have "max 1 n \<noteq> (0 :: u32)" by (cases "n = 0") (auto simp: max_def)
  with Sync_loop_props [OF _ _ l] show ?thesis by (simp add: Sync_def l sched_ok_def queued_def)
qed

datatype sched_op = USync "u64 list" u64 u32 u64 | UWake u64 u64 | UPop u64 | UPopAgent u64 u64
  | UDueAgents u64 nat | UOldestLate u64

fun sched_step :: "sched_op \<Rightarrow> AgentUpdateScheduler \<Rightarrow> AgentUpdateScheduler" where
  "sched_step (USync ids now n salt) s = Sync ids now n salt s"
| "sched_step (UWake i now) s = snd (Wake i now s)"
| "sched_step (UPop now) s = snd (PopDue now s)"
| "sched_step (UPopAgent i now) s = snd (PopDueAgent i now s)"
| "sched_step (UDueAgents now limit) s = snd (DueAgents now limit s)"
| "sched_step (UOldestLate now) s = snd (OldestLateMs now s)"

definition sched_run :: "sched_op list \<Rightarrow> AgentUpdateScheduler" where
  "sched_run ops = fold sched_step ops AgentUpdateScheduler_init"

lemma sched_step_ok: "sched_ok s \<Longrightarrow> sched_ok (sched_step op s)"
  by (cases op) (simp_all add: Sync_ok Wake_ok PopDue_ok PopDueAgent_ok PruneStale_ok DueAgents_def OldestLateMs_def Let_def)

lemma sched_run_ok: "sched_ok (sched_run ops)"
proof -
  have "sched_ok s \<Longrightarrow> sched_ok (fold sched_step ops s)" for s
    by (induction ops arbitrary: s) (simp_all add: sched_step_ok)
  then show ?thesis by (simp add: sched_run_def sched_ok_def queued_def AgentUpdateScheduler_init_def)
qed

section \<open>Popping takes the earliest agent\<close>

lemma due_order_Cons:
  assumes "om_wf (aus_states s)" and "om_find (aus_states s) i = Some st" and "us_LastMs st < us_NextMs st" "us_NextMs st \<le> now"
    and "\<And>k v. om_find (aus_states s) k = Some v \<Longrightarrow> us_LastMs v < us_NextMs v \<Longrightarrow> us_NextMs v \<le> now \<Longrightarrow>
      (us_NextMs st, i) \<le> (us_NextMs v, k)"
  shows "\<exists>rest. due_order now s = (i, st) # rest"
proof (cases "due_order now s")
  case Nil
  then show ?thesis using due_order_props(2) [OF assms(1), of now] live_states_iff [OF assms(1), of "(i, st)" now] assms(2-4)
    by auto
next
  case (Cons p rest)
  note props = due_order_props [OF assms(1), of now, unfolded Cons]
  have live: "(i, st) \<in> set (live_states now s)" using live_states_iff [OF assms(1), of "(i, st)" now] assms(2-4) by simp
  with props have "state_key p \<le> state_key (i, st)" by auto
  moreover have p: "p \<in> set (live_states now s)" using props(2) by auto
  then have "state_key (i, st) \<le> state_key p"
    using live_states_iff [OF assms(1), of p now] assms(5) [of "fst p" "snd p"] by (simp add: state_key_def)
  ultimately have "state_key p = state_key (i, st)" by (rule order.antisym)
  then have "p = (i, st)" using inj_onD [OF state_key_inj [OF assms(1)] _ p live] by blast
  with Cons show ?thesis by simp
qed

text \<open>What the head of a pruned queue says about the schedule.\<close>

lemma pruned_head:
  assumes "sched_ok s" and "aus_due (PruneStale s) = e # q"
  obtains st where "om_find (aus_states s) (ue_Id e) = Some st" and "e = entry_of (ue_Id e) st"
    and "us_LastMs st < us_NextMs st" and "us_NextMs st = ue_AtMs e"
    and "\<And>k v. om_find (aus_states s) k = Some v \<Longrightarrow> us_LastMs v < us_NextMs v \<Longrightarrow>
      (us_NextMs st, ue_Id e) \<le> (us_NextMs v, k)"
proof -
  note ok = PruneStale_ok [OF assms(1)]
  from ok(2) assms(2) obtain st where st: "om_find (aus_states s) (ue_Id e) = Some st" "e = entry_of (ue_Id e) st"
    "us_LastMs st < us_NextMs st" by (auto simp: live_entry_iff)
  have at: "us_NextMs st = ue_AtMs e" by (subst st(2)) (simp add: entry_of_def)
  have le: "(us_NextMs st, ue_Id e) \<le> (us_NextMs v, k)" if kv: "om_find (aus_states s) k = Some v" "us_LastMs v < us_NextMs v" for k v
  proof -
    have "entry_of k v \<in> set (e # q)" using ok(1) kv assms(2) by (auto simp: sched_ok_def queued_def)
    then have "entry_key e \<le> entry_key (entry_of k v)" using ok(1) assms(2) by (auto simp: sched_ok_def)
    then show ?thesis by (simp add: entry_key_def entry_of_def at)
  qed
  show thesis by (rule that [OF st at le])
qed

lemma due_order_Nil:
  "om_wf (aus_states s) \<Longrightarrow> due_order now s = [] \<longleftrightarrow>
    (\<forall>k v. om_find (aus_states s) k = Some v \<longrightarrow> us_LastMs v < us_NextMs v \<longrightarrow> \<not> us_NextMs v \<le> now)"
  using due_order_props(2) [of s now] live_states_iff [of s _ now] by (cases "due_order now s") fastforce+

lemma PopDue_cases:
  assumes "sched_ok s"
  shows "case due_order now s of
      [] \<Rightarrow> fst (PopDue now s) = None \<and> aus_states (snd (PopDue now s)) = aus_states s
    | (i, st) # rest \<Rightarrow> fst (PopDue now s) = Some (update_of now (i, st)) \<and>
        aus_states (snd (PopDue now s)) = om_put i (AdvanceState (aus_intervalMs s) now st) (aus_states s) \<and>
        aus_intervalMs (snd (PopDue now s)) = aus_intervalMs s"
proof -
  have wf: "om_wf (aus_states s)" using assms by (simp add: sched_ok_def)
  show ?thesis
  proof (cases "aus_due (PruneStale s)")
    case Nil
    have "due_order now s = []" using PruneStale_ok(1) [OF assms] Nil by (auto simp: due_order_Nil [OF wf] sched_ok_def queued_def)
    with Nil show ?thesis by (simp add: PopDue_def Let_def)
  next
    case (Cons e q)
    obtain st where st: "om_find (aus_states s) (ue_Id e) = Some st" "us_LastMs st < us_NextMs st" "us_NextMs st = ue_AtMs e"
      and first: "\<And>k v. om_find (aus_states s) k = Some v \<Longrightarrow> us_LastMs v < us_NextMs v \<Longrightarrow> (us_NextMs st, ue_Id e) \<le> (us_NextMs v, k)"
      by (rule pruned_head [OF assms Cons]) blast
    show ?thesis
    proof (cases "ue_AtMs e \<le> now")
      case True
      from due_order_Cons [OF wf st(1,2) _ first] True st(3)
      obtain rest where "due_order now s = (ue_Id e, st) # rest" by auto
      then show ?thesis using Cons True st(1) by (simp add: PopDue_def Let_def Advance_Some)
    next
      case False
      have "due_order now s = []" unfolding due_order_Nil [OF wf] using first False st(3) by (fastforce simp: less_eq_prod_def)
      then show ?thesis using Cons False by (simp add: PopDue_def Let_def not_le)
    qed
  qed
qed

section \<open>Draining what is due\<close>

lemma AddTime_later: "now < u64_max \<Longrightarrow> d \<noteq> 0 \<Longrightarrow> now < AddTime now d"
proof -
  assume "now < u64_max" and "d \<noteq> 0"
  define m where "m = min d (u64_max - now)"
  have "m \<le> u64_max - now" by (simp add: m_def)
  then have room: "unat now + unat m \<le> unat u64_max" using word_sub_room(1) [of now u64_max m] \<open>now < u64_max\<close> by simp
  have "u64_max - now \<noteq> 0" using \<open>now < u64_max\<close> by auto
  then have "m \<noteq> 0" using \<open>d \<noteq> 0\<close> by (simp add: m_def min_def)
  then have "0 < unat m" by (simp add: unat_eq_0 neq0_conv [symmetric] del: neq0_conv)
  moreover have "unat (now + m) = unat now + unat m" using room by (simp add: unat_word_ariths)
  ultimately show ?thesis by (simp add: AddTime_def m_def [symmetric] word_less_nat_alt)
qed

lemma AdvanceState_later:
  assumes "n \<noteq> 0" and "now < u64_max"
  shows "now < us_NextMs (AdvanceState n now st)"
proof -
  have "(now - us_PeriodicNextMs st) mod widen n < widen n"
    using assms(1) by (simp add: word_less_nat_alt unat_mod_distrib) (simp add: unat_gt_0)
  then have "widen n - (now - us_PeriodicNextMs st) mod widen n \<noteq> 0" by auto
  from AddTime_later [OF assms(2) this] show ?thesis by (simp add: AdvanceState_def Let_def not_le)
qed

lemma due_order_tail:
  assumes "sched_ok s" and "now < u64_max" and "due_order now s = p # rest"
  shows "due_order now (snd (PopDue now s)) = rest"
proof (rule due_order_unique)
  have wf: "om_wf (aus_states s)" and n: "aus_intervalMs s \<noteq> 0" using assms(1) by (simp_all add: sched_ok_def)
  note props = due_order_props [OF wf, of now, unfolded assms(3)]
  obtain i st where p: "p = (i, st)" by (cases p)
  have states: "aus_states (snd (PopDue now s)) = om_put i (AdvanceState (aus_intervalMs s) now st) (aus_states s)"
    using PopDue_cases [OF assms(1), of now] assms(3) p by simp
  show wf': "om_wf (aus_states (snd (PopDue now s)))" using states wf by (simp add: om_wf_put)
  show "distinct rest" and "sorted (map state_key rest)" using props by simp_all
  have st: "om_find (aus_states s) i = Some st" using props(2) live_states_iff [OF wf, of p now] p by auto
  show "set rest = set (live_states now (snd (PopDue now s)))"
  proof (rule set_eqI)
    fix x
    have "x \<in> set rest \<longleftrightarrow> x \<in> set (live_states now s) \<and> x \<noteq> (i, st)" using props p by auto
    also have "\<dots> \<longleftrightarrow> x \<in> set (live_states now s) \<and> fst x \<noteq> i"
      using st live_states_iff [OF wf, of x now] by (cases x) auto
    also have "\<dots> \<longleftrightarrow> x \<in> set (live_states now (snd (PopDue now s)))"
      using AdvanceState_later [OF n assms(2), of st]
      by (auto simp: live_states_iff [OF wf] live_states_iff [OF wf'] states om_find_put [OF wf] not_le)
    finally show "x \<in> set rest \<longleftrightarrow> x \<in> set (live_states now (snd (PopDue now s)))" .
  qed
qed

text \<open>The update loop of the manager: pop until nothing is due, at most \<open>n\<close> times.\<close>

fun pops :: "nat \<Rightarrow> u64 \<Rightarrow> AgentUpdateScheduler \<Rightarrow> Update list \<times> AgentUpdateScheduler" where
  "pops 0 nowMs s = ([], s)"
| "pops (Suc n) nowMs s =
     (case PopDue nowMs s of
        (None, s') \<Rightarrow> ([], s')
      | (Some u, s') \<Rightarrow> let (us, s'') = pops n nowMs s' in (u # us, s''))"

lemma pops_drain:
  "sched_ok s \<Longrightarrow> now < u64_max \<Longrightarrow> length (due_order now s) \<le> n \<Longrightarrow>
    fst (pops n now s) = map (update_of now) (due_order now s) \<and> due_order now (snd (pops n now s)) = [] \<and>
    sched_ok (snd (pops n now s))"
proof (induction n arbitrary: s)
  case (Suc n)
  obtain r s' where pop: "PopDue now s = (r, s')" by (cases "PopDue now s")
  have ok': "sched_ok s'" using PopDue_ok [OF Suc.prems(1), of now] pop by simp
  show ?case
  proof (cases "due_order now s")
    case Nil
    then have "r = None" and "aus_states s' = aus_states s" using PopDue_cases [OF Suc.prems(1), of now] pop by simp_all
    with Nil ok' pop show ?thesis by (simp add: due_order_def live_states_def)
  next
    case (Cons p rest)
    have r: "r = Some (update_of now p)" using PopDue_cases [OF Suc.prems(1), of now] Cons pop by (cases p) simp
    have rest: "due_order now s' = rest" using due_order_tail [OF Suc.prems(1,2) Cons] pop by simp
    from Suc.IH [OF ok' Suc.prems(2)] Suc.prems(3) rest Cons r pop show ?thesis
      by (cases "pops n now s'") simp
  qed
qed simp

section \<open>Properties\<close>

text \<open>
  C19: In every reachable schedule, popping returns an update exactly when some agent is due, and
  then for the agent whose time comes first (the lower id on a tie), with the time since its
  last update and its lateness; the stale entries the queue accumulates are never observed.
\<close>
theorem update_scheduler_pops_earliest:
  "fst (PopDue now (sched_run ops)) =
    (case due_order now (sched_run ops) of [] \<Rightarrow> None | p # rest \<Rightarrow> Some (update_of now p))"
  using PopDue_cases [OF sched_run_ok, of now ops] by (auto split: list.splits)

text \<open>
  C20: Popping at one instant until nothing is due updates every due agent exactly once, in the
  order of their times, within as many pops as there are due agents; afterwards nothing is due at
  that instant.
\<close>
theorem update_scheduler_drains:
  assumes "now < u64_max" and "length (due_order now (sched_run ops)) \<le> n"
  shows "fst (pops n now (sched_run ops)) = map (update_of now) (due_order now (sched_run ops)) \<and>
    distinct (map upd_Agent (fst (pops n now (sched_run ops)))) \<and>
    due_order now (snd (pops n now (sched_run ops))) = []"
proof (rule conj3I)
  note drain = pops_drain [OF sched_run_ok assms]
  show "fst (pops n now (sched_run ops)) = map (update_of now) (due_order now (sched_run ops))" using drain by simp
  show "due_order now (snd (pops n now (sched_run ops))) = []" using drain by simp
  have wf: "om_wf (aus_states (sched_run ops))" using sched_run_ok by (simp add: sched_ok_def)
  have "inj_on fst (set (due_order now (sched_run ops)))"
    unfolding due_order_props(2) [OF wf]
  proof (rule inj_onI)
    fix p q
    assume "p \<in> set (live_states now (sched_run ops))" "q \<in> set (live_states now (sched_run ops))" "fst p = fst q"
    then show "p = q" using live_states_iff [OF wf] by (metis option.inject prod_eq_iff)
  qed
  with due_order_props(1) [OF wf, of now] show "distinct (map upd_Agent (fst (pops n now (sched_run ops))))"
    using drain by (simp add: update_of_def comp_def distinct_map)
qed

section \<open>Witness\<close>

definition ex_sched :: "sched_op list" where
  "ex_sched = [USync [7, 3, 7, 0] 1000 50 9, UWake 3 1001]"

lemma update_scheduler_drains_witness:
  "map upd_Agent (fst (pops 2 2000 (sched_run ex_sched))) = map fst (due_order 2000 (sched_run ex_sched)) \<and>
    due_order 2000 (snd (pops 2 2000 (sched_run ex_sched))) = []"
proof -
  have "length (due_order 2000 (sched_run ex_sched)) \<le> 2" by code_simp
  from update_scheduler_drains [OF _ this] show ?thesis by (simp add: update_of_def comp_def)
qed

end
