(* ===== verification/Planning_Scheduler.thy ===== *)
theory Planning_Scheduler
  imports Std_Map
begin

text \<open>
  \<open>Scheduler/PlanningWorkScheduler.h\<close>: which agent may start expensive planning work in the
  current frame. Agents queue with a sequence number, the frame names the agents that are ready,
  one agent at a time is active, and an agent that did work goes to the back of the queue. The
  hash map of the waiting agents is an ordered map and the hash set of the ready ones a list
  without duplicates; the loops over them only test or erase.
\<close>

record Waiting =
  wt_Since :: u64
  wt_SeenAt :: u64
  wt_Sequence :: u64

record PlanningWorkScheduler =
  ps_waiting :: "(u64, Waiting) omap"
  ps_ready :: "u64 list"
  ps_active :: u64
  ps_sequence :: u64
  ps_nowMs :: u64

definition PlanningWorkScheduler_init :: PlanningWorkScheduler where
  "PlanningWorkScheduler_init = \<lparr>ps_waiting = [], ps_ready = [], ps_active = 0, ps_sequence = 0, ps_nowMs = 0\<rparr>"

fun insert_ready :: "u64 list \<Rightarrow> u64 list \<Rightarrow> u64 list" where
  "insert_ready [] ready = ready"
| "insert_ready (i # ids) ready = insert_ready ids (if i = 0 \<or> i \<in> set ready then ready else ready @ [i])"

definition BeginFrame :: "u64 \<Rightarrow> u64 list \<Rightarrow> PlanningWorkScheduler \<Rightarrow> PlanningWorkScheduler" where
  "BeginFrame nowMs ready s = s\<lparr>ps_nowMs := nowMs, ps_active := 0, ps_ready := insert_ready ready []\<rparr>"

definition enqueue_at :: "u64 \<Rightarrow> u64 \<Rightarrow> PlanningWorkScheduler \<Rightarrow> PlanningWorkScheduler" where
  "enqueue_at i nowMs s = s\<lparr>ps_sequence := ps_sequence s + 1,
     ps_waiting := om_put i \<lparr>wt_Since = nowMs, wt_SeenAt = nowMs, wt_Sequence = ps_sequence s + 1\<rparr> (ps_waiting s)\<rparr>"

definition Request :: "u64 \<Rightarrow> u64 \<Rightarrow> PlanningWorkScheduler \<Rightarrow> PlanningWorkScheduler" where
  "Request i nowMs s =
     (if i = 0 then s
      else case om_find (ps_waiting s) i of
        None \<Rightarrow> enqueue_at i nowMs s
      | Some e \<Rightarrow>
          if nowMs < wt_SeenAt e then enqueue_at i nowMs s
          else s\<lparr>ps_waiting := om_put i (e\<lparr>wt_SeenAt := nowMs\<rparr>) (ps_waiting s)\<rparr>)"

definition CancelRequest :: "u64 \<Rightarrow> PlanningWorkScheduler \<Rightarrow> PlanningWorkScheduler" where
  "CancelRequest i s = s\<lparr>ps_waiting := om_del i (ps_waiting s), ps_ready := filter (\<lambda>j. j \<noteq> i) (ps_ready s),
     ps_active := if ps_active s = i then 0 else ps_active s\<rparr>"

definition SyncMembership :: "u64 list \<Rightarrow> PlanningWorkScheduler \<Rightarrow> PlanningWorkScheduler" where
  "SyncMembership members s =
     (let live = filter (\<lambda>i. i \<noteq> 0) members in
      s\<lparr>ps_waiting := filter (\<lambda>e. \<not> fst e \<notin> set live) (ps_waiting s),
        ps_ready := filter (\<lambda>i. \<not> i \<notin> set live) (ps_ready s),
        ps_active := if ps_active s \<noteq> 0 \<and> ps_active s \<notin> set live then 0 else ps_active s\<rparr>)"

definition ExpireUnseen :: "u64 \<Rightarrow> u64 \<Rightarrow> PlanningWorkScheduler \<Rightarrow> PlanningWorkScheduler" where
  "ExpireUnseen nowMs ttlMs s =
     (let waiting = filter (\<lambda>e. \<not> (nowMs < wt_SeenAt (snd e) \<or> nowMs - wt_SeenAt (snd e) \<ge> ttlMs)) (ps_waiting s) in
      s\<lparr>ps_waiting := waiting,
        ps_active := if ps_active s \<noteq> 0 \<and> om_find waiting (ps_active s) = None then 0 else ps_active s\<rparr>)"

definition Priority :: "u64 \<Rightarrow> PlanningWorkScheduler \<Rightarrow> u64" where
  "Priority i s = (case om_find (ps_waiting s) i of None \<Rightarrow> u64_max | Some e \<Rightarrow> wt_Sequence e)"

definition CanAdmit :: "u64 \<Rightarrow> PlanningWorkScheduler \<Rightarrow> bool" where
  "CanAdmit i s =
     (if ps_active s \<noteq> 0 then ps_active s = i
      else case om_find (ps_waiting s) i of
        None \<Rightarrow> False
      | Some e \<Rightarrow> i \<noteq> 0 \<and> i \<in> set (ps_ready s) \<and>
          list_all (\<lambda>other. case om_find (ps_waiting s) other of
            None \<Rightarrow> True | Some w \<Rightarrow> \<not> wt_Sequence w < wt_Sequence e) (ps_ready s))"

definition TryAdmit :: "u64 \<Rightarrow> PlanningWorkScheduler \<Rightarrow> bool \<times> PlanningWorkScheduler" where
  "TryAdmit i s = (if \<not> CanAdmit i s then (False, s) else (True, s\<lparr>ps_active := i\<rparr>))"

definition EndActor :: "u64 \<Rightarrow> bool \<Rightarrow> PlanningWorkScheduler \<Rightarrow> PlanningWorkScheduler" where
  "EndActor i didWork s =
     (let s1 = s\<lparr>ps_ready := filter (\<lambda>j. j \<noteq> i) (ps_ready s),
                 ps_active := if ps_active s = i then 0 else ps_active s\<rparr> in
      if didWork \<and> om_find (ps_waiting s1) i \<noteq> None then enqueue_at i (ps_nowMs s1) s1 else s1)"

definition WaitMs :: "u64 \<Rightarrow> u64 \<Rightarrow> PlanningWorkScheduler \<Rightarrow> u64 option" where
  "WaitMs i nowMs s =
     (case om_find (ps_waiting s) i of
        None \<Rightarrow> None
      | Some e \<Rightarrow> Some (if nowMs \<ge> wt_Since e then nowMs - wt_Since e else 0))"

definition HasRequest :: "u64 \<Rightarrow> PlanningWorkScheduler \<Rightarrow> bool" where
  "HasRequest i s = (om_find (ps_waiting s) i \<noteq> None)"

definition PendingCount :: "PlanningWorkScheduler \<Rightarrow> nat" where
  "PendingCount s = length (ps_waiting s)"

section \<open>Sequences of operations\<close>

datatype plan_op = PBeginFrame u64 "u64 list" | PRequest u64 u64 | PCancel u64 | PSync "u64 list"
  | PExpire u64 u64 | PTryAdmit u64 | PEndActor u64 bool

fun plan_step :: "plan_op \<Rightarrow> PlanningWorkScheduler \<Rightarrow> PlanningWorkScheduler" where
  "plan_step (PBeginFrame now ready) s = BeginFrame now ready s"
| "plan_step (PRequest i now) s = Request i now s"
| "plan_step (PCancel i) s = CancelRequest i s"
| "plan_step (PSync members) s = SyncMembership members s"
| "plan_step (PExpire now ttl) s = ExpireUnseen now ttl s"
| "plan_step (PTryAdmit i) s = snd (TryAdmit i s)"
| "plan_step (PEndActor i didWork) s = EndActor i didWork s"

definition plan_run :: "plan_op list \<Rightarrow> PlanningWorkScheduler" where
  "plan_run ops = fold plan_step ops PlanningWorkScheduler_init"

section \<open>The queue numbers\<close>

text \<open>
  As long as the 64-bit counter has not wrapped, every waiting agent has its own sequence number,
  none above the counter; \<open>n\<close> bounds the operations so far.
\<close>

definition plan_ok :: "nat \<Rightarrow> PlanningWorkScheduler \<Rightarrow> bool" where
  "plan_ok n s = (om_wf (ps_waiting s) \<and> unat (ps_sequence s) \<le> n \<and>
     (\<forall>i e. om_find (ps_waiting s) i = Some e \<longrightarrow> i \<noteq> 0 \<and> wt_Sequence e \<le> ps_sequence s) \<and>
     (\<forall>i j d e. om_find (ps_waiting s) i = Some d \<longrightarrow> om_find (ps_waiting s) j = Some e \<longrightarrow>
        wt_Sequence d = wt_Sequence e \<longrightarrow> i = j))"

lemma next_sequence:
  assumes "unat (s :: u64) \<le> n" and "Suc n < 2 ^ 64"
  shows "unat (s + 1) = Suc (unat s)" and "s < s + 1"
proof -
  have "unat s + 1 < 2 ^ LENGTH(64)" using assms by simp
  then show "unat (s + 1) = Suc (unat s)" by (simp add: unat_word_ariths)
  then show "s < s + 1" by (simp add: word_less_nat_alt)
qed

lemma enqueue_ok:
  assumes "plan_ok n s" and "Suc n < 2 ^ 64" and "i \<noteq> 0"
  shows "plan_ok (Suc n) (enqueue_at i now s)"
proof -
  note new = next_sequence [OF _ assms(2), of "ps_sequence s"]
  have seq: "unat (ps_sequence s) \<le> n" and wf: "om_wf (ps_waiting s)"
    and low: "\<And>j e. om_find (ps_waiting s) j = Some e \<Longrightarrow> j \<noteq> 0 \<and> wt_Sequence e \<le> ps_sequence s"
    and uniq: "\<And>j k d e. om_find (ps_waiting s) j = Some d \<Longrightarrow> om_find (ps_waiting s) k = Some e \<Longrightarrow>
      wt_Sequence d = wt_Sequence e \<Longrightarrow> j = k"
    using assms(1) unfolding plan_ok_def by blast+
  have new: "ps_sequence s < ps_sequence s + 1" "unat (ps_sequence s + 1) \<le> Suc n" using new [OF seq] seq by simp_all
  have below: "wt_Sequence e < ps_sequence s + 1" if "om_find (ps_waiting s) j = Some e" for j e
    using low [OF that] new(1) by auto
  show ?thesis
    unfolding plan_ok_def using wf new(2) assms(3) low below uniq
    by (auto simp: enqueue_at_def om_wf_put om_find_put split: if_splits
        dest: less_imp_le [OF below] less_imp_neq [OF below])
qed

lemma plan_ok_Suc: "plan_ok n s \<Longrightarrow> plan_ok (Suc n) s"
  by (auto simp: plan_ok_def)

lemma plan_ok_cong: "ps_waiting s' = ps_waiting s \<Longrightarrow> ps_sequence s' = ps_sequence s \<Longrightarrow> plan_ok n s' = plan_ok n s"
  by (simp add: plan_ok_def)

lemma plan_ok_shrink:
  assumes "plan_ok n s" and "ps_sequence s' = ps_sequence s" and "om_wf (ps_waiting s')"
    and "\<And>i e. om_find (ps_waiting s') i = Some e \<Longrightarrow> om_find (ps_waiting s) i = Some e"
  shows "plan_ok n s'"
  using assms unfolding plan_ok_def by metis

lemma Request_ok:
  assumes "plan_ok n s" and "Suc n < 2 ^ 64"
  shows "plan_ok (Suc n) (Request i now s)"
proof -
  have seen: "plan_ok (Suc n) (s\<lparr>ps_waiting := om_put i (e\<lparr>wt_SeenAt := now\<rparr>) (ps_waiting s)\<rparr>)"
    if "om_find (ps_waiting s) i = Some e" for e
    using assms(1) that unfolding plan_ok_def by (auto simp: om_wf_put om_find_put split: if_splits)
  show ?thesis
    using enqueue_ok [OF assms] plan_ok_Suc [OF assms(1)] seen by (auto simp: Request_def split: option.split)
qed

lemma EndActor_ok:
  assumes "plan_ok n s" and "Suc n < 2 ^ 64"
  shows "plan_ok (Suc n) (EndActor i didWork s)"
proof -
  let ?s = "s\<lparr>ps_ready := filter (\<lambda>j. j \<noteq> i) (ps_ready s), ps_active := if ps_active s = i then 0 else ps_active s\<rparr>"
  have ok: "plan_ok n ?s" using assms(1) by (subst plan_ok_cong [of _ s]) simp_all
  have "om_find (ps_waiting s) i \<noteq> None \<Longrightarrow> i \<noteq> 0" using assms(1) by (auto simp: plan_ok_def)
  then show ?thesis using enqueue_ok [OF ok assms(2)] plan_ok_Suc [OF ok] by (auto simp: EndActor_def Let_def)
qed

lemma plan_step_ok:
  assumes "plan_ok n s" and "Suc n < 2 ^ 64"
  shows "plan_ok (Suc n) (plan_step op s)"
proof (cases op)
  case (PBeginFrame now ready)
  then show ?thesis using plan_ok_Suc [OF assms(1)] by (simp add: BeginFrame_def plan_ok_def)
next
  case (PTryAdmit i)
  then show ?thesis using plan_ok_Suc [OF assms(1)] by (simp add: TryAdmit_def plan_ok_def)
next
  case (PCancel i)
  have wf: "om_wf (ps_waiting s)" using assms(1) by (simp add: plan_ok_def)
  then show ?thesis
    using PCancel by (auto simp: CancelRequest_def om_find_del split: if_splits intro!: plan_ok_shrink [OF plan_ok_Suc [OF assms(1)]])
next
  case (PSync members)
  have wf: "om_wf (ps_waiting s)" using assms(1) by (simp add: plan_ok_def)
  then show ?thesis
    using PSync by (auto simp: SyncMembership_def Let_def om_find_filter om_wf_filter intro!: plan_ok_shrink [OF plan_ok_Suc [OF assms(1)]])
next
  case (PExpire now ttl)
  have wf: "om_wf (ps_waiting s)" using assms(1) by (simp add: plan_ok_def)
  then show ?thesis
    using PExpire by (auto simp: ExpireUnseen_def Let_def om_find_filter om_wf_filter intro!: plan_ok_shrink [OF plan_ok_Suc [OF assms(1)]])
qed (use assms Request_ok EndActor_ok in simp_all)

lemma plan_run_ok: "length ops < 2 ^ 64 \<Longrightarrow> plan_ok (length ops) (plan_run ops)"
proof -
  have "plan_ok n s \<Longrightarrow> n + length ops < 2 ^ 64 \<Longrightarrow> plan_ok (n + length ops) (fold plan_step ops s)" for n s
  proof (induction ops arbitrary: n s)
    case (Cons op ops)
    have "plan_ok (Suc n) (plan_step op s)" using Cons.prems by (intro plan_step_ok) simp_all
    from Cons.IH [OF this] Cons.prems(2) show ?case by simp
  qed simp
  from this [of 0 PlanningWorkScheduler_init] show "length ops < 2 ^ 64 \<Longrightarrow> plan_ok (length ops) (plan_run ops)"
    by (simp add: plan_run_def plan_ok_def PlanningWorkScheduler_init_def)
qed

section \<open>Exclusive, progressing and fair admission\<close>

lemma CanAdmit_idle:
  "ps_active s = 0 \<Longrightarrow> CanAdmit i s \<longleftrightarrow> HasRequest i s \<and> i \<noteq> 0 \<and> i \<in> set (ps_ready s) \<and>
    (\<forall>j \<in> set (ps_ready s). HasRequest j s \<longrightarrow> Priority i s \<le> Priority j s)"
  by (auto simp: CanAdmit_def HasRequest_def Priority_def list_all_iff not_less split: option.split)

lemma Priority_inj:
  "plan_ok n s \<Longrightarrow> HasRequest i s \<Longrightarrow> HasRequest j s \<Longrightarrow> Priority i s = Priority j s \<Longrightarrow> i = j"
  unfolding plan_ok_def HasRequest_def Priority_def by (auto split: option.splits)

lemma CanAdmit_exists:
  assumes "plan_ok n s" and "ps_active s = 0" and "j \<in> set (ps_ready s)" and "HasRequest j s"
  shows "\<exists>i. CanAdmit i s"
proof -
  let ?S = "{i \<in> set (ps_ready s). HasRequest i s}"
  have S: "finite ?S" "?S \<noteq> {}" using assms(3,4) by auto
  let ?i = "arg_min_on (\<lambda>i. Priority i s) ?S"
  from arg_min_if_finite [OF S, of "\<lambda>i. Priority i s"] have i: "?i \<in> ?S" and least: "\<not> (\<exists>k \<in> ?S. Priority k s < Priority ?i s)"
    by blast+
  have "HasRequest ?i s \<Longrightarrow> ?i \<noteq> 0" using assms(1) unfolding plan_ok_def HasRequest_def by blast
  with i least have "CanAdmit ?i s" unfolding CanAdmit_idle [OF assms(2)] by (auto simp: not_less)
  then show ?thesis ..
qed

lemma EndActor_priority:
  assumes "plan_ok n s" and "Suc n < 2 ^ 64" and "HasRequest a s" and "HasRequest b s" and "a \<noteq> b"
  shows "Priority b (EndActor a True s) < Priority a (EndActor a True s)"
proof -
  have wf: "om_wf (ps_waiting s)" and seq: "unat (ps_sequence s) \<le> n"
    and low: "\<And>i e. om_find (ps_waiting s) i = Some e \<Longrightarrow> wt_Sequence e \<le> ps_sequence s"
    using assms(1) unfolding plan_ok_def by blast+
  obtain d e where d: "om_find (ps_waiting s) a = Some d" and e: "om_find (ps_waiting s) b = Some e"
    using assms(3,4) by (auto simp: HasRequest_def)
  have "wt_Sequence e < ps_sequence s + 1" using low [OF e] next_sequence(2) [OF seq assms(2)] by (rule order.strict_trans1)
  then show ?thesis using d e wf assms(5)
    by (simp add: EndActor_def Let_def enqueue_at_def Priority_def om_find_put)
qed

section \<open>Property\<close>

text \<open>
  C21: Planning work is admitted to one agent at a time, in the order of requests among the agents
  that are ready in this frame (an older waiter that is not ready blocks nobody); when a ready
  agent waits, some agent can be admitted; and an agent that did work has every other waiting
  agent in front of it afterwards. This holds as long as the 64-bit sequence has not wrapped.
\<close>
theorem planning_admission_fair:
  fixes ops a b
  defines "s \<equiv> plan_run ops"
  assumes "length ops + 1 < 2 ^ 64"
  shows "(CanAdmit a s \<and> CanAdmit b s \<longrightarrow> a = b) \<and>
    (ps_active s = 0 \<and> b \<in> set (ps_ready s) \<and> HasRequest b s \<longrightarrow>
      (\<exists>i. CanAdmit i s) \<and> (CanAdmit a s \<longrightarrow> Priority a s \<le> Priority b s)) \<and>
    (HasRequest a s \<and> HasRequest b s \<and> a \<noteq> b \<longrightarrow>
      Priority b (EndActor a True s) < Priority a (EndActor a True s))"
proof (intro conj3I impI)
  have ok: "plan_ok (length ops) s" unfolding s_def using assms(2) by (intro plan_run_ok) simp
  show "a = b" if ab: "CanAdmit a s \<and> CanAdmit b s"
  proof (cases "ps_active s = 0")
    case True
    with ab show ?thesis using Priority_inj [OF ok, of a b] unfolding CanAdmit_idle [OF True] by (meson order.antisym)
  next
    case False
    have active: "CanAdmit i s \<Longrightarrow> i = ps_active s" for i using False by (simp add: CanAdmit_def)
    from ab active [of a] active [of b] show ?thesis by blast
  qed
  show "(\<exists>i. CanAdmit i s) \<and> (CanAdmit a s \<longrightarrow> Priority a s \<le> Priority b s)"
    if b: "ps_active s = 0 \<and> b \<in> set (ps_ready s) \<and> HasRequest b s"
    using b CanAdmit_exists [OF ok] CanAdmit_idle by blast
  show "Priority b (EndActor a True s) < Priority a (EndActor a True s)" if "HasRequest a s \<and> HasRequest b s \<and> a \<noteq> b"
    using EndActor_priority [OF ok] assms(2) that by simp
qed

section \<open>Witness\<close>

definition ex_plan :: "plan_op list" where
  "ex_plan = [PRequest 4 10, PRequest 9 10, PBeginFrame 20 [9, 4]]"

lemma planning_admission_fair_witness:
  "Priority 9 (EndActor 4 True (plan_run ex_plan)) < Priority 4 (EndActor 4 True (plan_run ex_plan))"
proof -
  have "length ex_plan + 1 < 2 ^ 64" by (simp add: ex_plan_def)
  moreover have "HasRequest 4 (plan_run ex_plan) \<and> HasRequest 9 (plan_run ex_plan)" by code_simp
  ultimately show ?thesis using planning_admission_fair [of ex_plan 4 9] by simp
qed

end
