(* ===== verification/Raid_Party.thy ===== *)
theory Raid_Party
  imports Coalitions
begin

text \<open>
  \<open>Agent/LivingRaidParty.h\<close>: how the bandits of the camp are split into raiding parties
  (\<open>Form\<close>, on top of the coalition proposal) and what a party does next given what is observed of
  its members (\<open>Assess\<close>).
\<close>

section \<open>Candidates\<close>

definition RaidMapId :: u32 where "RaidMapId = 725"
definition RaidCreatureEntry :: u32 where "RaidCreatureEntry = 116"
definition RaidMinMembers :: u32 where "RaidMinMembers = 2"
definition RaidMaxMembers :: u32 where "RaidMaxMembers = 5"

record RaidCandidate =
  rc_Actor :: CoalitionCandidate
  rc_SpawnId :: u64
  rc_Materialized :: bool
  rc_Alive :: bool
  rc_Bound :: bool
  rc_AtCamp :: bool
  rc_Idle :: bool
  rc_Ready :: bool

definition RaidEligible :: "RaidCandidate \<Rightarrow> bool" where
  "RaidEligible c =
     (let actor = rc_Actor c in
      rc_SpawnId c \<ge> 901050 \<and> rc_SpawnId c \<le> 901059 \<and> cd_Id actor = rc_SpawnId c \<and> cd_MapId actor = RaidMapId \<and>
      cd_CreatureEntry actor = RaidCreatureEntry \<and> cd_WorldFaction actor = DefiasBrotherhood \<and>
      isfinite (cd_X actor) \<and> isfinite (cd_Y actor) \<and> isfinite (cd_Z actor) \<and>
      rc_Materialized c \<and> rc_Alive c \<and> rc_Bound c \<and> rc_AtCamp c \<and> rc_Idle c \<and> rc_Ready c)"

definition SameCandidate :: "RaidCandidate \<Rightarrow> RaidCandidate \<Rightarrow> bool" where
  "SameCandidate a b =
     (cd_Id (rc_Actor a) = cd_Id (rc_Actor b) \<and> cd_MapId (rc_Actor a) = cd_MapId (rc_Actor b) \<and>
      flt_eq (cd_X (rc_Actor a)) (cd_X (rc_Actor b)) \<and> flt_eq (cd_Y (rc_Actor a)) (cd_Y (rc_Actor b)) \<and>
      flt_eq (cd_Z (rc_Actor a)) (cd_Z (rc_Actor b)) \<and>
      cd_CreatureEntry (rc_Actor a) = cd_CreatureEntry (rc_Actor b) \<and>
      cd_WorldFaction (rc_Actor a) = cd_WorldFaction (rc_Actor b) \<and>
      rc_SpawnId a = rc_SpawnId b \<and> rc_Materialized a = rc_Materialized b \<and> rc_Alive a = rc_Alive b \<and>
      rc_Bound a = rc_Bound b \<and> rc_AtCamp a = rc_AtCamp b \<and> rc_Idle a = rc_Idle b \<and> rc_Ready a = rc_Ready b)"

text \<open>The map from actors to their only description, \<open>None\<close> (a null pointer) once two contradict.\<close>

fun UniqueCandidates :: "RaidCandidate list \<Rightarrow> (u64, RaidCandidate option) omap \<Rightarrow> (u64, RaidCandidate option) omap" where
  "UniqueCandidates [] m = m"
| "UniqueCandidates (c # cs) m =
     (let i = cd_Id (rc_Actor c) in
      if i = 0 then UniqueCandidates cs m
      else case om_find m i of
        None \<Rightarrow> UniqueCandidates cs (om_put i (Some c) m)
      | Some None \<Rightarrow> UniqueCandidates cs m
      | Some (Some first) \<Rightarrow>
          UniqueCandidates cs (if \<not> SameCandidate first c then om_put i None m else m))"

definition RaidEligibleActors :: "RaidCandidate list \<Rightarrow> CoalitionCandidate list" where
  "RaidEligibleActors candidates =
     concat (map (\<lambda>(i, c). case c of Some c \<Rightarrow> if RaidEligible c then [rc_Actor c] else [] | None \<Rightarrow> [])
       (UniqueCandidates candidates []))"

section \<open>Forming parties\<close>

definition RaidProfile :: "u32 \<Rightarrow> CoalitionFormationProfile" where
  "RaidProfile maxMembers = \<lparr>cf_Id = DefiasLoose, cf_Kind = Loose, cf_CreatureEntry = RaidCreatureEntry,
     cf_RequiredWorldFaction = DefiasBrotherhood, cf_MinMembers = RaidMinMembers, cf_MaxMembers = maxMembers,
     cf_FormationRadius = Fin 100\<rparr>"

text \<open>The next party among the eligible actors: its size leaves no single actor over when six are left.\<close>

definition NextParty :: "CoalitionCandidate list \<Rightarrow> u64 list option" where
  "NextParty eligible =
     (if length eligible < unat RaidMinMembers then None
      else map_option (\<lambda>p. sort (cp_Members p)) (Propose eligible
        (RaidProfile (if length eligible = unat RaidMaxMembers + 1 then RaidMaxMembers - 1 else RaidMaxMembers))))"

text \<open>
  The loop: each party leaves the eligible list. Its number of actors is enough fuel, as every
  party has members from the list (\<open>FormLoop_fuel\<close> below).
\<close>

fun FormLoop :: "nat \<Rightarrow> CoalitionCandidate list \<Rightarrow> u64 list list" where
  "FormLoop 0 eligible = []"
| "FormLoop (Suc fuel) eligible =
     (case NextParty eligible of
        None \<Rightarrow> []
      | Some party \<Rightarrow> party # FormLoop fuel (filter (\<lambda>a. cd_Id a \<notin> set party) eligible))"

definition RaidForm :: "RaidCandidate list \<Rightarrow> u64 list list" where
  "RaidForm candidates = (let eligible = RaidEligibleActors candidates in FormLoop (length eligible) eligible)"

section \<open>Assessing a party\<close>

datatype RaidPhase = Assembling | Outbound | Raiding | Returning | PhaseComplete
datatype RaidDecision = RD_Wait | RD_Advance | RD_Retreat | RD_Complete

record RaidPartyState =
  rp_Id :: u64
  rp_AttemptId :: u64
  rp_LeaderSpawn :: u64
  rp_Members :: "u64 list"
  rp_SourceDepot :: u32
  rp_RouteId :: u32
  rp_Leg :: u32
  rp_Stage :: RaidPhase
  rp_StartedAtMs :: u64
  rp_PhaseStartedAtMs :: u64
  rp_LastProgressAtMs :: u64
  rp_Reason :: string

record RaidMemberObservation =
  ro_Member :: u64
  ro_Materialized :: bool
  ro_Alive :: bool
  ro_Bound :: bool
  ro_InCombat :: bool
  ro_AtAnchor :: bool
  ro_Complete :: bool

record RaidAssessment =
  ra_Action :: RaidDecision
  ra_Present :: u32
  ra_Arrived :: u32
  ra_Completed :: u32
  ra_Dead :: u32
  ra_Unavailable :: u32
  ra_Quorum :: bool
  ra_LeaderAvailable :: bool
  ra_TimedOut :: bool
  ra_Reason :: string

definition RaidElapsed :: "u64 \<Rightarrow> u64 \<Rightarrow> u64 \<Rightarrow> bool" where
  "RaidElapsed nowMs sinceMs limitMs = (sinceMs \<noteq> 0 \<and> nowMs \<ge> sinceMs \<and> nowMs - sinceMs \<ge> limitMs)"

text \<open>
  What is observed of one member: \<open>observed\<close> is the last observation of it, \<open>ambiguous\<close> that two
  consecutive ones differ. \<open>SameObservation\<close> compares all fields, which is equality of the records.
\<close>

fun Observed_loop :: "u64 \<Rightarrow> RaidMemberObservation list \<Rightarrow> RaidMemberObservation option \<Rightarrow> bool \<Rightarrow>
    RaidMemberObservation option \<times> bool" where
  "Observed_loop i [] observed ambiguous = (observed, ambiguous)"
| "Observed_loop i (o' # os) observed ambiguous =
     (if ro_Member o' \<noteq> i then Observed_loop i os observed ambiguous
      else Observed_loop i os (Some o') (ambiguous \<or> (case observed of Some before \<Rightarrow> before \<noteq> o' | None \<Rightarrow> False)))"

datatype MemberStatus = Unavailable | Dead | Present RaidMemberObservation

definition StatusOf :: "RaidMemberObservation list \<Rightarrow> u64 \<Rightarrow> MemberStatus" where
  "StatusOf observations i =
     (case Observed_loop i observations None False of
        (observed, ambiguous) \<Rightarrow>
          if ambiguous then Unavailable
          else case observed of
            None \<Rightarrow> Unavailable
          | Some o' \<Rightarrow> if \<not> ro_Materialized o' \<or> \<not> ro_Bound o' then Unavailable
                      else if \<not> ro_Alive o' then Dead else Present o')"

fun Count_loop :: "u64 \<Rightarrow> RaidMemberObservation list \<Rightarrow> u64 list \<Rightarrow> RaidAssessment \<times> bool \<Rightarrow> RaidAssessment \<times> bool" where
  "Count_loop leader observations [] (r, inCombat) = (r, inCombat)"
| "Count_loop leader observations (i # roster) (r, inCombat) =
     (case StatusOf observations i of
        Unavailable \<Rightarrow> Count_loop leader observations roster (r\<lparr>ra_Unavailable := ra_Unavailable r + 1\<rparr>, inCombat)
      | Dead \<Rightarrow> Count_loop leader observations roster (r\<lparr>ra_Dead := ra_Dead r + 1\<rparr>, inCombat)
      | Present o' \<Rightarrow> Count_loop leader observations roster
          (r\<lparr>ra_Present := ra_Present r + 1,
             ra_Arrived := ra_Arrived r + of_bool (ro_AtAnchor o'),
             ra_Completed := ra_Completed r + of_bool (ro_Complete o'),
             ra_LeaderAvailable := ra_LeaderAvailable r \<or> i = leader\<rparr>, inCombat \<or> ro_InCombat o'))"

definition ValidRoster :: "RaidPartyState \<Rightarrow> bool" where
  "ValidRoster party =
     (let roster = sort (rp_Members party) in
      length roster \<ge> 2 \<and> length roster \<le> 5 \<and> hd roster \<noteq> 0 \<and> distinct_adj roster \<and> rp_LeaderSpawn party \<in> set roster)"

definition no_assessment :: RaidAssessment where
  "no_assessment = \<lparr>ra_Action = RD_Wait, ra_Present = 0, ra_Arrived = 0, ra_Completed = 0, ra_Dead = 0,
     ra_Unavailable = 0, ra_Quorum = False, ra_LeaderAvailable = False, ra_TimedOut = False,
     ra_Reason = ''WAITING_FOR_MEMBERS''\<rparr>"

definition decide :: "RaidDecision \<Rightarrow> string \<Rightarrow> RaidAssessment \<Rightarrow> RaidAssessment" where
  "decide action reason r = r\<lparr>ra_Action := action, ra_Reason := reason\<rparr>"

definition Assess :: "RaidPartyState \<Rightarrow> RaidMemberObservation list \<Rightarrow> u64 \<Rightarrow> RaidAssessment" where
  "Assess party observations nowMs =
     (let roster = sort (rp_Members party) in
      if rp_Id party = 0 \<or> rp_AttemptId party = 0 \<or> \<not> ValidRoster party
      then decide RD_Retreat ''INVALID_PARTY'' no_assessment
      else if rp_Stage party = PhaseComplete then decide RD_Complete ''PARTY_COMPLETE'' no_assessment
      else
        let (counted, inCombat) = Count_loop (rp_LeaderSpawn party) observations roster (no_assessment, False);
            r = counted\<lparr>ra_Quorum := ra_Arrived counted \<ge> max RaidMinMembers (of_nat (length roster div 2 + 1))\<rparr>;
            progressAt = (if rp_LastProgressAtMs party \<noteq> 0 then rp_LastProgressAtMs party
                          else if rp_PhaseStartedAtMs party \<noteq> 0 then rp_PhaseStartedAtMs party
                          else rp_StartedAtMs party);
            attemptExpired = RaidElapsed nowMs (rp_StartedAtMs party) 900000;
            lagExpired = RaidElapsed nowMs progressAt 120000 in
        if rp_Stage party = Returning then
          (if ra_Completed r = ra_Present r \<or> attemptExpired \<or> lagExpired
           then decide RD_Complete (if attemptExpired \<or> lagExpired then ''RETURN_COORDINATION_EXPIRED''
                  else ''RETURNED_MEMBERS_COMPLETE'') (r\<lparr>ra_TimedOut := attemptExpired \<or> lagExpired\<rparr>)
           else if ra_Arrived r = ra_Present r then decide RD_Advance ''RETURN_ANCHOR_REACHED'' r
           else r)
        else if inCombat \<or> ra_Dead r \<noteq> 0
        then decide RD_Retreat (if inCombat then ''MEMBER_IN_COMBAT'' else ''MEMBER_DIED'') r
        else
          let assemblyExpired = (rp_Stage party = Assembling \<and>
                RaidElapsed nowMs (if rp_PhaseStartedAtMs party \<noteq> 0 then rp_PhaseStartedAtMs party
                                   else rp_StartedAtMs party) 45000) in
          if attemptExpired \<or> assemblyExpired \<or> lagExpired
          then decide RD_Retreat (if attemptExpired then ''ATTEMPT_EXPIRED''
                 else if assemblyExpired then ''ASSEMBLY_EXPIRED'' else ''MEMBER_LAG_TIMEOUT'') (r\<lparr>ra_TimedOut := True\<rparr>)
          else if unat (ra_Present r) = length roster \<and> unat (ra_Arrived r) = length roster
          then decide RD_Advance ''ALL_MEMBERS_AT_ANCHOR'' r
          else r)"

section \<open>Eligible actors\<close>

text \<open>What the map holds for one actor after the descriptions \<open>cs\<close> of it.\<close>

fun describe :: "RaidCandidate list \<Rightarrow> RaidCandidate option option \<Rightarrow> RaidCandidate option option" where
  "describe [] e = e"
| "describe (c # cs) None = describe cs (Some (Some c))"
| "describe (c # cs) (Some None) = Some None"
| "describe (c # cs) (Some (Some first)) = describe cs (if SameCandidate first c then Some (Some first) else Some None)"

lemma describe_conflict [simp]: "describe cs (Some None) = Some None"
  by (cases cs) simp_all

lemma UniqueCandidates_wf: "om_wf m \<Longrightarrow> om_wf (UniqueCandidates cs m)"
  by (induction cs m rule: UniqueCandidates.induct) (auto simp: Let_def split: option.split)

lemma UniqueCandidates_find:
  assumes "om_wf m" and "i \<noteq> 0"
  shows "om_find (UniqueCandidates cs m) i = describe (filter (\<lambda>c. cd_Id (rc_Actor c) = i) cs) (om_find m i)"
  using assms(1)
proof (induction cs arbitrary: m)
  case (Cons c cs)
  let ?j = "cd_Id (rc_Actor c)"
  consider (none) "om_find m ?j = None" | (conflict) "om_find m ?j = Some None" | (first) f where "om_find m ?j = Some (Some f)"
    by (metis option.exhaust)
  then show ?case
  proof cases
    case none
    show ?thesis
      using Cons.IH [of m] Cons.IH [of "om_put ?j (Some c) m"] Cons.prems none assms(2) by (cases "i = ?j") (simp_all add: Let_def)
  next
    case conflict
    then show ?thesis using Cons.IH [of m] Cons.prems assms(2) by (cases "i = ?j") (simp_all add: Let_def)
  next
    case first
    show ?thesis
      using Cons.IH [of m] Cons.IH [of "om_put ?j None m"] Cons.prems first assms(2)
      by (cases "i = ?j"; cases "SameCandidate f c") (simp_all add: Let_def)
  qed
qed simp

lemma UniqueCandidates_zero: "om_wf m \<Longrightarrow> om_find m 0 = None \<Longrightarrow> om_find (UniqueCandidates cs m) 0 = None"
  by (induction cs m rule: UniqueCandidates.induct) (auto simp: Let_def split: option.split)

lemma describe_same: "describe cs (Some (Some f)) = Some (Some c) \<longleftrightarrow> c = f \<and> list_all (SameCandidate f) cs"
  by (induction cs) auto

text \<open>An actor is eligible when its first description is, and no other description contradicts it.\<close>

definition agreed :: "RaidCandidate list \<Rightarrow> RaidCandidate \<Rightarrow> bool" where
  "agreed candidates c \<longleftrightarrow> (\<exists>rest. filter (\<lambda>d. cd_Id (rc_Actor d) = cd_Id (rc_Actor c)) candidates = c # rest \<and>
     list_all (SameCandidate c) rest)"

lemma describe_None: "describe ds None = Some (Some c) \<longleftrightarrow> (\<exists>rest. ds = c # rest \<and> list_all (SameCandidate c) rest)"
  by (cases ds) (auto simp: describe_same)

lemma UniqueCandidates_agreed:
  "om_find (UniqueCandidates candidates []) i = Some (Some c) \<longleftrightarrow> i \<noteq> 0 \<and> cd_Id (rc_Actor c) = i \<and> agreed candidates c"
proof (cases "i = 0")
  case True
  then show ?thesis using UniqueCandidates_zero [of "[]" candidates] by simp
next
  case False
  let ?f = "filter (\<lambda>d. cd_Id (rc_Actor d) = i) candidates"
  have "om_find (UniqueCandidates candidates []) i = describe ?f None" using UniqueCandidates_find [OF _ False, of "[]"] by simp
  then have "om_find (UniqueCandidates candidates []) i = Some (Some c) \<longleftrightarrow>
      (\<exists>rest. ?f = c # rest \<and> list_all (SameCandidate c) rest)" by (simp only: describe_None)
  moreover have "cd_Id (rc_Actor c) = i" if "?f = c # rest" for rest
  proof -
    have "c \<in> set ?f" unfolding that by simp
    then show ?thesis by simp
  qed
  ultimately show ?thesis using False unfolding agreed_def by blast
qed

lemma EligibleActors_iff:
  "a \<in> set (RaidEligibleActors candidates) \<longleftrightarrow> (\<exists>c. rc_Actor c = a \<and> RaidEligible c \<and> agreed candidates c)"
proof -
  let ?m = "UniqueCandidates candidates []"
  have wf: "om_wf ?m" by (simp add: UniqueCandidates_wf)
  have "a \<in> set (RaidEligibleActors candidates) \<longleftrightarrow> (\<exists>i c. (i, Some c) \<in> set ?m \<and> RaidEligible c \<and> rc_Actor c = a)"
  proof -
    have "a \<in> set (concat (map (\<lambda>(i, c). case c of Some c \<Rightarrow> if RaidEligible c then [rc_Actor c] else [] | None \<Rightarrow> []) m)) \<longleftrightarrow>
        (\<exists>i c. (i, Some c) \<in> set m \<and> RaidEligible c \<and> rc_Actor c = a)" for m :: "(u64, RaidCandidate option) omap"
      by (induction m) (auto split: option.splits)
    then show ?thesis by (simp only: RaidEligibleActors_def)
  qed
  also have "\<dots> \<longleftrightarrow> (\<exists>i c. i \<noteq> 0 \<and> cd_Id (rc_Actor c) = i \<and> agreed candidates c \<and> RaidEligible c \<and> rc_Actor c = a)"
    by (simp only: om_find_iff [OF wf] UniqueCandidates_agreed conj_assoc)
  also have "\<dots> \<longleftrightarrow> (\<exists>c. rc_Actor c = a \<and> RaidEligible c \<and> agreed candidates c)"
  proof -
    have "RaidEligible c \<Longrightarrow> cd_Id (rc_Actor c) \<noteq> 0" for c by (auto simp: RaidEligible_def Let_def)
    then show ?thesis by blast
  qed
  finally show ?thesis .
qed

fun eligible_entry :: "u64 \<times> RaidCandidate option \<Rightarrow> CoalitionCandidate list" where
  "eligible_entry (i, None) = []"
| "eligible_entry (i, Some c) = (if RaidEligible c then [rc_Actor c] else [])"

lemma EligibleActors_entries: "RaidEligibleActors candidates = concat (map eligible_entry (UniqueCandidates candidates []))"
  unfolding RaidEligibleActors_def by (intro arg_cong [where f = concat] map_cong refl) (auto split: option.splits)

lemma eligible_entries_distinct:
  assumes "distinct (map fst m)" and "\<And>i c. (i, Some c) \<in> set m \<Longrightarrow> cd_Id (rc_Actor c) = i"
  shows "distinct (map cd_Id (concat (map eligible_entry m))) \<and> cd_Id ` set (concat (map eligible_entry m)) \<subseteq> fst ` set m"
  using assms
proof (induction m)
  case (Cons e m)
  obtain i x where e: "e = (i, x)" by fastforce
  have IH: "distinct (map cd_Id (concat (map eligible_entry m)))" "cd_Id ` set (concat (map eligible_entry m)) \<subseteq> fst ` set m"
    using Cons by auto
  have "x = Some c \<Longrightarrow> cd_Id (rc_Actor c) = i" for c using Cons.prems(2) [of i c] e by simp
  with IH Cons.prems(1) show ?case by (cases x) (auto simp: e)
qed simp

lemma EligibleActors_distinct: "distinct (map cd_Id (RaidEligibleActors candidates))"
proof -
  let ?m = "UniqueCandidates candidates []"
  have wf: "om_wf ?m" by (simp add: UniqueCandidates_wf)
  have "distinct (map fst ?m)" using distinct_om_keys [OF wf] by (simp only: om_keys_def)
  moreover have "cd_Id (rc_Actor c) = i" if "(i, Some c) \<in> set ?m" for i c
    using that by (simp only: om_find_iff [OF wf] UniqueCandidates_agreed)
  ultimately show ?thesis unfolding EligibleActors_entries by (rule eligible_entries_distinct [THEN conjunct1])
qed

section \<open>The loop that forms the parties\<close>

text \<open>Actors of the right kind on one map, each listed once, few enough for 32-bit counts.\<close>

definition raid_actors :: "CoalitionCandidate list \<Rightarrow> bool" where
  "raid_actors E \<longleftrightarrow> distinct (map cd_Id E) \<and> length E + 1 < 2 ^ 32 \<and>
     (\<forall>a \<in> set E. cd_CreatureEntry a = RaidCreatureEntry \<and> cd_WorldFaction a = DefiasBrotherhood \<and> cd_MapId a = RaidMapId)"

definition within_100 :: "CoalitionCandidate \<Rightarrow> CoalitionCandidate \<Rightarrow> bool" where
  "within_100 a b \<longleftrightarrow> \<not> flt_lt (Fin 10000) (candidate_distance a b)"

lemma radius_100: "rnd32 10000 = Fin 10000"
  by code_simp

lemma RaidProfile_simps [simp]:
  "cf_MinMembers (RaidProfile m) = 2" "cf_MaxMembers (RaidProfile m) = m" "cf_FormationRadius (RaidProfile m) = Fin 100"
  by (simp_all add: RaidProfile_def RaidMinMembers_def)

lemma near_raid:
  assumes "raid_actors E" and "a \<in> set E"
  shows "near_seed (RaidProfile m) E a = {b \<in> set E. cd_Id b \<noteq> cd_Id a \<and> within_100 a b}"
  using assms by (auto simp: near_seed_def Compatible_def RaidProfile_def IsNeighbor_def radius_100 raid_actors_def within_100_def)

lemma raid_compatible: "raid_actors E \<Longrightarrow> a \<in> set E \<Longrightarrow> Compatible (RaidProfile m) a"
  by (simp add: raid_actors_def Compatible_def RaidProfile_def)

definition party_limit :: "CoalitionCandidate list \<Rightarrow> u32" where
  "party_limit E = (if length E = unat RaidMaxMembers + 1 then RaidMaxMembers - 1 else RaidMaxMembers)"

lemma party_limit: "1 \<le> party_limit E" "unat (party_limit E) \<le> 5" "2 \<le> unat (party_limit E)"
  by (simp_all add: party_limit_def RaidMaxMembers_def)

lemma NextParty_eq:
  "NextParty E = (if length E < 2 then None
     else map_option (\<lambda>p. sort (cp_Members p)) (Propose E (RaidProfile (party_limit E))))"
  by (simp add: NextParty_def party_limit_def RaidMinMembers_def)

lemma NextParty_Some:
  assumes "raid_actors E" and "NextParty E = Some party"
  shows "distinct party \<and> sorted party \<and> 2 \<le> length party \<and> length party \<le> 5 \<and> set party \<subseteq> cd_Id ` set E"
proof -
  let ?P = "RaidProfile (party_limit E)"
  have hyps: "distinct (map cd_Id E)" "length E + 1 < 2 ^ 32" "1 \<le> cf_MaxMembers ?P"
    using assms(1) by (simp_all add: raid_actors_def party_limit)
  obtain p where p: "Propose E ?P = Some p" "party = sort (cp_Members p)"
    using assms(2) by (auto simp: NextParty_eq split: if_splits)
  from Propose_exact [OF hyps] p(1) obtain s ns where s: "s \<in> set E" "cp_Members p = cd_Id s # map cd_Id ns"
      "distinct (cp_Members p)" "set ns \<subseteq> near_seed ?P E s" "length (cp_Members p) = party_size ?P E s"
      "unat (cf_MinMembers ?P) \<le> length (cp_Members p)" by auto
  have "party_size ?P E s \<le> 5" using party_limit(2) [of E] by (simp add: party_size_def)
  moreover have "set (cp_Members p) \<subseteq> cd_Id ` set E" using s(1,2,4) by (auto simp: near_seed_def)
  ultimately show ?thesis using s(3,5,6) by (simp add: p(2))
qed

lemma NextParty_None:
  assumes "raid_actors E" and "NextParty E = None" and "a \<in> set E" and "b \<in> set E" and "cd_Id a \<noteq> cd_Id b"
  shows "\<not> within_100 a b"
proof (cases "length E < 2")
  case True
  then have "a = b" using assms(3,4) by (cases E; cases "tl E") auto
  with assms(5) show ?thesis by simp
next
  case False
  let ?P = "RaidProfile (party_limit E)"
  have hyps: "distinct (map cd_Id E)" "length E + 1 < 2 ^ 32" "1 \<le> cf_MaxMembers ?P"
    using assms(1) by (simp_all add: raid_actors_def party_limit)
  have "Propose E ?P = None" using assms(2) False by (auto simp: NextParty_eq)
  with Propose_exact [OF hyps] have "party_size ?P E a < 2"
    using assms(3) raid_compatible [OF assms(1)] by auto
  then have "card (near_seed ?P E a) = 0" using party_limit(3) [of E] by (simp add: party_size_def min_def split: if_splits)
  moreover have "finite (near_seed ?P E a)" by (simp add: near_seed_def)
  ultimately have "near_seed ?P E a = {}" by simp
  then show ?thesis using assms(4,5) near_raid [OF assms(1,3)] by auto
qed

lemma raid_actors_filter: "raid_actors E \<Longrightarrow> raid_actors (filter P E)"
  using length_filter_le [of P E] by (auto simp: raid_actors_def distinct_map_filter simp del: length_filter_le)

lemma FormLoop_parties:
  assumes "raid_actors E" and "length E \<le> fuel"
  shows "distinct (concat (FormLoop fuel E)) \<and> set (concat (FormLoop fuel E)) \<subseteq> cd_Id ` set E \<and>
    list_all (\<lambda>p. sorted p \<and> 2 \<le> length p \<and> length p \<le> 5) (FormLoop fuel E) \<and>
    NextParty (filter (\<lambda>a. cd_Id a \<notin> set (concat (FormLoop fuel E))) E) = None"
  using assms
proof (induction fuel arbitrary: E)
  case 0
  then show ?case by (simp add: NextParty_eq)
next
  case (Suc fuel)
  show ?case
  proof (cases "NextParty E")
    case None
    then show ?thesis by simp
  next
    case (Some party)
    note p = NextParty_Some [OF Suc.prems(1) Some]
    let ?E = "filter (\<lambda>a. cd_Id a \<notin> set party) E"
    have "\<exists>a \<in> set E. cd_Id a \<in> set party" using p by (cases party) auto
    then have "length ?E < length E" by (auto intro!: length_filter_less)
    then have "length ?E \<le> fuel" using Suc.prems(2) by simp
    note IH = Suc.IH [OF raid_actors_filter [OF Suc.prems(1)] this]
    let ?rest = "FormLoop fuel ?E"
    have apart: "set party \<inter> set (concat ?rest) = {}" using IH by auto
    have "filter (\<lambda>a. cd_Id a \<notin> set (concat ?rest)) ?E = filter (\<lambda>a. cd_Id a \<notin> set (concat (party # ?rest))) E"
      by (auto intro!: filter_cong)
    with IH p apart Some show ?thesis by (simp del: set_concat) (auto simp del: set_concat)
  qed
qed

lemma eligible_actors:
  assumes "a \<in> set (RaidEligibleActors candidates)"
  shows "901050 \<le> cd_Id a \<and> cd_Id a \<le> 901059 \<and> cd_CreatureEntry a = RaidCreatureEntry \<and>
    cd_WorldFaction a = DefiasBrotherhood \<and> cd_MapId a = RaidMapId"
  using assms unfolding EligibleActors_iff by (auto simp: RaidEligible_def Let_def)

lemma eligible_few: "length (RaidEligibleActors candidates) \<le> 10"
proof -
  let ?ids = "map cd_Id (RaidEligibleActors candidates)"
  have "unat ` set ?ids \<subseteq> {901050..901059}"
    using eligible_actors by (force simp: word_le_nat_alt)
  then have "card (unat ` set ?ids) \<le> card {901050..901059::nat}" by (intro card_mono) simp_all
  moreover have "card (unat ` set ?ids) = card (set ?ids)" by (rule card_image) (simp add: inj_on_def word_unat_eq_iff)
  moreover have "card (set ?ids) = length ?ids" by (rule distinct_card [OF EligibleActors_distinct])
  ultimately show ?thesis by simp
qed

lemma eligible_raid_actors: "raid_actors (RaidEligibleActors candidates)"
  using EligibleActors_distinct [of candidates] eligible_few [of candidates] eligible_actors
  by (auto simp: raid_actors_def)

section \<open>Counting the members\<close>

fun is_present :: "(RaidMemberObservation \<Rightarrow> bool) \<Rightarrow> MemberStatus \<Rightarrow> bool" where
  "is_present P (Present o') = P o'"
| "is_present P _ = False"

lemma Count_loop_counts:
  fixes leader obs roster r c
  defines "q \<equiv> Count_loop leader obs roster (r, c)"
    and "n \<equiv> (\<lambda>P. of_nat (length (filter (\<lambda>i. P (StatusOf obs i)) roster)) :: u32)"
  shows "ra_Present (fst q) = ra_Present r + n (is_present (\<lambda>o'. True)) \<and>
    ra_Arrived (fst q) = ra_Arrived r + n (is_present ro_AtAnchor) \<and>
    ra_Completed (fst q) = ra_Completed r + n (is_present ro_Complete) \<and>
    ra_Dead (fst q) = ra_Dead r + n (\<lambda>s. s = Dead) \<and>
    ra_Action (fst q) = ra_Action r \<and> snd q = (c \<or> list_ex (\<lambda>i. is_present ro_InCombat (StatusOf obs i)) roster)"
  unfolding assms
proof (induction roster arbitrary: r c)
  case (Cons i roster)
  show ?case by (cases "StatusOf obs i") (simp_all add: Cons.IH)
qed simp

lemma filter_all_length: "length (filter P xs) = length xs \<longleftrightarrow> list_all P xs"
  by (metis filter_id_conv length_filter_less less_irrefl list_all_iff)

lemma filter_filter_length:
  "(\<And>x. P x \<Longrightarrow> Q x) \<Longrightarrow> length (filter P xs) = length (filter Q xs) \<longleftrightarrow> list_all (\<lambda>x. Q x \<longrightarrow> P x) xs"
proof -
  assume PQ: "\<And>x. P x \<Longrightarrow> Q x"
  then have "filter P xs = filter P (filter Q xs)" by (auto intro!: filter_cong)
  then have "length (filter P xs) = length (filter Q xs) \<longleftrightarrow> list_all P (filter Q xs)" by (simp only: filter_all_length)
  then show ?thesis by (auto simp: list_all_iff)
qed

lemma of_nat_inject_small: "m \<le> 5 \<Longrightarrow> n \<le> 5 \<Longrightarrow> (of_nat m :: u32) = of_nat n \<longleftrightarrow> m = n"
proof -
  assume "m \<le> 5" "n \<le> 5"
  then have "unat (of_nat m :: u32) = m" "unat (of_nat n :: u32) = n" by (simp_all add: unat_of_nat_u32)
  then show "(of_nat m :: u32) = of_nat n \<longleftrightarrow> m = n" by metis
qed

lemma sorted_distinct_adj: "sorted xs \<Longrightarrow> distinct_adj xs \<longleftrightarrow> distinct xs"
  by (induction xs rule: induct_list012) (auto simp: less_le)

lemma hd_sort_zero: "xs \<noteq> [] \<Longrightarrow> hd (sort xs) \<noteq> (0 :: u64) \<longleftrightarrow> 0 \<notin> set xs"
proof -
  assume "xs \<noteq> []"
  then obtain y ys where s: "sort xs = y # ys" by (metis list.exhaust set_empty set_sort)
  then have "sorted (y # ys)" by (metis sorted_sort)
  then have "0 \<in> set (y # ys) \<longleftrightarrow> y = 0" by (auto simp: word_le_0_iff)
  moreover have "set xs = set (y # ys)" by (metis s set_sort)
  ultimately show ?thesis by (simp add: s)
qed

text \<open>What the assessment of a party looks at: its roster, its clocks, and the state of each member.\<close>

definition sound_party :: "RaidPartyState \<Rightarrow> bool" where
  "sound_party party \<longleftrightarrow> rp_Id party \<noteq> 0 \<and> rp_AttemptId party \<noteq> 0 \<and> 2 \<le> length (rp_Members party) \<and>
     length (rp_Members party) \<le> 5 \<and> 0 \<notin> set (rp_Members party) \<and> distinct (rp_Members party) \<and>
     rp_LeaderSpawn party \<in> set (rp_Members party)"

definition each_member :: "RaidPartyState \<Rightarrow> RaidMemberObservation list \<Rightarrow> (MemberStatus \<Rightarrow> bool) \<Rightarrow> bool" where
  "each_member party obs P \<longleftrightarrow> list_all (\<lambda>i. P (StatusOf obs i)) (rp_Members party)"

definition first_set :: "u64 \<Rightarrow> u64 \<Rightarrow> u64" where
  "first_set a b = (if a \<noteq> 0 then a else b)"

definition party_expired :: "RaidPartyState \<Rightarrow> u64 \<Rightarrow> bool" where
  "party_expired party now \<longleftrightarrow> RaidElapsed now (rp_StartedAtMs party) 900000 \<or>
     RaidElapsed now (first_set (rp_LastProgressAtMs party) (first_set (rp_PhaseStartedAtMs party) (rp_StartedAtMs party))) 120000"

definition party_unassembled :: "RaidPartyState \<Rightarrow> u64 \<Rightarrow> bool" where
  "party_unassembled party now \<longleftrightarrow> rp_Stage party = Assembling \<and>
     RaidElapsed now (first_set (rp_PhaseStartedAtMs party) (rp_StartedAtMs party)) 45000"

lemma sound_party_valid: "sound_party party \<longleftrightarrow> rp_Id party \<noteq> 0 \<and> rp_AttemptId party \<noteq> 0 \<and> ValidRoster party"
proof (cases "rp_Members party = []")
  case False
  then show ?thesis by (auto simp: sound_party_def ValidRoster_def Let_def sorted_distinct_adj hd_sort_zero)
qed (simp add: sound_party_def ValidRoster_def Let_def)

lemma is_present_any:
  "is_present P s \<Longrightarrow> is_present (\<lambda>o'. True) s"
  "(is_present (\<lambda>o'. True) s \<longrightarrow> is_present P s) \<longleftrightarrow> \<not> is_present (\<lambda>o'. \<not> P o') s"
  by (cases s; simp)+

lemma each_member_roster: "each_member party obs P \<longleftrightarrow> list_all (\<lambda>i. P (StatusOf obs i)) (sort (rp_Members party))"
  by (simp add: each_member_def list_all_iff)

lemma each_member_conj: "each_member party obs (\<lambda>s. P s \<and> Q s) \<longleftrightarrow> each_member party obs P \<and> each_member party obs Q"
  by (auto simp: each_member_def list_all_iff)

lemma Count_sound:
  fixes party obs
  defines "q \<equiv> Count_loop (rp_LeaderSpawn party) obs (sort (rp_Members party)) (no_assessment, False)"
  assumes "length (rp_Members party) \<le> 5"
  shows "ra_Completed (fst q) = ra_Present (fst q) \<longleftrightarrow> each_member party obs (\<lambda>s. \<not> is_present (\<lambda>o'. \<not> ro_Complete o') s)"
    and "ra_Arrived (fst q) = ra_Present (fst q) \<longleftrightarrow> each_member party obs (\<lambda>s. \<not> is_present (\<lambda>o'. \<not> ro_AtAnchor o') s)"
    and "ra_Dead (fst q) \<noteq> 0 \<longleftrightarrow> \<not> each_member party obs (\<lambda>s. s \<noteq> Dead)"
    and "unat (ra_Present (fst q)) = length (sort (rp_Members party)) \<and> unat (ra_Arrived (fst q)) = length (sort (rp_Members party)) \<longleftrightarrow>
      each_member party obs (is_present ro_AtAnchor)"
    and "ra_Action (fst q) = RD_Wait" and "snd q \<longleftrightarrow> \<not> each_member party obs (\<lambda>s. \<not> is_present ro_InCombat s)"
proof -
  let ?roster = "sort (rp_Members party)"
  let ?n = "\<lambda>P. length (filter (\<lambda>i. P (StatusOf obs i)) ?roster)"
  have small: "?n P \<le> 5" for P using assms(2) length_filter_le [of "\<lambda>i. P (StatusOf obs i)" ?roster] by simp
  note counts = Count_loop_counts [of "rp_LeaderSpawn party" obs ?roster no_assessment False]
  have counted: "ra_Present (fst q) = of_nat (?n (is_present (\<lambda>o'. True)))" "ra_Arrived (fst q) = of_nat (?n (is_present ro_AtAnchor))"
    "ra_Completed (fst q) = of_nat (?n (is_present ro_Complete))" "ra_Dead (fst q) = of_nat (?n (\<lambda>s. s = Dead))"
    using counts by (simp_all add: no_assessment_def q_def)
  have all_present: "?n (is_present P) = ?n (is_present (\<lambda>o'. True)) \<longleftrightarrow>
      list_all (\<lambda>i. \<not> is_present (\<lambda>o'. \<not> P o') (StatusOf obs i)) ?roster" for P
    by (subst filter_filter_length) (simp_all only: is_present_any)
  show "ra_Completed (fst q) = ra_Present (fst q) \<longleftrightarrow> each_member party obs (\<lambda>s. \<not> is_present (\<lambda>o'. \<not> ro_Complete o') s)"
    "ra_Arrived (fst q) = ra_Present (fst q) \<longleftrightarrow> each_member party obs (\<lambda>s. \<not> is_present (\<lambda>o'. \<not> ro_AtAnchor o') s)"
    unfolding counted(1-3) of_nat_inject_small [OF small small] by (simp_all only: all_present each_member_roster)
  show "ra_Dead (fst q) \<noteq> 0 \<longleftrightarrow> \<not> each_member party obs (\<lambda>s. s \<noteq> Dead)"
    using of_nat_inject_small [OF small, of 0 "\<lambda>s. s = Dead"] unfolding counted(4) each_member_roster
    by (simp add: filter_empty_conv list_all_iff)
  have "unat (of_nat (?n P) :: u32) = ?n P" for P using small [of P] by (intro unat_of_nat_u32) simp
  then show "unat (ra_Present (fst q)) = length ?roster \<and> unat (ra_Arrived (fst q)) = length ?roster \<longleftrightarrow>
      each_member party obs (is_present ro_AtAnchor)"
    unfolding counted(1,2) each_member_roster by (simp only: filter_all_length) (auto simp: list_all_iff dest: is_present_any(1))
  show "ra_Action (fst q) = RD_Wait" "snd q \<longleftrightarrow> \<not> each_member party obs (\<lambda>s. \<not> is_present ro_InCombat s)"
    using counts by (simp_all add: no_assessment_def q_def each_member_def list_all_iff list_ex_iff)
qed

section \<open>Properties\<close>

text \<open>
  C26: Whatever is reported about the bandits, the raiding parties are disjoint, have two to five
  members each, and consist of actors for which there is an eligible description that no other
  description contradicts; and forming goes on until no two eligible actors left over are within
  the formation radius of each other.
\<close>
theorem raid_parties_partition:
  "distinct (concat (RaidForm candidates)) \<and>
    list_all (\<lambda>p. sorted p \<and> 2 \<le> length p \<and> length p \<le> 5) (RaidForm candidates) \<and>
    set (concat (RaidForm candidates)) \<subseteq> {cd_Id (rc_Actor c) | c. RaidEligible c \<and> agreed candidates c} \<and>
    {(a, b). RaidEligible a \<and> agreed candidates a \<and> RaidEligible b \<and> agreed candidates b \<and>
       cd_Id (rc_Actor a) \<notin> set (concat (RaidForm candidates)) \<and> cd_Id (rc_Actor b) \<notin> set (concat (RaidForm candidates)) \<and>
       cd_Id (rc_Actor a) \<noteq> cd_Id (rc_Actor b) \<and> within_100 (rc_Actor a) (rc_Actor b)} = {}"
proof -
  let ?E = "RaidEligibleActors candidates"
  let ?left = "filter (\<lambda>a. cd_Id a \<notin> set (concat (RaidForm candidates))) ?E"
  have form: "RaidForm candidates = FormLoop (length ?E) ?E" by (simp add: RaidForm_def Let_def)
  note loop = FormLoop_parties [OF eligible_raid_actors [of candidates] order.refl, folded form]
  have "\<not> within_100 (rc_Actor a) (rc_Actor b)"
    if "RaidEligible a" "agreed candidates a" "cd_Id (rc_Actor a) \<notin> set (concat (RaidForm candidates))"
      "RaidEligible b" "agreed candidates b" "cd_Id (rc_Actor b) \<notin> set (concat (RaidForm candidates))"
      "cd_Id (rc_Actor a) \<noteq> cd_Id (rc_Actor b)" for a b
  proof -
    have "rc_Actor a \<in> set ?left" "rc_Actor b \<in> set ?left" using that unfolding filter_set [symmetric] by (auto simp: EligibleActors_iff simp del: set_concat)
    then show ?thesis using NextParty_None [OF raid_actors_filter [OF eligible_raid_actors]] loop that(7) by blast
  qed
  moreover have "cd_Id ` set ?E \<subseteq> {cd_Id (rc_Actor c) | c. RaidEligible c \<and> agreed candidates c}"
    by (auto simp: EligibleActors_iff)
  ultimately show ?thesis using loop by blast
qed

text \<open>
  The decision on a party: an ill-formed one retreats and a finished one is complete; on the
  way back it is complete when all members present are home or a deadline has passed, and goes on
  when all present have reached the anchor; otherwise it retreats as soon as a member is dead, in
  combat or late, and advances only when every member of the roster is present at the anchor.
\<close>
theorem raid_assessment_exact:
  "ra_Action (Assess party obs now) =
    (if sound_party party then
       if rp_Stage party = PhaseComplete then RD_Complete
       else if rp_Stage party = Returning then
         (if party_expired party now \<or> each_member party obs (\<lambda>s. \<not> is_present (\<lambda>o'. \<not> ro_Complete o') s) then RD_Complete
          else if each_member party obs (\<lambda>s. \<not> is_present (\<lambda>o'. \<not> ro_AtAnchor o') s) then RD_Advance else RD_Wait)
       else if \<not> party_expired party now \<and> \<not> party_unassembled party now \<and>
           each_member party obs (\<lambda>s. s \<noteq> Dead \<and> \<not> is_present ro_InCombat s)
         then (if each_member party obs (is_present ro_AtAnchor) then RD_Advance else RD_Wait)
         else RD_Retreat
     else RD_Retreat)"
proof (cases "sound_party party")
  case True
  then have "length (rp_Members party) \<le> 5" by (simp add: sound_party_def)
  from Count_sound [OF this, of obs] True show ?thesis
    by (cases "Count_loop (rp_LeaderSpawn party) obs (sort (rp_Members party)) (no_assessment, False)")
       (simp add: Assess_def Let_def decide_def party_expired_def party_unassembled_def first_set_def sound_party_valid each_member_conj)
next
  case False
  then show ?thesis by (auto simp: Assess_def Let_def decide_def sound_party_valid)
qed

end
