(* ===== verification/Advice_Budget.thy ===== *)
theory Advice_Budget
  imports AIW_Prelude
begin

text \<open>
  \<open>Agent/LivingAdviceBudget.h\<close>: which actor may ask the inference service for advice next. Requests
  wait in a queue; one at a time is offered the turn, urgent (returning) requests first but at
  most three turns in a row while a normal one could take it; an offer that is not used for five
  seconds passes on, and admissions are two seconds apart. Also the counters of
  \<open>Agent/LivingAdviceAdmission.h\<close>.
\<close>

section \<open>The budget\<close>

record AdviceWaiting =
  aw_Id :: u64
  aw_Since :: u64
  aw_SeenAt :: u64
  aw_Returning :: bool
  aw_Dispatchable :: bool

record LivingAdviceBudget =
  ab_waiting :: "AdviceWaiting list"
  ab_admittedAt :: "u64 option"
  ab_offeredId :: "u64 option"
  ab_offeredAt :: u64
  ab_sweptAt :: u64
  ab_offeredReturning :: bool
  ab_urgentRun :: u32

definition LivingAdviceBudget_init :: LivingAdviceBudget where
  "LivingAdviceBudget_init = \<lparr>ab_waiting = [], ab_admittedAt = None, ab_offeredId = None, ab_offeredAt = 0,
     ab_sweptAt = 0, ab_offeredReturning = False, ab_urgentRun = 0\<rparr>"

definition Open :: "u64 \<Rightarrow> LivingAdviceBudget \<Rightarrow> bool" where
  "Open now s = (case ab_admittedAt s of None \<Rightarrow> True | Some t \<Rightarrow> now \<ge> t \<and> now - t \<ge> 2000)"

definition CompleteTurn :: "bool \<Rightarrow> LivingAdviceBudget \<Rightarrow> LivingAdviceBudget" where
  "CompleteTurn returning s = s\<lparr>ab_urgentRun := if returning then min 3 (ab_urgentRun s + 1) else 0\<rparr>"

definition PassOffer :: "LivingAdviceBudget \<Rightarrow> LivingAdviceBudget" where
  "PassOffer s = ((if ab_offeredId s \<noteq> None then CompleteTurn (ab_offeredReturning s) s else s)\<lparr>ab_offeredId := None\<rparr>)"

definition stale_request :: "u64 \<Rightarrow> AdviceWaiting \<Rightarrow> bool" where
  "stale_request now w = (now < aw_SeenAt w \<or> now - aw_SeenAt w > 30000)"

definition ExpireWaiting :: "u64 \<Rightarrow> LivingAdviceBudget \<Rightarrow> LivingAdviceBudget" where
  "ExpireWaiting now s =
     (if now \<ge> ab_sweptAt s \<and> now - ab_sweptAt s < 1000 then s
      else s\<lparr>ab_sweptAt := now, ab_waiting := filter (\<lambda>w. \<not> stale_request now w) (ab_waiting s)\<rparr>)"

definition NextTurn :: "LivingAdviceBudget \<Rightarrow> AdviceWaiting option" where
  "NextTurn s =
     (let urgent = find (\<lambda>w. aw_Returning w \<and> aw_Dispatchable w) (ab_waiting s);
          normal = find (\<lambda>w. \<not> aw_Returning w \<and> aw_Dispatchable w) (ab_waiting s)
      in if urgent \<noteq> None \<and> (ab_urgentRun s < 3 \<or> normal = None) then urgent else normal)"

definition find_waiting :: "u64 \<Rightarrow> LivingAdviceBudget \<Rightarrow> AdviceWaiting option" where
  "find_waiting i s = find (\<lambda>w. aw_Id w = i) (ab_waiting s)"

definition erase_waiting :: "u64 \<Rightarrow> AdviceWaiting list \<Rightarrow> AdviceWaiting list" where
  "erase_waiting i ws = filter (\<lambda>w. aw_Id w \<noteq> i) ws"

text \<open>The end of \<open>Offer\<close>: the next turn, if anybody can take it.\<close>

definition offer_next :: "u64 \<Rightarrow> LivingAdviceBudget \<Rightarrow> LivingAdviceBudget" where
  "offer_next now s =
     (case NextTurn s of
        None \<Rightarrow> s
      | Some next \<Rightarrow> s\<lparr>ab_offeredId := Some (aw_Id next), ab_offeredAt := now,
                       ab_offeredReturning := aw_Returning next\<rparr>)"

text \<open>
  \<open>_waiting.erase(found)\<close> drops one element; ids are unique in the queue (\<open>budget_ok\<close> below), so
  erasing by id is the same.
\<close>

definition Offer :: "u64 \<Rightarrow> LivingAdviceBudget \<Rightarrow> LivingAdviceBudget" where
  "Offer now s0 =
     (let s = ExpireWaiting now s0 in
      if \<not> Open now s then s\<lparr>ab_offeredId := None\<rparr>
      else case ab_offeredId s of
        None \<Rightarrow> offer_next now s
      | Some offered \<Rightarrow>
          if now < ab_offeredAt s then offer_next now (s\<lparr>ab_offeredId := None\<rparr>)
          else case find_waiting offered s of
            None \<Rightarrow> offer_next now (PassOffer s)
          | Some missed \<Rightarrow>
              if \<not> aw_Dispatchable missed then offer_next now (PassOffer s)
              else if now - ab_offeredAt s < 5000 then s
              else offer_next now (PassOffer
                (s\<lparr>ab_waiting := erase_waiting offered (ab_waiting s) @ [missed]\<rparr>)))"

definition CancelWaiting :: "u64 \<Rightarrow> LivingAdviceBudget \<Rightarrow> LivingAdviceBudget" where
  "CancelWaiting i s0 =
     (let s = s0\<lparr>ab_waiting := erase_waiting i (ab_waiting s0)\<rparr>
      in if ab_offeredId s = Some i then PassOffer s else s)"

definition touch_waiting :: "u64 \<Rightarrow> u64 \<Rightarrow> bool \<Rightarrow> bool \<Rightarrow> AdviceWaiting \<Rightarrow> AdviceWaiting" where
  "touch_waiting i now returning dispatchable w =
     (if aw_Id w = i then w\<lparr>aw_SeenAt := now, aw_Returning := returning, aw_Dispatchable := dispatchable\<rparr> else w)"

definition RefreshWaiting :: "u64 \<Rightarrow> u64 \<Rightarrow> bool \<Rightarrow> bool \<Rightarrow> bool \<Rightarrow> LivingAdviceBudget \<Rightarrow> LivingAdviceBudget" where
  "RefreshWaiting i now eligible returning dispatchable s0 =
     (let s = ExpireWaiting now s0 in
      if \<not> eligible then CancelWaiting i s
      else Offer now (s\<lparr>ab_waiting := map (touch_waiting i now returning dispatchable) (ab_waiting s)\<rparr>))"

definition Ready :: "u64 \<Rightarrow> u64 \<Rightarrow> LivingAdviceBudget \<Rightarrow> bool \<times> LivingAdviceBudget" where
  "Ready i now s0 = (let s = Offer now s0 in (ab_offeredId s = Some i, s))"

definition MaxWaiting :: nat where
  "MaxWaiting = 2048"

definition Acquire :: "u64 \<Rightarrow> u64 \<Rightarrow> bool \<Rightarrow> LivingAdviceBudget \<Rightarrow> bool \<times> LivingAdviceBudget" where
  "Acquire i now returning s0 =
     (let s1 = RefreshWaiting i now True returning True s0;
          s2 = (if find_waiting i s1 = None \<and> length (ab_waiting s1) < MaxWaiting
                then s1\<lparr>ab_waiting := ab_waiting s1 @ [\<lparr>aw_Id = i, aw_Since = now, aw_SeenAt = now,
                  aw_Returning = returning, aw_Dispatchable = True\<rparr>]\<rparr> else s1);
          (ready, s3) = Ready i now s2
      in if \<not> ready then (False, s3)
         else (True, (CancelWaiting i ((CompleteTurn returning s3)\<lparr>ab_offeredId := None\<rparr>))\<lparr>ab_admittedAt := Some now\<rparr>))"

definition WaitingMs :: "u64 \<Rightarrow> u64 \<Rightarrow> LivingAdviceBudget \<Rightarrow> u64 option" where
  "WaitingMs i now s = map_option (\<lambda>w. if now \<ge> aw_Since w then now - aw_Since w else 0) (find_waiting i s)"

definition WaitingSize :: "LivingAdviceBudget \<Rightarrow> u32" where
  "WaitingSize s = of_nat (length (ab_waiting s))"

definition DispatchableNow :: "u64 \<Rightarrow> LivingAdviceBudget \<Rightarrow> bool" where
  "DispatchableNow i s = list_ex (\<lambda>w. aw_Id w = i \<and> aw_Dispatchable w) (ab_waiting s)"

section \<open>Admission counters\<close>

datatype LivingAdviceAdmissionEvent =
  AdmissionNone | ReadyObserved | Entered | AcquireAttempt | Acquired | EarlyGate | NoValidOptions

record LivingAdviceAdmissionState =
  as_ReadyObserved :: u32
  as_Entries :: u32
  as_AcquireAttempts :: u32
  as_Acquired :: u32
  as_EarlyGates :: u32
  as_LocalEmptyOptions :: u32
  as_LastEvent :: LivingAdviceAdmissionEvent
  as_LastReason :: string
  as_LastAt :: u64
  as_LastAcquiredAt :: u64

fun Admission_ToString :: "LivingAdviceAdmissionEvent \<Rightarrow> string" where
  "Admission_ToString ReadyObserved = ''READY_OBSERVED''"
| "Admission_ToString Entered = ''ENTERED''"
| "Admission_ToString AcquireAttempt = ''ACQUIRE_ATTEMPT''"
| "Admission_ToString Acquired = ''ACQUIRED''"
| "Admission_ToString EarlyGate = ''EARLY_GATE''"
| "Admission_ToString NoValidOptions = ''NO_VALID_OPTIONS''"
| "Admission_ToString AdmissionNone = ''NONE''"

definition bump :: "u32 \<Rightarrow> u32" where
  "bump counter = (if counter < u32_max then counter + 1 else counter)"

definition AdmissionRecord :: "LivingAdviceAdmissionEvent \<Rightarrow> u64 \<Rightarrow> string option \<Rightarrow> LivingAdviceAdmissionState \<Rightarrow>
    LivingAdviceAdmissionState" where
  "AdmissionRecord event nowMs reason s =
     (let stamp = (\<lambda>s. s\<lparr>as_LastEvent := event, as_LastAt := nowMs,
            as_LastReason := case reason of Some r \<Rightarrow> r | None \<Rightarrow> Admission_ToString event\<rparr>) in
      case event of
        ReadyObserved \<Rightarrow> stamp (s\<lparr>as_ReadyObserved := bump (as_ReadyObserved s)\<rparr>)
      | Entered \<Rightarrow> stamp (s\<lparr>as_Entries := bump (as_Entries s)\<rparr>)
      | AcquireAttempt \<Rightarrow> stamp (s\<lparr>as_AcquireAttempts := bump (as_AcquireAttempts s)\<rparr>)
      | Acquired \<Rightarrow> stamp (s\<lparr>as_Acquired := bump (as_Acquired s), as_LastAcquiredAt := nowMs\<rparr>)
      | EarlyGate \<Rightarrow> stamp (s\<lparr>as_EarlyGates := bump (as_EarlyGates s)\<rparr>)
      | NoValidOptions \<Rightarrow> stamp (s\<lparr>as_LocalEmptyOptions := bump (as_LocalEmptyOptions s)\<rparr>)
      | AdmissionNone \<Rightarrow> s)"

section \<open>Runs\<close>

datatype budget_op = BRefresh u64 u64 bool bool bool | BReady u64 u64 | BAcquire u64 u64 bool | BCancel u64

text \<open>A step, with the time of the admission if one was granted.\<close>

fun budget_step :: "budget_op \<Rightarrow> LivingAdviceBudget \<Rightarrow> u64 option \<times> LivingAdviceBudget" where
  "budget_step (BRefresh i now eligible returning dispatchable) s =
     (None, RefreshWaiting i now eligible returning dispatchable s)"
| "budget_step (BReady i now) s = (None, snd (Ready i now s))"
| "budget_step (BAcquire i now returning) s =
     (let (granted, s') = Acquire i now returning s in (if granted then Some now else None, s'))"
| "budget_step (BCancel i) s = (None, CancelWaiting i s)"

fun admissions :: "budget_op list \<Rightarrow> LivingAdviceBudget \<Rightarrow> u64 list" where
  "admissions [] s = []"
| "admissions (op # ops) s =
     (case fst (budget_step op s) of None \<Rightarrow> [] | Some t \<Rightarrow> [t]) @ admissions ops (snd (budget_step op s))"

definition budget_run :: "budget_op list \<Rightarrow> LivingAdviceBudget" where
  "budget_run ops = fold (\<lambda>op s. snd (budget_step op s)) ops LivingAdviceBudget_init"

definition queue_ids :: "LivingAdviceBudget \<Rightarrow> u64 list" where
  "queue_ids s = map aw_Id (ab_waiting s)"

text \<open>
  The invariant: ids are unique, the queue is bounded, the run of urgent turns is at most three,
  and an actor that holds the offer and still waits could take it.
\<close>

definition queue_ok :: "LivingAdviceBudget \<Rightarrow> bool" where
  "queue_ok s \<longleftrightarrow> distinct (queue_ids s) \<and> length (ab_waiting s) \<le> MaxWaiting \<and> ab_urgentRun s \<le> 3"

definition offer_ok :: "LivingAdviceBudget \<Rightarrow> bool" where
  "offer_ok s \<longleftrightarrow> (\<forall>w \<in> set (ab_waiting s). ab_offeredId s = Some (aw_Id w) \<longrightarrow> aw_Dispatchable w)"

lemma CompleteTurn_simps [simp]:
  "ab_waiting (CompleteTurn r s) = ab_waiting s" "ab_admittedAt (CompleteTurn r s) = ab_admittedAt s"
  "ab_offeredId (CompleteTurn r s) = ab_offeredId s" "ab_sweptAt (CompleteTurn r s) = ab_sweptAt s"
  "ab_urgentRun (CompleteTurn r s) = (if r then min 3 (ab_urgentRun s + 1) else 0)"
  by (simp_all add: CompleteTurn_def)

lemma PassOffer_simps [simp]:
  "ab_waiting (PassOffer s) = ab_waiting s" "ab_admittedAt (PassOffer s) = ab_admittedAt s"
  "ab_offeredId (PassOffer s) = None" "ab_sweptAt (PassOffer s) = ab_sweptAt s"
  "ab_urgentRun (PassOffer s) = (if ab_offeredId s = None then ab_urgentRun s
     else if ab_offeredReturning s then min 3 (ab_urgentRun s + 1) else 0)"
  by (simp_all add: PassOffer_def)

lemma offer_next_simps [simp]:
  "ab_waiting (offer_next now s) = ab_waiting s" "ab_admittedAt (offer_next now s) = ab_admittedAt s"
  "ab_urgentRun (offer_next now s) = ab_urgentRun s" "ab_sweptAt (offer_next now s) = ab_sweptAt s"
  by (simp_all add: offer_next_def split: option.split)

lemma Expire_simps [simp]:
  "ab_admittedAt (ExpireWaiting now s) = ab_admittedAt s" "ab_urgentRun (ExpireWaiting now s) = ab_urgentRun s"
  "ab_offeredId (ExpireWaiting now s) = ab_offeredId s" "ab_offeredAt (ExpireWaiting now s) = ab_offeredAt s"
  "ab_offeredReturning (ExpireWaiting now s) = ab_offeredReturning s"
  by (simp_all add: ExpireWaiting_def)

lemma find_waiting_Some: "find_waiting i s = Some w \<Longrightarrow> w \<in> set (ab_waiting s) \<and> aw_Id w = i"
  unfolding find_waiting_def by (auto simp: find_Some_iff)

lemma find_waiting_None: "find_waiting i s = None \<longleftrightarrow> i \<notin> set (queue_ids s)"
  unfolding find_waiting_def queue_ids_def by (auto simp: find_None_iff)

lemma find_waiting_iff:
  assumes "distinct (queue_ids s)"
  shows "find_waiting i s = Some w \<longleftrightarrow> w \<in> set (ab_waiting s) \<and> aw_Id w = i"
proof -
  have "distinct (map aw_Id ws) \<Longrightarrow> find (\<lambda>w. aw_Id w = i) ws = Some w \<longleftrightarrow> w \<in> set ws \<and> aw_Id w = i" for ws
    by (induction ws) auto
  with assms show ?thesis unfolding find_waiting_def queue_ids_def by blast
qed

lemma Expire_waiting:
  obtains P where "ab_waiting (ExpireWaiting now s) = filter P (ab_waiting s)"
    and "\<And>w. \<not> stale_request now w \<Longrightarrow> P w"
  by (cases "now \<ge> ab_sweptAt s \<and> now - ab_sweptAt s < 1000")
    (auto simp: ExpireWaiting_def intro: that [of "\<lambda>w. True"] that [of "\<lambda>w. \<not> stale_request now w"])

lemma NextTurn_waiting: "NextTurn s = Some w \<Longrightarrow> w \<in> set (ab_waiting s) \<and> aw_Dispatchable w"
  by (auto simp: NextTurn_def Let_def find_Some_iff split: if_splits)

section \<open>Admissions are spaced and the queue is bounded\<close>

lemma Offer_admittedAt [simp]: "ab_admittedAt (Offer now s) = ab_admittedAt s"
  by (auto simp: Offer_def Let_def split: option.split)

lemma Offer_offered_open: "ab_offeredId (Offer now s) = Some i \<Longrightarrow> Open now s"
  by (auto simp: Offer_def Open_def Let_def split: option.splits if_splits)

lemma Cancel_admittedAt [simp]: "ab_admittedAt (CancelWaiting i s) = ab_admittedAt s"
  by (simp add: CancelWaiting_def Let_def)

lemma Refresh_admittedAt [simp]: "ab_admittedAt (RefreshWaiting i now e r d s) = ab_admittedAt s"
  by (simp add: RefreshWaiting_def Let_def)

lemma Acquire_admittedAt:
  "Acquire i now returning s = (granted, s') \<Longrightarrow>
     ab_admittedAt s' = (if granted then Some now else ab_admittedAt s) \<and> (granted \<longrightarrow> Open now s)"
  by (auto simp: Acquire_def Ready_def Let_def Open_def split: prod.splits if_splits dest!: Offer_offered_open)

lemma step_admittedAt:
  assumes "budget_step op s = (gr, s')"
  shows "ab_admittedAt s' = (case gr of None \<Rightarrow> ab_admittedAt s | Some t \<Rightarrow> Some t) \<and> (\<forall>t. gr = Some t \<longrightarrow> Open t s)"
  using assms by (cases op) (auto simp: Ready_def Let_def split: prod.splits if_splits dest: Acquire_admittedAt)

definition spaced :: "u64 \<Rightarrow> u64 \<Rightarrow> bool" where
  "spaced t u \<longleftrightarrow> t \<le> u \<and> u - t \<ge> 2000"

lemma admissions_spaced:
  "successively spaced ((case ab_admittedAt s of None \<Rightarrow> [] | Some t \<Rightarrow> [t]) @ admissions ops s)"
proof (induction ops arbitrary: s)
  case (Cons op ops)
  obtain gr s' where step: "budget_step op s = (gr, s')" by fastforce
  note a = step_admittedAt [OF step]
  show ?case
    using Cons.IH [of s'] a step
    by (cases gr; cases "ab_admittedAt s") (auto simp: spaced_def Open_def)
qed (simp split: option.split)

lemma queue_okI:
  assumes "queue_ok s" and "distinct (queue_ids s')" and "set (queue_ids s') \<subseteq> set (queue_ids s)"
    and "ab_urgentRun s' \<le> 3"
  shows "queue_ok s'"
proof -
  have "length (queue_ids s') \<le> length (queue_ids s)"
    using assms(1-3) card_mono [OF finite_set assms(3)] by (simp add: queue_ok_def distinct_card)
  then show ?thesis using assms by (simp add: queue_ok_def queue_ids_def)
qed

lemma urgent_bound: "(u :: u32) \<le> 3 \<Longrightarrow> (if r then min 3 (u + 1) else 0) \<le> 3"
  by simp

lemma Expire_ids:
  "distinct (queue_ids s) \<Longrightarrow> distinct (queue_ids (ExpireWaiting now s))"
  "set (queue_ids (ExpireWaiting now s)) \<subseteq> set (queue_ids s)"
  using Expire_waiting [of now s] by (metis distinct_map_filter queue_ids_def) (auto simp: queue_ids_def ExpireWaiting_def)

lemma erase_ids: "map aw_Id (erase_waiting i ws) = filter (\<lambda>j. j \<noteq> i) (map aw_Id ws)"
  by (simp add: erase_waiting_def filter_map comp_def)

lemma touch_ids: "map aw_Id (map (touch_waiting i now r d) ws) = map aw_Id ws"
  by (simp add: touch_waiting_def)

text \<open>What \<open>Offer\<close> can do.\<close>

lemma Offer_cases:
  fixes now s
  defines "e \<equiv> ExpireWaiting now s"
  assumes "distinct (queue_ids s)"
  obtains (closed) "Offer now s = e\<lparr>ab_offeredId := None\<rparr>"
  | (kept) x w where "Open now s" "ab_offeredId s = Some x" "w \<in> set (ab_waiting e)" "aw_Id w = x" "aw_Dispatchable w"
      "ab_offeredAt s \<le> now" "now - ab_offeredAt s < 5000" "Offer now s = e"
  | (reset) "Open now s" "Offer now s = offer_next now (e\<lparr>ab_offeredId := None\<rparr>)"
  | (unused) x where "Open now s" "ab_offeredId s = Some x"
      "\<And>w. w \<in> set (ab_waiting e) \<Longrightarrow> aw_Id w = x \<Longrightarrow> \<not> aw_Dispatchable w" "Offer now s = offer_next now (PassOffer e)"
  | (missed) x w where "Open now s" "ab_offeredId s = Some x" "w \<in> set (ab_waiting e)" "aw_Id w = x"
      "Offer now s = offer_next now (PassOffer (e\<lparr>ab_waiting := erase_waiting x (ab_waiting e) @ [w]\<rparr>))"
proof (cases "Open now s")
  case False
  then have "\<not> Open now e" by (simp add: Open_def e_def)
  then show ?thesis using closed by (simp add: Offer_def e_def)
next
  case True
  then have op: "Open now e" by (simp add: Open_def e_def)
  have d: "distinct (queue_ids e)" using Expire_ids(1) [OF assms(2)] by (simp add: e_def)
  show ?thesis
  proof (cases "ab_offeredId s")
    case None
    then have eq: "e\<lparr>ab_offeredId := None\<rparr> = e" by (simp add: e_def)
    have "Offer now s = offer_next now e" using op None by (simp add: Offer_def Let_def e_def)
    then show ?thesis using reset [OF True] eq by simp
  next
    case (Some x)
    show ?thesis
    proof (cases "now < ab_offeredAt s")
      case past: True
      with \<open>Open now s\<close> op Some show ?thesis using reset by (simp add: Offer_def Let_def e_def)
    next
      case False
      show ?thesis
      proof (cases "find_waiting x e")
        case None
        then have "\<And>w. w \<in> set (ab_waiting e) \<Longrightarrow> aw_Id w = x \<Longrightarrow> \<not> aw_Dispatchable w"
          by (auto simp: find_waiting_None queue_ids_def)
        with True op Some False None show ?thesis using unused by (simp add: Offer_def Let_def e_def)
      next
        case (Some w)
        have w: "w \<in> set (ab_waiting e)" "aw_Id w = x" using find_waiting_iff [OF d, of x w] Some by blast+
        have only: "v = w" if "v \<in> set (ab_waiting e)" "aw_Id v = x" for v
          using find_waiting_iff [OF d, of x v] Some that by simp
        have off: "ab_offeredId e = Some x" "ab_offeredAt e = ab_offeredAt s"
          using \<open>ab_offeredId s = Some x\<close> by (simp_all add: e_def)
        consider (a) "\<not> aw_Dispatchable w" | (b) "aw_Dispatchable w" "now - ab_offeredAt s < 5000"
          | (c) "aw_Dispatchable w" "\<not> now - ab_offeredAt s < 5000" by blast
        then show ?thesis
        proof cases
          case a
          have "Offer now s = offer_next now (PassOffer e)"
            using op off False Some a by (simp add: Offer_def Let_def e_def [symmetric])
          then show ?thesis using unused [OF True \<open>ab_offeredId s = Some x\<close>] only a by blast
        next
          case b
          have "Offer now s = e"
            using op off False Some b by (simp add: Offer_def Let_def e_def [symmetric])
          then show ?thesis using kept [OF True \<open>ab_offeredId s = Some x\<close> w b(1) _ b(2)] False by simp
        next
          case c
          have "Offer now s = offer_next now (PassOffer (e\<lparr>ab_waiting := erase_waiting x (ab_waiting e) @ [w]\<rparr>))"
            using op off False Some c by (simp add: Offer_def Let_def e_def [symmetric])
          then show ?thesis using missed [OF True \<open>ab_offeredId s = Some x\<close> w] by blast
        qed
      qed
    qed
  qed
qed

lemma Offer_queue_ok:
  assumes "queue_ok s"
  shows "queue_ok (Offer now s)"
proof -
  have d: "distinct (queue_ids s)" and u: "ab_urgentRun s \<le> 3" using assms by (simp_all add: queue_ok_def)
  note e = Expire_ids(1) [OF d, of now] Expire_ids(2) [of now s]
  show ?thesis
  proof (rule queue_okI [OF assms])
    show "ab_urgentRun (Offer now s) \<le> 3"
      using Offer_cases [OF d, of now] u by cases (simp_all add: urgent_bound)
    show "distinct (queue_ids (Offer now s))"
      using Offer_cases [OF d, of now] e by cases (auto simp: queue_ids_def erase_ids)
    show "set (queue_ids (Offer now s)) \<subseteq> set (queue_ids s)"
      using Offer_cases [OF d, of now] e by cases (force simp: queue_ids_def erase_ids)+
  qed
qed

lemma offer_next_ok:
  assumes "distinct (queue_ids s)" and "ab_offeredId s = None"
  shows "offer_ok (offer_next now s)"
proof (cases "NextTurn s")
  case None
  then show ?thesis using assms(2) by (simp add: offer_ok_def offer_next_def)
next
  case (Some w)
  note w = NextTurn_waiting [OF Some]
  have "aw_Dispatchable v" if "v \<in> set (ab_waiting s)" "aw_Id v = aw_Id w" for v
    using find_waiting_iff [OF assms(1), of "aw_Id w" w] find_waiting_iff [OF assms(1), of "aw_Id w" v] w that by simp
  with Some show ?thesis by (simp add: offer_ok_def offer_next_def)
qed

lemma distinct_missed:
  assumes "distinct (queue_ids s)" and "aw_Id w = x"
  shows "distinct (queue_ids (s\<lparr>ab_waiting := erase_waiting x (ab_waiting s) @ [w]\<rparr>))"
  using assms by (simp add: queue_ids_def erase_ids)

lemma Offer_offer_ok:
  assumes "distinct (queue_ids s)"
  shows "offer_ok (Offer now s)"
proof -
  note e = Expire_ids(1) [OF assms, of now]
  from assms show ?thesis
  proof (cases rule: Offer_cases [of s now, case_names closed kept reset unused missed])
    case closed
    then show ?thesis by (simp add: offer_ok_def)
  next
    case (kept x w)
    have "aw_Dispatchable v" if "v \<in> set (ab_waiting (ExpireWaiting now s))" "aw_Id v = x" for v
      using find_waiting_iff [OF e, of x w] find_waiting_iff [OF e, of x v] kept(3-5) that by simp
    with kept(2,8) show ?thesis by (simp add: offer_ok_def)
  next
    case reset
    then show ?thesis using e by (simp add: offer_next_ok queue_ids_def)
  next
    case (unused x)
    then show ?thesis using e by (simp add: offer_next_ok queue_ids_def)
  next
    case (missed x w)
    then show ?thesis using distinct_missed [OF e missed(4)] by (simp add: offer_next_ok queue_ids_def)
  qed
qed

text \<open>An offer just made or just confirmed stands when it is looked at again in the same instant.\<close>

definition standing :: "u64 \<Rightarrow> u64 \<Rightarrow> LivingAdviceBudget \<Rightarrow> bool" where
  "standing now x s \<longleftrightarrow> Open now s \<and> ab_offeredId s = Some x \<and> ab_offeredAt s \<le> now \<and> now - ab_offeredAt s < 5000 \<and>
     ExpireWaiting now s = s \<and> (\<exists>w. find_waiting x s = Some w \<and> aw_Dispatchable w)"

lemma standing_again: "standing now x s \<Longrightarrow> Offer now s = s"
  by (auto simp: standing_def Offer_def Let_def)

lemma Expire_twice:
  assumes "ab_sweptAt s = ab_sweptAt (ExpireWaiting now t)"
  shows "ExpireWaiting now s = s"
  using assms by (auto simp: ExpireWaiting_def split: if_splits)

lemma offer_next_standing:
  assumes "distinct (queue_ids s)" and "ab_offeredId s = None" and "Open now s"
    and "ab_sweptAt s = ab_sweptAt (ExpireWaiting now t)" and "ab_offeredId (offer_next now s) = Some x"
  shows "standing now x (offer_next now s)"
proof -
  obtain w where w: "NextTurn s = Some w" "aw_Id w = x" using assms(2,5) by (auto simp: offer_next_def split: option.splits)
  with NextTurn_waiting [OF w(1)] have "find_waiting x s = Some w" using find_waiting_iff [OF assms(1)] by blast
  then have "find_waiting x (offer_next now s) = Some w" by (simp add: find_waiting_def)
  moreover have "ExpireWaiting now (offer_next now s) = offer_next now s"
    by (rule Expire_twice [of _ now t]) (simp add: assms(4))
  ultimately show ?thesis using w NextTurn_waiting [OF w(1)] assms(3) by (auto simp: standing_def Open_def offer_next_def)
qed

lemma Offer_standing:
  assumes "distinct (queue_ids s)" and "ab_offeredId (Offer now s) = Some x"
  shows "standing now x (Offer now s)"
proof -
  note e = Expire_ids(1) [OF assms(1), of now]
  have op: "Open now s" using Offer_offered_open [OF assms(2)] .
  from assms(1) show ?thesis
  proof (cases rule: Offer_cases [of s now, case_names closed kept reset unused missed])
    case closed
    then show ?thesis using assms(2) by simp
  next
    case (kept y w)
    have "find_waiting x (ExpireWaiting now s) = Some w" using kept assms(2) find_waiting_iff [OF e, of x w] by simp
    with kept assms(2) op show ?thesis
      using Expire_twice [of "ExpireWaiting now s" now s] by (simp add: standing_def Open_def)
  next
    case reset
    then show ?thesis using e op assms(2) by (simp add: offer_next_standing [where t = s] queue_ids_def Open_def)
  next
    case (unused y)
    then show ?thesis using e op assms(2) by (simp add: offer_next_standing [where t = s] queue_ids_def Open_def)
  next
    case (missed y w)
    then show ?thesis using distinct_missed [OF e missed(4)] op assms(2)
      by (simp add: offer_next_standing [where t = s] queue_ids_def Open_def)
  qed
qed

section \<open>Every operation keeps the invariant\<close>

text \<open>\<open>cls\<close> is the class of each actor: urgent (returning) or normal.\<close>

definition class_ok :: "(u64 \<Rightarrow> bool) \<Rightarrow> LivingAdviceBudget \<Rightarrow> bool" where
  "class_ok cls s \<longleftrightarrow> (\<forall>w \<in> set (ab_waiting s). aw_Returning w = cls (aw_Id w)) \<and>
     (\<forall>x. ab_offeredId s = Some x \<longrightarrow> ab_offeredReturning s = cls x)"

definition push_waiting :: "u64 \<Rightarrow> u64 \<Rightarrow> bool \<Rightarrow> LivingAdviceBudget \<Rightarrow> LivingAdviceBudget" where
  "push_waiting i now returning s =
     (if find_waiting i s = None \<and> length (ab_waiting s) < MaxWaiting
      then s\<lparr>ab_waiting := ab_waiting s @ [\<lparr>aw_Id = i, aw_Since = now, aw_SeenAt = now,
        aw_Returning = returning, aw_Dispatchable = True\<rparr>]\<rparr> else s)"

definition grant :: "u64 \<Rightarrow> u64 \<Rightarrow> bool \<Rightarrow> LivingAdviceBudget \<Rightarrow> LivingAdviceBudget" where
  "grant i now returning s =
     (CancelWaiting i ((CompleteTurn returning s)\<lparr>ab_offeredId := None\<rparr>))\<lparr>ab_admittedAt := Some now\<rparr>"

lemma Acquire_unfold:
  "Acquire i now returning s =
     (let s3 = Offer now (push_waiting i now returning (RefreshWaiting i now True returning True s))
      in if ab_offeredId s3 = Some i then (True, grant i now returning s3) else (False, s3))"
  by (simp add: Acquire_def Ready_def push_waiting_def grant_def Let_def)

lemma Cancel_simps [simp]:
  "ab_waiting (CancelWaiting i s) = erase_waiting i (ab_waiting s)"
  "ab_offeredId (CancelWaiting i s) = (if ab_offeredId s = Some i then None else ab_offeredId s)"
  "ab_urgentRun (CancelWaiting i s) = (if ab_offeredId s = Some i
     then (if ab_offeredReturning s then min 3 (ab_urgentRun s + 1) else 0) else ab_urgentRun s)"
  "ab_offeredId s \<noteq> Some i \<Longrightarrow> ab_offeredReturning (CancelWaiting i s) = ab_offeredReturning s"
  by (simp_all add: CancelWaiting_def Let_def)

lemma grant_simps [simp]:
  "ab_waiting (grant i now r s) = erase_waiting i (ab_waiting s)" "ab_offeredId (grant i now r s) = None"
  "ab_urgentRun (grant i now r s) = (if r then min 3 (ab_urgentRun s + 1) else 0)"
  by (simp_all add: grant_def)

lemma push_simps [simp]:
  "ab_offeredId (push_waiting i now r s) = ab_offeredId s" "ab_urgentRun (push_waiting i now r s) = ab_urgentRun s"
  "ab_offeredReturning (push_waiting i now r s) = ab_offeredReturning s"
  by (simp_all add: push_waiting_def)

lemma Cancel_queue_ok: "queue_ok s \<Longrightarrow> queue_ok (CancelWaiting i s)"
  by (rule queue_okI [of s]) (auto simp: queue_ok_def queue_ids_def erase_ids)

lemma Refresh_queue_ok:
  assumes "queue_ok s"
  shows "queue_ok (RefreshWaiting i now e r d s)"
proof -
  have x: "queue_ok (ExpireWaiting now s)"
    using assms Expire_ids(1) [of s now] Expire_ids(2) [of now s] by (intro queue_okI [OF assms]) (auto simp: queue_ok_def)
  then have "queue_ok ((ExpireWaiting now s)\<lparr>ab_waiting := map (touch_waiting i now r d) (ab_waiting (ExpireWaiting now s))\<rparr>)"
    by (intro queue_okI [OF x]) (auto simp: queue_ok_def queue_ids_def touch_ids simp del: map_map)
  with x show ?thesis by (simp add: RefreshWaiting_def Let_def Cancel_queue_ok Offer_queue_ok)
qed

lemma push_queue_ok: "queue_ok s \<Longrightarrow> queue_ok (push_waiting i now r s)"
  by (auto simp: queue_ok_def push_waiting_def find_waiting_None queue_ids_def)

lemma grant_queue_ok: "queue_ok s \<Longrightarrow> queue_ok (grant i now r s)"
  by (rule queue_okI [of s]) (auto simp: queue_ok_def queue_ids_def erase_ids)

lemma budget_step_queue_ok: "queue_ok s \<Longrightarrow> queue_ok (snd (budget_step op s))"
  by (cases op) (auto simp: Acquire_unfold Ready_def Let_def Refresh_queue_ok Offer_queue_ok push_queue_ok
      grant_queue_ok Cancel_queue_ok)

lemma Cancel_offer_ok: "offer_ok s \<Longrightarrow> offer_ok (CancelWaiting i s)"
  by (auto simp: offer_ok_def erase_waiting_def)

lemma Expire_offer_ok: "offer_ok s \<Longrightarrow> offer_ok (ExpireWaiting now s)"
  by (auto simp: offer_ok_def ExpireWaiting_def)

lemma Refresh_offer_ok:
  assumes "queue_ok s" and "offer_ok s"
  shows "offer_ok (RefreshWaiting i now e r d s)"
proof -
  have "distinct (queue_ids (ExpireWaiting now s))" using assms(1) Expire_ids by (simp add: queue_ok_def)
  then have "distinct (queue_ids ((ExpireWaiting now s)\<lparr>ab_waiting := map (touch_waiting i now r d) (ab_waiting (ExpireWaiting now s))\<rparr>))"
    by (simp add: queue_ids_def touch_ids del: map_map)
  then show ?thesis using assms(2) by (simp add: RefreshWaiting_def Let_def Offer_offer_ok Cancel_offer_ok Expire_offer_ok)
qed

lemma budget_step_offer_ok:
  assumes "queue_ok s" and "offer_ok s"
  shows "offer_ok (snd (budget_step op s))"
proof -
  have d: "distinct (queue_ids t)" if "queue_ok t" for t using that by (simp add: queue_ok_def)
  have g: "offer_ok (grant i now r t)" for i now r t by (simp add: offer_ok_def)
  show ?thesis
    using assms by (cases op) (auto simp: Acquire_unfold Ready_def Let_def Refresh_offer_ok Cancel_offer_ok g
        intro!: Offer_offer_ok d push_queue_ok Refresh_queue_ok)
qed

lemma class_okI:
  assumes "class_ok cls s" and "\<And>w. w \<in> set (ab_waiting s') \<Longrightarrow> \<exists>v \<in> set (ab_waiting s). aw_Id v = aw_Id w \<and> aw_Returning v = aw_Returning w"
    and "\<And>x. ab_offeredId s' = Some x \<Longrightarrow> ab_offeredId s = Some x \<and> ab_offeredReturning s' = ab_offeredReturning s"
  shows "class_ok cls s'"
  using assms unfolding class_ok_def by metis

lemma class_ok_next: "class_ok cls s \<Longrightarrow> class_ok cls (offer_next now s)"
  using NextTurn_waiting [of s] by (auto simp: class_ok_def offer_next_def split: option.split)

lemma Expire_class_ok: "class_ok cls s \<Longrightarrow> class_ok cls (ExpireWaiting now s)"
  by (rule class_okI [of cls s]) (auto simp: ExpireWaiting_def split: if_splits)

lemma class_ok_reset: "class_ok cls s \<Longrightarrow> class_ok cls (s\<lparr>ab_offeredId := None\<rparr>)" "class_ok cls s \<Longrightarrow> class_ok cls (PassOffer s)"
  by (simp_all add: class_ok_def)

lemma Offer_class_ok:
  assumes "queue_ok s" and "class_ok cls s"
  shows "class_ok cls (Offer now s)"
proof -
  note e = Expire_class_ok [OF assms(2), of now]
  have d: "distinct (queue_ids s)" using assms(1) by (simp add: queue_ok_def)
  then show ?thesis
  proof (cases rule: Offer_cases [of s now, case_names closed kept reset unused missed])
    case closed
    then show ?thesis using e by (simp add: class_ok_def)
  next
    case (kept x w)
    then show ?thesis using e by simp
  next
    case reset
    then show ?thesis using e by (simp add: class_ok_next class_ok_reset)
  next
    case (unused x)
    then show ?thesis using e by (simp add: class_ok_next class_ok_reset)
  next
    case (missed x w)
    have "class_ok cls (PassOffer ((ExpireWaiting now s)\<lparr>ab_waiting := erase_waiting x (ab_waiting (ExpireWaiting now s)) @ [w]\<rparr>))"
      using e missed(3) by (auto simp: class_ok_def erase_waiting_def)
    then show ?thesis using missed by (simp add: class_ok_next)
  qed
qed

section \<open>How long a request can be passed over\<close>

text \<open>
  The actors in front of \<open>i\<close> in the queue, and a potential that no operation raises and every turn
  granted to somebody else lowers: four for every actor in front, the turns the other class may
  still take in a row, and four for an outstanding offer that the current rule would not make.
\<close>

definition front :: "u64 \<Rightarrow> LivingAdviceBudget \<Rightarrow> u64 list" where
  "front i s = takeWhile (\<lambda>j. j \<noteq> i) (queue_ids s)"

definition due_turn :: "(u64 \<Rightarrow> bool) \<Rightarrow> u64 \<Rightarrow> LivingAdviceBudget \<Rightarrow> u64 \<Rightarrow> bool" where
  "due_turn cls i s x \<longleftrightarrow> x \<in> set (front i s) \<or>
     cls x \<noteq> cls i \<and> (if cls i then ab_urgentRun s = 3 else ab_urgentRun s < 3)"

definition slack :: "bool \<Rightarrow> u32 \<Rightarrow> nat" where
  "slack urgent u = (if urgent then if u = 3 then 1 else 0 else 3 - unat u)"

definition patience :: "(u64 \<Rightarrow> bool) \<Rightarrow> u64 \<Rightarrow> LivingAdviceBudget \<Rightarrow> nat" where
  "patience cls i s = 4 * length (front i s) + slack (cls i) (ab_urgentRun s) +
     (case ab_offeredId s of None \<Rightarrow> 0 | Some x \<Rightarrow> if due_turn cls i s x then 0 else 4)"

lemma unat_urgent:
  assumes "(u :: u32) \<le> 3"
  shows "unat u \<le> 3" and "unat (min 3 (u + 1)) = min 3 (unat u + 1)" and "u = 3 \<longleftrightarrow> unat u = 3" and "u < 3 \<longleftrightarrow> unat u < 3"
proof -
  have u: "unat u \<le> 3" using assms by (simp add: word_le_nat_alt)
  then have "unat u + 1 < 2 ^ LENGTH(32)" by simp
  then have "unat (u + 1) = unat u + 1" by (simp add: unat_word_ariths)
  with u show "unat u \<le> 3" and "unat (min 3 (u + 1)) = min 3 (unat u + 1)" and "u = 3 \<longleftrightarrow> unat u = 3" and "u < 3 \<longleftrightarrow> unat u < 3"
    by (auto simp: min_def word_le_nat_alt word_less_nat_alt word_unat_eq_iff)
qed

lemma slack_le: "slack r u \<le> 3"
  by (simp add: slack_def)

lemma takeWhile_filter: "P i \<Longrightarrow> takeWhile (\<lambda>j. j \<noteq> i) (filter P js) = filter P (takeWhile (\<lambda>j. j \<noteq> i) js)"
  by (induction js) auto

lemma ids_filter:
  "distinct (map aw_Id ws) \<Longrightarrow> map aw_Id (filter P ws) = filter (\<lambda>j. \<exists>w \<in> set ws. aw_Id w = j \<and> P w) (map aw_Id ws)"
proof -
  assume "distinct (map aw_Id ws)"
  then have "filter P ws = filter (\<lambda>v. \<exists>w \<in> set ws. aw_Id w = aw_Id v \<and> P w) ws"
    by (intro filter_cong refl) (metis distinct_map inj_onD)
  then show ?thesis by (simp add: filter_map comp_def)
qed

lemma patience_bound: "patience cls i s < 4 * (length (front i s) + 2)"
  using slack_le [of "cls i" "ab_urgentRun s"] by (auto simp: patience_def split: option.split)

lemma length_filter_out: "x \<in> set xs \<Longrightarrow> \<not> P x \<Longrightarrow> length (filter P xs) < length xs"
  by (rule length_filter_less)

lemma patience_shrink:
  assumes "front i s' = filter P (front i s)" and "ab_urgentRun s' = ab_urgentRun s" and "ab_offeredId s' = ab_offeredId s"
  shows "patience cls i s' \<le> patience cls i s"
proof (cases "ab_offeredId s")
  case None
  then show ?thesis using assms by (simp add: patience_def)
next
  case (Some x)
  have le: "length (front i s') \<le> length (front i s)" using assms(1) by simp
  show ?thesis
  proof (cases "x \<in> set (front i s) \<and> \<not> P x")
    case True
    then have "length (front i s') < length (front i s)" using assms(1) length_filter_out by metis
    then show ?thesis using assms Some by (simp add: patience_def)
  next
    case False
    then have "due_turn cls i s' x = due_turn cls i s x" using assms by (auto simp: due_turn_def)
    with le assms(2,3) Some show ?thesis by (simp add: patience_def)
  qed
qed

lemma patience_reset:
  assumes "front i s' = front i s" and "ab_urgentRun s' = ab_urgentRun s" and "ab_offeredId s' = None"
  shows "patience cls i s' \<le> patience cls i s"
  using assms by (simp add: patience_def)

lemma patience_turn:
  assumes "ab_offeredId s = Some x" and "ab_urgentRun s \<le> 3" and "front i s' = filter (\<lambda>j. j \<noteq> x) (front i s)"
    and "ab_offeredId s' = None" and "ab_urgentRun s' = (if cls x then min 3 (ab_urgentRun s + 1) else 0)"
  shows "patience cls i s' < patience cls i s"
proof -
  have p': "patience cls i s' = 4 * length (front i s') + slack (cls i) (ab_urgentRun s')"
    using assms(4) by (simp add: patience_def)
  have p: "patience cls i s \<ge> 4 * length (front i s) + slack (cls i) (ab_urgentRun s)"
    and p4: "\<not> due_turn cls i s x \<Longrightarrow> patience cls i s \<ge> 4 * length (front i s) + 4"
    by (simp_all add: patience_def assms(1))
  show ?thesis
  proof (cases "x \<in> set (front i s)")
  case True
  then have "length (front i s') < length (front i s)" unfolding assms(3) by (intro length_filter_less) auto
  with p' p slack_le [of "cls i" "ab_urgentRun s'"] show ?thesis by linarith
next
  case False
  then have "filter (\<lambda>j. j \<noteq> x) (front i s) = front i s" by (intro filter_True) blast
  with assms(3) have front: "front i s' = front i s" by (rule trans)
  note u = unat_urgent [OF assms(2)]
  show ?thesis
  proof (cases "due_turn cls i s x")
    case True
    then have "slack (cls i) (ab_urgentRun s') < slack (cls i) (ab_urgentRun s)"
      using False assms(5) u by (auto simp: due_turn_def slack_def)
    with p p' front show ?thesis by simp
  next
    case False
    from p4 [OF this] p' front slack_le [of "cls i" "ab_urgentRun s'"] show ?thesis by simp
  qed
qed
qed

lemma front_before:
  assumes "find Q (ab_waiting s) = Some w" and "v \<in> set (ab_waiting s)" and "Q v" and "aw_Id v = i"
    and "distinct (queue_ids s)" and "aw_Id w \<noteq> i"
  shows "aw_Id w \<in> set (front i s)"
proof -
  have "find Q ws = Some w \<Longrightarrow> v \<in> set ws \<Longrightarrow> distinct (map aw_Id ws) \<Longrightarrow>
      aw_Id w \<in> set (takeWhile (\<lambda>j. j \<noteq> i) (map aw_Id ws))" for ws
    using assms(3,4,6) by (induction ws) (auto split: if_splits)
  then show ?thesis using assms(1,2,5) by (simp add: front_def queue_ids_def)
qed

lemma patience_next:
  assumes "queue_ok s" and "class_ok cls s" and "DispatchableNow i s" and "ab_offeredId s = None"
    and "ab_offeredId (offer_next now s) \<noteq> Some i"
  shows "patience cls i (offer_next now s) \<le> patience cls i s"
proof (cases "NextTurn s")
  case None
  then show ?thesis by (simp add: offer_next_def)
next
  case (Some w)
  have d: "distinct (queue_ids s)" using assms(1) by (simp add: queue_ok_def)
  have u: "ab_urgentRun s < 3 \<or> ab_urgentRun s = 3" using assms(1) by (auto simp: queue_ok_def)
  obtain v where v: "v \<in> set (ab_waiting s)" "aw_Id v = i" "aw_Dispatchable v"
    using assms(3) by (auto simp: DispatchableNow_def list_ex_iff)
  have cls: "aw_Returning z = cls (aw_Id z)" if "z \<in> set (ab_waiting s)" for z using assms(2) that by (simp add: class_ok_def)
  have ne: "aw_Id w \<noteq> i" using assms(5) Some by (simp add: offer_next_def)
  let ?urgent = "find (\<lambda>w. aw_Returning w \<and> aw_Dispatchable w) (ab_waiting s)"
  let ?normal = "find (\<lambda>w. \<not> aw_Returning w \<and> aw_Dispatchable w) (ab_waiting s)"
  have "due_turn cls i s (aw_Id w)"
  proof (cases "cls i = aw_Returning w")
    case True
    then have "find (\<lambda>z. aw_Returning z = aw_Returning w \<and> aw_Dispatchable z) (ab_waiting s) = Some w"
      using Some by (cases "aw_Returning w") (auto simp: NextTurn_def Let_def find_Some_iff split: if_splits)
    then show ?thesis using front_before [OF _ v(1) _ v(2) d ne] v True cls [OF v(1)] by (simp add: due_turn_def)
  next
    case False
    have "w \<in> set (ab_waiting s)" using NextTurn_waiting [OF Some] by simp
    then have c: "cls (aw_Id w) \<noteq> cls i" using False cls by simp
    have "if cls i then ab_urgentRun s = 3 else ab_urgentRun s < 3"
    proof (cases "cls i")
      case True
      then have "?urgent \<noteq> None" using v cls [OF v(1)] by (auto simp: find_None_iff)
      with True False Some u show ?thesis by (auto simp: NextTurn_def Let_def find_Some_iff split: if_splits)
    next
      case cn: False
      then have "?normal \<noteq> None" using v cls [OF v(1)] by (auto simp: find_None_iff)
      with cn False Some u show ?thesis by (auto simp: NextTurn_def Let_def find_Some_iff split: if_splits)
    qed
    with c show ?thesis by (simp add: due_turn_def)
  qed
  then have "due_turn cls i s (aw_Id w)" .
  have f: "front i (offer_next now s) = front i s" by (simp add: front_def queue_ids_def)
  have "due_turn cls i (offer_next now s) = due_turn cls i s" by (rule ext) (simp only: due_turn_def f offer_next_simps)
  with \<open>due_turn cls i s (aw_Id w)\<close> have "due_turn cls i (offer_next now s) (aw_Id w)" by simp
  moreover note f
  moreover have "ab_offeredId (offer_next now s) = Some (aw_Id w)" using Some by (simp add: offer_next_def)
  ultimately show ?thesis using assms(4) by (simp add: patience_def)
qed

text \<open>\<open>i\<close> waits for its turn: it is in the queue, could take the offer, and does not hold it.\<close>

definition waits :: "u64 \<Rightarrow> LivingAdviceBudget \<Rightarrow> bool" where
  "waits i s \<longleftrightarrow> DispatchableNow i s \<and> ab_offeredId s \<noteq> Some i"

definition fresh :: "u64 \<Rightarrow> u64 \<Rightarrow> LivingAdviceBudget \<Rightarrow> bool" where
  "fresh i now s = list_all (\<lambda>w. aw_Id w = i \<longrightarrow> \<not> stale_request now w) (ab_waiting s)"

text \<open>The request of \<open>i\<close> has been refreshed in the last thirty seconds, and nobody in front of it is suspended.\<close>

fun undisturbed :: "u64 \<Rightarrow> budget_op \<Rightarrow> LivingAdviceBudget \<Rightarrow> bool" where
  "undisturbed i (BRefresh j now eligible returning dispatchable) s =
     (fresh i now s \<and> (eligible \<and> j \<in> set (front i s) \<longrightarrow> dispatchable))"
| "undisturbed i (BReady j now) s = fresh i now s"
| "undisturbed i (BAcquire j now returning) s = fresh i now s"
| "undisturbed i (BCancel j) s = True"

fun waits_through :: "u64 \<Rightarrow> budget_op list \<Rightarrow> LivingAdviceBudget \<Rightarrow> bool" where
  "waits_through i [] s = waits i s"
| "waits_through i (op # ops) s =
     (waits i s \<and> undisturbed i op s \<and> waits_through i ops (snd (budget_step op s)))"

fun keeps_class :: "(u64 \<Rightarrow> bool) \<Rightarrow> budget_op \<Rightarrow> bool" where
  "keeps_class cls (BRefresh j now eligible returning dispatchable) = (eligible \<longrightarrow> returning = cls j)"
| "keeps_class cls (BAcquire j now returning) = (returning = cls j)"
| "keeps_class cls _ = True"

lemma dispatchable_iff: "DispatchableNow i s \<longleftrightarrow> (\<exists>w \<in> set (ab_waiting s). aw_Id w = i \<and> aw_Dispatchable w)"
  by (auto simp: DispatchableNow_def list_ex_iff)

lemma dispatchable_in: "DispatchableNow i s \<Longrightarrow> i \<in> set (queue_ids s)"
  by (auto simp: dispatchable_iff queue_ids_def)

lemma queue_ok_distinct: "queue_ok s \<Longrightarrow> distinct (queue_ids s)"
  by (simp add: queue_ok_def)

lemma Expire_queue_ok: "queue_ok s \<Longrightarrow> queue_ok (ExpireWaiting now s)"
  by (rule queue_okI [of s]) (simp_all add: queue_ok_def Expire_ids)

lemma Expire_front:
  assumes "queue_ok s" and "fresh i now s" and "DispatchableNow i s"
  obtains P where "front i (ExpireWaiting now s) = filter P (front i s)" and "DispatchableNow i (ExpireWaiting now s)"
proof -
  obtain P where P: "ab_waiting (ExpireWaiting now s) = filter P (ab_waiting s)" "\<And>w. \<not> stale_request now w \<Longrightarrow> P w"
    by (rule Expire_waiting [of now s]) blast
  let ?Q = "\<lambda>j. \<exists>w \<in> set (ab_waiting s). aw_Id w = j \<and> P w"
  have keep: "w \<in> set (ab_waiting s) \<Longrightarrow> aw_Id w = i \<Longrightarrow> P w" for w
    using assms(2) P(2) by (auto simp: fresh_def list_all_iff)
  have "queue_ids (ExpireWaiting now s) = filter ?Q (queue_ids s)"
    using ids_filter [of "ab_waiting s" P] queue_ok_distinct [OF assms(1)] by (simp add: queue_ids_def P(1))
  moreover have "?Q i" using keep assms(3) by (auto simp: dispatchable_iff)
  ultimately have "front i (ExpireWaiting now s) = filter ?Q (front i s)" unfolding front_def by (simp only: takeWhile_filter)
  moreover have "DispatchableNow i (ExpireWaiting now s)" using keep assms(3) by (auto simp: dispatchable_iff P(1))
  ultimately show ?thesis by (rule that)
qed

lemma front_erase: "j \<noteq> i \<Longrightarrow> ab_waiting s' = erase_waiting j (ab_waiting s) \<Longrightarrow> front i s' = filter (\<lambda>k. k \<noteq> j) (front i s)"
  unfolding front_def queue_ids_def by (simp add: erase_ids takeWhile_filter)

lemma front_append: "i \<in> set (queue_ids s) \<Longrightarrow> ab_waiting s' = ab_waiting s @ ws \<Longrightarrow> front i s' = front i s"
  unfolding front_def queue_ids_def by (simp add: takeWhile_append1)

lemma front_missed:
  assumes "x \<noteq> i" and "i \<in> set (queue_ids s)" and "ab_waiting s' = erase_waiting x (ab_waiting s) @ [w]"
  shows "front i s' = filter (\<lambda>k. k \<noteq> x) (front i s)"
proof -
  have "i \<in> set (queue_ids (s\<lparr>ab_waiting := erase_waiting x (ab_waiting s)\<rparr>))"
    using assms(1,2) by (auto simp: queue_ids_def erase_waiting_def)
  from front_append [OF this, of s'] assms(3) have "front i s' = front i (s\<lparr>ab_waiting := erase_waiting x (ab_waiting s)\<rparr>)"
    by simp
  then show ?thesis using front_erase [OF assms(1)] by simp
qed

lemma front_cong: "map aw_Id (ab_waiting s') = map aw_Id (ab_waiting s) \<Longrightarrow> front i s' = front i s"
  by (simp add: front_def queue_ids_def)

lemma patience_cong:
  assumes "front i s' = front i s" and "ab_urgentRun s' = ab_urgentRun s" and "ab_offeredId s' = ab_offeredId s"
  shows "patience cls i s' = patience cls i s"
  using assms by (simp add: patience_def due_turn_def cong: option.case_cong)

lemma Offer_set:
  assumes "queue_ok s"
  shows "set (ab_waiting (Offer now s)) = set (ab_waiting (ExpireWaiting now s))"
proof -
  have d: "distinct (queue_ids (ExpireWaiting now s))" using Expire_ids(1) queue_ok_distinct [OF assms] by blast
  from queue_ok_distinct [OF assms] show ?thesis
  proof (cases rule: Offer_cases [of s now, case_names closed kept reset unused missed])
    case (missed x w)
    have "v = w" if "v \<in> set (ab_waiting (ExpireWaiting now s))" "aw_Id v = x" for v
      using find_waiting_iff [OF d, of x w] find_waiting_iff [OF d, of x v] missed(3,4) that by simp
    then have "insert w {v \<in> set (ab_waiting (ExpireWaiting now s)). aw_Id v \<noteq> x} = set (ab_waiting (ExpireWaiting now s))"
      using missed(3) by blast
    then show ?thesis using missed(5) by (simp add: erase_waiting_def)
  qed simp_all
qed

lemma patience_Offer:
  assumes "queue_ok s" and "class_ok cls s" and "DispatchableNow i s" and "fresh i now s"
    and "ab_offeredId s \<noteq> Some i" and "ab_offeredId (Offer now s) \<noteq> Some i"
    and "\<And>w. w \<in> set (ab_waiting s) \<Longrightarrow> ab_offeredId s = Some (aw_Id w) \<Longrightarrow> aw_Id w \<in> set (front i s) \<Longrightarrow> aw_Dispatchable w"
  shows "patience cls i (Offer now s) \<le> patience cls i s"
proof -
  let ?e = "ExpireWaiting now s"
  obtain P where P: "front i ?e = filter P (front i s)" and disp: "DispatchableNow i ?e"
    by (rule Expire_front [OF assms(1,4,3)])
  have e: "patience cls i ?e \<le> patience cls i s" by (rule patience_shrink [OF P]) simp_all
  have qe: "queue_ok ?e" and ce: "class_ok cls ?e" using assms(1,2) by (simp_all add: Expire_queue_ok Expire_class_ok)
  have ret: "ab_offeredReturning s = cls x" if "ab_offeredId s = Some x" for x using assms(2) that by (simp add: class_ok_def)
  have u: "ab_urgentRun ?e \<le> 3" using qe by (simp add: queue_ok_def)
  have next_turn: "patience cls i (Offer now s) \<le> patience cls i t"
    if "Offer now s = offer_next now t" "queue_ok t" "class_ok cls t" "DispatchableNow i t" "ab_offeredId t = None" for t
    using patience_next [OF that(2-5), of now] assms(6) that(1) by simp
  from queue_ok_distinct [OF assms(1)] have "patience cls i (Offer now s) \<le> patience cls i ?e"
  proof (cases rule: Offer_cases [of s now, case_names closed kept reset unused missed])
    case closed
    show ?thesis unfolding closed by (rule patience_reset) (simp_all add: front_def queue_ids_def)
  next
    case (kept x w)
    then show ?thesis by simp
  next
    case reset
    let ?t = "?e\<lparr>ab_offeredId := None\<rparr>"
    have "queue_ok ?t" using qe by (simp add: queue_ok_def queue_ids_def)
    then have "patience cls i (Offer now s) \<le> patience cls i ?t"
      using next_turn [OF reset(2)] ce disp by (simp add: class_ok_reset dispatchable_iff)
    also have "\<dots> \<le> patience cls i ?e" by (rule patience_reset) (simp_all add: front_def queue_ids_def)
    finally show ?thesis .
  next
    case (unused x)
    let ?t = "PassOffer ?e"
    have "x \<notin> set (front i ?e)"
    proof
      assume x: "x \<in> set (front i ?e)"
      then have "x \<in> set (queue_ids ?e)" unfolding front_def by (rule set_takeWhileD [THEN conjunct1])
      then obtain w where w: "w \<in> set (ab_waiting ?e)" "aw_Id w = x" by (auto simp: queue_ids_def)
      then have "w \<in> set (ab_waiting s)" by (auto simp: ExpireWaiting_def split: if_splits)
      moreover have "x \<in> set (front i s)" using x P by simp
      ultimately show False using assms(7) [of w] unused(2,3) w by simp
    qed
    then have "filter (\<lambda>k. k \<noteq> x) (front i ?e) = front i ?e" by (intro filter_True) blast
    then have f: "front i ?t = filter (\<lambda>k. k \<noteq> x) (front i ?e)" by (simp add: front_def queue_ids_def)
    have "queue_ok ?t" using qe u by (simp add: queue_ok_def queue_ids_def)
    then have "patience cls i (Offer now s) \<le> patience cls i ?t"
      using next_turn [OF unused(4)] ce disp by (simp add: class_ok_reset dispatchable_iff)
    also have "\<dots> < patience cls i ?e"
      using f u unused(2) ret [OF unused(2)] by (intro patience_turn [of _ x]) simp_all
    finally show ?thesis by simp
  next
    case (missed x w)
    let ?m = "?e\<lparr>ab_waiting := erase_waiting x (ab_waiting ?e) @ [w]\<rparr>"
    let ?t = "PassOffer ?m"
    have x: "x \<noteq> i" using missed(2) assms(5) by auto
    have f: "front i ?t = filter (\<lambda>k. k \<noteq> x) (front i ?e)"
      by (rule front_missed [OF x dispatchable_in [OF disp]]) simp
    have "distinct (queue_ids ?m)" by (rule distinct_missed [OF queue_ok_distinct [OF qe] missed(4)])
    moreover have "set (queue_ids ?m) \<subseteq> set (queue_ids ?e)" using missed(3,4) by (auto simp: queue_ids_def erase_ids)
    ultimately have "queue_ok ?t" using u by (intro queue_okI [OF qe]) (simp_all add: queue_ids_def urgent_bound)
    moreover have "class_ok cls ?m" using ce missed(3) by (auto simp: class_ok_def erase_waiting_def)
    moreover have "DispatchableNow i ?m" using disp x by (auto simp: dispatchable_iff erase_waiting_def)
    ultimately have "patience cls i (Offer now s) \<le> patience cls i ?t"
      using next_turn [OF missed(5)] by (simp add: class_ok_reset dispatchable_iff)
    also have "\<dots> < patience cls i ?e"
      using f u missed(2) ret [OF missed(2)] by (intro patience_turn [of _ x]) simp_all
    finally show ?thesis by simp
  qed
  with e show ?thesis by simp
qed

text \<open>The state \<open>Refresh\<close> hands to \<open>Offer\<close>.\<close>

definition touched :: "u64 \<Rightarrow> u64 \<Rightarrow> bool \<Rightarrow> bool \<Rightarrow> LivingAdviceBudget \<Rightarrow> LivingAdviceBudget" where
  "touched j now r d s = (ExpireWaiting now s)\<lparr>ab_waiting := map (touch_waiting j now r d) (ab_waiting (ExpireWaiting now s))\<rparr>"

lemma Refresh_unfold:
  "RefreshWaiting j now e r d s = (if e then Offer now (touched j now r d s) else CancelWaiting j (ExpireWaiting now s))"
  by (simp add: RefreshWaiting_def touched_def Let_def)

lemma touched_simps [simp]:
  "ab_urgentRun (touched j now r d s) = ab_urgentRun s" "ab_offeredId (touched j now r d s) = ab_offeredId s"
  "ab_offeredReturning (touched j now r d s) = ab_offeredReturning s"
  by (simp_all add: touched_def)

lemma touched_queue_ok: "queue_ok s \<Longrightarrow> queue_ok (touched j now r d s)"
  by (rule queue_okI [OF Expire_queue_ok [of s now]])
    (simp_all add: touched_def queue_ids_def touch_ids queue_ok_def Expire_ids [unfolded queue_ids_def] del: map_map)

lemma touched_class_ok: "class_ok cls s \<Longrightarrow> r = cls j \<Longrightarrow> class_ok cls (touched j now r d s)"
  using Expire_class_ok [of cls s now] by (auto simp: class_ok_def touched_def touch_waiting_def)

lemma touched_fresh: "fresh i now s \<Longrightarrow> fresh i now (touched j now r d s)"
  by (auto simp: fresh_def list_all_iff touched_def touch_waiting_def stale_request_def ExpireWaiting_def)

lemma patience_touched:
  assumes "queue_ok s" and "class_ok cls s" and "offer_ok s" and "waits i s" and "fresh i now s" and "r = cls j"
    and "j \<in> set (front i s) \<longrightarrow> d" and "DispatchableNow i (touched j now r d s)"
    and "ab_offeredId (Offer now (touched j now r d s)) \<noteq> Some i"
  shows "patience cls i (Offer now (touched j now r d s)) \<le> patience cls i s"
proof -
  let ?t = "touched j now r d s"
  have disp: "DispatchableNow i s" and off: "ab_offeredId s \<noteq> Some i" using assms(4) by (simp_all add: waits_def)
  obtain P where P: "front i (ExpireWaiting now s) = filter P (front i s)"
    by (rule Expire_front [OF assms(1,5) disp])
  have "front i ?t = front i (ExpireWaiting now s)" by (rule front_cong) (simp add: touched_def touch_ids del: map_map)
  with P have f: "front i ?t = filter P (front i s)" by simp
  have "aw_Dispatchable w" if w: "w \<in> set (ab_waiting ?t)" "ab_offeredId ?t = Some (aw_Id w)" "aw_Id w \<in> set (front i ?t)" for w
  proof -
    obtain v where v: "v \<in> set (ab_waiting s)" "w = touch_waiting j now r d v"
      using w(1) by (auto simp: touched_def ExpireWaiting_def split: if_splits)
    have "aw_Id v = aw_Id w" using v(2) by (simp add: touch_waiting_def)
    moreover have "aw_Dispatchable w = (if aw_Id v = j then d else aw_Dispatchable v)"
      using v(2) by (simp add: touch_waiting_def)
    moreover have "aw_Id w \<in> set (front i s)" using w(3) f by simp
    ultimately show ?thesis using v(1) w(2) assms(3,7) by (auto simp: offer_ok_def)
  qed
  then have "patience cls i (Offer now ?t) \<le> patience cls i ?t"
    using assms(1,2,5,6,8,9) off by (intro patience_Offer) (simp_all add: touched_queue_ok touched_class_ok touched_fresh)
  also have "\<dots> \<le> patience cls i s" by (rule patience_shrink [OF f]) simp_all
  finally show ?thesis .
qed

lemma patience_Cancel:
  assumes "queue_ok s" and "class_ok cls s" and "j \<noteq> i"
  shows "patience cls i (CancelWaiting j s) \<le> patience cls i s"
proof (cases "ab_offeredId s = Some j")
  case True
  have "ab_offeredReturning s = cls j" "ab_urgentRun s \<le> 3" using assms(1,2) True by (simp_all add: class_ok_def queue_ok_def)
  then have "patience cls i (CancelWaiting j s) < patience cls i s"
    using True by (intro patience_turn [of _ j]) (simp_all add: front_erase [OF assms(3)])
  then show ?thesis by simp
next
  case False
  then show ?thesis using front_erase [OF assms(3), of "CancelWaiting j s" s] by (intro patience_shrink) simp_all
qed

lemma dispatchable_erased: "DispatchableNow i s' \<Longrightarrow> ab_waiting s' = erase_waiting j ws \<Longrightarrow> j \<noteq> i"
  by (auto simp: dispatchable_iff erase_waiting_def)

lemma find_append_Some: "find P xs = Some v \<Longrightarrow> find P (xs @ ys) = Some v"
  by (induction xs) (auto split: if_splits)

lemma push_standing:
  assumes "standing now x s"
  shows "standing now x (push_waiting j now r s)"
proof (cases "find_waiting j s = None \<and> length (ab_waiting s) < MaxWaiting")
  case True
  then have w: "ab_waiting (push_waiting j now r s) = ab_waiting s @ [\<lparr>aw_Id = j, aw_Since = now, aw_SeenAt = now,
      aw_Returning = r, aw_Dispatchable = True\<rparr>]" by (simp add: push_waiting_def)
  have rest: "ab_sweptAt (push_waiting j now r s) = ab_sweptAt s" "ab_offeredAt (push_waiting j now r s) = ab_offeredAt s"
      "ab_admittedAt (push_waiting j now r s) = ab_admittedAt s" by (simp_all add: push_waiting_def)
  have "ab_sweptAt s = ab_sweptAt (ExpireWaiting now s)" using assms by (simp add: standing_def)
  with rest have "ExpireWaiting now (push_waiting j now r s) = push_waiting j now r s" by (intro Expire_twice [of _ now s]) simp
  moreover have "find_waiting x s = Some v \<Longrightarrow> find_waiting x (push_waiting j now r s) = Some v" for v
    by (simp add: find_waiting_def w find_append_Some)
  ultimately show ?thesis using assms rest by (auto simp: standing_def Open_def)
next
  case False
  then have "push_waiting j now r s = s" unfolding push_waiting_def by (rule if_not_P)
  with assms show ?thesis by simp
qed

lemma front_push:
  assumes "i \<in> set (queue_ids s)"
  shows "front i (push_waiting j now r s) = front i s"
proof (cases "find_waiting j s = None \<and> length (ab_waiting s) < MaxWaiting")
  case True
  show ?thesis by (rule front_append [OF assms]) (simp add: push_waiting_def True)
next
  case False
  then have "push_waiting j now r s = s" unfolding push_waiting_def by (rule if_not_P)
  then show ?thesis by simp
qed

lemma Expire_dispatchable:
  "queue_ok s \<Longrightarrow> fresh i now s \<Longrightarrow> DispatchableNow i s \<Longrightarrow> DispatchableNow i (ExpireWaiting now s)"
  by (rule Expire_front [of s i now]) blast+

lemma patience_Acquire:
  assumes "queue_ok s" and "class_ok cls s" and "offer_ok s" and "waits i s" and "fresh i now s"
    and "Acquire j now (cls j) s = (granted, s')" and "waits i s'"
  shows "patience cls i s' + of_bool granted \<le> patience cls i s"
proof -
  let ?t = "touched j now (cls j) True s"
  let ?s1 = "Offer now ?t"
  let ?s2 = "push_waiting j now (cls j) ?s1"
  let ?s3 = "Offer now ?s2"
  have s': "s' = (if granted then grant j now (cls j) ?s3 else ?s3)" and g: "granted \<longleftrightarrow> ab_offeredId ?s3 = Some j"
    using assms(6) by (auto simp: Acquire_unfold Refresh_unfold Let_def split: if_splits)
  have end_ok: "DispatchableNow i s'" "ab_offeredId s' \<noteq> Some i" using assms(7) by (simp_all add: waits_def)
  have ji: "granted \<Longrightarrow> j \<noteq> i" using dispatchable_erased [OF end_ok(1)] s' by simp
  have off3: "ab_offeredId ?s3 \<noteq> Some i"
  proof
    assume o: "ab_offeredId ?s3 = Some i"
    show False
    proof (cases granted)
      case True
      then show False using g o ji by simp
    next
      case False
      then have "s' = ?s3" unfolding s' by (rule if_not_P)
      with o end_ok(2) show False by simp
    qed
  qed
  have qt: "queue_ok ?t" and q1: "queue_ok ?s1" and q2: "queue_ok ?s2" and q3: "queue_ok ?s3"
    using assms(1) by (simp_all add: touched_queue_ok Offer_queue_ok push_queue_ok)
  have ct: "class_ok cls ?t" using assms(2) by (simp add: touched_class_ok)
  have c1: "class_ok cls ?s1" by (rule Offer_class_ok [OF qt ct])
  then have c2: "class_ok cls ?s2" by (auto simp: class_ok_def push_waiting_def)
  have c3: "class_ok cls ?s3" by (rule Offer_class_ok [OF q2 c2])
  have stands: "?s3 = ?s2" if "ab_offeredId ?s1 = Some x" for x
    by (rule standing_again [OF push_standing [OF Offer_standing [OF queue_ok_distinct [OF qt] that]]])
  have off1: "ab_offeredId ?s1 \<noteq> Some i" using stands [of i] off3 by auto
  have disp: "DispatchableNow i (ExpireWaiting now s)"
    using assms(4) by (simp add: waits_def Expire_dispatchable [OF assms(1,5)])
  then obtain w where w: "w \<in> set (ab_waiting (ExpireWaiting now s))" "aw_Id w = i" "aw_Dispatchable w"
    by (auto simp: dispatchable_iff)
  let ?w = "touch_waiting j now (cls j) True w"
  have "?w \<in> set (ab_waiting ?t)" using w(1) by (simp add: touched_def)
  moreover have "aw_Id ?w = i" "aw_Dispatchable ?w" using w by (simp_all add: touch_waiting_def)
  ultimately have dt: "DispatchableNow i ?t" unfolding dispatchable_iff by blast
  have p1: "patience cls i ?s1 \<le> patience cls i s"
    by (rule patience_touched [OF assms(1-5) refl _ dt off1]) simp
  have "DispatchableNow i (ExpireWaiting now ?t)"
    by (rule Expire_dispatchable [OF qt touched_fresh [OF assms(5)] dt])
  then have d1: "DispatchableNow i ?s1" using Offer_set [OF qt, of now] by (simp add: dispatchable_iff)
  have f2: "front i ?s2 = front i ?s1"
    by (rule front_push [OF dispatchable_in [OF d1]])
  have d2: "DispatchableNow i ?s2" using d1 by (auto simp: dispatchable_iff push_waiting_def)
  have p2: "patience cls i ?s2 = patience cls i ?s1" by (rule patience_cong) (simp_all add: f2)
  have ts: "set (ab_waiting ?s1) \<subseteq> set (ab_waiting ?t)" using Offer_set [OF qt, of now] by (auto simp: ExpireWaiting_def)
  have "\<not> stale_request now \<lparr>aw_Id = j, aw_Since = now, aw_SeenAt = now, aw_Returning = cls j, aw_Dispatchable = True\<rparr>"
    by (simp add: stale_request_def)
  then have fresh2: "fresh i now ?s2"
    using ts touched_fresh [OF assms(5), of j "cls j" True] by (auto simp: fresh_def list_all_iff push_waiting_def)
  have p3: "patience cls i ?s3 \<le> patience cls i ?s2"
  proof (cases "ab_offeredId ?s1")
    case None
    then show ?thesis using patience_Offer [OF q2 c2 d2 fresh2 _ off3] by simp
  next
    case (Some x)
    then show ?thesis using stands by simp
  qed
  have "granted \<Longrightarrow> patience cls i s' < patience cls i ?s3"
    using g s' q3 front_erase [OF ji, of s' ?s3] by (intro patience_turn [of _ j]) (simp_all add: queue_ok_def)
  with p1 p2 p3 s' show ?thesis by (cases granted) simp_all
qed

lemma patience_step:
  assumes "queue_ok s" and "class_ok cls s" and "offer_ok s" and "waits i s" and "undisturbed i op s"
    and "keeps_class cls op" and "budget_step op s = (gr, s')" and "waits i s'"
  shows "patience cls i s' + of_bool (gr \<noteq> None) \<le> patience cls i s"
proof (cases op)
  case (BRefresh j now e r d)
  have s': "s' = RefreshWaiting j now e r d s" "gr = None" using assms(7) BRefresh by simp_all
  have disp: "DispatchableNow i s" using assms(4) by (simp add: waits_def)
  have fr: "fresh i now s" and ahead: "e \<Longrightarrow> j \<in> set (front i s) \<longrightarrow> d" and cl: "e \<Longrightarrow> r = cls j"
    using assms(5,6) BRefresh by simp_all
  obtain P where P: "front i (ExpireWaiting now s) = filter P (front i s)" and dx: "DispatchableNow i (ExpireWaiting now s)"
    by (rule Expire_front [OF assms(1) fr disp])
  show ?thesis
  proof (cases e)
    case True
    then have eq: "s' = Offer now (touched j now r d s)" using s' by (simp add: Refresh_unfold)
    have q: "queue_ok (touched j now r d s)" using assms(1) by (rule touched_queue_ok)
    have "DispatchableNow i (Offer now (touched j now r d s))" "ab_offeredId (Offer now (touched j now r d s)) \<noteq> Some i"
      using assms(8) eq by (simp_all add: waits_def)
    then have "DispatchableNow i (touched j now r d s)"
      using Offer_set [OF q, of now] by (auto simp: dispatchable_iff ExpireWaiting_def split: if_splits)
    from patience_touched [OF assms(1-4) fr cl [OF True] ahead [OF True] this] assms(8)
    show ?thesis using eq s'(2) by (simp add: waits_def)
  next
    case False
    then have eq: "s' = CancelWaiting j (ExpireWaiting now s)" using s' by (simp add: Refresh_unfold)
    have ji: "j \<noteq> i" using dispatchable_erased [of i s'] assms(8) eq by (simp add: waits_def)
    have "patience cls i s' \<le> patience cls i (ExpireWaiting now s)"
      unfolding eq by (rule patience_Cancel [OF Expire_queue_ok [OF assms(1)] Expire_class_ok [OF assms(2)] ji])
    also have "\<dots> \<le> patience cls i s" by (rule patience_shrink [OF P]) simp_all
    finally show ?thesis using s'(2) by simp
  qed
next
  case (BReady j now)
  have s': "s' = Offer now s" "gr = None" using assms(7) BReady by (simp_all add: Ready_def Let_def)
  have "patience cls i s' \<le> patience cls i s"
    using assms(1-5,8) BReady unfolding s' by (intro patience_Offer) (auto simp: waits_def offer_ok_def)
  then show ?thesis using s' by simp
next
  case (BAcquire j now r)
  have r: "r = cls j" and fr: "fresh i now s" using assms(5,6) BAcquire by simp_all
  obtain granted where acq: "Acquire j now (cls j) s = (granted, s')" and gr: "gr = (if granted then Some now else None)"
    using assms(7) BAcquire r by (auto split: prod.splits)
  show ?thesis using patience_Acquire [OF assms(1-4) fr acq assms(8)] gr by (cases granted) simp_all
next
  case (BCancel j)
  have s': "s' = CancelWaiting j s" "gr = None" using assms(7) BCancel by simp_all
  have ji: "j \<noteq> i" using dispatchable_erased [of i s'] assms(8) s' by (simp add: waits_def)
  show ?thesis
    using patience_Cancel [OF assms(1,2) ji] s' by simp
qed

lemma Cancel_class_ok: "class_ok cls s \<Longrightarrow> class_ok cls (CancelWaiting j s)"
  by (auto simp: class_ok_def erase_waiting_def CancelWaiting_def Let_def)

lemma Refresh_class_ok:
  assumes "queue_ok s" and "class_ok cls s" and "e \<longrightarrow> r = cls j"
  shows "class_ok cls (RefreshWaiting j now e r d s)"
proof (cases e)
  case True
  then show ?thesis
    using assms Offer_class_ok [OF touched_queue_ok [OF assms(1)] touched_class_ok [OF assms(2)]] by (simp add: Refresh_unfold)
next
  case False
  then show ?thesis using assms by (simp add: Refresh_unfold Cancel_class_ok Expire_class_ok)
qed

lemma Acquire_class_ok:
  assumes "queue_ok s" and "class_ok cls s" and "Acquire j now (cls j) s = (granted, s')"
  shows "class_ok cls s'"
proof -
  let ?s1 = "RefreshWaiting j now True (cls j) True s"
  have "class_ok cls (push_waiting j now (cls j) ?s1)"
    using Refresh_class_ok [OF assms(1,2), of True "cls j" j now True] by (auto simp: class_ok_def push_waiting_def)
  from Offer_class_ok [OF push_queue_ok [OF Refresh_queue_ok [OF assms(1)]] this, of now]
  show ?thesis using assms(3) by (auto simp: Acquire_unfold Let_def class_ok_def erase_waiting_def split: if_splits)
qed

lemma budget_step_class_ok:
  assumes "queue_ok s" and "class_ok cls s" and "keeps_class cls op"
  shows "class_ok cls (snd (budget_step op s))"
proof (cases op)
  case (BAcquire j now r)
  then show ?thesis using assms Acquire_class_ok [OF assms(1,2), of j now] by (auto split: prod.split)
qed (use assms in \<open>simp_all add: Refresh_class_ok Cancel_class_ok Offer_class_ok Ready_def Let_def\<close>)

lemma patience_run:
  assumes "queue_ok s" and "class_ok cls s" and "offer_ok s" and "list_all (keeps_class cls) ops" and "waits_through i ops s"
  shows "length (admissions ops s) \<le> patience cls i s"
  using assms
proof (induction ops arbitrary: s)
  case (Cons op ops)
  obtain gr s' where step: "budget_step op s = (gr, s')" by fastforce
  have through: "waits_through i ops s'" and now: "waits i s" "undisturbed i op s" using Cons.prems(5) step by simp_all
  then have w': "waits i s'" by (cases ops) simp_all
  have k: "keeps_class cls op" "list_all (keeps_class cls) ops" using Cons.prems(4) by simp_all
  note p = patience_step [OF Cons.prems(1-3) now k(1) step w']
  have ok: "queue_ok s'" "offer_ok s'"
    using budget_step_queue_ok [OF Cons.prems(1), of op] budget_step_offer_ok [OF Cons.prems(1,3), of op] step by simp_all
  have cl: "class_ok cls s'" using budget_step_class_ok [OF Cons.prems(1,2) k(1)] step by simp
  have "length (admissions ops s') \<le> patience cls i s'" using Cons.IH [OF ok(1) cl ok(2) k(2) through] .
  then show ?case using p step by (cases gr) simp_all
qed simp

lemma init_ok: "queue_ok LivingAdviceBudget_init" "offer_ok LivingAdviceBudget_init" "class_ok cls LivingAdviceBudget_init"
  by (simp_all add: LivingAdviceBudget_init_def queue_ok_def offer_ok_def class_ok_def queue_ids_def)

lemma budget_run_snoc: "budget_run (ops @ [op]) = snd (budget_step op (budget_run ops))"
  by (simp add: budget_run_def)

lemma budget_run_ok: "queue_ok (budget_run ops) \<and> offer_ok (budget_run ops)"
proof (induction ops rule: rev_induct)
  case Nil
  then show ?case by (simp add: budget_run_def init_ok)
next
  case (snoc op ops)
  then show ?case by (simp add: budget_run_snoc budget_step_queue_ok budget_step_offer_ok)
qed

section \<open>Properties\<close>

text \<open>
  C24: Advice is admitted at most once in two seconds: in any sequence of calls, each admission
  comes at least 2000 ms after the one before it. The queue never holds more than 2048 requests
  nor two of one actor, and never counts more than three urgent turns in a row.
\<close>
theorem advice_admissions_spaced:
  "successively (\<lambda>t u. t \<le> u \<and> u - t \<ge> 2000) (admissions ops LivingAdviceBudget_init) \<and>
    length (ab_waiting (budget_run ops)) \<le> 2048 \<and> distinct (map aw_Id (ab_waiting (budget_run ops))) \<and>
    ab_urgentRun (budget_run ops) \<le> 3"
  using admissions_spaced [of LivingAdviceBudget_init ops] budget_run_ok [of ops]
  by (simp add: LivingAdviceBudget_init_def queue_ok_def queue_ids_def MaxWaiting_def spaced_def [abs_def])

text \<open>
  C23: No request starves, neither a normal one behind a stream of urgent ones nor the other way
  round: while an actor waits for its turn with a request it keeps refreshing, fewer than four
  turns for every actor that was in front of it, and eight more, are granted to others before it
  is offered the turn. Assumed: every actor keeps its class, and none in front is suspended.
\<close>
theorem advice_no_starvation:
  assumes "list_all (keeps_class cls) (ops @ later)" and "waits_through i later (budget_run ops)"
  shows "length (admissions later (budget_run ops)) <
    4 * (length (takeWhile (\<lambda>j. j \<noteq> i) (map aw_Id (ab_waiting (budget_run ops)))) + 2)"
proof -
  have "list_all (keeps_class cls) ops \<Longrightarrow> class_ok cls (budget_run ops)"
  proof (induction ops rule: rev_induct)
    case Nil
    then show ?case by (simp add: budget_run_def init_ok)
  next
    case (snoc op ops)
    then show ?case using budget_run_ok [of ops] by (simp add: budget_run_snoc budget_step_class_ok)
  qed
  then have "length (admissions later (budget_run ops)) \<le> patience cls i (budget_run ops)"
    using assms budget_run_ok [of ops] by (intro patience_run) simp_all
  also have "\<dots> < 4 * (length (front i (budget_run ops)) + 2)" by (rule patience_bound)
  finally show ?thesis by (simp add: front_def queue_ids_def)
qed

section \<open>Witness\<close>

text \<open>Actor 1 asks first but is normal; 2 is urgent and is admitted while 1 waits.\<close>

definition ex_queue :: "(u64 \<times> bool) list \<Rightarrow> u64 \<Rightarrow> u64 option \<Rightarrow> u64 \<Rightarrow> u64 \<Rightarrow> u32 \<Rightarrow> LivingAdviceBudget" where
  "ex_queue ws admitted offered offeredAt swept run =
     \<lparr>ab_waiting = map (\<lambda>(t, r). \<lparr>aw_Id = t, aw_Since = t, aw_SeenAt = t, aw_Returning = r, aw_Dispatchable = True\<rparr>) ws,
      ab_admittedAt = Some admitted, ab_offeredId = offered, ab_offeredAt = offeredAt, ab_sweptAt = swept,
      ab_offeredReturning = True, ab_urgentRun = run\<rparr>"

lemma ex_first: "budget_step (BAcquire 9 0 True) LivingAdviceBudget_init = (Some 0, ex_queue [] 0 None 0 0 1)"
  by code_simp

lemma ex_second: "budget_step (BAcquire 100 100 False) (ex_queue [] 0 None 0 0 1) = (None, ex_queue [(100, False)] 0 None 0 0 1)"
  by code_simp

lemma ex_third: "budget_step (BAcquire 200 200 True) (ex_queue [(100, False)] 0 None 0 0 1) =
    (None, ex_queue [(100, False), (200, True)] 0 None 0 0 1)"
  by code_simp

lemma ex_fourth: "budget_step (BAcquire 200 2600 True) (ex_queue [(100, False), (200, True)] 0 None 0 0 1) =
    (Some 2600, ex_queue [(100, False)] 2600 None 2600 2600 2)"
  by code_simp

definition ex_requests :: "budget_op list" where
  "ex_requests = [BAcquire 9 0 True, BAcquire 100 100 False, BAcquire 200 200 True]"

definition ex_later :: "budget_op list" where
  "ex_later = [BAcquire 200 2600 True]"

lemma advice_no_starvation_witness:
  "length (admissions ex_later (budget_run ex_requests)) = 1 \<and> length (admissions ex_later (budget_run ex_requests)) < 8"
proof
  have run: "budget_run ex_requests = ex_queue [(100, False), (200, True)] 0 None 0 0 1"
    by (simp add: budget_run_def ex_requests_def ex_first ex_second ex_third del: budget_step.simps)
  have later: "snd (budget_step (BAcquire 200 2600 True) (budget_run ex_requests)) = ex_queue [(100, False)] 2600 None 2600 2600 2"
    by (simp add: run ex_fourth del: budget_step.simps)
  show "length (admissions ex_later (budget_run ex_requests)) = 1"
    by (simp add: run ex_later_def ex_fourth del: budget_step.simps)
  have "waits_through 100 ex_later (budget_run ex_requests)"
    unfolding ex_later_def waits_through.simps later
    by (simp add: run ex_queue_def waits_def DispatchableNow_def fresh_def stale_request_def)
  moreover have "list_all (keeps_class (\<lambda>j. j \<noteq> 100)) (ex_requests @ ex_later)"
    by (simp add: ex_requests_def ex_later_def)
  moreover have "takeWhile (\<lambda>j. j \<noteq> 100) (map aw_Id (ab_waiting (budget_run ex_requests))) = []"
    by (simp add: run ex_queue_def)
  ultimately show "length (admissions ex_later (budget_run ex_requests)) < 8"
    using advice_no_starvation [of "\<lambda>j. j \<noteq> 100" ex_requests ex_later 100] by simp
qed

end
