(* ===== verification/Npc_Text.thy ===== *)
theory Npc_Text
  imports AIW_Prelude
begin

text \<open>
  The text an NPC agent may say (\<open>Agent/NpcAgentDialogue.h\<close>, \<open>Agent/NpcAgentSpeechState.h\<close>): strict
  UTF-8 validation, trimming, and the normal form that the repetition checks compare. A
  \<open>std::string_view\<close> is the list of its bytes and an index into it is the rest of the list; sizes are
  natural numbers, because they never exceed the length of a string in memory. Scalars are
  \<open>uint32\<close> words, shifted and masked as in the code. Reading past the end of the view is undefined
  in C++: the normaliser returns \<open>None\<close> there, and the theory shows that it never does.
\<close>

unbundle bit_operations_syntax

type_synonym bytes = "u8 list"

definition MaxTextBytes :: nat where "MaxTextBytes = 768"
definition MaxTextCharacters :: nat where "MaxTextCharacters = 256"
definition MaxNameBytes :: nat where "MaxNameBytes = 80"
definition MaxNameCharacters :: nat where "MaxNameCharacters = 32"

section \<open>Validation\<close>

text \<open>What the first byte of a sequence says: the bits it gives, the bytes that follow, the least scalar.\<close>

definition LeadByte :: "u8 \<Rightarrow> (u32 \<times> nat \<times> u32) option" where
  "LeadByte first =
     (if first \<ge> 0xC2 \<and> first \<le> 0xDF then Some (ucast (first AND 0x1F), 1, 0x80)
      else if first \<ge> 0xE0 \<and> first \<le> 0xEF then Some (ucast (first AND 0x0F), 2, 0x800)
      else if first \<ge> 0xF0 \<and> first \<le> 0xF4 then Some (ucast (first AND 0x07), 3, 0x10000)
      else if first \<ge> 0x80 then None
      else Some (ucast first, 0, 0))"

fun Continuation_loop :: "nat \<Rightarrow> u32 \<Rightarrow> bytes \<Rightarrow> (u32 \<times> bytes) option" where
  "Continuation_loop 0 scalar rest = Some (scalar, rest)"
| "Continuation_loop (Suc k) scalar [] = None"
| "Continuation_loop (Suc k) scalar (b # rest) =
     (if b AND 0xC0 \<noteq> 0x80 then None
      else Continuation_loop k (push_bit 6 scalar OR ucast (b AND 0x3F)) rest)"

text \<open>One scalar with the rest of the text, or \<open>None\<close> where the code returns \<open>false\<close>.\<close>

definition DecodeScalar :: "bytes \<Rightarrow> (u32 \<times> bytes) option" where
  "DecodeScalar text =
     (case text of [] \<Rightarrow> None
      | first # rest \<Rightarrow>
         (case LeadByte first of None \<Rightarrow> None
          | Some (scalar, continuation, minimum) \<Rightarrow>
              if continuation > length rest then None
              else (case Continuation_loop continuation scalar rest of None \<Rightarrow> None
                    | Some (c, rest') \<Rightarrow>
                        if c < minimum \<or> c > 0x10FFFF \<or> c \<ge> 0xD800 \<and> c \<le> 0xDFFF then None
                        else Some (c, rest'))))"

definition AuthoredWhitespace :: "bool \<Rightarrow> u32 \<Rightarrow> bool" where
  "AuthoredWhitespace allowAuthoredLines scalar = (allowAuthoredLines \<and> (scalar = 0x0A \<or> scalar = 0x09))"

text \<open>Control characters, the pipe of the client's markup, invisible and bidirectional formatting.\<close>

definition ForbiddenScalar :: "bool \<Rightarrow> u32 \<Rightarrow> bool" where
  "ForbiddenScalar allowAuthoredLines scalar =
     (\<not> AuthoredWhitespace allowAuthoredLines scalar \<and> scalar < 0x20 \<or>
      scalar \<ge> 0x7F \<and> scalar \<le> 0x9F \<or> scalar = 0x7C \<or>
      scalar \<ge> 0x200B \<and> scalar \<le> 0x200F \<or> scalar \<ge> 0x2028 \<and> scalar \<le> 0x202E \<or>
      scalar \<ge> 0x2060 \<and> scalar \<le> 0x206F \<or> scalar = 0xFEFF)"

definition VisibleScalar :: "bool \<Rightarrow> u32 \<Rightarrow> bool" where
  "VisibleScalar allowAuthoredLines scalar =
     (\<not> AuthoredWhitespace allowAuthoredLines scalar \<and> scalar \<noteq> 0x20 \<and> scalar \<noteq> 0xA0)"

lemma Continuation_loop_length: "Continuation_loop k s t = Some (c, r) \<Longrightarrow> length r + k = length t"
  by (induction k s t rule: Continuation_loop.induct) (auto split: if_splits)

lemma DecodeScalar_shorter: "DecodeScalar t = Some (c, r) \<Longrightarrow> length r < length t"
  by (auto simp: DecodeScalar_def split: list.splits option.splits if_splits dest!: Continuation_loop_length)

function Plain_loop :: "nat \<Rightarrow> bool \<Rightarrow> bytes \<Rightarrow> nat \<Rightarrow> bool \<Rightarrow> bool" where
  "Plain_loop maxCharacters allow text characters visible =
     (if text = [] then visible
      else case DecodeScalar text of None \<Rightarrow> False
           | Some (scalar, rest) \<Rightarrow>
               if ForbiddenScalar allow scalar then False
               else if characters + 1 > maxCharacters then False
               else Plain_loop maxCharacters allow rest (characters + 1) (visible \<or> VisibleScalar allow scalar))"
  by pat_completeness auto
termination
  by (relation "measure (\<lambda>(m, a, t, n, v). length t)") (auto dest: DecodeScalar_shorter)

declare Plain_loop.simps [simp del]

definition ValidateNpcAgentPlainText :: "bytes \<Rightarrow> nat \<Rightarrow> nat \<Rightarrow> bool \<Rightarrow> bool" where
  "ValidateNpcAgentPlainText text maxBytes maxCharacters allowAuthoredLines =
     (if text = [] \<or> length text > maxBytes then False
      else Plain_loop maxCharacters allowAuthoredLines text 0 False)"

definition ValidateNpcAgentSpeechText :: "bytes \<Rightarrow> bool" where
  "ValidateNpcAgentSpeechText text = ValidateNpcAgentPlainText text MaxTextBytes MaxTextCharacters False"

definition CleanNpcAgentSpeechText :: "bytes \<Rightarrow> bytes" where
  "CleanNpcAgentSpeechText text =
     (if \<not> ValidateNpcAgentSpeechText text then []
      else rev (dropWhile (\<lambda>b. b = 0x20) (rev (dropWhile (\<lambda>b. b = 0x20) text))))"

section \<open>The normal form\<close>

text \<open>The scalar as the code writes it back: \<open>char(x)\<close> keeps the low byte.\<close>

definition EncodeScalar :: "u32 \<Rightarrow> bytes" where
  "EncodeScalar cp =
     (if cp < 0x80 then [ucast cp]
      else if cp < 0x800 then [ucast (0xC0 OR drop_bit 6 cp), ucast (0x80 OR (cp AND 63))]
      else if cp < 0x10000
        then [ucast (0xE0 OR drop_bit 12 cp), ucast (0x80 OR (drop_bit 6 cp AND 63)), ucast (0x80 OR (cp AND 63))]
      else [ucast (0xF0 OR drop_bit 18 cp), ucast (0x80 OR (drop_bit 12 cp AND 63)),
            ucast (0x80 OR (drop_bit 6 cp AND 63)), ucast (0x80 OR (cp AND 63))])"

fun Extra_loop :: "nat \<Rightarrow> u32 \<Rightarrow> bytes \<Rightarrow> (u32 \<times> bytes) option" where
  "Extra_loop 0 cp rest = Some (cp, rest)"
| "Extra_loop (Suc k) cp [] = None"
| "Extra_loop (Suc k) cp (b # rest) = Extra_loop k (push_bit 6 cp OR (ucast b AND 63)) rest"

definition ReadScalar :: "u8 \<Rightarrow> bytes \<Rightarrow> (u32 \<times> bytes) option" where
  "ReadScalar b rest =
     (let cp = ucast b :: u32 in
      if cp \<ge> 0xF0 then Extra_loop 3 (cp AND 7) rest
      else if cp \<ge> 0xE0 then Extra_loop 2 (cp AND 15) rest
      else if cp \<ge> 0xC0 then Extra_loop 1 (cp AND 31) rest
      else Extra_loop 0 cp rest)"

definition SpaceScalar :: "u32 \<Rightarrow> bool" where
  "SpaceScalar cp = (cp = 0x20 \<or> cp = 0xA0)"

definition PunctuationScalar :: "u32 \<Rightarrow> bool" where
  "PunctuationScalar cp =
     (cp \<ge> 33 \<and> cp \<le> 47 \<or> cp \<ge> 58 \<and> cp \<le> 64 \<or> cp \<ge> 91 \<and> cp \<le> 96 \<or> cp \<ge> 123 \<and> cp \<le> 126 \<or>
      cp \<ge> 0x2010 \<and> cp \<le> 0x201F \<or> cp = 0x2026)"

definition FoldCase :: "u32 \<Rightarrow> u32" where
  "FoldCase cp =
     (if cp \<ge> 0x41 \<and> cp \<le> 0x5A then cp + 32
      else if cp \<ge> 0xC0 \<and> cp \<le> 0xD6 \<or> cp \<ge> 0xD8 \<and> cp \<le> 0xDE then cp + 32
      else if cp \<ge> 0x100 \<and> cp \<le> 0x12F \<and> cp AND 1 = 0 \<or>
              cp \<ge> 0x132 \<and> cp \<le> 0x137 \<and> cp AND 1 = 0 \<or>
              cp \<ge> 0x139 \<and> cp \<le> 0x148 \<and> cp AND 1 \<noteq> 0 \<or>
              cp \<ge> 0x14A \<and> cp \<le> 0x177 \<and> cp AND 1 = 0 \<or>
              cp \<ge> 0x179 \<and> cp \<le> 0x17E \<and> cp AND 1 \<noteq> 0 then cp + 1
      else cp)"

lemma Extra_loop_length: "Extra_loop k s t = Some (c, r) \<Longrightarrow> length r \<le> length t"
  by (induction k s t rule: Extra_loop.induct) (auto split: if_splits)

lemma ReadScalar_length: "ReadScalar b t = Some (c, r) \<Longrightarrow> length r \<le> length t"
  by (auto simp: ReadScalar_def Let_def simp del: Extra_loop.simps split: if_splits dest!: Extra_loop_length)

function Normalize_loop :: "bytes \<Rightarrow> bytes \<Rightarrow> bool \<Rightarrow> bytes option" where
  "Normalize_loop [] result space = Some result"
| "Normalize_loop (b # rest) result space =
     (case ReadScalar b rest of None \<Rightarrow> None
      | Some (cp, rest') \<Rightarrow>
          if SpaceScalar cp then Normalize_loop rest' result (result \<noteq> [])
          else if PunctuationScalar cp then Normalize_loop rest' result space
          else Normalize_loop rest' ((if space then result @ [0x20] else result) @ EncodeScalar (FoldCase cp)) False)"
  by pat_completeness auto
termination
  by (relation "measure (\<lambda>(t, r, s). length t)") (auto dest: ReadScalar_length)

definition NormalizeNpcAgentSpeech :: "bytes \<Rightarrow> bytes option" where
  "NormalizeNpcAgentSpeech text =
     (if \<not> ValidateNpcAgentSpeechText text then Some [] else Normalize_loop text [] False)"

section \<open>Bytes and scalars as numbers\<close>

lemma nat_or_add:
  fixes a x :: nat
  assumes "x < 2 ^ n"
  shows "(a * 2 ^ n) OR x = a * 2 ^ n + x"
proof -
  have "(a * 2 ^ n) AND x = 0"
  proof (rule bit_eqI)
    fix m
    show "bit ((a * 2 ^ n) AND x) m = bit (0 :: nat) m"
    proof (cases "m < n")
      case True
      then show ?thesis by (simp add: bit_simps flip: push_bit_eq_mult)
    next
      case False
      then have "take_bit n x = x" using assms by (simp add: take_bit_nat_eq_self)
      then have "\<not> bit x m" using False by (metis bit_take_bit_iff)
      then show ?thesis by (simp add: bit_simps)
    qed
  qed
  then show ?thesis by (simp add: disjunctive_add_eq_or)
qed

lemma unat_or_push:
  fixes a x :: "'a::len word"
  assumes "unat a = k * 2 ^ n" and "unat x < 2 ^ n"
  shows "unat (a OR x) = k * 2 ^ n + unat x"
  using nat_or_add [OF assms(2), of k] assms(1) by (simp add: unsigned_or_eq)

lemma unat_and_mask:
  fixes x :: "'a::len word"
  assumes "m = mask n"
  shows "unat (x AND m) = unat x mod 2 ^ n"
  unfolding assms take_bit_eq_mask [symmetric] unsigned_take_bit_eq by (rule take_bit_eq_mod)

lemma unat_and_masks [simp]:
  "unat ((c :: 'a::len word) AND 1) = unat c mod 2"
  "unat (c AND 7) = unat c mod 8"
  "unat (c AND 15) = unat c mod 16"
  "unat (c AND 31) = unat c mod 32"
  "unat (c AND 63) = unat c mod 64"
  using unat_and_mask [of 1 1 c] unat_and_mask [of 7 3 c] unat_and_mask [of 15 4 c]
    unat_and_mask [of 31 5 c] unat_and_mask [of 63 6 c]
  by (simp_all add: mask_eq_exp_minus_1)

lemma unat_byte_to_scalar [simp]: "unat (ucast (b :: u8) :: u32) = unat b"
proof -
  have "unat b < 2 ^ LENGTH(8)" by (rule unsigned_less)
  then show ?thesis by (simp add: unsigned_ucast_eq take_bit_nat_eq_self)
qed

lemma unat_scalar_to_byte: "unat (ucast (c :: u32) :: u8) = unat c mod 256"
  by (simp add: unsigned_ucast_eq take_bit_eq_mod)

lemma unat_byte_less [simp]: "unat (b :: u8) < 256"
proof -
  have "unat b < 2 ^ LENGTH(8)" by (rule unsigned_less)
  then show ?thesis by simp
qed

lemma continuation_byte: "(b :: u8) AND 0xC0 = 0x80 \<longleftrightarrow> 128 \<le> unat b \<and> unat b < 192"
proof -
  have all: "list_all (\<lambda>n. ((of_nat n :: u8) AND 0xC0 = 0x80) = (128 \<le> n \<and> n < 192)) [0..<256]"
    by code_simp
  have "b = of_nat (unat b)" by simp
  moreover have "unat b \<in> set [0..<256]" by simp
  ultimately show ?thesis using all unfolding list_all_iff by metis
qed

lemma unat_shift_in:
  assumes "unat (s :: u32) < 2 ^ 20" and "unat (x :: u32) < 64"
  shows "unat (push_bit 6 s OR x) = unat s * 64 + unat x"
proof -
  have "unat (push_bit 6 s) = unat s * 2 ^ 6"
    using assms(1) unfolding unsigned_push_bit_eq unfolding push_bit_eq_mult by (simp add: take_bit_nat_eq_self)
  from unat_or_push [OF this] assms(2) show ?thesis by simp
qed

definition is_scalar :: "u32 \<Rightarrow> bool" where
  "is_scalar c = (unat c \<le> 0x10FFFF \<and> \<not> (0xD800 \<le> unat c \<and> unat c \<le> 0xDFFF))"

lemma unat_EncodeScalar:
  assumes "unat c \<le> 0x10FFFF"
  shows "map unat (EncodeScalar c) =
    (let n = unat c in
      if n < 128 then [n]
      else if n < 2048 then [192 + n div 64, 128 + n mod 64]
      else if n < 65536 then [224 + n div 4096, 128 + n div 64 mod 64, 128 + n mod 64]
      else [240 + n div 262144, 128 + n div 4096 mod 64, 128 + n div 64 mod 64, 128 + n mod 64])"
proof -
  have low: "unat (0x80 OR (x AND 63)) mod 256 = 128 + unat x mod 64" for x :: u32
    using unat_or_push [of "0x80 :: u32" 2 6 "x AND 63"] by simp
  have drop: "unat (drop_bit k c) = unat c div 2 ^ k" for k
    unfolding unsigned_drop_bit_eq unfolding drop_bit_eq_div
    using unat_lt2p_32 [of c] by (simp add: take_bit_nat_eq_self)
  have b2: "unat c < 2048 \<Longrightarrow> unat (ucast (0xC0 OR drop_bit 6 c) :: u8) = 192 + unat c div 64"
    using unat_or_push [of "0xC0 :: u32" 6 5 "drop_bit 6 c"] by (simp add: unat_scalar_to_byte drop)
  have b3: "unat c < 65536 \<Longrightarrow> unat (ucast (0xE0 OR drop_bit 12 c) :: u8) = 224 + unat c div 4096"
    using unat_or_push [of "0xE0 :: u32" 14 4 "drop_bit 12 c"] by (simp add: unat_scalar_to_byte drop)
  have b4: "unat (ucast (0xF0 OR drop_bit 18 c) :: u8) = 240 + unat c div 262144"
    using unat_or_push [of "0xF0 :: u32" 30 3 "drop_bit 18 c"] assms by (simp add: unat_scalar_to_byte drop)
  show ?thesis
    using b2 b3 b4 by (simp add: EncodeScalar_def Let_def word_less_nat_alt low drop unat_scalar_to_byte)
qed

lemma map_unat_inject: "map unat xs = map unat (ys :: bytes) \<longleftrightarrow> xs = ys"
  by (rule inj_map_eq_map) (simp add: inj_on_def word_unat_eq_iff)

text \<open>Decoding a sequence written by \<open>EncodeScalar\<close> gives the scalar back, in both decoders.\<close>

lemma DecodeScalar_encode:
  assumes "is_scalar c"
  shows "DecodeScalar (EncodeScalar c @ r) = Some (c, r)"
proof -
  have u: "unat c \<le> 0x10FFFF" using assms by (simp add: is_scalar_def)
  note e = unat_EncodeScalar [OF u, unfolded Let_def]
  have m: "(192 + x) mod 32 = x mod 32" "(224 + x) mod 16 = x mod 16" "(240 + x) mod 8 = x mod 8"
    "(128 + x) mod 64 = x mod 64" for x :: nat
    using mod_add_eq [of 192 32 x] mod_add_eq [of 224 16 x] mod_add_eq [of 240 8 x] mod_add_eq [of 128 64 x]
    by simp_all
  have eqI: "unat x = unat c \<Longrightarrow> x = c" for x by (rule word_unat_eq_iff [THEN iffD2])
  consider (one) "unat c < 128" | (two) "128 \<le> unat c" "unat c < 2048"
    | (three) "2048 \<le> unat c" "unat c < 65536" | (four) "65536 \<le> unat c" by linarith
  then show ?thesis
  proof cases
    case one
    with e have "map unat (EncodeScalar c) = [unat c]" by simp
    then obtain b where b: "EncodeScalar c = [b]" "unat b = unat c" by auto
    show ?thesis using one b(2)
      by (auto simp: b(1) DecodeScalar_def LeadByte_def word_le_nat_alt word_less_nat_alt intro!: eqI)
  next
    case two
    with e have "map unat (EncodeScalar c) = [192 + unat c div 64, 128 + unat c mod 64]" by simp
    then obtain b0 b1 where b: "EncodeScalar c = [b0, b1]" "unat b0 = 192 + unat c div 64" "unat b1 = 128 + unat c mod 64"
      by (auto simp: map_eq_Cons_conv)
    have "2 \<le> unat c div 64" "unat c div 64 < 32" using two by linarith+
    then have l: "LeadByte b0 = Some (ucast (b0 AND 0x1F), 1, 0x80)"
      using b(2) by (simp add: LeadByte_def word_le_nat_alt)
    have c1: "b1 AND 0xC0 = 0x80" by (simp add: continuation_byte b(3))
    have s: "unat (push_bit 6 (ucast (b0 AND 0x1F)) OR ucast (b1 AND 0x3F) :: u32) = unat c"
      using two b by (subst unat_shift_in) (auto simp: m)
    show ?thesis using two
      by (simp add: b(1) DecodeScalar_def l c1 eqI [OF s] word_le_nat_alt word_less_nat_alt)
  next
    case three
    with e have "map unat (EncodeScalar c) = [224 + unat c div 4096, 128 + unat c div 64 mod 64, 128 + unat c mod 64]" by simp
    then obtain b0 b1 b2 where b: "EncodeScalar c = [b0, b1, b2]" "unat b0 = 224 + unat c div 4096"
        "unat b1 = 128 + unat c div 64 mod 64" "unat b2 = 128 + unat c mod 64"
      by (auto simp: map_eq_Cons_conv)
    have l: "LeadByte b0 = Some (ucast (b0 AND 0x0F), 2, 0x800)"
      using three b(2) by (simp add: LeadByte_def word_le_nat_alt)
    have c1: "b1 AND 0xC0 = 0x80" "b2 AND 0xC0 = 0x80" by (simp_all add: continuation_byte b)
    have k: "unat c div 4096 * 64 + unat c div 64 mod 64 = unat c div 64"
      using div_mult2_eq [of "unat c" 64 64] div_mult_mod_eq [of "unat c div 64" 64] by simp
    have s1: "unat (push_bit 6 (ucast (b0 AND 0x0F)) OR ucast (b1 AND 0x3F) :: u32) = unat c div 64"
      using three b k by (subst unat_shift_in) (auto simp: m)
    have s: "unat (push_bit 6 (push_bit 6 (ucast (b0 AND 0x0F)) OR ucast (b1 AND 0x3F)) OR ucast (b2 AND 0x3F) :: u32) = unat c"
      using three b by (subst unat_shift_in, unfold s1) (auto simp: m)
    have k: "Continuation_loop 2 (ucast (b0 AND 0x0F)) (b1 # b2 # r) = Some (c, r)"
      by (simp only: numeral_2_eq_2 Continuation_loop.simps c1 eqI [OF s] simp_thms if_False)
    show ?thesis using three assms
      by (simp add: b(1) DecodeScalar_def l k word_le_nat_alt word_less_nat_alt is_scalar_def)
  next
    case four
    with e have "map unat (EncodeScalar c) = [240 + unat c div 262144, 128 + unat c div 4096 mod 64,
        128 + unat c div 64 mod 64, 128 + unat c mod 64]" by simp
    then obtain b0 b1 b2 b3 where b: "EncodeScalar c = [b0, b1, b2, b3]" "unat b0 = 240 + unat c div 262144"
        "unat b1 = 128 + unat c div 4096 mod 64" "unat b2 = 128 + unat c div 64 mod 64" "unat b3 = 128 + unat c mod 64"
      by (auto simp: map_eq_Cons_conv)
    have l: "LeadByte b0 = Some (ucast (b0 AND 0x07), 3, 0x10000)"
      using four b(2) u by (simp add: LeadByte_def word_le_nat_alt)
    have c1: "b1 AND 0xC0 = 0x80" "b2 AND 0xC0 = 0x80" "b3 AND 0xC0 = 0x80" by (simp_all add: continuation_byte b)
    have k1: "unat c div 262144 * 64 + unat c div 4096 mod 64 = unat c div 4096"
      using div_mult2_eq [of "unat c" 4096 64] div_mult_mod_eq [of "unat c div 4096" 64] by simp
    have k2: "unat c div 4096 * 64 + unat c div 64 mod 64 = unat c div 64"
      using div_mult2_eq [of "unat c" 64 64] div_mult_mod_eq [of "unat c div 64" 64] by simp
    have s1: "unat (push_bit 6 (ucast (b0 AND 0x07)) OR ucast (b1 AND 0x3F) :: u32) = unat c div 4096"
      using four u b by (subst unat_shift_in) (auto simp: m k1)
    have s2: "unat (push_bit 6 (push_bit 6 (ucast (b0 AND 0x07)) OR ucast (b1 AND 0x3F)) OR ucast (b2 AND 0x3F) :: u32) = unat c div 64"
      using four u b by (subst unat_shift_in, unfold s1) (auto simp: m k2)
    have s: "unat (push_bit 6 (push_bit 6 (push_bit 6 (ucast (b0 AND 0x07)) OR ucast (b1 AND 0x3F)) OR ucast (b2 AND 0x3F)) OR ucast (b3 AND 0x3F) :: u32) = unat c"
      using four u b by (subst unat_shift_in, unfold s2) (auto simp: m)
    have k: "Continuation_loop 3 (ucast (b0 AND 0x07)) (b1 # b2 # b3 # r) = Some (c, r)"
      by (simp only: numeral_3_eq_3 Continuation_loop.simps c1 eqI [OF s] simp_thms if_False)
    show ?thesis using four u
      by (simp add: b(1) DecodeScalar_def l k word_le_nat_alt word_less_nat_alt)
  qed
qed

lemma mod_bytes:
  fixes x :: nat
  shows "(192 + x) mod 32 = x mod 32" "(224 + x) mod 16 = x mod 16" "(240 + x) mod 8 = x mod 8" "(128 + x) mod 64 = x mod 64"
  using mod_add_eq [of 192 32 x] mod_add_eq [of 224 16 x] mod_add_eq [of 240 8 x] mod_add_eq [of 128 64 x]
  by simp_all

lemma continuation_obtain:
  assumes "(b :: u8) AND 0xC0 = 0x80"
  obtains y where "unat b = 128 + y" and "y < 64" and "unat b mod 64 = y"
proof -
  have "128 \<le> unat b \<and> unat b < 192" using assms by (simp add: continuation_byte)
  then have "unat b = 128 + (unat b - 128)" "unat b - 128 < 64" by linarith+
  then show ?thesis using that mod_bytes(4) [of "unat b - 128"] by (metis mod_less)
qed

text \<open>The sequences of each length that the validating decoder accepts.\<close>

lemma DecodeScalar_cases:
  assumes "DecodeScalar t = Some (c, r)"
  shows "(\<exists>b0. t = b0 # r \<and> unat b0 < 128 \<and> unat c = unat b0) \<or>
    (\<exists>b0 b1 x y. t = b0 # b1 # r \<and> unat b0 = 192 + x \<and> x < 32 \<and> unat b1 = 128 + y \<and> y < 64 \<and>
       128 \<le> unat c \<and> unat c = x * 64 + y) \<or>
    (\<exists>b0 b1 b2 x y z. t = b0 # b1 # b2 # r \<and> unat b0 = 224 + x \<and> x < 16 \<and> unat b1 = 128 + y \<and> y < 64 \<and>
       unat b2 = 128 + z \<and> z < 64 \<and> 2048 \<le> unat c \<and> unat c = (x * 64 + y) * 64 + z) \<or>
    (\<exists>b0 b1 b2 b3 x y z w. t = b0 # b1 # b2 # b3 # r \<and> unat b0 = 240 + x \<and> x < 8 \<and> unat b1 = 128 + y \<and>
       y < 64 \<and> unat b2 = 128 + z \<and> z < 64 \<and> unat b3 = 128 + w \<and> w < 64 \<and>
       65536 \<le> unat c \<and> unat c = ((x * 64 + y) * 64 + z) * 64 + w)"
  (is "?one \<or> ?two \<or> ?three \<or> ?four")
proof -
  from assms obtain first rest where t: "t = first # rest" by (cases t) (auto simp: DecodeScalar_def)
  from assms t obtain s k m where l: "LeadByte first = Some (s, k, m)"
      and d: "Continuation_loop k s rest = Some (c, r)" and low: "m \<le> c"
    by (auto simp: DecodeScalar_def split: option.splits if_splits)
  have shift: "unat (push_bit 6 a OR ucast (b AND 0x3F) :: u32) = unat a * 64 + y"
    if "unat a < 2 ^ 20" "unat b mod 64 = y" for a :: u32 and b :: u8 and y
    using that by (subst unat_shift_in) auto
  consider (one) "s = ucast first" "k = 0" "unat first < 128"
    | (two) "s = ucast (first AND 0x1F)" "k = 1" "192 \<le> unat first" "m = 0x80" "unat first \<le> 223"
    | (three) "s = ucast (first AND 0x0F)" "k = 2" "224 \<le> unat first" "m = 0x800" "unat first \<le> 239"
    | (four) "s = ucast (first AND 0x07)" "k = 3" "240 \<le> unat first" "m = 0x10000" "unat first \<le> 244"
    using l by (auto simp: LeadByte_def word_le_nat_alt split: if_splits)
  then show ?thesis
  proof cases
    case one
    then have ?one using d t by auto
    then show ?thesis by blast
  next
    case two
    define x where "x = unat first - 192"
    have x0: "unat first = 192 + x" "x < 32" using two(3,5) unfolding x_def by linarith+
    have x: "unat first = 192 + x" "x < 32" "unat s = x" using x0 two(1) by (simp_all add: mod_bytes)
    obtain b1 where b: "rest = b1 # r" "b1 AND 0xC0 = 0x80" "c = push_bit 6 s OR ucast (b1 AND 0x3F)"
      using d two(2) by (cases rest) (auto split: if_splits)
    obtain y where y: "unat b1 = 128 + y" "y < 64" "unat b1 mod 64 = y" by (rule continuation_obtain [OF b(2)])
    have "unat c = x * 64 + y" unfolding b(3) using shift [of s b1 y] x y by simp
    moreover have "128 \<le> unat c" using low two(4) by (simp add: word_le_nat_alt)
    ultimately have ?two using t b(1) x y by blast
    then show ?thesis by blast
  next
    case three
    define x where "x = unat first - 224"
    have x0: "unat first = 224 + x" "x < 16" using three(3,5) unfolding x_def by linarith+
    have x: "unat first = 224 + x" "x < 16" "unat s = x" using x0 three(1) by (simp_all add: mod_bytes)
    obtain b1 b2 where b: "rest = b1 # b2 # r" "b1 AND 0xC0 = 0x80" "b2 AND 0xC0 = 0x80"
        "c = push_bit 6 (push_bit 6 s OR ucast (b1 AND 0x3F)) OR ucast (b2 AND 0x3F)"
      using d three(2) by (cases rest; cases "tl rest") (auto simp: numeral_2_eq_2 simp del: push_bit_or split: if_splits)
    obtain y where y: "unat b1 = 128 + y" "y < 64" "unat b1 mod 64 = y" by (rule continuation_obtain [OF b(2)])
    obtain z where z: "unat b2 = 128 + z" "z < 64" "unat b2 mod 64 = z" by (rule continuation_obtain [OF b(3)])
    have s1: "unat (push_bit 6 s OR ucast (b1 AND 0x3F)) = x * 64 + y" using shift [of s b1 y] x y by simp
    have "unat c = (x * 64 + y) * 64 + z" unfolding b(4)
      using shift [of "push_bit 6 s OR ucast (b1 AND 0x3F)" b2 z, unfolded s1] x y z by simp
    moreover have "2048 \<le> unat c" using low three(4) by (simp add: word_le_nat_alt)
    ultimately have ?three using t b(1) x y z by blast
    then show ?thesis by blast
  next
    case four
    define x where "x = unat first - 240"
    have x0: "unat first = 240 + x" "x < 8" using four(3,5) unfolding x_def by linarith+
    have x: "unat first = 240 + x" "x < 8" "unat s = x" using x0 four(1) by (simp_all add: mod_bytes)
    obtain b1 b2 b3 where b: "rest = b1 # b2 # b3 # r" "b1 AND 0xC0 = 0x80" "b2 AND 0xC0 = 0x80" "b3 AND 0xC0 = 0x80"
        "c = push_bit 6 (push_bit 6 (push_bit 6 s OR ucast (b1 AND 0x3F)) OR ucast (b2 AND 0x3F)) OR ucast (b3 AND 0x3F)"
      using d four(2) by (cases rest; cases "tl rest"; cases "tl (tl rest)") (auto simp: numeral_3_eq_3 simp del: push_bit_or split: if_splits)
    obtain y where y: "unat b1 = 128 + y" "y < 64" "unat b1 mod 64 = y" by (rule continuation_obtain [OF b(2)])
    obtain z where z: "unat b2 = 128 + z" "z < 64" "unat b2 mod 64 = z" by (rule continuation_obtain [OF b(3)])
    obtain w where w: "unat b3 = 128 + w" "w < 64" "unat b3 mod 64 = w" by (rule continuation_obtain [OF b(4)])
    have s1: "unat (push_bit 6 s OR ucast (b1 AND 0x3F)) = x * 64 + y" using shift [of s b1 y] x y by simp
    have s2: "unat (push_bit 6 (push_bit 6 s OR ucast (b1 AND 0x3F)) OR ucast (b2 AND 0x3F)) = (x * 64 + y) * 64 + z"
      using shift [of "push_bit 6 s OR ucast (b1 AND 0x3F)" b2 z, unfolded s1] x y z by simp
    have "unat c = ((x * 64 + y) * 64 + z) * 64 + w" unfolding b(5)
      using shift [of "push_bit 6 (push_bit 6 s OR ucast (b1 AND 0x3F)) OR ucast (b2 AND 0x3F)" b3 w, unfolded s2] x y z w
      by simp
    moreover have "65536 \<le> unat c" using low four(4) by (simp add: word_le_nat_alt)
    ultimately have ?four using t b(1) x y z w by blast
    then show ?thesis by blast
  qed
qed

lemma DecodeScalar_iff: "DecodeScalar t = Some (c, r) \<longleftrightarrow> t = EncodeScalar c @ r \<and> is_scalar c"
proof
  assume d: "DecodeScalar t = Some (c, r)"
  then have s: "is_scalar c"
    by (auto simp: DecodeScalar_def is_scalar_def word_le_nat_alt word_less_nat_alt split: list.splits option.splits if_splits)
  then have "unat c \<le> 0x10FFFF" by (simp add: is_scalar_def)
  note e = unat_EncodeScalar [OF this, unfolded Let_def]
  have div: "(a * 64 + b) div 64 = a" "(a * 64 + b) mod 64 = b" if "b < 64" for a b :: nat using that by simp_all
  have div2: "n div 4096 = n div 64 div 64" "n div 262144 = n div 64 div 64 div 64" for n :: nat
    using div_mult2_eq [of n 64 64] div_mult2_eq [of n 64 4096] div_mult2_eq [of "n div 64" 64 64] by simp_all
  from DecodeScalar_cases [OF d] show "t = EncodeScalar c @ r \<and> is_scalar c"
  proof (elim disjE exE conjE)
    fix b0 assume a: "t = b0 # r" "unat b0 < 128" "unat c = unat b0"
    with e have "map unat (EncodeScalar c) = map unat [b0]" by simp
    then have "EncodeScalar c = [b0]" by (simp only: map_unat_inject)
    with a s show ?thesis by simp
  next
    fix b0 b1 x y
    assume a: "t = b0 # b1 # r" "unat b0 = 192 + x" "x < 32" "unat b1 = 128 + y" "y < 64" "128 \<le> unat c" "unat c = x * 64 + y"
    then have "unat c < 2048" by simp
    with a e have "map unat (EncodeScalar c) = map unat [b0, b1]" by (simp add: div)
    then have "EncodeScalar c = [b0, b1]" by (simp only: map_unat_inject)
    with a s show ?thesis by simp
  next
    fix b0 b1 b2 x y z
    assume a: "t = b0 # b1 # b2 # r" "unat b0 = 224 + x" "x < 16" "unat b1 = 128 + y" "y < 64" "unat b2 = 128 + z" "z < 64"
      "2048 \<le> unat c" "unat c = (x * 64 + y) * 64 + z"
    then have n: "unat c < 65536" "unat c div 4096 = x" "unat c div 64 mod 64 = y" "unat c mod 64 = z"
      by (simp_all only: div2 div) simp_all
    with a(2,4,6,8) e have "map unat (EncodeScalar c) = map unat [b0, b1, b2]" by simp
    then have "EncodeScalar c = [b0, b1, b2]" by (simp only: map_unat_inject)
    with a s show ?thesis by simp
  next
    fix b0 b1 b2 b3 x y z w
    assume a: "t = b0 # b1 # b2 # b3 # r" "unat b0 = 240 + x" "x < 8" "unat b1 = 128 + y" "y < 64" "unat b2 = 128 + z" "z < 64"
      "unat b3 = 128 + w" "w < 64" "65536 \<le> unat c" "unat c = ((x * 64 + y) * 64 + z) * 64 + w"
    then have n: "unat c div 262144 = x" "unat c div 4096 mod 64 = y" "unat c div 64 mod 64 = z" "unat c mod 64 = w"
      by (simp_all only: div2 div)
    with a(2,4,6,8,10) e have "map unat (EncodeScalar c) = map unat [b0, b1, b2, b3]" by simp
    then have "EncodeScalar c = [b0, b1, b2, b3]" by (simp only: map_unat_inject)
    with a s show ?thesis by simp
  qed
qed (simp add: DecodeScalar_encode)

lemma encode_append_eq:
  "is_scalar a \<Longrightarrow> is_scalar c \<Longrightarrow> EncodeScalar a @ s = EncodeScalar c @ r \<longleftrightarrow> a = c \<and> s = r"
  by (metis DecodeScalar_encode option.inject prod.inject)

lemma EncodeScalar_nonempty [simp]: "EncodeScalar c \<noteq> []"
  by (simp add: EncodeScalar_def)

definition utf8 :: "u32 list \<Rightarrow> bytes" where
  "utf8 cs = concat (map EncodeScalar cs)"

lemma utf8_simps [simp]:
  "utf8 [] = []" "utf8 (c # cs) = EncodeScalar c @ utf8 cs" "utf8 (cs @ ds) = utf8 cs @ utf8 ds"
  "utf8 cs = [] \<longleftrightarrow> cs = []" "[] = utf8 cs \<longleftrightarrow> cs = []"
  by (auto simp: utf8_def)

lemma utf8_ascii: "utf8 [0x20] = [0x20]"
  by (simp add: EncodeScalar_def)

section \<open>The validator accepts exactly the encodings of harmless scalars\<close>

definition plain_scalar :: "bool \<Rightarrow> u32 \<Rightarrow> bool" where
  "plain_scalar allow c = (is_scalar c \<and> \<not> ForbiddenScalar allow c)"

lemma Plain_loop_iff:
  "Plain_loop m allow t n v \<longleftrightarrow>
     (\<exists>cs. t = utf8 cs \<and> list_all (plain_scalar allow) cs \<and> (cs = [] \<or> n + length cs \<le> m) \<and>
        (v \<or> list_ex (VisibleScalar allow) cs))"
proof (induction m allow t n v rule: Plain_loop.induct)
  case (1 m allow t n v)
  show ?case
  proof (cases "t = []")
    case True
    then show ?thesis by (subst Plain_loop.simps) auto
  next
    case False
    show ?thesis
    proof (cases "DecodeScalar t")
      case None
      have "t \<noteq> utf8 cs" if "list_all (plain_scalar allow) cs" for cs
        using False None that DecodeScalar_encode by (cases cs) (auto simp: plain_scalar_def)
      then show ?thesis using False None by (subst Plain_loop.simps) auto
    next
      case (Some p)
      then obtain c r where p: "DecodeScalar t = Some (c, r)" by (cases p) auto
      then have t: "t = EncodeScalar c @ r" "is_scalar c" by (simp_all add: DecodeScalar_iff)
      have uniq: "t = utf8 cs \<and> list_all (plain_scalar allow) cs \<longleftrightarrow>
          (\<exists>ds. cs = c # ds \<and> plain_scalar allow c \<and> r = utf8 ds \<and> list_all (plain_scalar allow) ds)" for cs
        using False t by (cases cs) (auto simp: plain_scalar_def encode_append_eq)
      show ?thesis
      proof (cases "ForbiddenScalar allow c \<or> n + 1 > m")
        case True
        have "\<not> (t = utf8 cs \<and> list_all (plain_scalar allow) cs \<and> (cs = [] \<or> n + length cs \<le> m))" for cs
        proof
          assume a: "t = utf8 cs \<and> list_all (plain_scalar allow) cs \<and> (cs = [] \<or> n + length cs \<le> m)"
          then obtain ds where "cs = c # ds" "plain_scalar allow c" using uniq [of cs] by blast
          with a True show False by (auto simp: plain_scalar_def)
        qed
        moreover have "\<not> Plain_loop m allow t n v" using False p True by (subst Plain_loop.simps) auto
        ultimately show ?thesis by blast
      next
        case ok: False
        have "Plain_loop m allow t n v = Plain_loop m allow r (n + 1) (v \<or> VisibleScalar allow c)"
          using False p ok by (subst Plain_loop.simps) auto
        also have "\<dots> \<longleftrightarrow> (\<exists>ds. r = utf8 ds \<and> list_all (plain_scalar allow) ds \<and> (ds = [] \<or> n + 1 + length ds \<le> m) \<and>
            ((v \<or> VisibleScalar allow c) \<or> list_ex (VisibleScalar allow) ds))"
          using 1 False p ok by auto
        also have "\<dots> \<longleftrightarrow> (\<exists>cs. t = utf8 cs \<and> list_all (plain_scalar allow) cs \<and> (cs = [] \<or> n + length cs \<le> m) \<and>
            (v \<or> list_ex (VisibleScalar allow) cs))"
          unfolding conj_assoc [symmetric] uniq using ok t(2) by (fastforce simp: plain_scalar_def)
        finally show ?thesis .
      qed
    qed
  qed
qed

lemma ValidateNpcAgentPlainText_iff:
  "ValidateNpcAgentPlainText text maxBytes maxCharacters allow \<longleftrightarrow>
     (\<exists>cs. text = utf8 cs \<and> list_all (plain_scalar allow) cs \<and> list_ex (VisibleScalar allow) cs \<and>
        length text \<le> maxBytes \<and> length cs \<le> maxCharacters)"
  by (auto simp: ValidateNpcAgentPlainText_def Plain_loop_iff)

section \<open>The normaliser reads what the validator accepted\<close>

lemma ucast_and_byte: "ucast ((b :: u8) AND m) = (ucast b AND ucast m :: u32)"
  by (rule bit_word_eqI) (auto simp: bit_simps)

lemma Extra_of_Continuation:
  "Continuation_loop k s t = Some (c, r) \<Longrightarrow> Extra_loop k s t = Some (c, r)"
  by (induction k s t rule: Continuation_loop.induct) (auto simp: ucast_and_byte split: if_splits)

lemma ReadScalar_of_Decode:
  assumes "DecodeScalar (b # rest) = Some (c, r)"
  shows "ReadScalar b rest = Some (c, r)"
proof -
  from assms obtain s k m where l: "LeadByte b = Some (s, k, m)" and d: "Continuation_loop k s rest = Some (c, r)"
    by (auto simp: DecodeScalar_def split: option.splits if_splits)
  have "ReadScalar b rest = Extra_loop k s rest"
    using l by (auto simp: LeadByte_def ReadScalar_def Let_def word_le_nat_alt ucast_and_byte
        simp del: Extra_loop.simps split: if_splits)
  with Extra_of_Continuation [OF d] show ?thesis by simp
qed

text \<open>What the loop does to a text, read as its scalars.\<close>

fun norm_scalars :: "bool \<Rightarrow> bool \<Rightarrow> u32 list \<Rightarrow> u32 list" where
  "norm_scalars ne space [] = []"
| "norm_scalars ne space (c # cs) =
     (if SpaceScalar c then norm_scalars ne ne cs
      else if PunctuationScalar c then norm_scalars ne space cs
      else (if space then [0x20] else []) @ FoldCase c # norm_scalars True False cs)"

lemma Normalize_loop_utf8:
  "list_all is_scalar cs \<Longrightarrow>
     Normalize_loop (utf8 cs) result space = Some (result @ utf8 (norm_scalars (result \<noteq> []) space cs))"
proof (induction cs arbitrary: result space)
  case (Cons c cs)
  then obtain b bs where e: "EncodeScalar c = b # bs" by (cases "EncodeScalar c") auto
  have "DecodeScalar (b # bs @ utf8 cs) = Some (c, utf8 cs)"
    using DecodeScalar_encode [of c "utf8 cs"] Cons.prems e by simp
  from ReadScalar_of_Decode [OF this] Cons show ?case
    by (simp add: e utf8_ascii [simplified])
qed simp

lemma and_one_nat: "c AND (1 :: u32) = 0 \<longleftrightarrow> even (unat c)"
proof -
  have "c AND (1 :: u32) = 0 \<longleftrightarrow> unat (c AND 1) = 0" by (simp only: word_unat_eq_iff unsigned_0)
  then show ?thesis by (simp add: even_iff_mod_2_eq_zero)
qed

lemma unat_FoldCase:
  "unat (FoldCase c) =
     (let n = unat c in
      if 65 \<le> n \<and> n \<le> 90 \<or> 192 \<le> n \<and> n \<le> 214 \<or> 216 \<le> n \<and> n \<le> 222 then n + 32
      else if 256 \<le> n \<and> n \<le> 303 \<and> even n \<or> 306 \<le> n \<and> n \<le> 311 \<and> even n \<or>
              313 \<le> n \<and> n \<le> 328 \<and> odd n \<or> 330 \<le> n \<and> n \<le> 375 \<and> even n \<or>
              377 \<le> n \<and> n \<le> 382 \<and> odd n then n + 1
      else n)"
proof -
  have add: "unat (c + 32) = unat c + 32" "unat (c + 1) = unat c + 1" if "unat c < 1000"
    using that by (simp_all add: unat_word_ariths)
  show ?thesis unfolding FoldCase_def Let_def word_le_nat_alt and_one_nat
    using add by (simp add: if_distrib [of unat] cong: if_cong)
qed

lemmas scalar_ranges = SpaceScalar_def PunctuationScalar_def ForbiddenScalar_def AuthoredWhitespace_def
  VisibleScalar_def plain_scalar_def is_scalar_def word_le_nat_alt word_less_nat_alt word_unat_eq_iff

lemma FoldCase_idem [simp]: "FoldCase (FoldCase c) = FoldCase c"
proof -
  have "unat (FoldCase (FoldCase c)) = unat (FoldCase c)"
    unfolding unat_FoldCase [of "FoldCase c"] unat_FoldCase [of c] Let_def by (auto split: if_splits)
  then show ?thesis by (simp add: word_unat_eq_iff)
qed

lemma FoldCase_kept:
  assumes "plain_scalar False c" and "\<not> SpaceScalar c" and "\<not> PunctuationScalar c"
  shows "plain_scalar False (FoldCase c)" "\<not> SpaceScalar (FoldCase c)" "\<not> PunctuationScalar (FoldCase c)"
    "VisibleScalar False (FoldCase c)"
  using assms unfolding scalar_ranges unat_FoldCase [of c] Let_def by (auto split: if_splits)

lemma length_EncodeScalar:
  "length (EncodeScalar c) = (if unat c < 128 then 1 else if unat c < 2048 then 2 else if unat c < 65536 then 3 else 4)"
  by (simp add: EncodeScalar_def word_less_nat_alt)

lemma length_EncodeScalar_FoldCase [simp]: "length (EncodeScalar (FoldCase c)) = length (EncodeScalar c)"
  unfolding length_EncodeScalar unat_FoldCase Let_def by (auto split: if_splits)

lemma length_EncodeScalar_pos: "1 \<le> length (EncodeScalar c)"
  by (simp add: length_EncodeScalar)

lemma norm_scalars_idem:
  "list_all (plain_scalar False) cs \<Longrightarrow> space \<longrightarrow> ne \<Longrightarrow>
     norm_scalars ne False (norm_scalars ne space cs) = norm_scalars ne space cs"
proof (induction ne space cs rule: norm_scalars.induct)
  case (2 ne space c cs)
  have sp: "SpaceScalar 0x20" by (simp add: SpaceScalar_def)
  consider (space) "SpaceScalar c" | (punct) "\<not> SpaceScalar c" "PunctuationScalar c"
    | (other) "\<not> SpaceScalar c" "\<not> PunctuationScalar c" by blast
  then show ?case
  proof cases
    case other
    then have k: "\<not> SpaceScalar (FoldCase c)" "\<not> PunctuationScalar (FoldCase c)"
      using FoldCase_kept [of c] 2 by simp_all
    have "norm_scalars True False (norm_scalars True False cs) = norm_scalars True False cs"
      using 2 other by simp
    with k other sp 2 show ?thesis by (cases space) simp_all
  qed (use 2 in auto)
qed simp

lemma norm_scalars_plain: "list_all (plain_scalar False) cs \<Longrightarrow> list_all (plain_scalar False) (norm_scalars ne space cs)"
proof (induction ne space cs rule: norm_scalars.induct)
  case (2 ne space c cs)
  have "plain_scalar False 0x20" by (simp add: scalar_ranges)
  with 2 FoldCase_kept(1) [of c] show ?case by auto
qed simp

lemma norm_scalars_visible:
  "list_all (plain_scalar False) cs \<Longrightarrow> norm_scalars ne space cs \<noteq> [] \<Longrightarrow>
     list_ex (VisibleScalar False) (norm_scalars ne space cs)"
  by (induction ne space cs rule: norm_scalars.induct) (auto dest: FoldCase_kept(4))

lemma norm_scalars_length:
  "length (norm_scalars ne space cs) \<le> length cs + (if space then 1 else 0)"
  by (induction ne space cs rule: norm_scalars.induct) (auto split: if_splits)

lemma norm_scalars_bytes:
  "length (utf8 (norm_scalars ne space cs)) \<le> length (utf8 cs) + (if space then 1 else 0)"
proof (induction ne space cs rule: norm_scalars.induct)
  case (2 ne space c cs)
  then show ?case using length_EncodeScalar_pos [of c] by (auto simp: utf8_ascii [simplified] split: if_splits)
qed simp

text \<open>Normalisation reads nothing beyond the text, and its result is speech in normal form.\<close>

lemma Normalize_exact:
  assumes "text = utf8 cs" and "ValidateNpcAgentSpeechText text" and "list_all (plain_scalar False) cs"
  shows "NormalizeNpcAgentSpeech text = Some (utf8 (norm_scalars False False cs))"
  using assms Normalize_loop_utf8 [of cs "[]" False]
  by (simp add: NormalizeNpcAgentSpeech_def plain_scalar_def list_all_iff)

lemma Normalize_normal:
  "\<exists>r. NormalizeNpcAgentSpeech text = Some r \<and> NormalizeNpcAgentSpeech r = Some r \<and>
     (r = [] \<or> ValidateNpcAgentSpeechText r) \<and> length r \<le> length text"
proof (cases "ValidateNpcAgentSpeechText text")
  case False
  then show ?thesis
    by (simp add: NormalizeNpcAgentSpeech_def ValidateNpcAgentSpeechText_def ValidateNpcAgentPlainText_def)
next
  case True
  then obtain cs where c: "text = utf8 cs" "list_all (plain_scalar False) cs" "length text \<le> MaxTextBytes"
      "length cs \<le> MaxTextCharacters"
    by (auto simp: ValidateNpcAgentSpeechText_def ValidateNpcAgentPlainText_iff)
  let ?ns = "norm_scalars False False cs"
  have n: "NormalizeNpcAgentSpeech text = Some (utf8 ?ns)" by (rule Normalize_exact [OF c(1) True c(2)])
  have len: "length (utf8 ?ns) \<le> length text" using norm_scalars_bytes [of False False cs] c(1) by simp
  show ?thesis
  proof (cases "?ns = []")
    case True
    then show ?thesis using n
      by (simp add: NormalizeNpcAgentSpeech_def ValidateNpcAgentSpeechText_def ValidateNpcAgentPlainText_def)
  next
    case False
    have p: "list_all (plain_scalar False) ?ns" by (rule norm_scalars_plain [OF c(2)])
    have v: "ValidateNpcAgentSpeechText (utf8 ?ns)"
      unfolding ValidateNpcAgentSpeechText_def ValidateNpcAgentPlainText_iff
      using p norm_scalars_visible [OF c(2) False] len c(3,4) norm_scalars_length [of False False cs] by fastforce
    have "NormalizeNpcAgentSpeech (utf8 ?ns) = Some (utf8 ?ns)"
      using Normalize_exact [OF refl v p] norm_scalars_idem [OF c(2), of False False] by simp
    with n v len show ?thesis by simp
  qed
qed

section \<open>Trimming\<close>

lemma EncodeScalar_space_iff: "is_scalar c \<Longrightarrow> hd (EncodeScalar c) = 0x20 \<longleftrightarrow> c = 0x20"
  "is_scalar c \<Longrightarrow> last (EncodeScalar c) = 0x20 \<longleftrightarrow> c = 0x20"
proof -
  assume "is_scalar c"
  then have "unat c \<le> 0x10FFFF" by (simp add: is_scalar_def)
  note e = unat_EncodeScalar [OF this, unfolded Let_def]
  have "unat (hd (EncodeScalar c)) = 32 \<longleftrightarrow> unat c = 32"
    using e by (cases "EncodeScalar c") (auto split: if_splits)
  then show "hd (EncodeScalar c) = 0x20 \<longleftrightarrow> c = 0x20" by (simp add: word_unat_eq_iff)
  have "unat (last (EncodeScalar c)) = last (map unat (EncodeScalar c))" by (simp add: last_map)
  then have "unat (last (EncodeScalar c)) = 32 \<longleftrightarrow> unat c = 32"
    unfolding e by (auto split: if_splits)
  then show "last (EncodeScalar c) = 0x20 \<longleftrightarrow> c = 0x20" by (simp add: word_unat_eq_iff)
qed

abbreviation blank :: "'a::len word \<Rightarrow> bool" where "blank \<equiv> \<lambda>b. b = 0x20"

lemma dropWhile_utf8: "list_all is_scalar cs \<Longrightarrow> dropWhile blank (utf8 cs) = utf8 (dropWhile blank cs)"
proof (induction cs)
  case (Cons c cs)
  show ?case
  proof (cases "c = 0x20")
    case True
    with Cons show ?thesis by (simp add: EncodeScalar_def)
  next
    case False
    obtain b bs where "EncodeScalar c = b # bs" by (cases "EncodeScalar c") auto
    with False EncodeScalar_space_iff(1) [of c] Cons.prems show ?thesis by simp
  qed
qed simp

definition trim_end :: "'a::len word list \<Rightarrow> 'a word list" where
  "trim_end xs = rev (dropWhile blank (rev xs))"

lemma trim_end_simps [simp]:
  "trim_end [] = []" "trim_end (xs @ [x]) = (if blank x then trim_end xs else xs @ [x])"
  by (simp_all add: trim_end_def)

lemma trim_end_utf8: "list_all is_scalar cs \<Longrightarrow> trim_end (utf8 cs) = utf8 (trim_end cs)"
proof (induction cs rule: rev_induct)
  case (snoc c cs)
  show ?case
  proof (cases "c = 0x20")
    case True
    with snoc show ?thesis by (simp add: EncodeScalar_def)
  next
    case False
    obtain bs b where b: "EncodeScalar c = bs @ [b]" by (cases "EncodeScalar c" rule: rev_cases) auto
    with False EncodeScalar_space_iff(2) [of c] snoc.prems have "b \<noteq> 0x20" by simp
    with b False trim_end_simps(2) [of "utf8 cs @ bs" b] show ?thesis by simp
  qed
qed simp

lemma trim_end_prefix: "\<exists>ys. xs = trim_end xs @ ys \<and> list_all blank ys"
proof (induction xs rule: rev_induct)
  case (snoc x xs)
  then obtain ys where "xs = trim_end xs @ ys" "list_all blank ys" by blast
  then show ?case by (cases "blank x") (auto intro: exI [of _ "ys @ [x]"])
qed simp

lemma dropWhile_suffix: "\<exists>ys. xs = ys @ dropWhile blank xs \<and> list_all blank ys"
  by (intro exI [of _ "takeWhile blank xs"]) (auto simp: list_all_iff dest: set_takeWhileD)

lemma list_ex_trimmed:
  assumes "xs = ys @ zs @ ws" and "list_all blank ys" and "list_all blank ws"
    and "list_ex (VisibleScalar allow) xs"
  shows "list_ex (VisibleScalar allow) zs"
  using assms by (auto simp: list_ex_iff list_all_iff VisibleScalar_def)

lemma Clean_speech:
  assumes "ValidateNpcAgentSpeechText text"
  shows "ValidateNpcAgentSpeechText (CleanNpcAgentSpeechText text)"
    and "\<exists>pre post. text = pre @ CleanNpcAgentSpeechText text @ post \<and> list_all blank pre \<and> list_all blank post"
proof -
  obtain cs where c: "text = utf8 cs" "list_all (plain_scalar False) cs" "list_ex (VisibleScalar False) cs"
      "length text \<le> MaxTextBytes" "length cs \<le> MaxTextCharacters"
    using assms by (auto simp: ValidateNpcAgentSpeechText_def ValidateNpcAgentPlainText_iff)
  have clean: "CleanNpcAgentSpeechText text = trim_end (dropWhile blank text)"
    using assms by (simp add: CleanNpcAgentSpeechText_def trim_end_def)
  obtain pre where f: "text = pre @ dropWhile blank text" "list_all blank pre"
    using dropWhile_suffix by blast
  obtain post where b: "dropWhile blank text = trim_end (dropWhile blank text) @ post" "list_all blank post"
    using trim_end_prefix by blast
  show "\<exists>pre post. text = pre @ CleanNpcAgentSpeechText text @ post \<and> list_all blank pre \<and> list_all blank post"
    using f b clean by metis
  let ?t = "trim_end (dropWhile blank cs)"
  obtain ys zs where y: "cs = ys @ ?t @ zs" "list_all blank ys" "list_all blank zs"
    using dropWhile_suffix [of cs] trim_end_prefix [of "dropWhile blank cs"] by metis
  have s: "list_all is_scalar cs" "list_all is_scalar (dropWhile blank cs)"
    using c(2) by (auto simp: list_all_iff plain_scalar_def dest: set_dropWhileD)
  have e: "CleanNpcAgentSpeechText text = utf8 ?t"
    using clean c(1) dropWhile_utf8 [OF s(1)] trim_end_utf8 [OF s(2)] by simp
  have p: "list_all (plain_scalar False) ?t" using c(2) y(1) by (metis list_all_append)
  have v: "list_ex (VisibleScalar False) ?t" by (rule list_ex_trimmed [OF y c(3)])
  have "length (utf8 ?t) \<le> length (utf8 cs)" by (subst (2) y(1)) simp
  moreover have "length ?t \<le> length cs" by (subst (2) y(1)) simp
  ultimately show "ValidateNpcAgentSpeechText (CleanNpcAgentSpeechText text)"
    unfolding e ValidateNpcAgentSpeechText_def ValidateNpcAgentPlainText_iff
    using p v c(1,4,5) by (intro exI [of _ ?t]) simp
qed

section \<open>Properties\<close>

text \<open>
  C33: Decoding one UTF-8 sequence succeeds exactly on what the code's own encoder writes: the
  decoder returns scalar c with the rest r if and only if the text is the encoding of c followed by
  r and c is a Unicode scalar value. So no overlong form, surrogate or truncated sequence is
  accepted, and every text has one reading.
\<close>
theorem utf8_roundtrip:
  "DecodeScalar text = Some (c, rest) \<longleftrightarrow> text = EncodeScalar c @ rest \<and> is_scalar c"
  by (rule DecodeScalar_iff)

text \<open>
  \<open>ValidateNpcAgentPlainText\<close> accepts exactly the texts that are the UTF-8 encoding of at most
  \<open>maxCharacters\<close> scalars in at most \<open>maxBytes\<close> bytes, none of them a control character, the pipe of
  the client's markup or an invisible or bidirectional mark, and at least one of them visible.
\<close>
theorem plain_text_exact:
  "ValidateNpcAgentPlainText text maxBytes maxCharacters allow \<longleftrightarrow>
     (\<exists>cs. text = utf8 cs \<and> list_all (plain_scalar allow) cs \<and> list_ex (VisibleScalar allow) cs \<and>
        length text \<le> maxBytes \<and> length cs \<le> maxCharacters)"
  by (rule ValidateNpcAgentPlainText_iff)

text \<open>
  C32: On every byte string, valid or not, normalisation of speech reads no byte beyond the text and
  returns a normal form: normalising it again changes nothing, it is empty or valid speech itself,
  and it is no longer than the text.
\<close>
theorem speech_normal_form:
  "\<exists>r. NormalizeNpcAgentSpeech text = Some r \<and> NormalizeNpcAgentSpeech r = Some r \<and>
     (r = [] \<or> ValidateNpcAgentSpeechText r) \<and> length r \<le> length text"
  by (rule Normalize_normal)

end
