(* ===== verification/Npc_Dialogue.thy ===== *)
theory Npc_Dialogue
  imports Npc_Text Std_Map "HOL-Library.Sublist"
begin

text \<open>
  What an NPC agent says and hears (\<open>Agent/NpcAgentDialogue.h\<close>, \<open>Agent/NpcAgentSpeechState.h\<close>): the
  bounded history of lines, the world-wide guard on conversations, and the speech state of one
  agent with its pending turns, private conversations and recent public remarks. Methods return
  their result with the new state, because even the checks move the clock watermark. A
  \<open>std::unordered_set\<close> of utterances is the list of its elements in insertion order.
\<close>

definition MaxHistoryLines :: nat where "MaxHistoryLines = 12"
definition MaxConversations :: nat where "MaxConversations = 128"
definition MaxHop :: u32 where "MaxHop = 3"
definition MaxUtterances :: nat where "MaxUtterances = 8"
definition ConversationTtlMs :: u64 where "ConversationTtlMs = 60000"
definition NpcCooldownMs :: u64 where "NpcCooldownMs = 2000"

record NpcAgentSpeech =
  sp_ConversationId :: u64
  sp_UtteranceId :: u64
  sp_Speaker :: u64
  sp_Kind :: string
  sp_SpeakerName :: bytes
  sp_Text :: bytes
  sp_AtMs :: u64
  sp_Hop :: u32

definition ValidateNpcAgentSpeech :: "NpcAgentSpeech \<Rightarrow> bool" where
  "ValidateNpcAgentSpeech speech =
     (sp_ConversationId speech \<noteq> 0 \<and> sp_UtteranceId speech \<noteq> 0 \<and>
      (sp_Kind speech = ''PLAYER'' \<or> sp_Kind speech = ''NPC'' \<or> sp_Kind speech = ''SELF'') \<and>
      (sp_Kind speech = ''PLAYER'' \<or> sp_Speaker speech \<noteq> 0) \<and>
      sp_Hop speech \<le> MaxHop \<and>
      ValidateNpcAgentPlainText (sp_SpeakerName speech) MaxNameBytes MaxNameCharacters False \<and>
      ValidateNpcAgentSpeechText (sp_Text speech))"

section \<open>The history of one agent\<close>

type_synonym NpcAgentDialogueHistory = "NpcAgentSpeech list"

definition History_Remember :: "NpcAgentSpeech \<Rightarrow> NpcAgentDialogueHistory \<Rightarrow> bool \<times> NpcAgentDialogueHistory" where
  "History_Remember speech lines =
     (if \<not> ValidateNpcAgentSpeech speech then (False, lines)
      else if list_ex (\<lambda>existing. sp_UtteranceId existing = sp_UtteranceId speech \<and>
          sp_ConversationId existing = sp_ConversationId speech) lines then (False, lines)
      else let kept = (if length lines = MaxHistoryLines then tl lines else lines)
           in (True, kept @ [speech\<lparr>sp_Text := CleanNpcAgentSpeechText (sp_Text speech)\<rparr>]))"

section \<open>The guard on all NPC emissions\<close>

record Conversation =
  cv_StartedAtMs :: u64
  cv_Utterances :: "u64 list"

record NpcAgentConversationGuard =
  cg_conversations :: "(u64, Conversation) omap"
  cg_lastNpcSpeech :: "(u64, u64) omap"
  cg_lastObservedMs :: u64

definition Guard_init :: NpcAgentConversationGuard where
  "Guard_init = \<lparr>cg_conversations = [], cg_lastNpcSpeech = [], cg_lastObservedMs = 0\<rparr>"

definition Guard_Expire :: "u64 \<Rightarrow> NpcAgentConversationGuard \<Rightarrow> NpcAgentConversationGuard" where
  "Guard_Expire nowMs g =
     (if nowMs < cg_lastObservedMs g then g
      else g\<lparr>cg_lastObservedMs := nowMs,
         cg_conversations := filter (\<lambda>(k, c). \<not> (nowMs \<ge> cv_StartedAtMs c \<and> nowMs - cv_StartedAtMs c \<ge> ConversationTtlMs))
           (cg_conversations g),
         cg_lastNpcSpeech := filter (\<lambda>(k, t). \<not> (nowMs \<ge> t \<and> nowMs - t \<ge> NpcCooldownMs)) (cg_lastNpcSpeech g)\<rparr>)"

definition Guard_Admit :: "NpcAgentSpeech \<Rightarrow> u64 \<Rightarrow> NpcAgentConversationGuard \<Rightarrow> bool \<times> NpcAgentConversationGuard" where
  "Guard_Admit speech nowMs g0 =
     (if nowMs < cg_lastObservedMs g0 then (False, g0)
      else let g = Guard_Expire nowMs g0;
               conversation = om_find (cg_conversations g) (sp_ConversationId speech);
               previous = om_find (cg_lastNpcSpeech g) (sp_Speaker speech) in
        if \<not> ValidateNpcAgentSpeech speech \<or> sp_Kind speech \<noteq> ''NPC'' \<or> sp_Speaker speech = 0 \<or>
            sp_AtMs speech > nowMs \<or> nowMs - sp_AtMs speech \<ge> ConversationTtlMs then (False, g)
        else if (case conversation of None \<Rightarrow> False
                 | Some c \<Rightarrow> length (cv_Utterances c) \<ge> MaxUtterances \<or> sp_UtteranceId speech \<in> set (cv_Utterances c))
          then (False, g)
        else if conversation = None \<and> length (cg_conversations g) \<ge> MaxConversations then (False, g)
        else if (case previous of None \<Rightarrow> False
                 | Some t \<Rightarrow> nowMs < t \<or> nowMs - t < NpcCooldownMs) then (False, g)
        else if previous = None \<and> length (cg_lastNpcSpeech g) \<ge> MaxConversations * MaxUtterances then (False, g)
        else let c = (case conversation of None \<Rightarrow> \<lparr>cv_StartedAtMs = nowMs, cv_Utterances = []\<rparr> | Some c \<Rightarrow> c) in
          (True, g\<lparr>cg_conversations := om_put (sp_ConversationId speech)
                     (c\<lparr>cv_Utterances := cv_Utterances c @ [sp_UtteranceId speech]\<rparr>) (cg_conversations g),
                   cg_lastNpcSpeech := om_put (sp_Speaker speech) nowMs (cg_lastNpcSpeech g)\<rparr>))"

section \<open>The speech state of one agent\<close>

record NpcAgentPendingTurn =
  pt_Id :: u64
  pt_Partner :: ObjectGuid
  pt_Name :: bytes
  pt_Text :: bytes
  pt_AtMs :: u64

record PrivateConversation =
  pc_Partner :: ObjectGuid
  pc_History :: NpcAgentDialogueHistory
  pc_LastAtMs :: u64

record SentLine =
  sl_Text :: bytes
  sl_AtMs :: u64

record NpcAgentSpeechState =
  ss_PlayerTurn :: "NpcAgentPendingTurn option"
  ss_NpcTurn :: "NpcAgentPendingTurn option"
  ss_private :: "PrivateConversation list"
  ss_recentAmbient :: "SentLine list"
  ss_submittedScene :: "u64 option"
  ss_lastSpeechAtMs :: u64
  ss_observedAtMs :: u64
  ss_hasSpoken :: bool

definition Speech_init :: NpcAgentSpeechState where
  "Speech_init = \<lparr>ss_PlayerTurn = None, ss_NpcTurn = None, ss_private = [], ss_recentAmbient = [],
     ss_submittedScene = None, ss_lastSpeechAtMs = 0, ss_observedAtMs = 0, ss_hasSpoken = False\<rparr>"

definition PlayerTurnTtlMs :: u64 where "PlayerTurnTtlMs = 60000"
definition NpcTurnTtlMs :: u64 where "NpcTurnTtlMs = 15000"
definition AmbientIntervalMs :: u64 where "AmbientIntervalMs = 60000"
definition RepeatWindowMs :: u64 where "RepeatWindowMs = 120000"
definition MaxPrivatePartners :: nat where "MaxPrivatePartners = 4"
definition MaxRecentAmbient :: nat where "MaxRecentAmbient = 8"

text \<open>\<open>NormalizeNpcAgentSpeech\<close> always returns (\<open>speech_normal_form\<close>).\<close>

definition Normalized :: "bytes \<Rightarrow> bytes" where
  "Normalized text = the (NormalizeNpcAgentSpeech text)"

definition ValidTurn :: "NpcAgentPendingTurn \<Rightarrow> bool" where
  "ValidTurn turn = (pt_Id turn \<noteq> 0 \<and> \<not> IsEmpty (pt_Partner turn) \<and>
     ValidateNpcAgentPlainText (pt_Name turn) 80 32 False \<and> ValidateNpcAgentSpeechText (pt_Text turn))"

definition Fresh :: "NpcAgentPendingTurn \<Rightarrow> u64 \<Rightarrow> u64 \<Rightarrow> bool" where
  "Fresh turn nowMs ttl = (nowMs \<ge> pt_AtMs turn \<and> nowMs - pt_AtMs turn < ttl)"

definition MatchesTurn :: "NpcAgentPendingTurn option \<Rightarrow> u64 \<Rightarrow> ObjectGuid \<Rightarrow> u64 \<Rightarrow> u64 \<Rightarrow> bool" where
  "MatchesTurn turn i partner nowMs ttl =
     (case turn of None \<Rightarrow> False
      | Some t \<Rightarrow> i \<noteq> 0 \<and> i = pt_Id t \<and> partner = pt_Partner t \<and> Fresh t nowMs ttl)"

definition Speech_Observe :: "u64 \<Rightarrow> NpcAgentSpeechState \<Rightarrow> bool \<times> NpcAgentSpeechState" where
  "Speech_Observe nowMs s = (if nowMs < ss_observedAtMs s then (False, s) else (True, s\<lparr>ss_observedAtMs := nowMs\<rparr>))"

text \<open>\<open>FindPrivate\<close>: the position of the first conversation with the partner.\<close>

fun FindPrivate :: "ObjectGuid \<Rightarrow> PrivateConversation list \<Rightarrow> nat option" where
  "FindPrivate partner [] = None"
| "FindPrivate partner (c # cs) =
     (if pc_Partner c = partner then Some 0 else map_option Suc (FindPrivate partner cs))"

definition PrivateHistory :: "ObjectGuid \<Rightarrow> NpcAgentSpeechState \<Rightarrow> NpcAgentDialogueHistory option" where
  "PrivateHistory partner s = map_option (\<lambda>i. pc_History (ss_private s ! i)) (FindPrivate partner (ss_private s))"

text \<open>The private conversation with the partner of the turn, added when there is none.\<close>

definition PrivateFor :: "NpcAgentPendingTurn \<Rightarrow> PrivateConversation list \<Rightarrow> nat \<times> PrivateConversation list" where
  "PrivateFor turn conversations =
     (case FindPrivate (pt_Partner turn) conversations of
        Some i \<Rightarrow> (i, conversations)
      | None \<Rightarrow>
          let kept = (if length conversations = MaxPrivatePartners
                then erase_at (min_element pc_LastAtMs conversations) conversations else conversations)
          in (length kept, kept @ [\<lparr>pc_Partner = pt_Partner turn, pc_History = [], pc_LastAtMs = pt_AtMs turn\<rparr>]))"

definition PlayerLine :: "NpcAgentPendingTurn \<Rightarrow> NpcAgentSpeech" where
  "PlayerLine turn = \<lparr>sp_ConversationId = pt_Id turn, sp_UtteranceId = pt_Id turn, sp_Speaker = 0,
     sp_Kind = ''PLAYER'', sp_SpeakerName = pt_Name turn, sp_Text = pt_Text turn,
     sp_AtMs = pt_AtMs turn, sp_Hop = 0\<rparr>"

definition PinPlayer :: "NpcAgentPendingTurn \<Rightarrow> NpcAgentSpeechState \<Rightarrow> bool \<times> NpcAgentSpeechState" where
  "PinPlayer turn s =
     (if \<not> ValidTurn turn \<or> \<not> IsPlayer (pt_Partner turn) then (False, s)
      else if (case ss_PlayerTurn s of None \<Rightarrow> False | Some t \<Rightarrow> pt_Id t = pt_Id turn) then (False, s)
      else let (i, conversations) = PrivateFor turn (ss_private s);
               (remembered, history) = History_Remember (PlayerLine turn) (pc_History (conversations ! i)) in
        if \<not> remembered then (False, s\<lparr>ss_private := conversations\<rparr>)
        else (True, s\<lparr>ss_private := conversations[i := (conversations ! i)\<lparr>pc_History := history, pc_LastAtMs := pt_AtMs turn\<rparr>],
                      ss_PlayerTurn := Some turn, ss_NpcTurn := None\<rparr>))"

definition CanAmbient :: "u64 \<Rightarrow> bytes \<Rightarrow> NpcAgentSpeechState \<Rightarrow> bool \<times> NpcAgentSpeechState" where
  "CanAmbient nowMs text s0 =
     (let (observed, s) = Speech_Observe nowMs s0 in
      if \<not> observed \<or> ss_hasSpoken s \<and> nowMs - ss_lastSpeechAtMs s < AmbientIntervalMs then (False, s)
      else if text = [] then (True, s)
      else if Normalized text = [] then (False, s)
      else if list_ex (\<lambda>sent. nowMs \<ge> sl_AtMs sent \<and> nowMs - sl_AtMs sent < RepeatWindowMs \<and>
          sl_Text sent = Normalized text) (ss_recentAmbient s) then (False, s)
      else (True, s))"

definition PinNpc :: "NpcAgentPendingTurn \<Rightarrow> u64 \<Rightarrow> NpcAgentSpeechState \<Rightarrow> bool \<times> NpcAgentSpeechState" where
  "PinNpc turn nowMs s =
     (if ss_PlayerTurn s \<noteq> None \<or> \<not> ValidTurn turn \<or> \<not> IsCreature (pt_Partner turn) \<or>
         \<not> Fresh turn nowMs NpcTurnTtlMs then (False, s)
      else let (ok, s') = CanAmbient nowMs [] s in
        if \<not> ok then (False, s') else (True, s'\<lparr>ss_NpcTurn := Some turn\<rparr>))"

definition Speech_Expire :: "u64 \<Rightarrow> bool \<Rightarrow> NpcAgentSpeechState \<Rightarrow> bool \<times> NpcAgentSpeechState" where
  "Speech_Expire nowMs playerConnected s0 =
     (let (observed, s) = Speech_Observe nowMs s0 in
      if \<not> observed then (False, s)
      else let dropPlayer = (case ss_PlayerTurn s of None \<Rightarrow> False
                 | Some t \<Rightarrow> \<not> playerConnected \<or> \<not> Fresh t nowMs PlayerTurnTtlMs);
               dropNpc = (case ss_NpcTurn s of None \<Rightarrow> False | Some t \<Rightarrow> \<not> Fresh t nowMs NpcTurnTtlMs)
           in (dropPlayer \<or> dropNpc,
               s\<lparr>ss_PlayerTurn := (if dropPlayer then None else ss_PlayerTurn s),
                 ss_NpcTurn := (if dropNpc then None else ss_NpcTurn s)\<rparr>))"

definition CanSend :: "string \<Rightarrow> u64 \<Rightarrow> ObjectGuid \<Rightarrow> bytes \<Rightarrow> u64 \<Rightarrow> NpcAgentSpeechState \<Rightarrow> bool \<times> NpcAgentSpeechState" where
  "CanSend mode turnId partner text nowMs s0 =
     (let (observed, s) = Speech_Observe nowMs s0 in
      if \<not> observed \<or> \<not> ValidateNpcAgentSpeechText text then (False, s)
      else if mode = ''PLAYER_REPLY'' then (MatchesTurn (ss_PlayerTurn s) turnId partner nowMs PlayerTurnTtlMs, s)
      else if mode = ''NPC_REPLY'' then
        (if ss_PlayerTurn s = None \<and> MatchesTurn (ss_NpcTurn s) turnId partner nowMs NpcTurnTtlMs
         then CanAmbient nowMs text s else (False, s))
      else if mode = ''INITIATE'' \<and> ss_PlayerTurn s = None \<and> ss_NpcTurn s = None \<and> turnId = 0 \<and> IsEmpty partner
        then CanAmbient nowMs text s
      else (False, s))"

text \<open>The repeat window of the recent lines, as \<open>CommitSent\<close> trims it.\<close>

definition RememberSent :: "bytes \<Rightarrow> u64 \<Rightarrow> SentLine list \<Rightarrow> SentLine list" where
  "RememberSent text nowMs recent =
     (let kept = dropWhile (\<lambda>sent. nowMs - sl_AtMs sent \<ge> RepeatWindowMs) recent;
          kept' = (if length kept = MaxRecentAmbient then tl kept else kept)
      in kept' @ [\<lparr>sl_Text = Normalized text, sl_AtMs = nowMs\<rparr>])"

definition CommitSent :: "string \<Rightarrow> u64 \<Rightarrow> ObjectGuid \<Rightarrow> NpcAgentSpeech \<Rightarrow> u64 \<Rightarrow> NpcAgentSpeechState \<Rightarrow> bool \<times> NpcAgentSpeechState" where
  "CommitSent mode turnId partner line nowMs s0 =
     (let (ok, s) = CanSend mode turnId partner (sp_Text line) nowMs s0 in
      if \<not> ok then (False, s)
      else let s1 = (if mode = ''PLAYER_REPLY''
             then (case FindPrivate partner (ss_private s) of None \<Rightarrow> s
                   | Some i \<Rightarrow>
                       let c = ss_private s ! i;
                           history = snd (History_Remember (line\<lparr>sp_Kind := ''SELF''\<rparr>) (pc_History c))
                       in s\<lparr>ss_private := (ss_private s)[i := c\<lparr>pc_History := history, pc_LastAtMs := nowMs\<rparr>]\<rparr>)
                  \<lparr>ss_PlayerTurn := None\<rparr>
             else if mode = ''NPC_REPLY'' then s\<lparr>ss_NpcTurn := None\<rparr> else s)
           in (True, s1\<lparr>ss_recentAmbient := RememberSent (sp_Text line) nowMs (ss_recentAmbient s1),
                        ss_hasSpoken := True, ss_lastSpeechAtMs := nowMs\<rparr>))"

definition CanInitiate :: "u64 \<Rightarrow> bool \<Rightarrow> u64 \<Rightarrow> NpcAgentSpeechState \<Rightarrow> bool \<times> NpcAgentSpeechState" where
  "CanInitiate scene audience nowMs s =
     (if ss_PlayerTurn s \<noteq> None \<or> ss_NpcTurn s \<noteq> None \<or> \<not> audience then (False, s)
      else let (ok, s') = CanAmbient nowMs [] s
           in (ok \<and> (case ss_submittedScene s' of None \<Rightarrow> True | Some submitted \<Rightarrow> submitted \<noteq> scene), s'))"

definition SubmittedInitiation :: "u64 \<Rightarrow> NpcAgentSpeechState \<Rightarrow> NpcAgentSpeechState" where
  "SubmittedInitiation scene s = s\<lparr>ss_submittedScene := Some scene\<rparr>"

section \<open>Runs of the guard\<close>

datatype guard_op = Op_Admit NpcAgentSpeech u64 | Op_Expire u64 | Op_Clear

text \<open>The guard with the emissions it admitted since it was last cleared, oldest first.\<close>

type_synonym admission = "u64 \<times> NpcAgentSpeech"

fun guard_step :: "NpcAgentConversationGuard \<times> admission list \<Rightarrow> guard_op \<Rightarrow> NpcAgentConversationGuard \<times> admission list" where
  "guard_step (g, adm) (Op_Admit speech now) =
     (let (ok, g') = Guard_Admit speech now g in (g', if ok then adm @ [(now, speech)] else adm))"
| "guard_step (g, adm) (Op_Expire now) = (Guard_Expire now g, adm)"
| "guard_step (g, adm) Op_Clear = (Guard_init, [])"

definition guard_run :: "guard_op list \<Rightarrow> NpcAgentConversationGuard \<times> admission list" where
  "guard_run ops = fold (\<lambda>op s. guard_step s op) ops (Guard_init, [])"

text \<open>Two admissions in order: the clock does not go back, and a speaker pauses two seconds.\<close>

definition npc_spaced :: "admission \<Rightarrow> admission \<Rightarrow> bool" where
  "npc_spaced a b = (unat (fst a) \<le> unat (fst b) \<and>
     (sp_Speaker (snd a) = sp_Speaker (snd b) \<longrightarrow> unat (fst a) + 2000 \<le> unat (fst b)))"

text \<open>The utterances of a conversation that were admitted since the given time.\<close>

definition admitted_since :: "u64 \<Rightarrow> u64 \<Rightarrow> admission list \<Rightarrow> u64 list" where
  "admitted_since c start adm =
     map (\<lambda>e. sp_UtteranceId (snd e)) (filter (\<lambda>e. sp_ConversationId (snd e) = c \<and> start \<le> fst e) adm)"

definition live_conversation :: "u64 \<Rightarrow> admission list \<Rightarrow> u64 \<times> Conversation \<Rightarrow> bool" where
  "live_conversation now adm e = (case e of (k, c) \<Rightarrow>
     unat (cv_StartedAtMs c) \<le> unat now \<and> unat now < unat (cv_StartedAtMs c) + 60000 \<and>
     cv_Utterances c = admitted_since k (cv_StartedAtMs c) adm \<and>
     distinct (cv_Utterances c) \<and> length (cv_Utterances c) \<le> MaxUtterances)"

definition guard_ok :: "NpcAgentConversationGuard \<times> admission list \<Rightarrow> bool" where
  "guard_ok s = (case s of (g, adm) \<Rightarrow>
     om_wf (cg_conversations g) \<and> om_wf (cg_lastNpcSpeech g) \<and>
     length (cg_conversations g) \<le> MaxConversations \<and>
     length (cg_lastNpcSpeech g) \<le> MaxConversations * MaxUtterances \<and>
     sorted_wrt npc_spaced adm \<and>
     list_all (\<lambda>e. fst e \<le> cg_lastObservedMs g) adm \<and>
     list_all (live_conversation (cg_lastObservedMs g) adm) (cg_conversations g))"

text \<open>What the tables remember of the adm.\<close>

definition guard_remembers :: "NpcAgentConversationGuard \<times> admission list \<Rightarrow> bool" where
  "guard_remembers s = (case s of (g, adm) \<Rightarrow>
     (\<forall>e \<in> set adm.
        (case om_find (cg_lastNpcSpeech g) (sp_Speaker (snd e)) of
           Some t \<Rightarrow> fst e \<le> t | None \<Rightarrow> unat (fst e) + 2000 \<le> unat (cg_lastObservedMs g)) \<and>
        (om_find (cg_conversations g) (sp_ConversationId (snd e)) = None \<longrightarrow> fst e < cg_lastObservedMs g)) \<and>
     (\<forall>k t. om_find (cg_lastNpcSpeech g) k = Some t \<longrightarrow>
        t \<le> cg_lastObservedMs g \<and> unat (cg_lastObservedMs g) < unat t + 2000))"

lemma elapsed_iff:
  assumes "n < 2 ^ 64"
  shows "t \<le> (now :: u64) \<and> of_nat n \<le> now - t \<longleftrightarrow> unat t + n \<le> unat now"
proof (cases "t \<le> now")
  case True
  then have "unat (now - t) = unat now - unat t" and "unat t \<le> unat now"
    by (simp_all add: word_le_nat_alt unat_sub_if')
  moreover have "unat (of_nat n :: u64) = n" using assms by (simp add: unsigned_of_nat take_bit_nat_eq_self)
  ultimately have "of_nat n \<le> now - t \<longleftrightarrow> n \<le> unat now - unat t" by (simp only: word_le_nat_alt)
  with True \<open>unat t \<le> unat now\<close> show ?thesis by linarith
next
  case False
  then have "\<not> unat t \<le> unat now" by (simp only: word_le_nat_alt not_False_eq_True)
  with False show ?thesis by linarith
qed

lemmas elapsed_facts = elapsed_iff [of 60000, simplified] elapsed_iff [of 2000, simplified]

lemma guard_ok_Expire:
  assumes "guard_ok (g, adm)" and "guard_remembers (g, adm)"
  shows "guard_ok (Guard_Expire now g, adm)" and "guard_remembers (Guard_Expire now g, adm)"
proof -
  let ?g = "Guard_Expire now g"
  have ok: "guard_ok (?g, adm) \<and> guard_remembers (?g, adm)"
  proof (cases "now < cg_lastObservedMs g")
    case True
    with assms show ?thesis by (simp add: Guard_Expire_def)
  next
    case False
    then have later: "cg_lastObservedMs g \<le> now" by simp
    have wf: "om_wf (cg_conversations g)" "om_wf (cg_lastNpcSpeech g)" using assms by (simp_all add: guard_ok_def)
    have start: "unat (cv_StartedAtMs c) \<le> unat (cg_lastObservedMs g)" if "(k, c) \<in> set (cg_conversations g)" for k c
      using assms(1) that by (auto simp: guard_ok_def live_conversation_def list_all_iff word_le_nat_alt)
    have said: "t \<le> cg_lastObservedMs g" if "om_find (cg_lastNpcSpeech g) k = Some t" for k t
      using assms(2) that by (simp add: guard_remembers_def)
    have fields: "cg_lastObservedMs ?g = now"
      "cg_conversations ?g = filter (\<lambda>(k, c). \<not> unat (cv_StartedAtMs c) + 60000 \<le> unat now) (cg_conversations g)"
      "cg_lastNpcSpeech ?g = filter (\<lambda>(k, t). \<not> unat t + 2000 \<le> unat now) (cg_lastNpcSpeech g)"
      using False by (auto simp: Guard_Expire_def ConversationTtlMs_def NpcCooldownMs_def elapsed_facts)
    have find: "om_find (cg_conversations ?g) k = (case om_find (cg_conversations g) k of None \<Rightarrow> None
        | Some c \<Rightarrow> if unat (cv_StartedAtMs c) + 60000 \<le> unat now then None else Some c)"
      "om_find (cg_lastNpcSpeech ?g) k = (case om_find (cg_lastNpcSpeech g) k of None \<Rightarrow> None
        | Some t \<Rightarrow> if unat t + 2000 \<le> unat now then None else Some t)" for k
      unfolding fields using wf by (auto simp: om_find_filter_case split: option.splits)
    have "guard_ok (?g, adm)"
      using assms(1) later wf start
      by (auto simp: guard_ok_def fields om_wf_filter list_all_iff live_conversation_def word_le_nat_alt
          intro: le_trans [OF length_filter_le] le_trans [OF start])
    moreover have "guard_remembers (?g, adm)"
      unfolding guard_remembers_def prod.case
    proof (intro conjI ballI allI impI)
      fix e assume e: "e \<in> set adm"
      with assms(1) have te: "fst e \<le> cg_lastObservedMs g" by (simp add: guard_ok_def list_all_iff)
      show "case om_find (cg_lastNpcSpeech ?g) (sp_Speaker (snd e)) of
          None \<Rightarrow> unat (fst e) + 2000 \<le> unat (cg_lastObservedMs ?g) | Some t \<Rightarrow> fst e \<le> t"
        using assms(2) e later by (auto simp: guard_remembers_def find fields(1) word_le_nat_alt split: option.splits)
      show "fst e < cg_lastObservedMs ?g"
        if "om_find (cg_conversations ?g) (sp_ConversationId (snd e)) = None"
      proof (cases "om_find (cg_conversations g) (sp_ConversationId (snd e))")
        case None
        with assms(2) e have "fst e < cg_lastObservedMs g" by (simp add: guard_remembers_def)
        with later show ?thesis by (simp add: fields(1))
      next
        case (Some c)
        with that have "unat (cv_StartedAtMs c) + 60000 \<le> unat now" by (simp add: find split: if_splits)
        moreover have "unat (cg_lastObservedMs g) < unat (cv_StartedAtMs c) + 60000"
          using assms(1) om_find_in [OF Some] by (auto simp: guard_ok_def list_all_iff live_conversation_def)
        ultimately show ?thesis using te by (simp add: fields(1) word_le_nat_alt word_less_nat_alt)
      qed
    next
      fix k t assume "om_find (cg_lastNpcSpeech ?g) k = Some t"
      then show "t \<le> cg_lastObservedMs ?g" and "unat (cg_lastObservedMs ?g) < unat t + 2000"
        using said [of k] later by (auto simp: find fields(1) split: option.splits if_splits)
    qed
    ultimately show ?thesis by simp
  qed
  then show "guard_ok (?g, adm)" "guard_remembers (?g, adm)" by simp_all
qed

lemma admitted_since_snoc:
  "admitted_since k start (adm @ [(now, speech)]) =
     admitted_since k start adm @ (if sp_ConversationId speech = k \<and> start \<le> now then [sp_UtteranceId speech] else [])"
  by (simp add: admitted_since_def)

text \<open>What the tables and the speech satisfy when an emission is admitted.\<close>

lemma Guard_Admit_True:
  assumes "Guard_Admit speech now g0 = (True, g')" and rem: "guard_remembers (Guard_Expire now g0, adm)"
  shows "cg_lastObservedMs (Guard_Expire now g0) = now"
    and "ValidateNpcAgentSpeech speech" and "sp_Kind speech = ''NPC''"
    and "om_find (cg_lastNpcSpeech (Guard_Expire now g0)) (sp_Speaker speech) = None"
    and "length (cg_lastNpcSpeech (Guard_Expire now g0)) < MaxConversations * MaxUtterances"
    and "\<exists>c. g' = (Guard_Expire now g0)\<lparr>
           cg_conversations := om_put (sp_ConversationId speech)
             (c\<lparr>cv_Utterances := cv_Utterances c @ [sp_UtteranceId speech]\<rparr>) (cg_conversations (Guard_Expire now g0)),
           cg_lastNpcSpeech := om_put (sp_Speaker speech) now (cg_lastNpcSpeech (Guard_Expire now g0))\<rparr> \<and>
         (case om_find (cg_conversations (Guard_Expire now g0)) (sp_ConversationId speech) of
            None \<Rightarrow> c = \<lparr>cv_StartedAtMs = now, cv_Utterances = []\<rparr> \<and>
              length (cg_conversations (Guard_Expire now g0)) < MaxConversations
          | Some c' \<Rightarrow> c = c' \<and> length (cv_Utterances c) < MaxUtterances \<and>
              sp_UtteranceId speech \<notin> set (cv_Utterances c))"
proof -
  let ?g = "Guard_Expire now g0"
  have now: "\<not> now < cg_lastObservedMs g0" using assms(1) by (auto simp: Guard_Admit_def)
  then show l: "cg_lastObservedMs ?g = now" by (simp add: Guard_Expire_def)
  show "ValidateNpcAgentSpeech speech" "sp_Kind speech = ''NPC''"
    using assms(1) now by (auto simp: Guard_Admit_def Let_def split: if_splits)
  show quiet: "om_find (cg_lastNpcSpeech ?g) (sp_Speaker speech) = None"
  proof (rule ccontr)
    assume "om_find (cg_lastNpcSpeech ?g) (sp_Speaker speech) \<noteq> None"
    then obtain t where t: "om_find (cg_lastNpcSpeech ?g) (sp_Speaker speech) = Some t" by auto
    with rem l have "t \<le> now" "unat now < unat t + 2000" by (auto simp: guard_remembers_def)
    then have "now - t < NpcCooldownMs" using elapsed_facts(2) [of t now] by (auto simp: NpcCooldownMs_def)
    with assms(1) now t show False by (auto simp: Guard_Admit_def Let_def split: if_splits)
  qed
  show "length (cg_lastNpcSpeech ?g) < MaxConversations * MaxUtterances"
    using assms(1) now quiet by (auto simp: Guard_Admit_def Let_def split: if_splits)
  show "\<exists>c. g' = ?g\<lparr>
           cg_conversations := om_put (sp_ConversationId speech)
             (c\<lparr>cv_Utterances := cv_Utterances c @ [sp_UtteranceId speech]\<rparr>) (cg_conversations ?g),
           cg_lastNpcSpeech := om_put (sp_Speaker speech) now (cg_lastNpcSpeech ?g)\<rparr> \<and>
         (case om_find (cg_conversations ?g) (sp_ConversationId speech) of
            None \<Rightarrow> c = \<lparr>cv_StartedAtMs = now, cv_Utterances = []\<rparr> \<and> length (cg_conversations ?g) < MaxConversations
          | Some c' \<Rightarrow> c = c' \<and> length (cv_Utterances c) < MaxUtterances \<and> sp_UtteranceId speech \<notin> set (cv_Utterances c))"
    using assms(1) now by (auto simp: Guard_Admit_def Let_def not_le split: if_splits option.splits)
qed

lemma guard_ok_Admit:
  assumes "guard_ok (g0, adm)" and "guard_remembers (g0, adm)" and adm: "Guard_Admit speech now g0 = (b, g')"
  shows "guard_ok (g', if b then adm @ [(now, speech)] else adm) \<and>
    guard_remembers (g', if b then adm @ [(now, speech)] else adm)"
proof -
  let ?g = "Guard_Expire now g0" and ?adm = "adm @ [(now, speech)]"
  have ok: "guard_ok (?g, adm)" and rem: "guard_remembers (?g, adm)" by (rule guard_ok_Expire [OF assms(1,2)])+
  show ?thesis
  proof (cases b)
    case False
    with adm have "g' = g0 \<or> g' = ?g" by (auto simp: Guard_Admit_def Let_def split: if_splits)
    with False ok rem assms(1,2) show ?thesis by auto
  next
    case True
    with adm have "Guard_Admit speech now g0 = (True, g')" by simp
    note T = Guard_Admit_True [OF this rem]
    have wf: "om_wf (cg_conversations ?g)" "om_wf (cg_lastNpcSpeech ?g)" using ok by (simp_all add: guard_ok_def)
    obtain c where g': "g' = ?g\<lparr>
        cg_conversations := om_put (sp_ConversationId speech)
          (c\<lparr>cv_Utterances := cv_Utterances c @ [sp_UtteranceId speech]\<rparr>) (cg_conversations ?g),
        cg_lastNpcSpeech := om_put (sp_Speaker speech) now (cg_lastNpcSpeech ?g)\<rparr>"
      and c: "case om_find (cg_conversations ?g) (sp_ConversationId speech) of
            None \<Rightarrow> c = \<lparr>cv_StartedAtMs = now, cv_Utterances = []\<rparr> \<and> length (cg_conversations ?g) < MaxConversations
          | Some c' \<Rightarrow> c = c' \<and> length (cv_Utterances c) < MaxUtterances \<and> sp_UtteranceId speech \<notin> set (cv_Utterances c)"
      using T(6) by blast
    have past: "fst e \<le> now" if "e \<in> set adm" for e using ok that T(1) by (auto simp: guard_ok_def list_all_iff)
    have live: "live_conversation now adm (k, d)" if "om_find (cg_conversations ?g) k = Some d" for k d
      using ok om_find_in [OF that] T(1) by (auto simp: guard_ok_def list_all_iff)
    have new: "live_conversation now ?adm (sp_ConversationId speech, c\<lparr>cv_Utterances := cv_Utterances c @ [sp_UtteranceId speech]\<rparr>)"
    proof (cases "om_find (cg_conversations ?g) (sp_ConversationId speech)")
      case None
      have "admitted_since (sp_ConversationId speech) now adm = []"
        using rem None T(1) by (auto simp: admitted_since_def guard_remembers_def filter_empty_conv)
      with c None show ?thesis by (simp add: live_conversation_def admitted_since_snoc MaxUtterances_def)
    next
      case (Some d)
      with c live [OF Some] show ?thesis
        by (auto simp: live_conversation_def admitted_since_snoc word_le_nat_alt)
    qed
    have others: "live_conversation now ?adm (k, d)" if "om_find (cg_conversations ?g) k = Some d" "k \<noteq> sp_ConversationId speech" for k d
      using live [OF that(1)] that(2) by (auto simp: live_conversation_def admitted_since_snoc)
    have "list_all (live_conversation now ?adm) (cg_conversations g')"
      unfolding list_all_iff
    proof (intro ballI)
      fix e assume m: "e \<in> set (cg_conversations g')"
      obtain k d where kd: "e = (k, d)" by (cases e)
      have "om_wf (cg_conversations g')" using wf by (simp add: g')
      with m kd have e: "e = (k, d)" "om_find (cg_conversations g') k = Some d" by (simp_all add: om_find_iff)
      with new others show "live_conversation now ?adm e"
        using wf by (auto simp: g' split: if_splits)
    qed
    moreover have "sorted_wrt npc_spaced ?adm"
      using ok rem T(1,4) past by (fastforce simp: guard_ok_def sorted_wrt_append npc_spaced_def guard_remembers_def word_le_nat_alt)
    moreover have "length (cg_conversations g') \<le> MaxConversations"
      using ok c wf by (cases "om_find (cg_conversations ?g) (sp_ConversationId speech)")
        (auto simp: g' guard_ok_def length_om_put_new length_om_put_old)
    moreover have "length (cg_lastNpcSpeech g') \<le> MaxConversations * MaxUtterances"
      using T(4,5) by (simp add: g' length_om_put_new)
    ultimately have "guard_ok (g', ?adm)"
      using wf past T(1) by (simp add: guard_ok_def g' list_all_iff)
    moreover have "guard_remembers (g', ?adm)"
      using rem T(1,4) past wf by (auto simp: guard_remembers_def g' split: option.splits if_splits)
    ultimately show ?thesis using True by simp
  qed
qed

lemma guard_run_ok:
  "guard_ok (guard_run ops) \<and> guard_remembers (guard_run ops) \<and>
     list_all (\<lambda>e. ValidateNpcAgentSpeech (snd e) \<and> sp_Kind (snd e) = ''NPC'') (snd (guard_run ops))"
proof (induction ops rule: rev_induct)
  case Nil
  show ?case by (simp add: guard_run_def Guard_init_def guard_ok_def guard_remembers_def)
next
  case (snoc op ops)
  obtain g adm where s: "guard_run ops = (g, adm)" by (cases "guard_run ops")
  then have run: "guard_run (ops @ [op]) = guard_step (g, adm) op" by (simp add: guard_run_def)
  show ?case
  proof (cases op)
    case (Op_Admit speech now)
    obtain b g' where a: "Guard_Admit speech now g = (b, g')" by (cases "Guard_Admit speech now g")
    have "b \<Longrightarrow> ValidateNpcAgentSpeech speech \<and> sp_Kind speech = ''NPC''"
      using a Guard_Admit_True(2,3) [of speech now g g'] guard_ok_Expire(2) [of g adm now] snoc s by auto
    with guard_ok_Admit [of g adm speech now b g'] a snoc s run Op_Admit show ?thesis by (cases b) auto
  next
    case (Op_Expire now)
    with snoc s run guard_ok_Expire [of g adm now] show ?thesis by simp
  next
    case Op_Clear
    with run show ?thesis by (simp add: Guard_init_def guard_ok_def guard_remembers_def)
  qed
qed

section \<open>Histories stay small, valid and free of duplicates\<close>

definition history_ok :: "NpcAgentDialogueHistory \<Rightarrow> bool" where
  "history_ok h = (length h \<le> MaxHistoryLines \<and>
     distinct (map (\<lambda>l. (sp_UtteranceId l, sp_ConversationId l)) h) \<and> list_all ValidateNpcAgentSpeech h)"

lemma history_ok_Nil [simp]: "history_ok []"
  by (simp add: history_ok_def)

lemma History_Remember_ok:
  assumes "history_ok h"
  shows "history_ok (snd (History_Remember speech h))"
proof (cases "fst (History_Remember speech h)")
  case False
  with assms show ?thesis by (auto simp: History_Remember_def Let_def split: if_splits)
next
  case True
  then have v: "ValidateNpcAgentSpeech speech"
    and new: "(sp_UtteranceId speech, sp_ConversationId speech) \<notin> set (map (\<lambda>l. (sp_UtteranceId l, sp_ConversationId l)) h)"
    by (auto simp: History_Remember_def Let_def list_ex_iff split: if_splits)
  define kept where "kept = (if length h = MaxHistoryLines then tl h else h)"
  have "snd (History_Remember speech h) = kept @ [speech\<lparr>sp_Text := CleanNpcAgentSpeechText (sp_Text speech)\<rparr>]"
    using True by (simp add: History_Remember_def Let_def kept_def split: if_splits)
  moreover have "set kept \<subseteq> set h" by (cases h) (auto simp: kept_def)
  moreover have "distinct (map (\<lambda>l. (sp_UtteranceId l, sp_ConversationId l)) kept)"
    using assms by (cases h) (auto simp: kept_def history_ok_def)
  moreover have "length kept < MaxHistoryLines"
    using assms by (cases h) (auto simp: kept_def history_ok_def MaxHistoryLines_def)
  ultimately show ?thesis
    using assms new v Clean_speech(1) [of "sp_Text speech"]
    by (auto simp: history_ok_def list_all_iff ValidateNpcAgentSpeech_def)
qed

lemma History_Remember_exact:
  "fst (History_Remember speech h) \<Longrightarrow>
     last (snd (History_Remember speech h)) = speech\<lparr>sp_Text := CleanNpcAgentSpeechText (sp_Text speech)\<rparr>"
  by (auto simp: History_Remember_def Let_def split: if_splits)

section \<open>Runs of the speech state\<close>

datatype speech_op =
    Sp_PinPlayer NpcAgentPendingTurn
  | Sp_PinNpc NpcAgentPendingTurn u64
  | Sp_Expire u64 bool
  | Sp_CanAmbient u64 bytes
  | Sp_CanSend string u64 ObjectGuid bytes u64
  | Sp_CommitSent string u64 ObjectGuid NpcAgentSpeech u64
  | Sp_CanInitiate u64 bool u64
  | Sp_Submitted u64

record sent_line =
  sn_Mode :: string
  sn_TurnId :: u64
  sn_Partner :: ObjectGuid
  sn_Text :: bytes
  sn_AtMs :: u64

text \<open>The state with the lines that were sent and the player turns that were accepted.\<close>

record speech_trace =
  tr_state :: NpcAgentSpeechState
  tr_sent :: "sent_line list"
  tr_pinned :: "NpcAgentPendingTurn list"

fun speech_step :: "speech_op \<Rightarrow> speech_trace \<Rightarrow> speech_trace" where
  "speech_step (Sp_PinPlayer turn) t =
     (let (ok, s) = PinPlayer turn (tr_state t) in
      t\<lparr>tr_state := s, tr_pinned := tr_pinned t @ (if ok then [turn] else [])\<rparr>)"
| "speech_step (Sp_PinNpc turn now) t = t\<lparr>tr_state := snd (PinNpc turn now (tr_state t))\<rparr>"
| "speech_step (Sp_Expire now online) t = t\<lparr>tr_state := snd (Speech_Expire now online (tr_state t))\<rparr>"
| "speech_step (Sp_CanAmbient now text) t = t\<lparr>tr_state := snd (CanAmbient now text (tr_state t))\<rparr>"
| "speech_step (Sp_CanSend mode i partner text now) t = t\<lparr>tr_state := snd (CanSend mode i partner text now (tr_state t))\<rparr>"
| "speech_step (Sp_CommitSent mode i partner line now) t =
     (let (ok, s) = CommitSent mode i partner line now (tr_state t) in
      t\<lparr>tr_state := s, tr_sent := tr_sent t @ (if ok then
          [\<lparr>sn_Mode = mode, sn_TurnId = i, sn_Partner = partner, sn_Text = sp_Text line, sn_AtMs = now\<rparr>] else [])\<rparr>)"
| "speech_step (Sp_CanInitiate scene audience now) t = t\<lparr>tr_state := snd (CanInitiate scene audience now (tr_state t))\<rparr>"
| "speech_step (Sp_Submitted scene) t = t\<lparr>tr_state := SubmittedInitiation scene (tr_state t)\<rparr>"

definition speech_run :: "speech_op list \<Rightarrow> speech_trace" where
  "speech_run ops = fold speech_step ops \<lparr>tr_state = Speech_init, tr_sent = [], tr_pinned = []\<rparr>"

text \<open>What an operation may do to the state besides moving the watermark forward.\<close>

definition watermarked :: "NpcAgentSpeechState \<Rightarrow> NpcAgentSpeechState \<Rightarrow> bool" where
  "watermarked s s' = (\<exists>w. ss_observedAtMs s \<le> w \<and> s' = s\<lparr>ss_observedAtMs := w\<rparr>)"

lemma watermarked_refl [simp]: "watermarked s s"
  by (auto simp: watermarked_def intro: exI [of _ "ss_observedAtMs s"])

lemma watermarked_trans: "watermarked a b \<Longrightarrow> watermarked b c \<Longrightarrow> watermarked a c"
proof -
  assume "watermarked a b" "watermarked b c"
  then obtain v w where "ss_observedAtMs a \<le> v" "b = a\<lparr>ss_observedAtMs := v\<rparr>" "v \<le> w" "c = a\<lparr>ss_observedAtMs := w\<rparr>"
    by (auto simp: watermarked_def)
  then show ?thesis by (auto simp: watermarked_def intro!: exI [of _ w])
qed

lemma Observe_watermarked: "watermarked s (snd (Speech_Observe now s))"
proof (cases "now < ss_observedAtMs s")
  case False
  then have "ss_observedAtMs s \<le> now" by simp
  with False show ?thesis by (auto simp: Speech_Observe_def watermarked_def intro!: exI [of _ now])
qed (simp add: Speech_Observe_def)

lemma CanAmbient_watermarked: "watermarked s (snd (CanAmbient now text s))"
  using Observe_watermarked [of s now] by (auto simp: CanAmbient_def Let_def split: prod.splits)

lemma CanSend_watermarked: "watermarked s (snd (CanSend mode i partner text now s))"
proof -
  let ?s = "snd (Speech_Observe now s)"
  have "snd (CanSend mode i partner text now s) = ?s \<or>
      snd (CanSend mode i partner text now s) = snd (CanAmbient now text ?s)"
    by (auto simp: CanSend_def split: prod.splits)
  with Observe_watermarked [of s now] CanAmbient_watermarked [of ?s now "text"] show ?thesis
    by (metis watermarked_trans)
qed

lemma CanInitiate_watermarked: "watermarked s (snd (CanInitiate scene audience now s))"
  using CanAmbient_watermarked [of s now "[]"] by (auto simp: CanInitiate_def split: prod.splits)

lemma watermarked_fields:
  assumes "watermarked s s'"
  shows "ss_PlayerTurn s' = ss_PlayerTurn s" "ss_NpcTurn s' = ss_NpcTurn s" "ss_private s' = ss_private s"
    "ss_recentAmbient s' = ss_recentAmbient s" "ss_lastSpeechAtMs s' = ss_lastSpeechAtMs s"
    "ss_hasSpoken s' = ss_hasSpoken s" "ss_observedAtMs s \<le> ss_observedAtMs s'"
  using assms by (auto simp: watermarked_def)

lemma Observe_True: "Speech_Observe now s = (True, s') \<longleftrightarrow> ss_observedAtMs s \<le> now \<and> s' = s\<lparr>ss_observedAtMs := now\<rparr>"
  by (auto simp: Speech_Observe_def)

text \<open>What has been checked when a public remark may be made.\<close>

lemma CanAmbient_True:
  assumes "CanAmbient now text s = (True, s')"
  shows "ss_observedAtMs s \<le> now" "s' = s\<lparr>ss_observedAtMs := now\<rparr>"
    "ss_hasSpoken s \<Longrightarrow> \<not> now - ss_lastSpeechAtMs s < AmbientIntervalMs"
    "text \<noteq> [] \<Longrightarrow> Normalized text \<noteq> []"
    "text \<noteq> [] \<Longrightarrow> sent \<in> set (ss_recentAmbient s) \<Longrightarrow> sl_Text sent = Normalized text \<Longrightarrow>
       sl_AtMs sent \<le> now \<Longrightarrow> \<not> now - sl_AtMs sent < RepeatWindowMs"
  using assms by (auto simp: CanAmbient_def Let_def Observe_True list_ex_iff split: prod.splits if_splits)

lemma speech_nonempty: "ValidateNpcAgentSpeechText text \<Longrightarrow> text \<noteq> []"
  by (auto simp: ValidateNpcAgentSpeechText_def ValidateNpcAgentPlainText_def)

text \<open>What has been checked when a line may be sent, by its mode.\<close>

lemma CanSend_True:
  assumes "CanSend mode i partner text now s = (True, s')"
  shows "ss_observedAtMs s \<le> now" "s' = s\<lparr>ss_observedAtMs := now\<rparr>" "ValidateNpcAgentSpeechText text"
    "mode = ''PLAYER_REPLY'' \<Longrightarrow> MatchesTurn (ss_PlayerTurn s) i partner now PlayerTurnTtlMs"
    "mode \<noteq> ''PLAYER_REPLY'' \<Longrightarrow> ss_PlayerTurn s = None"
    "mode \<noteq> ''PLAYER_REPLY'' \<Longrightarrow>
       mode = ''NPC_REPLY'' \<and> MatchesTurn (ss_NpcTurn s) i partner now NpcTurnTtlMs \<or>
       mode = ''INITIATE'' \<and> ss_NpcTurn s = None \<and> i = 0 \<and> IsEmpty partner"
    "mode \<noteq> ''PLAYER_REPLY'' \<Longrightarrow> ss_hasSpoken s \<Longrightarrow> \<not> now - ss_lastSpeechAtMs s < AmbientIntervalMs"
    "mode \<noteq> ''PLAYER_REPLY'' \<Longrightarrow> sent \<in> set (ss_recentAmbient s) \<Longrightarrow> sl_Text sent = Normalized text \<Longrightarrow>
       sl_AtMs sent \<le> now \<Longrightarrow> \<not> now - sl_AtMs sent < RepeatWindowMs"
proof -
  obtain ob s1 where o: "Speech_Observe now s = (ob, s1)" by (cases "Speech_Observe now s")
  with assms have ob: "ob" and v: "ValidateNpcAgentSpeechText text" by (auto simp: CanSend_def split: if_splits)
  with o have le: "ss_observedAtMs s \<le> now" and s1: "s1 = s\<lparr>ss_observedAtMs := now\<rparr>" by (simp_all add: Observe_True)
  show "ss_observedAtMs s \<le> now" "ValidateNpcAgentSpeechText text" by (rule le, rule v)
  have c: "(if mode = ''PLAYER_REPLY'' then (MatchesTurn (ss_PlayerTurn s1) i partner now PlayerTurnTtlMs, s1)
      else if mode = ''NPC_REPLY'' then
        (if ss_PlayerTurn s1 = None \<and> MatchesTurn (ss_NpcTurn s1) i partner now NpcTurnTtlMs
         then CanAmbient now text s1 else (False, s1))
      else if mode = ''INITIATE'' \<and> ss_PlayerTurn s1 = None \<and> ss_NpcTurn s1 = None \<and> i = 0 \<and> IsEmpty partner
        then CanAmbient now text s1
      else (False, s1)) = (True, s')"
    using assms o ob v by (simp add: CanSend_def)
  have amb: "CanAmbient now text s1 = (True, s') \<and> ss_PlayerTurn s = None" if "mode \<noteq> ''PLAYER_REPLY''"
    using c that by (auto simp: s1 split: if_splits)
  show "s' = s\<lparr>ss_observedAtMs := now\<rparr>"
    using c s1 CanAmbient_True(2) [of now "text" s1 s'] by (auto split: if_splits)
  show "mode = ''PLAYER_REPLY'' \<Longrightarrow> MatchesTurn (ss_PlayerTurn s) i partner now PlayerTurnTtlMs" using c s1 by simp
  show "mode \<noteq> ''PLAYER_REPLY'' \<Longrightarrow> ss_PlayerTurn s = None" using amb by simp
  show "mode \<noteq> ''PLAYER_REPLY'' \<Longrightarrow>
       mode = ''NPC_REPLY'' \<and> MatchesTurn (ss_NpcTurn s) i partner now NpcTurnTtlMs \<or>
       mode = ''INITIATE'' \<and> ss_NpcTurn s = None \<and> i = 0 \<and> IsEmpty partner"
    using c s1 by (auto split: if_splits)
  show "mode \<noteq> ''PLAYER_REPLY'' \<Longrightarrow> ss_hasSpoken s \<Longrightarrow> \<not> now - ss_lastSpeechAtMs s < AmbientIntervalMs"
    using amb CanAmbient_True(3) [of now "text" s1 s'] s1 by simp
  show "mode \<noteq> ''PLAYER_REPLY'' \<Longrightarrow> sent \<in> set (ss_recentAmbient s) \<Longrightarrow> sl_Text sent = Normalized text \<Longrightarrow>
       sl_AtMs sent \<le> now \<Longrightarrow> \<not> now - sl_AtMs sent < RepeatWindowMs"
    using amb CanAmbient_True(5) [of now "text" s1 s' sent] s1 speech_nonempty [OF v] by simp
qed

lemma CommitSent_True:
  assumes "CommitSent mode i partner line now s = (True, s')"
  shows "CanSend mode i partner (sp_Text line) now s = (True, s\<lparr>ss_observedAtMs := now\<rparr>)"
    and "ss_PlayerTurn s' = (if mode = ''PLAYER_REPLY'' then None else ss_PlayerTurn s)"
    and "ss_recentAmbient s' = RememberSent (sp_Text line) now (ss_recentAmbient s)"
    and "ss_hasSpoken s'" "ss_lastSpeechAtMs s' = now" "ss_observedAtMs s' = now"
    and "ss_private s' = ss_private s \<or>
      (\<exists>j h. FindPrivate partner (ss_private s) = Some j \<and> h = snd (History_Remember (line\<lparr>sp_Kind := ''SELF''\<rparr>) (pc_History (ss_private s ! j))) \<and>
         ss_private s' = (ss_private s)[j := (ss_private s ! j)\<lparr>pc_History := h, pc_LastAtMs := now\<rparr>])"
proof -
  obtain ok s1 where c: "CanSend mode i partner (sp_Text line) now s = (ok, s1)"
    by (cases "CanSend mode i partner (sp_Text line) now s")
  with assms have ok by (auto simp: CommitSent_def split: if_splits)
  with c have c: "CanSend mode i partner (sp_Text line) now s = (True, s1)" by simp
  note s1 = CanSend_True(2) [OF c]
  show "CanSend mode i partner (sp_Text line) now s = (True, s\<lparr>ss_observedAtMs := now\<rparr>)" using c s1 by simp
  from assms c s1 show "ss_PlayerTurn s' = (if mode = ''PLAYER_REPLY'' then None else ss_PlayerTurn s)"
    "ss_recentAmbient s' = RememberSent (sp_Text line) now (ss_recentAmbient s)"
    "ss_hasSpoken s'" "ss_lastSpeechAtMs s' = now" "ss_observedAtMs s' = now"
    "ss_private s' = ss_private s \<or>
      (\<exists>j h. FindPrivate partner (ss_private s) = Some j \<and> h = snd (History_Remember (line\<lparr>sp_Kind := ''SELF''\<rparr>) (pc_History (ss_private s ! j))) \<and>
         ss_private s' = (ss_private s)[j := (ss_private s ! j)\<lparr>pc_History := h, pc_LastAtMs := now\<rparr>])"
    by (auto simp: CommitSent_def Let_def split: option.splits if_splits)
qed

lemma CommitSent_False:
  "CommitSent mode i partner line now s = (False, s') \<Longrightarrow> watermarked s s'"
  using CanSend_watermarked [of s mode i partner "sp_Text line" now]
  by (auto simp: CommitSent_def Let_def split: prod.splits if_splits)

section \<open>Invariants of the speech state\<close>

definition private_ok :: "PrivateConversation list \<Rightarrow> bool" where
  "private_ok cs = (length cs \<le> MaxPrivatePartners \<and> distinct (map pc_Partner cs) \<and>
     list_all (\<lambda>c. history_ok (pc_History c)) cs)"

lemma FindPrivate_Some: "FindPrivate p cs = Some i \<Longrightarrow> i < length cs \<and> pc_Partner (cs ! i) = p"
  by (induction p cs arbitrary: i rule: FindPrivate.induct) (auto split: if_splits)

lemma FindPrivate_None: "FindPrivate p cs = None \<longleftrightarrow> p \<notin> pc_Partner ` set cs"
  by (induction p cs rule: FindPrivate.induct) auto

lemma private_ok_update:
  assumes "private_ok cs" and "i < length cs" and "history_ok h"
  shows "private_ok (cs[i := (cs ! i)\<lparr>pc_History := h, pc_LastAtMs := t\<rparr>])"
proof -
  have "map pc_Partner (cs[i := (cs ! i)\<lparr>pc_History := h, pc_LastAtMs := t\<rparr>]) = map pc_Partner cs"
    using assms(2) by (simp add: list_eq_iff_nth_eq nth_list_update)
  then show ?thesis using assms by (auto simp: private_ok_def list_all_length nth_list_update simp del: map_update)
qed

lemma private_ok_add:
  assumes "private_ok cs" and "p \<notin> pc_Partner ` set cs"
  defines "kept \<equiv> if length cs = MaxPrivatePartners then erase_at (min_element pc_LastAtMs cs) cs else cs"
  shows "private_ok (kept @ [\<lparr>pc_Partner = p, pc_History = [], pc_LastAtMs = t\<rparr>])"
proof (cases "length cs = MaxPrivatePartners")
  case False
  then show ?thesis using assms by (auto simp: private_ok_def)
next
  case True
  then have i: "min_element pc_LastAtMs cs < length cs"
    by (intro min_element_less) (auto simp: MaxPrivatePartners_def)
  from erase_at_split [OF i] obtain ys x zs where
    s: "cs = ys @ x # zs" "erase_at (min_element pc_LastAtMs cs) cs = ys @ zs" by blast
  have "distinct (map pc_Partner (ys @ zs))" "list_all (\<lambda>c. history_ok (pc_History c)) (ys @ zs)"
    using assms(1) by (auto simp: private_ok_def s(1))
  moreover have "set (ys @ zs) \<subseteq> set cs" using set_erase_at [of "min_element pc_LastAtMs cs" cs] s(2) by simp
  moreover have "length (ys @ zs) < MaxPrivatePartners" using length_erase_at [OF i] s(2) True i by simp
  ultimately show ?thesis using assms(2) True by (auto simp: private_ok_def kept_def s(2))
qed

text \<open>The effect of accepting, or refusing, a player's turn.\<close>

lemma PinPlayer_effect:
  assumes "PinPlayer turn s = (ok, s')"
  shows "s' = s\<lparr>ss_private := ss_private s', ss_PlayerTurn := (if ok then Some turn else ss_PlayerTurn s),
           ss_NpcTurn := (if ok then None else ss_NpcTurn s)\<rparr>"
    and "ok \<Longrightarrow> ValidTurn turn \<and> IsPlayer (pt_Partner turn)"
    and "private_ok (ss_private s) \<Longrightarrow> private_ok (ss_private s')"
proof -
  show "s' = s\<lparr>ss_private := ss_private s', ss_PlayerTurn := (if ok then Some turn else ss_PlayerTurn s),
           ss_NpcTurn := (if ok then None else ss_NpcTurn s)\<rparr>"
    using assms by (auto simp: PinPlayer_def Let_def split: prod.splits if_splits)
  show "ok \<Longrightarrow> ValidTurn turn \<and> IsPlayer (pt_Partner turn)"
    using assms by (auto simp: PinPlayer_def split: if_splits)
  assume p: "private_ok (ss_private s)"
  obtain i cs where f: "PrivateFor turn (ss_private s) = (i, cs)" by (cases "PrivateFor turn (ss_private s)")
  have cs: "private_ok cs \<and> i < length cs"
  proof (cases "FindPrivate (pt_Partner turn) (ss_private s)")
    case None
    then have "pt_Partner turn \<notin> pc_Partner ` set (ss_private s)" by (simp add: FindPrivate_None)
    from None f private_ok_add [OF p this, of "pt_AtMs turn"] show ?thesis by (auto simp: PrivateFor_def Let_def)
  next
    case (Some j)
    then show ?thesis using f p FindPrivate_Some by (auto simp: PrivateFor_def)
  qed
  obtain remembered h where r: "History_Remember (PlayerLine turn) (pc_History (cs ! i)) = (remembered, h)"
    by (cases "History_Remember (PlayerLine turn) (pc_History (cs ! i))")
  have "history_ok (snd (History_Remember (PlayerLine turn) (pc_History (cs ! i))))"
    using cs by (intro History_Remember_ok) (auto simp: private_ok_def list_all_length)
  with r have h: "history_ok h" by simp
  have "ss_private s' \<in> {ss_private s, cs, cs[i := (cs ! i)\<lparr>pc_History := h, pc_LastAtMs := pt_AtMs turn\<rparr>]}"
    using assms by (auto simp: PinPlayer_def f r split: if_splits)
  with p cs h private_ok_update [of cs i h "pt_AtMs turn"] show "private_ok (ss_private s')" by auto
qed

text \<open>What the other operations leave alone.\<close>

definition quiet :: "NpcAgentSpeechState \<Rightarrow> NpcAgentSpeechState \<Rightarrow> bool" where
  "quiet s s' = (ss_private s' = ss_private s \<and> ss_recentAmbient s' = ss_recentAmbient s \<and>
     ss_lastSpeechAtMs s' = ss_lastSpeechAtMs s \<and> ss_hasSpoken s' = ss_hasSpoken s \<and>
     ss_observedAtMs s \<le> ss_observedAtMs s' \<and> (ss_PlayerTurn s' = ss_PlayerTurn s \<or> ss_PlayerTurn s' = None))"

lemma watermarked_quiet: "watermarked s s' \<Longrightarrow> quiet s s'"
  by (auto simp: quiet_def watermarked_def)

lemma PinNpc_quiet: "quiet s (snd (PinNpc turn now s))"
proof -
  have "quiet s (snd (CanAmbient now [] s))" by (rule watermarked_quiet [OF CanAmbient_watermarked])
  then show ?thesis by (auto simp: PinNpc_def quiet_def split: prod.splits)
qed

lemma Expire_quiet: "quiet s (snd (Speech_Expire now online s))"
proof -
  have "quiet s (snd (Speech_Observe now s))" by (rule watermarked_quiet [OF Observe_watermarked])
  then show ?thesis by (auto simp: Speech_Expire_def quiet_def Let_def split: prod.splits)
qed

lemma Submitted_quiet: "quiet s (SubmittedInitiation scene s)"
  by (simp add: quiet_def SubmittedInitiation_def)

text \<open>Every operation but two changes the trace quietly.\<close>

lemma speech_step_cases:
  obtains (pin) turn ok s' where "op = Sp_PinPlayer turn" "PinPlayer turn (tr_state t) = (ok, s')"
      "speech_step op t = t\<lparr>tr_state := s', tr_pinned := tr_pinned t @ (if ok then [turn] else [])\<rparr>"
  | (sent) mode i partner line now s' where "CommitSent mode i partner line now (tr_state t) = (True, s')"
      "speech_step op t = t\<lparr>tr_state := s', tr_sent := tr_sent t @
        [\<lparr>sn_Mode = mode, sn_TurnId = i, sn_Partner = partner, sn_Text = sp_Text line, sn_AtMs = now\<rparr>]\<rparr>"
  | (quiet) s' where "quiet (tr_state t) s'" "speech_step op t = t\<lparr>tr_state := s'\<rparr>"
proof (cases op)
  case (Sp_PinPlayer turn)
  obtain ok s' where "PinPlayer turn (tr_state t) = (ok, s')" by (cases "PinPlayer turn (tr_state t)")
  with Sp_PinPlayer show ?thesis by (intro pin) auto
next
  case (Sp_CommitSent mode i partner line now)
  obtain ok s' where c: "CommitSent mode i partner line now (tr_state t) = (ok, s')"
    by (cases "CommitSent mode i partner line now (tr_state t)")
  show ?thesis
  proof (cases ok)
    case True
    with c Sp_CommitSent show ?thesis by (intro sent) auto
  next
    case False
    with c have "CommitSent mode i partner line now (tr_state t) = (False, s')" by simp
    then have "quiet (tr_state t) s'" by (intro watermarked_quiet CommitSent_False)
    with c False Sp_CommitSent show ?thesis by (intro quiet) auto
  qed
next
  case (Sp_PinNpc turn now)
  then show ?thesis by (intro quiet [OF PinNpc_quiet]) simp
next
  case (Sp_Expire now online)
  then show ?thesis by (intro quiet [OF Expire_quiet]) simp
next
  case (Sp_CanAmbient now msg)
  then show ?thesis by (intro quiet [OF watermarked_quiet [OF CanAmbient_watermarked]]) simp
next
  case (Sp_CanSend mode i partner msg now)
  then show ?thesis by (intro quiet [OF watermarked_quiet [OF CanSend_watermarked]]) simp
next
  case (Sp_CanInitiate scene audience now)
  then show ?thesis by (intro quiet [OF watermarked_quiet [OF CanInitiate_watermarked]]) simp
next
  case (Sp_Submitted scene)
  then show ?thesis by (intro quiet [OF Submitted_quiet]) simp
qed

lemma PinPlayer_keeps:
  assumes "PinPlayer turn s = (ok, s')"
  shows "ss_recentAmbient s' = ss_recentAmbient s" "ss_lastSpeechAtMs s' = ss_lastSpeechAtMs s"
    "ss_hasSpoken s' = ss_hasSpoken s" "ss_observedAtMs s' = ss_observedAtMs s"
    "ss_PlayerTurn s' = (if ok then Some turn else ss_PlayerTurn s)"
  by (subst PinPlayer_effect(1) [OF assms], simp)+

text \<open>Two sent lines in order: a public remark waits a minute after anything the agent said.\<close>

definition line_spaced :: "sent_line \<Rightarrow> sent_line \<Rightarrow> bool" where
  "line_spaced a b = (unat (sn_AtMs a) \<le> unat (sn_AtMs b) \<and>
     (sn_Mode b \<noteq> ''PLAYER_REPLY'' \<longrightarrow> unat (sn_AtMs a) + 60000 \<le> unat (sn_AtMs b)))"

definition spoken_ok :: "speech_trace \<Rightarrow> bool" where
  "spoken_ok t =
     (sorted_wrt line_spaced (tr_sent t) \<and>
      (ss_hasSpoken (tr_state t) \<longleftrightarrow> tr_sent t \<noteq> []) \<and>
      (tr_sent t \<noteq> [] \<longrightarrow> ss_lastSpeechAtMs (tr_state t) = sn_AtMs (last (tr_sent t))) \<and>
      unat (ss_lastSpeechAtMs (tr_state t)) \<le> unat (ss_observedAtMs (tr_state t)))"

lemma sorted_wrt_last_le:
  assumes "sorted_wrt line_spaced xs" and "x \<in> set xs"
  shows "unat (sn_AtMs x) \<le> unat (sn_AtMs (last xs))"
  using assms by (cases xs rule: rev_cases) (auto simp: sorted_wrt_append line_spaced_def)

lemma spoken_ok_step:
  assumes "spoken_ok t"
  shows "spoken_ok (speech_step op t)"
proof (cases op t rule: speech_step_cases)
  case (pin turn ok s')
  with assms PinPlayer_keeps [OF pin(2)] show ?thesis by (simp add: spoken_ok_def)
next
  case (quiet s')
  then show ?thesis using assms by (auto simp: spoken_ok_def quiet_def word_le_nat_alt)
next
  case (sent mode i partner line now s')
  let ?l = "\<lparr>sn_Mode = mode, sn_TurnId = i, sn_Partner = partner, sn_Text = sp_Text line, sn_AtMs = now\<rparr>"
  note c = CommitSent_True [OF sent(1)] and k = CanSend_True [OF CommitSent_True(1) [OF sent(1)]]
  have le: "ss_lastSpeechAtMs (tr_state t) \<le> now"
    using assms k(1) by (simp add: spoken_ok_def word_le_nat_alt)
  have "line_spaced a ?l" if a: "a \<in> set (tr_sent t)" for a
  proof -
    have past: "unat (sn_AtMs a) \<le> unat (ss_lastSpeechAtMs (tr_state t))" and spoken: "ss_hasSpoken (tr_state t)"
      using assms a sorted_wrt_last_le [of "tr_sent t" a] by (auto simp: spoken_ok_def)
    have "unat (ss_lastSpeechAtMs (tr_state t)) + 60000 \<le> unat now" if "mode \<noteq> ''PLAYER_REPLY''"
      using k(7) [OF that spoken] le elapsed_facts(1) [of "ss_lastSpeechAtMs (tr_state t)" now]
      by (simp add: AmbientIntervalMs_def not_less)
    with past le show ?thesis by (auto simp: line_spaced_def word_le_nat_alt)
  qed
  then show ?thesis using assms sent(2) c(4,5,6) by (auto simp: spoken_ok_def sorted_wrt_append)
qed

section \<open>The repeat window\<close>

definition as_sent :: "sent_line \<Rightarrow> SentLine" where
  "as_sent l = \<lparr>sl_Text = Normalized (sn_Text l), sl_AtMs = sn_AtMs l\<rparr>"

text \<open>The recent lines are the last of those sent, and of the last eight only stale ones are missing.\<close>

definition recent_ok :: "speech_trace \<Rightarrow> bool" where
  "recent_ok t = (\<exists>k \<le> length (tr_sent t).
     ss_recentAmbient (tr_state t) = map as_sent (drop k (tr_sent t)) \<and>
     length (ss_recentAmbient (tr_state t)) \<le> MaxRecentAmbient \<and>
     (\<forall>j < k. length (tr_sent t) \<le> j + 8 \<longrightarrow>
        unat (sn_AtMs (tr_sent t ! j)) + 120000 \<le> unat (ss_lastSpeechAtMs (tr_state t))))"

lemma dropWhile_drop: "\<exists>n \<le> length xs. dropWhile p xs = drop n xs \<and> (\<forall>j < n. p (xs ! j))"
proof (induction xs)
  case (Cons x xs)
  then obtain n where n: "n \<le> length xs" "dropWhile p xs = drop n xs" "\<forall>j < n. p (xs ! j)" by blast
  show ?case
  proof (cases "p x")
    case True
    with n have "\<forall>j < Suc n. p ((x # xs) ! j)" by (auto simp: less_Suc_eq_0_disj)
    with n True show ?thesis by (intro exI [of _ "Suc n"]) simp
  qed (auto intro: exI [of _ 0])
qed simp

lemma recent_ok_step:
  assumes "recent_ok t" and "spoken_ok t"
  shows "recent_ok (speech_step op t)"
proof (cases op t rule: speech_step_cases)
  case (pin turn ok s')
  with assms PinPlayer_keeps [OF pin(2)] show ?thesis by (simp add: recent_ok_def)
next
  case (quiet s')
  then show ?thesis using assms by (simp add: recent_ok_def quiet_def)
next
  case (sent mode i partner line now s')
  let ?l = "\<lparr>sn_Mode = mode, sn_TurnId = i, sn_Partner = partner, sn_Text = sp_Text line, sn_AtMs = now\<rparr>"
  let ?sent = "tr_sent t" and ?recent = "ss_recentAmbient (tr_state t)"
  note c = CommitSent_True [OF sent(1)] and k = CanSend_True [OF CommitSent_True(1) [OF sent(1)]]
  have le: "unat (ss_lastSpeechAtMs (tr_state t)) \<le> unat now"
    using assms(2) k(1) by (simp add: spoken_ok_def word_le_nat_alt)
  from assms(1) obtain m where m: "m \<le> length ?sent" "?recent = map as_sent (drop m ?sent)"
      "length ?recent \<le> MaxRecentAmbient"
      "\<And>j. j < m \<Longrightarrow> length ?sent \<le> j + 8 \<Longrightarrow> unat (sn_AtMs (?sent ! j)) + 120000 \<le> unat (ss_lastSpeechAtMs (tr_state t))"
    unfolding recent_ok_def by blast
  obtain n where n: "n \<le> length ?recent" "dropWhile (\<lambda>s. now - sl_AtMs s \<ge> RepeatWindowMs) ?recent = drop n ?recent"
      "\<And>j. j < n \<Longrightarrow> now - sl_AtMs (?recent ! j) \<ge> RepeatWindowMs"
    using dropWhile_drop by blast
  define q where "q = (if length (drop n ?recent) = MaxRecentAmbient then Suc (m + n) else m + n)"
  have q: "q \<le> length ?sent"
    using n(1) m(1,2) by (auto simp: q_def MaxRecentAmbient_def)
  have "ss_recentAmbient s' = map as_sent (drop q (?sent @ [?l]))"
    using c(3) q m(2) n(2) by (simp add: RememberSent_def Let_def q_def as_sent_def drop_map tl_drop drop_Suc add.commute map_tl [symmetric])
  moreover have "length (drop q (?sent @ [?l])) \<le> MaxRecentAmbient"
    using m(2,3) n(1) q by (auto simp: q_def MaxRecentAmbient_def)
  moreover have "unat (sn_AtMs ((?sent @ [?l]) ! j)) + 120000 \<le> unat now" if j: "j < q" "length (?sent @ [?l]) \<le> j + 8" for j
  proof -
    have js: "j < length ?sent" using j q by simp
    have "j < m + n \<or> j = m + n \<and> length (drop n ?recent) = MaxRecentAmbient"
      using j(1) by (auto simp: q_def less_Suc_eq split: if_splits)
    then consider "j < m" | "m \<le> j" "j < m + n" | "j = m + n" "length (drop n ?recent) = MaxRecentAmbient"
      by (cases "j < m") auto
    then show ?thesis
    proof cases
      case 1
      with m(4) [OF 1] j(2) js le show ?thesis by (simp add: nth_append)
    next
      case 2
      then have "now - sn_AtMs (?sent ! j) \<ge> RepeatWindowMs"
        using n(3) [of "j - m"] m(1,2) js by (simp add: as_sent_def)
      moreover have "unat (sn_AtMs (?sent ! j)) \<le> unat now"
        using assms(2) sorted_wrt_last_le [of ?sent "?sent ! j"] js le by (auto simp: spoken_ok_def)
      ultimately show ?thesis using js elapsed_iff [of 120000 "sn_AtMs (?sent ! j)" now]
        by (simp add: nth_append RepeatWindowMs_def word_le_nat_alt)
    next
      case 3
      then have "length ?sent = m + n + 8" using m(1,2) n(1) by (simp add: MaxRecentAmbient_def)
      with 3 j(2) show ?thesis by simp
    qed
  qed
  ultimately show ?thesis unfolding sent(2) recent_ok_def using c(5) q by (intro exI [of _ q]) simp
qed

text \<open>
  No public remark repeats one of the eight lines before it within two minutes, in normal form.
\<close>

definition no_repeat :: "sent_line list \<Rightarrow> bool" where
  "no_repeat sent = (\<forall>i < length sent. sn_Mode (sent ! i) \<noteq> ''PLAYER_REPLY'' \<longrightarrow>
     (\<forall>j < i. i \<le> j + 8 \<longrightarrow> Normalized (sn_Text (sent ! j)) \<noteq> Normalized (sn_Text (sent ! i)) \<or>
        unat (sn_AtMs (sent ! j)) + 120000 \<le> unat (sn_AtMs (sent ! i))))"

lemma no_repeat_step:
  assumes "no_repeat (tr_sent t)" and "recent_ok t" and "spoken_ok t"
  shows "no_repeat (tr_sent (speech_step op t))"
proof (cases op t rule: speech_step_cases)
  case (sent mode i partner line now s')
  let ?l = "\<lparr>sn_Mode = mode, sn_TurnId = i, sn_Partner = partner, sn_Text = sp_Text line, sn_AtMs = now\<rparr>"
  let ?sent = "tr_sent t"
  note k = CanSend_True [OF CommitSent_True(1) [OF sent(1)]]
  have le: "unat (ss_lastSpeechAtMs (tr_state t)) \<le> unat now"
    using assms(3) k(1) by (simp add: spoken_ok_def word_le_nat_alt)
  from assms(2) obtain m where m: "m \<le> length ?sent" "ss_recentAmbient (tr_state t) = map as_sent (drop m ?sent)"
      "\<And>j. j < m \<Longrightarrow> length ?sent \<le> j + 8 \<Longrightarrow> unat (sn_AtMs (?sent ! j)) + 120000 \<le> unat (ss_lastSpeechAtMs (tr_state t))"
    unfolding recent_ok_def by blast
  have new: "Normalized (sn_Text (?sent ! j)) \<noteq> Normalized (sp_Text line) \<or> unat (sn_AtMs (?sent ! j)) + 120000 \<le> unat now"
    if "mode \<noteq> ''PLAYER_REPLY''" "j < length ?sent" "length ?sent \<le> j + 8" for j
  proof (cases "j < m")
    case True
    with m(3) [OF True that(3)] le show ?thesis by simp
  next
    case False
    then have "?sent ! j \<in> set (drop m ?sent)"
      using that(2) by (auto simp: in_set_conv_nth intro!: exI [of _ "j - m"])
    then have r: "as_sent (?sent ! j) \<in> set (ss_recentAmbient (tr_state t))" by (simp add: m(2))
    have "unat (sn_AtMs (?sent ! j)) \<le> unat now"
      using assms(3) sorted_wrt_last_le [of ?sent "?sent ! j"] that(2) le by (auto simp: spoken_ok_def)
    with k(8) [OF that(1) r] elapsed_iff [of 120000 "sn_AtMs (?sent ! j)" now] show ?thesis
      by (auto simp: as_sent_def RepeatWindowMs_def word_le_nat_alt not_less)
  qed
  show ?thesis unfolding sent(2) no_repeat_def
  proof (intro allI impI)
    fix a b
    assume "a < length (tr_sent (t\<lparr>tr_state := s', tr_sent := ?sent @ [?l]\<rparr>))"
      "sn_Mode (tr_sent (t\<lparr>tr_state := s', tr_sent := ?sent @ [?l]\<rparr>) ! a) \<noteq> ''PLAYER_REPLY''" "b < a" "a \<le> b + 8"
    then show "Normalized (sn_Text (tr_sent (t\<lparr>tr_state := s', tr_sent := ?sent @ [?l]\<rparr>) ! b)) \<noteq>
        Normalized (sn_Text (tr_sent (t\<lparr>tr_state := s', tr_sent := ?sent @ [?l]\<rparr>) ! a)) \<or>
        unat (sn_AtMs (tr_sent (t\<lparr>tr_state := s', tr_sent := ?sent @ [?l]\<rparr>) ! b)) + 120000
          \<le> unat (sn_AtMs (tr_sent (t\<lparr>tr_state := s', tr_sent := ?sent @ [?l]\<rparr>) ! a))"
      using assms(1) new [of b] by (cases "a = length ?sent") (auto simp: no_repeat_def nth_append)
  qed
qed (use assms in simp_all)

section \<open>Player turns are answered once\<close>

definition answers :: "NpcAgentPendingTurn \<Rightarrow> sent_line \<Rightarrow> bool" where
  "answers turn l = (sn_TurnId l = pt_Id turn \<and> sn_Partner l = pt_Partner turn \<and> Fresh turn (sn_AtMs l) PlayerTurnTtlMs)"

definition player_replies :: "speech_trace \<Rightarrow> sent_line list" where
  "player_replies t = filter (\<lambda>l. sn_Mode l = ''PLAYER_REPLY'') (tr_sent t)"

definition waiting_turn :: "speech_trace \<Rightarrow> NpcAgentPendingTurn list" where
  "waiting_turn t = (case ss_PlayerTurn (tr_state t) of None \<Rightarrow> [] | Some turn \<Rightarrow> [turn])"

definition answers_ok :: "speech_trace \<Rightarrow> bool" where
  "answers_ok t = (\<exists>answered past. tr_pinned t = past @ waiting_turn t \<and> subseq answered past \<and>
     list_all2 answers answered (player_replies t) \<and>
     list_all (\<lambda>turn. ValidTurn turn \<and> IsPlayer (pt_Partner turn)) (tr_pinned t))"

lemma answers_ok_step:
  assumes "answers_ok t"
  shows "answers_ok (speech_step op t)"
proof -
  from assms obtain answered past where a: "tr_pinned t = past @ waiting_turn t" "subseq answered past"
      "list_all2 answers answered (player_replies t)"
      "list_all (\<lambda>turn. ValidTurn turn \<and> IsPlayer (pt_Partner turn)) (tr_pinned t)"
    unfolding answers_ok_def by blast
  have all: "subseq answered (tr_pinned t)" 
    using list_emb_append_mono [OF a(2) list_emb_Nil [of _ "waiting_turn t"]] a(1) by simp
  show ?thesis
  proof (cases op t rule: speech_step_cases)
    case (pin turn ok s')
    note keep = PinPlayer_keeps(5) [OF pin(2)]
    show ?thesis
    proof (cases ok)
      case True
      then have "tr_pinned (speech_step op t) = tr_pinned t @ waiting_turn (speech_step op t)"
        using keep by (simp add: pin(3) waiting_turn_def)
      moreover have "player_replies (speech_step op t) = player_replies t" by (simp add: pin(3) player_replies_def)
      moreover have "ValidTurn turn \<and> IsPlayer (pt_Partner turn)" using PinPlayer_effect(2) [OF pin(2)] True by simp
      ultimately show ?thesis unfolding answers_ok_def using all a(3,4) pin(3) True
        by (intro exI [of _ answered] exI [of _ "tr_pinned t"]) simp
    next
      case False
      with keep a pin(3) show ?thesis unfolding answers_ok_def
        by (intro exI [of _ answered] exI [of _ past]) (simp add: waiting_turn_def player_replies_def)
    qed
  next
    case (quiet s')
    then have "waiting_turn (speech_step op t) = waiting_turn t \<or> waiting_turn (speech_step op t) = []"
      by (auto simp: quiet_def waiting_turn_def)
    then have "\<exists>past. tr_pinned t = past @ waiting_turn (speech_step op t) \<and> subseq answered past"
      using a(1,2) all by auto
    with a(3,4) quiet(2) show ?thesis by (auto simp: answers_ok_def player_replies_def)
  next
    case (sent mode i partner line now s')
    let ?l = "\<lparr>sn_Mode = mode, sn_TurnId = i, sn_Partner = partner, sn_Text = sp_Text line, sn_AtMs = now\<rparr>"
    note c = CommitSent_True [OF sent(1)] and k = CanSend_True [OF CommitSent_True(1) [OF sent(1)]]
    show ?thesis
    proof (cases "mode = ''PLAYER_REPLY''")
      case True
      then obtain turn where t: "ss_PlayerTurn (tr_state t) = Some turn" "answers turn ?l"
        using k(4) by (auto simp: MatchesTurn_def answers_def split: option.splits)
      then have "tr_pinned t = past @ [turn]" using a(1) by (simp add: waiting_turn_def)
      moreover have "subseq (answered @ [turn]) (past @ [turn])" using a(2) by (simp add: list_emb_append_mono)
      ultimately show ?thesis unfolding answers_ok_def
        using a(3,4) t(2) True c(2) sent(2)
        by (intro exI [of _ "answered @ [turn]"] exI [of _ "past @ [turn]"])
          (simp add: waiting_turn_def player_replies_def list_all2_appendI)
    next
      case False
      with a sent(2) c(2) show ?thesis unfolding answers_ok_def
        by (intro exI [of _ answered] exI [of _ past]) (simp add: waiting_turn_def player_replies_def)
    qed
  qed
qed

section \<open>Properties\<close>

lemma private_ok_step:
  assumes "private_ok (ss_private (tr_state t))"
  shows "private_ok (ss_private (tr_state (speech_step op t)))"
proof (cases op t rule: speech_step_cases)
  case (pin turn ok s')
  with assms PinPlayer_effect(3) [OF pin(2)] show ?thesis by simp
next
  case (quiet s')
  with assms show ?thesis by (simp add: quiet_def)
next
  case (sent mode i partner line now s')
  from CommitSent_True(7) [OF sent(1)] show ?thesis
  proof (elim disjE exE conjE)
    fix j h
    assume j: "FindPrivate partner (ss_private (tr_state t)) = Some j"
      and h: "h = snd (History_Remember (line\<lparr>sp_Kind := ''SELF''\<rparr>) (pc_History (ss_private (tr_state t) ! j)))"
      and s': "ss_private s' = (ss_private (tr_state t))[j := (ss_private (tr_state t) ! j)\<lparr>pc_History := h, pc_LastAtMs := now\<rparr>]"
    have "j < length (ss_private (tr_state t))" using FindPrivate_Some [OF j] by simp
    moreover have "history_ok h" unfolding h using assms calculation
      by (intro History_Remember_ok) (auto simp: private_ok_def list_all_length)
    ultimately show ?thesis using assms private_ok_update sent(2) s' by simp
  qed (use assms sent(2) in simp)
qed

lemma speech_run_ok:
  "spoken_ok (speech_run ops) \<and> recent_ok (speech_run ops) \<and> no_repeat (tr_sent (speech_run ops)) \<and>
   answers_ok (speech_run ops) \<and> private_ok (ss_private (tr_state (speech_run ops)))"
proof (induction ops rule: rev_induct)
  case Nil
  show ?case
    by (simp add: speech_run_def Speech_init_def spoken_ok_def recent_ok_def no_repeat_def answers_ok_def
        waiting_turn_def player_replies_def private_ok_def)
next
  case (snoc op ops)
  have "speech_run (ops @ [op]) = speech_step op (speech_run ops)" by (simp add: speech_run_def)
  with snoc spoken_ok_step recent_ok_step no_repeat_step answers_ok_step private_ok_step show ?case by simp
qed

text \<open>
  C31: The conversation guard, after any sequence of calls: the clock of the admitted emissions never
  goes back and one NPC speaks at most once in two seconds; each live conversation holds exactly the
  utterances admitted to it since it started, at most eight and none twice, and is younger than a
  minute; at most 128 conversations and 1024 cooldowns are kept; only valid NPC speech is admitted.
\<close>
theorem conversation_guard_sound:
  "guard_ok (guard_run ops) \<and>
   list_all (\<lambda>e. ValidateNpcAgentSpeech (snd e) \<and> sp_Kind (snd e) = ''NPC'') (snd (guard_run ops))"
  using guard_run_ok [of ops] by simp

text \<open>
  C30: One agent's public remarks, after any sequence of operations: each waits a minute after
  anything the agent said, and does not repeat, up to case and punctuation, one of the eight lines
  said before it within two minutes. Meanwhile the agent keeps at most four private conversations,
  one per partner, each with at most twelve distinct valid lines, and at most eight recent lines.
\<close>
theorem public_remarks_spaced:
  "sorted_wrt line_spaced (tr_sent (speech_run ops)) \<and> no_repeat (tr_sent (speech_run ops)) \<and>
   private_ok (ss_private (tr_state (speech_run ops))) \<and>
   length (ss_recentAmbient (tr_state (speech_run ops))) \<le> MaxRecentAmbient"
  using speech_run_ok [of ops] by (auto simp: spoken_ok_def recent_ok_def)

text \<open>
  C29: Player turns are answered at most once and in order: the private replies an agent sent are, one
  for one, answers to a subsequence of the turns it accepted before the one still waiting, each sent
  to the player who asked, under that turn's id, within a minute of the turn.
\<close>
theorem player_turns_answered_once:
  "\<exists>answered past. tr_pinned (speech_run ops) = past @ waiting_turn (speech_run ops) \<and>
     subseq answered past \<and> list_all2 answers answered (player_replies (speech_run ops)) \<and>
     list_all (\<lambda>turn. ValidTurn turn \<and> IsPlayer (pt_Partner turn)) (tr_pinned (speech_run ops))"
  using speech_run_ok [of ops] by (simp add: answers_ok_def)

text \<open>An agent greets, answers eight questions of one player, and greets again after a minute.\<close>

definition question :: "u64 \<Rightarrow> NpcAgentPendingTurn" where
  "question n = \<lparr>pt_Id = n, pt_Partner = 1, pt_Name = [0x61], pt_Text = [0x61], pt_AtMs = 1000 + n\<rparr>"

definition said :: "bytes \<Rightarrow> NpcAgentSpeech" where
  "said t = \<lparr>sp_ConversationId = 0, sp_UtteranceId = 0, sp_Speaker = 0, sp_Kind = ''NPC'',
     sp_SpeakerName = [], sp_Text = t, sp_AtMs = 0, sp_Hop = 0\<rparr>"

definition greeting_run :: "speech_op list" where
  "greeting_run = Sp_CommitSent ''INITIATE'' 0 0 (said [0x68]) 1000 #
     concat (map (\<lambda>n. [Sp_PinPlayer (question n), Sp_CommitSent ''PLAYER_REPLY'' n 1 (said [0x62]) (1000 + n)])
       [1, 2, 3, 4, 5, 6, 7, 8]) @
     [Sp_CommitSent ''INITIATE'' 0 0 (said [0x68]) 61008]"

lemma byte_speech:
  "ValidateNpcAgentSpeechText [0x61]" "ValidateNpcAgentSpeechText [0x62]" "ValidateNpcAgentSpeechText [0x68]"
  "ValidateNpcAgentPlainText [0x61] 80 32 False"
  "CleanNpcAgentSpeechText [0x61] = [0x61]"
  "Normalized [0x62] = [0x62]" "Normalized [0x68] = [0x68]"
  by code_simp+

lemmas speech_evaluation =
  speech_run_def greeting_run_def Speech_init_def question_def said_def byte_speech
  PinPlayer_def PrivateFor_def PlayerLine_def ValidTurn_def IsPlayer_def IsEmpty_def GetHigh_def
  History_Remember_def ValidateNpcAgentSpeech_def MaxHop_def MaxNameBytes_def MaxNameCharacters_def
  MaxHistoryLines_def MaxPrivatePartners_def MaxRecentAmbient_def RepeatWindowMs_def AmbientIntervalMs_def
  PlayerTurnTtlMs_def CommitSent_def CanSend_def CanAmbient_def Speech_Observe_def MatchesTurn_def Fresh_def
  RememberSent_def word_le_nat_alt word_less_nat_alt

text \<open>
  The repeat window of two minutes can be defeated: private replies fill the same list of eight
  recent lines, so after eight of them the agent makes the same public remark again 60 seconds later.
\<close>
theorem replies_defeat_repeat_window:
  "map sn_Mode (tr_sent (speech_run greeting_run)) =
     [''INITIATE'', ''PLAYER_REPLY'', ''PLAYER_REPLY'', ''PLAYER_REPLY'', ''PLAYER_REPLY'', ''PLAYER_REPLY'',
      ''PLAYER_REPLY'', ''PLAYER_REPLY'', ''PLAYER_REPLY'', ''INITIATE''] \<and>
   sn_Text (last (tr_sent (speech_run greeting_run))) = sn_Text (hd (tr_sent (speech_run greeting_run))) \<and>
   sn_AtMs (last (tr_sent (speech_run greeting_run))) - sn_AtMs (hd (tr_sent (speech_run greeting_run))) = 60008 \<and>
   60008 < RepeatWindowMs"
  by (simp add: speech_evaluation)

end
