(* ===== verification/Npc_Memory.thy ===== *)
theory Npc_Memory
  imports Npc_Text Std_Map "HOL-Library.Product_Lexorder" "HOL-Library.Sublist" "HOL-Library.Multiset"
begin

text \<open>
  The session memory of one NPC agent (\<open>Agent/NpcAgentMemory.h\<close>): private records of what a player
  said and was told, public records of overheard speech and of finished actions, and the retrieval
  that ranks them for a prompt. A record enters with a fresh id; both tables are bounded and forget
  their oldest record. A \<open>std::set\<close> of words is a list without duplicates; the order of its elements
  does not matter, because they are only counted. The two sorts compare by keys that differ for
  different ids, so that there is one sorted order.
\<close>

unbundle bit_operations_syntax

section \<open>State\<close>

definition MaxPrivateRecords :: nat where "MaxPrivateRecords = 64"
definition MaxPublicRecords :: nat where "MaxPublicRecords = 32"
definition MaxRecordsPerPlayer :: nat where "MaxRecordsPerPlayer = 32"
definition MaxPlayers :: nat where "MaxPlayers = 8"
definition MaxRecalled :: nat where "MaxRecalled = 6"
definition MaxRecallBytes :: nat where "MaxRecallBytes = 3072"

record MemoryEntry =
  me_Id :: u64
  me_AtMs :: u64
  me_TurnId :: u64
  me_Player :: ObjectGuid
  me_Kind :: string
  me_Speaker :: bytes
  me_Text :: bytes
  me_Response :: bytes

record NpcAgentMemoryStore =
  ms_private :: "MemoryEntry list"
  ms_public :: "MemoryEntry list"
  ms_sequence :: u64
  ms_observedAtMs :: u64

definition MemoryStore_init :: NpcAgentMemoryStore where
  "MemoryStore_init = \<lparr>ms_private = [], ms_public = [], ms_sequence = 0, ms_observedAtMs = 0\<rparr>"

definition ValidMemory :: "bytes \<Rightarrow> bytes \<Rightarrow> bool" where
  "ValidMemory speaker text = (ValidateNpcAgentPlainText speaker 80 32 False \<and> ValidateNpcAgentSpeechText text)"

definition Memory_Observe :: "u64 \<Rightarrow> NpcAgentMemoryStore \<Rightarrow> bool \<times> NpcAgentMemoryStore" where
  "Memory_Observe atMs s = (if atMs < ms_observedAtMs s then (False, s) else (True, s\<lparr>ms_observedAtMs := atMs\<rparr>))"

definition CanAllocate :: "NpcAgentMemoryStore \<Rightarrow> bool" where
  "CanAllocate s = (ms_sequence s < u64_max)"

section \<open>Forgetting\<close>

text \<open>The position of the oldest entry of the player, or of any entry for the empty guid.\<close>

fun Oldest_loop :: "ObjectGuid \<Rightarrow> nat \<Rightarrow> (nat \<times> MemoryEntry) option \<Rightarrow> MemoryEntry list \<Rightarrow> (nat \<times> MemoryEntry) option" where
  "Oldest_loop player i oldest [] = oldest"
| "Oldest_loop player i oldest (e # es) =
     Oldest_loop player (Suc i)
       (if (IsEmpty player \<or> me_Player e = player) \<and>
           (case oldest of None \<Rightarrow> True
            | Some (j, old) \<Rightarrow> me_AtMs e < me_AtMs old \<or> me_AtMs e = me_AtMs old \<and> me_Id e < me_Id old)
        then Some (i, e) else oldest) es"

definition EraseOldest :: "ObjectGuid \<Rightarrow> MemoryEntry list \<Rightarrow> MemoryEntry list" where
  "EraseOldest player entries =
     (case Oldest_loop player 0 None entries of None \<Rightarrow> entries | Some (i, e) \<Rightarrow> erase_at i entries)"

definition LastPlayerAt :: "ObjectGuid \<Rightarrow> MemoryEntry list \<Rightarrow> u64" where
  "LastPlayerAt player entries =
     fold (\<lambda>e last. if me_Player e = player then max last (me_AtMs e) else last) entries 0"

definition Partners :: "MemoryEntry list \<Rightarrow> ObjectGuid list" where
  "Partners entries = fold (\<lambda>e ps. if me_Player e \<in> set ps then ps else ps @ [me_Player e]) entries []"

text \<open>The private records with room for one more of the player.\<close>

definition MakeRoom :: "ObjectGuid \<Rightarrow> MemoryEntry list \<Rightarrow> MemoryEntry list" where
  "MakeRoom player entries =
     (let partners = Partners entries;
          es1 = (if player \<notin> set partners \<and> length partners \<ge> MaxPlayers
                 then let evicted = partners ! min_element (\<lambda>p. LastPlayerAt p entries) partners
                      in filter (\<lambda>e. me_Player e \<noteq> evicted) entries
                 else entries);
          es2 = (if length (filter (\<lambda>e. me_Player e = player) es1) \<ge> MaxRecordsPerPlayer
                 then EraseOldest player es1 else es1)
      in if length es2 \<ge> MaxPrivateRecords then EraseOldest 0 es2 else es2)"

section \<open>Remembering\<close>

definition RememberPlayer :: "u64 \<Rightarrow> ObjectGuid \<Rightarrow> bytes \<Rightarrow> bytes \<Rightarrow> u64 \<Rightarrow> NpcAgentMemoryStore \<Rightarrow> bool \<times> NpcAgentMemoryStore" where
  "RememberPlayer turnId player speaker text atMs s0 =
     (if turnId = 0 \<or> \<not> IsPlayer player \<or> \<not> ValidMemory speaker text then (False, s0)
      else let (observed, s) = Memory_Observe atMs s0 in
        if \<not> observed then (False, s)
        else if list_ex (\<lambda>e. me_TurnId e = turnId \<and> me_Player e = player) (ms_private s) then (False, s)
        else if \<not> CanAllocate s then (False, s)
        else (True, s\<lparr>ms_sequence := ms_sequence s + 1,
               ms_private := MakeRoom player (ms_private s) @
                 [\<lparr>me_Id = ms_sequence s + 1, me_AtMs = atMs, me_TurnId = turnId, me_Player = player,
                   me_Kind = ''PLAYER_DIALOGUE'', me_Speaker = speaker,
                   me_Text = CleanNpcAgentSpeechText text, me_Response = []\<rparr>]\<rparr>))"

text \<open>The first unanswered record of the turn gets the reply.\<close>

fun Reply_loop :: "u64 \<Rightarrow> ObjectGuid \<Rightarrow> bytes \<Rightarrow> u64 \<Rightarrow> MemoryEntry list \<Rightarrow> MemoryEntry list option" where
  "Reply_loop turnId player response atMs [] = None"
| "Reply_loop turnId player response atMs (e # es) =
     (if me_TurnId e = turnId \<and> me_Player e = player \<and> me_Response e = []
      then Some (e\<lparr>me_Response := CleanNpcAgentSpeechText response, me_AtMs := atMs\<rparr> # es)
      else map_option (Cons e) (Reply_loop turnId player response atMs es))"

definition RememberPlayerReply :: "u64 \<Rightarrow> ObjectGuid \<Rightarrow> bytes \<Rightarrow> u64 \<Rightarrow> NpcAgentMemoryStore \<Rightarrow> bool \<times> NpcAgentMemoryStore" where
  "RememberPlayerReply turnId player response atMs s0 =
     (if turnId = 0 \<or> \<not> IsPlayer player \<or> \<not> ValidateNpcAgentSpeechText response then (False, s0)
      else let (observed, s) = Memory_Observe atMs s0 in
        if \<not> observed then (False, s)
        else case Reply_loop turnId player response atMs (ms_private s) of
            None \<Rightarrow> (False, s)
          | Some es \<Rightarrow> (True, s\<lparr>ms_private := es\<rparr>))"

definition RememberPublic :: "string \<Rightarrow> bytes \<Rightarrow> bytes \<Rightarrow> u64 \<Rightarrow> u64 \<Rightarrow> NpcAgentMemoryStore \<Rightarrow> bool \<times> NpcAgentMemoryStore" where
  "RememberPublic kind speaker text atMs turnId s =
     (if \<not> CanAllocate s then (False, s)
      else let kept = (if length (ms_public s) = MaxPublicRecords then EraseOldest 0 (ms_public s) else ms_public s)
           in (True, s\<lparr>ms_sequence := ms_sequence s + 1,
                 ms_public := kept @
                   [\<lparr>me_Id = ms_sequence s + 1, me_AtMs = atMs, me_TurnId = turnId, me_Player = 0,
                     me_Kind = kind, me_Speaker = speaker, me_Text = CleanNpcAgentSpeechText text, me_Response = []\<rparr>]\<rparr>))"

definition RememberNpc :: "u64 \<Rightarrow> bytes \<Rightarrow> bytes \<Rightarrow> u64 \<Rightarrow> NpcAgentMemoryStore \<Rightarrow> bool \<times> NpcAgentMemoryStore" where
  "RememberNpc utteranceId speaker text atMs s0 =
     (if utteranceId = 0 \<or> \<not> ValidMemory speaker text then (False, s0)
      else let (observed, s) = Memory_Observe atMs s0 in
        if \<not> observed then (False, s)
        else if list_ex (\<lambda>e. me_Kind e = ''NPC_DIALOGUE'' \<and> me_TurnId e = utteranceId) (ms_public s) then (False, s)
        else RememberPublic ''NPC_DIALOGUE'' speaker text atMs utteranceId s)"

fun Coalesce_loop :: "bytes \<Rightarrow> bytes \<Rightarrow> u64 \<Rightarrow> MemoryEntry list \<Rightarrow> MemoryEntry list option" where
  "Coalesce_loop speaker feedback atMs [] = None"
| "Coalesce_loop speaker feedback atMs (e # es) =
     (if me_Kind e = ''ACTION_RESULT'' \<and> me_Speaker e = speaker \<and> me_Text e = feedback
      then Some (e\<lparr>me_AtMs := atMs\<rparr> # es)
      else map_option (Cons e) (Coalesce_loop speaker feedback atMs es))"

definition RememberAction :: "bytes \<Rightarrow> bytes \<Rightarrow> u64 \<Rightarrow> NpcAgentMemoryStore \<Rightarrow> bool \<times> NpcAgentMemoryStore" where
  "RememberAction speaker feedback atMs s0 =
     (if \<not> ValidMemory speaker feedback then (False, s0)
      else let (observed, s) = Memory_Observe atMs s0 in
        if \<not> observed then (False, s)
        else case Coalesce_loop speaker feedback atMs (ms_public s) of
            Some es \<Rightarrow> (True, s\<lparr>ms_public := es\<rparr>)
          | None \<Rightarrow> RememberPublic ''ACTION_RESULT'' speaker feedback atMs 0 s)"

definition Memory_Size :: "NpcAgentMemoryStore \<Rightarrow> nat" where
  "Memory_Size s = length (ms_private s) + length (ms_public s)"

section \<open>Words and their relation\<close>

definition ascii :: "string \<Rightarrow> bytes" where
  "ascii cs = map of_char cs"

text \<open>The stop words; the accented letters in UTF-8.\<close>

definition NoiseWords :: "bytes list" where
  "NoiseWords = map ascii [''jsem'', ''jsi'', ''jste'', ''nebo'', ''jako'', ''jakou'', ''bylo'', ''byla'', ''byli'', ''kdy'', ''kde'',
     ''jak'', ''tak'', ''ano'', ''the'', ''and'', ''you'', ''your'', ''what''] @
     [ascii ''kter'' @ [0xC3, 0xBD], ascii ''kter'' @ [0xC3, 0xA1], ascii ''kter'' @ [0xC3, 0xA9],
      ascii ''m'' @ [0xC3, 0xA1] @ ascii ''m'', ascii ''m'' @ [0xC3, 0xA1, 0xC5, 0xA1], ascii ''pro'' @ [0xC4, 0x8D]]"

definition PunctuationByte :: "u8 \<Rightarrow> bool" where
  "PunctuationByte c = (c \<ge> 0x21 \<and> c \<le> 0x2F \<or> c \<ge> 0x3A \<and> c \<le> 0x40 \<or> c \<ge> 0x5B \<and> c \<le> 0x60 \<or> c \<ge> 0x7B \<and> c \<le> 0x7E)"

function Words_loop :: "bytes \<Rightarrow> bytes list" where
  "Words_loop text =
     (if text = [] then []
      else let word = takeWhile (\<lambda>b. b \<noteq> 0x20) text
           in (if length word \<ge> 3 \<and> word \<notin> set NoiseWords then [word] else []) @
              Words_loop (drop (length word + 1) text))"
  by pat_completeness auto
termination
  by (relation "measure length") auto

declare Words_loop.simps [simp del]

definition Tokens :: "bytes \<Rightarrow> bytes list" where
  "Tokens text = remdups (Words_loop (the (NormalizeNpcAgentSpeech
     (map (\<lambda>c. if PunctuationByte c then 0x20 else c) text))))"

fun SharedPrefix :: "bytes \<Rightarrow> bytes \<Rightarrow> nat" where
  "SharedPrefix (x # xs) (y # ys) = (if x = y then Suc (SharedPrefix xs ys) else 0)"
| "SharedPrefix _ _ = 0"

text \<open>Step back to the start of a UTF-8 sequence.\<close>

fun Boundary_loop :: "bytes \<Rightarrow> nat \<Rightarrow> nat" where
  "Boundary_loop a 0 = 0"
| "Boundary_loop a (Suc k) =
     (if Suc k < length a \<and> (a ! Suc k) AND 0xC0 = 0x80 then Boundary_loop a k else Suc k)"

definition Related :: "bytes \<Rightarrow> bytes \<Rightarrow> bool" where
  "Related a b =
     (if a = b then True
      else let shared = Boundary_loop a (SharedPrefix a b)
           in shared \<ge> 4 \<and> length a - shared \<le> 4 \<and> length b - shared \<le> 4)"

section \<open>Retrieval\<close>

record NpcAgentMemory =
  nm_Id :: u64
  nm_AgeMs :: u64
  nm_Kind :: string
  nm_Speaker :: bytes
  nm_Text :: bytes
  nm_Response :: bytes
  nm_Relevance :: u32

type_synonym RecallCandidate = "MemoryEntry \<times> u32"

definition Score :: "bytes list \<Rightarrow> bool \<Rightarrow> MemoryEntry \<Rightarrow> u32" where
  "Score queryTokens personal e =
     (let tokens = Tokens (me_Text e) @ Tokens (me_Response e) @ Tokens (me_Speaker e);
          matches = of_nat (length (filter (\<lambda>word. list_ex (Related word) tokens) queryTokens))
      in matches * 1000 + (if personal then 200 else 0))"

definition RecallCandidates :: "u64 \<Rightarrow> bytes \<Rightarrow> ObjectGuid \<Rightarrow> u64 \<Rightarrow> NpcAgentMemoryStore \<Rightarrow> RecallCandidate list" where
  "RecallCandidates nowMs query player excludedTurn s =
     (let queryTokens = Tokens query in
      map (\<lambda>e. (e, Score queryTokens False e)) (filter (\<lambda>e. \<not> me_AtMs e > nowMs) (ms_public s)) @
      (if IsPlayer player
       then map (\<lambda>e. (e, Score queryTokens True e))
         (filter (\<lambda>e. me_Player e = player \<and> \<not> (me_AtMs e > nowMs \<or> excludedTurn \<noteq> 0 \<and> me_TurnId e = excludedTurn))
           (ms_private s))
       else []))"

definition by_relevance :: "RecallCandidate \<Rightarrow> int \<times> int \<times> int" where
  "by_relevance c = (- uint (snd c), - uint (me_AtMs (fst c)), - uint (me_Id (fst c)))"

definition by_time :: "RecallCandidate \<Rightarrow> int \<times> int" where
  "by_time c = (uint (me_AtMs (fst c)), uint (me_Id (fst c)))"

definition ShownSpeaker :: "bytes \<Rightarrow> MemoryEntry \<Rightarrow> bytes" where
  "ShownSpeaker currentPlayerName e =
     (if \<not> IsEmpty (me_Player e) \<and> currentPlayerName \<noteq> [] then currentPlayerName else me_Speaker e)"

definition RecallCost :: "bytes \<Rightarrow> MemoryEntry \<Rightarrow> nat" where
  "RecallCost currentPlayerName e = length (ShownSpeaker currentPlayerName e) + length (me_Text e) + length (me_Response e)"

fun Select_loop :: "bytes \<Rightarrow> RecallCandidate list \<Rightarrow> RecallCandidate list \<Rightarrow> nat \<Rightarrow> RecallCandidate list" where
  "Select_loop name [] selected used = selected"
| "Select_loop name (c # cs) selected used =
     (if RecallCost name (fst c) > MaxRecallBytes - used then Select_loop name cs selected used
      else if length selected + 1 = MaxRecalled then selected @ [c]
      else Select_loop name cs (selected @ [c]) (used + RecallCost name (fst c)))"

definition Recalled :: "u64 \<Rightarrow> bytes \<Rightarrow> RecallCandidate \<Rightarrow> NpcAgentMemory" where
  "Recalled nowMs name c = \<lparr>nm_Id = me_Id (fst c), nm_AgeMs = nowMs - me_AtMs (fst c), nm_Kind = me_Kind (fst c),
     nm_Speaker = ShownSpeaker name (fst c), nm_Text = me_Text (fst c), nm_Response = me_Response (fst c),
     nm_Relevance = snd c\<rparr>"

definition RetrieveMemories :: "u64 \<Rightarrow> bytes \<Rightarrow> ObjectGuid \<Rightarrow> u64 \<Rightarrow> bytes \<Rightarrow> NpcAgentMemoryStore \<Rightarrow> NpcAgentMemory list" where
  "RetrieveMemories nowMs query player excludedTurn currentPlayerName s =
     (if currentPlayerName \<noteq> [] \<and> \<not> ValidateNpcAgentPlainText currentPlayerName 80 32 False then []
      else map (Recalled nowMs currentPlayerName)
        (sort_key by_time (Select_loop currentPlayerName
          (sort_key by_relevance (RecallCandidates nowMs query player excludedTurn s)) [] 0)))"

section \<open>What is forgotten is the oldest\<close>

definition matching :: "ObjectGuid \<Rightarrow> MemoryEntry \<Rightarrow> bool" where
  "matching player e = (IsEmpty player \<or> me_Player e = player)"

definition age_key :: "MemoryEntry \<Rightarrow> u64 \<times> u64" where
  "age_key e = (me_AtMs e, me_Id e)"

lemma older_iff: "me_AtMs a < me_AtMs b \<or> me_AtMs a = me_AtMs b \<and> me_Id a < me_Id b \<longleftrightarrow> age_key a < age_key b"
  by (auto simp: age_key_def less_prod_def)

lemma Oldest_loop_spec:
  "Oldest_loop p i oldest es = r \<Longrightarrow>
     (r = oldest \<and> (\<forall>e \<in> set es. matching p e \<longrightarrow> (\<exists>j old. oldest = Some (j, old) \<and> age_key old \<le> age_key e))) \<or>
     (\<exists>k < length es. r = Some (i + k, es ! k) \<and> matching p (es ! k) \<and>
        (\<forall>e \<in> set es. matching p e \<longrightarrow> age_key (es ! k) \<le> age_key e) \<and>
        (\<forall>j old. oldest = Some (j, old) \<longrightarrow> age_key (es ! k) \<le> age_key old))"
proof (induction p i oldest es rule: Oldest_loop.induct)
  case (2 p i oldest e es)
  define o' where "o' = (if matching p e \<and> (case oldest of None \<Rightarrow> True | Some (j, old) \<Rightarrow> age_key e < age_key old)
      then Some (i, e) else oldest)"
  have r: "Oldest_loop p (Suc i) o' es = r"
    using 2(2) by (simp add: o'_def matching_def older_iff cong: option.case_cong)
  have IH: "(r = o' \<and> (\<forall>e \<in> set es. matching p e \<longrightarrow> (\<exists>j old. o' = Some (j, old) \<and> age_key old \<le> age_key e))) \<or>
     (\<exists>k < length es. r = Some (Suc i + k, es ! k) \<and> matching p (es ! k) \<and>
        (\<forall>e \<in> set es. matching p e \<longrightarrow> age_key (es ! k) \<le> age_key e) \<and>
        (\<forall>j old. o' = Some (j, old) \<longrightarrow> age_key (es ! k) \<le> age_key old))"
    using 2(1) r by (simp add: o'_def matching_def older_iff cong: option.case_cong)
  show ?case
  proof (cases "o' = oldest")
    case True
    have skip: "matching p e \<Longrightarrow> \<exists>j old. oldest = Some (j, old) \<and> age_key old \<le> age_key e"
      using True by (cases oldest) (auto simp: o'_def not_less split: if_splits)
    from IH show ?thesis
    proof (elim disjE exE conjE)
      fix k assume k: "k < length es" "r = Some (Suc i + k, es ! k)" "matching p (es ! k)"
        "\<forall>e \<in> set es. matching p e \<longrightarrow> age_key (es ! k) \<le> age_key e"
        "\<forall>j old. o' = Some (j, old) \<longrightarrow> age_key (es ! k) \<le> age_key old"
      then show ?thesis using skip True by (intro disjI2 exI [of _ "Suc k"]) (auto intro: order.trans)
    qed (use skip True in auto)
  next
    case False
    then have o': "o' = Some (i, e)" "matching p e" "\<forall>j old. oldest = Some (j, old) \<longrightarrow> age_key e < age_key old"
      by (auto simp: o'_def split: if_splits option.splits)
    from IH show ?thesis
    proof (elim disjE exE conjE)
      assume "r = o'" "\<forall>e \<in> set es. matching p e \<longrightarrow> (\<exists>j old. o' = Some (j, old) \<and> age_key old \<le> age_key e)"
      then show ?thesis using o' by (intro disjI2 exI [of _ 0]) (auto intro: less_imp_le)
    next
      fix k assume k: "k < length es" "r = Some (Suc i + k, es ! k)" "matching p (es ! k)"
        "\<forall>e \<in> set es. matching p e \<longrightarrow> age_key (es ! k) \<le> age_key e"
        "\<forall>j old. o' = Some (j, old) \<longrightarrow> age_key (es ! k) \<le> age_key old"
      then show ?thesis using o' by (intro disjI2 exI [of _ "Suc k"]) (auto intro: order.trans less_imp_le)
    qed
  qed
qed simp

lemma EraseOldest_spec:
  "(\<forall>e \<in> set es. \<not> matching p e) \<and> EraseOldest p es = es \<or>
   (\<exists>ys x zs. es = ys @ x # zs \<and> EraseOldest p es = ys @ zs \<and> matching p x \<and>
      (\<forall>e \<in> set es. matching p e \<longrightarrow> age_key x \<le> age_key e))"
  using Oldest_loop_spec [OF refl, of p 0 None es]
proof (elim disjE exE conjE)
  fix k assume k: "k < length es" "Oldest_loop p 0 None es = Some (0 + k, es ! k)" "matching p (es ! k)"
    "\<forall>e \<in> set es. matching p e \<longrightarrow> age_key (es ! k) \<le> age_key e"
  from erase_at_split [OF k(1)] obtain ys zs where "es = ys @ es ! k # zs" "erase_at k es = ys @ zs" by blast
  with k show ?thesis by (intro disjI2 exI [of _ ys] exI [of _ "es ! k"] exI [of _ zs]) (simp add: EraseOldest_def)
qed (auto simp: EraseOldest_def)

lemma subseq_set: "subseq xs ys \<Longrightarrow> set xs \<subseteq> set ys"
  by (induction rule: list_emb.induct) auto

lemma EraseOldest_subseq: "subseq (EraseOldest p es) es"
  using EraseOldest_spec [of es p] by (auto simp: subseq_append')

lemma length_EraseOldest: "e \<in> set es \<Longrightarrow> matching p e \<Longrightarrow> length (EraseOldest p es) = length es - 1"
  using EraseOldest_spec [of es p] by auto

lemma filter_EraseOldest:
  "e \<in> set es \<Longrightarrow> me_Player e = p \<Longrightarrow> \<not> IsEmpty p \<Longrightarrow>
     length (filter (\<lambda>e. me_Player e = p) (EraseOldest p es)) = length (filter (\<lambda>e. me_Player e = p) es) - 1"
  using EraseOldest_spec [of es p] by (auto simp: matching_def)

lemma Partners_spec: "distinct (Partners es) \<and> set (Partners es) = me_Player ` set es"
proof -
  have "distinct (fold (\<lambda>e ps. if me_Player e \<in> set ps then ps else ps @ [me_Player e]) es ps) \<and>
      set (fold (\<lambda>e ps. if me_Player e \<in> set ps then ps else ps @ [me_Player e]) es ps) = set ps \<union> me_Player ` set es"
    if "distinct ps" for ps using that by (induction es arbitrary: ps) auto
  from this [of "[]"] show ?thesis by (simp add: Partners_def)
qed

section \<open>Making room\<close>

text \<open>The private table of a store.\<close>

definition table_ok :: "MemoryEntry list \<Rightarrow> bool" where
  "table_ok es = (length es \<le> MaxPrivateRecords \<and> card (me_Player ` set es) \<le> MaxPlayers \<and>
     (\<forall>p. length (filter (\<lambda>e. me_Player e = p) es) \<le> MaxRecordsPerPlayer))"

lemma table_ok_subseq:
  assumes "table_ok es" and "subseq es' es"
  shows "table_ok es'"
proof -
  have "card (me_Player ` set es') \<le> card (me_Player ` set es)"
    using subseq_set [OF assms(2)] by (intro card_mono) auto
  moreover have "length (filter P es') \<le> length (filter P es)" for P
    using list_emb_length [OF subseq_filter [OF assms(2)]] .
  ultimately show ?thesis using assms(1) list_emb_length [OF assms(2)]
    unfolding table_ok_def by (meson le_trans)
qed

lemma MakeRoom_ok:
  assumes "table_ok es" and "IsPlayer p"
  shows "subseq (MakeRoom p es) es"
    and "length (MakeRoom p es) < MaxPrivateRecords"
    and "card (insert p (me_Player ` set (MakeRoom p es))) \<le> MaxPlayers"
    and "length (filter (\<lambda>e. me_Player e = p) (MakeRoom p es)) < MaxRecordsPerPlayer"
proof -
  define es1 where "es1 = (if p \<notin> set (Partners es) \<and> length (Partners es) \<ge> MaxPlayers
      then filter (\<lambda>e. me_Player e \<noteq> Partners es ! min_element (\<lambda>p. LastPlayerAt p es) (Partners es)) es else es)"
  define es2 where "es2 = (if length (filter (\<lambda>e. me_Player e = p) es1) \<ge> MaxRecordsPerPlayer then EraseOldest p es1 else es1)"
  have m: "MakeRoom p es = (if length es2 \<ge> MaxPrivateRecords then EraseOldest 0 es2 else es2)"
    by (simp add: MakeRoom_def Let_def es1_def es2_def)
  have s1: "subseq es1 es" by (simp add: es1_def)
  have s2: "subseq es2 es1" by (simp add: es2_def EraseOldest_subseq)
  have s3: "subseq (MakeRoom p es) es2" by (simp add: m EraseOldest_subseq)
  show sub: "subseq (MakeRoom p es) es" using s1 s2 s3 by (meson subseq_order.order_trans)
  have ok1: "table_ok es1" by (rule table_ok_subseq [OF assms(1) s1])
  have ok2: "table_ok es2" by (rule table_ok_subseq [OF ok1 s2])
  have nz: "\<not> IsEmpty p" using assms(2) by (simp add: IsPlayer_def)
  have "length (filter (\<lambda>e. me_Player e = p) es2) < MaxRecordsPerPlayer"
  proof (cases "length (filter (\<lambda>e. me_Player e = p) es1) \<ge> MaxRecordsPerPlayer")
    case True
    then have "filter (\<lambda>e. me_Player e = p) es1 \<noteq> []" by (auto simp: MaxRecordsPerPlayer_def)
    then obtain e where "e \<in> set es1" "me_Player e = p" by (auto simp: filter_empty_conv)
    note erased = filter_EraseOldest [OF this nz]
    have "length (filter (\<lambda>e. me_Player e = p) es1) \<le> MaxRecordsPerPlayer" using ok1 by (simp add: table_ok_def)
    with True erased show ?thesis by (simp add: es2_def MaxRecordsPerPlayer_def)
  qed (simp add: es2_def)
  with list_emb_length [OF subseq_filter [OF s3, of "\<lambda>e. me_Player e = p"]]
  show "length (filter (\<lambda>e. me_Player e = p) (MakeRoom p es)) < MaxRecordsPerPlayer"
    by simp
  show "length (MakeRoom p es) < MaxPrivateRecords"
  proof (cases "length es2 \<ge> MaxPrivateRecords")
    case True
    then obtain e where "e \<in> set es2" by (cases es2) (auto simp: MaxPrivateRecords_def)
    with length_EraseOldest [of e es2 0] True ok2 show ?thesis
      by (auto simp: m matching_def IsEmpty_def table_ok_def MaxPrivateRecords_def)
  qed (simp add: m)
  have sub12: "set (MakeRoom p es) \<subseteq> set es1" using s2 s3 subseq_set by blast
  show "card (insert p (me_Player ` set (MakeRoom p es))) \<le> MaxPlayers"
  proof (cases "p \<in> set (Partners es)")
    case True
    then have "insert p (me_Player ` set (MakeRoom p es)) \<subseteq> me_Player ` set es"
      using Partners_spec [of es] subseq_set [OF sub] by auto
    then have "card (insert p (me_Player ` set (MakeRoom p es))) \<le> card (me_Player ` set es)" by (intro card_mono) auto
    with assms(1) show ?thesis by (simp add: table_ok_def)
  next
    case new: False
    have "card (me_Player ` set es1) < MaxPlayers"
    proof (cases "length (Partners es) \<ge> MaxPlayers")
      case True
      define evicted where "evicted = Partners es ! min_element (\<lambda>p. LastPlayerAt p es) (Partners es)"
      have "Partners es \<noteq> []" using True by (auto simp: MaxPlayers_def)
      then have ev: "evicted \<in> me_Player ` set es"
        using min_element_less [of "Partners es"] Partners_spec [of es] unfolding evicted_def by (metis nth_mem)
      have "me_Player ` set es1 \<subseteq> me_Player ` set es - {evicted}" using True new by (auto simp: es1_def evicted_def)
      then have "card (me_Player ` set es1) \<le> card (me_Player ` set es - {evicted})" by (intro card_mono) auto
      also have "\<dots> < card (me_Player ` set es)" using ev by (intro psubset_card_mono) auto
      finally show ?thesis using assms(1) by (simp add: table_ok_def)
    next
      case False
      then have "card (me_Player ` set es) < MaxPlayers"
        using Partners_spec [of es] by (metis distinct_card not_le)
      with False show ?thesis by (simp add: es1_def)
    qed
    moreover have "card (me_Player ` set (MakeRoom p es)) \<le> card (me_Player ` set es1)"
      using sub12 by (intro card_mono) auto
    ultimately show ?thesis
      using card_insert_le_m1 [of MaxPlayers "me_Player ` set (MakeRoom p es)" p] by (simp add: MaxPlayers_def)
  qed
qed

lemma subseq_distinct: "subseq xs ys \<Longrightarrow> distinct ys \<Longrightarrow> distinct xs"
  by (induction rule: list_emb.induct) (auto dest: subseq_set)

lemma table_ok_cong:
  assumes "map me_Player es = map me_Player es'"
  shows "table_ok es = table_ok es'"
proof -
  have count: "length (filter (\<lambda>e. me_Player e = p) xs) = length (filter (\<lambda>q. q = p) (map me_Player xs))" for p xs
    by (simp add: filter_map o_def)
  have "me_Player ` set es = me_Player ` set es'" using assms by (metis list.set_map)
  moreover have "length es = length es'" using assms by (metis length_map)
  ultimately show ?thesis by (simp add: table_ok_def count assms)
qed

lemma table_ok_add:
  assumes "table_ok es" and "IsPlayer (me_Player e)"
  shows "table_ok (MakeRoom (me_Player e) es @ [e])"
proof -
  note r = MakeRoom_ok [OF assms] and s = table_ok_subseq [OF assms(1) MakeRoom_ok(1) [OF assms]]
  show ?thesis using r(2,3,4) s by (auto simp: table_ok_def less_Suc_eq_le [symmetric])
qed

section \<open>Runs of the store\<close>

datatype memory_op =
    M_Player u64 ObjectGuid bytes bytes u64
  | M_Reply u64 ObjectGuid bytes u64
  | M_Npc u64 bytes bytes u64
  | M_Action bytes bytes u64

fun memory_step :: "memory_op \<Rightarrow> NpcAgentMemoryStore \<Rightarrow> NpcAgentMemoryStore" where
  "memory_step (M_Player turnId player speaker text atMs) s = snd (RememberPlayer turnId player speaker text atMs s)"
| "memory_step (M_Reply turnId player response atMs) s = snd (RememberPlayerReply turnId player response atMs s)"
| "memory_step (M_Npc utteranceId speaker text atMs) s = snd (RememberNpc utteranceId speaker text atMs s)"
| "memory_step (M_Action speaker feedback atMs) s = snd (RememberAction speaker feedback atMs s)"

definition memory_run :: "memory_op list \<Rightarrow> NpcAgentMemoryStore" where
  "memory_run ops = fold memory_step ops MemoryStore_init"

text \<open>The player said this to the agent; the agent said this to the player.\<close>

fun said_by :: "ObjectGuid \<Rightarrow> bytes \<Rightarrow> memory_op \<Rightarrow> bool" where
  "said_by p t (M_Player turnId player speaker text atMs) = (player = p \<and> CleanNpcAgentSpeechText text = t)"
| "said_by p t _ = False"

fun said_to :: "ObjectGuid \<Rightarrow> bytes \<Rightarrow> memory_op \<Rightarrow> bool" where
  "said_to p t (M_Reply turnId player response atMs) = (player = p \<and> CleanNpcAgentSpeechText response = t)"
| "said_to p t _ = False"

definition private_entry :: "memory_op list \<Rightarrow> MemoryEntry \<Rightarrow> bool" where
  "private_entry ops e = (IsPlayer (me_Player e) \<and> me_Kind e = ''PLAYER_DIALOGUE'' \<and>
     list_ex (said_by (me_Player e) (me_Text e)) ops \<and>
     (me_Response e = [] \<or> list_ex (said_to (me_Player e) (me_Response e)) ops))"

definition public_entry :: "MemoryEntry \<Rightarrow> bool" where
  "public_entry e = (me_Player e = 0 \<and> me_Kind e \<in> {''NPC_DIALOGUE'', ''ACTION_RESULT''} \<and> me_Response e = [])"

definition entries_of :: "NpcAgentMemoryStore \<Rightarrow> MemoryEntry list" where
  "entries_of s = ms_private s @ ms_public s"

definition memory_ok :: "memory_op list \<Rightarrow> NpcAgentMemoryStore \<Rightarrow> bool" where
  "memory_ok ops s =
     (table_ok (ms_private s) \<and> length (ms_public s) \<le> MaxPublicRecords \<and>
      list_all (private_entry ops) (ms_private s) \<and> list_all public_entry (ms_public s) \<and>
      distinct (map me_Id (entries_of s)) \<and> list_all (\<lambda>e. me_Id e \<le> ms_sequence s) (entries_of s))"

lemma Observe_cases: "Memory_Observe tm s = (b, s') \<Longrightarrow> \<exists>w. s' = s\<lparr>ms_observedAtMs := w\<rparr>"
  by (cases s) (auto simp: Memory_Observe_def split: if_splits)

lemma memory_ok_observed [simp]: "memory_ok ops (s\<lparr>ms_observedAtMs := w\<rparr>) = memory_ok ops s"
  by (simp add: memory_ok_def entries_of_def)

lemma memory_ok_more: "memory_ok ops s \<Longrightarrow> memory_ok (ops @ [op]) s"
  by (auto simp: memory_ok_def private_entry_def list_all_iff)

lemma next_id:
  assumes "CanAllocate s"
  shows "ms_sequence s < ms_sequence s + 1"
proof -
  have "unat (ms_sequence s) < 18446744073709551615"
    using assms by (simp add: CanAllocate_def word_less_nat_alt)
  then show ?thesis by (simp add: word_less_nat_alt unat_word_ariths)
qed

text \<open>Adding one fresh entry to one of the tables.\<close>

lemma memory_ok_add_private:
  assumes "memory_ok ops s" and "CanAllocate s" and "private_entry ops e" and "me_Id e = ms_sequence s + 1"
  shows "memory_ok ops (s\<lparr>ms_sequence := ms_sequence s + 1, ms_private := MakeRoom (me_Player e) (ms_private s) @ [e]\<rparr>)"
proof -
  note n = next_id [OF assms(2)]
  have p: "IsPlayer (me_Player e)" using assms(3) by (simp add: private_entry_def)
  have t: "table_ok (ms_private s)" using assms(1) by (simp add: memory_ok_def)
  let ?r = "MakeRoom (me_Player e) (ms_private s)"
  have sub: "subseq (map me_Id ?r @ map me_Id (ms_public s)) (map me_Id (ms_private s) @ map me_Id (ms_public s))"
    by (intro list_emb_append_mono subseq_map MakeRoom_ok(1) t p) simp
  have d: "distinct (map me_Id ?r @ map me_Id (ms_public s))"
    using assms(1) subseq_distinct [OF sub] by (simp add: memory_ok_def entries_of_def)
  have old: "set ?r \<subseteq> set (ms_private s)" by (rule subseq_set [OF MakeRoom_ok(1) [OF t p]])
  have small: "me_Id x \<le> ms_sequence s" if "x \<in> set (ms_private s) \<union> set (ms_public s)" for x
    using assms(1) that by (auto simp: memory_ok_def entries_of_def list_all_iff)
  have "me_Id x < ms_sequence s + 1" if "x \<in> set ?r \<union> set (ms_public s)" for x
    using small [of x] that old n by auto
  then show ?thesis
    using assms(1,3,4) table_ok_add [OF t p] d old n
    by (fastforce simp: memory_ok_def entries_of_def list_all_iff)
qed

lemma memory_ok_add_public:
  assumes "memory_ok ops s" and "kind \<in> {''NPC_DIALOGUE'', ''ACTION_RESULT''}"
  shows "memory_ok ops (snd (RememberPublic kind speaker text tm turnId s))"
proof (cases "CanAllocate s")
  case True
  note n = next_id [OF True]
  let ?r = "if length (ms_public s) = MaxPublicRecords then EraseOldest 0 (ms_public s) else ms_public s"
  let ?e = "\<lparr>me_Id = ms_sequence s + 1, me_AtMs = tm, me_TurnId = turnId, me_Player = 0, me_Kind = kind,
    me_Speaker = speaker, me_Text = CleanNpcAgentSpeechText text, me_Response = []\<rparr>"
  have s': "snd (RememberPublic kind speaker text tm turnId s) = s\<lparr>ms_sequence := ms_sequence s + 1, ms_public := ?r @ [?e]\<rparr>"
    using True by (simp add: RememberPublic_def Let_def)
  have sub: "subseq ?r (ms_public s)" by (simp add: EraseOldest_subseq)
  have "subseq (map me_Id (ms_private s) @ map me_Id ?r) (map me_Id (ms_private s) @ map me_Id (ms_public s))"
    using sub by (intro list_emb_append_mono subseq_map) simp
  from subseq_distinct [OF this] have d: "distinct (map me_Id (ms_private s) @ map me_Id ?r)"
    using assms(1) by (simp add: memory_ok_def entries_of_def)
  have old: "set ?r \<subseteq> set (ms_public s)" by (rule subseq_set [OF sub])
  have len: "length ?r < MaxPublicRecords"
  proof (cases "length (ms_public s) = MaxPublicRecords")
    case True
    then obtain x where "x \<in> set (ms_public s)" by (cases "ms_public s") (auto simp: MaxPublicRecords_def)
    with length_EraseOldest [of x "ms_public s" 0] True show ?thesis
      by (simp add: matching_def IsEmpty_def MaxPublicRecords_def)
  next
    case False
    with assms(1) show ?thesis by (simp add: memory_ok_def)
  qed
  have "me_Id x < ms_sequence s + 1" if "x \<in> set (ms_private s) \<union> set ?r" for x
    using assms(1) that old n by (auto simp: memory_ok_def entries_of_def list_all_iff intro: le_less_trans)
  then show ?thesis
    unfolding s' using assms d old len n
    by (fastforce simp: memory_ok_def entries_of_def list_all_iff public_entry_def)
qed (use assms in \<open>simp add: RememberPublic_def\<close>)

lemma Reply_loop_Some:
  "Reply_loop turnId player response tm es = Some es' \<Longrightarrow>
     list_all2 (\<lambda>e e'. e' = e \<or> me_Player e = player \<and>
       e' = e\<lparr>me_Response := CleanNpcAgentSpeechText response, me_AtMs := tm\<rparr>) es es'"
  by (induction turnId player response tm es arbitrary: es' rule: Reply_loop.induct)
    (auto simp: list_all2_same split: if_splits)

lemma Coalesce_loop_Some:
  "Coalesce_loop speaker feedback tm es = Some es' \<Longrightarrow>
     list_all2 (\<lambda>e e'. e' = e \<or> e' = e\<lparr>me_AtMs := tm\<rparr>) es es'"
  by (induction speaker feedback tm es arbitrary: es' rule: Coalesce_loop.induct)
    (auto simp: list_all2_same split: if_splits)

lemma list_all2_map_same: "list_all2 R es es' \<Longrightarrow> (\<And>e e'. R e e' \<Longrightarrow> f e' = f e) \<Longrightarrow> map f es' = map f es"
  by (induction rule: list_all2_induct) auto

lemma Reply_loop_keeps:
  assumes "Reply_loop turnId player response tm es = Some es'"
  shows "map me_Player es' = map me_Player es" and "map me_Id es' = map me_Id es"
  by (rule list_all2_map_same [OF Reply_loop_Some [OF assms]], auto)+

lemma Coalesce_loop_keeps: "Coalesce_loop speaker feedback tm es = Some es' \<Longrightarrow> map me_Id es' = map me_Id es"
  by (rule list_all2_map_same [OF Coalesce_loop_Some]) auto

lemma list_all2_transfer:
  "list_all2 R es es' \<Longrightarrow> list_all P es \<Longrightarrow> (\<And>e e'. R e e' \<Longrightarrow> P e \<Longrightarrow> Q e') \<Longrightarrow> list_all Q es'"
  by (induction rule: list_all2_induct) auto

lemma memory_ok_tables:
  assumes "memory_ok ops s"
    and "map me_Player es = map me_Player (ms_private s)" and "map me_Id es = map me_Id (ms_private s)"
    and "map me_Id fs = map me_Id (ms_public s)"
    and "list_all (private_entry ops) es" and "list_all public_entry fs"
  shows "memory_ok ops (s\<lparr>ms_private := es, ms_public := fs\<rparr>)"
proof -
  have "length fs = length (ms_public s)" using assms(4) by (metis length_map)
  moreover have "me_Id ` set es = me_Id ` set (ms_private s)" "me_Id ` set fs = me_Id ` set (ms_public s)"
    using assms(3,4) by (metis list.set_map)+
  moreover have bound: "list_all (\<lambda>e. me_Id e \<le> n) xs = (\<forall>i \<in> me_Id ` set xs. i \<le> n)" for n xs
    by (simp add: list_all_iff)
  ultimately show ?thesis
    using assms(1,5,6) table_ok_cong [OF assms(2)] assms(3,4)
    by (simp add: memory_ok_def entries_of_def bound distinct_append image_Un)
qed

lemma memory_ok_step:
  assumes "memory_ok ops s"
  shows "memory_ok (ops @ [op]) (memory_step op s)"
proof -
  let ?ops = "ops @ [op]"
  have ok: "memory_ok ?ops s" by (rule memory_ok_more [OF assms])
  have obs: "memory_ok ?ops s'" if "Memory_Observe tm s = (b, s')" for tm b s'
    using Observe_cases [OF that] ok by auto
  show ?thesis
  proof (cases op)
    case (M_Player turnId player speaker msg tm)
    obtain b s1 where o: "Memory_Observe tm s = (b, s1)" by (cases "Memory_Observe tm s")
    note ok1 = obs [OF o]
    show ?thesis
    proof (cases "fst (RememberPlayer turnId player speaker msg tm s)")
      case False
      with M_Player ok ok1 o show ?thesis by (auto simp: RememberPlayer_def split: if_splits)
    next
      case True
      let ?e = "\<lparr>me_Id = ms_sequence s1 + 1, me_AtMs = tm, me_TurnId = turnId, me_Player = player,
          me_Kind = ''PLAYER_DIALOGUE'', me_Speaker = speaker, me_Text = CleanNpcAgentSpeechText msg, me_Response = []\<rparr>"
      from True o have c: "CanAllocate s1" "IsPlayer player" "snd (RememberPlayer turnId player speaker msg tm s) =
          s1\<lparr>ms_sequence := ms_sequence s1 + 1, ms_private := MakeRoom (me_Player ?e) (ms_private s1) @ [?e]\<rparr>"
        by (auto simp: RememberPlayer_def split: if_splits)
      have "private_entry ?ops ?e" using c(2) M_Player by (simp add: private_entry_def)
      from memory_ok_add_private [OF ok1 c(1) this] c(3) M_Player show ?thesis by simp
    qed
  next
    case (M_Reply turnId player response tm)
    obtain b s1 where o: "Memory_Observe tm s = (b, s1)" by (cases "Memory_Observe tm s")
    note ok1 = obs [OF o]
    have "memory_step op s = s \<or> memory_step op s = s1 \<or>
        (\<exists>es. Reply_loop turnId player response tm (ms_private s1) = Some es \<and>
           memory_step op s = s1\<lparr>ms_private := es, ms_public := ms_public s1\<rparr>)"
      using o M_Reply by (auto simp: RememberPlayerReply_def split: option.splits)
    then show ?thesis
    proof (elim disjE exE conjE)
      fix es assume r: "Reply_loop turnId player response tm (ms_private s1) = Some es"
        "memory_step op s = s1\<lparr>ms_private := es, ms_public := ms_public s1\<rparr>"
      note a = Reply_loop_Some [OF r(1)]
      have "list_all (private_entry ?ops) es"
        by (rule list_all2_transfer [OF a, of "private_entry ?ops"])
          (use ok1 M_Reply in \<open>auto simp: memory_ok_def private_entry_def\<close>)
      then show ?thesis unfolding r(2)
        using ok1 Reply_loop_keeps [OF r(1)]
        by (intro memory_ok_tables [OF ok1]) (auto simp: memory_ok_def)
    qed (use ok ok1 in simp_all)
  next
    case (M_Npc utteranceId speaker msg tm)
    obtain b s1 where o: "Memory_Observe tm s = (b, s1)" by (cases "Memory_Observe tm s")
    note ok1 = obs [OF o]
    have "memory_step op s = s \<or> memory_step op s = s1 \<or>
        memory_step op s = snd (RememberPublic ''NPC_DIALOGUE'' speaker msg tm utteranceId s1)"
      using o M_Npc by (auto simp: RememberNpc_def)
    with ok ok1 memory_ok_add_public [OF ok1, of "''NPC_DIALOGUE''" speaker msg tm utteranceId] show ?thesis by auto
  next
    case (M_Action speaker feedback tm)
    obtain b s1 where o: "Memory_Observe tm s = (b, s1)" by (cases "Memory_Observe tm s")
    note ok1 = obs [OF o]
    have "memory_step op s = s \<or> memory_step op s = s1 \<or>
        memory_step op s = snd (RememberPublic ''ACTION_RESULT'' speaker feedback tm 0 s1) \<or>
        (\<exists>es. Coalesce_loop speaker feedback tm (ms_public s1) = Some es \<and>
           memory_step op s = s1\<lparr>ms_private := ms_private s1, ms_public := es\<rparr>)"
      using o M_Action by (auto simp: RememberAction_def split: option.splits)
    then show ?thesis
    proof (elim disjE exE conjE)
      fix es assume r: "Coalesce_loop speaker feedback tm (ms_public s1) = Some es"
        "memory_step op s = s1\<lparr>ms_private := ms_private s1, ms_public := es\<rparr>"
      note a = Coalesce_loop_Some [OF r(1)]
      have "list_all public_entry es"
        by (rule list_all2_transfer [OF a, of public_entry])
          (use ok1 in \<open>auto simp: memory_ok_def public_entry_def\<close>)
      then show ?thesis unfolding r(2)
        using ok1 Coalesce_loop_keeps [OF r(1)]
        by (intro memory_ok_tables [OF ok1]) (auto simp: memory_ok_def)
    qed (use ok ok1 memory_ok_add_public [OF ok1, of "''ACTION_RESULT''" speaker feedback tm 0] in simp_all)
  qed
qed

lemma memory_run_ok: "memory_ok ops (memory_run ops)"
proof (induction ops rule: rev_induct)
  case Nil
  show ?case by (simp add: memory_run_def MemoryStore_init_def memory_ok_def table_ok_def entries_of_def)
next
  case (snoc op ops)
  have "memory_run (ops @ [op]) = memory_step op (memory_run ops)" by (simp add: memory_run_def)
  with memory_ok_step [OF snoc, of op] show ?case by simp
qed

section \<open>Recall\<close>

lemma set_Candidates:
  "c \<in> set (RecallCandidates now query p excluded s) \<Longrightarrow>
     me_AtMs (fst c) \<le> now \<and> (fst c \<in> set (ms_public s) \<or>
       fst c \<in> set (ms_private s) \<and> IsPlayer p \<and> me_Player (fst c) = p \<and> (excluded = 0 \<or> me_TurnId (fst c) \<noteq> excluded))"
  by (auto simp: RecallCandidates_def Let_def split: if_splits)

definition recall_size :: "bytes \<Rightarrow> RecallCandidate list \<Rightarrow> nat" where
  "recall_size name cs = (\<Sum>c\<leftarrow>cs. RecallCost name (fst c))"

lemma Select_loop_bounds:
  "length selected < MaxRecalled \<Longrightarrow> recall_size name selected = used \<Longrightarrow> used \<le> MaxRecallBytes \<Longrightarrow>
     length (Select_loop name cs selected used) \<le> MaxRecalled \<and>
     recall_size name (Select_loop name cs selected used) \<le> MaxRecallBytes"
  by (induction name cs selected used rule: Select_loop.induct) (auto simp: recall_size_def)

lemma Select_loop_subseq: "\<exists>picked. Select_loop name cs selected used = selected @ picked \<and> subseq picked cs"
proof (induction name cs selected used rule: Select_loop.induct)
  case (2 name c cs selected used)
  consider (skip) "RecallCost name (fst c) > MaxRecallBytes - used"
    | (last) "\<not> RecallCost name (fst c) > MaxRecallBytes - used" "length selected + 1 = MaxRecalled"
    | (more) "\<not> RecallCost name (fst c) > MaxRecallBytes - used" "length selected + 1 \<noteq> MaxRecalled" by blast
  then show ?case
  proof cases
    case skip
    with 2(1) show ?thesis by (auto intro: list_emb_Cons)
  next
    case last
    then show ?thesis by (intro exI [of _ "[c]"]) simp
  next
    case more
    with 2(2) obtain picked where "Select_loop name cs (selected @ [c]) (used + RecallCost name (fst c)) = (selected @ [c]) @ picked"
        "subseq picked cs" by blast
    with more show ?thesis by (intro exI [of _ "c # picked"]) simp
  qed
qed simp

section \<open>Properties of the memory\<close>

definition memory_size :: "NpcAgentMemory \<Rightarrow> nat" where
  "memory_size m = length (nm_Speaker m) + length (nm_Text m) + length (nm_Response m)"

text \<open>What a prompt about the given player may quote.\<close>

definition recall_allowed :: "memory_op list \<Rightarrow> ObjectGuid \<Rightarrow> NpcAgentMemory \<Rightarrow> bool" where
  "recall_allowed ops p m =
     (if nm_Kind m = ''PLAYER_DIALOGUE''
      then IsPlayer p \<and> list_ex (said_by p (nm_Text m)) ops \<and>
        (nm_Response m = [] \<or> list_ex (said_to p (nm_Response m)) ops)
      else nm_Kind m \<in> {''NPC_DIALOGUE'', ''ACTION_RESULT''} \<and> nm_Response m = [])"

lemma Retrieve_picked:
  obtains "RetrieveMemories now query p excluded name s = []"
  | picked where "RetrieveMemories now query p excluded name s = map (Recalled now name) (sort_key by_time picked)"
      "subseq picked (sort_key by_relevance (RecallCandidates now query p excluded s))"
      "length picked \<le> MaxRecalled" "recall_size name picked \<le> MaxRecallBytes"
proof (cases "name \<noteq> [] \<and> \<not> ValidateNpcAgentPlainText name 80 32 False")
  case True
  then show ?thesis using that(1) by (simp add: RetrieveMemories_def)
next
  case False
  let ?cs = "sort_key by_relevance (RecallCandidates now query p excluded s)"
  obtain picked where p: "Select_loop name ?cs [] 0 = [] @ picked" "subseq picked ?cs"
    using Select_loop_subseq by blast
  then have "length picked \<le> MaxRecalled" "recall_size name picked \<le> MaxRecallBytes"
    using Select_loop_bounds [of "[]" name 0 ?cs] by (simp_all add: recall_size_def MaxRecalled_def)
  moreover have "RetrieveMemories now query p excluded name s = map (Recalled now name) (sort_key by_time picked)"
    using False p(1) by (auto simp: RetrieveMemories_def)
  ultimately show ?thesis using that(2) p(2) by blast
qed

lemma distinct_candidates:
  assumes "memory_ok ops s"
  shows "distinct (map (\<lambda>c. me_Id (fst c)) (RecallCandidates now query p excluded s))"
proof -
  let ?pub = "filter (\<lambda>e. \<not> me_AtMs e > now) (ms_public s)"
  let ?priv = "filter (\<lambda>e. me_Player e = p \<and> \<not> (me_AtMs e > now \<or> excluded \<noteq> 0 \<and> me_TurnId e = excluded)) (ms_private s)"
  have ids: "map (\<lambda>c. me_Id (fst c)) (RecallCandidates now query p excluded s) =
      map me_Id ?pub @ (if IsPlayer p then map me_Id ?priv else [])"
    by (simp add: RecallCandidates_def Let_def o_def)
  have "distinct (map me_Id (ms_private s) @ map me_Id (ms_public s))"
    using assms by (simp add: memory_ok_def entries_of_def)
  then have d: "distinct (map me_Id (ms_private s))" "distinct (map me_Id (ms_public s))"
      "me_Id ` set (ms_private s) \<inter> me_Id ` set (ms_public s) = {}" by simp_all
  have "me_Id ` set ?pub \<inter> me_Id ` set ?priv = {}" using d(3) by auto
  then show ?thesis unfolding ids using d(1,2) by (simp add: distinct_map_filter)
qed

lemma recall_private_lemma:
  assumes "memory_ok ops s"
  shows "list_all (recall_allowed ops p) (RetrieveMemories now query p excluded name s)"
proof (cases rule: Retrieve_picked [of now query p excluded name s])
  case (2 picked)
  have "recall_allowed ops p (Recalled now name c)" if "c \<in> set picked" for c
  proof -
    have "c \<in> set (RecallCandidates now query p excluded s)" using subseq_set [OF 2(2)] that by auto
    from set_Candidates [OF this] assms show ?thesis
      by (auto simp: recall_allowed_def Recalled_def memory_ok_def list_all_iff private_entry_def public_entry_def)
  qed
  then show ?thesis by (simp add: 2(1) list_all_iff)
qed simp

lemma age_order:
  assumes "by_time a \<le> by_time b" and "me_AtMs (fst b) \<le> now"
  shows "now - me_AtMs (fst b) \<le> now - me_AtMs (fst a)"
proof -
  have "me_AtMs (fst a) \<le> me_AtMs (fst b)"
    using assms(1) by (auto simp: by_time_def less_eq_prod_def word_less_def word_le_def)
  with assms(2) show ?thesis by (simp add: word_le_nat_alt unat_sub_if')
qed

lemma sum_list_sort: "(\<Sum>x\<leftarrow>sort_key k xs. f x) = (\<Sum>x\<leftarrow>xs. (f x :: nat))"
proof -
  have "mset (map f (sort_key k xs)) = mset (map f xs)" by simp
  then have "sum_mset (mset (map f (sort_key k xs))) = sum_mset (mset (map f xs))" by (rule arg_cong)
  then show ?thesis by (simp only: sum_mset_sum_list)
qed

lemma distinct_map_sort: "distinct (map f (sort_key k xs)) \<longleftrightarrow> distinct (map f xs)"
proof -
  have "mset (map f (sort_key k xs)) = mset (map f xs)" by simp
  then show ?thesis by (rule mset_eq_imp_distinct_iff)
qed

lemma recall_bounds_lemma:
  fixes now query p excluded name
  assumes "memory_ok ops s"
  defines "r \<equiv> RetrieveMemories now query p excluded name s"
  shows "length r \<le> MaxRecalled" and "(\<Sum>m\<leftarrow>r. memory_size m) \<le> MaxRecallBytes"
    and "distinct (map nm_Id r)" and "sorted_wrt (\<lambda>a b. nm_AgeMs b \<le> nm_AgeMs a) r"
proof -
  have "length r \<le> MaxRecalled \<and> (\<Sum>m\<leftarrow>r. memory_size m) \<le> MaxRecallBytes \<and> distinct (map nm_Id r) \<and>
      sorted_wrt (\<lambda>a b. nm_AgeMs b \<le> nm_AgeMs a) r"
  proof (cases rule: Retrieve_picked [of now query p excluded name s])
    case 1
    then show ?thesis by (simp add: r_def)
  next
    case (2 picked)
    let ?t = "sort_key by_time picked"
    have r: "r = map (Recalled now name) ?t" by (simp add: r_def 2(1))
    have "(\<Sum>m\<leftarrow>r. memory_size m) = (\<Sum>c\<leftarrow>?t. RecallCost name (fst c))"
      by (simp add: r o_def memory_size_def Recalled_def RecallCost_def)
    also have "\<dots> = recall_size name picked" unfolding recall_size_def by (rule sum_list_sort)
    finally have size: "(\<Sum>m\<leftarrow>r. memory_size m) \<le> MaxRecallBytes" using 2(4) by simp
    have "distinct (map (\<lambda>c. me_Id (fst c)) (sort_key by_relevance (RecallCandidates now query p excluded s)))"
      using distinct_candidates [OF assms(1), of now query p excluded] by (simp only: distinct_map_sort)
    from subseq_distinct [OF subseq_map [OF 2(2)] this] have "distinct (map (\<lambda>c. me_Id (fst c)) ?t)"
      by (simp only: distinct_map_sort)
    then have ids: "distinct (map nm_Id r)" by (simp add: r o_def Recalled_def)
    have past: "me_AtMs (fst c) \<le> now" if "c \<in> set ?t" for c
      using that subseq_set [OF 2(2)] set_Candidates [of c now query p excluded s] by auto
    have "sorted_wrt (\<lambda>a b. by_time a \<le> by_time b) ?t"
      using sorted_sort_key [of by_time picked] by (simp add: sorted_map)
    then have "sorted_wrt (\<lambda>a b. now - me_AtMs (fst b) \<le> now - me_AtMs (fst a)) ?t"
      by (rule sorted_wrt_mono_rel [rotated]) (rule age_order, assumption, rule past)
    then have "sorted_wrt (\<lambda>a b. nm_AgeMs b \<le> nm_AgeMs a) r" by (simp add: r sorted_wrt_map Recalled_def)
    with size ids 2(3) show ?thesis by (simp add: r)
  qed
  then show "length r \<le> MaxRecalled" "(\<Sum>m\<leftarrow>r. memory_size m) \<le> MaxRecallBytes"
    "distinct (map nm_Id r)" "sorted_wrt (\<lambda>a b. nm_AgeMs b \<le> nm_AgeMs a) r" by simp_all
qed


text \<open>
  A recall never exceeds its prompt: at most six records of at most 3072 bytes together, each
  record once, in the order of their times.
\<close>
theorem recall_bounded:
  "length (RetrieveMemories now query p excluded name (memory_run ops)) \<le> MaxRecalled \<and>
   (\<Sum>m\<leftarrow>RetrieveMemories now query p excluded name (memory_run ops). memory_size m) \<le> MaxRecallBytes \<and>
   distinct (map nm_Id (RetrieveMemories now query p excluded name (memory_run ops))) \<and>
   sorted_wrt (\<lambda>a b. nm_AgeMs b \<le> nm_AgeMs a) (RetrieveMemories now query p excluded name (memory_run ops))"
  by (intro conjI recall_bounds_lemma [OF memory_run_ok])

text \<open>
  C34: The store of one agent stays bounded and consistent: at most 64 private records of at most
  eight players, at most 32 of one player, at most 32 public records; the ids of all records differ;
  every private record is dialogue of a real player, holding words that player said, and every
  public record belongs to no player.
\<close>
theorem memory_store_sound:
  "memory_ok ops (memory_run ops)"
  by (rule memory_run_ok)

lemma spaced_feedback:
  "ValidateNpcAgentPlainText [0x61] 80 32 False" "ValidateNpcAgentSpeechText [0x20, 0x61]"
  "CleanNpcAgentSpeechText [0x20, 0x61] = [0x61]"
  by code_simp+

text \<open>
  Identical outcomes need not coalesce: the stored text is trimmed but the incoming feedback is
  compared untrimmed, so feedback that starts with a space is recorded again each time.
\<close>
theorem untrimmed_feedback_not_coalesced:
  "length (ms_public (memory_run [M_Action [0x61] [0x20, 0x61] 1, M_Action [0x61] [0x20, 0x61] 2])) = 2 \<and>
   list_all (\<lambda>e. me_Speaker e = [0x61] \<and> me_Text e = [0x61])
     (ms_public (memory_run [M_Action [0x61] [0x20, 0x61] 1, M_Action [0x61] [0x20, 0x61] 2]))"
  by (simp add: memory_run_def MemoryStore_init_def RememberAction_def ValidMemory_def spaced_feedback
      Memory_Observe_def RememberPublic_def CanAllocate_def MaxPublicRecords_def word_less_nat_alt)

end
