(* ===== verification/Spec2Isabelle.thy ===== *)
theory Spec2Isabelle
  imports Quest_Gossip Agent_Startup Group_Policy Group_Intents Supply_Ledger Update_Scheduler Planning_Scheduler Raid_Party Advice_Budget
    Action_System Npc_Dialogue Npc_Memory
begin

text \<open>
  Verification library of the AIWorld subsystem of WoWBehaviorAI, a TrinityCore server whose
  creatures and quests are driven by a simulation of needs, memories, groups and a language model.
  The modelled code is the decision logic under \<open>src/src/server/game/AIWorld\<close> (paths below are
  relative to it) and \<open>Player::ModifyMoney\<close>.

  THE PROGRAM. One object, \<open>AIWorldMgr\<close>, owns everything and runs on the world thread. At start-up
  it loads the agents from the characters database, applies the participation catalogue,
  reconciles the population with the creature spawns of the world and activates a zone. Every tick
  it drains two bounded queues that map threads fill (world events, kill credit), lets schedulers
  pick the agents that are due, updates their needs and goals, validates the actions they ask for,
  simulates groups, and maintains the dynamic quests. A language model is asked for tasks and for
  advice through a budget; its answers are drafts that must pass an acceptance check and an
  authoritative validation before a quest is created. NPC agents speak with players; what they say,
  remember and may repeat is bounded. Food moves between depots, fields, carcasses and actors
  through one ledger.

  THE THEORIES, each with its own introduction:

  Shared. \<open>AIW_Prelude\<close>: machine integers, guids, binary32 values, fact collections. \<open>Float_Arith\<close>:
  rounding of binary32 and binary64 arithmetic. \<open>Std_Map\<close>: \<open>std::map\<close> and the vector operations.

  Events and quests. \<open>World_Events\<close>: \<open>Event/*\<close>, \<open>Quest/DynamicQuestKillEventBus\<close>, the two queues.
  \<open>Task_Validation\<close>: \<open>Inference/DynamicTaskAcceptance\<close> and \<open>Inference/DynamicTaskValidation\<close>.
  \<open>Quest_Lifecycle\<close>: \<open>Quest/DynamicQuestLifecycle\<close> and the id allocator, one definition per
  transition. \<open>Quest_Registry\<close>: \<open>Quest/DynamicQuestRegistry\<close>. \<open>Quest_Authority\<close>: the checks of
  creation, acceptance and completion and the quest methods of \<open>AIWorldMgr.cpp\<close>, with the money of
  players and the messages sent to them as state. \<open>Quest_Runs\<close>: sequences of all entry points that
  change quest state, in any order. \<open>Quest_Gossip\<close>: what a giver shows to a player.

  The population. \<open>Agent_Registry\<close>: \<open>Agent/AgentRegistry\<close>. \<open>Spawn_Plan\<close>: the catalogues, the spawn
  census and \<open>Reconciliation/*\<close>. \<open>Agent_Startup\<close>: \<open>AIWorldMgr::Initialize\<close>, the participation policy,
  reconciliation and zone activation, with the batches of \<open>Persistence/AgentPersistence\<close>.

  Agents. \<open>Agent_Memory\<close>: \<open>Perception/Observation.h\<close>, \<open>Memory/ShortTermMemory\<close>,
  \<open>Memory/LongTermMemory\<close>, \<open>Memory/MemoryImportance\<close>. \<open>Memory_Retrieval\<close>: \<open>Memory/MemoryRetrieval\<close>.
  \<open>Needs_Goals\<close>: \<open>Needs/*\<close>, \<open>Goal/*\<close>. \<open>Role_Policy\<close>: \<open>Simulation/SimulationScope.h\<close>,
  \<open>Agent/LivingRolePolicy.h\<close>, \<open>Agent/WolfBehaviorPolicy.h\<close>, \<open>Agent/LivingHuntPolicy.h\<close>.
  \<open>Action_System\<close>: the validation of \<open>Action/ActionSystem\<close>.

  Schedulers. \<open>Due_Selection\<close>: the three batch schedulers of \<open>Scheduler/\<close>. \<open>Update_Scheduler\<close>:
  \<open>Scheduler/AgentUpdateScheduler.h\<close>. \<open>Planning_Scheduler\<close>: \<open>Scheduler/PlanningWorkScheduler.h\<close>.
  \<open>Advice_Budget\<close>: \<open>Agent/LivingAdviceBudget.h\<close> and \<open>Agent/LivingAdviceAdmission.h\<close>.

  Groups. \<open>Agent_Groups\<close>: the group registry, its asynchronous lifecycle and the id sequence of the
  persistence. \<open>Group_Policy\<close>: \<open>Agent/AgentGroupPolicySystem\<close> and the requests that ask it.
  \<open>Group_Intents\<close>: formations, regroup and roam intents, hunts, projections, group resources.
  \<open>Coalitions\<close>: \<open>Agent/CoalitionFormationSystem\<close>, \<open>Agent/CoalitionMaintenanceSystem\<close>.
  \<open>Raid_Party\<close>: \<open>Agent/LivingRaidParty.h\<close>. \<open>Supply_Ledger\<close>: \<open>Agent/LivingSupplyState.h\<close>.

  Speech. \<open>Npc_Text\<close>: UTF-8 validation and normal form, byte by byte. \<open>Npc_Dialogue\<close>: history, the
  guard on conversations and the speech state (\<open>Agent/NpcAgentDialogue.h\<close>,
  \<open>Agent/NpcAgentSpeechState.h\<close>). \<open>Npc_Memory\<close>: \<open>Agent/NpcAgentMemory.h\<close>.

  CORRESPONDENCE. A struct or class is a record, an enum a datatype with the constructors of the
  source, a method a definition of (nearly) the same name that takes the object and returns the
  result with the new object. Guards and early returns keep their order, because the first failing
  check decides the reported reason. Null pointers and empty optionals are \<open>None\<close>. Logging has no
  effect on the state and is left out. Locks: a queue or the registry of group locks is held for
  the whole of each operation, so a concurrent execution is a sequence of whole operations. Hash
  maps are ordered maps; wherever one is iterated the modelled result does not depend on the
  order, or the theory says what it keeps. Where \<open>std::sort\<close> meets equivalent elements, the order
  the model keeps is one of those the library may produce.

  INTERFACES. \<open>std_map\<close> and its extension \<open>ordered_map\<close> say what lookup and iteration return after
  an update (interpretation \<open>om\<close>); \<open>bounded_bus\<close> is the contract of a bounded queue with stamped ids
  (\<open>eb\<close>, \<open>kb\<close>); \<open>quest_transition\<close> is the contract of a quest transition on which the registry
  and the authority rest (\<open>q_accept\<close>, \<open>q_progress\<close>, \<open>q_complete\<close>, \<open>q_fail\<close>, \<open>q_expire\<close>);
  \<open>due_selection\<close> is the contract of a batch scheduler, from which fairness follows (\<open>ds\<close>, \<open>cs\<close>,
  \<open>gs\<close>); \<open>record_law\<close> is a law of agent records that the corrections of the start-up keep
  (\<open>loaded\<close>, \<open>member\<close>, \<open>policy\<close>).

  WHAT IS SHOWN. Quests: the registry invariant over all reachable registries, the history of an
  instance along the documented machine, ids that never return, exactly-once kill credit, the
  containment of lost credit, maintenance that clears expired offers, and a turn-in that pays once
  and pays nothing when it is refused. Food: conservation and no overcommitment over all runs of
  the ledger, and each physical event applied once. Population: start-up loads only lawful agents,
  a fresh zone ends fully controlled, activation changes a whole zone or nothing, the plan is
  exactly the difference of census and bindings. Groups: members share a faction, sizes stay
  within policy, stable groups are protected (\<open>Group_Policy\<close> refines \<open>Agent_Groups\<close>), intents reach
  exactly the members meant. Schedulers: the update scheduler refines the choice of the earliest
  agent, the others are free of starvation. Agents: bounded, duplicate-free memories, exact
  retrieval, justified goals and validated actions. Speech: private memories stay private, turns
  are answered once, remarks are spaced, the normal form is total and idempotent on valid text, and
  UTF-8 decoding inverts encoding.

  BOUNDS AND TERMINATION. Unsigned integers wrap at their width. Counters of 64 bits (ids,
  sequences, generations) are words too; a theorem that needs one not to wrap says so as a
  hypothesis. Sizes of containers are natural numbers; where the code narrows one to \<open>uint32\<close> the
  model does. Floats are rationals rounded after every operation, with infinities and NaN, and one
  zero. No loop needs fuel: loops over containers are structural, and the others (the chunks of a
  batch, the scanners of text) have a measure.

  PARAMETERS. What the game engine, the database and the C library answer are arguments:
  \<open>LiveWorld\<close> (live agents, creatures, players, clock), \<open>MoneyHooks\<close> (script hooks of
  \<open>ModifyMoney\<close>), \<open>AgentDatabase\<close> and \<open>SpawnWorld\<close> (queries and statements on an abstract database,
  any of which may fail), \<open>faction\<close> and \<open>find_by_spawn\<close> (lookups in another registry), reports on
  creatures, the success of each transaction, the formatting of numbers, \<open>sinf\<close> and \<open>cosf\<close>.

  NOT MODELLED. The wiring, console commands and configuration of \<open>AIWorldMgr\<close>; the parts of the
  living NPC runtime that move and fight creatures through the engine, and the executors and the
  creature AI hook behind them; the HTTP client and its threads; the JSON codecs, which are built
  on the vendored rapidjson; SQL text and row decoding beyond the batches and their read-backs;
  telemetry and time measurement; perception, which asks the engine what is visible. In all of
  these the behaviour is that of code outside the subsystem. The rest of the repository is the
  TrinityCore server, its vendored libraries, tools and database dumps.
\<close>

end
